(* ===== verification/Prelude.thy ===== *)
theory Prelude
  imports Main "HOL-Library.Word" "HOL-Library.List_Lexorder" "HOL-Library.Char_ord"
    "HOL-Library.Sublist"
begin

text \<open>
  What every component of the library shares: Go's byte slices and strings as one type,
  error values, the two ways the code sequences fallible steps (a pure result and a
  result beside a state), Go's loops over slices, and the big-endian integers of
  \<open>encoding/binary\<close>. The named collections at the top gather the facts that the component
  proofs hand to \<open>simp\<close>.
\<close>

named_theorems codec_simps \<open>lengths, inverses and order of byte encodings\<close>
named_theorems step_simps \<open>how sequenced steps succeed and fail\<close>

section \<open>Bytes and errors\<close>

text \<open>
  Go converts freely between \<open>string\<close> and \<open>[]byte\<close>; both are finite sequences of
  octets, and HOL's \<open>char\<close> is an octet. The order of \<open>bytes.Compare\<close> and of a key-value
  engine's iterator is the lexicographic order of \<open>HOL-Library.List_Lexorder\<close>.
\<close>

type_synonym bytes = string

text \<open>
  The errors the storage layers return: \<open>store.ErrKeyNotFound\<close>, \<open>badger.ErrConflict\<close> and
  every other error, with its message.
\<close>

datatype err = ErrKeyNotFound | ErrConflict | ErrOther string

section \<open>Fallible steps\<close>

text \<open>\<open>if err != nil { return err }\<close> between two pure steps.\<close>

definition rbind :: "'e + 'a \<Rightarrow> ('a \<Rightarrow> 'e + 'b) \<Rightarrow> 'e + 'b" where
  "rbind r f = (case r of Inl e \<Rightarrow> Inl e | Inr x \<Rightarrow> f x)"

lemma rbind_simps [simp]: "rbind (Inl e) f = Inl e" "rbind (Inr x) f = f x"
  by (simp_all add: rbind_def)

lemma rbind_eq_Inr [step_simps]: "rbind r f = Inr y \<longleftrightarrow> (\<exists>x. r = Inr x \<and> f x = Inr y)"
  by (cases r) auto

lemma rbind_eq_Inl [step_simps]:
  "rbind r f = Inl e \<longleftrightarrow> r = Inl e \<or> (\<exists>x. r = Inr x \<and> f x = Inl e)"
  by (cases r) auto

text \<open>A \<open>for\<close> loop whose body updates a value and may return early with an error.\<close>

fun rfold :: "('x \<Rightarrow> 'a \<Rightarrow> 'e + 'a) \<Rightarrow> 'x list \<Rightarrow> 'a \<Rightarrow> 'e + 'a" where
  "rfold f [] a = Inr a"
| "rfold f (x # xs) a = rbind (f x a) (rfold f xs)"

text \<open>
  A method on a shared mutable object: it takes the object's state and returns its result or
  its error beside the state as it left it. A failing step keeps what was written before.
\<close>

type_synonym ('s, 'e, 'a) sm = "'s \<Rightarrow> ('e + 'a) \<times> 's"

definition sret :: "'a \<Rightarrow> ('s, 'e, 'a) sm" where
  "sret x = (\<lambda>s. (Inr x, s))"

definition sfail :: "'e \<Rightarrow> ('s, 'e, 'a) sm" where
  "sfail e = (\<lambda>s. (Inl e, s))"

definition slift :: "'e + 'a \<Rightarrow> ('s, 'e, 'a) sm" where
  "slift r = (\<lambda>s. (r, s))"

definition sread :: "('s \<Rightarrow> 'e + 'a) \<Rightarrow> ('s, 'e, 'a) sm" where
  "sread f = (\<lambda>s. (f s, s))"

definition sbind :: "('s, 'e, 'a) sm \<Rightarrow> ('a \<Rightarrow> ('s, 'e, 'b) sm) \<Rightarrow> ('s, 'e, 'b) sm" where
  "sbind m f = (\<lambda>s. case m s of (Inl e, t) \<Rightarrow> (Inl e, t) | (Inr x, t) \<Rightarrow> f x t)"

definition sseq :: "('s, 'e, unit) sm \<Rightarrow> ('s, 'e, 'b) sm \<Rightarrow> ('s, 'e, 'b) sm" where
  "sseq m k = sbind m (\<lambda>_. k)"

fun sfor :: "('x \<Rightarrow> ('s, 'e, unit) sm) \<Rightarrow> 'x list \<Rightarrow> ('s, 'e, unit) sm" where
  "sfor f [] = sret ()"
| "sfor f (x # xs) = sseq (f x) (sfor f xs)"

fun smap :: "('x \<Rightarrow> ('s, 'e, 'y) sm) \<Rightarrow> 'x list \<Rightarrow> ('s, 'e, 'y list) sm" where
  "smap f [] = sret []"
| "smap f (x # xs) = sbind (f x) (\<lambda>y. sbind (smap f xs) (\<lambda>ys. sret (y # ys)))"

lemma sm_apply [step_simps]:
  "sret x s = (Inr x, s)" "sfail e s = (Inl e, s)" "slift r s = (r, s)" "sread f s = (f s, s)"
  "sbind m k s = (case m s of (Inl e, t) \<Rightarrow> (Inl e, t) | (Inr x, t) \<Rightarrow> k x t)"
  "sseq n k' s = (case n s of (Inl e, t) \<Rightarrow> (Inl e, t) | (Inr _, t) \<Rightarrow> k' t)"
  by (simp_all add: sret_def sfail_def slift_def sread_def sbind_def sseq_def)

lemma sbind_Inr [step_simps]: "m s = (Inr x, t) \<Longrightarrow> sbind m k s = k x t"
  by (simp add: sbind_def)

lemma sseq_Inr [step_simps]: "m s = (Inr u, t) \<Longrightarrow> sseq m k s = k t"
  by (simp add: sseq_def sbind_def)

text \<open>
  The rule for loops over an object: an invariant relation that each iteration keeps when it
  succeeds (and every iteration does succeed) holds after the loop.
\<close>

lemma sfor_total:
  assumes "\<And>x s. x \<in> set xs \<Longrightarrow> P s \<Longrightarrow> \<exists>t. f x s = (Inr (), t) \<and> P t"
    and "P s"
  shows "\<exists>t. sfor f xs s = (Inr (), t) \<and> P t"
  using assms
proof (induction xs arbitrary: s)
  case Nil
  then show ?case by (simp add: sm_apply)
next
  case (Cons x xs)
  obtain t where "f x s = (Inr (), t)" "P t"
    using Cons.prems(1)[of x s] Cons.prems(2) by auto
  then show ?case
    using Cons.IH[of t] Cons.prems(1) by (simp add: sm_apply)
qed

text \<open>A loop that keeps a predicate whether or not it fails.\<close>

lemma sfor_inv:
  assumes "\<And>x s. x \<in> set xs \<Longrightarrow> P s \<Longrightarrow> P (snd (f x s))" and "P s"
  shows "P (snd (sfor f xs s))"
  using assms
proof (induction xs arbitrary: s)
  case Nil
  then show ?case by (simp add: sm_apply)
next
  case (Cons x xs)
  obtain r t where f: "f x s = (r, t)" by fastforce
  with Cons.prems have "P t" by (metis list.set_intros(1) snd_conv)
  with f Cons show ?case by (cases r) (auto simp: sm_apply)
qed

lemma sbind_inv:
  assumes "P (snd (m s))" and "\<And>x t. m s = (Inr x, t) \<Longrightarrow> P t \<Longrightarrow> P (snd (k x t))"
  shows "P (snd (sbind m k s))"
  using assms by (cases "m s") (auto simp: sbind_def split: sum.splits)

lemma sseq_inv:
  assumes "P (snd (m s))" and "\<And>t. m s = (Inr (), t) \<Longrightarrow> P t \<Longrightarrow> P (snd (k t))"
  shows "P (snd (sseq m k s))"
  unfolding sseq_def by (rule sbind_inv) (use assms in auto)

section \<open>Big-endian integers\<close>

text \<open>
  \<open>be_bytes n x\<close> is what \<open>binary.BigEndian.PutUint32\<close> (\<open>n = 4\<close>) and \<open>PutUint64\<close>
  (\<open>n = 8\<close>) write, and \<open>be_nat\<close> is what \<open>Uint32\<close> and \<open>Uint64\<close> read.
\<close>

fun be_bytes :: "nat \<Rightarrow> nat \<Rightarrow> bytes" where
  "be_bytes 0 x = []"
| "be_bytes (Suc n) x = char_of (x div 256 ^ n) # be_bytes n x"

fun be_nat :: "bytes \<Rightarrow> nat" where
  "be_nat [] = 0"
| "be_nat (c # cs) = of_char c * 256 ^ length cs + be_nat cs"

lemma be_bytes_numeral [codec_simps]:
  "be_bytes (numeral k) x = char_of (x div 256 ^ pred_numeral k) # be_bytes (pred_numeral k) x"
  by (simp add: numeral_eq_Suc)

lemma length_be_bytes [simp, codec_simps]: "length (be_bytes n x) = n"
  by (induction n) auto

lemma of_char_less_256 [simp]: "(of_char c :: nat) < 256"
proof -
  have "(of_char c :: nat) = of_char c mod 256" by simp
  also have "\<dots> < 256" by (rule mod_less_divisor) simp
  finally show ?thesis .
qed

lemma be_nat_bound [codec_simps]: "be_nat cs < 256 ^ length cs"
proof (induction cs)
  case Nil
  show ?case by simp
next
  case (Cons c cs)
  have "of_char c * 256 ^ length cs + be_nat cs < (of_char c + 1) * (256 ^ length cs :: nat)"
    using Cons.IH by (simp add: algebra_simps)
  also have "\<dots> \<le> 256 * 256 ^ length cs"
    using of_char_less_256[of c] by (intro mult_le_mono1) linarith
  finally show ?case by simp
qed

lemma be_nat_be_bytes [codec_simps]: "be_nat (be_bytes n x) = x mod 256 ^ n"
proof (induction n)
  case 0
  show ?case by simp
next
  case (Suc n)
  have "x mod (256 ^ n * 256) = 256 ^ n * (x div 256 ^ n mod 256) + x mod 256 ^ n"
    by (rule mod_mult2_eq)
  then show ?case using Suc by (simp add: algebra_simps)
qed

lemma be_nat_inj: "length xs = length ys \<Longrightarrow> be_nat xs = be_nat ys \<Longrightarrow> xs = ys"
proof (induction xs ys rule: list_induct2)
  case Nil
  show ?case by simp
next
  case (Cons x xs y ys)
  let ?B = "256 ^ length ys :: nat"
  have eq: "of_char x * ?B + be_nat xs = of_char y * ?B + be_nat ys"
    using Cons by simp
  have lt: "be_nat xs < ?B" "be_nat ys < ?B"
    using be_nat_bound[of xs] be_nat_bound[of ys] Cons.hyps by simp_all
  have "(of_char x * ?B + be_nat xs) div ?B = of_char x"
    "(of_char y * ?B + be_nat ys) div ?B = of_char y"
    using lt by simp_all
  then have "(of_char x :: nat) = of_char y" using eq by simp
  then have "x = y" by simp
  moreover from this eq have "be_nat xs = be_nat ys" by simp
  ultimately show ?case using Cons.IH by simp
qed

lemma be_bytes_be_nat [codec_simps]: "be_bytes (length cs) (be_nat cs) = cs"
  by (rule be_nat_inj) (simp_all add: be_nat_be_bytes be_nat_bound)

text \<open>Fixed-width big-endian integers sort as their values: the point of the encoding.\<close>

lemma be_nat_less_iff:
  "length xs = length ys \<Longrightarrow> xs < ys \<longleftrightarrow> be_nat xs < be_nat ys"
proof (induction xs ys rule: list_induct2)
  case Nil
  show ?case by simp
next
  case (Cons x xs y ys)
  let ?B = "256 ^ length ys :: nat"
  have lt: "be_nat xs < ?B" "be_nat ys < ?B"
    using be_nat_bound[of xs] be_nat_bound[of ys] Cons.hyps by simp_all
  consider "(of_char x :: nat) < of_char y" | "x = y" | "(of_char y :: nat) < of_char x"
    by (metis linorder_neqE_nat of_char_eq_iff)
  then show ?case
  proof cases
    case 1
    then have "(of_char x + 1) * ?B \<le> of_char y * ?B" by (intro mult_le_mono1) simp
    then have "of_char x * ?B + be_nat xs < of_char y * ?B + be_nat ys"
      using lt by (simp add: algebra_simps)
    with 1 Cons.hyps show ?thesis by (simp add: less_char_def)
  next
    case 2
    with Cons show ?thesis by simp
  next
    case 3
    then have "(of_char y + 1) * ?B \<le> of_char x * ?B" by (intro mult_le_mono1) simp
    then have "of_char y * ?B + be_nat ys < of_char x * ?B + be_nat xs"
      using lt by (simp add: algebra_simps)
    with 3 Cons.hyps show ?thesis by (auto simp: less_char_def)
  qed
qed

end
