(* ===== verification/Engine.thy ===== *)
theory Engine
  imports Prelude
begin

text \<open>
  The embedded key-value engine under \<open>pkg/store/badger.go\<close>, which is a third-party package
  (\<open>github.com/dgraph-io/badger\<close>) and therefore a parameter: a record of the calls that the
  store makes inside a transaction, and a locale with the behaviour its documentation
  promises and the store relies on. \<open>mem_engine\<close> is a small concrete engine over an
  association list that has this behaviour, for the executable examples.
\<close>

section \<open>The calls\<close>

text \<open>
  \<open>tx_get\<close> is \<open>Txn.Get\<close> followed by \<open>Item.Value\<close>; \<open>tx_set\<close> and \<open>tx_delete\<close> are the
  transaction's writes, visible to later reads of the same transaction; \<open>it_prefix\<close> lists
  the items an iterator with \<open>opts.Prefix\<close> visits, each with the outcome of reading its
  value; \<open>it_seek\<close> lists the keys visited from \<open>Seek\<close> on, ascending, or descending with
  \<open>opts.Reverse\<close>; \<open>tx_commit\<close> is the outcome of the commit in \<open>DB.Update\<close>, which may
  differ from one attempt to the next.
\<close>

record 'db engine =
  tx_get :: "'db \<Rightarrow> bytes \<Rightarrow> err + bytes"
  tx_set :: "'db \<Rightarrow> bytes \<Rightarrow> bytes \<Rightarrow> err + 'db"
  tx_delete :: "'db \<Rightarrow> bytes \<Rightarrow> err + 'db"
  it_prefix :: "'db \<Rightarrow> bytes \<Rightarrow> (bytes \<times> (err + bytes)) list"
  it_seek :: "'db \<Rightarrow> bool \<Rightarrow> bytes \<Rightarrow> bytes list"
  tx_commit :: "'db \<Rightarrow> 'db \<Rightarrow> nat \<Rightarrow> err option"

text \<open>The contents of a database, as its reads show them.\<close>

definition eview :: "'db engine \<Rightarrow> 'db \<Rightarrow> bytes \<Rightarrow> bytes option" where
  "eview E db k = (case tx_get E db k of Inl _ \<Rightarrow> None | Inr v \<Rightarrow> Some v)"

section \<open>What the store relies on\<close>

locale kv_engine =
  fixes E :: "'db engine"
  assumes get_err: "tx_get E db k = Inl e \<Longrightarrow> e = ErrKeyNotFound"
    and set_ok: "\<exists>db'. tx_set E db k v = Inr db' \<and> eview E db' = (eview E db)(k \<mapsto> v)"
    and delete_ok: "\<exists>db'. tx_delete E db k = Inr db' \<and> eview E db' = (eview E db)(k := None)"
    and commit_ok: "tx_commit E db db' i = None"
begin

lemma get_eview:
  "tx_get E db k = (case eview E db k of None \<Rightarrow> Inl ErrKeyNotFound | Some v \<Rightarrow> Inr v)"
  using get_err[of db k] by (auto simp: eview_def split: sum.splits)

text \<open>A loop of writes at distinct places: any loop of sets and deletes succeeds.\<close>

lemma rfold_ok:
  assumes "\<And>x db. x \<in> set xs \<Longrightarrow> \<exists>db'. f x db = Inr db' \<and> eview E db' = g x (eview E db)"
  shows "\<exists>db'. rfold f xs db = Inr db' \<and> eview E db' = fold g xs (eview E db)"
  using assms
proof (induction xs arbitrary: db)
  case Nil
  then show ?case by simp
next
  case (Cons x xs)
  obtain d where d: "f x db = Inr d" "eview E d = g x (eview E db)"
    using Cons.prems[of x db] by auto
  obtain d' where "rfold f xs d = Inr d'" "eview E d' = fold g xs (eview E d)"
    using Cons.IH[of d] Cons.prems by auto
  with d show ?case by simp
qed

end

locale badger_engine = kv_engine +
  assumes prefix_sorted: "sorted_wrt (<) (map fst (it_prefix E db p))"
    and prefix_items: "(k, r) \<in> set (it_prefix E db p) \<longleftrightarrow>
          prefix p k \<and> (\<exists>v. eview E db k = Some v \<and> r = Inr v)"
    and seek_sorted: "sorted_wrt (<) (it_seek E db False k)"
    and seek_items: "set (it_seek E db False k) = {k'. eview E db k' \<noteq> None \<and> k \<le> k'}"
    and seek_rev_sorted: "sorted_wrt (>) (it_seek E db True k)"
    and seek_rev_items: "set (it_seek E db True k) = {k'. eview E db k' \<noteq> None \<and> k' \<le> k}"
begin

lemma prefix_distinct: "distinct (map fst (it_prefix E db p))"
  using prefix_sorted[of db p] by (simp add: strict_sorted_iff)

lemma prefix_values:
  assumes "x \<in> set (it_prefix E db p)"
  shows "\<exists>v. snd x = Inr v \<and> eview E db (fst x) = Some v" "prefix p (fst x)"
  using prefix_items[of "fst x" "snd x" db p] assms by auto

lemma prefix_keys:
  "set (map fst (it_prefix E db p)) = {k. prefix p k \<and> eview E db k \<noteq> None}"
proof -
  have "set (map fst xs) = {k. \<exists>r. (k, r) \<in> set xs}" for xs :: "(bytes \<times> (err + bytes)) list"
    by force
  then show ?thesis by (auto simp: prefix_items)
qed

end

section \<open>Prefixes and the order of keys\<close>

text \<open>The keys with a given prefix are an interval, so a seek followed by
  \<open>ValidForPrefix\<close> visits all of them and nothing else.\<close>

lemma list_le_append [simp]: "p \<le> p @ (q :: bytes)"
  by (induction p) auto

lemma prefix_le: "prefix p k \<Longrightarrow> p \<le> (k :: bytes)"
  by (auto simp: prefix_def)

lemma prefix_interval:
  "p \<le> k \<Longrightarrow> k \<le> k' \<Longrightarrow> prefix p k' \<Longrightarrow> prefix p (k :: bytes)"
proof (induction p arbitrary: k k')
  case Nil
  then show ?case by simp
next
  case (Cons c p)
  obtain d ks d' ks' where k: "k = d # ks" "k' = d' # ks'" "d' = c"
    using Cons.prems by (cases k; cases k') auto
  with Cons.prems have "c \<le> d" "d \<le> c" by auto
  then have "d = c" by simp
  with k Cons show ?case by auto
qed

lemma takeWhile_interval:
  assumes "sorted_wrt (<) ks" and "\<And>k. k \<in> set ks \<Longrightarrow> p \<le> k"
  shows "takeWhile (prefix p) ks = filter (prefix p) (ks :: bytes list)"
  using assms
proof (induction ks)
  case Nil
  then show ?case by simp
next
  case (Cons k ks)
  show ?case
  proof (cases "prefix p k")
    case True
    with Cons show ?thesis by auto
  next
    case False
    have "\<not> prefix p k'" if "k' \<in> set ks" for k'
      using prefix_interval[of p k k'] Cons.prems False that by (auto simp: less_imp_le)
    with False show ?thesis by (simp add: filter_empty_conv)
  qed
qed

lemma takeWhile_interval_rev:
  assumes "sorted_wrt (>) ks" and "\<And>k. k \<in> set ks \<Longrightarrow> k \<le> p @ q"
  shows "takeWhile (prefix p) ks = filter (prefix p) (ks :: bytes list)"
  using assms
proof (induction ks)
  case Nil
  then show ?case by simp
next
  case (Cons k ks)
  show ?case
  proof (cases "prefix p k")
    case True
    with Cons show ?thesis by auto
  next
    case False
    have "\<not> prefix p k'" if k': "k' \<in> set ks" for k'
    proof
      assume "prefix p k'"
      moreover have "k' \<le> k" using Cons.prems(1) k' by (auto simp: less_imp_le)
      moreover have "k \<le> p @ q" using Cons.prems(2)[of k] by simp
      ultimately have "p \<le> k" "k \<le> p @ q" using prefix_le by (force, blast)
      then have "prefix p k" by (rule prefix_interval) simp
      with False show False by simp
    qed
    with False show ?thesis by (simp add: filter_empty_conv)
  qed
qed

section \<open>A concrete engine\<close>

type_synonym mem_db = "(bytes \<times> bytes) list"

definition mem_keys :: "mem_db \<Rightarrow> bytes list" where
  "mem_keys db = sort (remdups (map fst db))"

definition mem_engine :: "mem_db engine" where
  "mem_engine =
     \<lparr> tx_get = (\<lambda>db k. case map_of db k of None \<Rightarrow> Inl ErrKeyNotFound | Some v \<Rightarrow> Inr v),
       tx_set = (\<lambda>db k v. Inr ((k, v) # filter (\<lambda>x. fst x \<noteq> k) db)),
       tx_delete = (\<lambda>db k. Inr (filter (\<lambda>x. fst x \<noteq> k) db)),
       it_prefix = (\<lambda>db p. map (\<lambda>k. (k, Inr (the (map_of db k)))) (filter (prefix p) (mem_keys db))),
       it_seek = (\<lambda>db rv k. if rv then rev (filter (\<lambda>k'. k' \<le> k) (mem_keys db))
                             else filter (\<lambda>k'. k \<le> k') (mem_keys db)),
       tx_commit = (\<lambda>db db' i. None) \<rparr>"

lemma mem_eview [simp]: "eview mem_engine db k = map_of db k"
  by (simp add: eview_def mem_engine_def split: option.splits)

lemma map_of_filter_neq: "map_of (filter (\<lambda>x. fst x \<noteq> k) db) = (map_of db)(k := None)"
  by (induction db) auto

lemma mem_keys_props:
  "sorted_wrt (<) (mem_keys db)" "set (mem_keys db) = dom (map_of db)"
  by (simp_all add: mem_keys_def strict_sorted_iff dom_map_of_conv_image_fst)

interpretation mem: badger_engine mem_engine
proof
  show "e = ErrKeyNotFound" if "tx_get mem_engine db k = Inl e" for db k e
    using that by (simp add: mem_engine_def split: option.splits)
  show "\<exists>db'. tx_set mem_engine db k v = Inr db' \<and>
      eview mem_engine db' = (eview mem_engine db)(k \<mapsto> v)" for db k v
    by (simp add: mem_engine_def[THEN arg_cong, of tx_set] fun_eq_iff map_of_filter_neq)
  show "\<exists>db'. tx_delete mem_engine db k = Inr db' \<and>
      eview mem_engine db' = (eview mem_engine db)(k := None)" for db k
    by (simp add: mem_engine_def[THEN arg_cong, of tx_delete] fun_eq_iff map_of_filter_neq)
  show "tx_commit mem_engine db db' i = None" for db db' i
    by (simp add: mem_engine_def)
  show "sorted_wrt (<) (map fst (it_prefix mem_engine db p))" for db p
    using mem_keys_props(1)[of db] by (simp add: mem_engine_def comp_def sorted_wrt_filter)
  show "(k, r) \<in> set (it_prefix mem_engine db p) \<longleftrightarrow>
      prefix p k \<and> (\<exists>v. eview mem_engine db k = Some v \<and> r = Inr v)" for k r db p
    by (auto simp: mem_engine_def[THEN arg_cong, of it_prefix] mem_keys_props)
  show "sorted_wrt (<) (it_seek mem_engine db False k)" for db k
    using mem_keys_props(1)[of db] by (simp add: mem_engine_def sorted_wrt_filter)
  show "set (it_seek mem_engine db False k) =
      {k'. eview mem_engine db k' \<noteq> None \<and> k \<le> k'}" for db k
    by (auto simp: mem_engine_def[THEN arg_cong, of it_seek] mem_keys_props)
  show "sorted_wrt (>) (it_seek mem_engine db True k)" for db k
    using mem_keys_props(1)[of db] by (simp add: mem_engine_def sorted_wrt_filter sorted_wrt_rev)
  show "set (it_seek mem_engine db True k) =
      {k'. eview mem_engine db k' \<noteq> None \<and> k' \<le> k}" for db k
    by (auto simp: mem_engine_def[THEN arg_cong, of it_seek] mem_keys_props)
qed

end
