(* ===== verification/Float64.thy ===== *)
theory Float64
  imports Prelude
begin

unbundle bit_operations_syntax

text \<open>
  Go's \<open>float64\<close> as its IEEE 754 bit pattern, with the comparisons the code makes on
  scores, the neighbour function \<open>math.Nextafter\<close>, and the order-preserving byte encoding
  of scores in \<open>pkg/store/badger.go\<close> (\<open>encodeFloat64\<close>, \<open>decodeFloat64\<close>). The lemmas show
  that the encoding is invertible and sorts byte-wise as the scores sort, for every score
  but NaN and negative zero, and what goes wrong for negative zero.
\<close>

section \<open>Bit patterns and comparison\<close>

type_synonym f64 = "64 word"

text \<open>Sign bit, magnitude (exponent and fraction), and NaN: an all-ones exponent with a fraction.\<close>

definition f64_neg :: "f64 \<Rightarrow> bool" where
  "f64_neg f \<longleftrightarrow> 2 ^ 63 \<le> unat f"

definition f64_mag :: "f64 \<Rightarrow> nat" where
  "f64_mag f = unat f mod 2 ^ 63"

definition f64_nan :: "f64 \<Rightarrow> bool" where
  "f64_nan f \<longleftrightarrow> 0x7FF0000000000000 < f64_mag f"

text \<open>
  Magnitudes order as the absolute values they stand for, so a signed magnitude orders
  every number, and puts both zeros at 0.
\<close>

definition f64_ord :: "f64 \<Rightarrow> int" where
  "f64_ord f = (if f64_neg f then - int (f64_mag f) else int (f64_mag f))"

definition f64_lt :: "f64 \<Rightarrow> f64 \<Rightarrow> bool" where
  "f64_lt a b \<longleftrightarrow> \<not> f64_nan a \<and> \<not> f64_nan b \<and> f64_ord a < f64_ord b"

definition f64_le :: "f64 \<Rightarrow> f64 \<Rightarrow> bool" where
  "f64_le a b \<longleftrightarrow> \<not> f64_nan a \<and> \<not> f64_nan b \<and> f64_ord a \<le> f64_ord b"

definition f64_eq :: "f64 \<Rightarrow> f64 \<Rightarrow> bool" where
  "f64_eq a b \<longleftrightarrow> \<not> f64_nan a \<and> \<not> f64_nan b \<and> f64_ord a = f64_ord b"

definition f64_neg_zero :: f64 where
  "f64_neg_zero = 0x8000000000000000"

definition f64_inf :: f64 where
  "f64_inf = 0x7FF0000000000000"

definition f64_ninf :: f64 where
  "f64_ninf = 0xFFF0000000000000"

text \<open>The scores the store handles faithfully: not NaN and not negative zero.\<close>

definition f64_plain :: "f64 \<Rightarrow> bool" where
  "f64_plain f \<longleftrightarrow> \<not> f64_nan f \<and> f \<noteq> f64_neg_zero"

text \<open>\<open>math.Nextafter(x, y)\<close> of the standard library: one step from \<open>x\<close> towards \<open>y\<close>.\<close>

definition f64_nextafter :: "f64 \<Rightarrow> f64 \<Rightarrow> f64" where
  "f64_nextafter x y =
     (if f64_nan x \<or> f64_nan y then 0x7FF8000000000001
      else if f64_eq x y then x
      else if f64_eq x 0 then (if f64_neg y then 0x8000000000000001 else 1)
      else if f64_lt x y = f64_lt 0 x then x + 1
      else x - 1)"

lemma unat_f64_bound [simp]: "unat (f :: f64) < 18446744073709551616"
  using unsigned_less[of f] by simp

lemma unat_f64_split:
  "unat (f :: f64) = f64_mag f + (if f64_neg f then 2 ^ 63 else 0)" "f64_mag f < 2 ^ 63"
proof -
  show "unat f = f64_mag f + (if f64_neg f then 2 ^ 63 else 0)"
  proof (cases "f64_neg f")
    case True
    moreover have "unat f - 2 ^ 63 < 2 ^ 63"
      using unat_f64_bound[of f] by (simp del: unat_f64_bound)
    ultimately have "unat f mod 2 ^ 63 = unat f - 2 ^ 63"
      by (simp add: f64_neg_def le_mod_geq)
    with True show ?thesis by (simp add: f64_mag_def f64_neg_def)
  next
    case False
    then show ?thesis by (simp add: f64_mag_def f64_neg_def)
  qed
  show "f64_mag f < 2 ^ 63" by (simp add: f64_mag_def)
qed

lemma f64_lt_trans: "f64_lt a b \<Longrightarrow> f64_lt b c \<Longrightarrow> f64_lt a c"
  by (auto simp: f64_lt_def)

lemma f64_lt_irrefl [simp]: "\<not> f64_lt a a"
  by (simp add: f64_lt_def)

lemma f64_not_lt: "f64_plain a \<Longrightarrow> f64_plain b \<Longrightarrow> \<not> f64_lt a b \<longleftrightarrow> f64_le b a"
  by (auto simp: f64_lt_def f64_le_def f64_plain_def)

lemma f64_le_antisym_plain:
  assumes "f64_plain a" "f64_plain b" "f64_ord a = f64_ord b"
  shows "a = b"
proof -
  have "f64_neg c \<Longrightarrow> f64_mag c \<noteq> 0" if "f64_plain c" for c
  proof
    assume "f64_neg c" "f64_mag c = 0"
    then have "unat c = unat f64_neg_zero"
      using unat_f64_split(1)[of c] by (simp add: f64_neg_zero_def)
    then show False using that by (simp add: f64_plain_def word_unat_eq_iff)
  qed
  with assms have "f64_neg a = f64_neg b" "f64_mag a = f64_mag b"
    by (force simp: f64_ord_def split: if_splits)+
  then have "unat a = unat b" by (simp add: unat_f64_split(1))
  then show ?thesis by (rule word_unat_eq_iff[THEN iffD2])
qed

section \<open>The sortable encoding\<close>

definition encodeFloat64 :: "f64 \<Rightarrow> bytes" where
  "encodeFloat64 f =
     (let bits = f;
          bits = (if f64_le 0 f then bits XOR push_bit 63 1 else bits XOR 0xFFFFFFFFFFFFFFFF)
      in be_bytes 8 (unat bits))"

definition decodeFloat64 :: "bytes \<Rightarrow> f64" where
  "decodeFloat64 b =
     (if length b \<noteq> 8 then 0
      else let bits = word_of_nat (be_nat b) :: f64
           in if bits AND push_bit 63 1 \<noteq> 0 then bits XOR push_bit 63 1
              else bits XOR 0xFFFFFFFFFFFFFFFF)"

lemma f64_neg_bit: "f64_neg f \<longleftrightarrow> bit f 63"
proof -
  have "bit f 63 \<longleftrightarrow> bit (unat f) 63" by (simp add: bit_unsigned_iff)
  also have "\<dots> \<longleftrightarrow> odd (unat f div 2 ^ 63)" by (rule bit_iff_odd)
  also have "unat f div 2 ^ 63 = (if f64_neg f then 1 else 0)"
    using unat_f64_split[of f] by (simp add: div_add1_eq)
  finally show ?thesis by auto
qed

lemma f64_top_bit: "bits AND 0x8000000000000000 = 0 \<longleftrightarrow> \<not> f64_neg bits" for bits :: f64
proof -
  have top: "(0x8000000000000000 :: f64) = push_bit 63 1" by simp
  have "bit (bits AND push_bit 63 1) n \<longleftrightarrow> bit bits 63 \<and> n = 63" for n :: nat
    unfolding bit_and_iff bit_push_bit_iff bit_1_iff by auto
  then have "bits AND push_bit 63 1 = 0 \<longleftrightarrow> \<not> bit bits 63"
    using bit_eqI[of "bits AND push_bit 63 1" 0] by fastforce
  then show ?thesis unfolding f64_neg_bit top .
qed

lemma unat_flip_top:
  "unat (f XOR 0x8000000000000000 :: f64) =
     (if f64_neg f then unat f - 2 ^ 63 else unat f + 2 ^ 63)"
proof -
  have top: "(0x8000000000000000 :: f64) = push_bit 63 1" by simp
  have flip: "f XOR push_bit 63 1 = (if bit f 63 then f - 2 ^ 63 else f + 2 ^ 63)"
    unfolding flip_bit_eq_xor[symmetric] flip_bit_eq_if set_bit_eq unset_bit_eq by auto
  have two: "unat (2 ^ 63 :: f64) = 2 ^ 63" by simp
  show ?thesis
  proof (cases "f64_neg f")
    case True
    then have "unat (f - 2 ^ 63) = unat f - 2 ^ 63"
      by (subst unat_sub) (simp_all add: f64_neg_def word_le_nat_alt)
    with True show ?thesis unfolding top flip by (simp add: f64_neg_bit)
  next
    case False
    then have "unat f + unat (2 ^ 63 :: f64) < 2 ^ 64" by (simp add: f64_neg_def)
    then have "unat (f + 2 ^ 63) = unat f + 2 ^ 63"
      unfolding unat_word_ariths two by simp
    with False show ?thesis unfolding top flip by (simp add: f64_neg_bit)
  qed
qed

lemma unat_flip_all: "unat (f XOR 0xFFFFFFFFFFFFFFFF :: f64) = 2 ^ 64 - 1 - unat f"
proof -
  have all: "(0xFFFFFFFFFFFFFFFF :: f64) = - 1" by simp
  have "f XOR - 1 = - 1 - f" by (simp add: not_eq_complement)
  moreover have "unat (- 1 - f) = unat (- 1 :: f64) - unat f"
    by (subst unat_sub) simp_all
  moreover have "unat (0xFFFFFFFFFFFFFFFF :: f64) = 2 ^ 64 - 1" by simp
  ultimately show ?thesis unfolding all by simp
qed

text \<open>The encoding, as the number whose big-endian bytes it is.\<close>

definition f64_key :: "f64 \<Rightarrow> nat" where
  "f64_key f = (if f64_le 0 f then if f64_neg f then unat f - 2 ^ 63 else unat f + 2 ^ 63
                else 2 ^ 64 - 1 - unat f)"

lemma encodeFloat64_key: "encodeFloat64 f = be_bytes 8 (f64_key f)"
  by (simp add: encodeFloat64_def f64_key_def unat_flip_top unat_flip_all)

lemma f64_key_bound: "f64_key f < 256 ^ 8"
  using unat_f64_split[of f] unat_f64_bound[of f] by (auto simp: f64_key_def)

lemma length_encodeFloat64 [simp, codec_simps]: "length (encodeFloat64 f) = 8"
  by (simp add: encodeFloat64_key)

lemma be_nat_encodeFloat64: "be_nat (encodeFloat64 f) = f64_key f"
  using f64_key_bound[of f] by (simp add: encodeFloat64_key be_nat_be_bytes)

lemma f64_zero_ord [simp]: "f64_mag 0 = 0" "f64_ord 0 = 0" "\<not> f64_nan 0" "\<not> f64_neg 0"
  by (simp_all add: f64_ord_def f64_mag_def f64_nan_def f64_neg_def)

lemma f64_plain_zero [simp]: "f64_plain 0"
  by (simp add: f64_plain_def f64_neg_zero_def)

text \<open>On plain scores the key is an affine image of the signed magnitude.\<close>

lemma f64_key_plain:
  assumes "f64_plain f"
  shows "int (f64_key f) = f64_ord f + (if f64_neg f then 2 ^ 63 - 1 else 2 ^ 63)"
proof (cases "f64_neg f")
  case True
  have "f64_mag f \<noteq> 0"
  proof
    assume "f64_mag f = 0"
    with True have "unat f = unat f64_neg_zero"
      using unat_f64_split(1)[of f] by (simp add: f64_neg_zero_def)
    with assms show False by (simp add: f64_plain_def word_unat_eq_iff)
  qed
  with True have "\<not> f64_le 0 f" by (simp add: f64_le_def f64_ord_def)
  with True show ?thesis
    using unat_f64_split[of f] by (simp add: f64_key_def f64_ord_def)
next
  case False
  with assms have "f64_le 0 f" by (simp add: f64_le_def f64_plain_def f64_ord_def)
  with False show ?thesis
    using unat_f64_split[of f] by (simp add: f64_key_def f64_ord_def)
qed

lemma f64_key_less_iff:
  assumes "f64_plain f" "f64_plain g"
  shows "f64_key f < f64_key g \<longleftrightarrow> f64_lt f g"
proof -
  have mag: "f64_ord h < 0 \<longleftrightarrow> f64_neg h" if "f64_plain h" for h
  proof
    assume "f64_neg h"
    moreover have "h = 0" if "f64_ord h = 0"
      using f64_le_antisym_plain[of h 0] that \<open>f64_plain h\<close> by simp
    ultimately show "f64_ord h < 0"
      by (cases "f64_ord h = 0") (auto simp: f64_ord_def split: if_splits)
  qed (simp add: f64_ord_def split: if_splits)
  have "int (f64_key f) < int (f64_key g) \<longleftrightarrow> f64_ord f < f64_ord g"
    using f64_key_plain[OF assms(1)] f64_key_plain[OF assms(2)] mag[OF assms(1)] mag[OF assms(2)]
    by (auto split: if_splits)
  then show ?thesis using assms by (simp add: f64_lt_def f64_plain_def)
qed

lemma decode_encode_plain [codec_simps]:
  assumes "f64_plain f"
  shows "decodeFloat64 (encodeFloat64 f) = f"
proof -
  let ?b = "word_of_nat (f64_key f) :: f64"
  have key: "unat ?b = f64_key f"
    using f64_key_bound[of f] by (simp add: unsigned_of_nat take_bit_nat_eq_self)
  have neg: "f64_neg ?b \<longleftrightarrow> \<not> f64_neg f"
    using f64_key_plain[OF assms] unat_f64_split(2)[of f]
    by (auto simp: f64_neg_def[of ?b] key f64_ord_def split: if_splits)
  have dec: "decodeFloat64 (encodeFloat64 f) =
      (if f64_neg ?b then ?b XOR push_bit 63 1 else ?b XOR 0xFFFFFFFFFFFFFFFF)"
    by (simp add: decodeFloat64_def be_nat_encodeFloat64 f64_top_bit Let_def)
  have "int (unat (decodeFloat64 (encodeFloat64 f))) = int (unat f)"
    using f64_key_plain[OF assms] unat_f64_split[of f] neg f64_key_bound[of f]
    by (cases "f64_neg f") (simp_all add: dec unat_flip_top unat_flip_all key f64_ord_def)
  then show ?thesis by (simp only: of_nat_eq_iff word_unat_eq_iff)
qed

lemma encodeFloat64_less_iff:
  "f64_plain f \<Longrightarrow> f64_plain g \<Longrightarrow> encodeFloat64 f < encodeFloat64 g \<longleftrightarrow> f64_lt f g"
  by (simp add: be_nat_less_iff be_nat_encodeFloat64 f64_key_less_iff)

lemma encodeFloat64_inj:
  "f64_plain f \<Longrightarrow> f64_plain g \<Longrightarrow> encodeFloat64 f = encodeFloat64 g \<longleftrightarrow> f = g"
  by (metis decode_encode_plain)

text \<open>Negative zero passes the test \<open>f >= 0\<close>, and its encoding is the one of no number.\<close>

lemma encode_neg_zero: "encodeFloat64 f64_neg_zero = be_bytes 8 0"
  by (simp add: encodeFloat64_key f64_key_def f64_le_def f64_ord_def f64_mag_def f64_nan_def
      f64_neg_def f64_neg_zero_def)

lemma decode_neg_zero: "decodeFloat64 (encodeFloat64 f64_neg_zero) = 0xFFFFFFFFFFFFFFFF"
  by (simp add: encode_neg_zero decodeFloat64_def be_nat_be_bytes)

section \<open>The next number\<close>

lemma f64_inf_facts: "\<not> f64_nan f64_inf" "\<not> f64_neg f64_inf" "f64_ord f64_inf = 0x7FF0000000000000"
  by (simp_all add: f64_inf_def f64_nan_def f64_mag_def f64_neg_def f64_ord_def)

lemma f64_ord_unat: "f64_ord f = (if f64_neg f then - int (unat f - 2 ^ 63) else int (unat f))"
  using unat_f64_split[of f] by (simp add: f64_ord_def)

text \<open>Below the infinity, the next number upwards is the one with the next order.\<close>

lemma nextafter_inf:
  assumes "\<not> f64_nan x" "f64_lt x f64_inf"
  shows "f64_ord (f64_nextafter x f64_inf) = f64_ord x + 1 \<and> \<not> f64_nan (f64_nextafter x f64_inf)"
proof -
  have ne: "\<not> f64_eq x f64_inf" using assms(2) by (auto simp: f64_lt_def f64_eq_def)
  have lt: "f64_ord x < 0x7FF0000000000000" using assms(2) by (simp add: f64_lt_def f64_inf_facts)
  have mag: "f64_mag x \<le> 0x7FF0000000000000" using assms(1) by (simp add: f64_nan_def)
  show ?thesis
  proof (cases "f64_eq x 0")
    case True
    then have "f64_ord x = 0" by (simp add: f64_eq_def)
    moreover have "f64_nextafter x f64_inf = 1"
      using True ne assms(1) by (simp add: f64_nextafter_def f64_inf_facts)
    moreover have "f64_ord 1 = 1" "\<not> f64_nan 1"
      by (simp_all add: f64_ord_def f64_neg_def f64_mag_def f64_nan_def)
    ultimately show ?thesis by simp
  next
    case nz: False
    then have ord0: "f64_ord x \<noteq> 0" using assms(1) by (simp add: f64_eq_def)
    show ?thesis
    proof (cases "f64_neg x")
      case True
      have u: "unat x = f64_mag x + 2 ^ 63" using True unat_f64_split(1)[of x] by simp
      have m0: "0 < f64_mag x" using ord0 True by (simp add: f64_ord_def)
      have "\<not> f64_lt 0 x" using True by (simp add: f64_lt_def f64_ord_def)
      then have next_x: "f64_nextafter x f64_inf = x - 1"
        using assms ne nz by (simp add: f64_nextafter_def f64_inf_facts)
      have ux: "unat (x - 1) = f64_mag x - 1 + 2 ^ 63"
        using u m0 by (subst unat_sub) (simp_all add: word_le_nat_alt)
      have "f64_neg (x - 1)" "f64_mag (x - 1) = f64_mag x - 1"
        using ux mag by (simp_all add: f64_neg_def f64_mag_def)
      then show ?thesis
        using True m0 mag by (simp add: next_x f64_ord_def f64_nan_def)
    next
      case False
      have u: "unat x = f64_mag x" using False unat_f64_split(1)[of x] by simp
      have "f64_lt 0 x" using False ord0 assms(1) by (simp add: f64_lt_def f64_ord_def)
      then have next_x: "f64_nextafter x f64_inf = x + 1"
        using assms ne nz by (simp add: f64_nextafter_def f64_inf_facts)
      have m: "f64_mag x < 0x7FF0000000000000" using lt False by (simp add: f64_ord_def)
      have ux: "unat (x + 1) = f64_mag x + 1"
        using u m by (subst unat_add_lem[THEN iffD1]) simp_all
      have "\<not> f64_neg (x + 1)" "f64_mag (x + 1) = f64_mag x + 1"
        using ux m by (simp_all add: f64_neg_def f64_mag_def)
      then show ?thesis using False m by (simp add: next_x f64_ord_def f64_nan_def)
    qed
  qed
qed
lemma nextafter_passes:
  assumes "\<not> f64_nan x" "f64_lt x f64_inf" "\<not> f64_nan y"
  shows "\<not> f64_lt y (f64_nextafter x f64_inf) \<longleftrightarrow> f64_lt x y"
  using nextafter_inf[OF assms(1,2)] assms by (auto simp: f64_lt_def)

end
