(* ===== verification/StoreTypes.thy ===== *)
theory StoreTypes
  imports Float64
begin

text \<open>
  \<open>pkg/store/store.go\<close>: the data that the store's operations exchange, and the interface
  \<open>Store\<close> as a record of operations over an arbitrary state. Reads return a value or an
  error; writes return the state they leave. Go maps are lists of pairs in the order of
  the \<open>range\<close> statement that walks them.
\<close>

record scored_member =
  Member :: bytes
  Score :: f64
  Key :: bytes

datatype join_type = JoinUnion | JoinIntersect | JoinDifference

record search_cfg =
  Keys :: "bytes list"
  From :: "f64 option"
  To :: "f64 option"
  Limit :: "32 word"
  JoinType :: join_type
  Reverse :: bool

record score_range =
  Min :: "f64 option"
  Max :: "f64 option"
  MinExclusive :: bool
  MaxExclusive :: bool
  Offset :: int
  Count :: int

type_synonym kv = "bytes \<times> bytes"

type_synonym ('s, 'a) rd = "'s \<Rightarrow> err + 'a"

type_synonym ('s, 'a) wr = "('s, err, 'a) sm"

record 's store_ops =
  st_Get :: "bytes \<Rightarrow> ('s, bytes) rd"
  st_Set :: "bytes \<Rightarrow> bytes \<Rightarrow> ('s, unit) wr"
  st_Del :: "bytes \<Rightarrow> ('s, unit) wr"
  st_Scan :: "bytes \<Rightarrow> int \<Rightarrow> ('s, kv list) rd"
  st_SAdd :: "bytes \<Rightarrow> bytes list \<Rightarrow> ('s, unit) wr"
  st_SMembers :: "bytes \<Rightarrow> ('s, bytes list) rd"
  st_SRem :: "bytes \<Rightarrow> bytes list \<Rightarrow> ('s, unit) wr"
  st_SIsMember :: "bytes \<Rightarrow> bytes \<Rightarrow> ('s, bool) rd"
  st_HSet :: "bytes \<Rightarrow> bytes \<Rightarrow> bytes \<Rightarrow> ('s, unit) wr"
  st_HGet :: "bytes \<Rightarrow> bytes \<Rightarrow> ('s, bytes) rd"
  st_HGetAll :: "bytes \<Rightarrow> ('s, kv list) rd"
  st_HDel :: "bytes \<Rightarrow> bytes list \<Rightarrow> ('s, unit) wr"
  st_HMSet :: "bytes \<Rightarrow> kv list \<Rightarrow> ('s, unit) wr"
  st_HMGet :: "bytes \<Rightarrow> bytes list \<Rightarrow> ('s, bytes option list) rd"
  st_ZAdd :: "bytes \<Rightarrow> scored_member list \<Rightarrow> ('s, unit) wr"
  st_ZRem :: "bytes \<Rightarrow> bytes list \<Rightarrow> ('s, unit) wr"
  st_ZRange :: "bytes \<Rightarrow> score_range \<Rightarrow> ('s, scored_member list) rd"
  st_ZRevRange :: "bytes \<Rightarrow> score_range \<Rightarrow> ('s, scored_member list) rd"
  st_ZScore :: "bytes \<Rightarrow> bytes \<Rightarrow> ('s, f64) rd"
  st_ZCard :: "bytes \<Rightarrow> ('s, int) rd"
  st_Search :: "search_cfg \<Rightarrow> ('s, scored_member list) rd"
  st_ZKeys :: "bytes \<Rightarrow> ('s, bytes list) rd"

text \<open>A member with its score, as the calls \<open>store.ScoredMember{Member: m, Score: s}\<close> build it.\<close>

abbreviation scored :: "bytes \<Rightarrow> f64 \<Rightarrow> scored_member" where
  "scored m s \<equiv> \<lparr>Member = m, Score = s, Key = []\<rparr>"

section \<open>Which scores a range selects\<close>

text \<open>The bounds test that \<open>ZRange\<close> and \<open>ZRevRange\<close> promise: inclusive unless marked exclusive.\<close>

definition score_in_range :: "score_range \<Rightarrow> f64 \<Rightarrow> bool" where
  "score_in_range sr s \<longleftrightarrow>
     (case Min sr of None \<Rightarrow> True
      | Some a \<Rightarrow> if MinExclusive sr then \<not> f64_le s a else \<not> f64_lt s a) \<and>
     (case Max sr of None \<Rightarrow> True
      | Some b \<Rightarrow> if MaxExclusive sr then \<not> f64_le b s else \<not> f64_lt b s)"

definition page_of :: "int \<Rightarrow> int \<Rightarrow> 'a list \<Rightarrow> 'a list" where
  "page_of off cnt xs = (let ys = drop (nat off) xs in if 0 < cnt then take (nat cnt) ys else ys)"

lemma page_of_all [simp]: "page_of 0 0 xs = xs"
  by (simp add: page_of_def)

lemma set_page_of: "set (page_of off cnt xs) \<subseteq> set xs"
  by (auto simp: page_of_def Let_def dest: in_set_takeD in_set_dropD split: if_splits)

lemma length_page_of: "0 < cnt \<Longrightarrow> length (page_of off cnt xs) \<le> nat cnt"
  by (simp add: page_of_def Let_def)

end
