(* ===== verification/StoreSearch.thy ===== *)
theory StoreSearch
  imports StoreTypes
begin

text \<open>
  \<open>pkg/store/search.go\<close>: the multi-key search that every backend shares. A cursor per key
  pages through that key's sorted set, and \<open>nextResult\<close> repeatedly takes the cursor with
  the best score. The model keeps the cursors, the pages of 100 and the interleaving of
  page fetches; the abstract merge below works on whole lists, and the refinement lemma
  says that paging makes no difference.
\<close>

section \<open>The code\<close>

definition pageSize :: int where
  "pageSize = 100"

record cursor =
  c_key :: bytes
  c_results :: "scored_member list"
  c_pos :: nat
  c_offset :: int
  c_done :: bool

text \<open>\<open>zr reverse key range\<close> stands for the store's \<open>ZRange\<close> or \<open>ZRevRange\<close>.\<close>

type_synonym zranger = "bool \<Rightarrow> bytes \<Rightarrow> score_range \<Rightarrow> err + scored_member list"

definition fetchPage :: "zranger \<Rightarrow> search_cfg \<Rightarrow> cursor \<Rightarrow> err + cursor" where
  "fetchPage zr cfg c =
     (let scoreRange = \<lparr>Min = From cfg, Max = To cfg, MinExclusive = False, MaxExclusive = False,
                        Offset = c_offset c, Count = pageSize\<rparr>
      in rbind (zr (Reverse cfg) (c_key c) scoreRange)
           (\<lambda>results. Inr (c\<lparr>c_results := results, c_pos := 0,
              c_offset := c_offset c + int (length results),
              c_done := c_done c \<or> int (length results) < pageSize\<rparr>)))"

definition at_cursor :: "cursor \<Rightarrow> scored_member option" where
  "at_cursor c = (if c_pos c < length (c_results c) then Some (c_results c ! c_pos c) else None)"

definition inAllCursors :: "cursor list \<Rightarrow> bytes \<Rightarrow> bool" where
  "inAllCursors cs m \<longleftrightarrow>
     list_all (\<lambda>c. case at_cursor c of None \<Rightarrow> False | Some x \<Rightarrow> Member x = m) cs"

definition inAnyCursor :: "cursor list \<Rightarrow> bytes \<Rightarrow> bool" where
  "inAnyCursor cs m \<longleftrightarrow>
     list_ex (\<lambda>c. case at_cursor c of None \<Rightarrow> False | Some x \<Rightarrow> Member x = m) cs"

text \<open>The candidate of one pass: the cursor's index, its score and its member.\<close>

type_synonym best = "(nat \<times> f64 \<times> bytes) option"

definition better :: "bool \<Rightarrow> best \<Rightarrow> nat \<Rightarrow> scored_member \<Rightarrow> best" where
  "better reverse best i m =
     (case best of
        None \<Rightarrow> Some (i, Score m, Member m)
      | Some (_, bestScore, _) \<Rightarrow>
          if (reverse \<and> f64_lt bestScore (Score m)) \<or> (\<not> reverse \<and> f64_lt (Score m) bestScore)
          then Some (i, Score m, Member m) else best)"

text \<open>
  The pass over the cursors: a cursor at the end of its page fetches the next one unless it
  is done; then its current entry competes for the best score.
\<close>

fun pass :: "(cursor \<Rightarrow> err + cursor) \<Rightarrow> bool \<Rightarrow> nat \<Rightarrow> best \<Rightarrow> cursor list \<Rightarrow> err + (best \<times> cursor list)" where
  "pass fetch reverse i best [] = Inr (best, [])"
| "pass fetch reverse i best (c # cs) =
     rbind (if c_pos c \<ge> length (c_results c) \<and> \<not> c_done c then fetch c else Inr c)
       (\<lambda>c'. let best' = (case at_cursor c' of None \<Rightarrow> best | Some m \<Rightarrow> better reverse best i m)
             in rbind (pass fetch reverse (Suc i) best' cs)
                  (\<lambda>(b, cs'). Inr (b, c' # cs')))"

definition advance :: "cursor \<Rightarrow> cursor" where
  "advance c = c\<lparr>c_pos := Suc (c_pos c)\<rparr>"

definition advance_at :: "nat \<Rightarrow> cursor list \<Rightarrow> cursor list" where
  "advance_at i cs = (if i < length cs then cs[i := advance (cs ! i)] else cs)"

definition advance_equal :: "bytes \<Rightarrow> cursor list \<Rightarrow> cursor list" where
  "advance_equal m cs =
     map (\<lambda>c. case at_cursor c of None \<Rightarrow> c
              | Some x \<Rightarrow> if Member x = m then advance c else c) cs"

text \<open>The join switch: the new cursors, and whether the member may be returned (or the loop continues).\<close>

definition join_step :: "join_type \<Rightarrow> nat \<Rightarrow> bytes \<Rightarrow> cursor list \<Rightarrow> cursor list \<times> bool" where
  "join_step jt i m cs =
     (case jt of
        JoinIntersect \<Rightarrow>
          if \<not> inAllCursors cs m then (advance_equal m cs, False) else (map advance cs, True)
      | JoinDifference \<Rightarrow>
          if 1 < length cs \<and> inAnyCursor (tl cs) m then (advance_at i cs, False)
          else (advance_at i cs, True)
      | JoinUnion \<Rightarrow> (advance_at i cs, True))"

text \<open>
  \<open>nextResult\<close>: the inner \<open>for\<close> loop, with the number of iterations as fuel. The outer
  \<open>None\<close> is running out of fuel, the inner one is the end of every cursor.
\<close>

fun nextResult :: "nat \<Rightarrow> (cursor \<Rightarrow> err + cursor) \<Rightarrow> search_cfg \<Rightarrow> (bytes \<Rightarrow> f64 option) \<Rightarrow>
    cursor list \<Rightarrow> (err + ((bytes \<times> f64 \<times> bytes) option \<times> cursor list)) option" where
  "nextResult 0 fetch cfg seen cs = None"
| "nextResult (Suc n) fetch cfg seen cs =
     (case pass fetch (Reverse cfg) 0 None cs of
        Inl e \<Rightarrow> Some (Inl e)
      | Inr (None, cs') \<Rightarrow> Some (Inr (None, cs'))
      | Inr (Some (i, bestScore, bestMember), cs') \<Rightarrow>
          (case join_step (JoinType cfg) i bestMember cs' of
             (cs'', ret) \<Rightarrow>
               if ret \<and> (case seen bestMember of None \<Rightarrow> True
                         | Some lastScore \<Rightarrow> \<not> f64_eq lastScore bestScore)
               then Some (Inr (Some (bestMember, bestScore, c_key (cs' ! i)), cs''))
               else nextResult n fetch cfg seen cs''))"

fun search_loop :: "nat \<Rightarrow> (cursor \<Rightarrow> err + cursor) \<Rightarrow> search_cfg \<Rightarrow> (bytes \<Rightarrow> f64 option) \<Rightarrow>
    cursor list \<Rightarrow> nat \<Rightarrow> (err + scored_member list) option" where
  "search_loop 0 fetch cfg seen cs k = None"
| "search_loop (Suc n) fetch cfg seen cs k =
     (if Limit cfg = 0 \<or> k < unat (Limit cfg) then
        (case nextResult (Suc n) fetch cfg seen cs of
           None \<Rightarrow> None
         | Some (Inl e) \<Rightarrow> Some (Inl e)
         | Some (Inr (None, cs')) \<Rightarrow> Some (Inr [])
         | Some (Inr (Some (m, s, key), cs')) \<Rightarrow>
             map_option (\<lambda>r. rbind r (\<lambda>records. Inr (\<lparr>Member = m, Score = s, Key = key\<rparr> # records)))
               (search_loop n fetch cfg (seen(m \<mapsto> s)) cs' (Suc k)))
      else Some (Inr []))"

fun init_cursors :: "(cursor \<Rightarrow> err + cursor) \<Rightarrow> bytes list \<Rightarrow> err + cursor list" where
  "init_cursors fetch [] = Inr []"
| "init_cursors fetch (k # ks) =
     rbind (fetch \<lparr>c_key = k, c_results = [], c_pos = 0, c_offset = 0, c_done = False\<rparr>)
       (\<lambda>c. rbind (init_cursors fetch ks) (\<lambda>cs. Inr (c # cs)))"

definition store_search :: "nat \<Rightarrow> zranger \<Rightarrow> search_cfg \<Rightarrow> (err + scored_member list) option" where
  "store_search fuel zr cfg =
     (if Keys cfg = [] then Some (Inr [])
      else case init_cursors (fetchPage zr cfg) (Keys cfg) of
             Inl e \<Rightarrow> Some (Inl e)
           | Inr cs \<Rightarrow> search_loop fuel (fetchPage zr cfg) cfg Map.empty cs 0)"

section \<open>The abstract merge\<close>

text \<open>The same selection over the lists that remain behind each cursor, with no pages.\<close>

definition total_len :: "'a list list \<Rightarrow> nat" where
  "total_len xss = sum_list (map length xss)"

fun abest :: "bool \<Rightarrow> nat \<Rightarrow> best \<Rightarrow> scored_member list list \<Rightarrow> best" where
  "abest rv i b [] = b"
| "abest rv i b (xs # xss) =
     abest rv (Suc i) (case xs of [] \<Rightarrow> b | m # _ \<Rightarrow> better rv b i m) xss"

definition head_is :: "bytes \<Rightarrow> scored_member list \<Rightarrow> bool" where
  "head_is m xs \<longleftrightarrow> xs \<noteq> [] \<and> Member (hd xs) = m"

definition ajoin :: "join_type \<Rightarrow> nat \<Rightarrow> bytes \<Rightarrow> scored_member list list \<Rightarrow> scored_member list list \<times> bool" where
  "ajoin jt i m xss =
     (case jt of
        JoinIntersect \<Rightarrow>
          if \<not> list_all (head_is m) xss then (map (\<lambda>xs. if head_is m xs then tl xs else xs) xss, False)
          else (map tl xss, True)
      | JoinDifference \<Rightarrow>
          if 1 < length xss \<and> list_ex (head_is m) (tl xss) then (xss[i := tl (xss ! i)], False)
          else (xss[i := tl (xss ! i)], True)
      | JoinUnion \<Rightarrow> (xss[i := tl (xss ! i)], True))"

lemma better_Some: "better rv b i x \<noteq> None"
  by (auto simp: better_def split: option.splits)

lemma abest_mono: "b \<noteq> None \<Longrightarrow> abest rv i b xss \<noteq> None"
proof (induction xss arbitrary: i b)
  case Nil
  then show ?case by simp
next
  case (Cons xs xss)
  have "(case xs of [] \<Rightarrow> b | x # _ \<Rightarrow> better rv b i x) \<noteq> None"
    using Cons.prems better_Some by (cases xs) auto
  then show ?case using Cons.IH by simp
qed

lemma abest_None: "abest rv i None xss = None \<longleftrightarrow> (\<forall>xs\<in>set xss. xs = [])"
proof (induction xss arbitrary: i)
  case Nil
  then show ?case by simp
next
  case (Cons xs xss)
  show ?case
  proof (cases xs)
    case Nil
    with Cons show ?thesis by simp
  next
    case (Cons y ys)
    then show ?thesis using abest_mono[OF better_Some, of rv "Suc i" rv None i y xss] by simp
  qed
qed

lemma abest_Some:
  assumes "abest rv i b xss = Some (j, s, m)" and "b \<noteq> Some (j, s, m)"
  shows "i \<le> j \<and> j < i + length xss \<and> xss ! (j - i) \<noteq> [] \<and>
         Score (hd (xss ! (j - i))) = s \<and> Member (hd (xss ! (j - i))) = m"
  using assms
proof (induction xss arbitrary: i b)
  case Nil
  then show ?case by simp
next
  case (Cons xs xss)
  define b' where "b' = (case xs of [] \<Rightarrow> b | x # _ \<Rightarrow> better rv b i x)"
  have ab: "abest rv (Suc i) b' xss = Some (j, s, m)" using Cons.prems(1) by (simp add: b'_def)
  show ?case
  proof (cases "b' = Some (j, s, m)")
    case True
    with Cons.prems(2) obtain y ys where "xs = y # ys" "better rv b i y = Some (j, s, m)"
      by (auto simp: b'_def split: list.splits)
    then have "j = i" "Score y = s" "Member y = m"
      using Cons.prems(2) by (auto simp: better_def split: option.splits if_splits)
    with \<open>xs = y # ys\<close> show ?thesis by simp
  next
    case False
    from Cons.IH[OF ab False] show ?thesis by (auto simp: nth_Cons' Suc_diff_le Suc_le_eq)
  qed
qed

lemma total_update:
  "i < length xss \<Longrightarrow> total_len (xss[i := ys]) + length (xss ! i) = total_len xss + length ys"
proof (induction xss arbitrary: i)
  case Nil
  then show ?case by simp
next
  case (Cons xs xss)
  then show ?case by (cases i) (auto simp: total_len_def)
qed

lemma total_map_le:
  "(\<And>xs. xs \<in> set xss \<Longrightarrow> length (f xs) \<le> length xs) \<Longrightarrow> total_len (map f xss) \<le> total_len xss"
  by (induction xss) (auto simp: total_len_def intro: add_mono)

lemma total_map_less:
  assumes "\<And>xs. xs \<in> set xss \<Longrightarrow> length (f xs) \<le> length xs"
    and "ys \<in> set xss" "length (f ys) < length ys"
  shows "total_len (map f xss) < total_len xss"
  using assms
proof (induction xss)
  case Nil
  then show ?case by simp
next
  case (Cons xs xss)
  have le: "total_len (map f xss) \<le> total_len xss" by (rule total_map_le) (use Cons.prems(1) in auto)
  show ?case
  proof (cases "ys = xs")
    case True
    with Cons.prems(3) le show ?thesis by (simp add: total_len_def)
  next
    case False
    with Cons have "total_len (map f xss) < total_len xss" by auto
    moreover have "length (f xs) \<le> length xs" using Cons.prems(1) by simp
    ultimately show ?thesis by (simp add: total_len_def)
  qed
qed

lemma ajoin_total:
  assumes "abest rv 0 None xss = Some (i, s, m)"
  shows "total_len (fst (ajoin jt i m xss)) < total_len xss"
proof -
  have i: "i < length xss" "xss ! i \<noteq> []" "Member (hd (xss ! i)) = m"
    using abest_Some[OF assms] by simp_all
  then have hd: "xss ! i \<in> set xss" "head_is m (xss ! i)" by (auto simp: head_is_def)
  have upd: "total_len (xss[i := tl (xss ! i)]) < total_len xss"
    using total_update[OF i(1), of "tl (xss ! i)"] i(2) by (cases "xss ! i") auto
  have int: "total_len (map (\<lambda>xs. if head_is m xs then tl xs else xs) xss) < total_len xss"
    by (rule total_map_less[OF _ hd(1)]) (use hd(2) i(2) in \<open>auto simp: head_is_def\<close>)
  have all: "total_len (map tl xss) < total_len xss"
    by (rule total_map_less[OF _ hd(1)]) (use i(2) in auto)
  show ?thesis using upd int all by (simp add: ajoin_def split: join_type.splits)
qed

function anext :: "join_type \<Rightarrow> bool \<Rightarrow> (bytes \<Rightarrow> f64 option) \<Rightarrow> scored_member list list \<Rightarrow>
    (bytes \<times> f64 \<times> nat) option \<times> scored_member list list" where
  "anext jt rv seen xss =
     (case abest rv 0 None xss of
        None \<Rightarrow> (None, xss)
      | Some (i, s, m) \<Rightarrow>
          if snd (ajoin jt i m xss) \<and> (case seen m of None \<Rightarrow> True | Some l \<Rightarrow> \<not> f64_eq l s)
          then (Some (m, s, i), fst (ajoin jt i m xss))
          else anext jt rv seen (fst (ajoin jt i m xss)))"
  by pat_completeness auto
termination
  by (relation "measure (\<lambda>(jt, rv, seen, xss). total_len xss)") (auto intro: ajoin_total)

declare anext.simps [simp del]

lemma anext_total: "anext jt rv seen xss = (Some x, yss) \<Longrightarrow> total_len yss < total_len xss"
proof (induction jt rv seen xss rule: anext.induct)
  case (1 jt rv seen xss)
  obtain i s m where b: "abest rv 0 None xss = Some (i, s, m)"
    using "1.prems" by (subst (asm) anext.simps) (auto split: option.splits)
  have less: "total_len (fst (ajoin jt i m xss)) < total_len xss" by (rule ajoin_total[OF b])
  show ?case
  proof (cases "snd (ajoin jt i m xss) \<and>
      (case seen m of None \<Rightarrow> True | Some l \<Rightarrow> \<not> f64_eq l s)")
    case True
    with "1.prems" b less show ?thesis by (subst (asm) anext.simps) simp
  next
    case False
    then have "anext jt rv seen (fst (ajoin jt i m xss)) = (Some x, yss)"
      using "1.prems" b by (subst (asm) anext.simps) (auto split: if_splits)
    with "1.IH"[OF b] False less show ?thesis by force
  qed
qed

function merge_all :: "join_type \<Rightarrow> bool \<Rightarrow> (bytes \<Rightarrow> f64 option) \<Rightarrow> scored_member list list \<Rightarrow>
    (bytes \<times> f64 \<times> nat) list" where
  "merge_all jt rv seen xss =
     (case anext jt rv seen xss of
        (None, _) \<Rightarrow> []
      | (Some (m, s, i), yss) \<Rightarrow> (m, s, i) # merge_all jt rv (seen(m \<mapsto> s)) yss)"
  by pat_completeness auto
termination
  by (relation "measure (\<lambda>(jt, rv, seen, xss). total_len xss)") (auto dest: sym intro: anext_total)

declare merge_all.simps [simp del]

section \<open>Paging refines the merge\<close>

text \<open>
  What the search relies on: for a fixed state of the store, \<open>ZRange\<close> and \<open>ZRevRange\<close> return
  the requested page of one list per key, ordered by score.
\<close>

definition score_ord :: "bool \<Rightarrow> scored_member \<Rightarrow> int" where
  "score_ord rv x = (if rv then - f64_ord (Score x) else f64_ord (Score x))"

locale ranger =
  fixes zr :: zranger
    and listing :: "bool \<Rightarrow> bytes \<Rightarrow> f64 option \<Rightarrow> f64 option \<Rightarrow> scored_member list"
    and okkey :: "bytes \<Rightarrow> bool"
  assumes page: "okkey key \<Longrightarrow> 0 \<le> off \<Longrightarrow> 0 \<le> cnt \<Longrightarrow>
      zr rv key \<lparr>Min = a, Max = b, MinExclusive = False, MaxExclusive = False,
                 Offset = off, Count = cnt\<rparr>
        = Inr (page_of off cnt (listing rv key a b))"
    and listing_sorted: "okkey key \<Longrightarrow> sorted (map (score_ord rv) (listing rv key a b))"
    and listing_num: "okkey key \<Longrightarrow> x \<in> set (listing rv key a b) \<Longrightarrow> \<not> f64_nan (Score x)"

declare nextResult.simps(2) [simp del]

text \<open>What is left behind a cursor, and the consistency of a cursor with its list.\<close>

definition remaining :: "(bytes \<Rightarrow> scored_member list) \<Rightarrow> cursor \<Rightarrow> scored_member list" where
  "remaining L c = drop (c_pos c) (c_results c) @ drop (nat (c_offset c)) (L (c_key c))"

definition cursor_ok :: "(bytes \<Rightarrow> scored_member list) \<Rightarrow> cursor \<Rightarrow> bool" where
  "cursor_ok L c \<longleftrightarrow>
     0 \<le> c_offset c \<and> (c_done c \<longrightarrow> length (L (c_key c)) \<le> nat (c_offset c))"

text \<open>A cursor that has been looked at in the current pass shows the first remaining entry.\<close>

definition fresh :: "(bytes \<Rightarrow> scored_member list) \<Rightarrow> cursor \<Rightarrow> bool" where
  "fresh L c \<longleftrightarrow> cursor_ok L c \<and>
     at_cursor c = (case remaining L c of [] \<Rightarrow> None | x # _ \<Rightarrow> Some x)"

lemma fresh_head:
  "fresh L c \<Longrightarrow> (case at_cursor c of None \<Rightarrow> False | Some x \<Rightarrow> Member x = m) = head_is m (remaining L c)"
  by (auto simp: fresh_def head_is_def split: list.splits)

lemma fresh_in_page:
  assumes "fresh L c" "remaining L c \<noteq> []"
  shows "c_pos c < length (c_results c)"
  using assms by (auto simp: fresh_def at_cursor_def split: list.splits if_splits)

lemma remaining_advance:
  "c_pos c < length (c_results c) \<Longrightarrow> remaining L (advance c) = tl (remaining L c)"
  by (simp add: remaining_def advance_def drop_Suc tl_drop tl_append2)

lemma cursor_ok_advance [simp]: "cursor_ok L (advance c) = cursor_ok L c"
  by (simp add: cursor_ok_def advance_def)

lemma c_key_advance [simp]: "c_key (advance c) = c_key c"
  by (simp add: advance_def)

definition limited :: "search_cfg \<Rightarrow> nat \<Rightarrow> 'a list \<Rightarrow> 'a list" where
  "limited cfg k xs = (if Limit cfg = 0 then xs else take (unat (Limit cfg) - k) xs)"

context ranger
begin

abbreviation lists_of :: "search_cfg \<Rightarrow> bytes \<Rightarrow> scored_member list" where
  "lists_of cfg key \<equiv> listing (Reverse cfg) key (From cfg) (To cfg)"

lemma fetch_ok:
  assumes "cursor_ok (lists_of cfg) c" "length (c_results c) \<le> c_pos c" "okkey (c_key c)"
  shows "\<exists>c'. fetchPage zr cfg c = Inr c' \<and> fresh (lists_of cfg) c' \<and>
    remaining (lists_of cfg) c' = remaining (lists_of cfg) c \<and> c_key c' = c_key c"
proof -
  let ?L = "lists_of cfg (c_key c)"
  let ?o = "nat (c_offset c)"
  let ?r = "take 100 (drop ?o ?L)"
  have z: "zr (Reverse cfg) (c_key c) \<lparr>Min = From cfg, Max = To cfg, MinExclusive = False,
      MaxExclusive = False, Offset = c_offset c, Count = pageSize\<rparr> = Inr ?r"
    using assms(1,3) by (subst page) (simp_all add: cursor_ok_def pageSize_def page_of_def Let_def)
  let ?c = "c\<lparr>c_results := ?r, c_pos := 0, c_offset := c_offset c + int (length ?r),
              c_done := c_done c \<or> int (length ?r) < pageSize\<rparr>"
  have f: "fetchPage zr cfg c = Inr ?c" by (simp add: fetchPage_def Let_def z)
  have o: "nat (c_offset c + int (length ?r)) = ?o + length ?r"
    using assms(1) by (simp add: cursor_ok_def nat_add_distrib)
  have rem: "remaining (lists_of cfg) ?c = drop ?o ?L"
  proof -
    have "take n ys @ drop (length (take n ys)) ys = ys" for n and ys :: "scored_member list"
      by (cases "n \<le> length ys") (simp_all add: min_def)
    from this[of 100 "drop ?o ?L"] have "?r @ drop (length ?r + ?o) ?L = drop ?o ?L"
      by (simp only: drop_drop)
    then show ?thesis by (simp add: remaining_def o add.commute del: length_take length_drop)
  qed
  have rem0: "remaining (lists_of cfg) c = drop ?o ?L"
    using assms(2) by (simp add: remaining_def)
  have "cursor_ok (lists_of cfg) ?c"
    using assms(1) by (auto simp: cursor_ok_def pageSize_def nat_add_distrib)
  moreover have "at_cursor ?c = (case drop ?o ?L of [] \<Rightarrow> None | x # _ \<Rightarrow> Some x)"
    by (cases "drop ?o ?L") (auto simp: at_cursor_def)
  ultimately have "fresh (lists_of cfg) ?c" by (simp only: fresh_def rem)
  then show ?thesis using f rem rem0 by (intro exI[of _ ?c]) simp
qed

lemma refresh_ok:
  assumes "cursor_ok (lists_of cfg) c" "okkey (c_key c)"
  shows "\<exists>c'. (if length (c_results c) \<le> c_pos c \<and> \<not> c_done c then fetchPage zr cfg c else Inr c)
      = Inr c' \<and> fresh (lists_of cfg) c' \<and>
    remaining (lists_of cfg) c' = remaining (lists_of cfg) c \<and> c_key c' = c_key c"
proof (cases "length (c_results c) \<le> c_pos c \<and> \<not> c_done c")
  case True
  with fetch_ok[OF assms(1) _ assms(2)] show ?thesis by simp
next
  case False
  have "fresh (lists_of cfg) c"
  proof (cases "c_pos c < length (c_results c)")
    case True
    then have "drop (c_pos c) (c_results c) = c_results c ! c_pos c # drop (Suc (c_pos c)) (c_results c)"
      by (simp add: Cons_nth_drop_Suc)
    with True assms show ?thesis by (simp add: fresh_def at_cursor_def remaining_def)
  next
    case pos: False
    with False assms show ?thesis
      by (simp add: fresh_def at_cursor_def remaining_def cursor_ok_def)
  qed
  with False show ?thesis by auto
qed

lemma pass_ok:
  assumes "\<forall>c\<in>set cs. cursor_ok (lists_of cfg) c" "list_all okkey (map c_key cs)"
  shows "\<exists>cs'. pass (fetchPage zr cfg) rv i b cs =
      Inr (abest rv i b (map (remaining (lists_of cfg)) cs), cs') \<and>
    (\<forall>c\<in>set cs'. fresh (lists_of cfg) c) \<and>
    map (remaining (lists_of cfg)) cs' = map (remaining (lists_of cfg)) cs \<and>
    map c_key cs' = map c_key cs"
  using assms
proof (induction cs arbitrary: i b)
  case Nil
  then show ?case by simp
next
  case (Cons c cs)
  obtain c' where c': "(if length (c_results c) \<le> c_pos c \<and> \<not> c_done c then fetchPage zr cfg c
        else Inr c) = Inr c'" "fresh (lists_of cfg) c'"
      "remaining (lists_of cfg) c' = remaining (lists_of cfg) c" "c_key c' = c_key c"
    using refresh_ok[of cfg c] Cons.prems by auto
  let ?b = "case at_cursor c' of None \<Rightarrow> b | Some m \<Rightarrow> better rv b i m"
  have b: "?b = (case remaining (lists_of cfg) c of [] \<Rightarrow> b | m # _ \<Rightarrow> better rv b i m)"
    using c'(2,3) by (auto simp: fresh_def split: list.splits)
  obtain cs' where "pass (fetchPage zr cfg) rv (Suc i) ?b cs =
        Inr (abest rv (Suc i) ?b (map (remaining (lists_of cfg)) cs), cs')"
      "\<forall>c\<in>set cs'. fresh (lists_of cfg) c"
      "map (remaining (lists_of cfg)) cs' = map (remaining (lists_of cfg)) cs"
      "map c_key cs' = map c_key cs"
    using Cons.IH[of "Suc i" ?b] Cons.prems by auto
  with c' b show ?case by (simp add: Let_def)
qed

lemma join_ok:
  fixes jt :: join_type and cs :: "cursor list"
  assumes fr: "\<forall>c\<in>set cs. fresh L c"
    and b: "abest rv 0 None (map (remaining L) cs) = Some (i, s, m)"
  defines "r \<equiv> join_step jt i m cs"
  shows "map (remaining L) (fst r) = fst (ajoin jt i m (map (remaining L) cs)) \<and>
    snd r = snd (ajoin jt i m (map (remaining L) cs)) \<and>
    (\<forall>c\<in>set (fst r). cursor_ok L c) \<and> map c_key (fst r) = map c_key cs"
proof -
  have i1: "i < length cs" using abest_Some[OF b] by simp
  moreover from this have "remaining L (cs ! i) \<noteq> []" using abest_Some[OF b] by simp
  ultimately have i: "i < length cs" "remaining L (cs ! i) \<noteq> []" by simp_all
  have pos: "c_pos (cs ! i) < length (c_results (cs ! i))"
    using fresh_in_page fr i by (metis nth_mem)
  have at: "map (remaining L) (advance_at i cs) = (map (remaining L) cs)[i := tl (remaining L (cs ! i))]"
      "\<forall>c\<in>set (advance_at i cs). cursor_ok L c" "map c_key (advance_at i cs) = map c_key cs"
    using i(1) pos fr by (auto simp: advance_at_def map_update remaining_advance list_update_id
        fresh_def dest!: set_update_subset_insert[THEN subsetD] intro: nth_equalityI simp: nth_list_update)
  have hd: "(case at_cursor c of None \<Rightarrow> False | Some x \<Rightarrow> Member x = m) = head_is m (remaining L c)"
      if "c \<in> set cs" for c
    using fr fresh_head that by blast
  have all: "inAllCursors cs m = list_all (head_is m) (map (remaining L) cs)"
    by (simp add: inAllCursors_def list_all_iff hd)
  have any: "inAnyCursor (tl cs) m = list_ex (head_is m) (tl (map (remaining L) cs))"
    using hd by (cases cs) (simp_all add: inAnyCursor_def list_ex_iff)
  have eq: "map (remaining L) (advance_equal m cs) =
      map (\<lambda>xs. if head_is m xs then tl xs else xs) (map (remaining L) cs)"
      "\<forall>c\<in>set (advance_equal m cs). cursor_ok L c" "map c_key (advance_equal m cs) = map c_key cs"
  proof -
    have "remaining L (case at_cursor c of None \<Rightarrow> c | Some x \<Rightarrow> if Member x = m then advance c else c)
        = (if head_is m (remaining L c) then tl (remaining L c) else remaining L c)" if "c \<in> set cs" for c
      using fr that fresh_head[of L c m] fresh_in_page[of L c]
      by (auto simp: head_is_def remaining_advance split: option.splits)
    then show "map (remaining L) (advance_equal m cs) =
        map (\<lambda>xs. if head_is m xs then tl xs else xs) (map (remaining L) cs)"
      by (simp add: advance_equal_def)
    show "\<forall>c\<in>set (advance_equal m cs). cursor_ok L c" "map c_key (advance_equal m cs) = map c_key cs"
      using fr by (auto simp: advance_equal_def fresh_def split: option.splits)
  qed
  have adv: "map (remaining L) (map advance cs) = map tl (map (remaining L) cs)"
      if "inAllCursors cs m"
    using that fr fresh_in_page by (auto simp: all list_all_iff head_is_def intro!: remaining_advance)
  have adv': "\<forall>c\<in>set (map advance cs). cursor_ok L c" "map c_key (map advance cs) = map c_key cs"
    using fr by (auto simp: fresh_def)
  show ?thesis
  proof (cases jt)
    case JoinUnion
    with at i show ?thesis by (simp add: r_def join_step_def ajoin_def)
  next
    case JoinIntersect
    with eq adv adv' all show ?thesis by (auto simp: r_def join_step_def ajoin_def)
  next
    case JoinDifference
    with at i any show ?thesis by (simp add: r_def join_step_def ajoin_def)
  qed
qed

lemma nextResult_ok:
  assumes "\<forall>c\<in>set cs. cursor_ok (lists_of cfg) c" "list_all okkey (map c_key cs)"
    and "total_len (map (remaining (lists_of cfg)) cs) < n"
  shows "\<exists>cs'. nextResult n (fetchPage zr cfg) cfg seen cs =
      Some (Inr (map_option (\<lambda>(m, s, i). (m, s, map c_key cs ! i))
        (fst (anext (JoinType cfg) (Reverse cfg) seen (map (remaining (lists_of cfg)) cs))), cs')) \<and>
    (\<forall>c\<in>set cs'. cursor_ok (lists_of cfg) c) \<and> map c_key cs' = map c_key cs \<and>
    map (remaining (lists_of cfg)) cs' =
      snd (anext (JoinType cfg) (Reverse cfg) seen (map (remaining (lists_of cfg)) cs))"
  using assms
proof (induction n arbitrary: cs)
  case 0
  then show ?case by simp
next
  case (Suc n)
  let ?L = "lists_of cfg" and ?jt = "JoinType cfg" and ?rv = "Reverse cfg"
  obtain cs1 where p: "pass (fetchPage zr cfg) ?rv 0 None cs =
      Inr (abest ?rv 0 None (map (remaining ?L) cs), cs1)"
      "\<forall>c\<in>set cs1. fresh ?L c" "map (remaining ?L) cs1 = map (remaining ?L) cs"
      "map c_key cs1 = map c_key cs"
    using pass_ok[OF Suc.prems(1,2)] by blast
  show ?case
  proof (cases "abest ?rv 0 None (map (remaining ?L) cs)")
    case None
    then show ?thesis using p by (subst anext.simps, subst anext.simps) (auto simp: fresh_def nextResult.simps)
  next
    case (Some x)
    obtain i s m where x: "x = (i, s, m)" by (cases x)
    have b: "abest ?rv 0 None (map (remaining ?L) cs1) = Some (i, s, m)"
      using Some x p(3) by simp
    obtain cs2 ret where jr: "join_step ?jt i m cs1 = (cs2, ret)" by fastforce
    have j: "map (remaining ?L) (cs2) = fst (ajoin ?jt i m (map (remaining ?L) cs))"
        "ret = snd (ajoin ?jt i m (map (remaining ?L) cs))"
        "\<forall>c\<in>set (cs2). cursor_ok ?L c" "map c_key (cs2) = map c_key cs"
      using join_ok[OF p(2) b, of ?jt] p(3,4) by (simp_all add: jr)
    have i: "i < length cs1" using abest_Some[OF b] by simp
    have key: "c_key (cs1 ! i) = map c_key cs ! i" using i p(4) by (metis nth_map)
    have less: "total_len (map (remaining ?L) (cs2)) < n"
      using ajoin_total[OF b, of ?jt] p(3) j(1) Suc.prems(3) by simp
    show ?thesis
    proof (cases "ret \<and> (case seen m of None \<Rightarrow> True | Some l \<Rightarrow> \<not> f64_eq l s)")
      case True
      then have "nextResult (Suc n) (fetchPage zr cfg) cfg seen cs =
          Some (Inr (Some (m, s, map c_key cs ! i), cs2))"
        using p(1) Some x key by (simp add: jr nextResult.simps)
      moreover have "anext ?jt ?rv seen (map (remaining ?L) cs) =
          (Some (m, s, i), fst (ajoin ?jt i m (map (remaining ?L) cs)))"
        using True Some x j(2) by (subst anext.simps) simp
      ultimately show ?thesis using j by simp
    next
      case False
      then have "nextResult (Suc n) (fetchPage zr cfg) cfg seen cs =
          nextResult n (fetchPage zr cfg) cfg seen (cs2)"
        using p(1) Some x by (auto simp: jr nextResult.simps)
      moreover have "anext ?jt ?rv seen (map (remaining ?L) cs) =
          anext ?jt ?rv seen (map (remaining ?L) (cs2))"
        using False Some x j(1,2) by (subst anext.simps) auto
      ultimately show ?thesis using Suc.IH[OF j(3) _ less] j(4) Suc.prems(2) by simp
    qed
  qed
qed

text \<open>How the limit cuts the merged results, with \<open>k\<close> of them already returned.\<close>

lemma search_loop_ok:
  assumes "\<forall>c\<in>set cs. cursor_ok (lists_of cfg) c" "list_all okkey (map c_key cs)"
    and "total_len (map (remaining (lists_of cfg)) cs) < n"
  shows "search_loop n (fetchPage zr cfg) cfg seen cs k =
    Some (Inr (map (\<lambda>(m, s, i). \<lparr>Member = m, Score = s, Key = map c_key cs ! i\<rparr>)
      (limited cfg k (merge_all (JoinType cfg) (Reverse cfg) seen
        (map (remaining (lists_of cfg)) cs)))))"
  using assms
proof (induction n arbitrary: cs seen k)
  case 0
  then show ?case by simp
next
  case (Suc n)
  let ?xss = "map (remaining (lists_of cfg)) cs"
  let ?next = "anext (JoinType cfg) (Reverse cfg) seen ?xss"
  obtain cs' where r: "nextResult (Suc n) (fetchPage zr cfg) cfg seen cs =
      Some (Inr (map_option (\<lambda>(m, s, i). (m, s, map c_key cs ! i)) (fst ?next), cs'))"
      "\<forall>c\<in>set cs'. cursor_ok (lists_of cfg) c" "map c_key cs' = map c_key cs"
      "map (remaining (lists_of cfg)) cs' = snd ?next"
    using nextResult_ok[OF Suc.prems] by blast
  show ?case
  proof (cases "Limit cfg = 0 \<or> k < unat (Limit cfg)")
    case False
    then show ?thesis by (simp add: limited_def)
  next
    case go: True
    show ?thesis
    proof (cases "fst ?next")
      case None
      then have "merge_all (JoinType cfg) (Reverse cfg) seen ?xss = []"
        by (subst merge_all.simps) (cases ?next, simp)
      with None r go show ?thesis by (simp add: limited_def)
    next
      case (Some x)
      obtain m s i where x: "x = (m, s, i)" by (cases x)
      then obtain yss where nx: "?next = (Some (m, s, i), yss)" using Some by (cases ?next) auto
      have less: "total_len (map (remaining (lists_of cfg)) cs') < n"
        using anext_total[OF nx] r(4) nx Suc.prems(3) by simp
      define seen' where "seen' = seen(m \<mapsto> s)"
      have "merge_all (JoinType cfg) (Reverse cfg) seen ?xss =
          (m, s, i) # merge_all (JoinType cfg) (Reverse cfg) seen' yss"
        using nx by (subst merge_all.simps) (simp add: seen'_def)
      moreover have "limited cfg k (a # as) = a # limited cfg (Suc k) as" for a :: "bytes \<times> f64 \<times> nat" and as
        using go by (auto simp: limited_def Suc_diff_le take_Cons' dest: Suc_diff_Suc)
      ultimately show ?thesis
        using Suc.IH[OF r(2) _ less, of seen' "Suc k"] r go nx Suc.prems(2)
        by (auto simp: seen'_def[symmetric] limited_def)
    qed
  qed
qed

lemma init_ok:
  "list_all okkey ks \<Longrightarrow> \<exists>cs. init_cursors (fetchPage zr cfg) ks = Inr cs \<and> (\<forall>c\<in>set cs. cursor_ok (lists_of cfg) c) \<and>
    map (remaining (lists_of cfg)) cs = map (lists_of cfg) ks \<and> map c_key cs = ks"
proof (induction ks)
  case Nil
  then show ?case by simp
next
  case (Cons k ks)
  let ?c = "\<lparr>c_key = k, c_results = [], c_pos = 0, c_offset = 0, c_done = False\<rparr>"
  have ok: "cursor_ok (lists_of cfg) ?c" "remaining (lists_of cfg) ?c = lists_of cfg k"
    by (simp_all add: cursor_ok_def remaining_def)
  obtain c' where "fetchPage zr cfg ?c = Inr c'" "fresh (lists_of cfg) c'"
      "remaining (lists_of cfg) c' = lists_of cfg k" "c_key c' = k"
    using fetch_ok[OF ok(1)] ok(2) Cons.prems by auto
  with Cons show ?case by (auto simp: fresh_def)
qed

text \<open>With enough fuel the search returns exactly the merge of the keys' lists, cut to the limit.\<close>

lemma search_merge:
  assumes "total_len (map (lists_of cfg) (Keys cfg)) < fuel" "list_all okkey (Keys cfg)"
  shows "store_search fuel zr cfg =
    Some (Inr (map (\<lambda>(m, s, i). \<lparr>Member = m, Score = s, Key = Keys cfg ! i\<rparr>)
      (limited cfg 0 (merge_all (JoinType cfg) (Reverse cfg) Map.empty
        (map (lists_of cfg) (Keys cfg))))))"
proof (cases "Keys cfg = []")
  case True
  have "merge_all (JoinType cfg) (Reverse cfg) Map.empty [] = []"
    by (subst merge_all.simps) (simp add: anext.simps)
  with True show ?thesis by (simp add: store_search_def limited_def)
next
  case False
  obtain cs where cs: "init_cursors (fetchPage zr cfg) (Keys cfg) = Inr cs"
      "\<forall>c\<in>set cs. cursor_ok (lists_of cfg) c"
      "map (remaining (lists_of cfg)) cs = map (lists_of cfg) (Keys cfg)" "map c_key cs = Keys cfg"
    using init_ok[OF assms(2)] by blast
  then show ?thesis using search_loop_ok[OF cs(2), of fuel Map.empty 0] False assms
    by (simp add: store_search_def)
qed

end

section \<open>What the merge computes\<close>

subsection \<open>The best candidate is minimal\<close>

definition score_key :: "bool \<Rightarrow> f64 \<Rightarrow> int" where
  "score_key rv s = (if rv then - f64_ord s else f64_ord s)"

lemma score_ord_key: "score_ord rv x = score_key rv (Score x)"
  by (simp add: score_ord_def score_key_def)

definition numbers :: "scored_member list list \<Rightarrow> bool" where
  "numbers xss \<longleftrightarrow> (\<forall>xs\<in>set xss. \<forall>x\<in>set xs. \<not> f64_nan (Score x))"

lemma better_min:
  assumes "better rv b i x = Some (j, s, m)" "\<not> f64_nan (Score x)"
    and "\<And>j' s' m'. b = Some (j', s', m') \<Longrightarrow> \<not> f64_nan s'"
  shows "\<not> f64_nan s \<and> score_key rv s \<le> score_key rv (Score x) \<and>
    (\<forall>j' s' m'. b = Some (j', s', m') \<longrightarrow> score_key rv s \<le> score_key rv s')"
  using assms by (auto simp: better_def f64_lt_def score_key_def split: option.splits if_splits)

lemma abest_min:
  assumes "abest rv i b xss = Some (j, s, m)" "numbers xss"
    and "\<And>j' s' m'. b = Some (j', s', m') \<Longrightarrow> \<not> f64_nan s'"
  shows "(\<forall>xs\<in>set xss. xs \<noteq> [] \<longrightarrow> score_key rv s \<le> score_key rv (Score (hd xs))) \<and>
    (\<forall>j' s' m'. b = Some (j', s', m') \<longrightarrow> score_key rv s \<le> score_key rv s')"
  using assms
proof (induction xss arbitrary: i b)
  case Nil
  then show ?case by simp
next
  case (Cons xs xss)
  have num: "numbers xss" using Cons.prems(2) by (simp add: numbers_def)
  show ?case
  proof (cases xs)
    case Nil
    with Cons.prems num Cons.IH[of "Suc i" b] show ?thesis by auto
  next
    case (Cons y ys)
    obtain j' s' m' where b': "better rv b i y = Some (j', s', m')"
      using better_Some[of rv b i y] by auto
    have min: "\<not> f64_nan s' \<and> score_key rv s' \<le> score_key rv (Score y) \<and>
        (\<forall>j'' s'' m''. b = Some (j'', s'', m'') \<longrightarrow> score_key rv s' \<le> score_key rv s'')"
      by (rule better_min[OF b']) (use Cons Cons.prems in \<open>auto simp: numbers_def\<close>)
    have "abest rv (Suc i) (Some (j', s', m')) xss = Some (j, s, m)"
      using Cons.prems(1) Cons b' by simp
    from Cons.IH[OF this num] min Cons show ?thesis by fastforce
  qed
qed

subsection \<open>Union: sorted, complete and without duplicates\<close>

text \<open>The member and score pairs of a family of lists, and those recorded as seen.\<close>

definition entries :: "scored_member list list \<Rightarrow> (bytes \<times> int) set" where
  "entries xss = (\<lambda>x. (Member x, f64_ord (Score x))) ` (\<Union>xs\<in>set xss. set xs)"

definition seen_entries :: "(bytes \<Rightarrow> f64 option) \<Rightarrow> (bytes \<times> int) set" where
  "seen_entries seen = {(m, f64_ord l) | m l. seen m = Some l}"

text \<open>
  The invariant of the merge: the lists ascend, hold numbers, and no member comes again
  with a score before the one recorded for it.
\<close>

definition merge_inv :: "bool \<Rightarrow> (bytes \<Rightarrow> f64 option) \<Rightarrow> scored_member list list \<Rightarrow> bool" where
  "merge_inv rv seen xss \<longleftrightarrow>
     numbers xss \<and> (\<forall>xs\<in>set xss. sorted (map (score_ord rv) xs)) \<and>
     (\<forall>m l. seen m = Some l \<longrightarrow> \<not> f64_nan l \<and>
       (\<forall>xs\<in>set xss. \<forall>x\<in>set xs. Member x = m \<longrightarrow> score_key rv l \<le> score_ord rv x))"

lemma merge_inv_step:
  assumes inv: "merge_inv rv seen xss" and b: "abest rv 0 None xss = Some (i, s, m)"
  defines "yss \<equiv> xss[i := tl (xss ! i)]"
  shows "merge_inv rv seen yss" "entries xss = insert (m, f64_ord s) (entries yss)"
    "\<not> f64_nan s" "\<And>xs x. xs \<in> set xss \<Longrightarrow> x \<in> set xs \<Longrightarrow> score_key rv s \<le> score_ord rv x"
proof -
  have i1: "i < length xss" using abest_Some[OF b] by simp
  obtain x xs where i: "xss ! i = x # xs" "Score x = s" "Member x = m"
    using abest_Some[OF b] by (cases "xss ! i") auto
  have ins: "set xss = insert (x # xs) (set (take i xss) \<union> set (drop (Suc i) xss))"
    using id_take_nth_drop[OF i1] i(1) by (metis Un_insert_right list.simps(15) set_append)
  have yss: "set yss = insert xs (set (take i xss) \<union> set (drop (Suc i) xss))"
    using i1 i(1) by (simp add: yss_def upd_conv_take_nth_drop)
  show "merge_inv rv seen yss"
    using inv unfolding merge_inv_def numbers_def yss ins by auto
  show "entries xss = insert (m, f64_ord s) (entries yss)"
    unfolding entries_def yss ins using i by auto
  show "\<not> f64_nan s" using inv i ins by (auto simp: merge_inv_def numbers_def)
  show "score_key rv s \<le> score_ord rv z" if "zs \<in> set xss" "z \<in> set zs" for zs z
  proof -
    have "score_key rv s \<le> score_key rv (Score (hd zs))"
      using abest_min[OF b] inv that by (auto simp: merge_inv_def)
    also have "\<dots> \<le> score_ord rv z"
    proof -
      have "sorted (map (score_ord rv) zs)" using inv that(1) by (simp add: merge_inv_def)
      with that(2) show ?thesis by (cases zs) (auto simp: score_ord_key)
    qed
    finally show ?thesis .
  qed
qed

text \<open>What one call of the selection promises for a union, given the invariant.\<close>

definition union_step :: "bool \<Rightarrow> (bytes \<Rightarrow> f64 option) \<Rightarrow> scored_member list list \<Rightarrow>
    (bytes \<times> f64 \<times> nat) option \<times> scored_member list list \<Rightarrow> bool" where
  "union_step rv seen xss r \<longleftrightarrow>
     (case r of
        (None, yss) \<Rightarrow> entries xss \<subseteq> seen_entries seen
      | (Some (m, s, i), yss) \<Rightarrow>
          (m, f64_ord s) \<in> entries xss \<and> (m, f64_ord s) \<notin> seen_entries seen \<and> \<not> f64_nan s \<and>
          merge_inv rv (seen(m \<mapsto> s)) yss \<and>
          entries xss \<subseteq> insert (m, f64_ord s) (entries yss) \<union> seen_entries seen \<and>
          entries yss \<subseteq> entries xss \<and>
          (\<forall>ys\<in>set yss. \<forall>y\<in>set ys. score_key rv s \<le> score_ord rv y))"

lemma anext_union:
  assumes "merge_inv rv seen xss"
  shows "union_step rv seen xss (anext JoinUnion rv seen xss)"
  using assms
proof (induction JoinUnion rv seen xss rule: anext.induct)
  case (1 rv seen xss)
  show ?case
  proof (cases "abest rv 0 None xss")
    case None
    then have "entries xss = {}" by (auto simp: abest_None entries_def)
    with None show ?thesis by (subst anext.simps) (simp add: union_step_def)
  next
    case (Some b)
    obtain i s m where b: "abest rv 0 None xss = Some (i, s, m)" "b = (i, s, m)"
      using Some by (cases b) auto
    let ?yss = "xss[i := tl (xss ! i)]"
    note st = merge_inv_step[OF "1.prems" b(1)]
    show ?thesis
    proof (cases "\<exists>l. seen m = Some l \<and> f64_eq l s")
      case True
      then have seen: "(m, f64_ord s) \<in> seen_entries seen"
        by (auto simp: seen_entries_def f64_eq_def)
      have "anext JoinUnion rv seen xss = anext JoinUnion rv seen ?yss"
        using True b by (subst anext.simps) (auto simp: ajoin_def)
      moreover have "union_step rv seen ?yss (anext JoinUnion rv seen ?yss)"
        using "1.hyps"[OF b(1) refl refl] True st(1) by (auto simp: ajoin_def)
      ultimately show ?thesis using st(2) seen
        unfolding union_step_def by (auto split: prod.splits option.splits)
    next
      case False
      then have "(m, f64_ord s) \<notin> seen_entries seen"
        using st(3) "1.prems" by (auto simp: seen_entries_def f64_eq_def merge_inv_def)
      moreover have "anext JoinUnion rv seen xss = (Some (m, s, i), ?yss)"
        using False b by (subst anext.simps) (auto simp: ajoin_def split: option.splits)
      moreover have le: "score_key rv s \<le> score_ord rv y" if "ys \<in> set ?yss" "y \<in> set ys" for ys y
      proof -
        have "y \<in> \<Union> (set ` set xss)"
        proof -
          from that(1) consider "ys \<in> set xss" | "ys = tl (xss ! i)" "i < length xss"
            by (metis set_update_subset_insert insertE length_list_update list_update_beyond not_le subsetD)
          then show ?thesis
          proof cases
            case 1
            with that(2) show ?thesis by blast
          next
            case 2
            moreover have "set (tl (xss ! i)) \<subseteq> set (xss ! i)" by (cases "xss ! i") auto
            moreover have "xss ! i \<in> set xss" using 2 by simp
            ultimately show ?thesis using that(2) by blast
          qed
        qed
        then show ?thesis using st(4) by auto
      qed
      moreover have "merge_inv rv (seen(m \<mapsto> s)) ?yss"
        using st(1,3) le by (auto simp: merge_inv_def)
      ultimately show ?thesis using st(2,3) by (auto simp: union_step_def)
    qed
  qed
qed

lemma union_mem:
  assumes inv: "merge_inv rv seen xss" and st: "union_step rv seen xss (Some (m, s, i), yss)"
  shows "entries xss - seen_entries seen =
    insert (m, f64_ord s) (entries yss - seen_entries (seen(m \<mapsto> s)))"
proof -
  let ?S = "seen_entries seen" and ?T = "seen_entries (seen(m \<mapsto> s))"
  have T: "e \<in> ?T \<longleftrightarrow> (if fst e = m then e = (m, f64_ord s) else e \<in> ?S)" for e
    by (cases e) (auto simp: seen_entries_def split: if_splits)
  have old: "e \<notin> ?S" if e: "e \<in> entries yss" "fst e = m" for e
  proof
    assume "e \<in> ?S"
    then obtain l where l: "seen m = Some l" "e = (m, f64_ord l)"
      using e(2) by (auto simp: seen_entries_def)
    have "(m, f64_ord s) \<in> entries xss" "(m, f64_ord s) \<notin> ?S" using st by (auto simp: union_step_def)
    then have "score_key rv l \<le> score_key rv s"
      using inv l(1) unfolding merge_inv_def entries_def by (force simp: score_ord_key score_key_def)
    moreover have "score_key rv s \<le> score_key rv l"
      using st e l(2) unfolding union_step_def entries_def by (force simp: score_ord_key score_key_def)
    ultimately have "f64_ord l = f64_ord s" by (simp add: score_key_def split: if_splits)
    with \<open>(m, f64_ord s) \<notin> ?S\<close> l(1) show False by (auto simp: seen_entries_def)
  qed
  have "(m, f64_ord s) \<in> entries xss" "(m, f64_ord s) \<notin> ?S" "entries yss \<subseteq> entries xss"
    "entries xss \<subseteq> insert (m, f64_ord s) (entries yss) \<union> ?S"
    using st by (auto simp: union_step_def)
  with T old show ?thesis by (auto split: if_splits)
qed

abbreviation result_entry :: "bytes \<times> f64 \<times> nat \<Rightarrow> bytes \<times> int" where
  "result_entry \<equiv> \<lambda>(m, s, i). (m, f64_ord s)"

lemma merge_all_union:
  assumes "merge_inv rv seen xss"
  shows "set (map result_entry (merge_all JoinUnion rv seen xss)) = entries xss - seen_entries seen \<and>
    distinct (map result_entry (merge_all JoinUnion rv seen xss)) \<and>
    sorted (map (\<lambda>(m, s, i). score_key rv s) (merge_all JoinUnion rv seen xss))"
  using assms
proof (induction JoinUnion rv seen xss rule: merge_all.induct)
  case (1 rv seen xss)
  note st = anext_union[OF "1.prems"]
  obtain r yss where n: "anext JoinUnion rv seen xss = (r, yss)" by fastforce
  show ?case
  proof (cases r)
    case None
    with n have "merge_all JoinUnion rv seen xss = []" by (subst merge_all.simps) simp
    moreover have "entries xss \<subseteq> seen_entries seen" using st n None by (simp add: union_step_def)
    ultimately show ?thesis by auto
  next
    case (Some x)
    obtain m s i where x: "r = Some (m, s, i)" using Some by (cases x) auto
    let ?out = "merge_all JoinUnion rv (seen(m \<mapsto> s)) yss"
    have eq: "merge_all JoinUnion rv seen xss = (m, s, i) # ?out"
      using n x by (subst merge_all.simps) simp
    have st': "union_step rv seen xss (Some (m, s, i), yss)" using st n x by simp
    have IH: "set (map result_entry ?out) = entries yss - seen_entries (seen(m \<mapsto> s))"
        "distinct (map result_entry ?out)" "sorted (map (\<lambda>(m, s, i). score_key rv s) ?out)"
      using "1.hyps"[of r yss "(m, s, i)" m "(s, i)" s i] n x st' by (auto simp: union_step_def)
    have "(m, f64_ord s) \<in> seen_entries (seen(m \<mapsto> s))" by (auto simp: seen_entries_def)
    moreover have "score_key rv s \<le> score_key rv s'" if "(m', s', i') \<in> set ?out" for m' s' i'
    proof -
      have "(m', f64_ord s') \<in> entries yss" using IH(1) that by force
      then obtain ys y where "ys \<in> set yss" "y \<in> set ys" "f64_ord (Score y) = f64_ord s'"
        by (auto simp: entries_def)
      with st' show ?thesis by (force simp: union_step_def score_ord_key score_key_def)
    qed
    ultimately show ?thesis
      using IH union_mem[OF "1.prems" st'] by (auto simp: eq)
  qed
qed

subsection \<open>Where results come from, for every join\<close>

definition shrinks :: "scored_member list list \<Rightarrow> scored_member list list \<Rightarrow> bool" where
  "shrinks xss yss \<longleftrightarrow> list_all2 (\<lambda>xs ys. set ys \<subseteq> set xs) xss yss"

lemma shrinks_refl [simp]: "shrinks xss xss"
  by (simp add: shrinks_def list_all2_same)

lemma shrinks_trans: "shrinks xss yss \<Longrightarrow> shrinks yss zss \<Longrightarrow> shrinks xss zss"
  unfolding shrinks_def by (rule list_all2_trans[of "\<lambda>xs ys. set ys \<subseteq> set xs"]) auto

lemma set_tl_subset: "set (tl xs) \<subseteq> set xs"
  by (cases xs) auto

lemma ajoin_shrinks: "shrinks xss (fst (ajoin jt i m xss))"
proof -
  have "shrinks xss (xss[i := tl (xss ! i)])"
    by (cases "i < length xss")
      (auto simp: shrinks_def list_all2_conv_all_nth nth_list_update list_update_beyond
        dest!: set_tl_subset[THEN subsetD])
  moreover have "shrinks xss (map (\<lambda>xs. if head_is m xs then tl xs else xs) xss)"
    "shrinks xss (map tl xss)"
    by (auto simp: shrinks_def list_all2_conv_all_nth dest!: set_tl_subset[THEN subsetD])
  ultimately show ?thesis by (simp add: ajoin_def split: join_type.splits)
qed

text \<open>
  A returned entry stands in the list of the key it is reported for; an intersection's
  member stands in every list, and a difference's entry in the first.
\<close>

definition result_from :: "join_type \<Rightarrow> scored_member list list \<Rightarrow> bytes \<times> f64 \<times> nat \<Rightarrow> bool" where
  "result_from jt xss r \<longleftrightarrow>
     (case r of (m, s, i) \<Rightarrow>
        i < length xss \<and> (\<exists>x\<in>set (xss ! i). Member x = m \<and> Score x = s) \<and>
        (jt = JoinIntersect \<longrightarrow> (\<forall>xs\<in>set xss. m \<in> Member ` set xs)) \<and>
        (jt = JoinDifference \<longrightarrow> i = 0))"

lemma result_from_shrinks:
  assumes "shrinks xss yss" "result_from jt yss r"
  shows "result_from jt xss r"
proof -
  obtain m s i where r: "r = (m, s, i)" by (cases r)
  have len: "length yss = length xss" and sub: "\<And>j. j < length xss \<Longrightarrow> set (yss ! j) \<subseteq> set (xss ! j)"
    using assms(1) by (auto simp: shrinks_def list_all2_conv_all_nth)
  have "m \<in> Member ` set xs" if jt: "jt = JoinIntersect" and xs: "xs \<in> set xss" for xs
  proof -
    obtain j where "j < length xss" "xs = xss ! j" using xs by (auto simp: in_set_conv_nth)
    moreover from this have "m \<in> Member ` set (yss ! j)"
      using assms(2) jt r len by (simp add: result_from_def)
    ultimately show ?thesis using sub by blast
  qed
  with assms(2) r len sub show ?thesis unfolding result_from_def by auto
qed

lemma ajoin_result:
  assumes b: "abest rv 0 None xss = Some (i, s, m)" and "snd (ajoin jt i m xss)"
  shows "result_from jt xss (m, s, i)"
proof -
  have i1: "i < length xss" using abest_Some[OF b] by simp
  have i: "xss ! i \<noteq> []" "Score (hd (xss ! i)) = s" "Member (hd (xss ! i)) = m"
    using abest_Some[OF b] by simp_all
  have "i = 0" if "jt = JoinDifference"
  proof (rule ccontr)
    assume "i \<noteq> 0"
    then have "tl xss ! (i - 1) = xss ! i" "i - 1 < length (tl xss)"
      using i1 by (cases xss; cases i; simp)+
    then have "xss ! i \<in> set (tl xss)" by (metis nth_mem)
    then have "list_ex (head_is m) (tl xss)" using i by (auto simp: list_ex_iff head_is_def)
    moreover have "1 < length xss" using i1 \<open>i \<noteq> 0\<close> by simp
    ultimately show False using assms(2) that by (simp add: ajoin_def)
  qed
  moreover have "\<forall>xs\<in>set xss. m \<in> Member ` set xs" if "jt = JoinIntersect"
    using assms(2) that by (auto simp: ajoin_def list_all_iff head_is_def split: if_splits)
  moreover have "\<exists>x\<in>set (xss ! i). Member x = m \<and> Score x = s" using i hd_in_set by blast
  ultimately show ?thesis using i1 by (simp add: result_from_def)
qed

lemma anext_from:
  "anext jt rv seen xss = (r, yss) \<Longrightarrow>
     shrinks xss yss \<and> (\<forall>x. r = Some x \<longrightarrow> result_from jt xss x)"
proof (induction jt rv seen xss rule: anext.induct)
  case (1 jt rv seen xss)
  show ?case
  proof (cases "abest rv 0 None xss")
    case None
    with "1.prems" show ?thesis by (subst (asm) anext.simps) auto
  next
    case (Some b)
    obtain i s m where b: "abest rv 0 None xss = Some (i, s, m)" using Some by (cases b) auto
    show ?thesis
    proof (cases "snd (ajoin jt i m xss) \<and>
        (case seen m of None \<Rightarrow> True | Some l \<Rightarrow> \<not> f64_eq l s)")
      case True
      with "1.prems" b have "r = Some (m, s, i)" "yss = fst (ajoin jt i m xss)"
        by (subst (asm) anext.simps, simp)+
      then show ?thesis using ajoin_shrinks ajoin_result[OF b] True by auto
    next
      case False
      then have "anext jt rv seen (fst (ajoin jt i m xss)) = (r, yss)"
        using "1.prems" b by (subst (asm) anext.simps) (auto split: if_splits)
      with "1.IH"[OF b refl refl False] ajoin_shrinks[of xss jt i m] show ?thesis
        by (auto intro: shrinks_trans result_from_shrinks)
    qed
  qed
qed

lemma merge_all_from: "x \<in> set (merge_all jt rv seen xss) \<Longrightarrow> result_from jt xss x"
proof (induction jt rv seen xss rule: merge_all.induct)
  case (1 jt rv seen xss)
  obtain r yss where n: "anext jt rv seen xss = (r, yss)" by fastforce
  show ?case
  proof (cases r)
    case None
    with n "1.prems" show ?thesis by (subst (asm) merge_all.simps) simp
  next
    case (Some y)
    obtain m s i where y: "y = (m, s, i)" by (cases y)
    have "x = (m, s, i) \<or> x \<in> set (merge_all jt rv (seen(m \<mapsto> s)) yss)"
      using "1.prems" n Some y by (subst (asm) merge_all.simps) simp
    then show ?thesis
    proof
      assume "x = (m, s, i)"
      with anext_from[OF n] Some y show ?thesis by simp
    next
      assume "x \<in> set (merge_all jt rv (seen(m \<mapsto> s)) yss)"
      then have "result_from jt yss x"
        using "1.IH"[OF n[symmetric] Some y[symmetric] refl] by blast
      with anext_from[OF n] show ?thesis by (blast intro: result_from_shrinks)
    qed
  qed
qed

end
