(* ===== verification/BadgerStore.thy ===== *)
theory BadgerStore
  imports Engine StoreSearch
begin

text \<open>
  \<open>pkg/store/badger.go\<close>: the store over the embedded engine. The key layouts, every
  operation of the \<open>Store\<close> interface as the transaction it runs, and the retry of
  conflicting transactions. The sections after the code give the meaning of the stored
  keys as sets, hashes, sorted sets and plain values.
\<close>

section \<open>Transactions\<close>

definition maxRetries :: nat where
  "maxRetries = 10"

text \<open>
  \<open>update\<close>: run the function on a transaction and commit; a conflict discards the attempt
  and tries again, at most \<open>maxRetries\<close> times; any other error is returned at once. A
  failed attempt leaves the database as it was.
\<close>

fun update_attempts :: "'db engine \<Rightarrow> ('db \<Rightarrow> err + 'a \<times> 'db) \<Rightarrow> nat \<Rightarrow> nat \<Rightarrow> ('db, err, 'a) sm" where
  "update_attempts E fn 0 i db = (Inl ErrConflict, db)"
| "update_attempts E fn (Suc n) i db =
     (case rbind (fn db) (\<lambda>(x, db'). case tx_commit E db db' i of
                                        None \<Rightarrow> Inr (x, db') | Some e \<Rightarrow> Inl e) of
        Inr (x, db') \<Rightarrow> (Inr x, db')
      | Inl e \<Rightarrow> if e = ErrConflict then update_attempts E fn n (Suc i) db else (Inl e, db))"

definition store_update :: "'db engine \<Rightarrow> ('db \<Rightarrow> err + 'a \<times> 'db) \<Rightarrow> ('db, err, 'a) sm" where
  "store_update E fn = update_attempts E fn maxRetries 0"

text \<open>A transaction body with nothing to return, and a deletion that tolerates a missing key.\<close>

definition unit_tx :: "('db \<Rightarrow> err + 'db) \<Rightarrow> 'db \<Rightarrow> err + unit \<times> 'db" where
  "unit_tx f db = rbind (f db) (\<lambda>db'. Inr ((), db'))"

definition tx_drop :: "'db engine \<Rightarrow> bytes \<Rightarrow> 'db \<Rightarrow> err + 'db" where
  "tx_drop E k db =
     (case tx_delete E db k of
        Inl e \<Rightarrow> if e \<noteq> ErrKeyNotFound then Inl e else Inr db
      | Inr db' \<Rightarrow> Inr db')"

section \<open>Keys\<close>

definition prefixSet :: bytes where "prefixSet = ''s:''"
definition prefixHash :: bytes where "prefixHash = ''h:''"
definition prefixZSetScore :: bytes where "prefixZSetScore = ''zs:''"
definition prefixZSetMember :: bytes where "prefixZSetMember = ''zm:''"

definition setPrefix :: "bytes \<Rightarrow> bytes" where
  "setPrefix key = prefixSet @ key @ '':''"

definition setKey :: "bytes \<Rightarrow> bytes \<Rightarrow> bytes" where
  "setKey key member = prefixSet @ key @ '':'' @ member"

definition hashPrefix :: "bytes \<Rightarrow> bytes" where
  "hashPrefix key = prefixHash @ key @ '':''"

definition hashKey :: "bytes \<Rightarrow> bytes \<Rightarrow> bytes" where
  "hashKey key field = prefixHash @ key @ '':'' @ field"

definition zsetScorePrefix :: "bytes \<Rightarrow> bytes" where
  "zsetScorePrefix key = prefixZSetScore @ key @ [CHR 0x00]"

definition zsetScoreKey :: "bytes \<Rightarrow> f64 \<Rightarrow> bytes \<Rightarrow> bytes" where
  "zsetScoreKey key score member =
     prefixZSetScore @ key @ [CHR 0x00] @ encodeFloat64 score @ [CHR 0x00] @ member"

definition zsetMemberPrefix :: "bytes \<Rightarrow> bytes" where
  "zsetMemberPrefix key = prefixZSetMember @ key @ [CHR 0x00]"

definition zsetMemberKey :: "bytes \<Rightarrow> bytes \<Rightarrow> bytes" where
  "zsetMemberKey key member = prefixZSetMember @ key @ [CHR 0x00] @ member"

definition kvKey :: "bytes \<Rightarrow> bytes" where
  "kvKey key = ''k:'' @ key"

section \<open>Sets\<close>

definition badger_SAdd :: "'db engine \<Rightarrow> bytes \<Rightarrow> bytes list \<Rightarrow> ('db, unit) wr" where
  "badger_SAdd E key members =
     store_update E (unit_tx (rfold (\<lambda>member db. tx_set E db (setKey key member) []) members))"

definition badger_SMembers :: "'db engine \<Rightarrow> bytes \<Rightarrow> ('db, bytes list) rd" where
  "badger_SMembers E key db =
     (let prefix = setPrefix key
      in Inr (map (\<lambda>item. drop (length prefix) (fst item)) (it_prefix E db prefix)))"

definition badger_SRem :: "'db engine \<Rightarrow> bytes \<Rightarrow> bytes list \<Rightarrow> ('db, unit) wr" where
  "badger_SRem E key members =
     store_update E (unit_tx (rfold (\<lambda>member db. tx_drop E (setKey key member) db) members))"

definition badger_SIsMember :: "'db engine \<Rightarrow> bytes \<Rightarrow> bytes \<Rightarrow> ('db, bool) rd" where
  "badger_SIsMember E key member db =
     (case tx_get E db (setKey key member) of
        Inr _ \<Rightarrow> Inr True
      | Inl e \<Rightarrow> if e = ErrKeyNotFound then Inr False else Inl e)"

section \<open>Hashes\<close>

definition badger_HSet :: "'db engine \<Rightarrow> bytes \<Rightarrow> bytes \<Rightarrow> bytes \<Rightarrow> ('db, unit) wr" where
  "badger_HSet E key field value =
     store_update E (unit_tx (\<lambda>db. tx_set E db (hashKey key field) value))"

definition badger_HGet :: "'db engine \<Rightarrow> bytes \<Rightarrow> bytes \<Rightarrow> ('db, bytes) rd" where
  "badger_HGet E key field db = tx_get E db (hashKey key field)"

fun read_items :: "nat \<Rightarrow> (bytes \<times> (err + bytes)) list \<Rightarrow> err + kv list" where
  "read_items n [] = Inr []"
| "read_items n ((k, r) # items) =
     rbind r (\<lambda>v. rbind (read_items n items) (\<lambda>kvs. Inr ((drop n k, v) # kvs)))"

definition badger_HGetAll :: "'db engine \<Rightarrow> bytes \<Rightarrow> ('db, kv list) rd" where
  "badger_HGetAll E key db =
     (let prefix = hashPrefix key in read_items (length prefix) (it_prefix E db prefix))"

definition badger_HDel :: "'db engine \<Rightarrow> bytes \<Rightarrow> bytes list \<Rightarrow> ('db, unit) wr" where
  "badger_HDel E key flds =
     store_update E (unit_tx (rfold (\<lambda>field db. tx_drop E (hashKey key field) db) flds))"

definition badger_HMSet :: "'db engine \<Rightarrow> bytes \<Rightarrow> kv list \<Rightarrow> ('db, unit) wr" where
  "badger_HMSet E key flds =
     (if flds = [] then sret ()
      else store_update E (unit_tx (rfold
             (\<lambda>(field, value) db. tx_set E db (hashKey key field) value) flds)))"

fun hmget_loop :: "'db engine \<Rightarrow> 'db \<Rightarrow> bytes \<Rightarrow> bytes list \<Rightarrow> err + bytes option list" where
  "hmget_loop E db key [] = Inr []"
| "hmget_loop E db key (field # flds) =
     rbind (case tx_get E db (hashKey key field) of
              Inr v \<Rightarrow> Inr (Some v)
            | Inl e \<Rightarrow> if e = ErrKeyNotFound then Inr None else Inl e)
       (\<lambda>v. rbind (hmget_loop E db key flds) (\<lambda>vs. Inr (v # vs)))"

definition badger_HMGet :: "'db engine \<Rightarrow> bytes \<Rightarrow> bytes list \<Rightarrow> ('db, bytes option list) rd" where
  "badger_HMGet E key flds db = hmget_loop E db key flds"

section \<open>Sorted sets\<close>

text \<open>Reading a member's stored score: absent, present, or an engine error.\<close>

definition old_score :: "'db engine \<Rightarrow> bytes \<Rightarrow> 'db \<Rightarrow> err + f64 option" where
  "old_score E memberKey db =
     (case tx_get E db memberKey of
        Inr val \<Rightarrow> Inr (Some (decodeFloat64 val))
      | Inl e \<Rightarrow> if e = ErrKeyNotFound then Inr None else Inl e)"

definition zadd_one :: "'db engine \<Rightarrow> bytes \<Rightarrow> scored_member \<Rightarrow> 'db \<Rightarrow> err + 'db" where
  "zadd_one E key m db =
     (let memberKey = zsetMemberKey key (Member m) in
      rbind (old_score E memberKey db) (\<lambda>old.
      rbind (case old of
               Some oldScore \<Rightarrow> tx_drop E (zsetScoreKey key oldScore (Member m)) db
             | None \<Rightarrow> Inr db) (\<lambda>db1.
      rbind (tx_set E db1 (zsetScoreKey key (Score m) (Member m)) []) (\<lambda>db2.
      tx_set E db2 memberKey (encodeFloat64 (Score m))))))"

definition badger_ZAdd :: "'db engine \<Rightarrow> bytes \<Rightarrow> scored_member list \<Rightarrow> ('db, unit) wr" where
  "badger_ZAdd E key members = store_update E (unit_tx (rfold (zadd_one E key) members))"

definition zrem_one :: "'db engine \<Rightarrow> bytes \<Rightarrow> bytes \<Rightarrow> 'db \<Rightarrow> err + 'db" where
  "zrem_one E key member db =
     (let memberKey = zsetMemberKey key member in
      rbind (old_score E memberKey db) (\<lambda>old.
      case old of
        None \<Rightarrow> Inr db
      | Some oldScore \<Rightarrow>
          rbind (tx_drop E (zsetScoreKey key oldScore member) db) (\<lambda>db1.
          tx_drop E memberKey db1)))"

definition badger_ZRem :: "'db engine \<Rightarrow> bytes \<Rightarrow> bytes list \<Rightarrow> ('db, unit) wr" where
  "badger_ZRem E key members = store_update E (unit_tx (rfold (zrem_one E key) members))"

text \<open>
  \<open>ZIncrBy\<close> adds Go float64 values; the addition is the argument \<open>fadd\<close>.
\<close>

definition zincr_one :: "'db engine \<Rightarrow> (f64 \<Rightarrow> f64 \<Rightarrow> f64) \<Rightarrow> bytes \<Rightarrow> bytes \<Rightarrow> f64 \<Rightarrow> 'db \<Rightarrow>
    err + f64 \<times> 'db" where
  "zincr_one E fadd key member increment db =
     (let memberKey = zsetMemberKey key member in
      rbind (old_score E memberKey db) (\<lambda>old.
      let oldScore = (case old of Some s \<Rightarrow> s | None \<Rightarrow> 0);
          newScore = fadd oldScore increment in
      rbind (case old of
               Some _ \<Rightarrow> tx_drop E (zsetScoreKey key oldScore member) db
             | None \<Rightarrow> Inr db) (\<lambda>db1.
      rbind (tx_set E db1 (zsetScoreKey key newScore member) []) (\<lambda>db2.
      rbind (tx_set E db2 memberKey (encodeFloat64 newScore)) (\<lambda>db3.
      Inr (newScore, db3))))))"

definition badger_ZIncrBy :: "'db engine \<Rightarrow> (f64 \<Rightarrow> f64 \<Rightarrow> f64) \<Rightarrow> bytes \<Rightarrow> bytes \<Rightarrow> f64 \<Rightarrow> ('db, f64) wr" where
  "badger_ZIncrBy E fadd key member increment = store_update E (zincr_one E fadd key member increment)"

text \<open>The body of the iteration in \<open>zRangeInternal\<close>, over the keys the iterator visits.\<close>

fun zrange_loop :: "score_range \<Rightarrow> nat \<Rightarrow> bytes list \<Rightarrow> int \<Rightarrow> int \<Rightarrow> scored_member list" where
  "zrange_loop sr plen [] skipped collected = []"
| "zrange_loop sr plen (k # ks) skipped collected =
     (let afterPrefix = drop plen k in
      if length afterPrefix < 9 then zrange_loop sr plen ks skipped collected
      else let score = decodeFloat64 (take 8 afterPrefix);
               member = drop 9 afterPrefix in
      if (case Min sr of None \<Rightarrow> False
          | Some a \<Rightarrow> if MinExclusive sr then f64_le score a else f64_lt score a)
      then zrange_loop sr plen ks skipped collected
      else if (case Max sr of None \<Rightarrow> False
          | Some b \<Rightarrow> if MaxExclusive sr then f64_le b score else f64_lt b score)
      then zrange_loop sr plen ks skipped collected
      else if skipped < Offset sr then zrange_loop sr plen ks (skipped + 1) collected
      else if Count sr > 0 \<and> collected \<ge> Count sr then []
      else scored member score # zrange_loop sr plen ks skipped (collected + 1))"

definition zRangeInternal :: "'db engine \<Rightarrow> bool \<Rightarrow> bytes \<Rightarrow> score_range \<Rightarrow> ('db, scored_member list) rd" where
  "zRangeInternal E reverse key sr db =
     (let prefix = zsetScorePrefix key;
          seekKey = (if reverse then prefix @ [CHR 0xff] else prefix);
          visited = takeWhile (Sublist.prefix prefix) (it_seek E db reverse seekKey)
      in Inr (zrange_loop sr (length prefix) visited 0 0))"

definition badger_ZRange :: "'db engine \<Rightarrow> bytes \<Rightarrow> score_range \<Rightarrow> ('db, scored_member list) rd" where
  "badger_ZRange E = zRangeInternal E False"

definition badger_ZRevRange :: "'db engine \<Rightarrow> bytes \<Rightarrow> score_range \<Rightarrow> ('db, scored_member list) rd" where
  "badger_ZRevRange E = zRangeInternal E True"

definition badger_ZScore :: "'db engine \<Rightarrow> bytes \<Rightarrow> bytes \<Rightarrow> ('db, f64) rd" where
  "badger_ZScore E key member db =
     rbind (tx_get E db (zsetMemberKey key member)) (\<lambda>val. Inr (decodeFloat64 val))"

definition badger_ZCard :: "'db engine \<Rightarrow> bytes \<Rightarrow> ('db, int) rd" where
  "badger_ZCard E key db = Inr (int (length (it_prefix E db (zsetMemberPrefix key))))"

fun zsum_loop :: "(f64 \<Rightarrow> f64 \<Rightarrow> f64) \<Rightarrow> f64 \<Rightarrow> (bytes \<times> (err + bytes)) list \<Rightarrow> err + f64" where
  "zsum_loop fadd acc [] = Inr acc"
| "zsum_loop fadd acc ((k, r) # items) =
     rbind r (\<lambda>val. zsum_loop fadd (fadd acc (decodeFloat64 val)) items)"

definition badger_ZSum :: "'db engine \<Rightarrow> (f64 \<Rightarrow> f64 \<Rightarrow> f64) \<Rightarrow> bytes \<Rightarrow> ('db, f64) rd" where
  "badger_ZSum E fadd key db = zsum_loop fadd 0 (it_prefix E db (zsetMemberPrefix key))"

text \<open>
  \<open>ZKeys\<close> collects the part of each member key before its first NUL, when that part is not
  empty; the result's order is the one of a Go map's \<open>range\<close>, here of first occurrence.
\<close>

definition zkey_name :: "bytes \<Rightarrow> bytes option" where
  "zkey_name k =
     (let afterPrefix = drop (length prefixZSetMember) k;
          key = takeWhile (\<lambda>c. c \<noteq> CHR 0x00) afterPrefix
      in if CHR 0x00 \<in> set afterPrefix \<and> 0 < length key then Some key else None)"

definition badger_ZKeys :: "'db engine \<Rightarrow> bytes \<Rightarrow> ('db, bytes list) rd" where
  "badger_ZKeys E pfx db =
     Inr (remdups (List.map_filter (\<lambda>item. zkey_name (fst item)) (it_prefix E db (prefixZSetMember @ pfx))))"

section \<open>Plain values\<close>

definition badger_Get :: "'db engine \<Rightarrow> bytes \<Rightarrow> ('db, bytes) rd" where
  "badger_Get E key db = tx_get E db (kvKey key)"

definition badger_Set :: "'db engine \<Rightarrow> bytes \<Rightarrow> bytes \<Rightarrow> ('db, unit) wr" where
  "badger_Set E key value = store_update E (unit_tx (\<lambda>db. tx_set E db (kvKey key) value))"

definition badger_Del :: "'db engine \<Rightarrow> bytes \<Rightarrow> ('db, unit) wr" where
  "badger_Del E key = store_update E (unit_tx (tx_drop E (kvKey key)))"

fun scan_loop :: "int \<Rightarrow> int \<Rightarrow> (bytes \<times> (err + bytes)) list \<Rightarrow> err + kv list" where
  "scan_loop limit count [] = Inr []"
| "scan_loop limit count ((k, r) # items) =
     (if limit > 0 \<and> count \<ge> limit then Inr []
      else rbind r (\<lambda>value. rbind (scan_loop limit (count + 1) items)
             (\<lambda>results. Inr ((drop 2 k, value) # results))))"

definition badger_Scan :: "'db engine \<Rightarrow> bytes \<Rightarrow> int \<Rightarrow> ('db, kv list) rd" where
  "badger_Scan E pfx limit db = scan_loop limit 0 (it_prefix E db (kvKey pfx))"

section \<open>Search and the interface\<close>

definition badger_ranger :: "'db engine \<Rightarrow> 'db \<Rightarrow> zranger" where
  "badger_ranger E db reverse key sr =
     (if reverse then badger_ZRevRange E key sr db else badger_ZRange E key sr db)"

text \<open>
  The fuel of a search: one more than all entries of the searched keys (never exhausted, by
  \<open>badger_search_enough\<close> below).
\<close>

definition search_fuel :: "'db engine \<Rightarrow> 'db \<Rightarrow> search_cfg \<Rightarrow> nat" where
  "search_fuel E db cfg =
     Suc (sum_list (map (\<lambda>key. length (it_prefix E db (zsetScorePrefix key))) (Keys cfg)))"

definition badger_Search :: "'db engine \<Rightarrow> search_cfg \<Rightarrow> ('db, scored_member list) rd" where
  "badger_Search E cfg db =
     (case store_search (search_fuel E db cfg) (badger_ranger E db) cfg of
        Some r \<Rightarrow> r | None \<Rightarrow> Inl (ErrOther ''does not return''))"

definition badger_store :: "'db engine \<Rightarrow> 'db store_ops" where
  "badger_store E =
     \<lparr> st_Get = badger_Get E, st_Set = badger_Set E, st_Del = badger_Del E,
       st_Scan = badger_Scan E,
       st_SAdd = badger_SAdd E, st_SMembers = badger_SMembers E, st_SRem = badger_SRem E,
       st_SIsMember = badger_SIsMember E,
       st_HSet = badger_HSet E, st_HGet = badger_HGet E, st_HGetAll = badger_HGetAll E,
       st_HDel = badger_HDel E, st_HMSet = badger_HMSet E, st_HMGet = badger_HMGet E,
       st_ZAdd = badger_ZAdd E, st_ZRem = badger_ZRem E, st_ZRange = badger_ZRange E,
       st_ZRevRange = badger_ZRevRange E, st_ZScore = badger_ZScore E,
       st_ZCard = badger_ZCard E, st_Search = badger_Search E, st_ZKeys = badger_ZKeys E \<rparr>"

end
