(* ===== verification/StoreLaws.thy ===== *)
theory StoreLaws
  imports StoreTypes
begin

text \<open>
  The contract between the store and the components above it: views of the store as
  hashes, sorted sets, sets and plain values, and the laws that the operations obey on
  these views. \<open>ok\<close> is the store's own invariant, \<open>hsep\<close> says which hash names keep apart
  and \<open>zok\<close> which sorted-set names are admissible. \<open>BadgerLaws\<close> interprets it.
\<close>

locale store_laws =
  fixes S :: "'s store_ops"
    and ok :: "'s \<Rightarrow> bool"
    and hv :: "'s \<Rightarrow> bytes \<Rightarrow> bytes \<Rightarrow> bytes option"
    and zv :: "'s \<Rightarrow> bytes \<Rightarrow> bytes \<Rightarrow> f64 option"
    and sv :: "'s \<Rightarrow> bytes \<Rightarrow> bytes set"
    and kvs :: "'s \<Rightarrow> bytes \<Rightarrow> bytes option"
    and hsep :: "bytes \<Rightarrow> bytes \<Rightarrow> bool"
    and zok :: "bytes \<Rightarrow> bool"
  assumes hsep_sym: "hsep k k' \<Longrightarrow> hsep k' k"
    and HSet_law: "ok s \<Longrightarrow> \<exists>s'. st_HSet S k f v s = (Inr (), s') \<and> ok s' \<and>
          zv s' = zv s \<and> sv s' = sv s \<and> kvs s' = kvs s \<and> hv s' k = (hv s k)(f \<mapsto> v) \<and>
          (\<forall>k'. hsep k k' \<longrightarrow> hv s' k' = hv s k')"
    and HDel_law: "ok s \<Longrightarrow> \<exists>s'. st_HDel S k [f] s = (Inr (), s') \<and> ok s' \<and>
          zv s' = zv s \<and> sv s' = sv s \<and> kvs s' = kvs s \<and> hv s' k = (hv s k)(f := None) \<and>
          (\<forall>k'. hsep k k' \<longrightarrow> hv s' k' = hv s k')"
    and HGet_law: "st_HGet S k f s =
          (case hv s k f of None \<Rightarrow> Inl ErrKeyNotFound | Some v \<Rightarrow> Inr v)"
    and HGetAll_law: "\<exists>fs. st_HGetAll S k s = Inr fs \<and> distinct (map fst fs) \<and> map_of fs = hv s k"
    and HMGet_law: "st_HMGet S k fs s = Inr (map (hv s k) fs)"
    and ZAdd_law: "ok s \<Longrightarrow> zok k \<Longrightarrow> f64_plain sc \<Longrightarrow>
          \<exists>s'. st_ZAdd S k [scored m sc] s = (Inr (), s') \<and> ok s' \<and>
          hv s' = hv s \<and> sv s' = sv s \<and> kvs s' = kvs s \<and> zv s' k = (zv s k)(m \<mapsto> sc) \<and>
          (\<forall>k'. zok k' \<longrightarrow> k' \<noteq> k \<longrightarrow> zv s' k' = zv s k')"
    and ZRem_law: "ok s \<Longrightarrow> zok k \<Longrightarrow>
          \<exists>s'. st_ZRem S k [m] s = (Inr (), s') \<and> ok s' \<and>
          hv s' = hv s \<and> sv s' = sv s \<and> kvs s' = kvs s \<and> zv s' k = (zv s k)(m := None) \<and>
          (\<forall>k'. zok k' \<longrightarrow> k' \<noteq> k \<longrightarrow> zv s' k' = zv s k')"
    and ZScore_law: "st_ZScore S k m s =
          (case zv s k m of None \<Rightarrow> Inl ErrKeyNotFound | Some sc \<Rightarrow> Inr sc)"
    and Scan_law: "\<exists>xs. st_Scan S p 0 s = Inr xs \<and> distinct (map fst xs) \<and>
          set xs = {(k, v). prefix p k \<and> kvs s k = Some v}"
    and Get_law: "st_Get S k s = (case kvs s k of None \<Rightarrow> Inl ErrKeyNotFound | Some v \<Rightarrow> Inr v)"
    and Set_law: "ok s \<Longrightarrow> \<exists>s'. st_Set S k v s = (Inr (), s') \<and> ok s' \<and>
          hv s' = hv s \<and> zv s' = zv s \<and> sv s' = sv s \<and> kvs s' = (kvs s)(k \<mapsto> v)"
begin

text \<open>The hash entries of names that keep apart from every name in a set are framed.\<close>

definition hframe :: "bytes set \<Rightarrow> 's \<Rightarrow> 's \<Rightarrow> bool" where
  "hframe K s s' \<longleftrightarrow> (\<forall>k'. (\<forall>k\<in>K. hsep k k') \<longrightarrow> hv s' k' = hv s k')"

lemma hframe_refl [simp]: "hframe K s s"
  by (simp add: hframe_def)

lemma hframe_trans: "hframe K s t \<Longrightarrow> hframe K t u \<Longrightarrow> hframe K s u"
  by (simp add: hframe_def)

lemma Scan_empty:
  assumes "\<And>k. prefix p k \<Longrightarrow> kvs s k = None"
  shows "st_Scan S p 0 s = Inr []"
proof -
  obtain xs where xs: "st_Scan S p 0 s = Inr xs" "set xs = {(k, v). prefix p k \<and> kvs s k = Some v}"
    using Scan_law[of p s] by blast
  then have "set xs = {}" using assms by auto
  with xs(1) show ?thesis by simp
qed

end

end
