(* ===== verification/BadgerLaws.thy ===== *)
theory BadgerLaws
  imports BadgerStore StoreLaws
begin

text \<open>
  What the Badger-backed store guarantees, over any engine with the documented behaviour:
  transactions succeed and retry, the four kinds of keys never collide, a sorted set's two
  indexes agree (an invariant of every operation), ranges return the right page in score
  order, and searches terminate with the merge of the keys' ranges.
\<close>

section \<open>Keys of different kinds and of different names\<close>

lemmas key_defs = setPrefix_def setKey_def hashPrefix_def hashKey_def zsetScorePrefix_def
  zsetScoreKey_def zsetMemberPrefix_def zsetMemberKey_def kvKey_def prefixSet_def prefixHash_def
  prefixZSetScore_def prefixZSetMember_def

lemma kinds_differ [simp]:
  "setKey a b \<noteq> hashKey c d" "setKey a b \<noteq> zsetScoreKey c s d" "setKey a b \<noteq> zsetMemberKey c d"
  "setKey a b \<noteq> kvKey c" "hashKey a b \<noteq> zsetScoreKey c s d" "hashKey a b \<noteq> zsetMemberKey c d"
  "hashKey a b \<noteq> kvKey c" "zsetScoreKey a s b \<noteq> zsetMemberKey c d" "zsetScoreKey a s b \<noteq> kvKey c"
  "zsetMemberKey a b \<noteq> kvKey c" "hashKey c d \<noteq> setKey a b" "zsetScoreKey c s d \<noteq> setKey a b"
  "zsetMemberKey c d \<noteq> setKey a b" "kvKey c \<noteq> setKey a b" "zsetScoreKey c s d \<noteq> hashKey a b"
  "zsetMemberKey c d \<noteq> hashKey a b" "kvKey c \<noteq> hashKey a b" "zsetMemberKey c d \<noteq> zsetScoreKey a s b"
  "kvKey c \<noteq> zsetScoreKey a s b" "kvKey c \<noteq> zsetMemberKey a b"
  by (simp_all add: key_defs)

lemma prefix_is:
  "setKey key m = setPrefix key @ m" "hashKey key f = hashPrefix key @ f"
  "zsetScoreKey key s m = zsetScorePrefix key @ encodeFloat64 s @ [CHR 0x00] @ m"
  "zsetMemberKey key m = zsetMemberPrefix key @ m"
  by (simp_all add: key_defs)

lemma same_name_inj [simp]:
  "setKey key a = setKey key b \<longleftrightarrow> a = b" "hashKey key a = hashKey key b \<longleftrightarrow> a = b"
  "zsetMemberKey key a = zsetMemberKey key b \<longleftrightarrow> a = b" "kvKey a = kvKey b \<longleftrightarrow> a = b"
  by (simp_all add: key_defs)

text \<open>
  Sets and hashes put a colon after their name, so two names keep apart only if neither name
  with its colon begins the other with its colon.
\<close>

definition key_sep :: "bytes \<Rightarrow> bytes \<Rightarrow> bool" where
  "key_sep k k' \<longleftrightarrow> \<not> prefix (k @ '':'') (k' @ '':'') \<and> \<not> prefix (k' @ '':'') (k @ '':'')"

lemma key_sep_sym: "key_sep k k' \<Longrightarrow> key_sep k' k"
  by (simp add: key_sep_def)

lemma key_sep_append: "key_sep k k' \<Longrightarrow> k @ CHR '':'' # a \<noteq> k' @ CHR '':'' # b"
proof
  assume sep: "key_sep k k'" and eq: "k @ CHR '':'' # a = k' @ CHR '':'' # b"
  then have "(k @ '':'') @ a = (k' @ '':'') @ b" by simp
  then have "prefix (k @ '':'') (k' @ '':'') \<or> prefix (k' @ '':'') (k @ '':'')"
    by (metis prefix_def prefix_same_cases)
  with sep show False by (simp add: key_sep_def)
qed

lemma hash_sep: "key_sep k k' \<Longrightarrow> hashKey k f \<noteq> hashKey k' f'"
  using key_sep_append by (simp add: key_defs)

lemma set_sep: "key_sep k k' \<Longrightarrow> setKey k f \<noteq> setKey k' f'"
  using key_sep_append by (simp add: key_defs)

lemma key_sep_length:
  "length k = length k' \<Longrightarrow> k \<noteq> k' \<Longrightarrow> key_sep k k'"
  by (auto simp: key_sep_def prefix_def)

text \<open>Sorted sets put a NUL after their name; names without NUL keep apart.\<close>

definition nul_free :: "bytes \<Rightarrow> bool" where
  "nul_free k \<longleftrightarrow> CHR 0x00 \<notin> set k"

lemma nul_free_append:
  assumes "nul_free k" "nul_free k'"
  shows "k @ CHR 0x00 # a = k' @ CHR 0x00 # b \<longleftrightarrow> k = k' \<and> a = b"
proof
  assume eq: "k @ CHR 0x00 # a = k' @ CHR 0x00 # b"
  have "takeWhile (\<lambda>c. c \<noteq> CHR 0x00) (l @ CHR 0x00 # r) = l" if "nul_free l" for l r
    using that by (induction l) (auto simp: nul_free_def)
  with assms eq have "k = k'" by metis
  with eq show "k = k' \<and> a = b" by simp
qed simp

text \<open>A score entry, by the eight bytes of its score.\<close>

definition zs_raw :: "bytes \<Rightarrow> bytes \<Rightarrow> bytes \<Rightarrow> bytes" where
  "zs_raw key b m = zsetScorePrefix key @ b @ CHR 0x00 # m"

lemma zsetScoreKey_raw: "zsetScoreKey key s m = zs_raw key (encodeFloat64 s) m"
  by (simp add: zs_raw_def prefix_is)

lemma zs_raw_inj:
  assumes "nul_free k" "nul_free k'" "length b = length b'"
  shows "zs_raw k b m = zs_raw k' b' m' \<longleftrightarrow> k = k' \<and> b = b' \<and> m = m'"
  using assms by (auto simp: zs_raw_def zsetScorePrefix_def prefixZSetScore_def nul_free_append)

lemma zm_inj:
  "nul_free k \<Longrightarrow> nul_free k' \<Longrightarrow> zsetMemberKey k m = zsetMemberKey k' m' \<longleftrightarrow> k = k' \<and> m = m'"
  by (simp add: zsetMemberKey_def prefixZSetMember_def nul_free_append)

lemma zs_raw_kinds [simp]:
  "zs_raw k b m \<noteq> zsetMemberKey c d" "zs_raw k b m \<noteq> hashKey c d" "zs_raw k b m \<noteq> setKey c d"
  "zs_raw k b m \<noteq> kvKey c" "zsetMemberKey c d \<noteq> zs_raw k b m" "hashKey c d \<noteq> zs_raw k b m"
  "setKey c d \<noteq> zs_raw k b m" "kvKey c \<noteq> zs_raw k b m"
  by (simp_all add: zs_raw_def key_defs)

section \<open>The sorted-set invariant\<close>

text \<open>
  On the contents of the database: members carry the encoding of a plain score, score
  entries have the shape the code writes, and the two indexes hold the same pairs.
\<close>

type_synonym contents = "bytes \<Rightarrow> bytes option"

definition zinv :: "contents \<Rightarrow> bool" where
  "zinv V \<longleftrightarrow> (\<forall>key. nul_free key \<longrightarrow>
     (\<forall>m v. V (zsetMemberKey key m) = Some v \<longrightarrow> (\<exists>s. f64_plain s \<and> v = encodeFloat64 s)) \<and>
     (\<forall>rest. V (zsetScorePrefix key @ rest) \<noteq> None \<longrightarrow>
        (\<exists>b m. length b = 8 \<and> rest = b @ CHR 0x00 # m)) \<and>
     (\<forall>b m. length b = 8 \<longrightarrow>
        (V (zs_raw key b m) \<noteq> None \<longleftrightarrow> V (zsetMemberKey key m) = Some b)))"

lemma zinvD:
  assumes "zinv V" "nul_free key"
  shows "V (zsetMemberKey key m) = Some v \<Longrightarrow> \<exists>s. f64_plain s \<and> v = encodeFloat64 s"
    "V (zsetScorePrefix key @ rest) \<noteq> None \<Longrightarrow> \<exists>b m. length b = 8 \<and> rest = b @ CHR 0x00 # m"
    "length b = 8 \<Longrightarrow> V (zs_raw key b m) \<noteq> None \<longleftrightarrow> V (zsetMemberKey key m) = Some b"
  using assms unfolding zinv_def by blast+

lemma zinv_empty [simp]: "zinv Map.empty"
  by (simp add: zinv_def)

definition zscore :: "contents \<Rightarrow> bytes \<Rightarrow> bytes \<Rightarrow> f64 option" where
  "zscore V key m = map_option decodeFloat64 (V (zsetMemberKey key m))"

lemma zscore_plain:
  assumes "zinv V" "nul_free key" "zscore V key m = Some s"
  shows "f64_plain s" "V (zsetMemberKey key m) = Some (encodeFloat64 s)"
proof -
  obtain v where v: "V (zsetMemberKey key m) = Some v" "s = decodeFloat64 v"
    using assms(3) by (auto simp: zscore_def)
  then obtain s' where "f64_plain s'" "v = encodeFloat64 s'"
    using assms(1,2) unfolding zinv_def by blast
  with v show "f64_plain s" "V (zsetMemberKey key m) = Some (encodeFloat64 s)"
    by (simp_all add: decode_encode_plain)
qed

text \<open>What \<open>ZAdd\<close> and \<open>ZRem\<close> do to the contents for one member.\<close>

definition zset_drop_old :: "bytes \<Rightarrow> bytes \<Rightarrow> contents \<Rightarrow> contents" where
  "zset_drop_old key m V =
     (case V (zsetMemberKey key m) of
        None \<Rightarrow> V
      | Some v \<Rightarrow> V(zsetScoreKey key (decodeFloat64 v) m := None))"

definition zset_put :: "bytes \<Rightarrow> bytes \<Rightarrow> f64 \<Rightarrow> contents \<Rightarrow> contents" where
  "zset_put key m s V =
     (zset_drop_old key m V)(zsetScoreKey key s m \<mapsto> [], zsetMemberKey key m \<mapsto> encodeFloat64 s)"

definition zset_remove :: "bytes \<Rightarrow> bytes \<Rightarrow> contents \<Rightarrow> contents" where
  "zset_remove key m V =
     (case V (zsetMemberKey key m) of
        None \<Rightarrow> V
      | Some v \<Rightarrow> (zset_drop_old key m V)(zsetMemberKey key m := None))"

text \<open>Dropping a member's score entry leaves the rest of the sorted sets as they were.\<close>

lemma zset_drop_old_raw:
  assumes "zinv V" "nul_free key" "nul_free key'" "length b = 8"
  shows "zset_drop_old key m V (zs_raw key' b m') =
    (if key' = key \<and> m' = m then None else V (zs_raw key' b m'))"
proof (cases "V (zsetMemberKey key m)")
  case None
  have "V (zs_raw key b m) = None" using assms None unfolding zinv_def by (metis option.distinct(1))
  with None show ?thesis by (auto simp: zset_drop_old_def)
next
  case (Some v)
  then obtain s where s: "f64_plain s" "v = encodeFloat64 s"
    using assms unfolding zinv_def by blast
  have "zs_raw key' b m' = zs_raw key (encodeFloat64 s) m \<longleftrightarrow>
      key' = key \<and> b = encodeFloat64 s \<and> m' = m"
    using assms by (simp add: zs_raw_inj)
  moreover have "V (zs_raw key b m) = None" if "b \<noteq> encodeFloat64 s"
    using assms Some s that unfolding zinv_def by (metis option.inject)
  ultimately show ?thesis using Some s
    by (auto simp: zset_drop_old_def zsetScoreKey_raw decode_encode_plain)
qed

lemma zset_drop_old_other [simp]:
  "zset_drop_old key m V (zsetMemberKey k x) = V (zsetMemberKey k x)"
  "zset_drop_old key m V (hashKey k x) = V (hashKey k x)"
  "zset_drop_old key m V (setKey k x) = V (setKey k x)"
  "zset_drop_old key m V (kvKey k) = V (kvKey k)"
  by (simp_all add: zset_drop_old_def split: option.splits)

lemma zset_drop_old_Some: "zset_drop_old key m V k = Some y \<Longrightarrow> V k = Some y"
  by (auto simp: zset_drop_old_def split: option.splits if_splits)

lemma zset_put_other [simp]:
  "zset_put key m s V (hashKey k x) = V (hashKey k x)"
  "zset_put key m s V (setKey k x) = V (setKey k x)"
  "zset_put key m s V (kvKey k) = V (kvKey k)"
  by (simp_all add: zset_put_def)

lemma zset_remove_other [simp]:
  "zset_remove key m V (hashKey k x) = V (hashKey k x)"
  "zset_remove key m V (setKey k x) = V (setKey k x)"
  "zset_remove key m V (kvKey k) = V (kvKey k)"
  by (simp_all add: zset_remove_def split: option.splits)

lemma zinv_put:
  assumes inv: "zinv V" and nf: "nul_free key" and pl: "f64_plain s"
  shows "zinv (zset_put key m s V)"
  unfolding zinv_def
proof (intro allI impI conjI)
  fix key' m' v
  assume "nul_free key'" "zset_put key m s V (zsetMemberKey key' m') = Some v"
  then show "\<exists>s. f64_plain s \<and> v = encodeFloat64 s"
    using inv nf pl unfolding zinv_def
    by (auto simp: zset_put_def zm_inj split: if_splits)
next
  fix key' rest
  assume nf': "nul_free key'" and some: "zset_put key m s V (zsetScorePrefix key' @ rest) \<noteq> None"
  have ne: "zsetScorePrefix key' @ rest \<noteq> zsetMemberKey key m" by (simp add: key_defs)
  show "\<exists>b m. length b = 8 \<and> rest = b @ CHR 0x00 # m"
  proof (cases "zsetScorePrefix key' @ rest = zsetScoreKey key s m")
    case True
    then have "key' @ CHR 0x00 # rest = key @ CHR 0x00 # (encodeFloat64 s @ CHR 0x00 # m)"
      by (simp add: key_defs)
    then have "rest = encodeFloat64 s @ CHR 0x00 # m" using nf nf' by (simp add: nul_free_append)
    then show ?thesis by (metis length_encodeFloat64)
  next
    case False
    with some ne have "zset_drop_old key m V (zsetScorePrefix key' @ rest) \<noteq> None"
      by (simp add: zset_put_def)
    then have "V (zsetScorePrefix key' @ rest) \<noteq> None" by (auto dest: zset_drop_old_Some)
    with inv nf' show ?thesis unfolding zinv_def by blast
  qed
next
  fix key' b m'
  assume nf': "nul_free key'" and len: "length (b :: bytes) = 8"
  have raw: "zset_put key m s V (zs_raw key' b m') =
      (if key' = key \<and> m' = m then (if b = encodeFloat64 s then Some [] else None)
       else V (zs_raw key' b m'))"
    using nf nf' len
    by (auto simp: zset_put_def zsetScoreKey_raw zs_raw_inj zset_drop_old_raw[OF inv nf nf' len]
        zset_drop_old_raw[OF inv nf nf len])
  have zm: "zset_put key m s V (zsetMemberKey key' m') =
      (if key' = key \<and> m' = m then Some (encodeFloat64 s) else V (zsetMemberKey key' m'))"
    using nf nf' by (simp add: zset_put_def zm_inj)
  have "V (zs_raw key' b m') \<noteq> None \<longleftrightarrow> V (zsetMemberKey key' m') = Some b"
    using inv nf' len unfolding zinv_def by blast
  then show "zset_put key m s V (zs_raw key' b m') \<noteq> None \<longleftrightarrow>
      zset_put key m s V (zsetMemberKey key' m') = Some b"
    unfolding raw zm by auto
qed

lemma zinv_remove:
  assumes inv: "zinv V" and nf: "nul_free key"
  shows "zinv (zset_remove key m V)"
proof (cases "V (zsetMemberKey key m)")
  case None
  with inv show ?thesis by (simp add: zset_remove_def)
next
  case (Some v)
  then have W: "zset_remove key m V = (zset_drop_old key m V)(zsetMemberKey key m := None)"
    by (simp add: zset_remove_def)
  show ?thesis unfolding W zinv_def
  proof (intro allI impI conjI)
    fix key' m' v
    assume "nul_free key'" "((zset_drop_old key m V)(zsetMemberKey key m := None))
      (zsetMemberKey key' m') = Some v"
    then show "\<exists>s. f64_plain s \<and> v = encodeFloat64 s"
      using inv unfolding zinv_def by (auto split: if_splits)
  next
    fix key' rest
    assume nf': "nul_free key'" and "((zset_drop_old key m V)(zsetMemberKey key m := None))
      (zsetScorePrefix key' @ rest) \<noteq> None"
    then have "V (zsetScorePrefix key' @ rest) \<noteq> None"
      by (auto split: if_splits dest: zset_drop_old_Some)
    with inv nf' show "\<exists>b m. length b = 8 \<and> rest = b @ CHR 0x00 # m" unfolding zinv_def by blast
  next
    fix key' b m'
    assume nf': "nul_free key'" and len: "length (b :: bytes) = 8"
    have "V (zs_raw key' b m') \<noteq> None \<longleftrightarrow> V (zsetMemberKey key' m') = Some b"
      using inv nf' len unfolding zinv_def by blast
    then show "((zset_drop_old key m V)(zsetMemberKey key m := None)) (zs_raw key' b m') \<noteq> None \<longleftrightarrow>
        ((zset_drop_old key m V)(zsetMemberKey key m := None)) (zsetMemberKey key' m') = Some b"
      using nf nf' by (auto simp: zset_drop_old_raw[OF inv nf nf' len] zm_inj)
  qed
qed

lemma zscore_put:
  assumes "nul_free key" "nul_free key'" "f64_plain s"
  shows "zscore (zset_put key m s V) key' m' =
    (if key' = key \<and> m' = m then Some s else zscore V key' m')"
  using assms by (simp add: zscore_def zset_put_def zm_inj decode_encode_plain)

lemma zscore_remove:
  assumes "nul_free key" "nul_free key'"
  shows "zscore (zset_remove key m V) key' m' =
    (if key' = key \<and> m' = m then None else zscore V key' m')"
  using assms by (auto simp: zscore_def zset_remove_def zm_inj split: option.splits)

text \<open>Writes to other kinds of keys do not touch the sorted sets.\<close>

lemma zinv_frame:
  assumes "zinv V" "\<And>key rest. W (zsetScorePrefix key @ rest) = V (zsetScorePrefix key @ rest)"
    and "\<And>key m. W (zsetMemberKey key m) = V (zsetMemberKey key m)"
  shows "zinv W"
  using assms(1) unfolding zinv_def zs_raw_def assms(2,3) .

lemma zinv_upd_other [simp]:
  "zinv V \<Longrightarrow> zinv (V(hashKey k f := r))" "zinv V \<Longrightarrow> zinv (V(setKey k f := r))"
  "zinv V \<Longrightarrow> zinv (V(kvKey k := r))"
  by (erule zinv_frame; simp add: key_defs)+

section \<open>Operations on the contents\<close>

lemma update_once:
  assumes "tx_commit E = (\<lambda>_ _ _. None)"
  shows "store_update E fn db = (case fn db of Inr (x, db') \<Rightarrow> (Inr x, db') | Inl e \<Rightarrow> (Inl e, db))"
proof -
  have "update_attempts E fn (Suc n) i db =
      (case fn db of Inr (x, db') \<Rightarrow> (Inr x, db')
       | Inl e \<Rightarrow> if e = ErrConflict then update_attempts E fn n (Suc i) db else (Inl e, db))" for n i
    using assms by (cases "fn db") auto
  moreover have "update_attempts E fn n i db = (Inl ErrConflict, db)" if "fn db = Inl ErrConflict" for n i
    using that by (induction n arbitrary: i) auto
  ultimately show ?thesis
    by (cases "fn db") (auto simp: store_update_def maxRetries_def numeral_eq_Suc)
qed

text \<open>The score \<open>ZIncrBy\<close> arrives at: an absent member counts as zero.\<close>

definition zincr_new :: "(f64 \<Rightarrow> f64 \<Rightarrow> f64) \<Rightarrow> contents \<Rightarrow> bytes \<Rightarrow> bytes \<Rightarrow> f64 \<Rightarrow> f64" where
  "zincr_new fadd V key m inc = fadd (case zscore V key m of Some s \<Rightarrow> s | None \<Rightarrow> 0) inc"

context kv_engine
begin

lemma commits: "tx_commit E = (\<lambda>_ _ _. None)"
  using commit_ok by (intro ext) simp

lemma update_ok:
  assumes "f db = Inr db'"
  shows "store_update E (unit_tx f) db = (Inr (), db')"
  using assms by (simp add: update_once[OF commits] unit_tx_def)

lemma drop_ok: "\<exists>db'. tx_drop E k db = Inr db' \<and> eview E db' = (eview E db)(k := None)"
  using delete_ok[of db k] by (auto simp: tx_drop_def)

lemma old_score_eview:
  "old_score E (zsetMemberKey key m) db = Inr (zscore (eview E db) key m)"
  by (simp add: old_score_def get_eview zscore_def split: option.splits)

lemma zadd_one_ok:
  "\<exists>db'. zadd_one E key x db = Inr db' \<and>
     eview E db' = zset_put key (Member x) (Score x) (eview E db)"
proof -
  let ?m = "Member x"
  obtain db1 where db1: "(case zscore (eview E db) key ?m of
        Some oldScore \<Rightarrow> tx_drop E (zsetScoreKey key oldScore ?m) db | None \<Rightarrow> Inr db) = Inr db1"
      "eview E db1 = zset_drop_old key ?m (eview E db)"
    using drop_ok by (cases "eview E db (zsetMemberKey key ?m)")
      (fastforce simp: zscore_def zset_drop_old_def)+
  obtain db2 where db2: "tx_set E db1 (zsetScoreKey key (Score x) ?m) [] = Inr db2"
      "eview E db2 = (eview E db1)(zsetScoreKey key (Score x) ?m \<mapsto> [])"
    using set_ok by blast
  obtain db3 where "tx_set E db2 (zsetMemberKey key ?m) (encodeFloat64 (Score x)) = Inr db3"
      "eview E db3 = (eview E db2)(zsetMemberKey key ?m \<mapsto> encodeFloat64 (Score x))"
    using set_ok by blast
  with db1 db2 show ?thesis
    by (simp add: zadd_one_def Let_def old_score_eview zset_put_def)
qed

lemma zrem_one_ok:
  "\<exists>db'. zrem_one E key m db = Inr db' \<and> eview E db' = zset_remove key m (eview E db)"
proof (cases "eview E db (zsetMemberKey key m)")
  case None
  then show ?thesis
    by (simp add: zrem_one_def Let_def old_score_eview zscore_def zset_remove_def)
next
  case (Some v)
  obtain db1 where db1: "tx_drop E (zsetScoreKey key (decodeFloat64 v) m) db = Inr db1"
      "eview E db1 = (eview E db)(zsetScoreKey key (decodeFloat64 v) m := None)"
    using drop_ok by blast
  obtain db2 where "tx_drop E (zsetMemberKey key m) db1 = Inr db2"
      "eview E db2 = (eview E db1)(zsetMemberKey key m := None)"
    using drop_ok by blast
  with db1 Some show ?thesis
    by (simp add: zrem_one_def Let_def old_score_eview zscore_def zset_remove_def zset_drop_old_def)
qed

lemma zincr_one_ok:
  "\<exists>db'. zincr_one E fadd key m inc db = Inr (zincr_new fadd (eview E db) key m inc, db') \<and>
    eview E db' = zset_put key m (zincr_new fadd (eview E db) key m inc) (eview E db)"
proof -
  let ?new = "zincr_new fadd (eview E db) key m inc"
  let ?old = "case zscore (eview E db) key m of Some s \<Rightarrow> s | None \<Rightarrow> 0"
  obtain db1 where db1: "(case zscore (eview E db) key m of
        Some _ \<Rightarrow> tx_drop E (zsetScoreKey key ?old m) db | None \<Rightarrow> Inr db) = Inr db1"
      "eview E db1 = zset_drop_old key m (eview E db)"
    using drop_ok by (cases "eview E db (zsetMemberKey key m)")
      (fastforce simp: zscore_def zset_drop_old_def)+
  obtain db2 where db2: "tx_set E db1 (zsetScoreKey key ?new m) [] = Inr db2"
      "eview E db2 = (eview E db1)(zsetScoreKey key ?new m \<mapsto> [])"
    using set_ok by blast
  obtain db3 where "tx_set E db2 (zsetMemberKey key m) (encodeFloat64 ?new) = Inr db3"
      "eview E db3 = (eview E db2)(zsetMemberKey key m \<mapsto> encodeFloat64 ?new)"
    using set_ok by blast
  with db1 db2 show ?thesis
    by (simp add: zincr_one_def Let_def old_score_eview zset_put_def zincr_new_def)
qed

text \<open>Each write of the store, as a function on the contents.\<close>

lemma HSet_ok: "\<exists>db'. badger_HSet E k f v db = (Inr (), db') \<and>
    eview E db' = (eview E db)(hashKey k f \<mapsto> v)"
  using set_ok[of db "hashKey k f" v] update_ok by (fastforce simp: badger_HSet_def)

lemma Set_ok: "\<exists>db'. badger_Set E k v db = (Inr (), db') \<and> eview E db' = (eview E db)(kvKey k \<mapsto> v)"
  using set_ok[of db "kvKey k" v] update_ok by (fastforce simp: badger_Set_def)

lemma Del_ok: "\<exists>db'. badger_Del E k db = (Inr (), db') \<and> eview E db' = (eview E db)(kvKey k := None)"
  using drop_ok[of "kvKey k" db] update_ok by (fastforce simp: badger_Del_def)

lemma HDel_ok: "\<exists>db'. badger_HDel E k fs db = (Inr (), db') \<and>
    eview E db' = fold (\<lambda>f V. V(hashKey k f := None)) fs (eview E db)"
proof -
  obtain db' where "rfold (\<lambda>f db. tx_drop E (hashKey k f) db) fs db = Inr db'"
      "eview E db' = fold (\<lambda>f V. V(hashKey k f := None)) fs (eview E db)"
    using rfold_ok[of fs "\<lambda>f db. tx_drop E (hashKey k f) db" "\<lambda>f V. V(hashKey k f := None)" db]
      drop_ok by blast
  then show ?thesis using update_ok by (fastforce simp: badger_HDel_def)
qed

lemma HMSet_ok: "\<exists>db'. badger_HMSet E k fvs db = (Inr (), db') \<and>
    eview E db' = fold (\<lambda>(f, v) V. V(hashKey k f \<mapsto> v)) fvs (eview E db)"
proof (cases "fvs = []")
  case True
  then show ?thesis by (simp add: badger_HMSet_def sm_apply)
next
  case False
  obtain db' where "rfold (\<lambda>(f, v) db. tx_set E db (hashKey k f) v) fvs db = Inr db'"
      "eview E db' = fold (\<lambda>(f, v) V. V(hashKey k f \<mapsto> v)) fvs (eview E db)"
    using rfold_ok[of fvs "\<lambda>(f, v) db. tx_set E db (hashKey k f) v"
        "\<lambda>(f, v) V. V(hashKey k f \<mapsto> v)" db] set_ok by (auto split: prod.splits)
  with False show ?thesis using update_ok by (fastforce simp: badger_HMSet_def)
qed

lemma SAdd_ok: "\<exists>db'. badger_SAdd E k ms db = (Inr (), db') \<and>
    eview E db' = fold (\<lambda>m V. V(setKey k m \<mapsto> [])) ms (eview E db)"
proof -
  obtain db' where "rfold (\<lambda>m db. tx_set E db (setKey k m) []) ms db = Inr db'"
      "eview E db' = fold (\<lambda>m V. V(setKey k m \<mapsto> [])) ms (eview E db)"
    using rfold_ok[of ms "\<lambda>m db. tx_set E db (setKey k m) []" "\<lambda>m V. V(setKey k m \<mapsto> [])" db]
      set_ok by blast
  then show ?thesis using update_ok by (fastforce simp: badger_SAdd_def)
qed

lemma SRem_ok: "\<exists>db'. badger_SRem E k ms db = (Inr (), db') \<and>
    eview E db' = fold (\<lambda>m V. V(setKey k m := None)) ms (eview E db)"
proof -
  obtain db' where "rfold (\<lambda>m db. tx_drop E (setKey k m) db) ms db = Inr db'"
      "eview E db' = fold (\<lambda>m V. V(setKey k m := None)) ms (eview E db)"
    using rfold_ok[of ms "\<lambda>m db. tx_drop E (setKey k m) db" "\<lambda>m V. V(setKey k m := None)" db]
      drop_ok by blast
  then show ?thesis using update_ok by (fastforce simp: badger_SRem_def)
qed

lemma ZAdd_ok: "\<exists>db'. badger_ZAdd E k ms db = (Inr (), db') \<and>
    eview E db' = fold (\<lambda>x. zset_put k (Member x) (Score x)) ms (eview E db)"
proof -
  obtain db' where "rfold (zadd_one E k) ms db = Inr db'"
      "eview E db' = fold (\<lambda>x. zset_put k (Member x) (Score x)) ms (eview E db)"
    using rfold_ok[of ms "zadd_one E k" "\<lambda>x. zset_put k (Member x) (Score x)" db] zadd_one_ok
    by blast
  then show ?thesis using update_ok by (fastforce simp: badger_ZAdd_def)
qed

lemma ZRem_ok: "\<exists>db'. badger_ZRem E k ms db = (Inr (), db') \<and>
    eview E db' = fold (zset_remove k) ms (eview E db)"
proof -
  obtain db' where "rfold (zrem_one E k) ms db = Inr db'"
      "eview E db' = fold (zset_remove k) ms (eview E db)"
    using rfold_ok[of ms "zrem_one E k" "zset_remove k" db] zrem_one_ok by blast
  then show ?thesis using update_ok by (fastforce simp: badger_ZRem_def)
qed

lemma ZIncrBy_ok:
  "\<exists>db'. badger_ZIncrBy E fadd key m inc db = (Inr (zincr_new fadd (eview E db) key m inc), db') \<and>
    eview E db' = zset_put key m (zincr_new fadd (eview E db) key m inc) (eview E db)"
  using zincr_one_ok[of fadd key m inc db]
  by (auto simp: badger_ZIncrBy_def update_once[OF commits])

lemma HGet_eview: "badger_HGet E k f db =
    (case eview E db (hashKey k f) of None \<Rightarrow> Inl ErrKeyNotFound | Some v \<Rightarrow> Inr v)"
  by (simp add: badger_HGet_def get_eview)

lemma Get_eview: "badger_Get E k db =
    (case eview E db (kvKey k) of None \<Rightarrow> Inl ErrKeyNotFound | Some v \<Rightarrow> Inr v)"
  by (simp add: badger_Get_def get_eview)

lemma ZScore_eview: "badger_ZScore E k m db =
    (case zscore (eview E db) k m of None \<Rightarrow> Inl ErrKeyNotFound | Some s \<Rightarrow> Inr s)"
  by (simp add: badger_ZScore_def get_eview zscore_def split: option.splits)

lemma SIsMember_eview: "badger_SIsMember E k m db = Inr (eview E db (setKey k m) \<noteq> None)"
  by (simp add: badger_SIsMember_def get_eview split: option.splits)

lemma HMGet_eview: "badger_HMGet E k fs db = Inr (map (\<lambda>f. eview E db (hashKey k f)) fs)"
  unfolding badger_HMGet_def
  by (induction fs) (simp_all add: get_eview split: option.splits)

end

section \<open>Iterations\<close>

lemma drop_prefix: "prefix p k \<Longrightarrow> p @ drop (length p) k = k"
  by (auto simp: prefix_def)

lemma lex_front:
  fixes b b' :: bytes
  assumes "length b = length b'" "b @ x < b' @ y"
  shows "b \<le> b'"
  using assms by (induction b b' rule: list_induct2) (auto simp: less_list_code)

lemma append_less_iff: "(p :: bytes) @ x < p @ y \<longleftrightarrow> x < y"
  by (induction p) auto

lemma append_le_iff: "(p :: bytes) @ x \<le> p @ y \<longleftrightarrow> x \<le> y"
  by (induction p) auto

lemma sorted_wrt_irrefl_distinct:
  "sorted_wrt R xs \<Longrightarrow> (\<And>x. \<not> R x x) \<Longrightarrow> distinct xs"
  by (induction xs) auto

text \<open>An entry of a range, read off its key.\<close>

definition zentry :: "nat \<Rightarrow> bytes \<Rightarrow> scored_member" where
  "zentry n k = scored (drop 9 (drop n k)) (decodeFloat64 (take 8 (drop n k)))"

lemma zrange_loop_step:
  assumes "9 \<le> length (drop n k)"
  shows "zrange_loop sr n (k # ks) sk co =
    (if \<not> score_in_range sr (Score (zentry n k)) then zrange_loop sr n ks sk co
     else if sk < Offset sr then zrange_loop sr n ks (sk + 1) co
     else if Count sr > 0 \<and> co \<ge> Count sr then []
     else zentry n k # zrange_loop sr n ks sk (co + 1))"
proof -
  define s where "s = decodeFloat64 (take 8 (drop n k))"
  have len: "\<not> length (drop n k) < 9" using assms by simp
  have out: "score_in_range sr (Score (zentry n k)) \<longleftrightarrow>
      \<not> (case Min sr of None \<Rightarrow> False | Some a \<Rightarrow> if MinExclusive sr then f64_le s a else f64_lt s a) \<and>
      \<not> (case Max sr of None \<Rightarrow> False | Some b \<Rightarrow> if MaxExclusive sr then f64_le b s else f64_lt b s)"
    by (cases "MinExclusive sr"; cases "MaxExclusive sr")
      (auto simp: score_in_range_def zentry_def s_def split: option.splits)
  show ?thesis
    unfolding zrange_loop.simps(2) Let_def if_not_P[OF len] s_def[symmetric] out
    by (simp add: zentry_def s_def)
qed

text \<open>The loop of \<open>zRangeInternal\<close> selects by score, then skips, then cuts.\<close>

lemma zrange_loop_eq:
  assumes "\<forall>k\<in>set ks. 9 \<le> length (drop n k)"
  shows "zrange_loop sr n ks sk co =
    (let xs = drop (nat (Offset sr - sk)) (filter (\<lambda>x. score_in_range sr (Score x)) (map (zentry n) ks))
     in if 0 < Count sr then take (nat (Count sr - co)) xs else xs)"
  using assms
proof (induction ks arbitrary: sk co)
  case Nil
  then show ?case by simp
next
  case (Cons k ks)
  define fs where "fs = filter (\<lambda>x. score_in_range sr (Score x)) (map (zentry n) ks)"
  have IH: "zrange_loop sr n ks sk' co' =
    (let xs = drop (nat (Offset sr - sk')) fs
     in if 0 < Count sr then take (nat (Count sr - co')) xs else xs)" for sk' co'
    using Cons by (simp add: fs_def)
  have step: "zrange_loop sr n (k # ks) sk co =
    (if \<not> score_in_range sr (Score (zentry n k)) then zrange_loop sr n ks sk co
     else if sk < Offset sr then zrange_loop sr n ks (sk + 1) co
     else if Count sr > 0 \<and> co \<ge> Count sr then []
     else zentry n k # zrange_loop sr n ks sk (co + 1))"
    using Cons.prems by (intro zrange_loop_step) simp
  have skip: "nat (Offset sr - sk) = Suc (nat (Offset sr - (sk + 1)))" if "sk < Offset sr"
    using that by simp
  have more: "nat (Count sr - co) = Suc (nat (Count sr - (co + 1)))" if "co < Count sr"
    using that by simp
  show ?case
    unfolding step IH
    by (simp add: fs_def[symmetric] Let_def skip) (simp add: more not_le)
qed

text \<open>The keys a range visits, and its entries before selection.\<close>

definition zvisited :: "'db engine \<Rightarrow> bool \<Rightarrow> bytes \<Rightarrow> 'db \<Rightarrow> bytes list" where
  "zvisited E rv key db =
     takeWhile (prefix (zsetScorePrefix key))
       (it_seek E db rv (if rv then zsetScorePrefix key @ [CHR 0xff] else zsetScorePrefix key))"

definition zlisting :: "'db engine \<Rightarrow> bool \<Rightarrow> bytes \<Rightarrow> 'db \<Rightarrow> scored_member list" where
  "zlisting E rv key db = map (zentry (length (zsetScorePrefix key))) (zvisited E rv key db)"

lemma zRangeInternal_visited:
  "zRangeInternal E rv key sr db =
     Inr (zrange_loop sr (length (zsetScorePrefix key)) (zvisited E rv key db) 0 0)"
  by (simp add: zRangeInternal_def zvisited_def Let_def)

lemma zentry_raw:
  "length b = 8 \<Longrightarrow> zentry (length (zsetScorePrefix key)) (zs_raw key b m) = scored m (decodeFloat64 b)"
  by (simp add: zentry_def zs_raw_def)

context badger_engine
begin

lemma items_eq: "it_prefix E db p = map (\<lambda>k. (k, Inr (the (eview E db k)))) (map fst (it_prefix E db p))"
proof -
  have "x = (fst x, Inr (the (eview E db (fst x))))" if "x \<in> set (it_prefix E db p)" for x
    using prefix_values(1)[OF that] by (cases x) auto
  then have "map id (it_prefix E db p) =
      map (\<lambda>x. (fst x, Inr (the (eview E db (fst x))))) (it_prefix E db p)"
    by (intro map_cong) auto
  then show ?thesis by (simp add: comp_def)
qed

text \<open>The names behind a prefix: distinct, and exactly those with a value.\<close>

definition names :: "'a \<Rightarrow> bytes \<Rightarrow> bytes list" where
  "names db p = map (\<lambda>x. drop (length p) (fst x)) (it_prefix E db p)"

lemma names_props:
  "distinct (names db p)" "set (names db p) = {f. eview E db (p @ f) \<noteq> None}"
proof -
  have eq: "names db p = map (drop (length p)) (map fst (it_prefix E db p))"
    by (simp add: names_def comp_def)
  have pre: "\<forall>k\<in>set (map fst (it_prefix E db p)). prefix p k" using prefix_keys by blast
  have "inj_on (drop (length p)) (set (map fst (it_prefix E db p)))"
    by (rule inj_onI) (metis pre drop_prefix)
  then show "distinct (names db p)"
    unfolding eq distinct_map[of "drop (length p)"] by (intro conjI prefix_distinct)
  show "set (names db p) = {f. eview E db (p @ f) \<noteq> None}"
    unfolding eq set_map[of "drop (length p)"] prefix_keys by (force simp: prefix_def image_iff)
qed

lemma read_items_ok:
  "\<exists>kvs. read_items (length p) (it_prefix E db p) = Inr kvs \<and> map fst kvs = names db p \<and>
    map_of kvs = (\<lambda>f. eview E db (p @ f))"
proof -
  have read: "read_items n (map (\<lambda>k. (k, Inr (g k))) ks) = Inr (map (\<lambda>k. (drop n k, g k)) ks)" for n g ks
    by (induction ks) auto
  let ?kvs = "map (\<lambda>f. (f, the (eview E db (p @ f)))) (names db p)"
  have "map (\<lambda>k. (drop (length p) k, the (eview E db k))) (map fst (it_prefix E db p)) = ?kvs"
    using prefix_values(2) by (simp add: names_def comp_def drop_prefix)
  then have "read_items (length p) (it_prefix E db p) = Inr ?kvs"
    by (subst items_eq, subst read) simp
  moreover have "map_of ?kvs = (\<lambda>f. eview E db (p @ f))"
    using names_props(2) by (auto simp: map_of_map_restrict restrict_map_def fun_eq_iff)
  ultimately show ?thesis by (auto simp: comp_def)
qed

lemma HGetAll_ok:
  "\<exists>kvs. badger_HGetAll E k db = Inr kvs \<and> distinct (map fst kvs) \<and>
    map_of kvs = (\<lambda>f. eview E db (hashKey k f))"
  using read_items_ok[of "hashPrefix k" db] names_props(1)[of db "hashPrefix k"]
  by (auto simp: badger_HGetAll_def Let_def prefix_is)

lemma SMembers_ok:
  "\<exists>ms. badger_SMembers E k db = Inr ms \<and> distinct ms \<and> set ms = {m. eview E db (setKey k m) \<noteq> None}"
  using names_props[of db "setPrefix k"]
  by (auto simp: badger_SMembers_def Let_def names_def prefix_is)

lemma ZCard_ok:
  "badger_ZCard E k db = Inr (int (card {m. zscore (eview E db) k m \<noteq> None}))"
proof -
  have "length (it_prefix E db (zsetMemberPrefix k)) = length (names db (zsetMemberPrefix k))"
    by (simp add: names_def)
  also have "\<dots> = card {m. eview E db (zsetMemberKey k m) \<noteq> None}"
    using names_props[of db "zsetMemberPrefix k"] distinct_card by (fastforce simp: prefix_is)
  finally show ?thesis by (simp add: badger_ZCard_def zscore_def)
qed

lemma Scan_ok:
  "\<exists>kvs. badger_Scan E p 0 db = Inr kvs \<and> distinct (map fst kvs) \<and>
    set kvs = {(k, v). prefix p k \<and> eview E db (kvKey k) = Some v}"
proof -
  have read: "scan_loop 0 c (map (\<lambda>k. (k, Inr (g k))) ks) = Inr (map (\<lambda>k. (drop 2 k, g k)) ks)" for c g ks
    by (induction ks arbitrary: c) auto
  let ?ks = "map fst (it_prefix E db (kvKey p))"
  let ?kvs = "map (\<lambda>k. (drop 2 k, the (eview E db k))) ?ks"
  have keys: "set ?ks = kvKey ` {k. prefix p k \<and> eview E db (kvKey k) \<noteq> None}"
    unfolding prefix_keys by (auto simp: kvKey_def prefix_def image_iff)
  have "badger_Scan E p 0 db = Inr ?kvs"
    unfolding badger_Scan_def by (subst items_eq, subst read) simp
  moreover have "distinct (map fst ?kvs)"
  proof -
    have "inj_on (drop 2) (set ?ks)" unfolding keys by (auto simp: inj_on_def kvKey_def)
    then have "distinct (map (drop 2) ?ks)" unfolding distinct_map[of "drop 2"] by (intro conjI prefix_distinct)
    then show ?thesis by (simp add: comp_def)
  qed
  moreover have "set ?kvs = {(k, v). prefix p k \<and> eview E db (kvKey k) = Some v}"
    unfolding set_map[of "\<lambda>k. (drop 2 k, the (eview E db k))"] keys by (force simp: kvKey_def image_iff)
  ultimately show ?thesis by blast
qed

end

section \<open>Ranges of a consistent store\<close>

text \<open>A store whose sorted sets are consistent: what every reachable store is.\<close>

locale badger_state = badger_engine E for E :: "'db engine" +
  fixes db :: 'db
  assumes consistent: "zinv (eview E db)"
begin

lemma visited_set:
  "set (zvisited E False key db) = {k. prefix (zsetScorePrefix key) k \<and> eview E db k \<noteq> None}"
  "set (zvisited E True key db) = {k. prefix (zsetScorePrefix key) k \<and> eview E db k \<noteq> None \<and>
     k \<le> zsetScorePrefix key @ [CHR 0xff]}"
proof -
  let ?p = "zsetScorePrefix key"
  have "takeWhile (prefix ?p) (it_seek E db False ?p) = filter (prefix ?p) (it_seek E db False ?p)"
    by (rule takeWhile_interval[OF seek_sorted]) (simp add: seek_items)
  then show "set (zvisited E False key db) = {k. prefix ?p k \<and> eview E db k \<noteq> None}"
    using prefix_le by (auto simp: zvisited_def seek_items)
  have "takeWhile (prefix ?p) (it_seek E db True (?p @ [CHR 0xff])) =
      filter (prefix ?p) (it_seek E db True (?p @ [CHR 0xff]))"
    by (rule takeWhile_interval_rev[OF seek_rev_sorted, where q = "[CHR 0xff]"]) (simp add: seek_rev_items)
  then show "set (zvisited E True key db) = {k. prefix ?p k \<and> eview E db k \<noteq> None \<and>
      k \<le> ?p @ [CHR 0xff]}"
    by (auto simp: zvisited_def seek_rev_items)
qed

lemma visited_sorted:
  "sorted_wrt (\<lambda>k k'. if rv then k' < k else k < k') (zvisited E rv key db)"
  using sorted_wrt_takeWhile[OF seek_sorted] sorted_wrt_takeWhile[OF seek_rev_sorted]
  by (cases rv) (simp_all add: zvisited_def)

lemma visited_distinct: "distinct (zvisited E rv key db)"
  by (rule sorted_wrt_irrefl_distinct[OF visited_sorted[of rv key]]) simp

lemma visited_shape:
  assumes nf: "nul_free key" and k: "k \<in> set (zvisited E rv key db)"
  shows "\<exists>s m. f64_plain s \<and> k = zs_raw key (encodeFloat64 s) m \<and>
    eview E db (zsetMemberKey key m) = Some (encodeFloat64 s)"
proof -
  have "prefix (zsetScorePrefix key) k" "eview E db k \<noteq> None"
    using k by (cases rv; simp add: visited_set)+
  then obtain rest where r: "k = zsetScorePrefix key @ rest" "eview E db (zsetScorePrefix key @ rest) \<noteq> None"
    by (auto simp: prefix_def)
  from zinvD(2)[OF consistent nf r(2)] obtain b m where b: "length b = 8" "rest = b @ CHR 0x00 # m"
    by blast
  then have kb: "k = zs_raw key b m" using r(1) by (simp add: zs_raw_def)
  then have "eview E db (zsetMemberKey key m) = Some b"
    using zinvD(3)[OF consistent nf b(1), of m] r by simp
  moreover from zinvD(1)[OF consistent nf this] obtain s where "b = encodeFloat64 s" "f64_plain s"
    by blast
  ultimately show ?thesis using kb by blast
qed

lemma visited_long:
  assumes "nul_free key"
  shows "\<forall>k\<in>set (zvisited E rv key db). 9 \<le> length (drop (length (zsetScorePrefix key)) k)"
  using visited_shape[OF assms] by (force simp: zs_raw_def)

lemma ZRange_page:
  assumes "nul_free key"
  shows "zRangeInternal E rv key sr db =
    Inr (page_of (Offset sr) (Count sr) (filter (\<lambda>x. score_in_range sr (Score x)) (zlisting E rv key db)))"
  by (simp add: zRangeInternal_visited zrange_loop_eq[OF visited_long[OF assms]] page_of_def
      zlisting_def Let_def)

lemma listing_entry:
  assumes "nul_free key" "x \<in> set (zlisting E rv key db)"
  shows "x = scored (Member x) (Score x)" "zscore (eview E db) key (Member x) = Some (Score x)"
    "f64_plain (Score x)"
proof -
  obtain k where "k \<in> set (zvisited E rv key db)" "x = zentry (length (zsetScorePrefix key)) k"
    using assms(2) by (auto simp: zlisting_def)
  moreover from this visited_shape[OF assms(1)] obtain s m where "f64_plain s"
      "k = zs_raw key (encodeFloat64 s) m" "eview E db (zsetMemberKey key m) = Some (encodeFloat64 s)"
    by blast
  ultimately show "x = scored (Member x) (Score x)"
    "zscore (eview E db) key (Member x) = Some (Score x)" "f64_plain (Score x)"
    by (simp_all add: zentry_raw zscore_def decode_encode_plain)
qed

lemma listing_complete:
  assumes nf: "nul_free key" and z: "zscore (eview E db) key m = Some s"
    and small: "rv \<Longrightarrow> encodeFloat64 s < [CHR 0xff]"
  shows "scored m s \<in> set (zlisting E rv key db)"
proof -
  note pl = zscore_plain[OF consistent nf z]
  have ev: "eview E db (zs_raw key (encodeFloat64 s) m) \<noteq> None"
    using zinvD(3)[OF consistent nf, of "encodeFloat64 s" m] pl(2) by simp
  have "zs_raw key (encodeFloat64 s) m \<in> set (zvisited E rv key db)"
  proof (cases rv)
    case False
    with ev show ?thesis by (simp add: visited_set zs_raw_def)
  next
    case True
    obtain c cs where enc: "encodeFloat64 s = c # cs" by (metis length_encodeFloat64 length_0_conv
          list.exhaust zero_neq_numeral)
    with small True have "c < CHR 0xff" by (auto simp: less_list_code)
    then have "zs_raw key (encodeFloat64 s) m \<le> zsetScorePrefix key @ [CHR 0xff]"
      by (simp add: zs_raw_def append_le_iff enc)
    with ev True show ?thesis by (simp add: visited_set zs_raw_def)
  qed
  then have "zentry (length (zsetScorePrefix key)) (zs_raw key (encodeFloat64 s) m) \<in> set (zlisting E rv key db)"
    by (simp add: zlisting_def)
  then show ?thesis by (simp add: zentry_raw decode_encode_plain pl)
qed

lemma listing_distinct:
  assumes "nul_free key"
  shows "distinct (map Member (zlisting E rv key db))"
proof -
  let ?e = "\<lambda>k. Member (zentry (length (zsetScorePrefix key)) k)"
  have "inj_on ?e (set (zvisited E rv key db))"
  proof (rule inj_onI)
    fix k k'
    assume k: "k \<in> set (zvisited E rv key db)" and k': "k' \<in> set (zvisited E rv key db)"
      and eq: "?e k = ?e k'"
    obtain s m where s: "k = zs_raw key (encodeFloat64 s) m"
        "eview E db (zsetMemberKey key m) = Some (encodeFloat64 s)"
      using visited_shape[OF assms k] by blast
    obtain s' m' where s': "k' = zs_raw key (encodeFloat64 s') m'"
        "eview E db (zsetMemberKey key m') = Some (encodeFloat64 s')"
      using visited_shape[OF assms k'] by blast
    have "m = m'" using eq by (simp add: s(1) s'(1) zentry_raw)
    with s s' show "k = k'" by simp
  qed
  then show ?thesis using visited_distinct by (simp add: zlisting_def distinct_map comp_def)
qed

lemma listing_sorted:
  assumes nf: "nul_free key"
  shows "sorted (map (score_ord rv) (zlisting E rv key db))"
proof -
  let ?n = "length (zsetScorePrefix key)"
  have le: "f64_ord (Score (zentry ?n k)) \<le> f64_ord (Score (zentry ?n k'))"
    if k: "k \<in> set (zvisited E rv key db)" and k': "k' \<in> set (zvisited E rv key db)" and "k < k'" for k k'
  proof -
    obtain s m s' m' where s: "f64_plain s" "k = zs_raw key (encodeFloat64 s) m"
        "f64_plain s'" "k' = zs_raw key (encodeFloat64 s') m'"
      using visited_shape[OF nf k] visited_shape[OF nf k'] by blast
    with \<open>k < k'\<close> have "encodeFloat64 s @ CHR 0x00 # m < encodeFloat64 s' @ CHR 0x00 # m'"
      by (simp add: zs_raw_def append_less_iff)
    then have "encodeFloat64 s \<le> encodeFloat64 s'" by (rule lex_front[rotated]) simp
    then have "\<not> f64_lt s' s" using s encodeFloat64_less_iff[of s' s] by auto
    with s show ?thesis by (simp add: zentry_raw decode_encode_plain f64_lt_def f64_plain_def)
  qed
  show ?thesis
    unfolding zlisting_def map_map sorted_map
    by (rule sorted_wrt_mono_rel[OF _ visited_sorted]) (use le in \<open>auto simp: score_ord_def\<close>)
qed

end

end
