(* ===== verification/BadgerSearch.thy ===== *)
theory BadgerSearch
  imports BadgerLaws StoreSearch
begin

text \<open>
  The Badger-backed store as a provider: its ranges are what the search over several keys
  relies on, its searches never run out of fuel, and its operations obey the laws of
  \<open>StoreLaws\<close>.
\<close>

section \<open>Ranges for the search\<close>

definition badger_listing ::
    "'db engine \<Rightarrow> 'db \<Rightarrow> bool \<Rightarrow> bytes \<Rightarrow> f64 option \<Rightarrow> f64 option \<Rightarrow> scored_member list" where
  "badger_listing E db rv key a b =
     filter (\<lambda>x. score_in_range \<lparr>Min = a, Max = b, MinExclusive = False, MaxExclusive = False,
                                Offset = 0, Count = 0\<rparr> (Score x)) (zlisting E rv key db)"

lemma score_in_range_page:
  "score_in_range \<lparr>Min = a, Max = b, MinExclusive = c, MaxExclusive = d, Offset = p, Count = q\<rparr> =
   score_in_range \<lparr>Min = a, Max = b, MinExclusive = c, MaxExclusive = d, Offset = 0, Count = 0\<rparr>"
  by (simp add: score_in_range_def fun_eq_iff split: option.splits)

context badger_state
begin

lemma visited_length_le:
  "length (zvisited E rv key db) \<le> length (it_prefix E db (zsetScorePrefix key))"
proof -
  have "set (zvisited E rv key db) \<subseteq> set (map fst (it_prefix E db (zsetScorePrefix key)))"
    unfolding prefix_keys by (cases rv) (auto simp: visited_set)
  then have "card (set (zvisited E rv key db)) \<le> card (set (map fst (it_prefix E db (zsetScorePrefix key))))"
    by (intro card_mono) auto
  then show ?thesis
    using distinct_card[OF visited_distinct] distinct_card[OF prefix_distinct] by simp
qed

lemma listing_length_le:
  "length (badger_listing E db rv key a b) \<le> length (it_prefix E db (zsetScorePrefix key))"
  using visited_length_le le_trans[OF length_filter_le]
  by (fastforce simp: badger_listing_def zlisting_def)

lemma ranger_page:
  "nul_free key \<Longrightarrow> badger_ranger E db rv key
     \<lparr>Min = a, Max = b, MinExclusive = False, MaxExclusive = False, Offset = off, Count = cnt\<rparr> =
   Inr (page_of off cnt (badger_listing E db rv key a b))"
  by (simp add: badger_ranger_def badger_ZRange_def badger_ZRevRange_def ZRange_page
      badger_listing_def score_in_range_page[of a b False False off cnt])

lemma filter_sorted: "sorted (map f xs) \<Longrightarrow> sorted (map f (filter P xs))"
  by (induction xs) auto

end

sublocale badger_state \<subseteq> rng: ranger "badger_ranger E db" "badger_listing E db" nul_free
proof
  show "badger_ranger E db rv key
      \<lparr>Min = a, Max = b, MinExclusive = False, MaxExclusive = False, Offset = off, Count = cnt\<rparr> =
     Inr (page_of off cnt (badger_listing E db rv key a b))"
    if "nul_free key" "0 \<le> off" "0 \<le> cnt" for key off cnt rv a b
    using that(1) by (rule ranger_page)
  show "sorted (map (score_ord rv) (badger_listing E db rv key a b))" if "nul_free key" for rv key a b
    unfolding badger_listing_def by (rule filter_sorted[OF listing_sorted[OF that]])
  show "\<not> f64_nan (Score x)" if "nul_free key" "x \<in> set (badger_listing E db rv key a b)" for key x rv a b
    using listing_entry(3)[OF that(1)] that(2) by (auto simp: badger_listing_def f64_plain_def)
qed

text \<open>A search returns: the fuel is more than all entries of the searched keys.\<close>

context badger_state
begin

lemma search_fuel_enough:
  "total_len (map (rng.lists_of cfg) (Keys cfg)) < search_fuel E db cfg"
proof -
  have "sum_list (map length (map (rng.lists_of cfg) ks)) \<le>
      sum_list (map (\<lambda>key. length (it_prefix E db (zsetScorePrefix key))) ks)" for ks
    by (induction ks) (auto intro: add_mono listing_length_le)
  then show ?thesis by (simp add: total_len_def search_fuel_def less_Suc_eq_le)
qed

lemma badger_search_enough:
  assumes "list_all nul_free (Keys cfg)"
  shows "store_search (search_fuel E db cfg) (badger_ranger E db) cfg \<noteq> None"
  using rng.search_merge[OF search_fuel_enough assms] by simp

lemma badger_search_merge:
  assumes "list_all nul_free (Keys cfg)"
  shows "badger_Search E cfg db =
    Inr (map (\<lambda>(m, s, i). \<lparr>Member = m, Score = s, Key = Keys cfg ! i\<rparr>)
      (limited cfg 0 (merge_all (JoinType cfg) (Reverse cfg) Map.empty
        (map (rng.lists_of cfg) (Keys cfg)))))"
  using rng.search_merge[OF search_fuel_enough assms] by (simp add: badger_Search_def)

end

interpretation mem_empty: badger_state mem_engine "[]"
  by unfold_locales (simp add: mem_eview[abs_def] fun_eq_iff zinv_def)

section \<open>The laws of the store\<close>

definition store_ok :: "'db engine \<Rightarrow> 'db \<Rightarrow> bool" where
  "store_ok E db = zinv (eview E db)"

text \<open>The views of the contents.\<close>

definition hash_view :: "contents \<Rightarrow> bytes \<Rightarrow> bytes \<Rightarrow> bytes option" where
  "hash_view V k f = V (hashKey k f)"

definition set_view :: "contents \<Rightarrow> bytes \<Rightarrow> bytes set" where
  "set_view V k = {m. V (setKey k m) \<noteq> None}"

definition kv_view :: "contents \<Rightarrow> bytes \<Rightarrow> bytes option" where
  "kv_view V k = V (kvKey k)"

lemmas view_defs = hash_view_def set_view_def kv_view_def zscore_def fun_eq_iff

lemma hash_write_views:
  "zscore (V(hashKey k f := r)) = zscore V" "set_view (V(hashKey k f := r)) = set_view V"
  "kv_view (V(hashKey k f := r)) = kv_view V"
  "hash_view (V(hashKey k f := r)) k = (hash_view V k)(f := r)"
  "key_sep k k' \<Longrightarrow> hash_view (V(hashKey k f := r)) k' = hash_view V k'"
  using hash_sep[of k k' f, symmetric] by (simp_all add: view_defs)

lemma kv_write_views:
  "zscore (V(kvKey k := r)) = zscore V" "set_view (V(kvKey k := r)) = set_view V"
  "hash_view (V(kvKey k := r)) = hash_view V" "kv_view (V(kvKey k := r)) = (kv_view V)(k := r)"
  by (simp_all add: view_defs)

lemma zset_write_views:
  "hash_view (zset_put k m sc V) = hash_view V" "set_view (zset_put k m sc V) = set_view V"
  "kv_view (zset_put k m sc V) = kv_view V"
  "hash_view (zset_remove k m V) = hash_view V" "set_view (zset_remove k m V) = set_view V"
  "kv_view (zset_remove k m V) = kv_view V"
  by (simp_all add: view_defs)

lemma zscore_write_views:
  assumes "nul_free k"
  shows "f64_plain sc \<Longrightarrow> zscore (zset_put k m sc V) k = (zscore V k)(m \<mapsto> sc)"
    "f64_plain sc \<Longrightarrow> nul_free k' \<Longrightarrow> k' \<noteq> k \<Longrightarrow> zscore (zset_put k m sc V) k' = zscore V k'"
    "zscore (zset_remove k m V) k = (zscore V k)(m := None)"
    "nul_free k' \<Longrightarrow> k' \<noteq> k \<Longrightarrow> zscore (zset_remove k m V) k' = zscore V k'"
  using assms by (simp_all add: fun_eq_iff zscore_put zscore_remove)

context badger_engine
begin

lemma law_HSet: "store_ok E s \<Longrightarrow> \<exists>s'. badger_HSet E k f v s = (Inr (), s') \<and> store_ok E s' \<and>
    eview E s' = (eview E s)(hashKey k f \<mapsto> v)"
  using HSet_ok[of k f v s] by (auto simp: store_ok_def)

lemma law_HDel: "store_ok E s \<Longrightarrow> \<exists>s'. badger_HDel E k [f] s = (Inr (), s') \<and> store_ok E s' \<and>
    eview E s' = (eview E s)(hashKey k f := None)"
  using HDel_ok[of k "[f]" s] by (auto simp: store_ok_def)

lemma law_Set: "store_ok E s \<Longrightarrow> \<exists>s'. badger_Set E k v s = (Inr (), s') \<and> store_ok E s' \<and>
    eview E s' = (eview E s)(kvKey k \<mapsto> v)"
  using Set_ok[of k v s] by (auto simp: store_ok_def)

lemma law_ZAdd: "store_ok E s \<Longrightarrow> nul_free k \<Longrightarrow> f64_plain sc \<Longrightarrow>
    \<exists>s'. badger_ZAdd E k [scored m sc] s = (Inr (), s') \<and> store_ok E s' \<and>
    eview E s' = zset_put k m sc (eview E s)"
  using ZAdd_ok[of k "[scored m sc]" s] by (auto simp: store_ok_def zinv_put)

lemma law_ZRem: "store_ok E s \<Longrightarrow> nul_free k \<Longrightarrow>
    \<exists>s'. badger_ZRem E k [m] s = (Inr (), s') \<and> store_ok E s' \<and>
    eview E s' = zset_remove k m (eview E s)"
  using ZRem_ok[of k "[m]" s] by (auto simp: store_ok_def zinv_remove)

end

sublocale badger_engine \<subseteq> store: store_laws "badger_store E" "store_ok E"
  "\<lambda>db. hash_view (eview E db)" "\<lambda>db. zscore (eview E db)" "\<lambda>db. set_view (eview E db)"
  "\<lambda>db. kv_view (eview E db)" key_sep nul_free
proof unfold_locales
  show "key_sep k k' \<Longrightarrow> key_sep k' k" for k k' by (rule key_sep_sym)
  let ?S = "badger_store E"
  show "store_ok E s \<Longrightarrow> \<exists>s'. st_HSet ?S k f v s = (Inr (), s') \<and> store_ok E s' \<and>
      zscore (eview E s') = zscore (eview E s) \<and> set_view (eview E s') = set_view (eview E s) \<and>
      kv_view (eview E s') = kv_view (eview E s) \<and>
      hash_view (eview E s') k = (hash_view (eview E s) k)(f \<mapsto> v) \<and>
      (\<forall>k'. key_sep k k' \<longrightarrow> hash_view (eview E s') k' = hash_view (eview E s) k')" for s k f v
    using law_HSet[of s k f v] by (fastforce simp: badger_store_def hash_write_views)
  show "store_ok E s \<Longrightarrow> \<exists>s'. st_HDel ?S k [f] s = (Inr (), s') \<and> store_ok E s' \<and>
      zscore (eview E s') = zscore (eview E s) \<and> set_view (eview E s') = set_view (eview E s) \<and>
      kv_view (eview E s') = kv_view (eview E s) \<and>
      hash_view (eview E s') k = (hash_view (eview E s) k)(f := None) \<and>
      (\<forall>k'. key_sep k k' \<longrightarrow> hash_view (eview E s') k' = hash_view (eview E s) k')" for s k f
    using law_HDel[of s k f] by (fastforce simp: badger_store_def hash_write_views)
  show "st_HGet ?S k f s = (case hash_view (eview E s) k f of
      None \<Rightarrow> Inl ErrKeyNotFound | Some v \<Rightarrow> Inr v)" for k f s
    by (simp add: badger_store_def HGet_eview hash_view_def)
  show "\<exists>fs. st_HGetAll ?S k s = Inr fs \<and> distinct (map fst fs) \<and>
      map_of fs = hash_view (eview E s) k" for k s
    using HGetAll_ok by (auto simp: badger_store_def hash_view_def[abs_def])
  show "st_HMGet ?S k fs s = Inr (map (hash_view (eview E s) k) fs)" for k fs s
    by (simp add: badger_store_def HMGet_eview hash_view_def[abs_def])
  show "store_ok E s \<Longrightarrow> nul_free k \<Longrightarrow> f64_plain sc \<Longrightarrow>
      \<exists>s'. st_ZAdd ?S k [scored m sc] s = (Inr (), s') \<and> store_ok E s' \<and>
      hash_view (eview E s') = hash_view (eview E s) \<and> set_view (eview E s') = set_view (eview E s) \<and>
      kv_view (eview E s') = kv_view (eview E s) \<and>
      zscore (eview E s') k = (zscore (eview E s) k)(m \<mapsto> sc) \<and>
      (\<forall>k'. nul_free k' \<longrightarrow> k' \<noteq> k \<longrightarrow> zscore (eview E s') k' = zscore (eview E s) k')" for s k sc m
    using law_ZAdd[of s k sc m]
    by (fastforce simp: badger_store_def zset_write_views zscore_write_views)
  show "store_ok E s \<Longrightarrow> nul_free k \<Longrightarrow>
      \<exists>s'. st_ZRem ?S k [m] s = (Inr (), s') \<and> store_ok E s' \<and>
      hash_view (eview E s') = hash_view (eview E s) \<and> set_view (eview E s') = set_view (eview E s) \<and>
      kv_view (eview E s') = kv_view (eview E s) \<and>
      zscore (eview E s') k = (zscore (eview E s) k)(m := None) \<and>
      (\<forall>k'. nul_free k' \<longrightarrow> k' \<noteq> k \<longrightarrow> zscore (eview E s') k' = zscore (eview E s) k')" for s k m
    using law_ZRem[of s k m]
    by (fastforce simp: badger_store_def zset_write_views zscore_write_views)
  show "st_ZScore ?S k m s = (case zscore (eview E s) k m of
      None \<Rightarrow> Inl ErrKeyNotFound | Some sc \<Rightarrow> Inr sc)" for k m s
    by (simp add: badger_store_def ZScore_eview)
  show "\<exists>xs. st_Scan ?S p 0 s = Inr xs \<and> distinct (map fst xs) \<and>
      set xs = {(k, v). prefix p k \<and> kv_view (eview E s) k = Some v}" for p s
    using Scan_ok by (simp add: badger_store_def kv_view_def)
  show "st_Get ?S k s = (case kv_view (eview E s) k of
      None \<Rightarrow> Inl ErrKeyNotFound | Some v \<Rightarrow> Inr v)" for k s
    by (simp add: badger_store_def Get_eview kv_view_def)
  show "store_ok E s \<Longrightarrow> \<exists>s'. st_Set ?S k v s = (Inr (), s') \<and> store_ok E s' \<and>
      hash_view (eview E s') = hash_view (eview E s) \<and> zscore (eview E s') = zscore (eview E s) \<and>
      set_view (eview E s') = set_view (eview E s) \<and>
      kv_view (eview E s') = (kv_view (eview E s))(k \<mapsto> v)" for s k v
    using law_Set[of s k v] by (fastforce simp: badger_store_def kv_write_views)
qed

end
