(* ===== verification/StoreProps.thy ===== *)
theory StoreProps
  imports BadgerSearch
begin

text \<open>
  The properties of the storage layer: reachability of consistent stores, ranges and
  counts that agree with the members, searches over several keys, retries, and score
  encoding. Each property names the Badger-backed operation of \<open>pkg/store\<close> it is about.
\<close>

section \<open>Stores that the operations reach\<close>

text \<open>
  One write of the interface, with the admissible arguments: sorted-set names without NUL,
  scores that are numbers and not the negative zero. Sets, hashes and plain values take
  any bytes.
\<close>

inductive badger_step :: "'db engine \<Rightarrow> (f64 \<Rightarrow> f64 \<Rightarrow> f64) \<Rightarrow> 'db \<Rightarrow> 'db \<Rightarrow> bool"
  for E :: "'db engine" and fadd where
  step_SAdd: "badger_SAdd E k ms db = (r, db') \<Longrightarrow> badger_step E fadd db db'"
| step_SRem: "badger_SRem E k ms db = (r, db') \<Longrightarrow> badger_step E fadd db db'"
| step_HSet: "badger_HSet E k f v db = (r, db') \<Longrightarrow> badger_step E fadd db db'"
| step_HDel: "badger_HDel E k fs db = (r, db') \<Longrightarrow> badger_step E fadd db db'"
| step_HMSet: "badger_HMSet E k fvs db = (r, db') \<Longrightarrow> badger_step E fadd db db'"
| step_Set: "badger_Set E k v db = (r, db') \<Longrightarrow> badger_step E fadd db db'"
| step_Del: "badger_Del E k db = (r, db') \<Longrightarrow> badger_step E fadd db db'"
| step_ZAdd: "badger_ZAdd E k xs db = (r, db') \<Longrightarrow> nul_free k \<Longrightarrow>
    \<forall>x\<in>set xs. f64_plain (Score x) \<Longrightarrow> badger_step E fadd db db'"
| step_ZRem: "badger_ZRem E k ms db = (r, db') \<Longrightarrow> nul_free k \<Longrightarrow> badger_step E fadd db db'"
| step_ZIncrBy: "badger_ZIncrBy E fadd k m inc db = (Inr sc, db') \<Longrightarrow> nul_free k \<Longrightarrow>
    f64_plain sc \<Longrightarrow> badger_step E fadd db db'"

inductive badger_reach :: "'db engine \<Rightarrow> (f64 \<Rightarrow> f64 \<Rightarrow> f64) \<Rightarrow> 'db \<Rightarrow> bool"
  for E :: "'db engine" and fadd where
  reach_empty: "eview E db = Map.empty \<Longrightarrow> badger_reach E fadd db"
| reach_step: "badger_reach E fadd db \<Longrightarrow> badger_step E fadd db db' \<Longrightarrow> badger_reach E fadd db'"

lemma fold_zinv:
  assumes "\<And>x V. x \<in> set xs \<Longrightarrow> zinv V \<Longrightarrow> zinv (g x V)" "zinv V"
  shows "zinv (fold g xs V)"
  using assms by (induction xs arbitrary: V) auto

context badger_engine
begin

lemma step_zinv:
  assumes "badger_step E fadd db db'" "zinv (eview E db)"
  shows "zinv (eview E db')"
  using assms
proof (induction rule: badger_step.induct)
  case (step_SAdd k ms db r db')
  obtain db'' where "badger_SAdd E k ms db = (Inr (), db'')"
    "eview E db'' = fold (\<lambda>m V. V(setKey k m \<mapsto> [])) ms (eview E db)" using SAdd_ok by blast
  with step_SAdd show ?case by (auto intro!: fold_zinv)
next
  case (step_SRem k ms db r db')
  obtain db'' where "badger_SRem E k ms db = (Inr (), db'')"
    "eview E db'' = fold (\<lambda>m V. V(setKey k m := None)) ms (eview E db)" using SRem_ok by blast
  with step_SRem show ?case by (auto intro!: fold_zinv)
next
  case (step_HSet k f v db r db')
  with law_HSet[of db k f v] show ?case by (metis store_ok_def prod.inject)
next
  case (step_HDel k fs db r db')
  obtain db'' where "badger_HDel E k fs db = (Inr (), db'')"
    "eview E db'' = fold (\<lambda>f V. V(hashKey k f := None)) fs (eview E db)" using HDel_ok by blast
  with step_HDel show ?case by (auto intro!: fold_zinv)
next
  case (step_HMSet k fvs db r db')
  obtain db'' where "badger_HMSet E k fvs db = (Inr (), db'')"
    "eview E db'' = fold (\<lambda>(f, v) V. V(hashKey k f \<mapsto> v)) fvs (eview E db)" using HMSet_ok by blast
  with step_HMSet show ?case by (auto intro!: fold_zinv)
next
  case (step_Set k v db r db')
  with law_Set[of db k v] show ?case by (metis store_ok_def prod.inject)
next
  case (step_Del k db r db')
  moreover obtain db'' where "badger_Del E k db = (Inr (), db'')"
    "eview E db'' = (eview E db)(kvKey k := None)" using Del_ok by blast
  ultimately show ?case by (metis prod.inject zinv_upd_other(3))
next
  case (step_ZAdd k xs db r db')
  obtain db'' where "badger_ZAdd E k xs db = (Inr (), db'')"
    "eview E db'' = fold (\<lambda>x. zset_put k (Member x) (Score x)) xs (eview E db)" using ZAdd_ok by blast
  with step_ZAdd show ?case by (auto intro!: fold_zinv zinv_put)
next
  case (step_ZRem k ms db r db')
  obtain db'' where "badger_ZRem E k ms db = (Inr (), db'')"
    "eview E db'' = fold (zset_remove k) ms (eview E db)" using ZRem_ok by blast
  with step_ZRem show ?case by (auto intro!: fold_zinv zinv_remove)
next
  case (step_ZIncrBy k m inc db sc db')
  with ZIncrBy_ok[of fadd k m inc db] show ?case by (auto intro!: zinv_put)
qed

lemma reach_zinv: "badger_reach E fadd db \<Longrightarrow> zinv (eview E db)"
  by (induction rule: badger_reach.induct) (auto intro: step_zinv)

lemma reach_state: "badger_reach E fadd db \<Longrightarrow> badger_state E db"
  by (unfold_locales) (rule reach_zinv)

end

section \<open>Ranges agree with the members\<close>

text \<open>The score range that a search reads of each of its keys.\<close>

abbreviation cfg_range :: "search_cfg \<Rightarrow> score_range" where
  "cfg_range cfg \<equiv> \<lparr>Min = From cfg, Max = To cfg, MinExclusive = False, MaxExclusive = False,
     Offset = 0, Count = 0\<rparr>"

context badger_state
begin

text \<open>Ascending ranges list every member; descending ones those below the seek key.\<close>

lemma listing_iff:
  assumes "nul_free key"
  shows "x \<in> set (zlisting E False key db) \<longleftrightarrow>
    x = scored (Member x) (Score x) \<and> zscore (eview E db) key (Member x) = Some (Score x)"
  using listing_entry[OF assms, of x False] listing_complete[OF assms, of "Member x" "Score x" False]
  by auto

lemma range_all:
  assumes "nul_free key"
  shows "\<exists>xs. badger_ZRange E key \<lparr>Min = a, Max = b, MinExclusive = ax, MaxExclusive = bx,
        Offset = 0, Count = 0\<rparr> db = Inr xs \<and>
    distinct (map Member xs) \<and> sorted (map (\<lambda>x. f64_ord (Score x)) xs) \<and>
    {(Member x, Score x) | x. x \<in> set xs} = {(m, s). badger_ZScore E key m db = Inr s \<and>
      score_in_range \<lparr>Min = a, Max = b, MinExclusive = ax, MaxExclusive = bx, Offset = 0, Count = 0\<rparr> s}"
proof -
  let ?sr = "\<lparr>Min = a, Max = b, MinExclusive = ax, MaxExclusive = bx, Offset = 0, Count = 0\<rparr>"
  let ?xs = "filter (\<lambda>x. score_in_range ?sr (Score x)) (zlisting E False key db)"
  have z: "badger_ZScore E key m db = Inr s \<longleftrightarrow> zscore (eview E db) key m = Some s" for m s
    by (auto simp: ZScore_eview split: option.splits)
  have "badger_ZRange E key ?sr db = Inr ?xs"
    by (simp add: badger_ZRange_def ZRange_page[OF assms])
  moreover have "distinct (map Member ?xs)"
    by (rule distinct_map_filter[OF listing_distinct[OF assms]])
  moreover have "sorted (map (\<lambda>x. f64_ord (Score x)) ?xs)"
    using filter_sorted[OF listing_sorted[OF assms, of False]] by (simp add: score_ord_def[abs_def])
  moreover have "{(Member x, Score x) | x. x \<in> set ?xs} =
      {(m, s). badger_ZScore E key m db = Inr s \<and> score_in_range ?sr s}"
    using listing_complete[OF assms, of _ _ False] listing_entry(2)[OF assms, of _ False]
    unfolding z by (force simp: )
  ultimately show ?thesis by blast
qed

lemma range_card:
  assumes "nul_free key" "badger_ZRange E key \<lparr>Min = None, Max = None, MinExclusive = ax,
      MaxExclusive = bx, Offset = 0, Count = 0\<rparr> db = Inr xs"
  shows "badger_ZCard E key db = Inr (int (length xs))"
proof -
  have ms: "distinct (map Member xs)" "{(Member x, Score x) | x. x \<in> set xs} =
      {(m, s). badger_ZScore E key m db = Inr s}"
    using range_all[OF assms(1), of None None ax bx] assms(2) by (auto simp: score_in_range_def)
  have "set (map Member xs) = fst ` {(Member x, Score x) | x. x \<in> set xs}" by force
  also have "\<dots> = {m. zscore (eview E db) key m \<noteq> None}"
    unfolding ms(2) by (force simp: ZScore_eview split: option.splits)
  finally show ?thesis using distinct_card[OF ms(1)] by (simp add: ZCard_ok)
qed

text \<open>A union search, in terms of the scores of the searched keys.\<close>

definition searched :: "search_cfg \<Rightarrow> (bytes \<times> f64) set" where
  "searched cfg = {(m, s). \<exists>k\<in>set (Keys cfg). zscore (eview E db) k m = Some s \<and>
     score_in_range (cfg_range cfg) s}"

lemma rng_listing_iff:
  assumes "nul_free k" "\<not> Reverse cfg"
  shows "x \<in> set (rng.lists_of cfg k) \<longleftrightarrow> x = scored (Member x) (Score x) \<and>
    zscore (eview E db) k (Member x) = Some (Score x) \<and> score_in_range (cfg_range cfg) (Score x)"
  using assms by (auto simp: badger_listing_def listing_iff)

lemma searched_entries:
  assumes "list_all nul_free (Keys cfg)" "\<not> Reverse cfg"
  shows "entries (map (rng.lists_of cfg) (Keys cfg)) = (\<lambda>(m, s). (m, f64_ord s)) ` searched cfg"
proof -
  have nf: "nul_free k" if "k \<in> set (Keys cfg)" for k using assms(1) that by (simp add: list_all_iff)
  have "(m, f64_ord s) \<in> entries (map (rng.lists_of cfg) (Keys cfg))" if ms: "(m, s) \<in> searched cfg" for m s
  proof -
    obtain k where k: "k \<in> set (Keys cfg)" "zscore (eview E db) k m = Some s"
      "score_in_range (cfg_range cfg) s" using ms by (auto simp: searched_def)
    then have "scored m s \<in> set (rng.lists_of cfg k)"
      by (simp add: rng_listing_iff[OF nf[OF k(1)] assms(2)])
    with k(1) show ?thesis by (force simp: entries_def)
  qed
  moreover have "\<exists>y\<in>searched cfg. p = (case y of (m, s) \<Rightarrow> (m, f64_ord s))"
    if p: "p \<in> entries (map (rng.lists_of cfg) (Keys cfg))" for p
  proof -
    obtain k x where "k \<in> set (Keys cfg)" "x \<in> set (rng.lists_of cfg k)" "p = (Member x, f64_ord (Score x))"
      using p by (auto simp: entries_def)
    then show ?thesis
      using rng_listing_iff[OF nf assms(2)] by (auto simp: searched_def intro!: bexI[of _ "(Member x, Score x)"])
  qed
  ultimately show ?thesis by (auto simp: image_iff)
qed

lemma merge_inv_start:
  assumes "list_all nul_free (Keys cfg)"
  shows "merge_inv (Reverse cfg) Map.empty (map (rng.lists_of cfg) (Keys cfg))"
  using assms rng.listing_sorted rng.listing_num by (auto simp: merge_inv_def numbers_def list_all_iff)

text \<open>
  A search by union without a limit returns every pair of a member and a score within the
  bounds that some key holds, exactly once, in ascending order, and names such a key.
\<close>

lemma union_search:
  assumes nf: "list_all nul_free (Keys cfg)" and jt: "JoinType cfg = JoinUnion"
    and fwd: "\<not> Reverse cfg" and nolimit: "Limit cfg = 0"
  shows "\<exists>xs. badger_Search E cfg db = Inr xs \<and> distinct (map (\<lambda>x. (Member x, Score x)) xs) \<and>
    set (map (\<lambda>x. (Member x, Score x)) xs) = searched cfg \<and>
    sorted (map (\<lambda>x. f64_ord (Score x)) xs)"
proof -
  let ?xss = "map (rng.lists_of cfg) (Keys cfg)"
  let ?ms = "merge_all JoinUnion False Map.empty ?xss"
  let ?xs = "map (\<lambda>(m, s, i). \<lparr>Member = m, Score = s, Key = Keys cfg ! i\<rparr>) ?ms"
  have search: "badger_Search E cfg db = Inr ?xs"
    using badger_search_merge[OF nf] jt fwd nolimit by (simp add: limited_def)
  have inv: "merge_inv False Map.empty ?xss" using merge_inv_start[OF nf] fwd by simp
  note un = merge_all_union[OF inv]
  let ?ps = "map (\<lambda>(m, s, i). (m, s)) ?ms"
  have ps: "map (\<lambda>x. (Member x, Score x)) ?xs = ?ps" by (auto simp: case_prod_beta)
  have ents: "map result_entry ?ms = map (\<lambda>(m, s). (m, f64_ord s)) ?ps" by (auto simp: case_prod_beta)
  have pl: "f64_plain s" if sm: "(m, s) \<in> searched cfg" for m s
    using sm nf zscore_plain(1)[OF consistent] by (auto simp: searched_def list_all_iff)
  have sub: "set ?ps \<subseteq> searched cfg"
  proof
    fix p assume "p \<in> set ?ps"
    then obtain m s i where r: "(m, s, i) \<in> set ?ms" "p = (m, s)" by auto
    obtain x where i: "i < length (Keys cfg)" and x: "x \<in> set (rng.lists_of cfg (Keys cfg ! i))"
        "Member x = m" "Score x = s"
      using merge_all_from[OF r(1)] by (auto simp: result_from_def)
    have "nul_free (Keys cfg ! i)" using nf i by (simp add: list_all_length)
    from rng_listing_iff[OF this fwd, THEN iffD1, OF x(1)]
    have "zscore (eview E db) (Keys cfg ! i) m = Some s" "score_in_range (cfg_range cfg) s"
      unfolding x(2,3) by blast+
    then show "p \<in> searched cfg" unfolding searched_def r(2) using nth_mem[OF i] by blast
  qed
  have inj: "inj_on (\<lambda>(m, s). (m, f64_ord s)) (searched cfg)"
    by (rule inj_onI) (auto dest: pl intro: f64_le_antisym_plain)
  have img: "(\<lambda>(m, s). (m, f64_ord s)) ` set ?ps = (\<lambda>(m, s). (m, f64_ord s)) ` searched cfg"
  proof -
    have "set (map result_entry ?ms) = entries ?xss" using un by (simp add: seen_entries_def)
    then show ?thesis unfolding ents set_map searched_entries[OF nf fwd] .
  qed
  have "set ?ps = searched cfg"
    using inj_on_image_eq_iff[OF inj sub order_refl] img by simp
  moreover have "distinct ?ps" using un unfolding ents distinct_map[of "\<lambda>(m, s). (m, f64_ord s)"] by blast
  moreover have "map (\<lambda>x. f64_ord (Score x)) ?xs = map (\<lambda>(m, s, i). score_key False s) ?ms"
    by (auto simp: score_key_def case_prod_beta)
  ultimately have d: "distinct ?ps" and e: "set ?ps = searched cfg"
    and o: "map (\<lambda>x. f64_ord (Score x)) ?xs = map (\<lambda>(m, s, i). score_key False s) ?ms"
    by blast+
  show ?thesis
  proof (intro exI conjI)
    show "badger_Search E cfg db = Inr ?xs" by (rule search)
    show "distinct (map (\<lambda>x. (Member x, Score x)) ?xs)" unfolding ps by (rule d)
    show "set (map (\<lambda>x. (Member x, Score x)) ?xs) = searched cfg" unfolding ps by (rule e)
    show "sorted (map (\<lambda>x. f64_ord (Score x)) ?xs)" unfolding o using un by blast
  qed
qed

text \<open>What every join returns stands in the key it is reported for, within the bounds.\<close>

lemma search_sound:
  assumes nf: "list_all nul_free (Keys cfg)" and r: "badger_Search E cfg db = Inr xs" "x \<in> set xs"
  shows "Key x \<in> set (Keys cfg) \<and> badger_ZScore E (Key x) (Member x) db = Inr (Score x) \<and>
    score_in_range (cfg_range cfg) (Score x) \<and>
    (JoinType cfg = JoinIntersect \<longrightarrow>
       (\<forall>k\<in>set (Keys cfg). \<exists>s. badger_ZScore E k (Member x) db = Inr s)) \<and>
    (JoinType cfg = JoinDifference \<longrightarrow> Key x = hd (Keys cfg))"
proof -
  let ?xss = "map (rng.lists_of cfg) (Keys cfg)"
  obtain m s i where x: "x = \<lparr>Member = m, Score = s, Key = Keys cfg ! i\<rparr>"
      "(m, s, i) \<in> set (merge_all (JoinType cfg) (Reverse cfg) Map.empty ?xss)"
    using r badger_search_merge[OF nf]
    by (fastforce simp: limited_def dest: in_set_takeD split: if_splits)
  note from_lists = merge_all_from[OF x(2), unfolded result_from_def prod.case]
  have nfk: "nul_free k" if k: "k \<in> set (Keys cfg)" for k using nf k by (simp add: list_all_iff)
  have listed: "badger_ZScore E k (Member y) db = Inr (Score y) \<and> score_in_range (cfg_range cfg) (Score y)"
    if k: "k \<in> set (Keys cfg)" and y: "y \<in> set (rng.lists_of cfg k)" for k y
    using y listing_entry(2)[OF nfk[OF k]] by (auto simp: badger_listing_def ZScore_eview)
  obtain y where i: "i < length (Keys cfg)" and y: "y \<in> set (rng.lists_of cfg (Keys cfg ! i))"
      "Member y = m" "Score y = s"
    using from_lists by auto
  have k: "Keys cfg ! i \<in> set (Keys cfg)" using i by simp
  have "\<exists>s. badger_ZScore E k m db = Inr s" if jt: "JoinType cfg = JoinIntersect"
    and k: "k \<in> set (Keys cfg)" for k
  proof -
    have "m \<in> Member ` set (rng.lists_of cfg k)" using from_lists jt k by simp
    then show ?thesis using listed[OF k] by blast
  qed
  moreover have "Keys cfg ! i = hd (Keys cfg)" if jt: "JoinType cfg = JoinDifference"
    using from_lists jt i by (cases "Keys cfg") auto
  ultimately show ?thesis using listed[OF k y(1)] k by (simp add: x(1) y(2,3))
qed

end

section \<open>A small reached store\<close>

text \<open>Two scores written and one hash entry, on the in-memory engine.\<close>

definition first_arg :: "f64 \<Rightarrow> f64 \<Rightarrow> f64" where
  "first_arg a b = a"

definition small_db :: mem_db where
  "small_db = snd (badger_ZAdd mem_engine ''a'' [scored ''x'' 1, scored ''y'' 0] [])"

lemma nul_free_code: "nul_free k = list_all (\<lambda>c. c \<noteq> CHR 0x00) k"
  by (auto simp: nul_free_def list_all_iff)

lemma plain_small [simp]: "f64_plain 0" "f64_plain 1"
  by (simp_all add: f64_plain_def f64_nan_def f64_mag_def f64_neg_zero_def)

lemma small_reach: "badger_reach mem_engine first_arg small_db"
proof (rule reach_step)
  show "badger_reach mem_engine first_arg []" by (rule reach_empty) (simp add: fun_eq_iff)
  show "badger_step mem_engine first_arg [] small_db"
    by (rule step_ZAdd[where k = "''a''" and xs = "[scored ''x'' 1, scored ''y'' 0]"
          and r = "fst (badger_ZAdd mem_engine ''a'' [scored ''x'' 1, scored ''y'' 0] [])"])
      (simp_all add: small_db_def nul_free_code)
qed

lemma small_scores: "zscore (eview mem_engine small_db) ''a'' = [''x'' \<mapsto> 1, ''y'' \<mapsto> 0]"
proof -
  have v: "eview mem_engine small_db =
      fold (\<lambda>x. zset_put ''a'' (Member x) (Score x)) [scored ''x'' 1, scored ''y'' 0] (eview mem_engine [])"
    using mem.ZAdd_ok[of "''a''" "[scored ''x'' 1, scored ''y'' 0]" "[]"] by (auto simp: small_db_def)
  have "nul_free ''a''" by (simp add: nul_free_code)
  then show ?thesis
    unfolding v by (simp add: zscore_write_views) (simp add: zscore_def fun_eq_iff)
qed

lemma distinct_singleton_set:
  assumes "distinct ys" "set ys = {y}"
  shows "ys = [y]"
proof -
  have "length ys = 1" using distinct_card[OF assms(1)] assms(2) by simp
  then show ?thesis using assms(2) by (cases ys) auto
qed

lemma pick_one:
  assumes "R b" "\<not> R a" "x \<noteq> y"
  shows "(if m = y then Inr a else if m = x then Inr b else Inl e) = Inr s \<and> R s \<longleftrightarrow> m = x \<and> s = b"
  using assms by auto

lemma small_ZScore:
  "badger_ZScore mem_engine ''a'' m small_db =
    (if m = ''y'' then Inr 0 else if m = ''x'' then Inr 1 else Inl ErrKeyNotFound)"
  by (simp add: mem.ZScore_eview small_scores)

section \<open>The properties\<close>

text \<open>
  C1: in every store that the write operations reach from an empty one, a range read of a
  sorted set returns exactly the members whose \<open>ZScore\<close> is within the (inclusive or
  exclusive) bounds, each once with its score, in ascending score order; and \<open>ZCard\<close> is
  the number of members that an unbounded range returns. So the score index and the member
  index of the Badger layout never disagree.
\<close>

theorem reached_ranges_agree:
  assumes "badger_engine E" "badger_reach E fadd db" "nul_free key"
  shows "\<exists>xs. badger_ZRange E key \<lparr>Min = a, Max = b, MinExclusive = ax, MaxExclusive = bx,
        Offset = 0, Count = 0\<rparr> db = Inr xs \<and>
      distinct (map Member xs) \<and> sorted (map (\<lambda>x. f64_ord (Score x)) xs) \<and>
      {(Member x, Score x) | x. x \<in> set xs} = {(m, s). badger_ZScore E key m db = Inr s \<and>
        score_in_range \<lparr>Min = a, Max = b, MinExclusive = ax, MaxExclusive = bx,
          Offset = 0, Count = 0\<rparr> s} \<and>
      (a = None \<and> b = None \<longrightarrow> badger_ZCard E key db = Inr (int (length xs)))"
proof -
  note st = badger_engine.reach_state[OF assms(1,2)]
  show ?thesis
    using badger_state.range_all[OF st assms(3), of a b ax bx]
      badger_state.range_card[OF st assms(3), of ax bx] by blast
qed

lemma reached_ranges_agree_witness:
  "\<exists>xs. badger_ZRange mem_engine ''a'' \<lparr>Min = Some 0, Max = None, MinExclusive = True,
      MaxExclusive = False, Offset = 0, Count = 0\<rparr> small_db = Inr xs \<and> map Member xs = [''x'']"
proof -
  let ?sr = "\<lparr>Min = Some 0, Max = None, MinExclusive = True, MaxExclusive = False, Offset = 0, Count = 0\<rparr>"
  obtain xs where xs: "badger_ZRange mem_engine ''a'' ?sr small_db = Inr xs" "distinct (map Member xs)"
      "{(Member x, Score x) | x. x \<in> set xs} =
         {(m, s). badger_ZScore mem_engine ''a'' m small_db = Inr s \<and> score_in_range ?sr s}"
    using reached_ranges_agree[OF mem.badger_engine_axioms small_reach, of "''a''" "Some 0" None True False]
    by (auto simp: nul_free_code)
  have r: "score_in_range ?sr 1" "\<not> score_in_range ?sr 0"
    by (simp_all add: score_in_range_def f64_le_def f64_nan_def f64_mag_def f64_ord_def f64_neg_def)
  have hit: "badger_ZScore mem_engine ''a'' m small_db = Inr s \<and> score_in_range ?sr s \<longleftrightarrow>
      m = ''x'' \<and> s = 1" for m s
    unfolding small_ZScore by (rule pick_one[where R = "score_in_range ?sr", OF r]) simp
  have "set (map Member xs) = fst ` {(Member x, Score x) | x. x \<in> set xs}" by force
  also have "\<dots> = {''x''}" unfolding xs(3) hit by auto
  finally have "set (map Member xs) = {''x''}" .
  from xs(2) this have "map Member xs = [''x'']" by (rule distinct_singleton_set)
  with xs(1) show ?thesis by (intro exI[of _ xs] conjI)
qed

text \<open>
  C2: a search by union over several keys, ascending and without a limit, returns exactly
  the pairs of a member and a score that some searched key holds within the bounds, each
  pair once and in ascending score order. The hundred-entry pages, the interleaving of page
  fetches and the deduplication by last seen score make no difference.
\<close>

theorem union_search_complete:
  assumes "badger_engine E" "badger_reach E fadd db" "list_all nul_free (Keys cfg)"
    and "JoinType cfg = JoinUnion" "\<not> Reverse cfg" "Limit cfg = 0"
  shows "\<exists>xs. badger_Search E cfg db = Inr xs \<and> distinct (map (\<lambda>x. (Member x, Score x)) xs) \<and>
    set (map (\<lambda>x. (Member x, Score x)) xs) = {(m, s). \<exists>k\<in>set (Keys cfg).
      badger_ZScore E k m db = Inr s \<and> score_in_range (cfg_range cfg) s} \<and>
    sorted (map (\<lambda>x. f64_ord (Score x)) xs)"
proof -
  note st = badger_engine.reach_state[OF assms(1,2)]
  have z: "badger_ZScore E k m db = Inr s \<longleftrightarrow> zscore (eview E db) k m = Some s" for k m s
    using kv_engine.ZScore_eview[OF badger_engine.axioms(1)[OF assms(1)]] by (auto split: option.splits)
  show ?thesis
    using badger_state.union_search[OF st assms(3-6)] unfolding z badger_state.searched_def[OF st] .
qed

definition union_cfg :: search_cfg where
  "union_cfg = \<lparr>Keys = [''a'', ''b''], From = None, To = None, Limit = 0, JoinType = JoinUnion,
     Reverse = False\<rparr>"

lemma union_search_complete_witness:
  "\<exists>xs. badger_Search mem_engine union_cfg small_db = Inr xs \<and>
    set (map (\<lambda>x. (Member x, Score x)) xs) = {(m, s). \<exists>k\<in>{''a'', ''b''}.
      badger_ZScore mem_engine k m small_db = Inr s}"
  using union_search_complete[OF mem.badger_engine_axioms small_reach, of union_cfg]
  by (auto simp: union_cfg_def nul_free_code score_in_range_def)

text \<open>
  C3: whatever the join, the direction and the limit, every entry of a search result stands
  with that score, within the bounds, in the key it is reported for; a result of an
  intersection is a member of every searched key, and a result of a difference is reported
  for the first key.
\<close>

theorem search_results_sound:
  assumes "badger_engine E" "badger_reach E fadd db" "list_all nul_free (Keys cfg)"
    and "badger_Search E cfg db = Inr xs" "x \<in> set xs"
  shows "Key x \<in> set (Keys cfg) \<and> badger_ZScore E (Key x) (Member x) db = Inr (Score x) \<and>
    score_in_range (cfg_range cfg) (Score x) \<and>
    (JoinType cfg = JoinIntersect \<longrightarrow>
       (\<forall>k\<in>set (Keys cfg). \<exists>s. badger_ZScore E k (Member x) db = Inr s)) \<and>
    (JoinType cfg = JoinDifference \<longrightarrow> Key x = hd (Keys cfg))"
  using badger_state.search_sound[OF badger_engine.reach_state[OF assms(1,2)] assms(3-5)] .

lemma search_results_sound_witness:
  "\<exists>xs x. badger_Search mem_engine union_cfg small_db = Inr xs \<and> x \<in> set xs \<and>
    Key x \<in> {''a'', ''b''} \<and> badger_ZScore mem_engine (Key x) (Member x) small_db = Inr (Score x)"
proof -
  have nf: "list_all nul_free (Keys union_cfg)" by (simp add: union_cfg_def nul_free_code)
  note st = mem.reach_state[OF small_reach]
  obtain xs where xs: "badger_Search mem_engine union_cfg small_db = Inr xs"
      "set (map (\<lambda>x. (Member x, Score x)) xs) = badger_state.searched mem_engine small_db union_cfg"
    using badger_state.union_search[OF st nf] by (auto simp: union_cfg_def)
  have "(''x'', 1) \<in> badger_state.searched mem_engine small_db union_cfg"
    unfolding badger_state.searched_def[OF st]
    by (simp add: union_cfg_def small_scores score_in_range_def)
  then have "(''x'', 1) \<in> set (map (\<lambda>x. (Member x, Score x)) xs)" by (simp only: xs(2))
  then obtain x where x: "x \<in> set xs" by auto
  from search_results_sound[OF mem.badger_engine_axioms small_reach nf xs(1) x]
  have "Key x \<in> {''a'', ''b''}" "badger_ZScore mem_engine (Key x) (Member x) small_db = Inr (Score x)"
    by (auto simp: union_cfg_def)
  with xs(1) x show ?thesis by blast
qed

text \<open>
  C4: the paged search over cursors equals the merge of the whole ranges of its keys, cut at
  the limit, for every join type and direction; in particular it always returns a result.
\<close>

theorem search_pages_refine_merge:
  assumes "badger_engine E" "badger_reach E fadd db" "list_all nul_free (Keys cfg)"
  shows "badger_Search E cfg db = Inr (map (\<lambda>(m, s, i). \<lparr>Member = m, Score = s, Key = Keys cfg ! i\<rparr>)
    (limited cfg 0 (merge_all (JoinType cfg) (Reverse cfg) Map.empty
      (map (\<lambda>k. badger_listing E db (Reverse cfg) k (From cfg) (To cfg)) (Keys cfg)))))"
  using badger_state.badger_search_merge[OF badger_engine.reach_state[OF assms(1,2)] assms(3)] .

lemma search_pages_refine_merge_witness:
  "badger_Search mem_engine union_cfg small_db =
    Inr (map (\<lambda>(m, s, i). \<lparr>Member = m, Score = s, Key = [''a'', ''b''] ! i\<rparr>)
      (merge_all JoinUnion False Map.empty
        (map (\<lambda>k. badger_listing mem_engine small_db False k None None) [''a'', ''b''])))"
  using search_pages_refine_merge[OF mem.badger_engine_axioms small_reach, of union_cfg]
  by (simp add: union_cfg_def nul_free_code limited_def)

text \<open>
  In a consistent store, \<open>ZIncrBy\<close> returns the old score (zero for an absent member)
  plus the increment, a following \<open>ZScore\<close> reads that value, every other member of every
  sorted set keeps its score, hashes are untouched, and the store stays consistent.
\<close>

theorem zincrby_updates_one_score:
  assumes "badger_engine E" "store_ok E db" "nul_free key"
    and "f64_plain (fadd (case badger_ZScore E key m db of Inr s \<Rightarrow> s | Inl _ \<Rightarrow> 0) inc)"
  shows "\<exists>db'. badger_ZIncrBy E fadd key m inc db =
      (Inr (fadd (case badger_ZScore E key m db of Inr s \<Rightarrow> s | Inl _ \<Rightarrow> 0) inc), db') \<and>
    store_ok E db' \<and>
    badger_ZScore E key m db' =
      Inr (fadd (case badger_ZScore E key m db of Inr s \<Rightarrow> s | Inl _ \<Rightarrow> 0) inc) \<and>
    (\<forall>key' m'. nul_free key' \<and> (key', m') \<noteq> (key, m) \<longrightarrow>
       badger_ZScore E key' m' db' = badger_ZScore E key' m' db) \<and>
    (\<forall>h f. badger_HGet E h f db' = badger_HGet E h f db)"
proof -
  note en = badger_engine.axioms(1)[OF assms(1)]
  let ?old = "case badger_ZScore E key m db of Inr s \<Rightarrow> s | Inl _ \<Rightarrow> 0"
  have new: "zincr_new fadd (eview E db) key m inc = fadd ?old inc"
    by (simp add: zincr_new_def kv_engine.ZScore_eview[OF en] split: option.splits)
  obtain db' where db': "badger_ZIncrBy E fadd key m inc db = (Inr (fadd ?old inc), db')"
      "eview E db' = zset_put key m (fadd ?old inc) (eview E db)"
    using kv_engine.ZIncrBy_ok[OF en, of fadd key m inc db] unfolding new by blast
  have sc: "zscore (eview E db') key' m' = (if key' = key \<and> m' = m then Some (fadd ?old inc)
      else zscore (eview E db) key' m')" if nf: "nul_free key'" for key' m'
    unfolding db'(2) by (rule zscore_put[OF assms(3) nf assms(4)])
  have h: "eview E db' (hashKey k f) = eview E db (hashKey k f)" for k f
    unfolding db'(2) by simp
  have ok: "store_ok E db'"
    using zinv_put[OF _ assms(3,4)] assms(2) by (simp add: store_ok_def db'(2))
  have frame: "\<forall>key' m'. nul_free key' \<and> (key', m') \<noteq> (key, m) \<longrightarrow>
      badger_ZScore E key' m' db' = badger_ZScore E key' m' db"
    by (simp add: kv_engine.ZScore_eview[OF en] sc)
  have "badger_ZScore E key m db' = Inr (fadd ?old inc)"
    by (simp add: kv_engine.ZScore_eview[OF en] sc[OF assms(3)])
  moreover have "\<forall>k f. badger_HGet E k f db' = badger_HGet E k f db"
    by (simp add: kv_engine.HGet_eview[OF en] h)
  ultimately show ?thesis using db'(1) ok frame by blast
qed

lemma zincrby_updates_one_score_witness:
  "\<exists>db'. badger_ZIncrBy mem_engine (\<lambda>a b. b) ''a'' ''x'' 0 small_db = (Inr 0, db') \<and>
    badger_ZScore mem_engine ''a'' ''x'' db' = Inr 0"
  using zincrby_updates_one_score[OF mem.badger_engine_axioms, of small_db "''a''" "\<lambda>a b. b" "''x''" 0]
    mem.reach_zinv[OF small_reach] by (auto simp: store_ok_def nul_free_code)

text \<open>
  A hash write is read back by \<open>HGet\<close>, \<open>HMGet\<close> and \<open>HGetAll\<close>; the other fields of the
  hash keep their values, and so do hashes whose name does not, with its colon, begin the
  written one's or begin with it, all sorted sets and all sets.
\<close>

theorem hash_write_read:
  assumes "badger_engine E" "store_ok E db"
  shows "\<exists>db'. badger_HSet E k f v db = (Inr (), db') \<and> store_ok E db' \<and>
    badger_HGet E k f db' = Inr v \<and>
    (\<forall>g. g \<noteq> f \<longrightarrow> badger_HGet E k g db' = badger_HGet E k g db) \<and>
    (\<exists>kvs. badger_HGetAll E k db' = Inr kvs \<and> distinct (map fst kvs) \<and> map_of kvs f = Some v \<and>
       (\<forall>gs. badger_HMGet E k gs db' = Inr (map (map_of kvs) gs))) \<and>
    (\<forall>k' g. key_sep k k' \<longrightarrow> badger_HGet E k' g db' = badger_HGet E k' g db) \<and>
    (\<forall>k' m. badger_ZScore E k' m db' = badger_ZScore E k' m db) \<and>
    (\<forall>k' m. badger_SIsMember E k' m db' = badger_SIsMember E k' m db)"
proof -
  note en = badger_engine.axioms(1)[OF assms(1)]
  obtain db' where db': "badger_HSet E k f v db = (Inr (), db')" "store_ok E db'"
      "eview E db' = (eview E db)(hashKey k f \<mapsto> v)"
    using badger_engine.law_HSet[OF assms, of k f v] by blast
  obtain kvs where kvs: "badger_HGetAll E k db' = Inr kvs" "distinct (map fst kvs)"
      "map_of kvs = (\<lambda>g. eview E db' (hashKey k g))"
    using badger_engine.HGetAll_ok[OF assms(1), of k db'] by blast
  note reads = kv_engine.HGet_eview[OF en] kv_engine.HMGet_eview[OF en]
    kv_engine.ZScore_eview[OF en] kv_engine.SIsMember_eview[OF en]
  have "badger_HGet E k f db' = Inr v" "\<forall>g. g \<noteq> f \<longrightarrow> badger_HGet E k g db' = badger_HGet E k g db"
    by (simp_all add: reads db'(3))
  moreover have "map_of kvs f = Some v" "\<forall>gs. badger_HMGet E k gs db' = Inr (map (map_of kvs) gs)"
    by (simp_all add: reads kvs(3) db'(3))
  moreover have "\<forall>k' g. key_sep k k' \<longrightarrow> badger_HGet E k' g db' = badger_HGet E k' g db"
    by (auto simp: reads db'(3) dest: hash_sep[of k _ f, THEN not_sym])
  moreover have "\<forall>k' m. badger_ZScore E k' m db' = badger_ZScore E k' m db"
      "\<forall>k' m. badger_SIsMember E k' m db' = badger_SIsMember E k' m db"
    by (simp_all add: reads zscore_def db'(3))
  ultimately show ?thesis using db'(1,2) kvs(1,2) by blast
qed

lemma hash_write_read_witness:
  "\<exists>db'. badger_HSet mem_engine ''h'' ''f'' ''v'' small_db = (Inr (), db') \<and>
    badger_HGet mem_engine ''h'' ''f'' db' = Inr ''v'' \<and>
    badger_HGet mem_engine ''g'' ''f'' db' = badger_HGet mem_engine ''g'' ''f'' small_db"
proof -
  have "key_sep ''h'' ''g''" by (simp add: key_sep_def)
  then show ?thesis
    using hash_write_read[OF mem.badger_engine_axioms, of small_db "''h''" "''f''" "''v''"]
      mem.reach_zinv[OF small_reach] by (fastforce simp: store_ok_def)
qed

text \<open>
  C5: \<open>update\<close> runs the transaction again after each commit conflict. If the first \<open>n\<close>
  commits conflict and the next one succeeds, then the function's result and new state are
  returned when \<open>n\<close> is below ten; with ten conflicts or more the conflict error comes back
  and the database is unchanged.
\<close>

theorem update_retries_conflicts:
  assumes "fn db = Inr (x, db')" "\<forall>i<n. tx_commit E db db' i = Some ErrConflict"
    and "tx_commit E db db' n = None"
  shows "store_update E fn db = (if n < 10 then (Inr x, db') else (Inl ErrConflict, db))"
proof -
  have "update_attempts E fn r i db = (if n < i + r then (Inr x, db') else (Inl ErrConflict, db))"
    if le: "i \<le> n" for r i
    using le
  proof (induction r arbitrary: i)
    case (Suc r)
    show ?case
    proof (cases "i = n")
      case True
      with assms show ?thesis by simp
    next
      case False
      with Suc.prems have "i < n" by simp
      with assms Suc.IH[of "Suc i"] show ?thesis by simp
    qed
  qed simp
  from this[of 0 10] show ?thesis by (simp add: store_update_def maxRetries_def)
qed

definition busy_engine :: "mem_db engine" where
  "busy_engine = mem_engine\<lparr>tx_commit := (\<lambda>db db' i. if i < 3 then Some ErrConflict else None)\<rparr>"

lemma update_retries_conflicts_witness:
  "store_update busy_engine (\<lambda>db. Inr (''done'', (''k'', ''v'') # db)) [] = (Inr ''done'', [(''k'', ''v'')])"
  using update_retries_conflicts[of "\<lambda>db. Inr (''done'', (''k'', ''v'') # db)" "[]" "''done''"
      "[(''k'', ''v'')]" 3 busy_engine] by (simp add: busy_engine_def)

text \<open>
  C6: the eight-byte score encoding is injective on numbers other than the negative zero,
  decodes back to the score, and its byte order is the numeric order, which is what lets
  the engine's key order be the score order.
\<close>

theorem score_encoding_ordered:
  assumes "f64_plain f" "f64_plain g"
  shows "length (encodeFloat64 f) = 8 \<and> decodeFloat64 (encodeFloat64 f) = f \<and>
    (encodeFloat64 f < encodeFloat64 g \<longleftrightarrow> f64_lt f g) \<and>
    (encodeFloat64 f = encodeFloat64 g \<longleftrightarrow> f = g)"
  using assms by (simp add: decode_encode_plain encodeFloat64_less_iff encodeFloat64_inj)

lemma score_encoding_ordered_witness:
  "decodeFloat64 (encodeFloat64 1) = 1 \<and> \<not> encodeFloat64 1 < encodeFloat64 0"
  using score_encoding_ordered[of 1 0] by (simp add: f64_lt_def f64_ord_def f64_mag_def f64_neg_def)

section \<open>Where the code does not do what it means to\<close>

text \<open>
  The encoding of the negative zero decodes to a NaN: its sign bit is set, so every bit is
  flipped, and the result's top bit is clear, so decoding flips every bit again, but the
  code compares the float with zero where it should test the sign.
\<close>

lemma negative_zero_lost: "f64_nan (decodeFloat64 (encodeFloat64 f64_neg_zero))"
  unfolding decode_neg_zero by (simp add: f64_nan_def f64_mag_def)

text \<open>
  An intersection misses a common member when scores tie: below, both keys hold \<open>y\<close> with
  the score 1, but the first key's cursor reaches \<open>y\<close> while the second one's still shows
  \<open>w\<close>, so \<open>y\<close> is passed over in the first key and never found in both. A difference
  likewise returns a member of the second key.
\<close>

definition tie_ranger :: zranger where
  "tie_ranger rv key sr =
     Inr (page_of (Offset sr) (Count sr)
       (if key = ''a'' then [scored ''x'' 1, scored ''y'' 1] else [scored ''w'' 1, scored ''y'' 1]))"

definition tie_cfg :: "join_type \<Rightarrow> search_cfg" where
  "tie_cfg jt = \<lparr>Keys = [''a'', ''b''], From = None, To = None, Limit = 0, JoinType = jt,
     Reverse = False\<rparr>"

lemma one_not_less [simp]: "\<not> f64_lt 1 1" "f64_eq 1 1"
  by (simp_all add: f64_lt_def f64_eq_def f64_nan_def f64_mag_def)

lemmas search_eval = store_search_def fetchPage_def pageSize_def page_of_def at_cursor_def
  inAllCursors_def inAnyCursor_def better_def advance_def advance_at_def advance_equal_def join_step_def
  nextResult.simps rbind_def Let_def

lemma tie_intersection_misses:
  "store_search 9 tie_ranger (tie_cfg JoinIntersect) = Some (Inr [])"
  by (simp add: search_eval tie_ranger_def tie_cfg_def numeral_eq_Suc)

lemma tie_difference_keeps:
  "store_search 9 tie_ranger (tie_cfg JoinDifference) =
    Some (Inr [\<lparr>Member = ''x'', Score = 1, Key = ''a''\<rparr>, \<lparr>Member = ''y'', Score = 1, Key = ''a''\<rparr>])"
  by (simp add: search_eval tie_ranger_def tie_cfg_def numeral_eq_Suc)

end
