(* ===== verification/Txo.thy ===== *)
theory Txo
  imports StoreTypes "HOL-Library.AList"
begin

text \<open>
  \<open>pkg/txo/keys.go\<close>, \<open>pkg/txo/output.go\<close>, \<open>pkg/txo/search.go\<close> and \<open>pkg/types/pkhash.go\<close>:
  outpoints, public-key hashes, the keys of the store and the indexed output with its
  methods. Functions of the transaction library and of JSON are parameters, kept in the
  records \<open>sdk\<close> and \<open>json_codec\<close>; the locales below state what the code relies on.
\<close>

section \<open>Transaction ids, outpoints and the functions of the library\<close>

text \<open>A transaction id or hash is its 32 bytes, a public-key hash its 20 bytes.\<close>

type_synonym txid = bytes
type_synonym pkhash = bytes

record outpoint =
  op_txid :: txid
  op_index :: "32 word"

record sdk =
  op_bytes :: "outpoint \<Rightarrow> bytes"
  op_from_bytes :: "bytes \<Rightarrow> outpoint option"
  op_string :: "outpoint \<Rightarrow> bytes"
  txid_string :: "txid \<Rightarrow> bytes"
  new_address :: "pkhash \<Rightarrow> bool \<Rightarrow> bytes"
  parse_address :: "bytes \<Rightarrow> err + bytes"

definition wf_op :: "outpoint \<Rightarrow> bool" where
  "wf_op op \<longleftrightarrow> length (op_txid op) = 32"

text \<open>
  What the library documents: an outpoint is 36 bytes that determine it, and
  \<open>NewOutpointFromBytes\<close> reads them back and rejects other lengths.
\<close>

locale sdk_laws =
  fixes K :: sdk
  assumes op_bytes_length: "wf_op op \<Longrightarrow> length (op_bytes K op) = 36"
    and op_from_bytes: "wf_op op \<Longrightarrow> op_from_bytes K (op_bytes K op) = Some op"
    and op_from_wf: "op_from_bytes K b = Some op \<Longrightarrow> wf_op op \<and> op_bytes K op = b"
begin

lemma op_bytes_inj: "wf_op a \<Longrightarrow> wf_op b \<Longrightarrow> op_bytes K a = op_bytes K b \<longleftrightarrow> a = b"
  by (metis op_from_bytes option.inject)

end

text \<open>A concrete library: the 32 bytes of the id and the big-endian index.\<close>

definition demo_bytes :: "outpoint \<Rightarrow> bytes" where
  "demo_bytes op = op_txid op @ be_bytes 4 (unat (op_index op))"

definition demo_sdk :: sdk where
  "demo_sdk =
     \<lparr> op_bytes = demo_bytes,
       op_from_bytes = (\<lambda>b. if length b = 36
          then Some \<lparr>op_txid = take 32 b, op_index = of_nat (be_nat (drop 32 b))\<rparr> else None),
       op_string = demo_bytes, txid_string = (\<lambda>t. t), new_address = (\<lambda>p m. p), parse_address = Inr \<rparr>"

lemma be4_word: "be_nat (be_bytes 4 (unat (w :: 32 word))) = unat w"
  using unsigned_less[where w = w and 'a = nat] by (simp add: be_nat_be_bytes)

interpretation demo: sdk_laws demo_sdk
proof
  show "length (op_bytes demo_sdk op) = 36" if "wf_op op" for op
    using that by (simp add: demo_sdk_def demo_bytes_def wf_op_def)
  show "op_from_bytes demo_sdk (op_bytes demo_sdk op) = Some op" if "wf_op op" for op
    using that by (simp add: demo_sdk_def demo_bytes_def wf_op_def be4_word)
  show "wf_op op \<and> op_bytes demo_sdk op = b" if "op_from_bytes demo_sdk b = Some op" for b op
  proof -
    have b: "length b = 36" "op = \<lparr>op_txid = take 32 b, op_index = of_nat (be_nat (drop 32 b))\<rparr>"
      using that by (auto simp: demo_sdk_def split: if_splits)
    have "be_nat (drop 32 b) < 256 ^ 4" using be_nat_bound[of "drop 32 b"] b(1) by simp
    then have "unat (of_nat (be_nat (drop 32 b)) :: 32 word) = be_nat (drop 32 b)"
      by (simp add: unsigned_of_nat take_bit_nat_eq_self)
    moreover have "be_bytes 4 (be_nat (drop 32 b)) = drop 32 b"
      using be_bytes_be_nat[of "drop 32 b"] b(1) by simp
    ultimately show ?thesis by (simp add: b wf_op_def demo_sdk_def demo_bytes_def)
  qed
qed

section \<open>Public-key hashes\<close>

definition pk_Address :: "sdk \<Rightarrow> bool \<Rightarrow> pkhash \<Rightarrow> bytes" where
  "pk_Address K mainnet p = new_address K p mainnet"

definition pk_IsZero :: "pkhash \<Rightarrow> bool" where
  "pk_IsZero p = list_all (\<lambda>b. b = CHR 0x00) p"

definition ErrInvalidPKHash :: err where
  "ErrInvalidPKHash = ErrOther ''invalid PKHash: must be 20 bytes''"

text \<open>\<open>copy\<close> into a zeroed 20-byte array.\<close>

definition copy20 :: "bytes \<Rightarrow> pkhash" where
  "copy20 b = take 20 (b @ replicate 20 (CHR 0x00))"

definition pk_FromAddress :: "sdk \<Rightarrow> bytes \<Rightarrow> err + pkhash" where
  "pk_FromAddress K addr = rbind (parse_address K addr) (\<lambda>pkh. Inr (copy20 pkh))"

definition PKHashFromAddress :: "sdk \<Rightarrow> bytes \<Rightarrow> err + pkhash" where
  "PKHashFromAddress K addr = pk_FromAddress K addr"

definition PKHashFromBytes :: "bytes \<Rightarrow> pkhash option" where
  "PKHashFromBytes b = (if length b \<noteq> 20 then None else Some (copy20 b))"

section \<open>Keys\<close>

definition PfxQueue :: bytes where "PfxQueue = ''q:''"
definition PfxTopic :: bytes where "PfxTopic = ''tp:''"
definition PfxEvent :: bytes where "PfxEvent = ''ev:''"
definition KeySatoshis :: bytes where "KeySatoshis = ''sats''"
definition KeySpends :: bytes where "KeySpends = ''spnd''"
definition PendingTxLog :: bytes where "PendingTxLog = ''tx:pending''"
definition ImmutableTxLog :: bytes where "ImmutableTxLog = ''tx:immutable''"
definition RollbackTxLog :: bytes where "RollbackTxLog = ''tx:rollback''"
definition ImmutabilityBlocks :: nat where "ImmutabilityBlocks = 100"

definition KeyEvent :: "bytes \<Rightarrow> bytes" where
  "KeyEvent event = PfxEvent @ event"

definition KeyEventSpent :: "bytes \<Rightarrow> bytes" where
  "KeyEventSpent event = PfxEvent @ event @ '':spnd''"

definition KeyLog :: "bytes \<Rightarrow> bytes" where
  "KeyLog logName = logName"

definition KeyQueue :: "bytes \<Rightarrow> bytes" where
  "KeyQueue queueName = PfxQueue @ queueName"

definition KeyTokenQueue :: "bytes \<Rightarrow> bytes" where
  "KeyTokenQueue tokenId = PfxQueue @ ''tok:'' @ tokenId"

definition KeyOutHash :: "sdk \<Rightarrow> outpoint \<Rightarrow> bytes" where
  "KeyOutHash K op = op_bytes K op"

definition KeyTxidPrefix :: "txid \<Rightarrow> bytes" where
  "KeyTxidPrefix txid = txid"

section \<open>Indexed outputs\<close>

text \<open>
  Pointers are options, a nil slice of events is the empty list, and the map of tag data is
  an association list with distinct tags, in the order the iteration visits them. A tag's
  value is \<open>None\<close> when it is nil.
\<close>

record 'd indexed_output =
  io_Outpoint :: outpoint
  io_Score :: f64
  io_Satoshis :: "64 word option"
  io_BlockHeight :: "32 word option"
  io_BlockIdx :: "64 word option"
  io_SpendTxid :: "txid option"
  io_Events :: "bytes list"
  io_Data :: "(bytes \<times> 'd option) list option"
  io_Owners :: "pkhash list"

definition AddOwner :: "pkhash \<Rightarrow> 'd indexed_output \<Rightarrow> 'd indexed_output" where
  "AddOwner ow out =
     (if ow \<in> set (io_Owners out) then out else out\<lparr>io_Owners := io_Owners out @ [ow]\<rparr>)"

definition AddOwnerFromAddress :: "sdk \<Rightarrow> bytes \<Rightarrow> 'd indexed_output \<Rightarrow> err + 'd indexed_output" where
  "AddOwnerFromAddress K addr out = rbind (PKHashFromAddress K addr) (\<lambda>ow. Inr (AddOwner ow out))"

definition AddOwnerFromBytes :: "bytes \<Rightarrow> 'd indexed_output \<Rightarrow> err + 'd indexed_output" where
  "AddOwnerFromBytes b out =
     (case PKHashFromBytes b of None \<Rightarrow> Inl ErrInvalidPKHash | Some ow \<Rightarrow> Inr (AddOwner ow out))"

definition AddEvent :: "bytes \<Rightarrow> 'd indexed_output \<Rightarrow> 'd indexed_output" where
  "AddEvent event out =
     (if event \<in> set (io_Events out) then out else out\<lparr>io_Events := io_Events out @ [event]\<rparr>)"

definition io_IsSpent :: "'d indexed_output \<Rightarrow> bool" where
  "io_IsSpent out \<longleftrightarrow> io_SpendTxid out \<noteq> None"

definition SetData :: "bytes \<Rightarrow> 'd option \<Rightarrow> 'd indexed_output \<Rightarrow> 'd indexed_output" where
  "SetData tag data out =
     out\<lparr>io_Data := Some (AList.update tag data (case io_Data out of None \<Rightarrow> [] | Some m \<Rightarrow> m))\<rparr>"

definition GetData :: "bytes \<Rightarrow> 'd indexed_output \<Rightarrow> 'd option option" where
  "GetData tag out = (case io_Data out of None \<Rightarrow> None | Some m \<Rightarrow> map_of m tag)"

text \<open>\<open>json.Marshal\<close> and \<open>json.Unmarshal\<close> at the two types the store keeps.\<close>

record 'd json_codec =
  marshal_events :: "bytes list \<Rightarrow> err + bytes"
  unmarshal_events :: "bytes \<Rightarrow> err + bytes list"
  marshal_data :: "'d \<Rightarrow> err + bytes"
  unmarshal_data :: "bytes \<Rightarrow> err + 'd option"

text \<open>The search configuration of outputs extends the store's.\<close>

record out_cfg = search_cfg +
  FilterSpent :: bool
  ExcludeMined :: bool
  ExcludeMempool :: bool
  IncludeSats :: bool
  IncludeSpend :: bool
  IncludeEvents :: bool
  IncludeBlock :: bool
  IncludeTags :: "bytes list"

section \<open>Lemmas\<close>

lemma copy20_id: "length b = 20 \<Longrightarrow> copy20 b = b"
  by (simp add: copy20_def)

lemma AddOwner_props:
  "set (io_Owners (AddOwner ow out)) = insert ow (set (io_Owners out))"
  "distinct (io_Owners out) \<Longrightarrow> distinct (io_Owners (AddOwner ow out))"
  by (auto simp: AddOwner_def)

lemma AddEvent_props:
  "set (io_Events (AddEvent e out)) = insert e (set (io_Events out))"
  "distinct (io_Events out) \<Longrightarrow> distinct (io_Events (AddEvent e out))"
  by (auto simp: AddEvent_def)

lemma GetData_SetData:
  "GetData tag' (SetData tag d out) = (if tag' = tag then Some d else GetData tag' out)"
  by (auto simp: GetData_def SetData_def update_conv split: option.splits)

end
