(* ===== verification/Score.thy ===== *)
theory Score
  imports Txo "HOL-Library.Log_Nat"
begin

text \<open>
  \<open>pkg/types/score.go\<close>: the score of a transaction, which orders every sorted set of the program. Go's
  conversion of an unsigned integer, division and addition of doubles are modelled bit by bit for numbers that are
  not negative: the exact result, as a multiple of the smallest double, rounded to the nearest even. The lemmas show that rounding is
  monotone and how far it moves a number, from which the order of scores follows.
\<close>

section \<open>Arithmetic of doubles\<close>

text \<open>A finite double without a sign is \<open>f64_scaled\<close> times the smallest one, \<open>2 ^ -1074\<close>.\<close>

definition f64_scaled :: "f64 \<Rightarrow> nat" where
  "f64_scaled f =
     (let e = f64_mag f div 2 ^ 52; m = f64_mag f mod 2 ^ 52
      in if e = 0 then m else (2 ^ 52 + m) * 2 ^ (e - 1))"

text \<open>The integer nearest to a fraction; of two that are equally near, the even one.\<close>

definition nearest :: "nat \<Rightarrow> nat \<Rightarrow> nat" where
  "nearest p q = (let d = p div q; r = p mod q in if 2 * r < q \<or> 2 * r = q \<and> even d then d else d + 1)"

text \<open>
  The double nearest to a fraction of the smallest one: the fraction is cut to 53 bits at the
  exponent \<open>k\<close>. A significand that rounds up to \<open>2 ^ 53\<close> carries into the exponent; what exceeds
  the largest double is infinite.
\<close>

definition f64_exp :: "nat \<Rightarrow> nat \<Rightarrow> nat" where
  "f64_exp p q = floorlog 2 (p div q) - 53"

definition f64_bits :: "nat \<Rightarrow> nat \<Rightarrow> nat" where
  "f64_bits p q = (let k = f64_exp p q in k * 2 ^ 52 + nearest p (q * 2 ^ k))"

definition f64_round :: "nat \<Rightarrow> nat \<Rightarrow> f64" where
  "f64_round p q = of_nat (min (f64_bits p q) (unat f64_inf))"

definition f64_of_nat :: "nat \<Rightarrow> f64" where
  "f64_of_nat n = f64_round (n * 2 ^ 1074) 1"

definition f64_div :: "f64 \<Rightarrow> f64 \<Rightarrow> f64" where
  "f64_div a b = f64_round (f64_scaled a * 2 ^ 1074) (f64_scaled b)"

definition f64_add :: "f64 \<Rightarrow> f64 \<Rightarrow> f64" where
  "f64_add a b = f64_round (f64_scaled a + f64_scaled b) 1"

section \<open>Scores\<close>

text \<open>\<open>time.Now().UnixNano()\<close> is the parameter \<open>nano\<close>. The constant \<open>1e9\<close> is exact.\<close>

definition billion :: f64 where
  "billion = f64_of_nat 1000000000"

definition HeightScore :: "nat \<Rightarrow> 32 word \<Rightarrow> 64 word \<Rightarrow> f64" where
  "HeightScore nano height idx =
     (if height = 0 then f64_div (f64_of_nat nano) billion
      else f64_add (f64_of_nat (unat height)) (f64_div (f64_of_nat (unat idx)) billion))"

text \<open>
  What \<open>ScoreFromTx\<close> reads of a Merkle path: the block's height and the leaves of the lowest
  level, each with its hash, if known, and its offset. A path without levels has no lowest one.
\<close>

record merkle_leaf =
  lf_Hash :: "txid option"
  lf_Offset :: "64 word"

record merkle_path =
  pt_BlockHeight :: "32 word"
  pt_Leaves :: "merkle_leaf list option"

definition ScoreFromTx :: "nat \<Rightarrow> merkle_path option \<Rightarrow> txid \<Rightarrow> f64" where
  "ScoreFromTx nano mp t =
     (case mp of
        None \<Rightarrow> HeightScore nano 0 0
      | Some p \<Rightarrow>
          (case pt_Leaves p of
             None \<Rightarrow> HeightScore nano 0 0
           | Some leaves \<Rightarrow>
               HeightScore nano (pt_BlockHeight p)
                 (case find (\<lambda>l. lf_Hash l = Some t) leaves of None \<Rightarrow> 0 | Some l \<Rightarrow> lf_Offset l)))"

text \<open>\<open>beef\<close> is what \<open>FindTransactionForSigningByHash\<close> answers for an id: the transaction's path, if it is known.\<close>

definition ScoreFromBeef :: "nat \<Rightarrow> (txid \<Rightarrow> merkle_path option option) option \<Rightarrow> txid option \<Rightarrow> f64" where
  "ScoreFromBeef nano beef txid' =
     (case (beef, txid') of
        (Some b, Some t) \<Rightarrow> ScoreFromTx nano (case b t of None \<Rightarrow> None | Some mp \<Rightarrow> mp) t
      | _ \<Rightarrow> HeightScore nano 0 0)"

section \<open>Rounding\<close>

lemma nearest_bounds:
  assumes "0 < q"
  shows "2 * (nearest p q * q) \<le> 2 * p + q" "2 * p \<le> 2 * (nearest p q * q) + q"
proof -
  define d where "d = p div q"
  define r where "r = p mod q"
  have dr: "p = d * q + r" "r < q" using assms by (simp_all add: d_def r_def)
  have "nearest p q = (if 2 * r < q \<or> 2 * r = q \<and> even d then d else d + 1)"
    by (simp add: nearest_def Let_def d_def r_def)
  then have "nearest p q * q = d * q \<and> 2 * r \<le> q \<or> nearest p q * q = d * q + q \<and> q \<le> 2 * r"
    by (cases "2 * r < q \<or> 2 * r = q \<and> even d") auto
  then show "2 * (nearest p q * q) \<le> 2 * p + q" "2 * p \<le> 2 * (nearest p q * q) + q"
    using dr by linarith+
qed

lemma nearest_mono:
  assumes "0 < q" and "p \<le> p'"
  shows "nearest p q \<le> nearest p' q"
proof (cases "p div q = p' div q")
  case True
  have "p' div q * q + p mod q \<le> p' div q * q + p' mod q" using assms(2) True by (metis div_mult_mod_eq)
  then have "p mod q \<le> p' mod q" by (rule add_le_imp_le_left)
  then show ?thesis using True by (auto simp: nearest_def Let_def)
next
  case False
  then have "p div q + 1 \<le> p' div q" using div_le_mono[OF assms(2), of q] by simp
  then show ?thesis by (auto simp: nearest_def Let_def)
qed

lemma nearest_exact: "0 < q \<Longrightarrow> nearest (m * q) q = m"
  by (simp add: nearest_def Let_def)

text \<open>Where the cut number lies: below \<open>2 ^ (53 + k)\<close>, and from \<open>2 ^ (52 + k)\<close> on when something is cut.\<close>

lemma cut_bounds:
  assumes "0 < q"
  shows "p < q * 2 ^ (53 + f64_exp p q)" "0 < f64_exp p q \<Longrightarrow> q * 2 ^ (52 + f64_exp p q) \<le> p"
proof -
  let ?n = "p div q"
  have "?n < 2 ^ floorlog 2 ?n" using floorlog_bounds[of ?n 2] by (cases "?n = 0") simp_all
  also have "\<dots> \<le> 2 ^ (53 + f64_exp p q)" by (rule power_increasing) (simp_all add: f64_exp_def)
  finally show "p < q * 2 ^ (53 + f64_exp p q)" using assms by (simp add: div_less_iff_less_mult mult.commute)
  assume "0 < f64_exp p q"
  then have f: "53 < floorlog 2 ?n" by (simp add: f64_exp_def)
  then have "0 < ?n" by (cases "?n = 0") (simp_all add: floorlog_def)
  then have "2 ^ (floorlog 2 ?n - 1) \<le> ?n" using floorlog_bounds[of ?n 2] by simp
  moreover have "floorlog 2 ?n - 1 = 52 + f64_exp p q" using f by (simp add: f64_exp_def)
  ultimately show "q * 2 ^ (52 + f64_exp p q) \<le> p" using assms by (simp add: less_eq_div_iff_mult_less_eq mult.commute)
qed

lemma significand_bounds:
  assumes "0 < q"
  shows "nearest p (q * 2 ^ f64_exp p q) \<le> 2 ^ 53" "0 < f64_exp p q \<Longrightarrow> 2 ^ 52 \<le> nearest p (q * 2 ^ f64_exp p q)"
proof -
  let ?Q = "q * 2 ^ f64_exp p q"
  have Q: "0 < ?Q" using assms by simp
  have "nearest p ?Q \<le> nearest (2 ^ 53 * ?Q) ?Q"
    using cut_bounds(1)[OF assms, of p] by (intro nearest_mono Q) (simp add: power_add algebra_simps)
  then show "nearest p ?Q \<le> 2 ^ 53" using nearest_exact[OF Q] by simp
  assume "0 < f64_exp p q"
  then have "nearest (2 ^ 52 * ?Q) ?Q \<le> nearest p ?Q"
    using cut_bounds(2)[OF assms, of p] by (intro nearest_mono Q) (simp add: power_add algebra_simps)
  then show "2 ^ 52 \<le> nearest p ?Q" using nearest_exact[OF Q] by simp
qed

lemma exp_mono: "p \<le> p' \<Longrightarrow> f64_exp p q \<le> f64_exp p' q"
  unfolding f64_exp_def by (intro diff_le_mono floorlog_mono div_le_mono)

lemma bits_mono:
  assumes q: "0 < q" and le: "p \<le> p'"
  shows "f64_bits p q \<le> f64_bits p' q"
proof (cases "f64_exp p q = f64_exp p' q")
  case True
  then show ?thesis using nearest_mono[OF _ le, of "q * 2 ^ f64_exp p' q"] q by (simp add: f64_bits_def Let_def)
next
  case False
  then have k: "f64_exp p q + 1 \<le> f64_exp p' q" using exp_mono[OF le, of q] by linarith
  have "f64_bits p q \<le> (f64_exp p q + 1) * 2 ^ 52 + 2 ^ 52"
    using significand_bounds(1)[OF q, of p] by (simp add: f64_bits_def Let_def)
  also have "\<dots> \<le> f64_exp p' q * 2 ^ 52 + nearest p' (q * 2 ^ f64_exp p' q)"
    using significand_bounds(2)[OF q, of p'] k by (intro add_mono mult_le_mono1) simp_all
  finally show ?thesis by (simp add: f64_bits_def Let_def)
qed

text \<open>Numbers that are further apart than the weight of the last bit round to different doubles.\<close>

lemma bits_strict:
  assumes gap: "n + 2 ^ f64_exp n' 1 < n'"
  shows "f64_bits n 1 < f64_bits n' 1"
proof -
  let ?k = "f64_exp n 1" and ?k' = "f64_exp n' 1"
  have le: "?k \<le> ?k'" using exp_mono[of n n' 1] gap by simp
  have up: "2 * (nearest n (2 ^ ?k) * 2 ^ ?k) \<le> 2 * n + 2 ^ ?k" using nearest_bounds(1)[of "2 ^ ?k" n] by simp
  have dn: "2 * n' \<le> 2 * (nearest n' (2 ^ ?k') * 2 ^ ?k') + 2 ^ ?k'" using nearest_bounds(2)[of "2 ^ ?k'" n'] by simp
  have kk: "(2::nat) ^ ?k \<le> 2 ^ ?k'" using le by simp
  have lt: "nearest n (2 ^ ?k) * 2 ^ ?k < nearest n' (2 ^ ?k') * 2 ^ ?k'" using gap up dn kk by linarith
  show ?thesis
  proof (cases "?k = ?k'")
    case True
    then show ?thesis using lt by (simp add: f64_bits_def Let_def)
  next
    case False
    then have k: "?k + 1 \<le> ?k'" using le by simp
    have s: "nearest n (2 ^ ?k) \<le> 2 ^ 53" "2 ^ 52 \<le> nearest n' (2 ^ ?k')"
      using significand_bounds(1)[of 1 n] significand_bounds(2)[of 1 n'] k by simp_all
    show ?thesis
    proof (rule ccontr)
      assume "\<not> ?thesis"
      then have "?k' * 2 ^ 52 + nearest n' (2 ^ ?k') \<le> ?k * 2 ^ 52 + nearest n (2 ^ ?k)"
        by (simp add: f64_bits_def Let_def)
      moreover have "(?k + 1) * 2 ^ 52 \<le> ?k' * 2 ^ 52" using k by (intro mult_le_mono1) simp
      ultimately have eq: "nearest n (2 ^ ?k) = 2 ^ 53" "nearest n' (2 ^ ?k') = 2 ^ 52" "?k' * 2 ^ 52 = (?k + 1) * 2 ^ 52"
        using s by simp_all
      then have "?k' = ?k + 1" by simp
      then show False using lt eq by simp
    qed
  qed
qed

section \<open>The value of what was rounded\<close>

lemma inf_nat: "unat f64_inf = 2047 * 2 ^ 52"
  by (simp add: f64_inf_def)

lemma bits_bound:
  assumes "0 < q" and "f64_exp p q \<le> 2044"
  shows "f64_bits p q < unat f64_inf"
proof -
  have "f64_exp p q * 2 ^ 52 \<le> 2044 * 2 ^ 52" using assms(2) by (rule mult_le_mono1)
  then show ?thesis using significand_bounds(1)[OF assms(1), of p] by (simp add: f64_bits_def Let_def inf_nat)
qed

lemma round_unat:
  assumes "0 < q" and "f64_exp p q \<le> 2044"
  shows "unat (f64_round p q) = f64_bits p q"
  using bits_bound[OF assms] inf_nat by (simp add: f64_round_def unat_of_nat min_absorb1)

lemma round_scaled:
  assumes "0 < q" and "f64_exp p q \<le> 2044"
  shows "f64_scaled (f64_round p q) = nearest p (q * 2 ^ f64_exp p q) * 2 ^ f64_exp p q"
proof -
  let ?k = "f64_exp p q" and ?m = "nearest p (q * 2 ^ f64_exp p q)"
  have mag: "f64_mag (f64_round p q) = ?k * 2 ^ 52 + ?m"
    using bits_bound[OF assms] round_unat[OF assms] by (simp add: f64_mag_def inf_nat f64_bits_def Let_def)
  have m: "?m \<le> 2 ^ 53" "0 < ?k \<Longrightarrow> 2 ^ 52 \<le> ?m" using significand_bounds[OF assms(1)] by blast+
  consider "?m < 2 ^ 52" "?k = 0" | "2 ^ 52 \<le> ?m" "?m < 2 ^ 53" | "?m = 2 ^ 53" using m by force
  then show ?thesis
  proof cases
    case 1
    then show ?thesis by (simp add: f64_scaled_def Let_def mag)
  next
    case 2
    then have "?k * 2 ^ 52 + ?m = (?k + 1) * 2 ^ 52 + (?m - 2 ^ 52)" "?m - 2 ^ 52 < 2 ^ 52" by simp_all
    then have "f64_mag (f64_round p q) div 2 ^ 52 = ?k + 1" "f64_mag (f64_round p q) mod 2 ^ 52 = ?m - 2 ^ 52"
      unfolding mag by (metis div_mult_self3 add.commute add_0 div_less power_not_zero zero_neq_numeral, metis mod_less mod_mult_self3)
    then show ?thesis using 2 by (simp add: f64_scaled_def Let_def)
  next
    case 3
    have "?k * 2 ^ 52 + ?m = (?k + 2) * 2 ^ 52" using 3 by simp
    then have "f64_mag (f64_round p q) div 2 ^ 52 = ?k + 2" "f64_mag (f64_round p q) mod 2 ^ 52 = 0"
      unfolding mag by (metis nonzero_mult_div_cancel_right power_not_zero zero_neq_numeral, metis mod_mult_self2_is_0)
    then show ?thesis using 3 by (simp add: f64_scaled_def Let_def)
  qed
qed

section \<open>The order of scores\<close>

lemma exp_less:
  assumes "0 < q" and "p < q * 2 ^ (53 + j)"
  shows "f64_exp p q \<le> j"
proof (rule ccontr)
  assume "\<not> ?thesis"
  then have j: "j < f64_exp p q" by simp
  then have "q * 2 ^ (52 + f64_exp p q) \<le> p" using cut_bounds(2)[OF assms(1)] by simp
  moreover have "q * 2 ^ (53 + j) \<le> q * 2 ^ (52 + f64_exp p q)" using j assms(1) by simp
  ultimately show False using assms(2) by linarith
qed

lemma round_less_iff:
  assumes "0 < q" "f64_exp p q \<le> 2044" "0 < q'" "f64_exp p' q' \<le> 2044"
  shows "f64_lt (f64_round p q) (f64_round p' q') \<longleftrightarrow> f64_bits p q < f64_bits p' q'"
  using bits_bound[OF assms(1,2)] bits_bound[OF assms(3,4)] round_unat[OF assms(1,2)] round_unat[OF assms(3,4)]
  by (simp add: f64_lt_def f64_nan_def f64_ord_def f64_neg_def f64_mag_def inf_nat)

lemma of_nat_exp: "n < 2 ^ 53 \<Longrightarrow> f64_exp (n * 2 ^ 1074) 1 \<le> 1074"
  by (rule exp_less) (simp_all add: power_add)

lemma nearest_shifted:
  assumes "k \<le> K"
  shows "nearest (n * 2 ^ K) (2 ^ k) * 2 ^ k = n * 2 ^ K"
proof -
  have "n * 2 ^ K = n * 2 ^ (K - k) * (2 ^ k :: nat)" using assms by (simp add: power_add[symmetric])
  then show ?thesis using nearest_exact[of "2 ^ k" "n * 2 ^ (K - k)"] by (metis zero_less_numeral zero_less_power)
qed

lemma of_nat_scaled:
  assumes "n < 2 ^ 53"
  shows "f64_scaled (f64_of_nat n) = n * 2 ^ 1074"
  using round_scaled[of 1 "n * 2 ^ 1074"] of_nat_exp[OF assms] nearest_shifted[OF of_nat_exp[OF assms], of n]
  unfolding f64_of_nat_def mult_1 by linarith

definition last_unit :: nat where "last_unit = 2 ^ 1021"

lemma last_unit_pos: "0 < last_unit" by (simp add: last_unit_def)

lemma fraction_bounds:
  assumes "i < 1000000000"
  defines "X \<equiv> f64_scaled (f64_div (f64_of_nat i) billion)"
  shows "2000000000 * X \<le> 2 ^ 54 * (i * last_unit) + 1000000000 * last_unit"
    "2 ^ 54 * (i * last_unit) \<le> 2000000000 * X + 1000000000 * last_unit"
proof -
  let ?D = "2 ^ 1074 :: nat"
  let ?p = "i * ?D * ?D" and ?q = "1000000000 * ?D"
  let ?k = "f64_exp ?p ?q"
  have sc: "f64_scaled (f64_of_nat i) = i * ?D" "f64_scaled billion = ?q"
    unfolding billion_def by (rule of_nat_scaled, use assms(1) in simp)+
  have q: "0 < ?q" by simp
  have "?p < 1000000000 * ?D * ?D" using assms(1) by simp
  also have "1000000000 * ?D * ?D = ?q * 2 ^ (53 + 1021)" by simp
  finally have k: "?k \<le> 1021" by (rule exp_less[OF q])
  have X: "X = nearest ?p (?q * 2 ^ ?k) * 2 ^ ?k"
    unfolding X_def f64_div_def sc using round_scaled[OF q, of ?p] k by simp
  have Q: "0 < ?q * 2 ^ ?k" by simp
  have e: "nearest ?p (?q * 2 ^ ?k) * (?q * 2 ^ ?k) = X * 1000000000 * ?D" unfolding X by (simp only: ac_simps)
  have kk: "(2::nat) ^ ?k \<le> last_unit" unfolding last_unit_def by (rule power_increasing[OF k]) simp
  have D: "?D = 2 ^ 53 * last_unit" unfolding last_unit_def by (simp flip: power_add)
  have "?D * (2 * (X * 1000000000)) \<le> ?D * (2 * (i * ?D) + 1000000000 * 2 ^ ?k)"
    using nearest_bounds(1)[OF Q, of ?p] unfolding e by (simp only: algebra_simps)
  then have 1: "2 * (X * 1000000000) \<le> 2 * (i * ?D) + 1000000000 * 2 ^ ?k" by (subst (asm) mult_le_cancel1) simp
  have "?D * (2 * (i * ?D)) \<le> ?D * (2 * (X * 1000000000) + 1000000000 * 2 ^ ?k)"
    using nearest_bounds(2)[OF Q, of ?p] unfolding e by (simp only: algebra_simps)
  then have 2: "2 * (i * ?D) \<le> 2 * (X * 1000000000) + 1000000000 * 2 ^ ?k" by (subst (asm) mult_le_cancel1) simp
  have iD: "2 * (i * ?D) = 2 ^ 54 * (i * last_unit)" unfolding D by simp
  show "2000000000 * X \<le> 2 ^ 54 * (i * last_unit) + 1000000000 * last_unit" using 1 kk unfolding iD by linarith
  show "2 ^ 54 * (i * last_unit) \<le> 2000000000 * X + 1000000000 * last_unit" using 2 kk unfolding iD by linarith
qed

text \<open>The exact sum of a confirmed score, before it is rounded.\<close>

definition exact_score :: "nat \<Rightarrow> nat \<Rightarrow> nat" where
  "exact_score h i = h * 2 ^ 1074 + f64_scaled (f64_div (f64_of_nat i) billion)"

lemma exact_score_units: "exact_score h i = 2 ^ 53 * (h * last_unit) + f64_scaled (f64_div (f64_of_nat i) billion)"
proof -
  have "(2 :: nat) ^ 1074 = 2 ^ 53 * last_unit" unfolding last_unit_def by (simp flip: power_add)
  then show ?thesis unfolding exact_score_def by (simp only: mult.left_commute)
qed

lemma gap_arith:
  fixes u gu hu iu ju x y :: nat
  assumes "2000000000 * x \<le> 2 ^ 54 * iu + 1000000000 * u" "2 ^ 54 * ju \<le> 2000000000 * y + 1000000000 * u"
    and "gu + u \<le> hu \<and> iu + u \<le> 1000000000 * u \<or> gu = hu \<and> iu + u \<le> ju" and "0 < u"
  shows "2 ^ 53 * gu + x + (2 ^ 23 * u + u) < 2 ^ 53 * hu + y"
  using assms by simp linarith

lemma exact_gap:
  assumes "i < 1000000000" "j < 1000000000" and "g < h \<or> g = h \<and> i < j"
  shows "exact_score g i + (2 ^ 23 * last_unit + last_unit) < exact_score h j"
proof -
  have le: "a * last_unit + last_unit \<le> b * last_unit" if "a < b" for a b
    using mult_le_mono1[of "Suc a" b last_unit] that by simp
  show ?thesis
    unfolding exact_score_units
    by (rule gap_arith[OF fraction_bounds(1)[OF assms(1)] fraction_bounds(2)[OF assms(2)] _ last_unit_pos])
      (use assms(3) le[OF assms(1)] le[of g h] le[of i j] in auto)
qed

lemma exact_less:
  assumes "h < 2 ^ 23" "i < 1000000000"
  shows "exact_score h i + (2 ^ 23 * last_unit + last_unit) < 2 ^ (53 + 1044)"
proof -
  have "exact_score h i + (2 ^ 23 * last_unit + last_unit) < exact_score (2 ^ 23) 0" using assms by (intro exact_gap) simp_all
  also have "exact_score (2 ^ 23) 0 = 2 ^ (53 + 1044)"
  proof -
    have "f64_of_nat 0 = 0" by (simp add: f64_of_nat_def f64_round_def f64_bits_def f64_exp_def nearest_def floorlog_def)
    moreover have "f64_div 0 billion = 0"
    proof -
      have z: "f64_scaled 0 = 0" by (simp add: f64_scaled_def f64_mag_def)
      show ?thesis unfolding f64_div_def z by (auto simp: f64_round_def f64_bits_def f64_exp_def nearest_def floorlog_def)
    qed
    ultimately show ?thesis by (simp add: exact_score_def f64_scaled_def f64_mag_def)
  qed
  finally show ?thesis .
qed

lemma exact_exp:
  assumes "h < 2 ^ 23" "i < 1000000000"
  shows "f64_exp (exact_score h i) 1 \<le> 1044"
  using exact_less[OF assms] by (intro exp_less) simp_all

lemma confirmed_score:
  assumes "h \<noteq> 0" "h < 2 ^ 23"
  shows "HeightScore nano h i = f64_round (exact_score (unat h) (unat i)) 1"
proof -
  have "unat h < 2 ^ 23" using assms(2) by (simp add: word_less_nat_alt)
  then have "f64_scaled (f64_of_nat (unat h)) = unat h * 2 ^ 1074" by (intro of_nat_scaled) simp
  then show ?thesis using assms(1) by (simp only: HeightScore_def f64_add_def exact_score_def if_False)
qed

lemma bits_scale:
  assumes "0 < q"
  shows "f64_exp (n * q) q = f64_exp n 1" "f64_bits (n * q) q = f64_bits n 1"
proof -
  have e: "f64_exp (n * q) q = f64_exp n 1" using assms by (simp add: f64_exp_def)
  then show "f64_exp (n * q) q = f64_exp n 1" .
  have "nearest (n * q) (q * m) = nearest n m" for m
    using assms by (simp add: nearest_def Let_def mult.commute[of n q] mult_mod_right[symmetric])
  then show "f64_bits (n * q) q = f64_bits n 1" by (simp add: f64_bits_def Let_def e)
qed

lemma of_nat_large:
  assumes "8388608000000000 \<le> n" "n < 2 ^ 64"
  shows "8388608000000000 * 2 ^ 1074 \<le> f64_scaled (f64_of_nat n)" "f64_scaled (f64_of_nat n) \<le> 2 ^ (53 + 1085)"
proof -
  let ?D = "2 ^ 1074 :: nat"
  let ?k = "f64_exp (n * ?D) 1"
  have k: "?k \<le> 1085" using assms(2) by (intro exp_less) (simp_all add: power_add)
  have P: "f64_scaled (f64_of_nat n) = nearest (n * ?D) (2 ^ ?k) * 2 ^ ?k"
    using round_scaled[of 1 "n * ?D"] k by (simp add: f64_of_nat_def)
  have "nearest (n * ?D) (2 ^ ?k) * 2 ^ ?k \<le> 2 ^ 53 * 2 ^ 1085"
    using significand_bounds(1)[of 1 "n * ?D"] power_increasing[OF k, of "2 :: nat"] by (intro mult_le_mono) simp_all
  then show "f64_scaled (f64_of_nat n) \<le> 2 ^ (53 + 1085)" unfolding P power_add .
  show "8388608000000000 * ?D \<le> f64_scaled (f64_of_nat n)"
  proof (cases "n < 2 ^ 53")
    case True
    then show ?thesis using of_nat_scaled[OF True] assms(1) by (simp only: mult_le_mono1)
  next
    case False
    then have D: "2 ^ 53 * ?D \<le> n * ?D" by (intro mult_le_mono1) simp
    have "2 ^ 52 * 2 ^ ?k \<le> n * ?D"
    proof (cases "?k = 0")
      case True
      have "(2 :: nat) ^ 52 * 2 ^ 0 \<le> 2 ^ 53 * ?D" by simp
      then show ?thesis using D unfolding True by linarith
    qed (use cut_bounds(2)[of 1 "n * ?D"] in \<open>simp add: power_add\<close>)
    moreover have "2 * (n * ?D) \<le> 2 * (nearest (n * ?D) (2 ^ ?k) * 2 ^ ?k) + 2 ^ ?k"
      using nearest_bounds(2)[of "2 ^ ?k" "n * ?D"] by simp
    moreover have "8388608000000000 * d \<le> x"
      if "2 ^ 53 * d \<le> y" "2 ^ 52 * z \<le> y" "2 * y \<le> 2 * x + z" for d x y z :: nat
      using that by simp
    ultimately show ?thesis unfolding P using D by blast
  qed
qed

text \<open>
  Confirmed scores are in the order of height and index while heights stay below \<open>2 ^ 23\<close> and
  indexes below a billion; the scores of unconfirmed transactions are above them.
\<close>

lemma confirmed_less:
  assumes "g \<noteq> 0" "g < 2 ^ 23" "i < 1000000000" "h \<noteq> 0" "h < 2 ^ 23" "j < 1000000000" and "g < h \<or> g = h \<and> i < j"
  shows "f64_lt (HeightScore n g i) (HeightScore m h j)"
proof -
  have b: "unat g < 2 ^ 23" "unat i < 1000000000" "unat h < 2 ^ 23" "unat j < 1000000000"
    using assms by (simp_all add: word_less_nat_alt)
  have e: "f64_exp (exact_score (unat g) (unat i)) 1 \<le> 1044" "f64_exp (exact_score (unat h) (unat j)) 1 \<le> 1044"
    using exact_exp b by blast+
  have "unat g < unat h \<or> unat g = unat h \<and> unat i < unat j" using assms(7) by (auto simp: word_less_nat_alt)
  then have "exact_score (unat g) (unat i) + (2 ^ 23 * last_unit + last_unit) < exact_score (unat h) (unat j)" by (rule exact_gap[OF b(2,4)])
  moreover have "2 ^ f64_exp (exact_score (unat h) (unat j)) 1 \<le> 2 ^ 23 * last_unit"
    unfolding last_unit_def using power_increasing[OF e(2), of "2 :: nat"] by (simp flip: power_add)
  ultimately have "f64_bits (exact_score (unat g) (unat i)) 1 < f64_bits (exact_score (unat h) (unat j)) 1"
    by (intro bits_strict) linarith
  then show ?thesis using e unfolding confirmed_score[OF assms(1,2)] confirmed_score[OF assms(4,5)] by (subst round_less_iff) simp_all
qed

lemma confirmed_before_unconfirmed:
  assumes "g \<noteq> 0" "g < 2 ^ 23" "i < 1000000000" and "8388608000000000 \<le> nano" "nano < 2 ^ 64"
  shows "f64_lt (HeightScore n g i) (HeightScore nano 0 j)"
proof -
  have b: "unat g < 2 ^ 23" "unat i < 1000000000" using assms by (simp_all add: word_less_nat_alt)
  let ?q = "1000000000 * 2 ^ 1074 :: nat" and ?p = "f64_scaled (f64_of_nat nano) * 2 ^ 1074"
  have q: "0 < ?q" by simp
  have s: "HeightScore nano 0 j = f64_round ?p ?q"
    using of_nat_scaled[of 1000000000] by (simp add: HeightScore_def f64_div_def billion_def)
  have "?p \<le> 2 ^ (53 + 1085) * 2 ^ 1074" using of_nat_large(2)[OF assms(4,5)] by (rule mult_le_mono1)
  also have "\<dots> < ?q * 2 ^ (53 + 1085)" by simp
  finally have e: "f64_exp ?p ?q \<le> 1085" by (rule exp_less[OF q])
  have e': "f64_exp (exact_score (unat g) (unat i)) 1 \<le> 1044" using exact_exp b by blast
  have "2 ^ (53 + 1044) * ?q \<le> 8388608000000000 * 2 ^ 1074 * 2 ^ 1074" by simp
  also have "\<dots> \<le> ?p" using of_nat_large(1)[OF assms(4,5)] by (rule mult_le_mono1)
  finally have "f64_bits (2 ^ (53 + 1044)) 1 \<le> f64_bits ?p ?q" using bits_mono[OF q] bits_scale(2)[OF q] by metis
  moreover have "f64_bits (exact_score (unat g) (unat i)) 1 < f64_bits (2 ^ (53 + 1044)) 1"
  proof -
    let ?n = "exact_score (unat g) (unat i)" and ?n' = "exact_score (unat g) (unat i) + 2 ^ 1044 + 1"
    have u: "2 ^ 23 * last_unit = 2 ^ 1044" unfolding last_unit_def by (simp flip: power_add)
    have n': "?n' < 2 ^ (53 + 1044)" using exact_less[OF b] last_unit_pos unfolding u by linarith
    then have "f64_exp ?n' 1 \<le> 1044" by (intro exp_less) simp_all
    then have "(2 :: nat) ^ f64_exp ?n' 1 \<le> 2 ^ 1044" by (rule power_increasing) simp
    then have "f64_bits ?n 1 < f64_bits ?n' 1" by (intro bits_strict) linarith
    also have "\<dots> \<le> f64_bits (2 ^ (53 + 1044)) 1" using n' by (intro bits_mono) simp_all
    finally show ?thesis .
  qed
  ultimately show ?thesis using e e' unfolding confirmed_score[OF assms(1,2)] s by (subst round_less_iff[OF _ _ q]) simp_all
qed

section \<open>The property\<close>

text \<open>
  C7: for heights below \<open>2 ^ 23\<close> and indexes below a billion, the scores of confirmed transactions are in the order of height and
  index, so that transactions at different places of the chain never share a score, and they are below the score of every
  unconfirmed transaction (a clock past April 1970). \<open>ScoreFromTx\<close> gives the score of the path's block and of the offset of the transaction's own leaf.
\<close>

theorem scores_order_transactions:
  assumes "g \<noteq> 0" "g < 2 ^ 23" "i < 1000000000" "h \<noteq> 0" "h < 2 ^ 23" "j < 1000000000"
    and "8388608000000000 \<le> nano" "nano < 2 ^ 64"
    and "l \<in> set leaves" "lf_Hash l = Some t" "\<forall>l' \<in> set leaves. lf_Hash l' = Some t \<longrightarrow> l' = l" "lf_Offset l = i"
  shows "(f64_lt (HeightScore n g i) (HeightScore m h j) \<longleftrightarrow> g < h \<or> g = h \<and> i < j) \<and>
    f64_lt (HeightScore n g i) (HeightScore nano 0 k) \<and>
    ScoreFromTx n (Some \<lparr>pt_BlockHeight = g, pt_Leaves = Some leaves\<rparr>) t = HeightScore n g i \<and>
    ScoreFromTx nano None t = HeightScore nano 0 k"
proof (intro conjI)
  have conv: "g < h \<or> g = h \<and> i < j" if lt: "f64_lt (HeightScore n g i) (HeightScore m h j)"
  proof (rule ccontr)
    assume "\<not> ?thesis"
    then consider "g = h" "i = j" | "h < g \<or> h = g \<and> j < i" by fastforce
    then show False
    proof cases
      case 1
      then show False using lt assms(1) by (simp add: HeightScore_def f64_lt_irrefl)
    next
      case 2
      then show False
        using confirmed_less[OF assms(4,5,6,1,2,3)] lt f64_lt_trans f64_lt_irrefl by blast
    qed
  qed
  then show "f64_lt (HeightScore n g i) (HeightScore m h j) \<longleftrightarrow> g < h \<or> g = h \<and> i < j"
    using confirmed_less[OF assms(1-6)] by blast
  show "f64_lt (HeightScore n g i) (HeightScore nano 0 k)" by (rule confirmed_before_unconfirmed[OF assms(1-3,7,8)])
  obtain l' where "find (\<lambda>l. lf_Hash l = Some t) leaves = Some l'" "l' \<in> set leaves" "lf_Hash l' = Some t"
    using assms(9,10) by (cases "find (\<lambda>l. lf_Hash l = Some t) leaves") (auto simp: find_None_iff find_Some_iff)
  then show "ScoreFromTx n (Some \<lparr>pt_BlockHeight = g, pt_Leaves = Some leaves\<rparr>) t = HeightScore n g i"
    using assms(11,12) by (simp add: ScoreFromTx_def)
  show "ScoreFromTx nano None t = HeightScore nano 0 k" by (simp add: ScoreFromTx_def HeightScore_def)
qed

theorem scores_order_transactions_witness:
  "f64_lt (HeightScore 0 800000 5) (HeightScore 0 800000 7) \<and>
   ScoreFromTx 0 (Some \<lparr>pt_BlockHeight = 800000, pt_Leaves = Some [\<lparr>lf_Hash = Some ''x'', lf_Offset = 5\<rparr>]\<rparr>) ''x'' = HeightScore 0 800000 5"
proof -
  have w: "(800000 :: 32 word) \<noteq> 0" "(800000 :: 32 word) < 2 ^ 23" "(5 :: 64 word) < 1000000000" "(7 :: 64 word) < 1000000000"
    "(5 :: 64 word) < 7" by simp_all
  have n: "(8388608000000000 :: nat) \<le> 8388608000000000" "(8388608000000000 :: nat) < 2 ^ 64" by simp_all
  let ?l = "\<lparr>lf_Hash = Some ''x'', lf_Offset = 5\<rparr>"
  have l: "?l \<in> set [?l]" "lf_Hash ?l = Some ''x''" "\<forall>l' \<in> set [?l]. lf_Hash l' = Some ''x'' \<longrightarrow> l' = ?l" "lf_Offset ?l = 5" by simp_all
  from scores_order_transactions[OF w(1-3) w(1,2,4) n l, of 0 0 0] w(5) show ?thesis by blast
qed

end
