(* ===== verification/Ordinals.thy ===== *)
theory Ordinals
  imports Prelude
begin

text \<open>
  \<open>pkg/types/ordinal.go\<close>: which output receives the single-satoshi ordinal of an input, and
  which input gave the ordinal of an output, by first-in first-out counting of satoshis.
  Sums of satoshis are 64-bit and wrap. A transaction is the satoshis of its inputs'
  source outputs (absent when the source is not loaded) and of its outputs.
\<close>

type_synonym sats = "64 word"

record ord_tx =
  in_sats :: "sats option list"
  out_sats :: "sats list"

text \<open>The satoshis before an input; the first missing source is an error.\<close>

fun input_offset :: "nat \<Rightarrow> nat \<Rightarrow> sats option list \<Rightarrow> sats \<Rightarrow> err + sats" where
  "input_offset 0 i xs acc = Inr acc"
| "input_offset (Suc n) i [] acc = Inr acc"
| "input_offset (Suc n) i (x # xs) acc =
     (case x of None \<Rightarrow> Inl (ErrOther ''missing source output'')
      | Some s \<Rightarrow> input_offset n (Suc i) xs (acc + s))"

text \<open>The loop over the outputs, with the satoshis counted so far.\<close>

fun find_output :: "sats \<Rightarrow> nat \<Rightarrow> sats \<Rightarrow> sats list \<Rightarrow> nat option" where
  "find_output off vout cum [] = None"
| "find_output off vout cum (s # ss) =
     (if s = 0 then find_output off (Suc vout) cum ss
      else if cum = off then (if s \<noteq> 1 then None else Some vout)
      else if cum + s > off then None
      else find_output off (Suc vout) (cum + s) ss)"

definition OrdinalOutput :: "ord_tx \<Rightarrow> nat \<Rightarrow> err + nat option" where
  "OrdinalOutput tx vin =
     (if length (in_sats tx) \<le> vin then Inl (ErrOther ''input index out of range'')
      else rbind (input_offset vin 0 (in_sats tx) 0) (\<lambda>off.
        case in_sats tx ! vin of
          None \<Rightarrow> Inl (ErrOther ''missing source output'')
        | Some s \<Rightarrow> if s \<noteq> 1 then Inr None else Inr (find_output off 0 0 (out_sats tx))))"

text \<open>The loop over the inputs.\<close>

fun find_input :: "sats \<Rightarrow> nat \<Rightarrow> sats \<Rightarrow> sats option list \<Rightarrow> err + nat option" where
  "find_input off vin cum [] = Inr None"
| "find_input off vin cum (x # xs) =
     (case x of None \<Rightarrow> Inl (ErrOther ''missing source output'')
      | Some s \<Rightarrow>
          if cum = off then (if s \<noteq> 1 then Inr None else Inr (Some vin))
          else if cum + s > off then Inr None
          else find_input off (Suc vin) (cum + s) xs)"

definition OrdinalInput :: "ord_tx \<Rightarrow> nat \<Rightarrow> err + nat option" where
  "OrdinalInput tx vout =
     (if length (out_sats tx) \<le> vout then Inl (ErrOther ''output index out of range'')
      else if out_sats tx ! vout \<noteq> 1 then Inr None
      else find_input (sum_list (take vout (out_sats tx))) 0 0 (in_sats tx))"

section \<open>Counting satoshis\<close>

text \<open>The satoshis of a list as a number, and lists whose sums do not wrap.\<close>

definition total :: "sats list \<Rightarrow> nat" where
  "total ss = sum_list (map unat ss)"

lemma total_simps [simp]: "total [] = 0" "total (s # ss) = unat s + total ss"
  "total (as @ bs) = total as + total bs"
  by (simp_all add: total_def)

lemma total_take_le: "total (take n ss) \<le> total ss"
  by (metis append_take_drop_id le_add1 total_simps(3))

lemma unat_sum_list:
  "total ss < 2 ^ 64 \<Longrightarrow> unat (sum_list ss) = total ss"
proof (induction ss)
  case (Cons s ss)
  then have IH: "unat (sum_list ss) = total ss" by simp
  have "unat (s + sum_list ss) = unat s + unat (sum_list ss)"
    using Cons.prems IH by (intro unat_add_lem[THEN iffD1]) simp
  with IH show ?case by simp
qed simp

text \<open>
  The loop over the outputs finds the output that starts at the offset, when it has exactly
  one satoshi; outputs of no satoshis are passed over.
\<close>

lemma find_output_iff:
  assumes "unat cum + total ss < 2 ^ 64" "unat cum \<le> unat off"
  shows "find_output off v cum ss = Some w \<longleftrightarrow>
    (\<exists>i < length ss. w = v + i \<and> ss ! i = 1 \<and> unat off = unat cum + total (take i ss))"
  using assms
proof (induction ss arbitrary: v cum)
  case Nil
  then show ?case by simp
next
  case (Cons s ss)
  have add: "unat (cum + s) = unat cum + unat s"
    using Cons.prems(1) by (intro unat_add_lem[THEN iffD1]) simp
  have split: "(\<exists>i < length (s # ss). w = v + i \<and> (s # ss) ! i = 1 \<and>
        unat off = unat cum + total (take i (s # ss))) \<longleftrightarrow>
      (w = v \<and> s = 1 \<and> unat off = unat cum) \<or>
      (\<exists>i < length ss. w = Suc v + i \<and> ss ! i = 1 \<and> unat off = unat cum + unat s + total (take i ss))"
    (is "?L \<longleftrightarrow> ?R")
  proof
    assume ?L
    then obtain i where i: "i < length (s # ss)" "w = v + i" "(s # ss) ! i = 1"
      "unat off = unat cum + total (take i (s # ss))" by blast
    then show ?R by (cases i) auto
  next
    assume ?R
    then show ?L
    proof
      assume "w = v \<and> s = 1 \<and> unat off = unat cum"
      then show ?L by (intro exI[of _ 0]) simp
    next
      assume "\<exists>i < length ss. w = Suc v + i \<and> ss ! i = 1 \<and>
        unat off = unat cum + unat s + total (take i ss)"
      then obtain i where "i < length ss" "w = Suc v + i" "ss ! i = 1"
        "unat off = unat cum + unat s + total (take i ss)" by blast
      then show ?L by (intro exI[of _ "Suc i"]) simp
    qed
  qed
  show ?case
  proof (cases "s = 0")
    case True
    with Cons.IH[of cum "Suc v"] Cons.prems split show ?thesis by simp
  next
    case s: False
    then have s1: "0 < unat s" by (simp add: unat_gt_0)
    show ?thesis
    proof (cases "cum = off")
      case True
      with s s1 split show ?thesis by auto
    next
      case False
      then have ne: "unat off \<noteq> unat cum" by (simp add: word_unat_eq_iff)
      show ?thesis
      proof (cases "cum + s > off")
        case True
        then have "unat off < unat cum + unat s" by (simp add: word_less_nat_alt add)
        with True False s ne split show ?thesis by auto
      next
        case le: False
        then have "unat (cum + s) \<le> unat off" by (simp add: word_less_nat_alt)
        with Cons.IH[of "cum + s" "Suc v"] Cons.prems(1) add le False s ne split
        show ?thesis by simp
      qed
    qed
  qed
qed

text \<open>The loop over the inputs, when every input has a source with at least one satoshi.\<close>

lemma find_input_iff:
  assumes "unat cum + total ss < 2 ^ 64" "unat cum \<le> unat off" "0 \<notin> set ss"
  shows "find_input off v cum (map Some ss) = Inr (Some w) \<longleftrightarrow>
    (\<exists>i < length ss. w = v + i \<and> ss ! i = 1 \<and> unat off = unat cum + total (take i ss))"
proof -
  have "find_input off v cum (map Some ss) = Inr (find_output off v cum ss)"
    using assms(3) by (induction ss arbitrary: v cum) auto
  then show ?thesis using find_output_iff[OF assms(1,2)] by simp
qed

lemma input_offset_sum:
  "n \<le> length ss \<Longrightarrow> input_offset n i (map Some ss) acc = Inr (acc + sum_list (take n ss))"
proof (induction n arbitrary: ss i acc)
  case (Suc n)
  then obtain x xs where "ss = x # xs" by (cases ss) auto
  with Suc show ?case by (simp add: add.assoc)
qed simp

text \<open>A transaction whose sources are loaded and whose satoshi sums fit in 64 bits.\<close>

definition complete_tx :: "ord_tx \<Rightarrow> sats list \<Rightarrow> bool" where
  "complete_tx tx ss \<longleftrightarrow>
     in_sats tx = map Some ss \<and> total ss < 2 ^ 64 \<and> total (out_sats tx) < 2 ^ 64"

lemma OrdinalOutput_iff:
  assumes "complete_tx tx ss"
  shows "OrdinalOutput tx vin = Inr (Some vout) \<longleftrightarrow>
    vin < length ss \<and> ss ! vin = 1 \<and> vout < length (out_sats tx) \<and> out_sats tx ! vout = 1 \<and>
    total (take vin ss) = total (take vout (out_sats tx))"
proof (cases "vin < length ss")
  case True
  have fits: "total (take vin ss) < 2 ^ 64"
    using assms le_less_trans[OF total_take_le] by (auto simp: complete_tx_def)
  note un = unat_sum_list[OF fits]
  show ?thesis
    using assms True find_output_iff[of 0 "out_sats tx" "sum_list (take vin ss)" 0 vout]
    by (auto simp: OrdinalOutput_def complete_tx_def input_offset_sum un)
next
  case False
  with assms show ?thesis by (simp add: OrdinalOutput_def complete_tx_def)
qed

lemma OrdinalInput_iff:
  assumes "complete_tx tx ss" "0 \<notin> set ss"
  shows "OrdinalInput tx vout = Inr (Some vin) \<longleftrightarrow>
    vin < length ss \<and> ss ! vin = 1 \<and> vout < length (out_sats tx) \<and> out_sats tx ! vout = 1 \<and>
    total (take vin ss) = total (take vout (out_sats tx))"
proof (cases "vout < length (out_sats tx)")
  case True
  have fits: "total (take vout (out_sats tx)) < 2 ^ 64"
    using assms le_less_trans[OF total_take_le] by (auto simp: complete_tx_def)
  note un = unat_sum_list[OF fits]
  show ?thesis
    using assms True find_input_iff[of 0 ss "sum_list (take vout (out_sats tx))" 0 vin]
    by (auto simp: OrdinalInput_def complete_tx_def un)
next
  case False
  with assms show ?thesis by (simp add: OrdinalInput_def complete_tx_def)
qed

section \<open>The property\<close>

text \<open>
  C8: for a transaction whose sources are loaded, whose inputs all carry satoshis and whose
  sums fit in 64 bits, the two directions agree: an input's ordinal goes to an output
  exactly when that output's ordinal comes from that input, and this is the case exactly
  when both are single-satoshi and start at the same position in the stream of satoshis.
\<close>

theorem ordinal_directions_agree:
  assumes "in_sats tx = map Some ss" "0 \<notin> set ss" "total ss < 2 ^ 64" "total (out_sats tx) < 2 ^ 64"
  shows "(OrdinalOutput tx vin = Inr (Some vout) \<longleftrightarrow> OrdinalInput tx vout = Inr (Some vin)) \<and>
    (OrdinalOutput tx vin = Inr (Some vout) \<longleftrightarrow>
      vin < length ss \<and> ss ! vin = 1 \<and> vout < length (out_sats tx) \<and> out_sats tx ! vout = 1 \<and>
      total (take vin ss) = total (take vout (out_sats tx)))"
proof -
  have "complete_tx tx ss" using assms by (simp add: complete_tx_def)
  then show ?thesis using OrdinalOutput_iff OrdinalInput_iff assms(2) by blast
qed

lemma ordinal_directions_agree_witness:
  "OrdinalOutput \<lparr>in_sats = [Some 5, Some 1], out_sats = [2, 0, 3, 1]\<rparr> 1 = Inr (Some 3) \<and>
   OrdinalInput \<lparr>in_sats = [Some 5, Some 1], out_sats = [2, 0, 3, 1]\<rparr> 3 = Inr (Some 1)"
proof -
  let ?tx = "\<lparr>in_sats = [Some 5, Some 1], out_sats = [2, 0, 3, 1]\<rparr>"
  have "(OrdinalOutput ?tx 1 = Inr (Some 3) \<longleftrightarrow> OrdinalInput ?tx 3 = Inr (Some 1)) \<and>
      OrdinalOutput ?tx 1 = Inr (Some 3)"
    using ordinal_directions_agree[of ?tx "[5, 1]" 1 3] by (auto simp: total_def)
  then show ?thesis by blast
qed

text \<open>
  With an input of no satoshis the two directions differ: the ordinal of the second input
  goes to the first output, but the loop over the inputs stops at the first one.
\<close>

lemma zero_input_differs:
  "OrdinalOutput \<lparr>in_sats = [Some 0, Some 1], out_sats = [1]\<rparr> 1 = Inr (Some 0)"
  "OrdinalInput \<lparr>in_sats = [Some 0, Some 1], out_sats = [1]\<rparr> 0 = Inr None"
  by (simp_all add: OrdinalOutput_def OrdinalInput_def numeral_eq_Suc)

end
