(* ===== verification/LruList.thy ===== *)
theory LruList
  imports Prelude "HOL-Library.Multiset"
begin

text \<open>
  What the two caches of the program (\<open>pkg/spends/lru.go\<close>, \<open>pkg/beef/lru.go\<close>) share: Go's
  \<open>container/list\<close> as a list of elements, each an identity (the pointer) and its value, the
  three fields a cache keeps consistent, and the lemmas of that consistency.
\<close>

section \<open>container/list\<close>

type_synonym 'k elems = "(nat \<times> 'k) list"

definition list_MoveToFront :: "nat \<Rightarrow> 'k elems \<Rightarrow> 'k elems" where
  "list_MoveToFront e xs = filter (\<lambda>x. fst x = e) xs @ filter (\<lambda>x. fst x \<noteq> e) xs"

definition list_Remove :: "nat \<Rightarrow> 'k elems \<Rightarrow> 'k elems" where
  "list_Remove e xs = filter (\<lambda>x. fst x \<noteq> e) xs"

definition list_Back :: "'k elems \<Rightarrow> (nat \<times> 'k) option" where
  "list_Back xs = (if xs = [] then None else Some (last xs))"

section \<open>A cache\<close>

text \<open>
  \<open>l_next\<close> is a fresh element identity; sizes are unbounded integers, where the code has
  64-bit ones that a cache of memory size does not exhaust.
\<close>

record ('k, 'v) lru =
  l_max :: int
  l_size :: int
  l_cache :: "'k \<Rightarrow> 'v option"
  l_index :: "'k \<Rightarrow> nat option"
  l_list :: "'k elems"
  l_next :: nat

definition lru_new :: "int \<Rightarrow> ('k, 'v) lru" where
  "lru_new maxBytes = \<lparr>l_max = maxBytes, l_size = 0, l_cache = Map.empty, l_index = Map.empty,
     l_list = [], l_next = 0\<rparr>"

text \<open>\<open>if elem, exists := lruIndex[key]; exists { lru.MoveToFront(elem) }\<close>\<close>

definition lru_touch :: "'k \<Rightarrow> ('k, 'v) lru \<Rightarrow> ('k, 'v) lru" where
  "lru_touch k L =
     (case l_index L k of None \<Rightarrow> L | Some e \<Rightarrow> L\<lparr>l_list := list_MoveToFront e (l_list L)\<rparr>)"

text \<open>\<open>cache[key] = v; elem := lru.PushFront(key); lruIndex[key] = elem\<close>\<close>

definition lru_push :: "'k \<Rightarrow> 'v \<Rightarrow> ('k, 'v) lru \<Rightarrow> ('k, 'v) lru" where
  "lru_push k v L = L\<lparr>l_cache := (l_cache L)(k \<mapsto> v), l_list := (l_next L, k) # l_list L,
     l_index := (l_index L)(k \<mapsto> l_next L), l_next := Suc (l_next L)\<rparr>"

section \<open>Consistency\<close>

text \<open>Cache, index and list hold the same keys, and the index points at the key's element.\<close>

definition lru_ok :: "('k, 'v) lru \<Rightarrow> bool" where
  "lru_ok L \<longleftrightarrow> distinct (map fst (l_list L)) \<and> distinct (map snd (l_list L)) \<and>
     (\<forall>e\<in>fst ` set (l_list L). e < l_next L) \<and>
     (\<forall>k e. l_index L k = Some e \<longleftrightarrow> (e, k) \<in> set (l_list L)) \<and>
     dom (l_cache L) = snd ` set (l_list L)"

text \<open>The entries in order of use, most recent first: what the cache is an implementation of.\<close>

definition lru_abs :: "('k, 'v) lru \<Rightarrow> ('k \<times> 'v) list" where
  "lru_abs L = map (\<lambda>(e, k). (k, the (l_cache L k))) (l_list L)"

definition lru_bytes :: "('v \<Rightarrow> int) \<Rightarrow> ('k, 'v) lru \<Rightarrow> int" where
  "lru_bytes sz L = sum_list (map (\<lambda>(k, v). sz v) (lru_abs L))"

lemma lru_ok_new [simp]: "lru_ok (lru_new m)" "lru_abs (lru_new m) = []" "lru_bytes sz (lru_new m) = 0"
  by (simp_all add: lru_ok_def lru_new_def lru_abs_def lru_bytes_def)

lemma abs_keys: "map fst (lru_abs L) = map snd (l_list L)"
  by (simp add: lru_abs_def comp_def case_prod_beta)

lemma abs_distinct: "lru_ok L \<Longrightarrow> distinct (map fst (lru_abs L))"
  by (simp add: abs_keys lru_ok_def)

lemma abs_lookup: "lru_ok L \<Longrightarrow> map_of (lru_abs L) k = l_cache L k"
proof (cases "l_cache L k")
  case None
  moreover assume "lru_ok L"
  ultimately have "k \<notin> fst ` set (lru_abs L)"
    using abs_keys[of L] unfolding lru_ok_def by (metis domIff list.set_map)
  then show ?thesis using None by (simp add: map_of_eq_None_iff)
next
  case (Some v)
  assume ok: "lru_ok L"
  with Some have "k \<in> snd ` set (l_list L)" by (auto simp: lru_ok_def)
  then have "(k, v) \<in> set (lru_abs L)" using Some by (force simp: lru_abs_def)
  then show ?thesis using Some map_of_is_SomeI[OF abs_distinct[OF ok]] by simp
qed

lemma index_iff: "lru_ok L \<Longrightarrow> l_index L k = None \<longleftrightarrow> l_cache L k = None"
proof -
  assume ok: "lru_ok L"
  have "l_index L k \<noteq> None \<longleftrightarrow> (\<exists>e. (e, k) \<in> set (l_list L))"
    using ok unfolding lru_ok_def by (metis not_None_eq)
  also have "\<dots> \<longleftrightarrow> k \<in> dom (l_cache L)" using ok unfolding lru_ok_def by force
  finally show ?thesis by blast
qed

text \<open>On a consistent list, removing an element is removing its key.\<close>

lemma elem_key:
  assumes "lru_ok L" "l_index L k = Some e" "x \<in> set (l_list L)"
  shows "fst x = e \<longleftrightarrow> snd x = k"
proof
  have ek: "(e, k) \<in> set (l_list L)" using assms(1,2) by (simp add: lru_ok_def)
  show "snd x = k" if "fst x = e"
  proof -
    from that ek assms(3) have "x = (e, k)"
      using assms(1) unfolding lru_ok_def by (metis (no_types, lifting) eq_key_imp_eq_value prod.collapse)
    then show ?thesis by simp
  qed
  show "fst x = e" if "snd x = k"
    using that assms ek unfolding lru_ok_def by (metis option.inject prod.collapse)
qed

text \<open>\<open>delete(cache, key); delete(lruIndex, key); lru.Remove(elem)\<close>\<close>

definition lru_drop :: "'k \<Rightarrow> nat \<Rightarrow> ('k, 'v) lru \<Rightarrow> ('k, 'v) lru" where
  "lru_drop k e L = L\<lparr>l_cache := (l_cache L)(k := None), l_index := (l_index L)(k := None),
     l_list := list_Remove e (l_list L)\<rparr>"

lemma abs_filter_key:
  assumes "lru_ok L" "l_index L k = Some e"
  shows "map (\<lambda>(i, k). (k, the (l_cache L k))) (filter (\<lambda>x. fst x \<noteq> e) (l_list L)) =
      filter (\<lambda>x. fst x \<noteq> k) (lru_abs L)"
proof -
  have "filter (\<lambda>x. fst x \<noteq> e) (l_list L) = filter (\<lambda>x. snd x \<noteq> k) (l_list L)"
    by (rule filter_cong[OF refl]) (simp add: elem_key[OF assms])
  then show ?thesis by (simp add: lru_abs_def filter_map comp_def case_prod_beta)
qed

lemma the_elem:
  assumes "lru_ok L" "l_index L k = Some e"
  shows "filter (\<lambda>x. fst x = e) (l_list L) = [(e, k)]"
proof -
  have d: "distinct (l_list L)" using assms(1) by (simp add: lru_ok_def distinct_map)
  have "set (filter (\<lambda>x. fst x = e) (l_list L)) = {(e, k)}"
  proof -
    have "(e, k) \<in> set (l_list L)" using assms by (simp add: lru_ok_def)
    then have "x \<in> set (filter (\<lambda>x. fst x = e) (l_list L)) \<longleftrightarrow> x = (e, k)" for x
      using elem_key[OF assms, of x] by (cases x) auto
    then show ?thesis by blast
  qed
  moreover have "distinct (filter (\<lambda>x. fst x = e) (l_list L))" using d by simp
  ultimately show ?thesis
    by (metis distinct.simps(2) distinct_length_2_or_more insert_not_empty list.exhaust list.set(1)
        list.set_intros(1) list.set_intros(2) singletonD)
qed

lemma MoveToFront_perm:
  "set (list_MoveToFront e xs) = set xs"
  "distinct (map f (list_MoveToFront e xs)) = distinct (map f xs)"
proof -
  show "set (list_MoveToFront e xs) = set xs" by (auto simp: list_MoveToFront_def)
  have "mset (list_MoveToFront e xs) = mset xs"
    using multiset_partition[of "mset xs" "\<lambda>x. fst x = e"] by (simp add: list_MoveToFront_def)
  then have "mset (map f (list_MoveToFront e xs)) = mset (map f xs)" by simp
  then show "distinct (map f (list_MoveToFront e xs)) = distinct (map f xs)"
    by (rule mset_eq_imp_distinct_iff)
qed

lemma touch_ok:
  assumes "lru_ok L"
  shows "lru_ok (lru_touch k L)"
proof (cases "l_index L k")
  case None
  with assms show ?thesis by (simp add: lru_touch_def)
next
  case (Some e)
  then have "lru_touch k L = L\<lparr>l_list := list_MoveToFront e (l_list L)\<rparr>" by (simp add: lru_touch_def)
  with assms show ?thesis by (simp add: lru_ok_def MoveToFront_perm)
qed

lemma touch_abs:
  assumes "lru_ok L"
  shows "lru_abs (lru_touch k L) =
    (case l_cache L k of None \<Rightarrow> lru_abs L | Some v \<Rightarrow> (k, v) # filter (\<lambda>x. fst x \<noteq> k) (lru_abs L))"
proof (cases "l_index L k")
  case None
  with index_iff[OF assms, of k] show ?thesis by (simp add: lru_touch_def)
next
  case (Some e)
  then obtain v where "l_cache L k = Some v" using index_iff[OF assms, of k] by auto
  then show ?thesis
    using Some abs_filter_key[OF assms Some]
    by (simp add: lru_touch_def lru_abs_def list_MoveToFront_def the_elem[OF assms Some])
qed

lemma push_ok:
  assumes "lru_ok L" "l_cache L k = None"
  shows "lru_ok (lru_push k v L)" "lru_abs (lru_push k v L) = (k, v) # lru_abs L"
proof -
  have k: "k \<notin> snd ` set (l_list L)" using assms unfolding lru_ok_def by blast
  then have k': "\<And>a. (a, k) \<notin> set (l_list L)" by force
  have fresh: "l_next L \<notin> fst ` set (l_list L)" using assms(1) by (auto simp: lru_ok_def)
  show "lru_ok (lru_push k v L)"
    using assms k k' fresh by (auto simp: lru_push_def lru_ok_def less_Suc_eq)
  show "lru_abs (lru_push k v L) = (k, v) # lru_abs L"
    using k by (force simp: lru_push_def lru_abs_def)
qed

lemma lru_drop_ok:
  assumes "lru_ok L" "l_index L k = Some e"
  shows "lru_ok (lru_drop k e L)" "lru_abs (lru_drop k e L) = filter (\<lambda>x. fst x \<noteq> k) (lru_abs L)"
proof -
  note ek = elem_key[OF assms]
  have mem: "x \<in> set (list_Remove e (l_list L)) \<longleftrightarrow> x \<in> set (l_list L) \<and> snd x \<noteq> k" for x
    using ek[of x] by (auto simp: list_Remove_def)
  have dom: "dom ((l_cache L)(k := None)) = snd ` set (list_Remove e (l_list L))"
    using assms(1) mem by (auto simp: lru_ok_def image_iff)
  have "distinct (map fst (list_Remove e (l_list L)))" "distinct (map snd (list_Remove e (l_list L)))"
    using assms(1) by (auto simp: lru_ok_def list_Remove_def intro: distinct_map_filter)
  then show "lru_ok (lru_drop k e L)"
    using assms(1) mem dom by (auto simp: lru_drop_def lru_ok_def)
  have "map (\<lambda>(i, k'). (k', the (((l_cache L)(k := None)) k'))) (list_Remove e (l_list L)) =
      map (\<lambda>(i, k'). (k', the (l_cache L k'))) (list_Remove e (l_list L))"
    by (rule map_cong[OF refl]) (use mem in auto)
  then show "lru_abs (lru_drop k e L) = filter (\<lambda>x. fst x \<noteq> k) (lru_abs L)"
    using abs_filter_key[OF assms] by (simp add: lru_drop_def lru_abs_def list_Remove_def)
qed

lemma back_abs:
  assumes "lru_ok L" "list_Back (l_list L) = Some (e, k)"
  shows "l_index L k = Some e" "filter (\<lambda>x. fst x \<noteq> k) (lru_abs L) = butlast (lru_abs L)"
    "lru_abs L \<noteq> []" "fst (last (lru_abs L)) = k"
proof -
  have ne: "l_list L \<noteq> []" "last (l_list L) = (e, k)"
    using assms(2) by (auto simp: list_Back_def split: if_splits)
  then have "(e, k) \<in> set (l_list L)" by (metis last_in_set)
  then show "l_index L k = Some e" using assms(1) by (simp add: lru_ok_def)
  show ab: "lru_abs L \<noteq> []" using ne by (simp add: lru_abs_def)
  show l: "fst (last (lru_abs L)) = k" using ne by (simp add: lru_abs_def last_map)
  have eq: "lru_abs L = butlast (lru_abs L) @ [last (lru_abs L)]" using ab by simp
  then have "distinct (map fst (butlast (lru_abs L) @ [last (lru_abs L)]))"
    using abs_distinct[OF assms(1)] by simp
  then have "k \<notin> fst ` set (butlast (lru_abs L))" using l by simp
  then have "filter (\<lambda>x. fst x \<noteq> k) (butlast (lru_abs L)) = butlast (lru_abs L)"
    by (intro filter_True) (auto simp: image_iff)
  then show "filter (\<lambda>x. fst x \<noteq> k) (lru_abs L) = butlast (lru_abs L)"
    using l by (subst eq) (simp del: append_butlast_last_id)
qed

lemma back_None: "list_Back (l_list L) = None \<longleftrightarrow> lru_abs L = []"
  by (simp add: list_Back_def lru_abs_def)

section \<open>Refinement\<close>

text \<open>The specification: the entries, most recently used first, of which a capacity is kept.\<close>

definition recent :: "'k \<Rightarrow> 'v \<Rightarrow> ('k \<times> 'v) list \<Rightarrow> ('k \<times> 'v) list" where
  "recent k v xs = (k, v) # filter (\<lambda>x. fst x \<noteq> k) xs"

text \<open>A sequence of operations, and the simulation of one by another.\<close>

fun run_ops :: "('o \<Rightarrow> 's \<Rightarrow> 'r \<times> 's) \<Rightarrow> 'o list \<Rightarrow> 's \<Rightarrow> 'r list \<times> 's" where
  "run_ops f [] s = ([], s)"
| "run_ops f (x # xs) s =
     (case f x s of (r, t) \<Rightarrow> case run_ops f xs t of (rs, u) \<Rightarrow> (r # rs, u))"

lemma run_ops_simulation:
  assumes "\<And>x s. R s \<Longrightarrow> R (snd (f x s)) \<and> g x (a s) = (fst (f x s), a (snd (f x s)))" "R s"
  shows "R (snd (run_ops f xs s)) \<and>
    run_ops g xs (a s) = (fst (run_ops f xs s), a (snd (run_ops f xs s)))"
  using assms(2)
proof (induction xs arbitrary: s)
  case (Cons x xs)
  with assms(1)[OF Cons.prems, of x] Cons.IH[of "snd (f x s)"] show ?case
    by (simp add: case_prod_beta)
qed simp

lemma touch_fields [simp]:
  "l_max (lru_touch k L) = l_max L" "l_size (lru_touch k L) = l_size L"
  by (simp_all add: lru_touch_def split: option.splits)

lemma count_key:
  "distinct (map fst xs) \<Longrightarrow> length (filter (\<lambda>x. fst x = k) xs) = (if k \<in> fst ` set xs then 1 else 0)"
  by (induction xs) auto

lemma recent_length:
  assumes "distinct (map fst xs)" "map_of xs k \<noteq> None"
  shows "length (recent k v xs) = length xs"
proof -
  have "length (filter (\<lambda>x. fst x \<noteq> k) xs) + length (filter (\<lambda>x. \<not> fst x \<noteq> k) xs) = length xs"
    by (rule sum_length_filter_compl)
  moreover have "length (filter (\<lambda>x. \<not> fst x \<noteq> k) xs) = 1"
    using count_key[OF assms(1), of k] assms(2) by (simp add: map_of_eq_None_iff)
  ultimately show ?thesis by (simp add: recent_def)
qed

lemma upd_cache_ok:
  assumes "lru_ok L" "l_cache L k \<noteq> None"
  shows "lru_ok (L\<lparr>l_cache := (l_cache L)(k \<mapsto> t)\<rparr>)"
    "filter (\<lambda>x. fst x \<noteq> k) (lru_abs (L\<lparr>l_cache := (l_cache L)(k \<mapsto> t)\<rparr>)) =
      filter (\<lambda>x. fst x \<noteq> k) (lru_abs L)"
    "length (lru_abs (L\<lparr>l_cache := (l_cache L)(k \<mapsto> t)\<rparr>)) = length (lru_abs L)"
proof -
  have "dom ((l_cache L)(k \<mapsto> t)) = dom (l_cache L)" using assms(2) by auto
  with assms(1) show "lru_ok (L\<lparr>l_cache := (l_cache L)(k \<mapsto> t)\<rparr>)" by (simp add: lru_ok_def)
  show "filter (\<lambda>x. fst x \<noteq> k) (lru_abs (L\<lparr>l_cache := (l_cache L)(k \<mapsto> t)\<rparr>)) =
      filter (\<lambda>x. fst x \<noteq> k) (lru_abs L)"
    by (simp add: lru_abs_def filter_map comp_def case_prod_beta)
qed (simp add: lru_abs_def)

end
