(* ===== verification/Spends.thy ===== *)
theory Spends
  imports Txo LruList StoreLaws
begin

text \<open>
  \<open>pkg/spends\<close>: the chain of spend storages, its three providers (memory cache, store,
  remote index) and the memory cache's least-recently-used eviction. A provider is a record
  of operations over an arbitrary world; the cache's own state is \<open>(bytes, txid) lru\<close>.
\<close>

section \<open>Providers and the chain\<close>

record 'w spend_storage =
  ss_Get :: "outpoint \<Rightarrow> ('w, err, txid option) sm"
  ss_Put :: "outpoint \<Rightarrow> txid option \<Rightarrow> ('w, err, unit) sm"
  ss_Delete :: "outpoint \<Rightarrow> ('w, err, unit) sm"

text \<open>Filling the storages before the one that answered; their errors are dropped.\<close>

fun put_all :: "'w spend_storage list \<Rightarrow> outpoint \<Rightarrow> txid \<Rightarrow> 'w \<Rightarrow> 'w" where
  "put_all [] op t w = w"
| "put_all (st # sts) op t w = put_all sts op t (snd (ss_Put st op (Some t) w))"

text \<open>
  \<open>GetSpend\<close>: \<open>ctx_err\<close> is the error of the context, if it was cancelled; any other error of
  a storage only moves on to the next one.
\<close>

fun chain_get :: "err option \<Rightarrow> 'w spend_storage list \<Rightarrow> 'w spend_storage list \<Rightarrow> outpoint \<Rightarrow>
    ('w, err, txid option) sm" where
  "chain_get ctx_err before [] op w = (Inr None, w)"
| "chain_get ctx_err before (st # sts) op w =
     (case ss_Get st op w of
        (Inl e, w') \<Rightarrow>
          if ctx_err = Some e then (Inl e, w') else chain_get ctx_err (before @ [st]) sts op w'
      | (Inr (Some t), w') \<Rightarrow> (Inr (Some t), put_all before op t w')
      | (Inr None, w') \<Rightarrow> chain_get ctx_err (before @ [st]) sts op w')"

definition chain_GetSpend :: "err option \<Rightarrow> 'w spend_storage list \<Rightarrow> outpoint \<Rightarrow> ('w, err, txid option) sm" where
  "chain_GetSpend ctx_err sts op = chain_get ctx_err [] sts op"

text \<open>A bulk read by single reads; a nil outpoint reads as unspent.\<close>

definition each_spend :: "(outpoint \<Rightarrow> ('w, err, txid option) sm) \<Rightarrow> outpoint option list \<Rightarrow>
    ('w, err, txid option list) sm" where
  "each_spend get ops = smap (\<lambda>op. case op of None \<Rightarrow> sret None | Some op \<Rightarrow> get op) ops"

definition chain_GetSpends :: "err option \<Rightarrow> 'w spend_storage list \<Rightarrow> outpoint option list \<Rightarrow>
    ('w, err, txid option list) sm" where
  "chain_GetSpends ctx_err sts = each_spend (chain_GetSpend ctx_err sts)"

definition chain_SaveSpend :: "'w spend_storage list \<Rightarrow> outpoint \<Rightarrow> txid \<Rightarrow> ('w, err, unit) sm" where
  "chain_SaveSpend sts op t = sfor (\<lambda>st. ss_Put st op (Some t)) sts"

definition chain_DeleteSpend :: "'w spend_storage list \<Rightarrow> outpoint \<Rightarrow> ('w, err, unit) sm" where
  "chain_DeleteSpend sts op = sfor (\<lambda>st. ss_Delete st op) sts"

section \<open>The store provider\<close>

definition spendHashKey :: bytes where "spendHashKey = ''spnd''"

definition as_txid :: "bytes \<Rightarrow> txid option" where
  "as_txid b = (if length b = 32 then Some b else None)"

definition store_GetSpend :: "'w store_ops \<Rightarrow> sdk \<Rightarrow> outpoint \<Rightarrow> ('w, txid option) rd" where
  "store_GetSpend S K op w =
     (case st_HGet S spendHashKey (op_bytes K op) w of
        Inl e \<Rightarrow> if e = ErrKeyNotFound then Inr None else Inl e
      | Inr b \<Rightarrow> Inr (as_txid b))"

definition bulk_spends :: "bytes option list \<Rightarrow> txid option list" where
  "bulk_spends vs = map (\<lambda>v. case v of None \<Rightarrow> None | Some b \<Rightarrow> as_txid b) vs"

definition store_GetSpends :: "'w store_ops \<Rightarrow> sdk \<Rightarrow> outpoint option list \<Rightarrow> ('w, txid option list) rd" where
  "store_GetSpends S K ops w =
     (if ops = [] then Inr []
      else rbind (st_HMGet S spendHashKey
                    (map (\<lambda>op. case op of None \<Rightarrow> [] | Some op \<Rightarrow> op_bytes K op) ops) w)
             (\<lambda>vs. Inr (bulk_spends vs)))"

definition nil_deref :: err where
  "nil_deref = ErrOther ''panic: nil pointer dereference''"

definition store_PutSpend :: "'w store_ops \<Rightarrow> sdk \<Rightarrow> outpoint \<Rightarrow> txid option \<Rightarrow> ('w, err, unit) sm" where
  "store_PutSpend S K op t =
     (case t of None \<Rightarrow> sfail nil_deref | Some t \<Rightarrow> st_HSet S spendHashKey (op_bytes K op) t)"

definition store_DeleteSpend :: "'w store_ops \<Rightarrow> sdk \<Rightarrow> outpoint \<Rightarrow> ('w, err, unit) sm" where
  "store_DeleteSpend S K op = st_HDel S spendHashKey [op_bytes K op]"

definition StoreSpendStorage :: "'w store_ops \<Rightarrow> sdk \<Rightarrow> 'w spend_storage" where
  "StoreSpendStorage S K =
     \<lparr> ss_Get = (\<lambda>op. sread (store_GetSpend S K op)), ss_Put = store_PutSpend S K,
       ss_Delete = store_DeleteSpend S K \<rparr>"

section \<open>The remote provider\<close>



section \<open>The memory provider\<close>

definition entrySize :: int where "entrySize = 36 + 32"


type_synonym spend_lru = "(bytes, txid) lru"

function sp_evict :: "spend_lru \<Rightarrow> spend_lru" where
  "sp_evict L =
     (if l_size L > l_max L \<and> l_list L \<noteq> [] then
        (case list_Back (l_list L) of
           None \<Rightarrow> L
         | Some (e, k) \<Rightarrow> sp_evict ((lru_drop k e L)\<lparr>l_size := l_size L - entrySize\<rparr>))
      else L)"
  by pat_completeness auto
termination
proof (relation "measure (\<lambda>L. length (l_list L))")
  fix L :: spend_lru and x e k
  assume "l_size L > l_max L \<and> l_list L \<noteq> []" "list_Back (l_list L) = Some x" "(e, k) = x"
  then have "last (l_list L) = (e, k)" "l_list L \<noteq> []" by (auto simp: list_Back_def)
  then have "(e, k) \<in> set (l_list L)" by (metis last_in_set)
  then have "length (filter (\<lambda>x. fst x \<noteq> e) (l_list L)) < length (l_list L)"
    by (intro length_filter_less[where x = "(e, k)"]) auto
  then show "((lru_drop k e L)\<lparr>l_size := l_size L - entrySize\<rparr>, L) \<in> measure (\<lambda>L. length (l_list L))"
    by (simp add: lru_drop_def list_Remove_def)
qed simp

declare sp_evict.simps [simp del]

definition sp_Get :: "bytes \<Rightarrow> spend_lru \<Rightarrow> txid option \<times> spend_lru" where
  "sp_Get key L =
     (case l_cache L key of None \<Rightarrow> (None, L) | Some t \<Rightarrow> (Some t, lru_touch key L))"

definition sp_Put :: "bytes \<Rightarrow> txid option \<Rightarrow> spend_lru \<Rightarrow> spend_lru" where
  "sp_Put key spendTxid L =
     (case spendTxid of
        None \<Rightarrow> L
      | Some t \<Rightarrow>
          if l_cache L key \<noteq> None then lru_touch key (L\<lparr>l_cache := (l_cache L)(key \<mapsto> t)\<rparr>)
          else let L1 = lru_push key t L in sp_evict (L1\<lparr>l_size := l_size L1 + entrySize\<rparr>))"

definition sp_Delete :: "bytes \<Rightarrow> spend_lru \<Rightarrow> spend_lru" where
  "sp_Delete key L =
     (if l_cache L key = None then L
      else let L1 = (case l_index L key of
                       None \<Rightarrow> L
                     | Some e \<Rightarrow> L\<lparr>l_list := list_Remove e (l_list L),
                                    l_index := (l_index L)(key := None)\<rparr>)
           in L1\<lparr>l_cache := (l_cache L1)(key := None), l_size := l_size L1 - entrySize\<rparr>)"

definition sp_Close :: "spend_lru \<Rightarrow> spend_lru" where
  "sp_Close L = L\<lparr>l_cache := Map.empty, l_index := Map.empty, l_list := [], l_size := 0\<rparr>"


section \<open>The memory cache is a bounded list in order of use\<close>

datatype spend_op = SpGet bytes | SpPut bytes txid | SpDelete bytes | SpClose

fun spec_step :: "nat \<Rightarrow> spend_op \<Rightarrow> (bytes \<times> txid) list \<Rightarrow> txid option \<times> (bytes \<times> txid) list" where
  "spec_step cap (SpGet k) xs =
     (map_of xs k, case map_of xs k of None \<Rightarrow> xs | Some t \<Rightarrow> recent k t xs)"
| "spec_step cap (SpPut k t) xs = (None, take cap (recent k t xs))"
| "spec_step cap (SpDelete k) xs = (None, filter (\<lambda>x. fst x \<noteq> k) xs)"
| "spec_step cap SpClose xs = (None, [])"

fun sp_step :: "spend_op \<Rightarrow> spend_lru \<Rightarrow> txid option \<times> spend_lru" where
  "sp_step (SpGet k) L = sp_Get k L"
| "sp_step (SpPut k t) L = (None, sp_Put k (Some t) L)"
| "sp_step (SpDelete k) L = (None, sp_Delete k L)"
| "sp_step SpClose L = (None, sp_Close L)"

definition sp_ok :: "int \<Rightarrow> spend_lru \<Rightarrow> bool" where
  "sp_ok m L \<longleftrightarrow> lru_ok L \<and> l_max L = m \<and> l_size L = 68 * int (length (lru_abs L))"

abbreviation sp_cap :: "int \<Rightarrow> nat" where
  "sp_cap m \<equiv> nat (m div 68)"

lemma evict_ok:
  assumes "sp_ok m L"
  shows "sp_ok m (sp_evict L) \<and> lru_abs (sp_evict L) = take (sp_cap m) (lru_abs L)"
  using assms
proof (induction L rule: sp_evict.induct)
  case (1 L)
  note ok = "1.prems"[unfolded sp_ok_def]
  show ?case
  proof (cases "l_size L > l_max L \<and> l_list L \<noteq> []")
    case True
    then obtain e k where b: "list_Back (l_list L) = Some (e, k)"
      by (cases "list_Back (l_list L)") (auto simp: list_Back_def)
    let ?L = "(lru_drop k e L)\<lparr>l_size := l_size L - entrySize\<rparr>"
    note ba = back_abs[OF conjunct1[OF ok] b]
    have abs: "lru_abs ?L = butlast (lru_abs L)"
      using lru_drop_ok(2)[OF conjunct1[OF ok] ba(1)] ba(2) by (simp add: lru_abs_def)
    have "lru_ok ?L"
      using lru_drop_ok(1)[OF conjunct1[OF ok] ba(1)] by (simp add: lru_ok_def)
    moreover have "l_max ?L = m" "l_size ?L = 68 * int (length (lru_abs ?L))"
      using ok ba(3) unfolding abs
      by (auto simp: lru_drop_def entrySize_def Suc_le_eq of_nat_diff)
    ultimately have ok': "sp_ok m ?L" by (simp add: sp_ok_def)
    have "m < 68 * int (length (lru_abs L))" using ok True by simp
    then have "sp_cap m < length (lru_abs L)" using ba(3) by (cases "lru_abs L") auto
    then have "take (sp_cap m) (butlast (lru_abs L)) = take (sp_cap m) (lru_abs L)"
      by (simp add: take_butlast)
    with "1.IH"[OF True b refl ok'] abs True b show ?thesis
      by (subst (1 2) sp_evict.simps) simp
  next
    case False
    have "length (lru_abs L) \<le> sp_cap m"
    proof (cases "l_list L = []")
      case True
      then show ?thesis by (simp add: lru_abs_def)
    next
      case ne: False
      with False ok have "68 * int (length (lru_abs L)) \<le> m" by simp
      then have "int (length (lru_abs L)) \<le> m div 68"
        using zdiv_mono1[of "68 * int (length (lru_abs L))" m 68] by simp
      then show ?thesis by simp
    qed
    with False "1.prems" show ?thesis by (subst (1 2) sp_evict.simps) auto
  qed
qed

text \<open>The size never exceeds the budget between operations (an empty cache aside).\<close>

definition sp_inv :: "int \<Rightarrow> spend_lru \<Rightarrow> bool" where
  "sp_inv m L \<longleftrightarrow> sp_ok m L \<and> length (lru_abs L) \<le> sp_cap m"

lemma touch_recent:
  assumes "sp_ok m L" "l_cache L k = Some v"
  shows "sp_ok m (lru_touch k L) \<and> lru_abs (lru_touch k L) = recent k v (lru_abs L) \<and>
    length (lru_abs (lru_touch k L)) = length (lru_abs L)"
proof -
  have ok: "lru_ok L" using assms(1) by (simp add: sp_ok_def)
  have abs: "lru_abs (lru_touch k L) = recent k v (lru_abs L)"
    using touch_abs[OF ok, of k] assms(2) by (simp add: recent_def)
  moreover have "length (recent k v (lru_abs L)) = length (lru_abs L)"
    using abs_distinct[OF ok] abs_lookup[OF ok] assms(2) by (intro recent_length) auto
  ultimately show ?thesis using assms(1) touch_ok[OF ok] by (simp add: sp_ok_def)
qed

lemma put_ok:
  assumes "sp_inv m L"
  shows "sp_inv m (sp_Put k (Some t) L) \<and>
    lru_abs (sp_Put k (Some t) L) = take (sp_cap m) (recent k t (lru_abs L))"
proof (cases "l_cache L k")
  case None
  have ok: "lru_ok L" using assms by (simp add: sp_inv_def sp_ok_def)
  let ?L = "(lru_push k t L)\<lparr>l_size := l_size (lru_push k t L) + entrySize\<rparr>"
  have "k \<notin> fst ` set (lru_abs L)"
    using None abs_lookup[OF ok, of k] by (metis map_of_eq_None_iff)
  then have rec: "recent k t (lru_abs L) = (k, t) # lru_abs L"
    by (auto simp: recent_def intro!: filter_True)
  have abs: "lru_abs ?L = (k, t) # lru_abs L"
    using push_ok(2)[OF ok None, of t] by (simp add: lru_abs_def)
  have "sp_ok m ?L"
    using assms push_ok(1)[OF ok None, of t] abs
    by (simp add: sp_inv_def sp_ok_def lru_push_def entrySize_def lru_ok_def lru_abs_def)
  from evict_ok[OF this] show ?thesis
    unfolding sp_inv_def by (simp add: sp_Put_def None Let_def abs rec)
next
  case (Some v)
  let ?L = "L\<lparr>l_cache := (l_cache L)(k \<mapsto> t)\<rparr>"
  have ok: "lru_ok L" using assms by (simp add: sp_inv_def sp_ok_def)
  note up = upd_cache_ok[OF ok, of k t]
  have "sp_ok m ?L" using assms up Some by (simp add: sp_inv_def sp_ok_def)
  from touch_recent[OF this, of k t] up Some
  have T: "sp_ok m (lru_touch k ?L)" "lru_abs (lru_touch k ?L) = recent k t (lru_abs L)"
    "length (lru_abs (lru_touch k ?L)) = length (lru_abs L)"
    unfolding recent_def by auto
  moreover have "sp_Put k (Some t) L = lru_touch k ?L" by (simp add: sp_Put_def Some)
  moreover have "length (lru_abs L) \<le> sp_cap m" using assms by (simp add: sp_inv_def)
  ultimately show ?thesis by (simp add: sp_inv_def)
qed

lemma delete_ok:
  assumes "sp_inv m L"
  shows "sp_inv m (sp_Delete k L) \<and> lru_abs (sp_Delete k L) = filter (\<lambda>x. fst x \<noteq> k) (lru_abs L)"
proof -
  have ok: "lru_ok L" using assms by (simp add: sp_inv_def sp_ok_def)
  show ?thesis
  proof (cases "l_cache L k")
    case None
    then have "k \<notin> fst ` set (lru_abs L)" using abs_lookup[OF ok, of k] by (metis map_of_eq_None_iff)
    then have "filter (\<lambda>x. fst x \<noteq> k) (lru_abs L) = lru_abs L" by (auto intro!: filter_True)
    with None assms show ?thesis by (simp add: sp_Delete_def)
  next
    case (Some v)
    obtain e where e: "l_index L k = Some e" using index_iff[OF ok, of k] Some by auto
    have del: "sp_Delete k L = (lru_drop k e L)\<lparr>l_size := l_size L - entrySize\<rparr>"
      using Some e by (simp add: sp_Delete_def lru_drop_def)
    note dr = lru_drop_ok[OF ok e]
    have abs: "lru_abs (sp_Delete k L) = filter (\<lambda>x. fst x \<noteq> k) (lru_abs L)"
      using dr(2) by (simp add: del lru_abs_def)
    have "length (recent k v (lru_abs L)) = length (lru_abs L)"
      using abs_distinct[OF ok] abs_lookup[OF ok] Some by (intro recent_length) auto
    then have len: "length (lru_abs L) = Suc (length (filter (\<lambda>x. fst x \<noteq> k) (lru_abs L)))"
      by (simp add: recent_def)
    have "l_max (sp_Delete k L) = l_max L" "l_size (sp_Delete k L) = l_size L - 68"
      by (simp_all add: del lru_drop_def entrySize_def)
    moreover have "lru_ok (sp_Delete k L)" using dr(1) by (simp add: del lru_ok_def)
    ultimately show ?thesis using assms len abs by (simp add: sp_inv_def sp_ok_def)
  qed
qed

lemma step_ok:
  assumes "sp_inv m L"
  shows "sp_inv m (snd (sp_step x L)) \<and>
    spec_step (sp_cap m) x (lru_abs L) = (fst (sp_step x L), lru_abs (snd (sp_step x L)))"
proof (cases x)
  case (SpGet k)
  have ok: "lru_ok L" using assms by (simp add: sp_inv_def sp_ok_def)
  show ?thesis
    using assms touch_recent[of m L k] abs_lookup[OF ok, of k] SpGet
    by (cases "l_cache L k") (auto simp: sp_Get_def sp_inv_def)
next
  case (SpPut k t)
  with put_ok[OF assms, of k t] show ?thesis by simp
next
  case (SpDelete k)
  with delete_ok[OF assms, of k] show ?thesis by simp
next
  case SpClose
  have "lru_abs (sp_Close L) = []" by (simp add: sp_Close_def lru_abs_def)
  moreover have "lru_ok (sp_Close L)" by (simp add: sp_Close_def lru_ok_def)
  ultimately show ?thesis using SpClose assms by (simp add: sp_inv_def sp_ok_def sp_Close_def)
qed

lemma new_inv: "sp_inv m (lru_new m)"
  by (simp add: sp_inv_def sp_ok_def) (simp add: lru_new_def)

section \<open>The properties\<close>

text \<open>
  C9: the memory cache of spends behaves, over every sequence of reads, writes, deletions
  and resets, as a list of entries in order of use that keeps the most recent ones that fit
  the byte budget at 68 bytes each: the same answers and the same remaining entries. Its
  size counter is exact and within the budget after every operation.
\<close>

theorem spend_cache_refines_recency_list:
  "fst (run_ops sp_step ops (lru_new m)) = fst (run_ops (spec_step (nat (m div 68))) ops []) \<and>
   lru_abs (snd (run_ops sp_step ops (lru_new m))) = snd (run_ops (spec_step (nat (m div 68))) ops []) \<and>
   l_size (snd (run_ops sp_step ops (lru_new m))) =
     68 * int (length (lru_abs (snd (run_ops sp_step ops (lru_new m))))) \<and>
   l_size (snd (run_ops sp_step ops (lru_new m))) \<le> max m 0"
proof -
  let ?L = "snd (run_ops sp_step ops (lru_new m))"
  have sim: "sp_inv m ?L \<and> run_ops (spec_step (sp_cap m)) ops [] =
      (fst (run_ops sp_step ops (lru_new m)), lru_abs ?L)"
    using run_ops_simulation[where R = "sp_inv m" and a = lru_abs and f = sp_step
        and g = "spec_step (sp_cap m)" and s = "lru_new m", OF step_ok new_inv] by simp
  then have size: "l_size ?L = 68 * int (length (lru_abs ?L))" and "length (lru_abs ?L) \<le> sp_cap m"
    by (simp_all add: sp_inv_def sp_ok_def)
  then have "int (length (lru_abs ?L)) \<le> max (m div 68) 0" by linarith
  then have "l_size ?L \<le> max m 0" unfolding size by (simp add: max_def split: if_splits) linarith
  with sim size show ?thesis by simp
qed






end
