(* ===== verification/OutputStore.thy ===== *)
theory OutputStore
  imports Spends
begin

text \<open>
  \<open>pkg/txo/output_store.go\<close>: saving and loading indexed outputs, spends and events, the
  searches with the spent filter, and the rollback of a transaction. The world is any state
  on which the store's operations act; publishing and the optional spend service are
  operations on the same world.
\<close>

section \<open>The service\<close>

record 'w spend_service =
  svc_SaveSpend :: "outpoint \<Rightarrow> txid \<Rightarrow> ('w, err, unit) sm"
  svc_DeleteSpend :: "outpoint \<Rightarrow> ('w, err, unit) sm"

record ('w, 'd) output_store =
  os_Store :: "'w store_ops"
  os_PubSub :: "(bytes \<Rightarrow> bytes \<Rightarrow> 'w \<Rightarrow> 'w) option"
  os_SpendService :: "'w spend_service option"
  os_sdk :: sdk
  os_json :: "'d json_codec"

text \<open>The chain of \<open>pkg/spends\<close> as the service.\<close>

definition chain_service :: "'w spend_storage list \<Rightarrow> 'w spend_service" where
  "chain_service sts =
     \<lparr>svc_SaveSpend = chain_SaveSpend sts, svc_DeleteSpend = chain_DeleteSpend sts\<rparr>"

definition fldEvent :: bytes where "fldEvent = ''ev''"
definition fldMerkle :: bytes where "fldMerkle = ''ms''"
definition fldData :: bytes where "fldData = ''dt:''"
definition fldInputs :: bytes where "fldInputs = ''in:''"

text \<open>\<open>binary.BigEndian.PutUint32\<close> and \<open>PutUint64\<close>, and their inverses on the bytes read.\<close>

definition put_u32 :: "32 word \<Rightarrow> bytes" where "put_u32 w = be_bytes 4 (unat w)"
definition put_u64 :: "64 word \<Rightarrow> bytes" where "put_u64 w = be_bytes 8 (unat w)"
definition get_u32 :: "bytes \<Rightarrow> 32 word" where "get_u32 b = of_nat (be_nat b)"
definition get_u64 :: "bytes \<Rightarrow> 64 word" where "get_u64 b = of_nat (be_nat b)"

text \<open>\<open>fmt.Errorf("...: %w", err)\<close>: a new error; the text of the cause is left out.\<close>

definition wrap_err :: "string \<Rightarrow> err + 'a \<Rightarrow> err + 'a" where
  "wrap_err msg r = (case r of Inl e \<Rightarrow> Inl (ErrOther msg) | Inr x \<Rightarrow> Inr x)"

definition swrap :: "string \<Rightarrow> ('w, err, 'a) sm \<Rightarrow> ('w, err, 'a) sm" where
  "swrap msg m w = (case m w of (r, w') \<Rightarrow> (wrap_err msg r, w'))"

section \<open>Saving\<close>

text \<open>The events of an output: its transaction, its own events and its owners.\<close>

definition output_events :: "sdk \<Rightarrow> 'd indexed_output \<Rightarrow> bytes list" where
  "output_events K out =
     (''txid:'' @ txid_string K (op_txid (io_Outpoint out))) # io_Events out @
     map (\<lambda>ow. ''own:'' @ pk_Address K True ow) (filter (\<lambda>ow. \<not> pk_IsZero ow) (io_Owners out))"

definition buildSpendEvents :: "sdk \<Rightarrow> 'd indexed_output \<Rightarrow> bytes list" where
  "buildSpendEvents K out =
     (''txid:'' @ txid_string K (op_txid (io_Outpoint out))) # io_Events out @
     map (\<lambda>ow. ''own:'' @ pk_Address K True ow) (filter (\<lambda>ow. \<not> pk_IsZero ow) (io_Owners out))"

text \<open>The blocks that \<open>SaveOutput\<close> and \<open>SaveEvents\<close> share.\<close>

definition save_event_list :: "('w, 'd) output_store \<Rightarrow> bytes \<Rightarrow> bytes list \<Rightarrow> ('w, err, unit) sm" where
  "save_event_list O' hashKey events =
     (if events \<noteq> [] then
        sbind (slift (marshal_events (os_json O') events))
          (\<lambda>eventsJSON. st_HSet (os_Store O') hashKey fldEvent eventsJSON)
      else sret ())"

definition save_tag :: "('w, 'd) output_store \<Rightarrow> bytes \<Rightarrow> bytes \<times> 'd option \<Rightarrow> ('w, err, unit) sm" where
  "save_tag O' hashKey td =
     (case td of
        (tag, None) \<Rightarrow> sret ()
      | (tag, Some data) \<Rightarrow>
          sbind (slift (marshal_data (os_json O') data))
            (\<lambda>dataJSON. st_HSet (os_Store O') hashKey (fldData @ tag) dataJSON))"

definition index_events :: "('w, 'd) output_store \<Rightarrow> (bytes \<Rightarrow> bytes) \<Rightarrow> bytes \<Rightarrow> f64 \<Rightarrow> bytes list \<Rightarrow>
    ('w, err, unit) sm" where
  "index_events O' keyOf opBytes score events =
     sfor (\<lambda>event. st_ZAdd (os_Store O') (keyOf event) [scored opBytes score]) events"

definition SaveOutput :: "('w, 'd) output_store \<Rightarrow> 'd indexed_output \<Rightarrow> 64 word \<Rightarrow> f64 \<Rightarrow>
    ('w, err, unit) sm" where
  "SaveOutput O' out satoshis score =
     (let S = os_Store O';
          op = io_Outpoint out;
          opBytes = op_bytes (os_sdk O') op;
          hashKey = KeyOutHash (os_sdk O') op;
          events = output_events (os_sdk O') out
      in sseq (save_event_list O' hashKey events)
        (sseq (case io_BlockHeight out of
                 None \<Rightarrow> sret ()
               | Some h \<Rightarrow>
                   if h > 0
                   then st_HSet S hashKey fldMerkle
                          (put_u32 h @ put_u64 (case io_BlockIdx out of None \<Rightarrow> 0 | Some i \<Rightarrow> i))
                   else sret ())
        (sseq (sfor (save_tag O' hashKey) (case io_Data out of None \<Rightarrow> [] | Some m \<Rightarrow> m))
        (sseq (st_HSet S KeySatoshis opBytes (put_u64 satoshis))
              (index_events O' KeyEvent opBytes score events)))))"

definition SaveEvents :: "('w, 'd) output_store \<Rightarrow> outpoint \<Rightarrow> bytes list \<Rightarrow> (bytes \<times> 'd option) list \<Rightarrow>
    f64 \<Rightarrow> ('w, err, unit) sm" where
  "SaveEvents O' op events data score =
     (let opBytes = op_bytes (os_sdk O') op;
          hashKey = KeyOutHash (os_sdk O') op
      in sseq (save_event_list O' hashKey events)
        (sseq (sfor (save_tag O' hashKey) data)
              (index_events O' KeyEvent opBytes score events)))"

definition IndexSpentEvents :: "('w, 'd) output_store \<Rightarrow> outpoint \<Rightarrow> bytes list \<Rightarrow> f64 \<Rightarrow>
    ('w, err, unit) sm" where
  "IndexSpentEvents O' op events score =
     sfor (\<lambda>event. swrap ''failed to add to spent index''
        (st_ZAdd (os_Store O') (KeyEventSpent event) [scored (op_bytes (os_sdk O') op) score])) events"

definition SaveSpend :: "('w, 'd) output_store \<Rightarrow> outpoint \<Rightarrow> txid \<Rightarrow> bytes list \<Rightarrow> f64 \<Rightarrow>
    ('w, err, unit) sm" where
  "SaveSpend O' op spendTxid events score =
     sseq (case os_SpendService O' of
             Some svc \<Rightarrow> svc_SaveSpend svc op spendTxid
           | None \<Rightarrow> st_HSet (os_Store O') KeySpends (op_bytes (os_sdk O') op) spendTxid)
          (IndexSpentEvents O' op events score)"

text \<open>
  What \<open>SaveTransaction\<close> reads of a transaction: its id, the satoshis of its outputs and the
  source outpoints of its inputs. Indexing past them panics.
\<close>

record tx_view =
  tv_txid :: txid
  tv_sats :: "64 word list"
  tv_inputs :: "outpoint list"

definition index_panic :: err where
  "index_panic = ErrOther ''panic: index out of range''"

definition at :: "'a list \<Rightarrow> nat \<Rightarrow> err + 'a" where
  "at xs i = (if i < length xs then Inr (xs ! i) else Inl index_panic)"

definition publish :: "('w, 'd) output_store \<Rightarrow> bytes \<Rightarrow> bytes \<Rightarrow> ('w, err, unit) sm" where
  "publish O' channel msg w =
     (case os_PubSub O' of None \<Rightarrow> (Inr (), w) | Some pub \<Rightarrow> (Inr (), pub channel msg w))"

definition SaveTransaction :: "('w, 'd) output_store \<Rightarrow> tx_view \<Rightarrow> 'd indexed_output option list \<Rightarrow>
    'd indexed_output option list \<Rightarrow> f64 \<Rightarrow> ('w, err, unit) sm" where
  "SaveTransaction O' tx outputs spends score =
     (let K = os_sdk O'; txid = tv_txid tx in
      sseq (sfor (\<lambda>(i, output). case output of
                None \<Rightarrow> sret ()
              | Some out \<Rightarrow> sbind (slift (at (tv_sats tx) i)) (\<lambda>sats. SaveOutput O' out sats score))
            (enumerate 0 outputs))
     (sseq (sfor (\<lambda>(i, spend). case spend of
                None \<Rightarrow> sret ()
              | Some out \<Rightarrow> sbind (slift (at (tv_inputs tx) i)) (\<lambda>input.
                  SaveSpend O' input txid (buildSpendEvents K out) score))
            (enumerate 0 spends))
     (sseq (if os_PubSub O' = None then sret ()
            else sseq
              (sfor (\<lambda>(i, output). case output of
                  None \<Rightarrow> sret ()
                | Some out \<Rightarrow> sfor (\<lambda>event. publish O' event
                    (op_string K \<lparr>op_txid = txid, op_index = of_nat i\<rparr>)) (io_Events out))
                (enumerate 0 outputs))
              (sfor (\<lambda>(i, spend). case spend of
                  None \<Rightarrow> sret ()
                | Some out \<Rightarrow> sbind (slift (at (tv_inputs tx) i)) (\<lambda>input.
                    sfor (\<lambda>event. publish O' (''spend:'' @ event)
                      (op_string K \<lparr>op_txid = txid, op_index = op_index input\<rparr>)) (io_Events out)))
                (enumerate 0 spends)))
           (st_ZAdd (os_Store O') (KeyLog PendingTxLog) [scored txid score]))))"

section \<open>Reading spends and satoshis\<close>

definition GetSpend :: "('w, 'd) output_store \<Rightarrow> outpoint \<Rightarrow> ('w, txid option) rd" where
  "GetSpend O' op w =
     (case st_HGet (os_Store O') KeySpends (op_bytes (os_sdk O') op) w of
        Inl e \<Rightarrow> if e = ErrKeyNotFound then Inr None else Inl e
      | Inr b \<Rightarrow> if length b \<noteq> 32 then Inr None else Inr (Some b))"

definition GetSpends :: "('w, 'd) output_store \<Rightarrow> outpoint option list \<Rightarrow> ('w, txid option list) rd" where
  "GetSpends O' ops w =
     (if ops = [] then Inr []
      else rbind (st_HMGet (os_Store O') KeySpends
                    (map (\<lambda>op. case op of None \<Rightarrow> [] | Some op \<Rightarrow> op_bytes (os_sdk O') op) ops) w)
             (\<lambda>vs. Inr (map (\<lambda>v. case v of None \<Rightarrow> None
                                  | Some b \<Rightarrow> if length b = 32 then Some b else None) vs)))"

definition IsSpent :: "('w, 'd) output_store \<Rightarrow> outpoint \<Rightarrow> ('w, bool) rd" where
  "IsSpent O' op w = rbind (GetSpend O' op w) (\<lambda>sp. Inr (sp \<noteq> None))"

definition GetSats :: "('w, 'd) output_store \<Rightarrow> outpoint \<Rightarrow> ('w, 64 word) rd" where
  "GetSats O' op w =
     (case st_HGet (os_Store O') KeySatoshis (op_bytes (os_sdk O') op) w of
        Inl e \<Rightarrow> if e = ErrKeyNotFound then Inr 0 else Inl e
      | Inr b \<Rightarrow> if length b \<noteq> 8 then Inr 0 else Inr (get_u64 b))"

text \<open>A nil outpoint in the bulk read is dereferenced.\<close>

definition GetSatsBulk :: "('w, 'd) output_store \<Rightarrow> outpoint option list \<Rightarrow> ('w, 64 word list) rd" where
  "GetSatsBulk O' ops w =
     (if ops = [] then Inr []
      else if None \<in> set ops then Inl nil_deref
      else rbind (st_HMGet (os_Store O') KeySatoshis (map (\<lambda>op. op_bytes (os_sdk O') (the op)) ops) w)
             (\<lambda>vs. Inr (map (\<lambda>v. case v of None \<Rightarrow> 0
                                  | Some b \<Rightarrow> if length b = 8 then get_u64 b else 0) vs)))"

section \<open>Searching\<close>

definition prefixKey :: "bytes \<Rightarrow> bytes" where
  "prefixKey key =
     (if 3 \<le> length key \<and> (take 3 key = PfxEvent \<or> take 3 key = PfxTopic) then key
      else KeyEvent key)"

definition filterSpent :: "('w, 'd) output_store \<Rightarrow> scored_member list \<Rightarrow> ('w, scored_member list) rd" where
  "filterSpent O' results w =
     rbind (GetSpends O' (map (\<lambda>r. op_from_bytes (os_sdk O') (Member r)) results) w)
       (\<lambda>spends. Inr (map fst (filter (\<lambda>(r, sp). sp = None) (zip results spends))))"

text \<open>
  The paging of \<open>Search\<close>: \<open>n\<close> iterations are left of \<open>maxIterations\<close>. Counts are 32-bit.
\<close>

fun search_unspent :: "('w, 'd) output_store \<Rightarrow> search_cfg \<Rightarrow> 'w \<Rightarrow> nat \<Rightarrow> f64 option \<Rightarrow>
    scored_member list \<Rightarrow> err + scored_member list" where
  "search_unspent O' cfg w 0 currentFrom unspent = Inr unspent"
| "search_unspent O' cfg w (Suc n) currentFrom unspent =
     (if (of_nat (length unspent) :: 32 word) < Limit cfg then
        let remaining = Limit cfg - of_nat (length unspent);
            batchSize = (if remaining * 4 < 100 then 100 else remaining * 4)
        in rbind (st_Search (os_Store O') (cfg\<lparr>Limit := batchSize, From := currentFrom\<rparr>) w) (\<lambda>results.
           if results = [] then Inr unspent
           else rbind (filterSpent O' results w) (\<lambda>filtered.
             let unspent' = unspent @ filtered;
                 lastScore = Score (last results);
                 nextScore = f64_nextafter lastScore (if Reverse cfg then f64_ninf else f64_inf)
             in if (of_nat (length results) :: 32 word) < batchSize then Inr unspent'
                else search_unspent O' cfg w n (Some nextScore) unspent'))
      else Inr unspent)"

definition maxIterations :: nat where "maxIterations = 100"

definition Search :: "('w, 'd) output_store \<Rightarrow> out_cfg \<Rightarrow> ('w, scored_member list) rd" where
  "Search O' cfg w =
     (let prefixedCfg = (search_cfg.truncate cfg)\<lparr>Keys := map prefixKey (Keys cfg)\<rparr> in
      if \<not> FilterSpent cfg then st_Search (os_Store O') prefixedCfg w
      else if Limit cfg = 0 then
        rbind (st_Search (os_Store O') prefixedCfg w) (\<lambda>results. filterSpent O' results w)
      else rbind (search_unspent O' prefixedCfg w maxIterations (From cfg) [])
        (\<lambda>unspent. Inr (if (of_nat (length unspent) :: 32 word) > Limit cfg
                         then take (unat (Limit cfg)) unspent else unspent)))"

text \<open>One key of \<open>CheckMembership\<close>: members found before are skipped.\<close>

fun check_members :: "('w, 'd) output_store \<Rightarrow> 'w \<Rightarrow> bytes \<Rightarrow> bytes list \<Rightarrow> bytes set \<Rightarrow>
    err + scored_member list \<times> bytes set" where
  "check_members O' w key [] seen = Inr ([], seen)"
| "check_members O' w key (m # ms) seen =
     (if m \<in> seen then check_members O' w key ms seen
      else case st_ZScore (os_Store O') key m w of
             Inl e \<Rightarrow> if e = ErrKeyNotFound then check_members O' w key ms seen else Inl e
           | Inr sc \<Rightarrow> rbind (check_members O' w key ms (insert m seen))
                         (\<lambda>(rs, seen'). Inr (\<lparr>Member = m, Score = sc, Key = key\<rparr> # rs, seen')))"

fun check_keys :: "('w, 'd) output_store \<Rightarrow> 'w \<Rightarrow> bytes list \<Rightarrow> bytes list \<Rightarrow> bytes set \<Rightarrow>
    err + scored_member list" where
  "check_keys O' w [] ms seen = Inr []"
| "check_keys O' w (k # ks) ms seen =
     rbind (check_members O' w k ms seen) (\<lambda>(rs, seen').
     rbind (check_keys O' w ks ms seen') (\<lambda>rest. Inr (rs @ rest)))"

definition CheckMembership :: "('w, 'd) output_store \<Rightarrow> bytes list \<Rightarrow> bytes list \<Rightarrow>
    ('w, scored_member list) rd" where
  "CheckMembership O' keys members w = check_keys O' w (map prefixKey keys) members {}"

definition SearchBalance :: "('w, 'd) output_store \<Rightarrow> out_cfg \<Rightarrow> ('w, 64 word \<times> int) rd" where
  "SearchBalance O' cfg w =
     rbind (Search O' (cfg\<lparr>FilterSpent := True\<rparr>) w) (\<lambda>results.
     rbind (GetSatsBulk O' (map (\<lambda>r. op_from_bytes (os_sdk O') (Member r)) results) w) (\<lambda>sats.
     Inr (sum_list sats, int (length results))))"

section \<open>Loading\<close>

text \<open>Tag data: every \<open>dt:\<close> field, or the fields of the requested tags.\<close>

fun load_all_tags :: "'d json_codec \<Rightarrow> kv list \<Rightarrow> (bytes \<times> 'd option) list \<Rightarrow>
    err + (bytes \<times> 'd option) list" where
  "load_all_tags J [] m = Inr m"
| "load_all_tags J ((field, data) # fs) m =
     (if length fldData < length field \<and> take (length fldData) field = fldData
      then rbind (wrap_err ''failed to unmarshal tag'' (unmarshal_data J data))
             (\<lambda>v. load_all_tags J fs (AList.update (drop (length fldData) field) v m))
      else load_all_tags J fs m)"

fun load_tags :: "'d json_codec \<Rightarrow> kv list \<Rightarrow> bytes list \<Rightarrow> (bytes \<times> 'd option) list \<Rightarrow>
    err + (bytes \<times> 'd option) list" where
  "load_tags J fs [] m = Inr m"
| "load_tags J fs (tag # tags) m =
     (case map_of fs (fldData @ tag) of
        None \<Rightarrow> load_tags J fs tags m
      | Some data \<Rightarrow> rbind (wrap_err ''failed to unmarshal tag'' (unmarshal_data J data))
                       (\<lambda>v. load_tags J fs tags (AList.update tag v m)))"

text \<open>The flags of the configuration; a nil configuration loads everything but the spend.\<close>

definition want_block :: "out_cfg option \<Rightarrow> bool" where
  "want_block cfg = (case cfg of None \<Rightarrow> True | Some c \<Rightarrow> IncludeBlock c)"
definition want_events :: "out_cfg option \<Rightarrow> bool" where
  "want_events cfg = (case cfg of None \<Rightarrow> True | Some c \<Rightarrow> IncludeEvents c)"
definition want_sats :: "out_cfg option \<Rightarrow> bool" where
  "want_sats cfg = (case cfg of None \<Rightarrow> True | Some c \<Rightarrow> IncludeSats c)"
definition want_spend :: "out_cfg option \<Rightarrow> bool" where
  "want_spend cfg = (case cfg of None \<Rightarrow> False | Some c \<Rightarrow> IncludeSpend c)"
definition want_tags :: "out_cfg option \<Rightarrow> bytes list" where
  "want_tags cfg = (case cfg of None \<Rightarrow> [] | Some c \<Rightarrow> IncludeTags c)"

definition load_fields :: "'d json_codec \<Rightarrow> out_cfg option \<Rightarrow> kv list \<Rightarrow> 'd indexed_output \<Rightarrow>
    err + 'd indexed_output" where
  "load_fields J cfg fs out =
     (let out1 = (case map_of fs fldMerkle of
                    Some ms \<Rightarrow>
                      if want_block cfg \<and> 12 \<le> length ms
                      then out\<lparr>io_BlockHeight := Some (get_u32 (take 4 ms)),
                              io_BlockIdx := Some (get_u64 (take 8 (drop 4 ms)))\<rparr>
                      else out
                  | None \<Rightarrow> out)
      in rbind (case map_of fs fldEvent of
                  Some ev \<Rightarrow>
                    if want_events cfg
                    then rbind (wrap_err ''failed to unmarshal events'' (unmarshal_events J ev))
                           (\<lambda>evs. Inr (out1\<lparr>io_Events := evs\<rparr>))
                    else Inr out1
                | None \<Rightarrow> Inr out1)
           (\<lambda>out2.
             if fs = [] then Inr out2
             else if cfg = None \<or> ''*'' \<in> set (want_tags cfg) then
               rbind (load_all_tags J fs []) (\<lambda>m. Inr (out2\<lparr>io_Data := Some m\<rparr>))
             else if want_tags cfg \<noteq> [] then
               rbind (load_tags J fs (want_tags cfg) []) (\<lambda>m. Inr (out2\<lparr>io_Data := Some m\<rparr>))
             else Inr out2))"

definition empty_output :: "outpoint \<Rightarrow> 'd indexed_output" where
  "empty_output op = \<lparr>io_Outpoint = op, io_Score = 0, io_Satoshis = None, io_BlockHeight = None,
     io_BlockIdx = None, io_SpendTxid = None, io_Events = [], io_Data = None, io_Owners = []\<rparr>"

text \<open>One outpoint of \<open>loadOutputsWithScores\<close>.\<close>

definition load_one :: "('w, 'd) output_store \<Rightarrow> 'w \<Rightarrow> out_cfg option \<Rightarrow> f64 option \<Rightarrow>
    64 word option \<Rightarrow> txid option \<Rightarrow> outpoint option \<Rightarrow> err + 'd indexed_output option" where
  "load_one O' w cfg score sats spend op =
     (case op of
        None \<Rightarrow> Inr None
      | Some op \<Rightarrow>
          let out = (empty_output op)\<lparr>io_Score := (case score of None \<Rightarrow> 0 | Some s \<Rightarrow> s),
                      io_Satoshis := sats, io_SpendTxid := spend\<rparr>
          in if want_block cfg \<or> want_events cfg \<or> want_tags cfg \<noteq> []
             then rbind (st_HGetAll (os_Store O') (KeyOutHash (os_sdk O') op) w)
                    (\<lambda>fs. rbind (load_fields (os_json O') cfg fs out) (\<lambda>out'. Inr (Some out')))
             else Inr (Some out))"

fun load_each :: "('w, 'd) output_store \<Rightarrow> 'w \<Rightarrow> out_cfg option \<Rightarrow> f64 list option \<Rightarrow>
    64 word list option \<Rightarrow> txid option list option \<Rightarrow> nat \<Rightarrow> outpoint option list \<Rightarrow>
    err + 'd indexed_output option list" where
  "load_each O' w cfg scores sats spends i [] = Inr []"
| "load_each O' w cfg scores sats spends i (op # ops) =
     rbind (load_one O' w cfg
              (case scores of None \<Rightarrow> None | Some sc \<Rightarrow> if i < length sc then Some (sc ! i) else None)
              (map_option (\<lambda>xs. xs ! i) sats)
              (case spends of None \<Rightarrow> None | Some xs \<Rightarrow> xs ! i) op)
       (\<lambda>out. rbind (load_each O' w cfg scores sats spends (Suc i) ops) (\<lambda>outs. Inr (out # outs)))"

definition loadOutputsWithScores :: "('w, 'd) output_store \<Rightarrow> outpoint option list \<Rightarrow> f64 list option \<Rightarrow>
    out_cfg option \<Rightarrow> ('w, 'd indexed_output option list) rd" where
  "loadOutputsWithScores O' ops scores cfg w =
     (if ops = [] then Inr []
      else rbind (if want_sats cfg then rbind (GetSatsBulk O' ops w) (\<lambda>x. Inr (Some x)) else Inr None) (\<lambda>sats.
           rbind (if want_spend cfg then rbind (GetSpends O' ops w) (\<lambda>x. Inr (Some x)) else Inr None) (\<lambda>spends.
           load_each O' w cfg scores sats spends 0 ops)))"

definition LoadOutputs :: "('w, 'd) output_store \<Rightarrow> outpoint option list \<Rightarrow> out_cfg option \<Rightarrow>
    ('w, 'd indexed_output option list) rd" where
  "LoadOutputs O' ops cfg w = loadOutputsWithScores O' ops None cfg w"

definition LoadOutput :: "('w, 'd) output_store \<Rightarrow> outpoint \<Rightarrow> out_cfg option \<Rightarrow>
    ('w, 'd indexed_output option) rd" where
  "LoadOutput O' op cfg w =
     rbind (LoadOutputs O' [Some op] cfg w) (\<lambda>outs. Inr (case outs of [] \<Rightarrow> None | out # _ \<Rightarrow> out))"

definition LoadOutputsFromResults :: "('w, 'd) output_store \<Rightarrow> scored_member list \<Rightarrow> out_cfg option \<Rightarrow>
    ('w, 'd indexed_output option list) rd" where
  "LoadOutputsFromResults O' results cfg w =
     (if results = [] then Inr []
      else loadOutputsWithScores O' (map (\<lambda>r. op_from_bytes (os_sdk O') (Member r)) results)
             (Some (map Score results)) cfg w)"

text \<open>The output numbers that \<open>LoadOutputsByTxid\<close> reads out of the scanned keys.\<close>

fun scan_vouts :: "kv list \<Rightarrow> 32 word list \<Rightarrow> 32 word list" where
  "scan_vouts [] seen = []"
| "scan_vouts ((k, v) # kvs) seen =
     (if length k < 38 then scan_vouts kvs seen
      else let vout = get_u32 (take 4 (drop 34 k)) in
           if vout \<in> set seen then scan_vouts kvs seen else vout # scan_vouts kvs (vout # seen))"

definition LoadOutputsByTxid :: "('w, 'd) output_store \<Rightarrow> txid \<Rightarrow> out_cfg option \<Rightarrow>
    ('w, 'd indexed_output option list) rd" where
  "LoadOutputsByTxid O' txid cfg w =
     rbind (st_Scan (os_Store O') (KeyTxidPrefix txid) 0 w) (\<lambda>kvs.
       LoadOutputs O' (map (\<lambda>v. Some \<lparr>op_txid = txid, op_index = v\<rparr>) (scan_vouts kvs [])) cfg w)"

definition GetEvents :: "('w, 'd) output_store \<Rightarrow> outpoint \<Rightarrow> ('w, bytes list) rd" where
  "GetEvents O' op w =
     (case st_HGet (os_Store O') (KeyOutHash (os_sdk O') op) fldEvent w of
        Inl e \<Rightarrow> if e = ErrKeyNotFound then Inr [] else Inl e
      | Inr b \<Rightarrow> unmarshal_events (os_json O') b)"

section \<open>Rollback\<close>

text \<open>The consumed inputs recorded in the \<open>in:\<close> fields, 36 bytes each, by their string form.\<close>

fun split36 :: "nat \<Rightarrow> bytes \<Rightarrow> bytes list" where
  "split36 0 b = []"
| "split36 (Suc n) b = (if 36 \<le> length b then take 36 b # split36 n (drop 36 b) else [])"

definition add_input :: "sdk \<Rightarrow> bytes \<Rightarrow> (bytes \<times> outpoint) list \<Rightarrow> (bytes \<times> outpoint) list" where
  "add_input K b m =
     (case op_from_bytes K b of None \<Rightarrow> m | Some input \<Rightarrow> AList.update (op_string K input) input m)"

definition field_inputs :: "sdk \<Rightarrow> kv list \<Rightarrow> (bytes \<times> outpoint) list \<Rightarrow> (bytes \<times> outpoint) list" where
  "field_inputs K fs m =
     fold (\<lambda>(field, data) m.
       if length fldInputs < length field \<and> take (length fldInputs) field = fldInputs
       then fold (add_input K) (split36 (length data) data) m else m) fs m"

fun inputs_to_unspend :: "('w, 'd) output_store \<Rightarrow> 'w \<Rightarrow> 'd indexed_output option list \<Rightarrow>
    (bytes \<times> outpoint) list \<Rightarrow> err + (bytes \<times> outpoint) list" where
  "inputs_to_unspend O' w [] m = Inr m"
| "inputs_to_unspend O' w (None # outs) m = inputs_to_unspend O' w outs m"
| "inputs_to_unspend O' w (Some out # outs) m =
     rbind (wrap_err ''failed to get fields''
              (st_HGetAll (os_Store O') (KeyOutHash (os_sdk O') (io_Outpoint out)) w))
       (\<lambda>fs. inputs_to_unspend O' w outs (field_inputs (os_sdk O') fs m))"

text \<open>Step 2: the inputs are unspent again and leave the spent indexes of their events.\<close>

definition unspend_input :: "('w, 'd) output_store \<Rightarrow> outpoint \<Rightarrow> ('w, err, unit) sm" where
  "unspend_input O' input =
     (let S = os_Store O'; opBytes = op_bytes (os_sdk O') input in
      sseq (case os_SpendService O' of
              None \<Rightarrow> sret ()
            | Some svc \<Rightarrow> swrap ''failed to un-spend via resolver'' (svc_DeleteSpend svc input))
     (sseq (swrap ''failed to un-spend'' (st_HDel S KeySpends [opBytes]))
     (sbind (swrap ''failed to get events for input'' (sread (GetEvents O' input)))
        (\<lambda>events. sfor (\<lambda>event. swrap ''failed to remove from spent index''
                      (st_ZRem S (KeyEventSpent event) [opBytes])) events))))"

text \<open>Steps 3 to 5: the event indexes, the hash fields and the references of one output.\<close>

definition erase_output :: "('w, 'd) output_store \<Rightarrow> outpoint \<Rightarrow> ('w, err, unit) sm" where
  "erase_output O' op =
     (let S = os_Store O'; opBytes = op_bytes (os_sdk O') op; hashKey = KeyOutHash (os_sdk O') op in
      sbind (swrap ''failed to get events'' (sread (GetEvents O' op))) (\<lambda>events.
      sseq (sfor (\<lambda>event. sseq (swrap ''failed to remove event'' (st_ZRem S (KeyEvent event) [opBytes]))
                    (swrap ''failed to remove event spend'' (st_ZRem S (KeyEventSpent event) [opBytes])))
              events)
     (sbind (swrap ''failed to get hash fields'' (sread (st_HGetAll S hashKey))) (\<lambda>fs.
      sseq (sfor (\<lambda>(field, v). swrap ''failed to delete hash field'' (st_HDel S hashKey [field])) fs)
     (sseq (case os_SpendService O' of
              None \<Rightarrow> sret ()
            | Some svc \<Rightarrow> swrap ''failed to remove spend reference via resolver'' (svc_DeleteSpend svc op))
     (sseq (swrap ''failed to remove spend reference'' (st_HDel S KeySpends [opBytes]))
           (swrap ''failed to remove sats reference'' (st_HDel S KeySatoshis [opBytes]))))))))"

text \<open>
  The recursion into the spenders has no bound in the code; \<open>None\<close> is running out of fuel.
\<close>

fun each_output :: "('x \<Rightarrow> 'w \<Rightarrow> ((err + unit) \<times> 'w) option) \<Rightarrow> 'x list \<Rightarrow> 'w \<Rightarrow>
    ((err + unit) \<times> 'w) option" where
  "each_output f [] w = Some (Inr (), w)"
| "each_output f (x # xs) w =
     (case f x w of
        None \<Rightarrow> None
      | Some (Inl e, w') \<Rightarrow> Some (Inl e, w')
      | Some (Inr u, w') \<Rightarrow> each_output f xs w')"

definition rollback_spender :: "('w, 'd) output_store \<Rightarrow> (txid \<Rightarrow> 'w \<Rightarrow> ((err + unit) \<times> 'w) option) \<Rightarrow>
    'd indexed_output option \<Rightarrow> 'w \<Rightarrow> ((err + unit) \<times> 'w) option" where
  "rollback_spender O' rollback output w =
     (case output of
        None \<Rightarrow> Some (Inr (), w)
      | Some out \<Rightarrow>
          (case GetSpend O' (io_Outpoint out) w of
             Inl e \<Rightarrow> Some (Inl (ErrOther ''failed to get spend''), w)
           | Inr None \<Rightarrow> Some (Inr (), w)
           | Inr (Some spendTxid) \<Rightarrow>
               map_option (\<lambda>(r, w'). (wrap_err ''failed to rollback spending tx'' r, w'))
                 (rollback spendTxid w)))"

primrec Rollback :: "nat \<Rightarrow> ('w, 'd) output_store \<Rightarrow> txid \<Rightarrow> 'w \<Rightarrow> ((err + unit) \<times> 'w) option" where
  "Rollback 0 O' txid w = None"
| "Rollback (Suc n) O' txid w =
     (case LoadOutputsByTxid O' txid None w of
        Inl e \<Rightarrow> Some (Inl (ErrOther ''failed to load outputs''), w)
      | Inr outputs \<Rightarrow>
          (case inputs_to_unspend O' w outputs [] of
             Inl e \<Rightarrow> Some (Inl e, w)
           | Inr inputs \<Rightarrow>
               (case each_output (rollback_spender O' (Rollback n O')) outputs w of
                  None \<Rightarrow> None
                | Some (Inl e, w') \<Rightarrow> Some (Inl e, w')
                | Some (Inr u, w') \<Rightarrow>
                    Some (sseq (sfor (\<lambda>(s, input). unspend_input O' input) inputs)
                      (sfor (\<lambda>output. case output of None \<Rightarrow> sret ()
                               | Some out \<Rightarrow> erase_output O' (io_Outpoint out)) outputs) w'))))"

section \<open>Logs\<close>

definition Log :: "('w, 'd) output_store \<Rightarrow> bytes \<Rightarrow> bytes \<Rightarrow> f64 \<Rightarrow> ('w, err, unit) sm" where
  "Log O' key member score = st_ZAdd (os_Store O') (KeyEvent key) [scored member score]"

definition LogScore :: "('w, 'd) output_store \<Rightarrow> bytes \<Rightarrow> bytes \<Rightarrow> ('w, f64) rd" where
  "LogScore O' key member w = st_ZScore (os_Store O') (KeyEvent key) member w"

end
