(* ===== verification/OutputLaws.thy ===== *)
theory OutputLaws
  imports OutputStore
begin

text \<open>
  What the output store guarantees over any store that obeys the laws of \<open>StoreLaws\<close>, any
  library that obeys \<open>sdk_laws\<close> and any JSON codec that reads back what it wrote. \<open>okop\<close>
  says which outpoints keep apart from the two bulk hashes and from each other.
\<close>

locale output_env =
  store_laws "os_Store O'" ok hv zv sv kvs hsep zok + sdk_laws "os_sdk O'"
  for O' :: "('w, 'd) output_store"
    and ok :: "'w \<Rightarrow> bool"
    and hv :: "'w \<Rightarrow> bytes \<Rightarrow> bytes \<Rightarrow> bytes option"
    and zv :: "'w \<Rightarrow> bytes \<Rightarrow> bytes \<Rightarrow> f64 option"
    and sv :: "'w \<Rightarrow> bytes \<Rightarrow> bytes set"
    and kvs :: "'w \<Rightarrow> bytes \<Rightarrow> bytes option"
    and hsep :: "bytes \<Rightarrow> bytes \<Rightarrow> bool"
    and zok :: "bytes \<Rightarrow> bool" +
  fixes okop :: "outpoint \<Rightarrow> bool"
  assumes okop_wf: "okop op \<Longrightarrow> wf_op op"
    and okop_sep: "okop p \<Longrightarrow> okop q \<Longrightarrow> p \<noteq> q \<Longrightarrow>
          hsep (op_bytes (os_sdk O') p) (op_bytes (os_sdk O') q)"
    and okop_sats: "okop p \<Longrightarrow> hsep (op_bytes (os_sdk O') p) KeySatoshis"
    and okop_spends: "okop p \<Longrightarrow> hsep (op_bytes (os_sdk O') p) KeySpends"
    and sats_spends: "hsep KeySatoshis KeySpends"
    and events_json: "marshal_events (os_json O') es = Inr b \<Longrightarrow> unmarshal_events (os_json O') b = Inr es"
    and data_json: "marshal_data (os_json O') d = Inr b \<Longrightarrow> unmarshal_data (os_json O') b = Inr (Some d)"
begin

abbreviation ob :: "outpoint \<Rightarrow> bytes" where
  "ob op \<equiv> op_bytes (os_sdk O') op"

section \<open>Writes to one hash, and to sorted sets\<close>

definition hash_step :: "bytes \<Rightarrow> (bytes \<rightharpoonup> bytes) \<Rightarrow> 'w \<Rightarrow> 'w \<Rightarrow> bool" where
  "hash_step k h w w' \<longleftrightarrow> ok w' \<and> zv w' = zv w \<and> sv w' = sv w \<and> kvs w' = kvs w \<and> hv w' k = h \<and>
     (\<forall>k'. hsep k k' \<longrightarrow> hv w' k' = hv w k')"

lemma hash_step_refl: "ok w \<Longrightarrow> hash_step k (hv w k) w w"
  by (simp add: hash_step_def)

lemma hash_step_trans: "hash_step k h w w' \<Longrightarrow> hash_step k h' w' w'' \<Longrightarrow> hash_step k h' w w''"
  by (simp add: hash_step_def)

lemma HSet_step: "ok w \<Longrightarrow> \<exists>w'. st_HSet (os_Store O') k f v w = (Inr (), w') \<and>
    hash_step k ((hv w k)(f \<mapsto> v)) w w'"
  using HSet_law[of w k f v] by (auto simp: hash_step_def)

lemma HDel_step: "ok w \<Longrightarrow> \<exists>w'. st_HDel (os_Store O') k [f] w = (Inr (), w') \<and>
    hash_step k ((hv w k)(f := None)) w w'"
  using HDel_law[of w k f] by (auto simp: hash_step_def)

text \<open>One member set to one score in a family of sorted sets.\<close>

definition zset_step :: "bytes set \<Rightarrow> bytes \<Rightarrow> f64 option \<Rightarrow> 'w \<Rightarrow> 'w \<Rightarrow> bool" where
  "zset_step ks m sc w w' \<longleftrightarrow> ok w' \<and> hv w' = hv w \<and> sv w' = sv w \<and> kvs w' = kvs w \<and>
     (\<forall>k. zok k \<longrightarrow> zv w' k = (if k \<in> ks then (zv w k)(m := sc) else zv w k))"

lemma zset_step_refl: "ok w \<Longrightarrow> zset_step {} m sc w w"
  by (simp add: zset_step_def)

lemma zset_step_trans:
  "zset_step ks m sc w w' \<Longrightarrow> zset_step ks' m sc w' w'' \<Longrightarrow> zset_step (ks \<union> ks') m sc w w''"
  by (auto simp: zset_step_def)

lemma ZAdd_step: "ok w \<Longrightarrow> zok k \<Longrightarrow> f64_plain sc \<Longrightarrow>
    \<exists>w'. st_ZAdd (os_Store O') k [scored m sc] w = (Inr (), w') \<and> zset_step {k} m (Some sc) w w'"
  using ZAdd_law[of w k sc m] by (auto simp: zset_step_def)

lemma ZRem_step: "ok w \<Longrightarrow> zok k \<Longrightarrow>
    \<exists>w'. st_ZRem (os_Store O') k [m] w = (Inr (), w') \<and> zset_step {k} m None w w'"
  using ZRem_law[of w k m] by (auto simp: zset_step_def)

lemma index_loop:
  assumes "\<And>e w. e \<in> set es \<Longrightarrow> ok w \<Longrightarrow> \<exists>w'. g e w = (Inr (), w') \<and> zset_step {f e} m sc w w'"
    and "ok w"
  shows "\<exists>w'. sfor g es w = (Inr (), w') \<and> zset_step (f ` set es) m sc w w'"
  using assms
proof (induction es arbitrary: w)
  case Nil
  then show ?case by (simp add: sm_apply zset_step_refl)
next
  case (Cons e es)
  obtain w1 where w1: "g e w = (Inr (), w1)" "zset_step {f e} m sc w w1"
    using Cons.prems(1)[of e w] Cons.prems(2) by auto
  then have "ok w1" by (simp add: zset_step_def)
  then obtain w2 where "sfor g es w1 = (Inr (), w2)" "zset_step (f ` set es) m sc w1 w2"
    using Cons.IH[of w1] Cons.prems(1) by auto
  with w1 zset_step_trans[OF w1(2)] show ?case by (fastforce simp: sm_apply)
qed

lemma index_events_step:
  assumes "ok w" "f64_plain sc" "\<forall>e\<in>set es. zok (f e)"
  shows "\<exists>w'. index_events O' f m sc es w = (Inr (), w') \<and> zset_step (f ` set es) m (Some sc) w w'"
  unfolding index_events_def by (rule index_loop) (use assms ZAdd_step in auto)

lemma index_spent_step:
  assumes "ok w" "f64_plain sc" "\<forall>e\<in>set es. zok (KeyEventSpent e)"
  shows "\<exists>w'. IndexSpentEvents O' op es sc w = (Inr (), w') \<and>
    zset_step (KeyEventSpent ` set es) (ob op) (Some sc) w w'"
  unfolding IndexSpentEvents_def
proof (rule index_loop)
  show "\<exists>w'. swrap ''failed to add to spent index'' (st_ZAdd (os_Store O') (KeyEventSpent e)
      [scored (ob op) sc]) w = (Inr (), w') \<and> zset_step {KeyEventSpent e} (ob op) (Some sc) w w'"
    if "e \<in> set es" "ok w" for e w
    using ZAdd_step[OF that(2) bspec[OF assms(3) that(1)] assms(2), of "ob op"]
    by (fastforce simp: swrap_def wrap_err_def)
qed (rule assms(1))

section \<open>Saving an output\<close>

lemma save_event_list_step:
  assumes "ok w" "marshal_events (os_json O') es = Inr b" "es \<noteq> []"
  shows "\<exists>w'. save_event_list O' k es w = (Inr (), w') \<and> hash_step k ((hv w k)(fldEvent \<mapsto> b)) w w'"
  using HSet_step[OF assms(1), of k fldEvent b] assms(2,3) by (auto simp: save_event_list_def sm_apply)

text \<open>The encoded tag data: what the tag fields of the hash hold after saving.\<close>

definition tags_ok :: "(bytes \<times> 'd option) list \<Rightarrow> bool" where
  "tags_ok m \<longleftrightarrow> distinct (map fst m) \<and>
     (\<forall>t d. (t, Some d) \<in> set m \<longrightarrow> (\<exists>b. marshal_data (os_json O') d = Inr b))"

definition tag_bytes :: "'d \<Rightarrow> bytes" where
  "tag_bytes d = (case marshal_data (os_json O') d of Inl _ \<Rightarrow> [] | Inr b \<Rightarrow> b)"

definition tag_fields :: "(bytes \<times> 'd option) list \<Rightarrow> (bytes \<rightharpoonup> bytes) \<Rightarrow> bytes \<rightharpoonup> bytes" where
  "tag_fields m h = fold (\<lambda>(t, d) h. case d of None \<Rightarrow> h | Some d \<Rightarrow> h(fldData @ t \<mapsto> tag_bytes d)) m h"

lemma save_tags_step:
  assumes "ok w" "\<forall>t d. (t, Some d) \<in> set m \<longrightarrow> (\<exists>b. marshal_data (os_json O') d = Inr b)"
  shows "\<exists>w'. sfor (save_tag O' k) m w = (Inr (), w') \<and> hash_step k (tag_fields m (hv w k)) w w'"
  using assms
proof (induction m arbitrary: w)
  case Nil
  then show ?case by (simp add: sm_apply tag_fields_def hash_step_refl)
next
  case (Cons td m)
  obtain t d where td: "td = (t, d)" by (cases td)
  obtain w1 where w1: "save_tag O' k td w = (Inr (), w1)"
      "hash_step k (tag_fields [td] (hv w k)) w w1"
  proof (cases d)
    case None
    then show ?thesis
      using that[of w] hash_step_refl[OF Cons.prems(1)] by (simp add: td save_tag_def sm_apply tag_fields_def)
  next
    case (Some x)
    then obtain b where "marshal_data (os_json O') x = Inr b" using Cons.prems(2) td by fastforce
    then show ?thesis
      using HSet_step[OF Cons.prems(1), of k "fldData @ t" b] Some that
      by (auto simp: td save_tag_def sm_apply tag_fields_def tag_bytes_def)
  qed
  then have "ok w1" "hv w1 k = tag_fields [td] (hv w k)" by (simp_all add: hash_step_def)
  moreover obtain w2 where "sfor (save_tag O' k) m w1 = (Inr (), w2)"
      "hash_step k (tag_fields m (hv w1 k)) w1 w2"
    using Cons.IH[OF \<open>ok w1\<close>] Cons.prems(2) by auto
  ultimately show ?case
    using w1 hash_step_trans[OF w1(2)] by (auto simp: sm_apply tag_fields_def)
qed

text \<open>What the fields of the output's hash are after \<open>SaveOutput\<close>.\<close>

definition merkle_field :: "'d indexed_output \<Rightarrow> (bytes \<rightharpoonup> bytes) \<Rightarrow> bytes \<rightharpoonup> bytes" where
  "merkle_field out h =
     (case io_BlockHeight out of
        None \<Rightarrow> h
      | Some x \<Rightarrow> if x > 0 then h(fldMerkle \<mapsto> put_u32 x @
                    put_u64 (case io_BlockIdx out of None \<Rightarrow> 0 | Some i \<Rightarrow> i)) else h)"

definition data_list :: "'d indexed_output \<Rightarrow> (bytes \<times> 'd option) list" where
  "data_list out = (case io_Data out of None \<Rightarrow> [] | Some m \<Rightarrow> m)"

definition output_fields :: "'d indexed_output \<Rightarrow> bytes \<Rightarrow> (bytes \<rightharpoonup> bytes) \<Rightarrow> bytes \<rightharpoonup> bytes" where
  "output_fields out evb h = tag_fields (data_list out) (merkle_field out (h(fldEvent \<mapsto> evb)))"

text \<open>An output that can be saved: its events and data encode, its event names are admissible.\<close>

definition savable :: "'d indexed_output \<Rightarrow> bytes \<Rightarrow> bool" where
  "savable out evb \<longleftrightarrow> okop (io_Outpoint out) \<and> tags_ok (data_list out) \<and>
     marshal_events (os_json O') (output_events (os_sdk O') out) = Inr evb \<and>
     (\<forall>e\<in>set (output_events (os_sdk O') out). zok (KeyEvent e))"

text \<open>The effect of saving: one hash, one satoshi entry, the event indexes.\<close>

definition saved :: "'d indexed_output \<Rightarrow> bytes \<Rightarrow> 64 word \<Rightarrow> f64 \<Rightarrow> 'w \<Rightarrow> 'w \<Rightarrow> bool" where
  "saved out evb sats score w w' \<longleftrightarrow>
     ok w' \<and> hv w' (ob (io_Outpoint out)) = output_fields out evb (hv w (ob (io_Outpoint out))) \<and>
     hv w' KeySatoshis = (hv w KeySatoshis)(ob (io_Outpoint out) \<mapsto> put_u64 sats) \<and>
     hv w' KeySpends = hv w KeySpends \<and>
     (\<forall>p. okop p \<longrightarrow> p \<noteq> io_Outpoint out \<longrightarrow> hv w' (ob p) = hv w (ob p)) \<and>
     (\<forall>k. zok k \<longrightarrow> zv w' k =
        (if k \<in> KeyEvent ` set (output_events (os_sdk O') out)
         then (zv w k)(ob (io_Outpoint out) \<mapsto> score) else zv w k))"

lemma SaveOutput_ok:
  assumes "ok w" "savable out evb" "f64_plain score"
  shows "\<exists>w'. SaveOutput O' out sats score w = (Inr (), w') \<and> saved out evb sats score w w'"
proof -
  let ?op = "io_Outpoint out"
  let ?k = "ob ?op"
  let ?es = "output_events (os_sdk O') out"
  note sv = assms(2)[unfolded savable_def]
  have ne: "?es \<noteq> []" by (simp add: output_events_def)
  obtain w1 where w1: "save_event_list O' ?k ?es w = (Inr (), w1)"
      "hash_step ?k ((hv w ?k)(fldEvent \<mapsto> evb)) w w1"
    using save_event_list_step[OF assms(1), of ?es evb ?k] sv ne by blast
  have k1: "ok w1" "hv w1 ?k = (hv w ?k)(fldEvent \<mapsto> evb)" using w1(2) by (simp_all add: hash_step_def)
  let ?m = "case io_BlockHeight out of None \<Rightarrow> sret ()
       | Some h \<Rightarrow> if h > 0 then st_HSet (os_Store O') ?k fldMerkle
           (put_u32 h @ put_u64 (case io_BlockIdx out of None \<Rightarrow> 0 | Some i \<Rightarrow> i)) else sret ()"
  obtain w2 where w2: "?m w1 = (Inr (), w2)" "hash_step ?k (merkle_field out (hv w1 ?k)) w1 w2"
  proof (cases "\<exists>h. io_BlockHeight out = Some h \<and> h > 0")
    case True
    then obtain h where h: "io_BlockHeight out = Some h" "h > 0" by blast
    then show ?thesis
      using HSet_step[OF k1(1), of ?k fldMerkle "put_u32 h @ put_u64 (case io_BlockIdx out of None \<Rightarrow> 0 | Some i \<Rightarrow> i)"]
        that by (auto simp: merkle_field_def)
  next
    case False
    then have "merkle_field out (hv w1 ?k) = hv w1 ?k" "?m w1 = (Inr (), w1)"
      by (auto simp: merkle_field_def sm_apply split: option.splits)
    then show ?thesis using that[of w1] hash_step_refl[OF k1(1), of ?k] by simp
  qed
  have k2: "ok w2" "hv w2 ?k = merkle_field out (hv w1 ?k)" using w2(2) by (simp_all add: hash_step_def)
  obtain w3 where w3: "sfor (save_tag O' ?k) (data_list out) w2 = (Inr (), w3)"
      "hash_step ?k (tag_fields (data_list out) (hv w2 ?k)) w2 w3"
    using save_tags_step[OF k2(1), of "data_list out" ?k] sv by (auto simp: tags_ok_def)
  have h3: "hash_step ?k (output_fields out evb (hv w ?k)) w w3"
    using hash_step_trans[OF hash_step_trans[OF w1(2) w2(2)] w3(2)] k1 k2 by (simp add: output_fields_def)
  then have "ok w3" by (simp add: hash_step_def)
  then obtain w4 where w4: "st_HSet (os_Store O') KeySatoshis ?k (put_u64 sats) w3 = (Inr (), w4)"
      "hash_step KeySatoshis ((hv w3 KeySatoshis)(?k \<mapsto> put_u64 sats)) w3 w4"
    using HSet_step by blast
  have "ok w4" using w4(2) by (simp add: hash_step_def)
  then obtain w5 where w5: "index_events O' KeyEvent ?k score ?es w4 = (Inr (), w5)"
      "zset_step (KeyEvent ` set ?es) ?k (Some score) w4 w5"
    using index_events_step[OF _ assms(3), of w4 ?es KeyEvent ?k] sv by blast
  have run: "SaveOutput O' out sats score w = (Inr (), w5)"
    using w1(1) w2(1) w3(1) w4(1) w5(1)
    by (simp add: SaveOutput_def Let_def KeyOutHash_def sm_apply data_list_def)
  have fr: "hsep ?k KeySatoshis" "hsep ?k KeySpends" "hsep KeySatoshis ?k"
    using okop_sats okop_spends hsep_sym sv by blast+
  have "hv w5 (ob p) = hv w (ob p)" if p: "okop p" "p \<noteq> ?op" for p
  proof -
    have "hsep ?k (ob p)" "hsep KeySatoshis (ob p)"
      using okop_sep[of ?op p] okop_sats hsep_sym p sv by blast+
    then show ?thesis using h3 w4(2) w5(2) by (simp add: hash_step_def zset_step_def)
  qed
  moreover have "hv w5 KeySpends = hv w KeySpends"
    using h3 w4(2) w5(2) fr sats_spends by (simp add: hash_step_def zset_step_def)
  moreover have "hv w5 KeySatoshis = (hv w KeySatoshis)(?k \<mapsto> put_u64 sats)"
    using h3 w4(2) w5(2) fr by (simp add: hash_step_def zset_step_def)
  moreover have "hv w5 ?k = output_fields out evb (hv w ?k)"
    using h3 w4(2) w5(2) fr by (simp add: hash_step_def zset_step_def)
  moreover have "zv w4 = zv w" using h3 w4(2) by (simp add: hash_step_def)
  ultimately have "saved out evb sats score w w5"
    using w5(2) unfolding saved_def zset_step_def by simp
  with run show ?thesis by blast
qed

section \<open>Loading what was saved\<close>

lemma fld_facts [simp]:
  "fldEvent \<noteq> fldMerkle" "fldMerkle \<noteq> fldEvent" "fldData @ t \<noteq> fldEvent" "fldData @ t \<noteq> fldMerkle"
  "fldEvent \<noteq> fldData @ t" "fldMerkle \<noteq> fldData @ t"
  by (simp_all add: fldEvent_def fldMerkle_def fldData_def)

lemma tag_fields_other: "(\<And>t. f \<noteq> fldData @ t) \<Longrightarrow> tag_fields m h f = h f"
proof (induction m arbitrary: h)
  case (Cons td m)
  obtain t d where td: "td = (t, d)" by (cases td)
  have "tag_fields (td # m) h f = tag_fields m (case d of None \<Rightarrow> h | Some d \<Rightarrow> h(fldData @ t \<mapsto> tag_bytes d)) f"
    by (simp add: tag_fields_def td)
  also have "\<dots> = h f" using Cons by (simp split: option.splits)
  finally show ?case .
qed (simp add: tag_fields_def)

lemma tag_fields_tag:
  "distinct (map fst m) \<Longrightarrow> tag_fields m h (fldData @ t) =
    (case map_of m t of Some (Some d) \<Rightarrow> Some (tag_bytes d) | _ \<Rightarrow> h (fldData @ t))"
proof (induction m arbitrary: h)
  case (Cons td m)
  obtain t' d where td: "td = (t', d)" by (cases td)
  have eq: "tag_fields (td # m) h = tag_fields m (case d of None \<Rightarrow> h | Some d \<Rightarrow> h(fldData @ t' \<mapsto> tag_bytes d))"
    by (simp add: tag_fields_def td)
  have "map_of m t' = None" using Cons.prems td by (simp add: map_of_eq_None_iff)
  then show ?case
    using Cons.IH[of "case d of None \<Rightarrow> h | Some d \<Rightarrow> h(fldData @ t' \<mapsto> tag_bytes d)"] Cons.prems td
    unfolding eq by (auto split: option.splits)
qed (simp add: tag_fields_def)

definition tag_value :: "bytes \<Rightarrow> 'd option" where
  "tag_value b = (case unmarshal_data (os_json O') b of Inl _ \<Rightarrow> None | Inr v \<Rightarrow> v)"

lemma load_all_tags_ok:
  assumes "distinct (map fst fs)"
    and "\<forall>t b. t \<noteq> [] \<longrightarrow> (fldData @ t, b) \<in> set fs \<longrightarrow> (\<exists>v. unmarshal_data (os_json O') b = Inr v)"
  shows "\<exists>m'. load_all_tags (os_json O') fs m = Inr m' \<and>
    (\<forall>t. map_of m' t = (case map_of fs (fldData @ t) of
        Some b \<Rightarrow> if t \<noteq> [] then Some (tag_value b) else map_of m t | None \<Rightarrow> map_of m t))"
  using assms
proof (induction fs arbitrary: m)
  case Nil
  then show ?case by simp
next
  case (Cons fb fs)
  obtain f b where fb: "fb = (f, b)" by (cases fb)
  have later: "\<forall>t b. t \<noteq> [] \<longrightarrow> (fldData @ t, b) \<in> set fs \<longrightarrow> (\<exists>v. unmarshal_data (os_json O') b = Inr v)"
    using Cons.prems(2) by simp
  have d: "distinct (map fst fs)" using Cons.prems(1) by simp
  note IH = Cons.IH[OF d later]
  have fresh: "map_of fs f = None" using Cons.prems(1) fb by (simp add: map_of_eq_None_iff)
  show ?case
  proof (cases "length fldData < length f \<and> take (length fldData) f = fldData")
    case True
    define t where "t = drop (length fldData) f"
    have f: "f = fldData @ t" "t \<noteq> []"
      using True append_take_drop_id[of "length fldData" f] by (auto simp: t_def)
    obtain v where v: "unmarshal_data (os_json O') b = Inr v"
      using Cons.prems(2) f fb by auto
    obtain m' where m': "load_all_tags (os_json O') fs (AList.update t v m) = Inr m'"
        "\<forall>u. map_of m' u = (case map_of fs (fldData @ u) of
           Some b \<Rightarrow> if u \<noteq> [] then Some (tag_value b) else map_of (AList.update t v m) u
         | None \<Rightarrow> map_of (AList.update t v m) u)"
      using IH[where m = "AList.update t v m"] by (elim exE conjE)
    have "load_all_tags (os_json O') (fb # fs) m = Inr m'"
      using True v m'(1) by (simp add: fb wrap_err_def t_def[symmetric])
    moreover have "tag_value b = v" by (simp add: tag_value_def v)
    ultimately show ?thesis
      using m'(2) fresh f by (auto simp: fb update_conv split: option.splits)
  next
    case False
    obtain m' where m': "load_all_tags (os_json O') fs m = Inr m'"
        "\<forall>u. map_of m' u = (case map_of fs (fldData @ u) of
           Some b \<Rightarrow> if u \<noteq> [] then Some (tag_value b) else map_of m u | None \<Rightarrow> map_of m u)"
      using IH[where m = m] by (elim exE conjE)
    have "u = []" if "f = fldData @ u" for u using False that by (cases u) auto
    then show ?thesis
      using m' False fresh by (auto simp: fb split: option.splits)
  qed
qed

lemma put_get_u32 [simp]: "get_u32 (put_u32 w) = w" "length (put_u32 w) = 4"
  by (simp_all add: get_u32_def put_u32_def be4_word)

lemma put_get_u64 [simp]: "get_u64 (put_u64 w) = w" "length (put_u64 w) = 8"
  using unsigned_less[where w = w and 'a = nat]
  by (simp_all add: get_u64_def put_u64_def be_nat_be_bytes)

text \<open>The parts of a freshly saved output that loading everything returns.\<close>

definition loaded_as :: "'d indexed_output \<Rightarrow> 64 word \<Rightarrow> 'd indexed_output \<Rightarrow> bool" where
  "loaded_as out sats out' \<longleftrightarrow>
     io_Outpoint out' = io_Outpoint out \<and> io_Satoshis out' = Some sats \<and>
     io_Events out' = output_events (os_sdk O') out \<and>
     (io_BlockHeight out', io_BlockIdx out') =
       (case io_BlockHeight out of
          Some h \<Rightarrow> if h > 0 then (Some h, Some (case io_BlockIdx out of None \<Rightarrow> 0 | Some i \<Rightarrow> i))
                    else (None, None)
        | None \<Rightarrow> (None, None)) \<and>
     (\<exists>m. io_Data out' = Some m \<and>
       (\<forall>t d. map_of m t = Some d \<longleftrightarrow> map_of (data_list out) t = Some d \<and> d \<noteq> None))"

lemma output_fields_at:
  assumes "tags_ok (data_list out)"
  shows "output_fields out evb Map.empty fldEvent = Some evb"
    "output_fields out evb Map.empty fldMerkle = merkle_field out Map.empty fldMerkle"
    "output_fields out evb Map.empty (fldData @ t) =
      (case map_of (data_list out) t of Some (Some d) \<Rightarrow> Some (tag_bytes d) | _ \<Rightarrow> None)"
  using assms unfolding output_fields_def tags_ok_def
  by (simp_all add: tag_fields_other tag_fields_tag merkle_field_def split: option.splits)

lemma tag_decodes:
  assumes "tags_ok m" "map_of m t = Some (Some d)"
  shows "unmarshal_data (os_json O') (tag_bytes d) = Inr (Some d)"
proof -
  obtain b where "marshal_data (os_json O') d = Inr b"
    using assms map_of_SomeD[OF assms(2)] by (auto simp: tags_ok_def)
  then show ?thesis using data_json by (simp add: tag_bytes_def)
qed

lemma load_fields_saved:
  assumes "tags_ok (data_list out)" "[] \<notin> fst ` set (data_list out)"
    and "marshal_events (os_json O') (output_events (os_sdk O') out) = Inr evb"
    and "distinct (map fst fs)" "map_of fs = output_fields out evb Map.empty"
    and "io_Outpoint o1 = io_Outpoint out" "io_Satoshis o1 = Some sats"
      "io_BlockHeight o1 = None" "io_BlockIdx o1 = None"
  shows "\<exists>out'. load_fields (os_json O') None fs o1 = Inr out' \<and> loaded_as out sats out'"
proof -
  note at = output_fields_at[OF assms(1)]
  have ev: "map_of fs fldEvent = Some evb" and ms: "map_of fs fldMerkle = merkle_field out Map.empty fldMerkle"
    by (simp_all add: assms(5) at)
  have ne: "fs \<noteq> []" using ev by auto
  have dec: "\<forall>t b. t \<noteq> [] \<longrightarrow> (fldData @ t, b) \<in> set fs \<longrightarrow> (\<exists>v. unmarshal_data (os_json O') b = Inr v)"
  proof (intro allI impI)
    fix t b assume "(fldData @ t, b) \<in> set fs"
    then have "map_of fs (fldData @ t) = Some b" using assms(4) by simp
    then obtain d where "map_of (data_list out) t = Some (Some d)" "b = tag_bytes d"
      by (auto simp: assms(5) at split: option.splits)
    then show "\<exists>v. unmarshal_data (os_json O') b = Inr v" using tag_decodes[OF assms(1)] by blast
  qed
  from load_all_tags_ok[OF assms(4) dec, of "[]"] obtain m
    where m: "load_all_tags (os_json O') fs [] = Inr m"
      "\<forall>t. map_of m t = (case map_of fs (fldData @ t) of
         Some b \<Rightarrow> if t \<noteq> [] then Some (tag_value b) else map_of [] t | None \<Rightarrow> map_of [] t)"
    by (elim exE conjE)
  have tags: "map_of m t = Some d \<longleftrightarrow> map_of (data_list out) t = Some d \<and> d \<noteq> None" for t d
  proof -
    have "map_of (data_list out) t = None" if "t = []"
      using assms(2) that by (simp add: map_of_eq_None_iff)
    moreover have "tag_value (tag_bytes d') = Some d'" if "map_of (data_list out) t = Some (Some d')" for d'
      using tag_decodes[OF assms(1) that] by (simp add: tag_value_def)
    ultimately show ?thesis
      using m(2) by (cases "map_of (data_list out) t") (auto simp: assms(5) at split: option.splits)
  qed
  let ?o2 = "case map_of fs fldMerkle of
      Some ms \<Rightarrow> if 12 \<le> length ms then o1\<lparr>io_BlockHeight := Some (get_u32 (take 4 ms)),
                    io_BlockIdx := Some (get_u64 (take 8 (drop 4 ms)))\<rparr> else o1
    | None \<Rightarrow> o1"
  let ?out = "?o2\<lparr>io_Events := output_events (os_sdk O') out, io_Data := Some m\<rparr>"
  have "load_fields (os_json O') None fs o1 = Inr ?out"
    using ne m(1) events_json[OF assms(3)]
    by (simp add: load_fields_def want_block_def want_events_def ev wrap_err_def Let_def
        split: option.splits)
  moreover have "loaded_as out sats ?out"
    using tags assms(6-9) unfolding loaded_as_def ms
    by (auto simp: merkle_field_def split: option.splits)
  ultimately show ?thesis by blast
qed

lemma GetSatsBulk_one:
  "GetSatsBulk O' [Some op] w = Inr [case hv w KeySatoshis (ob op) of None \<Rightarrow> 0
     | Some b \<Rightarrow> if length b = 8 then get_u64 b else 0]"
  by (simp add: GetSatsBulk_def HMGet_law)

lemma load_saved:
  assumes "savable out evb" "saved out evb sats score w w'"
    and "hv w (ob (io_Outpoint out)) = Map.empty" "[] \<notin> fst ` set (data_list out)"
  shows "\<exists>out'. LoadOutput O' (io_Outpoint out) None w' = Inr (Some out') \<and> loaded_as out sats out'"
proof -
  let ?op = "io_Outpoint out"
  note sv = assms(1)[unfolded savable_def] and sd = assms(2)[unfolded saved_def]
  obtain fs where fs: "st_HGetAll (os_Store O') (ob ?op) w' = Inr fs" "distinct (map fst fs)"
      "map_of fs = output_fields out evb Map.empty"
    using HGetAll_law[of "ob ?op" w'] sd assms(3) by auto
  let ?o1 = "(empty_output ?op)\<lparr>io_Score := 0, io_Satoshis := Some sats, io_SpendTxid := None\<rparr>"
  obtain out' where out': "load_fields (os_json O') None fs ?o1 = Inr out'" "loaded_as out sats out'"
    using load_fields_saved[of out evb fs ?o1 sats] sv fs assms(4) by (auto simp: empty_output_def)
  have "GetSatsBulk O' [Some ?op] w' = Inr [sats]" using sd by (simp add: GetSatsBulk_one)
  then have "LoadOutput O' ?op None w' = Inr (Some out')"
    using out'(1) fs(1)
    by (simp add: LoadOutput_def LoadOutputs_def loadOutputsWithScores_def load_one_def want_sats_def
        want_spend_def want_block_def KeyOutHash_def)
  with out'(2) show ?thesis by blast
qed

section \<open>Spends\<close>

lemma GetSpend_view:
  "GetSpend O' op w = Inr (case hv w KeySpends (ob op) of None \<Rightarrow> None
     | Some b \<Rightarrow> if length b = 32 then Some b else None)"
  by (simp add: GetSpend_def HGet_law split: option.splits)

lemma GetSpends_view:
  "GetSpends O' ops w = Inr (map (\<lambda>op. case hv w KeySpends
     (case op of None \<Rightarrow> [] | Some op \<Rightarrow> ob op) of None \<Rightarrow> None
     | Some b \<Rightarrow> if length b = 32 then Some b else None) ops)"
  by (simp add: GetSpends_def HMGet_law comp_def)

lemma SaveSpend_ok:
  assumes "os_SpendService O' = None" "ok w" "f64_plain score" "\<forall>e\<in>set es. zok (KeyEventSpent e)"
  shows "\<exists>w'. SaveSpend O' op t es score w = (Inr (), w') \<and> ok w' \<and>
    hv w' KeySpends = (hv w KeySpends)(ob op \<mapsto> t) \<and>
    (\<forall>k'. hsep KeySpends k' \<longrightarrow> hv w' k' = hv w k') \<and>
    (\<forall>k. zok k \<longrightarrow> zv w' k = (if k \<in> KeyEventSpent ` set es then (zv w k)(ob op \<mapsto> score) else zv w k))"
proof -
  obtain w1 where w1: "st_HSet (os_Store O') KeySpends (ob op) t w = (Inr (), w1)"
      "hash_step KeySpends ((hv w KeySpends)(ob op \<mapsto> t)) w w1"
    using HSet_step[OF assms(2)] by blast
  then have "ok w1" by (simp add: hash_step_def)
  then obtain w2 where "IndexSpentEvents O' op es score w1 = (Inr (), w2)"
      "zset_step (KeyEventSpent ` set es) (ob op) (Some score) w1 w2"
    using index_spent_step assms(3,4) by blast
  with w1 assms(1) show ?thesis
    by (auto simp: SaveSpend_def sm_apply hash_step_def zset_step_def)
qed

text \<open>Whether an entry's outpoint is unspent, as the filter sees it.\<close>

definition entry_unspent :: "'w \<Rightarrow> scored_member \<Rightarrow> bool" where
  "entry_unspent w r \<longleftrightarrow>
     (case op_from_bytes (os_sdk O') (Member r) of
        Some op \<Rightarrow> GetSpend O' op w = Inr None
      | None \<Rightarrow> hv w KeySpends [] = None \<or> (\<exists>b. hv w KeySpends [] = Some b \<and> length b \<noteq> 32))"

lemma filterSpent_filter:
  "filterSpent O' rs w = Inr (filter (entry_unspent w) rs)"
proof -
  have zipf: "map fst (filter (\<lambda>(r, sp). sp = None) (zip xs (map g xs))) = filter (\<lambda>r. g r = None) xs"
    for xs :: "scored_member list" and g :: "scored_member \<Rightarrow> txid option"
    by (induction xs) auto
  let ?g = "\<lambda>r. case hv w KeySpends (case op_from_bytes (os_sdk O') (Member r) of None \<Rightarrow> []
        | Some op \<Rightarrow> ob op) of None \<Rightarrow> None | Some b \<Rightarrow> if length b = 32 then Some b else None"
  have "filterSpent O' rs w = Inr (filter (\<lambda>r. ?g r = None) rs)"
    using zipf[of rs ?g] by (simp add: filterSpent_def GetSpends_view comp_def)
  also have "filter (\<lambda>r. ?g r = None) rs = filter (entry_unspent w) rs"
    by (rule filter_cong) (auto simp: entry_unspent_def GetSpend_view split: option.splits)
  finally show ?thesis .
qed

end

section \<open>Paging past spent outputs\<close>

text \<open>
  What an ascending search over one list returns for each lower bound and limit: the first
  entries whose score is not below the bound.
\<close>

definition from_ok :: "f64 option \<Rightarrow> scored_member \<Rightarrow> bool" where
  "from_ok a x \<longleftrightarrow> (case a of None \<Rightarrow> True | Some a \<Rightarrow> \<not> f64_lt (Score x) a)"

definition ascending :: "scored_member list \<Rightarrow> bool" where
  "ascending L \<longleftrightarrow> sorted_wrt (\<lambda>x y. f64_lt (Score x) (Score y)) L \<and>
     (\<forall>x\<in>set L. \<not> f64_nan (Score x) \<and> f64_lt (Score x) f64_inf)"

text \<open>Moving the bound past the last entry of a full page leaves the entries after the page.\<close>

lemma next_page:
  assumes asc: "ascending L" and R: "R = filter (from_ok a) L" and b: "0 < b" "b \<le> length R"
  shows "filter (from_ok (Some (f64_nextafter (Score (last (take b R))) f64_inf))) L = drop b R"
proof -
  let ?s = "Score (last (take b R))"
  have last: "last (take b R) = R ! (b - 1)" using b by (subst last_conv_nth) (auto simp: min_def)
  have R1: "R ! (b - 1) \<in> set R" using b by simp
  then have s: "\<not> f64_nan ?s" "f64_lt ?s f64_inf" using asc R last by (auto simp: ascending_def)
  have num: "\<not> f64_nan (Score x)" if "x \<in> set L" for x using asc that by (simp add: ascending_def)
  have sR: "sorted_wrt (\<lambda>x y. f64_lt (Score x) (Score y)) R"
    using asc R by (simp add: ascending_def sorted_wrt_filter)
  have past: "from_ok (Some (f64_nextafter ?s f64_inf)) x \<longleftrightarrow> f64_lt ?s (Score x)" if "x \<in> set L" for x
    using nextafter_passes[OF s num[OF that]] by (simp add: from_ok_def)
  have inR: "from_ok a x" if x: "x \<in> set L" and lt: "f64_lt ?s (Score x)" for x
  proof (cases a)
    case (Some a')
    have "\<not> f64_lt ?s a'" using R1 R Some last by (auto simp: from_ok_def)
    then show ?thesis using lt Some s(1) by (auto simp: from_ok_def f64_lt_def)
  qed (simp add: from_ok_def)
  have "filter (from_ok (Some (f64_nextafter ?s f64_inf))) L = filter (\<lambda>x. f64_lt ?s (Score x)) R"
  proof -
    have "filter (from_ok (Some (f64_nextafter ?s f64_inf))) L =
        filter (\<lambda>x. from_ok a x \<and> f64_lt ?s (Score x)) L"
      by (rule filter_cong[OF refl]) (use past inR in blast)
    then show ?thesis by (simp add: R conj_commute)
  qed
  also have "\<dots> = drop b R"
  proof -
    have "\<not> f64_lt ?s (Score x)" if x: "x \<in> set (take b R)" for x
    proof -
      obtain i where i: "i < b" "x = R ! i" using x b by (auto simp: in_set_conv_nth)
      then have "i = b - 1 \<or> f64_lt (Score (R ! i)) (Score (R ! (b - 1)))"
        using sR b by (cases "i = b - 1") (auto simp: sorted_wrt_iff_nth_less)
      then show ?thesis using i(2) last by (auto simp: f64_lt_def)
    qed
    moreover have "f64_lt ?s (Score x)" if x: "x \<in> set (drop b R)" for x
    proof -
      obtain i where "i < length R - b" "x = R ! (b + i)" using x by (auto simp: in_set_conv_nth)
      then show ?thesis using sR b last by (auto simp: sorted_wrt_iff_nth_less)
    qed
    ultimately have "filter (\<lambda>x. f64_lt ?s (Score x)) (take b R) = []"
        "filter (\<lambda>x. f64_lt ?s (Score x)) (drop b R) = drop b R"
      by (simp_all add: filter_empty_conv filter_id_conv)
    then show ?thesis
      by (metis append_Nil append_take_drop_id filter_append)
  qed
  finally show ?thesis .
qed

context output_env
begin

text \<open>
  The loop collects the unspent entries in order. A hundred iterations of at least a
  hundred entries pass over ten thousand; limits below \<open>2 ^ 29\<close> keep the counts in 32 bits.
\<close>

lemma search_unspent_ok:
  assumes srch: "\<And>a b. b \<noteq> 0 \<Longrightarrow> st_Search (os_Store O') (cfg\<lparr>Limit := b, From := a\<rparr>) w =
      Inr (take (unat b) (filter (from_ok a) L))"
    and asc: "ascending L" and fwd: "\<not> Reverse cfg" and lim: "unat (Limit cfg) < 2 ^ 29"
    and few: "length (filter (from_ok a) L) \<le> 100 * n" and short: "length u < 2 ^ 29 + 2 ^ 31"
  shows "\<exists>v. search_unspent O' cfg w n a u = Inr (u @ v) \<and> length (u @ v) < 2 ^ 29 + 2 ^ 31 \<and>
    take (unat (Limit cfg)) (u @ v) =
      take (unat (Limit cfg)) (u @ filter (entry_unspent w) (filter (from_ok a) L))"
  using few short
proof (induction n arbitrary: a u)
  case 0
  then show ?case by auto
next
  case (Suc n)
  let ?R = "filter (from_ok a) L"
  let ?P = "entry_unspent w"
  have lenu: "unat (of_nat (length u) :: 32 word) = length u"
    using Suc.prems(2) by (simp add: unsigned_of_nat take_bit_nat_eq_self)
  show ?case
  proof (cases "length u < unat (Limit cfg)")
    case False
    then have "\<not> (of_nat (length u) :: 32 word) < Limit cfg" by (simp add: word_less_nat_alt lenu)
    with False Suc.prems(2) show ?thesis by (intro exI[of _ "[]"]) simp
  next
    case True
    then have lt: "(of_nat (length u) :: 32 word) < Limit cfg" by (simp add: word_less_nat_alt lenu)
    define r :: "32 word" where "r = Limit cfg - of_nat (length u)"
    define b :: "32 word" where "b = (if r * 4 < 100 then 100 else r * 4)"
    have ur: "unat r \<le> unat (Limit cfg)"
      using True lenu by (simp add: r_def unat_sub word_le_nat_alt)
    have u4: "unat (r * 4) = unat r * 4"
      using ur lim by (intro unat_mult_lem[THEN iffD1, of r 4, simplified]) simp
    have b_ge: "100 \<le> unat b" by (simp add: b_def word_less_nat_alt)
    have b_lt: "unat b < 2 ^ 31"
      using ur lim u4 by (simp add: b_def)
    have b0: "b \<noteq> 0" using b_ge by auto
    let ?res = "take (unat b) ?R"
    have res: "st_Search (os_Store O') (cfg\<lparr>Limit := b, From := a\<rparr>) w = Inr ?res"
      by (rule srch[OF b0])
    have lenr: "unat (of_nat (length ?res) :: 32 word) = length ?res"
      using b_lt by (simp add: unsigned_of_nat take_bit_nat_eq_self)
    have step: "search_unspent O' cfg w (Suc n) a u =
      (if ?res = [] then Inr u
       else if (of_nat (length ?res) :: 32 word) < b then Inr (u @ filter ?P ?res)
       else search_unspent O' cfg w n (Some (f64_nextafter (Score (last ?res)) f64_inf)) (u @ filter ?P ?res))"
      using lt res fwd by (simp add: r_def[symmetric] b_def[symmetric] Let_def filterSpent_filter)
    have len': "length (u @ filter ?P ?res) < 2 ^ 29 + 2 ^ 31"
      using True lim b_lt le_trans[OF length_filter_le, of ?res "unat b" ?P] by simp
    show ?thesis
    proof (cases "length ?R < unat b")
      case True
      then have "?res = ?R" by simp
      moreover have "(of_nat (length ?res) :: 32 word) < b"
        unfolding word_less_nat_alt lenr using True by simp
      ultimately show ?thesis
        using step len' Suc.prems(2) by (cases "?R = []") (auto intro!: exI[of _ "filter ?P ?R"])
    next
      case False
      then have full: "length ?res = unat b" by simp
      then have "?res \<noteq> []" "\<not> (of_nat (length ?res) :: 32 word) < b"
        using b_ge by (auto simp: word_less_nat_alt lenr)
      with step have step': "search_unspent O' cfg w (Suc n) a u =
          search_unspent O' cfg w n (Some (f64_nextafter (Score (last ?res)) f64_inf)) (u @ filter ?P ?res)"
        by simp
      have next_R: "filter (from_ok (Some (f64_nextafter (Score (last ?res)) f64_inf))) L = drop (unat b) ?R"
        by (rule next_page[OF asc refl]) (use False b_ge in auto)
      have "length (drop (unat b) ?R) \<le> 100 * n" using Suc.prems(1) b_ge by simp
      then obtain v where v: "search_unspent O' cfg w n (Some (f64_nextafter (Score (last ?res)) f64_inf))
            (u @ filter ?P ?res) = Inr ((u @ filter ?P ?res) @ v)"
          "length ((u @ filter ?P ?res) @ v) < 2 ^ 29 + 2 ^ 31"
          "take (unat (Limit cfg)) ((u @ filter ?P ?res) @ v) =
             take (unat (Limit cfg)) ((u @ filter ?P ?res) @ filter ?P (drop (unat b) ?R))"
        using Suc.IH[OF _ len', of "Some (f64_nextafter (Score (last ?res)) f64_inf)"]
        unfolding next_R by blast
      have "filter ?P ?res @ filter ?P (drop (unat b) ?R) = filter ?P ?R"
        by (metis append_take_drop_id filter_append)
      with v step' show ?thesis by (intro exI[of _ "filter ?P ?res @ v"]) simp
    qed
  qed
qed

section \<open>Membership\<close>

lemma ZScore_view:
  "st_ZScore (os_Store O') k m w = (case zv w k m of None \<Rightarrow> Inl ErrKeyNotFound | Some sc \<Rightarrow> Inr sc)"
  by (rule ZScore_law)

lemma check_members_ok:
  "\<exists>rs. check_members O' w k ms seen = Inr (rs, seen \<union> {m \<in> set ms. zv w k m \<noteq> None}) \<and>
    distinct (map Member rs) \<and> Member ` set rs = {m \<in> set ms. zv w k m \<noteq> None} - seen \<and>
    (\<forall>r\<in>set rs. Key r = k \<and> zv w k (Member r) = Some (Score r))"
proof (induction ms arbitrary: seen)
  case (Cons m ms)
  show ?case
  proof (cases "m \<in> seen \<or> zv w k m = None")
    case True
    have "check_members O' w k (m # ms) seen = check_members O' w k ms seen"
      using True by (auto simp: ZScore_view)
    moreover have "seen \<union> {m' \<in> set (m # ms). zv w k m' \<noteq> None} = seen \<union> {m' \<in> set ms. zv w k m' \<noteq> None}"
      "{m' \<in> set (m # ms). zv w k m' \<noteq> None} - seen = {m' \<in> set ms. zv w k m' \<noteq> None} - seen"
      using True by auto
    ultimately show ?thesis using Cons.IH[of seen] by simp
  next
    case False
    then obtain sc where sc: "zv w k m = Some sc" "m \<notin> seen" by auto
    obtain rs where rs: "check_members O' w k ms (insert m seen) =
          Inr (rs, insert m seen \<union> {m \<in> set ms. zv w k m \<noteq> None})"
        "distinct (map Member rs)"
        "Member ` set rs = {m \<in> set ms. zv w k m \<noteq> None} - insert m seen"
        "\<forall>r\<in>set rs. Key r = k \<and> zv w k (Member r) = Some (Score r)"
      using Cons.IH[of "insert m seen"] by blast
    let ?rs = "\<lparr>Member = m, Score = sc, Key = k\<rparr> # rs"
    have "check_members O' w k (m # ms) seen =
        Inr (?rs, seen \<union> {m' \<in> set (m # ms). zv w k m' \<noteq> None})"
      using sc rs(1) by (auto simp: ZScore_view)
    moreover have "distinct (map Member ?rs)" using rs(2,3) by auto
    moreover have "Member ` set ?rs = {m' \<in> set (m # ms). zv w k m' \<noteq> None} - seen"
      using rs(3) sc by auto
    moreover have "\<forall>r\<in>set ?rs. Key r = k \<and> zv w k (Member r) = Some (Score r)"
      using rs(4) sc(1) by simp
    ultimately show ?thesis by blast
  qed
qed simp

lemma check_keys_ok:
  "\<exists>rs. check_keys O' w ks ms seen = Inr rs \<and> distinct (map Member rs) \<and>
    Member ` set rs = {m \<in> set ms. \<exists>k\<in>set ks. zv w k m \<noteq> None} - seen \<and>
    (\<forall>r\<in>set rs. \<exists>pre post. ks = pre @ Key r # post \<and> zv w (Key r) (Member r) = Some (Score r) \<and>
       (\<forall>k\<in>set pre. zv w k (Member r) = None))"
proof (induction ks arbitrary: seen)
  case (Cons k ks)
  let ?hit = "{m \<in> set ms. zv w k m \<noteq> None}"
  obtain rs where rs: "check_members O' w k ms seen = Inr (rs, seen \<union> ?hit)" "distinct (map Member rs)"
      "Member ` set rs = ?hit - seen" "\<forall>r\<in>set rs. Key r = k \<and> zv w k (Member r) = Some (Score r)"
    using check_members_ok[of w k ms seen] by blast
  obtain rest where rest: "check_keys O' w ks ms (seen \<union> ?hit) = Inr rest" "distinct (map Member rest)"
      "Member ` set rest = {m \<in> set ms. \<exists>k\<in>set ks. zv w k m \<noteq> None} - (seen \<union> ?hit)"
      "\<forall>r\<in>set rest. \<exists>pre post. ks = pre @ Key r # post \<and> zv w (Key r) (Member r) = Some (Score r) \<and>
         (\<forall>k\<in>set pre. zv w k (Member r) = None)"
    using Cons.IH[of "seen \<union> ?hit"] by blast
  have "check_keys O' w (k # ks) ms seen = Inr (rs @ rest)" using rs(1) rest(1) by simp
  moreover have "distinct (map Member (rs @ rest))" using rs(2,3) rest(2,3) by auto
  moreover have "Member ` set (rs @ rest) = {m \<in> set ms. \<exists>k'\<in>set (k # ks). zv w k' m \<noteq> None} - seen"
    unfolding set_append image_Un rs(3) rest(3) by auto
  moreover have "\<exists>pre post. k # ks = pre @ Key r # post \<and> zv w (Key r) (Member r) = Some (Score r) \<and>
      (\<forall>k\<in>set pre. zv w k (Member r) = None)" if r: "r \<in> set (rs @ rest)" for r
  proof (cases "r \<in> set rs")
    case True
    with rs(4) show ?thesis by (intro exI[of _ "[]"] exI[of _ ks]) auto
  next
    case False
    then have "r \<in> set rest" using r by simp
    moreover from this have "Member r \<in> set ms - ?hit" using rest(3) by blast
    moreover obtain pre post where "ks = pre @ Key r # post" "zv w (Key r) (Member r) = Some (Score r)"
        "\<forall>k\<in>set pre. zv w k (Member r) = None"
      using rest(4) \<open>r \<in> set rest\<close> by blast
    ultimately show ?thesis by (intro exI[of _ "k # pre"] exI[of _ post]) auto
  qed
  ultimately show ?case by blast
qed simp

section \<open>Rollback\<close>

text \<open>A transaction with no plain value under its id has no outputs to the scan.\<close>

lemma rollback_nothing:
  assumes "\<And>k. prefix txid k \<Longrightarrow> kvs w k = None"
  shows "Rollback (Suc n) O' txid w = Some (Inr (), w)"
proof -
  have "LoadOutputsByTxid O' txid None w = Inr []"
    using Scan_empty[of txid w] assms
    by (simp add: LoadOutputsByTxid_def KeyTxidPrefix_def LoadOutputs_def loadOutputsWithScores_def)
  then show ?thesis by (simp add: sm_apply)
qed

end

end
