(* ===== verification/BadgerOutputs.thy ===== *)
theory BadgerOutputs
  imports OutputLaws StoreProps
begin

text \<open>
  The output store over the Badger-backed store: the interpretation of the contract of
  \<open>OutputLaws\<close> and the properties of saving, loading, spending and searching outputs.
\<close>

section \<open>Searching one key\<close>

lemma merge_single:
  assumes "distinct (map Member xs)" "\<And>x. x \<in> set xs \<Longrightarrow> seen (Member x) = None"
  shows "merge_all JoinUnion rv seen [xs] = map (\<lambda>x. (Member x, Score x, 0)) xs"
  using assms
proof (induction xs arbitrary: seen)
  case Nil
  then show ?case by (subst merge_all.simps) (simp add: anext.simps)
next
  case (Cons x xs)
  have "anext JoinUnion rv seen [x # xs] = (Some (Member x, Score x, 0), [xs])"
    using Cons.prems(2)[of x] by (subst anext.simps) (simp add: ajoin_def better_def)
  then have "merge_all JoinUnion rv seen [x # xs] =
      (Member x, Score x, 0) # merge_all JoinUnion rv (seen(Member x \<mapsto> Score x)) [xs]"
    by (subst merge_all.simps) simp
  moreover have "(seen(Member x \<mapsto> Score x)) (Member y) = None" if y: "y \<in> set xs" for y
  proof -
    have "Member y \<in> set (map Member xs)" using y by simp
    then have "Member y \<noteq> Member x" using Cons.prems(1) by auto
    then show ?thesis using Cons.prems(2) y by simp
  qed
  moreover have "distinct (map Member xs)" using Cons.prems(1) by simp
  ultimately show ?case by (simp only: Cons.IH list.map)
qed

definition keyed :: "bytes \<Rightarrow> scored_member \<Rightarrow> scored_member" where
  "keyed k x = \<lparr>Member = Member x, Score = Score x, Key = k\<rparr>"

lemma keyed_sel [simp]: "Member (keyed k x) = Member x" "Score (keyed k x) = Score x"
  by (simp_all add: keyed_def)

context badger_state
begin

lemma single_key_search:
  assumes "nul_free k" "Keys cfg = [k]" "JoinType cfg = JoinUnion"
  shows "badger_Search E cfg db =
    Inr (limited cfg 0 (map (keyed k) (badger_listing E db (Reverse cfg) k (From cfg) (To cfg))))"
proof -
  let ?L = "badger_listing E db (Reverse cfg) k (From cfg) (To cfg)"
  have "distinct (map Member ?L)"
    unfolding badger_listing_def by (rule distinct_map_filter[OF listing_distinct[OF assms(1)]])
  then have "merge_all JoinUnion (Reverse cfg) Map.empty [?L] = map (\<lambda>x. (Member x, Score x, 0)) ?L"
    by (rule merge_single) simp
  then show ?thesis
    using badger_search_merge[of cfg] assms
    by (simp add: limited_def take_map comp_def keyed_def)
qed

end

section \<open>The output store on Badger\<close>

definition badger_okop :: "sdk \<Rightarrow> outpoint \<Rightarrow> bool" where
  "badger_okop K op \<longleftrightarrow> wf_op op \<and> \<not> prefix ''sats:'' (op_bytes K op) \<and> \<not> prefix ''spnd:'' (op_bytes K op)"

lemma key_sep_short:
  assumes "length b = 36" "length k = 4" "\<not> prefix (k @ '':'') b"
  shows "key_sep b k"
proof -
  have "\<not> prefix (b @ '':'') (k @ '':'')" using assms by (auto dest: prefix_length_le)
  moreover have "\<not> prefix (k @ '':'') (b @ '':'')" using assms by (auto simp: prefix_append prefix_Cons)
  ultimately show ?thesis by (simp add: key_sep_def)
qed

locale badger_outputs = badger_engine E + sdk_laws "os_sdk O'"
  for E :: "'w engine" and O' :: "('w, 'd) output_store" +
  assumes on_badger: "os_Store O' = badger_store E"
    and events_codec: "marshal_events (os_json O') es = Inr eb \<Longrightarrow> unmarshal_events (os_json O') eb = Inr es"
    and data_codec: "marshal_data (os_json O') d = Inr db \<Longrightarrow> unmarshal_data (os_json O') db = Inr (Some d)"

sublocale badger_outputs \<subseteq> out: output_env O' "store_ok E"
  "\<lambda>db. hash_view (eview E db)" "\<lambda>db. zscore (eview E db)" "\<lambda>db. set_view (eview E db)"
  "\<lambda>db. kv_view (eview E db)" key_sep nul_free "badger_okop (os_sdk O')"
proof (rule output_env.intro)
  show "store_laws (os_Store O') (store_ok E) (\<lambda>db. hash_view (eview E db)) (\<lambda>db. zscore (eview E db))
      (\<lambda>db. set_view (eview E db)) (\<lambda>db. kv_view (eview E db)) key_sep nul_free"
    unfolding on_badger by (rule store.store_laws_axioms)
  show "sdk_laws (os_sdk O')" by (rule sdk_laws_axioms)
  show "output_env_axioms O' key_sep (badger_okop (os_sdk O'))"
  proof
    show "wf_op op" if "badger_okop (os_sdk O') op" for op using that by (simp add: badger_okop_def)
    show "key_sep (op_bytes (os_sdk O') p) (op_bytes (os_sdk O') q)"
      if "badger_okop (os_sdk O') p" "badger_okop (os_sdk O') q" "p \<noteq> q" for p q
      using that by (intro key_sep_length) (simp_all add: badger_okop_def op_bytes_length op_bytes_inj)
    show "key_sep (op_bytes (os_sdk O') p) KeySatoshis" if "badger_okop (os_sdk O') p" for p
      using that by (intro key_sep_short) (simp_all add: badger_okop_def op_bytes_length KeySatoshis_def)
    show "key_sep (op_bytes (os_sdk O') p) KeySpends" if "badger_okop (os_sdk O') p" for p
      using that by (intro key_sep_short) (simp_all add: badger_okop_def op_bytes_length KeySpends_def)
    show "key_sep KeySatoshis KeySpends"
      by (rule key_sep_length) (simp_all add: KeySatoshis_def KeySpends_def)
  qed (fact events_codec data_codec)+
qed

text \<open>A concrete output store: the in-memory engine, the demo library and a simple codec.\<close>

fun enc_events :: "bytes list \<Rightarrow> bytes" where
  "enc_events [] = []"
| "enc_events (e # es) = concat (map (\<lambda>c. [CHR 0x01, c]) e) @ CHR 0x00 # enc_events es"

fun dec_events :: "bytes \<Rightarrow> bytes \<Rightarrow> bytes list" where
  "dec_events acc [] = []"
| "dec_events acc [c] = (if c = CHR 0x00 then [acc] else [])"
| "dec_events acc (c # d # b) =
     (if c = CHR 0x00 then acc # dec_events [] (d # b) else dec_events (acc @ [d]) b)"

lemma dec_enc: "dec_events acc (concat (map (\<lambda>c. [CHR 0x01, c]) e) @ CHR 0x00 # b) =
    (acc @ e) # dec_events [] b"
proof (induction e arbitrary: acc)
  case Nil
  then show ?case by (cases b) auto
next
  case (Cons c e)
  then show ?case by simp
qed

lemma dec_enc_events: "dec_events [] (enc_events es) = es"
  by (induction es) (simp_all add: dec_enc)

definition demo_json :: "bytes json_codec" where
  "demo_json = \<lparr>marshal_events = (\<lambda>es. Inr (enc_events es)),
     unmarshal_events = (\<lambda>b. Inr (dec_events [] b)), marshal_data = Inr,
     unmarshal_data = (\<lambda>b. Inr (Some b))\<rparr>"

definition demo_os :: "(mem_db, bytes) output_store" where
  "demo_os = \<lparr>os_Store = badger_store mem_engine, os_PubSub = None, os_SpendService = None,
     os_sdk = demo_sdk, os_json = demo_json\<rparr>"

interpretation demo_outputs: badger_outputs mem_engine demo_os
proof (rule badger_outputs.intro)
  show "badger_engine mem_engine" by (rule mem.badger_engine_axioms)
  show "sdk_laws (os_sdk demo_os)" using demo.sdk_laws_axioms by (simp add: demo_os_def)
  show "badger_outputs_axioms mem_engine demo_os"
    by unfold_locales (auto simp: demo_os_def demo_json_def dec_enc_events)
qed

context badger_outputs
begin

lemma env: "output_env O' (store_ok E) (\<lambda>db. hash_view (eview E db)) (\<lambda>db. zscore (eview E db))
    (\<lambda>db. set_view (eview E db)) (\<lambda>db. kv_view (eview E db)) key_sep nul_free (badger_okop (os_sdk O'))"
  by (rule out.output_env_axioms)

lemma GetEvents_cong: "hash_view (eview E db') (op_bytes (os_sdk O') p) = hash_view (eview E db) (op_bytes (os_sdk O') p) \<Longrightarrow>
    GetEvents O' p db' = GetEvents O' p db"
  by (simp add: GetEvents_def KeyOutHash_def out.HGet_law)

lemma GetSats_view: "GetSats O' p db = Inr (case hash_view (eview E db) KeySatoshis (op_bytes (os_sdk O') p) of
    None \<Rightarrow> 0 | Some b \<Rightarrow> if length b = 8 then get_u64 b else 0)"
  by (simp add: GetSats_def out.HGet_law split: option.splits)

lemma zscore_read: "badger_ZScore E k m db = Inr s \<longleftrightarrow> zscore (eview E db) k m = Some s"
  by (auto simp: ZScore_eview split: option.splits)

text \<open>A first save succeeds with the effect \<open>saved\<close>, and loads back.\<close>

lemma save_and_load:
  assumes "store_ok E db" "out.savable out evb" "f64_plain score"
    and "[] \<notin> fst ` set (out.data_list out)"
    and "hash_view (eview E db) (op_bytes (os_sdk O') (io_Outpoint out)) = Map.empty"
  shows "\<exists>db' out'. SaveOutput O' out sats score db = (Inr (), db') \<and>
    out.saved out evb sats score db db' \<and>
    LoadOutput O' (io_Outpoint out) None db' = Inr (Some out') \<and> out.loaded_as out sats out'"
  using out.SaveOutput_ok[OF assms(1-3)] out.load_saved[OF assms(2) _ assms(5,4)] by blast

lemma saved_frame:
  assumes "out.saved out evb sats score db db'" "badger_okop (os_sdk O') p" "p \<noteq> io_Outpoint out"
    and "badger_okop (os_sdk O') (io_Outpoint out)"
  shows "GetEvents O' p db' = GetEvents O' p db" "GetSats O' p db' = GetSats O' p db"
    "GetSpend O' p db' = GetSpend O' p db"
proof -
  have ne: "op_bytes (os_sdk O') p \<noteq> op_bytes (os_sdk O') (io_Outpoint out)"
    using assms by (simp add: badger_okop_def op_bytes_inj)
  show "GetEvents O' p db' = GetEvents O' p db"
    using assms by (intro GetEvents_cong) (simp add: out.saved_def)
  show "GetSats O' p db' = GetSats O' p db"
    using assms(1) ne by (simp add: GetSats_view out.saved_def)
  show "GetSpend O' p db' = GetSpend O' p db"
    using assms(1) by (simp add: out.GetSpend_view out.saved_def)
qed

end

section \<open>The properties\<close>


definition demo_op :: outpoint where
  "demo_op = \<lparr>op_txid = CHR 0x41 # replicate 31 CHR 0x41, op_index = 7\<rparr>"


lemma demo_okop: "badger_okop demo_sdk demo_op"
  by (simp add: badger_okop_def wf_op_def demo_op_def demo_sdk_def demo_bytes_def)


lemma demo_empty_ok: "store_ok mem_engine []"
  by (simp add: store_ok_def zinv_def)


text \<open>
  C12: without a spend service, recording a spend makes the outpoint read as spent by that
  transaction, in the single read and in the bulk read; each of the given events lists the
  outpoint in its spent index; and every other outpoint's spend is as it was.
\<close>

theorem recorded_spend_is_read:
  assumes "badger_outputs E O'" "os_SpendService O' = None" "store_ok E db"
    and "wf_op op" "length spendTxid = 32" "f64_plain score" "\<forall>e\<in>set events. nul_free e"
  shows "\<exists>db'. SaveSpend O' op spendTxid events score db = (Inr (), db') \<and> store_ok E db' \<and>
    GetSpend O' op db' = Inr (Some spendTxid) \<and> IsSpent O' op db' = Inr True \<and>
    (\<forall>p. wf_op p \<and> p \<noteq> op \<longrightarrow> GetSpend O' p db' = GetSpend O' p db) \<and>
    (\<forall>ops. list_all wf_op ops \<longrightarrow> GetSpends O' (map Some ops) db' =
       Inr (map (\<lambda>p. if p = op then Some spendTxid
                    else case GetSpend O' p db of Inr t \<Rightarrow> t | Inl _ \<Rightarrow> None) ops)) \<and>
    (\<forall>e\<in>set events. badger_ZScore E (KeyEventSpent e) (op_bytes (os_sdk O') op) db' = Inr score)"
proof -
  note bo = assms(1) and env = badger_outputs.env[OF assms(1)]
  note sdk = badger_outputs.axioms(2)[OF bo]
  have zok: "\<forall>e\<in>set events. nul_free (KeyEventSpent e)"
    using assms(7) by (simp add: nul_free_def KeyEventSpent_def PfxEvent_def)
  obtain db' where db': "SaveSpend O' op spendTxid events score db = (Inr (), db')" "store_ok E db'"
      "hash_view (eview E db') KeySpends =
         (hash_view (eview E db) KeySpends)(op_bytes (os_sdk O') op \<mapsto> spendTxid)"
      "\<forall>k. nul_free k \<longrightarrow> zscore (eview E db') k = (if k \<in> KeyEventSpent ` set events
         then (zscore (eview E db) k)(op_bytes (os_sdk O') op \<mapsto> score) else zscore (eview E db) k)"
    using output_env.SaveSpend_ok[OF env assms(2,3,6) zok] by blast
  note view = output_env.GetSpend_view[OF env]
  have other: "op_bytes (os_sdk O') p \<noteq> op_bytes (os_sdk O') op" if "wf_op p" "p \<noteq> op" for p
    using sdk_laws.op_bytes_inj[OF sdk that(1) assms(4)] that(2) by simp
  have "GetSpends O' (map Some ops) db' = Inr (map (\<lambda>p. if p = op then Some spendTxid
      else case GetSpend O' p db of Inr t \<Rightarrow> t | Inl _ \<Rightarrow> None) ops)" if "list_all wf_op ops" for ops
    using that other assms(5)
    by (auto simp: output_env.GetSpends_view[OF env] db'(3) view list_all_iff)
  moreover have "GetSpend O' op db' = Inr (Some spendTxid)" by (simp add: view db'(3) assms(5))
  moreover have "\<forall>e\<in>set events. badger_ZScore E (KeyEventSpent e) (op_bytes (os_sdk O') op) db' = Inr score"
    using db'(4) zok by (simp add: badger_outputs.zscore_read[OF bo])
  moreover have "\<forall>p. wf_op p \<and> p \<noteq> op \<longrightarrow> GetSpend O' p db' = GetSpend O' p db"
    using other by (simp add: view db'(3))
  ultimately show ?thesis using db'(1,2) by (simp add: IsSpent_def)
qed

lemma recorded_spend_is_read_witness:
  "\<exists>db'. SaveSpend demo_os demo_op (replicate 32 CHR 0x05) [''p2pkh''] 1 [] = (Inr (), db') \<and>
    GetSpend demo_os demo_op db' = Inr (Some (replicate 32 CHR 0x05))"
proof -
  have "os_SpendService demo_os = None" "wf_op demo_op" "nul_free ''p2pkh''"
    by (simp_all add: demo_os_def demo_op_def wf_op_def nul_free_code)
  then show ?thesis
    using recorded_spend_is_read[OF demo_outputs.badger_outputs_axioms _ demo_empty_ok, of demo_op
        "replicate 32 CHR 0x05" 1 "[''p2pkh'']"] by auto
qed

text \<open>The single-key searches of a filtered search, for every lower bound and limit.\<close>

lemma listing_from:
  "badger_listing E db rv k a b = filter (\<lambda>x. from_ok a x) (badger_listing E db rv k None b)"
  by (auto simp: badger_listing_def score_in_range_def from_ok_def intro!: filter_cong
      split: option.splits)

lemma from_ok_keyed [simp]: "from_ok a (keyed k x) = from_ok a x"
  by (cases a) (simp_all add: from_ok_def)

lemma nul_free_prefixKey: "nul_free k \<Longrightarrow> nul_free (prefixKey k)"
  by (auto simp: prefixKey_def KeyEvent_def PfxEvent_def nul_free_def)

lemma ascending_keyed [simp]: "ascending (map (keyed k) L) = ascending L"
  by (simp add: ascending_def sorted_wrt_map)

context badger_outputs
begin

lemma single_search:
  assumes "badger_state E db" "nul_free k" "Keys cfg = [k]" "JoinType cfg = JoinUnion" "\<not> Reverse cfg"
    and "Limit cfg \<noteq> 0"
  shows "st_Search (os_Store O') cfg db = Inr (take (unat (Limit cfg)) (filter (from_ok (From cfg))
    (map (keyed k) (badger_listing E db False k None (To cfg)))))"
  using badger_state.single_key_search[OF assms(1-4)] assms(5,6)
  by (simp add: on_badger badger_store_def limited_def listing_from[of E db False k "From cfg"]
      filter_map comp_def)

end

text \<open>
  C13: a search of one event for unspent outputs, ascending and with a limit, returns the
  first \<open>Limit\<close> unspent outputs of that event within the bounds, in order, when no two
  outputs of the event share a score (and there are at most ten thousand of them): the
  pages, the growing lower bound and the hundred-iteration guard lose and repeat nothing.
\<close>

theorem filtered_search_first_unspent:
  assumes "badger_outputs E O'" "store_ok E db" "Keys cfg = [k]" "nul_free k"
    and "JoinType cfg = JoinUnion" "\<not> Reverse cfg" "FilterSpent cfg"
    and "0 < unat (Limit cfg)" "unat (Limit cfg) < 2 ^ 29"
    and "ascending (badger_listing E db False (prefixKey k) None (To cfg))"
    and "length (badger_listing E db False (prefixKey k) (From cfg) (To cfg)) \<le> 10000"
    and "\<forall>x\<in>set (badger_listing E db False (prefixKey k) None (To cfg)).
           op_from_bytes (os_sdk O') (Member x) \<noteq> None"
  shows "Search O' cfg db = Inr (take (unat (Limit cfg))
    (filter (\<lambda>x. GetSpend O' (the (op_from_bytes (os_sdk O') (Member x))) db = Inr None)
      (map (keyed (prefixKey k)) (badger_listing E db False (prefixKey k) (From cfg) (To cfg)))))"
proof -
  note bo = assms(1) and env = badger_outputs.env[OF assms(1)]
  note be = badger_outputs.axioms(1)[OF bo]
  have st: "badger_state E db"
    using be assms(2) by (simp add: badger_state_def badger_state_axioms_def store_ok_def)
  note nf = nul_free_prefixKey[OF assms(4)]
  let ?cfg = "(search_cfg.truncate cfg)\<lparr>Keys := map prefixKey (Keys cfg)\<rparr>"
  let ?L = "map (keyed (prefixKey k)) (badger_listing E db False (prefixKey k) None (To cfg))"
  have cfg: "Limit ?cfg = Limit cfg" "Reverse ?cfg = Reverse cfg"
    by (simp_all add: search_cfg.truncate_def)
  have srch: "st_Search (os_Store O') (?cfg\<lparr>Limit := b, From := a\<rparr>) db =
      Inr (take (unat b) (filter (from_ok a) ?L))" if b: "b \<noteq> 0" for a b
    using badger_outputs.single_search[OF bo st nf, of "?cfg\<lparr>Limit := b, From := a\<rparr>"] assms(3,5,6) b
    by (simp add: search_cfg.truncate_def)
  have asc: "ascending ?L" using assms(10) by simp
  have from_cfg: "filter (from_ok (From cfg)) ?L =
      map (keyed (prefixKey k)) (badger_listing E db False (prefixKey k) (From cfg) (To cfg))"
    by (simp add: filter_map comp_def listing_from[of E db False "prefixKey k" "From cfg"])
  have few: "length (filter (from_ok (From cfg)) ?L) \<le> 100 * maxIterations"
    using assms(11) unfolding from_cfg by (simp add: maxIterations_def)
  let ?P = "output_env.entry_unspent O' (\<lambda>db. hash_view (eview E db)) db"
  obtain v where v: "search_unspent O' ?cfg db maxIterations (From cfg) [] = Inr v"
      "length v < 2 ^ 29 + 2 ^ 31"
      "take (unat (Limit cfg)) v = take (unat (Limit cfg)) (filter ?P (filter (from_ok (From cfg)) ?L))"
    using output_env.search_unspent_ok[OF env srch asc _ _ few, of "[]"] assms(6,9) unfolding cfg by auto
  have P: "?P x \<longleftrightarrow> GetSpend O' (the (op_from_bytes (os_sdk O') (Member x))) db = Inr None"
    if x: "x \<in> set (filter (from_ok (From cfg)) ?L)" for x
  proof -
    have "op_from_bytes (os_sdk O') (Member x) \<noteq> None" using x assms(12) by auto
    then show ?thesis by (auto simp: output_env.entry_unspent_def[OF env])
  qed
  have "(if (of_nat (length v) :: 32 word) > Limit cfg then take (unat (Limit cfg)) v else v) =
      take (unat (Limit cfg)) v"
    using v(2) by (simp add: word_less_nat_alt unsigned_of_nat take_bit_nat_eq_self)
  moreover have "Limit cfg \<noteq> 0" using assms(8) by auto
  ultimately have "Search O' cfg db = Inr (take (unat (Limit cfg)) v)"
    using v(1) assms(7) by (simp add: Search_def Let_def)
  also have "take (unat (Limit cfg)) v = take (unat (Limit cfg))
      (filter (\<lambda>x. GetSpend O' (the (op_from_bytes (os_sdk O') (Member x))) db = Inr None)
        (filter (from_ok (From cfg)) ?L))"
    unfolding v(3) by (rule arg_cong[where f = "take _"], rule filter_cong[OF refl P])
  finally show ?thesis unfolding from_cfg .
qed

context badger_state
begin

lemma one_member_listing:
  assumes "nul_free k" "zscore (eview E db) k = [m \<mapsto> s]"
  shows "zlisting E False k db = [scored m s]"
proof -
  have "x \<in> set (zlisting E False k db) \<longleftrightarrow> x = scored m s" for x
    using listing_iff[OF assms(1), of x] assms(2) by (cases x) (auto split: if_splits)
  then have "set (zlisting E False k db) = {scored m s}" by blast
  moreover have "distinct (zlisting E False k db)"
    using listing_distinct[OF assms(1), of False] by (simp only: distinct_map)
  ultimately show ?thesis by (rule distinct_singleton_set[rotated])
qed

end

definition demo_db :: mem_db where
  "demo_db = snd (badger_ZAdd mem_engine ''ev:p2pkh'' [scored (demo_bytes demo_op) 1] [])"

lemma demo_db_state:
  "store_ok mem_engine demo_db" "zscore (eview mem_engine demo_db) ''ev:p2pkh'' = [demo_bytes demo_op \<mapsto> 1]"
  "hash_view (eview mem_engine demo_db) = (\<lambda>k f. None)"
proof -
  have nf: "nul_free ''ev:p2pkh''" by (simp add: nul_free_code)
  obtain db' where db': "badger_ZAdd mem_engine ''ev:p2pkh'' [scored (demo_bytes demo_op) 1] [] = (Inr (), db')"
      "store_ok mem_engine db'" "eview mem_engine db' = zset_put ''ev:p2pkh'' (demo_bytes demo_op) 1 (eview mem_engine [])"
    using mem.law_ZAdd[OF demo_empty_ok nf, of 1 "demo_bytes demo_op"] by auto
  then have db: "demo_db = db'" by (simp add: demo_db_def)
  show "store_ok mem_engine demo_db" by (simp add: db db'(2))
  show "zscore (eview mem_engine demo_db) ''ev:p2pkh'' = [demo_bytes demo_op \<mapsto> 1]"
    unfolding db db'(3) zscore_write_views(1)[OF nf plain_small(2)] by (simp add: zscore_def fun_eq_iff)
  show "hash_view (eview mem_engine demo_db) = (\<lambda>k f. None)"
    unfolding db db'(3) by (simp add: hash_view_def fun_eq_iff)
qed

definition demo_cfg :: out_cfg where
  "demo_cfg = \<lparr>Keys = [''p2pkh''], From = Some 0, To = None, Limit = 5, JoinType = JoinUnion,
     Reverse = False, FilterSpent = True, ExcludeMined = False, ExcludeMempool = False,
     IncludeSats = False, IncludeSpend = False, IncludeEvents = False, IncludeBlock = False,
     IncludeTags = []\<rparr>"

lemma filtered_search_first_unspent_witness:
  "Search demo_os demo_cfg demo_db =
    Inr [\<lparr>Member = demo_bytes demo_op, Score = 1, Key = ''ev:p2pkh''\<rparr>]"
proof -
  have nf: "nul_free ''ev:p2pkh''" "nul_free ''p2pkh''" by (simp_all add: nul_free_code)
  have st: "badger_state mem_engine demo_db"
    using mem.badger_engine_axioms demo_db_state(1)
    by (simp add: badger_state_def badger_state_axioms_def store_ok_def)
  have one: "zlisting mem_engine False ''ev:p2pkh'' demo_db = [scored (demo_bytes demo_op) 1]"
    by (rule badger_state.one_member_listing[OF st nf(1) demo_db_state(2)])
  have lt: "\<not> f64_lt 1 0" "\<not> f64_nan 1" "f64_lt 1 f64_inf"
    by (simp_all add: f64_lt_def f64_nan_def f64_mag_def f64_ord_def f64_neg_def f64_inf_def)
  have L: "badger_listing mem_engine demo_db False ''ev:p2pkh'' a None = [scored (demo_bytes demo_op) 1]"
    if "a = None \<or> a = Some 0" for a
    using that lt by (auto simp: badger_listing_def one score_in_range_def)
  have key: "prefixKey ''p2pkh'' = ''ev:p2pkh''"
    by (simp add: prefixKey_def KeyEvent_def PfxEvent_def PfxTopic_def numeral_eq_Suc)
  have from_op: "op_from_bytes demo_sdk (demo_bytes demo_op) = Some demo_op"
    using demo.op_from_bytes[of demo_op] demo_okop by (simp add: badger_okop_def demo_sdk_def)
  have os: "os_sdk demo_os = demo_sdk" by (simp add: demo_os_def)
  have unspent: "GetSpend demo_os demo_op demo_db = Inr None"
    by (simp add: output_env.GetSpend_view[OF demo_outputs.env] demo_db_state(3))
  have cfg: "Keys demo_cfg = [''p2pkh'']" "JoinType demo_cfg = JoinUnion" "\<not> Reverse demo_cfg"
      "FilterSpent demo_cfg" "Limit demo_cfg = 5" "From demo_cfg = Some 0" "To demo_cfg = None"
    by (simp_all add: demo_cfg_def)
  have "Search demo_os demo_cfg demo_db = Inr (take (unat (Limit demo_cfg))
      (filter (\<lambda>x. GetSpend demo_os (the (op_from_bytes (os_sdk demo_os) (Member x))) demo_db = Inr None)
        (map (keyed (prefixKey ''p2pkh''))
          (badger_listing mem_engine demo_db False (prefixKey ''p2pkh'') (From demo_cfg) (To demo_cfg)))))"
    by (rule filtered_search_first_unspent[OF demo_outputs.badger_outputs_axioms demo_db_state(1) cfg(1) nf(2) cfg(2-4)])
      (simp_all add: cfg key L os from_op ascending_def lt)
  then show ?thesis by (simp add: cfg key L os from_op unspent keyed_def)
qed

text \<open>
  \<open>CheckMembership\<close> returns, once each, exactly those of the given members that some
  given key holds, each with the first key that holds it and its score there.
\<close>

theorem check_membership_exact:
  assumes "badger_outputs E O'" "store_ok E db"
  shows "\<exists>rs. CheckMembership O' keys members db = Inr rs \<and> distinct (map Member rs) \<and>
    Member ` set rs = {m \<in> set members. \<exists>k\<in>set keys. \<exists>s. badger_ZScore E (prefixKey k) m db = Inr s} \<and>
    (\<forall>r\<in>set rs. badger_ZScore E (Key r) (Member r) db = Inr (Score r) \<and>
       (\<exists>pre post. map prefixKey keys = pre @ Key r # post \<and>
          (\<forall>k\<in>set pre. badger_ZScore E k (Member r) db = Inl ErrKeyNotFound)))"
proof -
  note bo = assms(1) and env = badger_outputs.env[OF assms(1)]
  note kv = badger_engine.axioms(1)[OF badger_outputs.axioms(1)[OF bo]]
  have none: "badger_ZScore E k m db = Inl ErrKeyNotFound \<longleftrightarrow> zscore (eview E db) k m = None" for k m
    by (simp add: kv_engine.ZScore_eview[OF kv] split: option.splits)
  obtain rs where rs: "check_keys O' db (map prefixKey keys) members {} = Inr rs" "distinct (map Member rs)"
      "Member ` set rs = {m \<in> set members. \<exists>k\<in>set (map prefixKey keys). zscore (eview E db) k m \<noteq> None} - {}"
      "\<forall>r\<in>set rs. \<exists>pre post. map prefixKey keys = pre @ Key r # post \<and>
         zscore (eview E db) (Key r) (Member r) = Some (Score r) \<and>
         (\<forall>k\<in>set pre. zscore (eview E db) k (Member r) = None)"
    using output_env.check_keys_ok[OF env, of db "map prefixKey keys" members "{}"] by blast
  have "Member ` set rs = {m \<in> set members. \<exists>k\<in>set keys. \<exists>s. badger_ZScore E (prefixKey k) m db = Inr s}"
    unfolding rs(3) badger_outputs.zscore_read[OF bo] by auto
  moreover have "\<forall>r\<in>set rs. badger_ZScore E (Key r) (Member r) db = Inr (Score r) \<and>
       (\<exists>pre post. map prefixKey keys = pre @ Key r # post \<and>
          (\<forall>k\<in>set pre. badger_ZScore E k (Member r) db = Inl ErrKeyNotFound))"
    using rs(4) unfolding none badger_outputs.zscore_read[OF bo] by blast
  moreover have "CheckMembership O' keys members db = Inr rs" using rs(1) by (simp add: CheckMembership_def)
  ultimately show ?thesis using rs(2) by (intro exI[of _ rs] conjI)
qed

lemma demo_key: "prefixKey ''p2pkh'' = ''ev:p2pkh''"
  by (simp add: prefixKey_def KeyEvent_def PfxEvent_def PfxTopic_def numeral_eq_Suc)

lemma check_membership_exact_witness:
  "\<exists>rs. CheckMembership demo_os [''none'', ''p2pkh''] [demo_bytes demo_op] demo_db = Inr rs \<and>
    map Member rs = [demo_bytes demo_op]"
proof -
  obtain rs where rs: "CheckMembership demo_os [''none'', ''p2pkh''] [demo_bytes demo_op] demo_db = Inr rs"
      "distinct (map Member rs)"
      "Member ` set rs = {m \<in> set [demo_bytes demo_op]. \<exists>k\<in>set [''none'', ''p2pkh''].
         \<exists>s. badger_ZScore mem_engine (prefixKey k) m demo_db = Inr s}"
    using check_membership_exact[OF demo_outputs.badger_outputs_axioms demo_db_state(1),
        of "[''none'', ''p2pkh'']" "[demo_bytes demo_op]"] by (elim exE conjE)
  have "badger_ZScore mem_engine (prefixKey ''p2pkh'') (demo_bytes demo_op) demo_db = Inr 1"
    by (simp add: demo_key mem.ZScore_eview demo_db_state(2))
  then have "set (map Member rs) = {demo_bytes demo_op}" using rs(3) by auto
  from rs(2) this have "map Member rs = [demo_bytes demo_op]" by (rule distinct_singleton_set)
  with rs(1) show ?thesis by (intro exI[of _ rs] conjI)
qed

text \<open>
  \<open>Rollback\<close> looks for the outputs of a transaction among the plain values, while
  outputs are written to hashes; with no plain value under the transaction's id it succeeds
  and removes nothing, whatever outputs, spends and events the store holds.
\<close>

theorem rollback_scans_plain_values:
  assumes "badger_outputs E O'" "\<forall>k. prefix txid k \<longrightarrow> badger_Get E k db = Inl ErrKeyNotFound"
  shows "Rollback (Suc n) O' txid db = Some (Inr (), db)"
proof -
  note env = badger_outputs.env[OF assms(1)]
  note kv = badger_engine.axioms(1)[OF badger_outputs.axioms(1)[OF assms(1)]]
  show ?thesis
    by (rule output_env.rollback_nothing[OF env])
      (use assms(2) in \<open>auto simp: kv_engine.Get_eview[OF kv] kv_view_def split: option.splits\<close>)
qed

lemma rollback_scans_plain_values_witness:
  "Rollback 1 demo_os (op_txid demo_op) [] = Some (Inr (), [])"
  using rollback_scans_plain_values[OF demo_outputs.badger_outputs_axioms, of "op_txid demo_op" "[]" 0]
  by (simp add: mem.Get_eview)

end
