(* ===== verification/Template.thy ===== *)
theory Template
  imports Txo
begin

text \<open>
  \<open>pkg/template/inscription\<close>, \<open>pkg/template/bsv21\<close> and \<open>pkg/template/shrug\<close>: reading and
  writing the script of an inscription, of a BSV21 token and of a shrug token. The script
  reader and writer of the transaction library, JSON, Unicode and SHA-256 are parameters, kept in
  the record \<open>script_lib\<close>; \<open>read_laws\<close> and \<open>write_laws\<close> state what the code relies on.
  A Go panic is the value \<open>Panic\<close>; \<open>Diverge\<close> is what a loop that ran out of fuel gives,
  which \<open>read_laws\<close> rules out.
\<close>

section \<open>The libraries\<close>

datatype fault = Panic | Diverge

text \<open>One operation of a script: the opcode and the data it pushes.\<close>

record chunk =
  ck_op :: nat
  ck_data :: bytes

text \<open>A value of a JSON document decoded into \<open>map[string]any\<close>: a string or anything else.\<close>

datatype jval = JStr bytes | JOther

text \<open>The CBOR document of \<open>metadataWire\<close>; an absent byte string is \<open>None\<close>.\<close>

record metadata_wire =
  w_Symbol :: "bytes option"
  w_Icon :: "bytes option"
  w_Decimals :: "8 word option"

text \<open>
  \<open>ReadOp\<close> returns the operation at a position, or fails, and moves the position either way.
  \<open>script_num\<close> is \<open>MakeScriptNumber\<close> with minimal encoding, \<open>num_bytes\<close> its inverse.
\<close>

record script_lib =
  read_op :: "bytes \<Rightarrow> nat \<Rightarrow> chunk option \<times> nat"
  push_data :: "bytes \<Rightarrow> bytes"
  script_num :: "bytes \<Rightarrow> int option"
  num_bytes :: "int \<Rightarrow> bytes"
  sha256 :: "bytes \<Rightarrow> bytes"
  utf8_valid :: "bytes \<Rightarrow> bool"
  to_lower :: "bytes \<Rightarrow> bytes"
  json_parse :: "bytes \<Rightarrow> (bytes \<Rightarrow> jval option) option"
  json_marshal :: "(bytes \<times> bytes) list \<Rightarrow> bytes"
  ordinal_string :: "outpoint \<Rightarrow> bytes"
  outpoint_ok :: "bytes \<Rightarrow> bool"
  cbor_parse :: "bytes \<Rightarrow> metadata_wire option"
  cbor_marshal :: "metadata_wire \<Rightarrow> bytes"

definition OP_DATA3 :: nat where "OP_DATA3 = 3"
definition OP_PUSHDATA4 :: nat where "OP_PUSHDATA4 = 78"
definition OP_16 :: nat where "OP_16 = 96"
definition OP_IF :: char where "OP_IF = CHR 0x63"
definition OP_ENDIF :: char where "OP_ENDIF = CHR 0x68"
definition OP_2DROP :: char where "OP_2DROP = CHR 0x6d"
definition OP_DROP :: char where "OP_DROP = CHR 0x75"
definition OP_0 :: char where "OP_0 = CHR 0x00"
definition OP_1 :: char where "OP_1 = CHR 0x51"

lemmas opcode_defs = OP_DATA3_def OP_PUSHDATA4_def OP_16_def OP_IF_def OP_ENDIF_def OP_2DROP_def
  OP_DROP_def OP_0_def OP_1_def

text \<open>Reading an operation moves forward and never past the end.\<close>

definition read_laws :: "script_lib \<Rightarrow> bool" where
  "read_laws L \<longleftrightarrow>
     (\<forall>scr pos c p. read_op L scr pos = (Some c, p) \<longrightarrow> pos < p \<and> p \<le> length scr) \<and>
     (\<forall>scr pos p. read_op L scr pos = (None, p) \<longrightarrow> pos \<le> length scr \<longrightarrow> p \<le> length scr)"

text \<open>
  What is written is read back: pushed data comes with an opcode that pushes, which up to 75
  bytes is the length; an opcode that pushes nothing is read as itself.
\<close>

definition write_laws :: "script_lib \<Rightarrow> bool" where
  "write_laws L \<longleftrightarrow>
     (\<forall>pre d post. length d < 2 ^ 32 \<longrightarrow>
        (\<exists>k \<le> OP_PUSHDATA4. (length d \<le> 75 \<longrightarrow> k = length d) \<and>
           read_op L (pre @ push_data L d @ post) (length pre) =
             (Some \<lparr>ck_op = k, ck_data = d\<rparr>, length pre + length (push_data L d)))) \<and>
     (\<forall>pre c post. OP_PUSHDATA4 < of_char c \<or> c = OP_0 \<longrightarrow>
        read_op L (pre @ c # post) (length pre) =
          (Some \<lparr>ck_op = of_char c, ck_data = []\<rparr>, Suc (length pre)))"

section \<open>Inscriptions\<close>

record inscription =
  in_hash :: bytes
  in_size :: "32 word"
  in_type :: bytes
  in_content :: bytes
  in_parent :: "outpoint option"
  in_fields :: "bytes \<Rightarrow> bytes option"
  in_prefix :: bytes
  in_suffix :: bytes

definition new_inscription :: "bytes \<Rightarrow> inscription" where
  "new_inscription pre = \<lparr>in_hash = [], in_size = 0, in_type = [], in_content = [], in_parent = None,
     in_fields = Map.empty, in_prefix = pre, in_suffix = []\<rparr>"

text \<open>The number of a field: an opcode above the pushes counts from 80, one byte is itself.\<close>

definition field_number :: "chunk \<Rightarrow> int" where
  "field_number c =
     (if OP_PUSHDATA4 < ck_op c \<and> ck_op c \<le> OP_16 then int (ck_op c) - 80
      else if length (ck_data c) = 1 then int (of_char (ck_data c ! 0)) else 0)"

definition set_field :: "sdk \<Rightarrow> script_lib \<Rightarrow> int \<Rightarrow> bytes \<Rightarrow> inscription \<Rightarrow> inscription" where
  "set_field K L field d insc =
     (if field = 1 then
        (if length d < 256 \<and> utf8_valid L d then insc\<lparr>in_type := d\<rparr> else insc)
      else if field = 3 then
        (if length d = 36 then insc\<lparr>in_parent := op_from_bytes K d\<rparr>
         else if length d = 32 then insc\<lparr>in_parent := Some \<lparr>op_txid = d, op_index = 0\<rparr>\<rparr> else insc)
      else insc)"

definition set_content :: "script_lib \<Rightarrow> bytes \<Rightarrow> inscription \<Rightarrow> inscription" where
  "set_content L d insc = insc\<lparr>in_content := d, in_size := of_nat (length d), in_hash := sha256 L d\<rparr>"

text \<open>
  The loop \<open>ordLoop\<close> over pairs of operations. It returns the inscription from the function
  (\<open>Inl\<close>) or leaves the loop after the content (\<open>Inr\<close>, with the position).
\<close>

fun ord_loop ::
  "sdk \<Rightarrow> script_lib \<Rightarrow> nat \<Rightarrow> bytes \<Rightarrow> nat \<Rightarrow> inscription \<Rightarrow> fault + (inscription + inscription \<times> nat)" where
  "ord_loop K L 0 scr pos insc = Inl Diverge"
| "ord_loop K L (Suc n) scr pos insc =
     (case read_op L scr pos of
        (None, p) \<Rightarrow> Inr (Inl insc)
      | (Some op, p) \<Rightarrow>
          if OP_16 < ck_op op then Inr (Inl insc)
          else (case read_op L scr p of
              (None, q) \<Rightarrow> Inr (Inl insc)
            | (Some op2, q) \<Rightarrow>
                if OP_16 < ck_op op2 then Inr (Inl insc)
                else if \<not> (OP_PUSHDATA4 < ck_op op \<and> ck_op op \<le> OP_16) \<and> length (ck_data op) > 1
                then ord_loop K L n scr q
                       (insc\<lparr>in_fields := (in_fields insc)(ck_data op \<mapsto> ck_data op2)\<rparr>)
                else if field_number op = 0 then Inr (Inr (set_content L (ck_data op2) insc, q))
                else ord_loop K L n scr q (set_field K L (field_number op) (ck_data op2) insc)))"

definition ord_marker :: "bytes \<Rightarrow> nat \<Rightarrow> chunk \<Rightarrow> bool" where
  "ord_marker scr start op \<longleftrightarrow> 2 \<le> start \<and> ck_op op = OP_DATA3 \<and> ck_data op = ''ord'' \<and>
     scr ! (start - 2) = CHR 0x00 \<and> scr ! (start - 1) = OP_IF"

text \<open>The outer loop over the operations of the script.\<close>

fun insc_scan :: "sdk \<Rightarrow> script_lib \<Rightarrow> nat \<Rightarrow> bytes \<Rightarrow> nat \<Rightarrow> fault + inscription option" where
  "insc_scan K L 0 scr pos = Inl Diverge"
| "insc_scan K L (Suc n) scr pos =
     (if length scr \<le> pos then Inr None
      else case read_op L scr pos of
        (None, p) \<Rightarrow> Inr None
      | (Some op, p) \<Rightarrow>
          if ord_marker scr pos op then
            rbind (ord_loop K L (Suc (length scr)) scr p (new_inscription (take (pos - 2) scr))) (\<lambda>r.
              case r of
                Inl insc \<Rightarrow> Inr (Some insc)
              | Inr (insc, q) \<Rightarrow>
                  (case read_op L scr q of
                     (e, q') \<Rightarrow>
                       if e = None \<or> ck_op (the e) = of_char OP_ENDIF then
                         (if length scr < q' then Inl Panic
                          else Inr (Some (insc\<lparr>in_suffix := drop q' scr\<rparr>)))
                       else insc_scan K L n scr q'))
          else insc_scan K L n scr p)"

definition inscription_Decode :: "sdk \<Rightarrow> script_lib \<Rightarrow> bytes \<Rightarrow> fault + inscription option" where
  "inscription_Decode K L scr = insc_scan K L (Suc (length scr)) scr 0"

definition inscription_Lock :: "script_lib \<Rightarrow> inscription \<Rightarrow> bytes" where
  "inscription_Lock L i =
     in_prefix i @ [OP_0, OP_IF] @ push_data L ''ord'' @ [OP_1] @ push_data L (in_type i) @
     [OP_0] @ push_data L (in_content i) @ [OP_ENDIF] @ in_suffix i"

section \<open>BSV21 tokens\<close>

definition OpDeployMint :: bytes where "OpDeployMint = ''deploy+mint''"
definition OpDeployAuth :: bytes where "OpDeployAuth = ''deploy+auth''"
definition OpMint :: bytes where "OpMint = ''mint''"
definition OpAuth :: bytes where "OpAuth = ''auth''"
definition OpTransfer :: bytes where "OpTransfer = ''transfer''"
definition OpBurn :: bytes where "OpBurn = ''burn''"

lemmas token_op_defs = OpDeployMint_def OpDeployAuth_def OpMint_def OpAuth_def OpTransfer_def OpBurn_def

record bsv21 =
  b_Id :: bytes
  b_Op :: bytes
  b_Symbol :: "bytes option"
  b_Decimals :: "8 word option"
  b_Icon :: "bytes option"
  b_Amt :: "64 word"
  b_Insc :: "inscription option"

text \<open>\<open>strconv.ParseUint(s, 10, bits)\<close>: decimal digits only, at least one, in range.\<close>

definition is_digit :: "char \<Rightarrow> bool" where
  "is_digit c \<longleftrightarrow> (48::nat) \<le> of_char c \<and> (of_char c :: nat) \<le> 57"

fun digits_value :: "nat \<Rightarrow> bytes \<Rightarrow> nat" where
  "digits_value acc [] = acc"
| "digits_value acc (c # cs) = digits_value (acc * 10 + (of_char c - 48)) cs"

definition ParseUint :: "bytes \<Rightarrow> nat \<Rightarrow> nat option" where
  "ParseUint s bits =
     (if s \<noteq> [] \<and> list_all is_digit s \<and> digits_value 0 s < 2 ^ bits then Some (digits_value 0 s) else None)"

text \<open>The type assertion \<open>v.(string)\<close> in its one-value form, which panics.\<close>

fun as_string :: "jval \<Rightarrow> fault + bytes" where
  "as_string (JStr s) = Inr s"
| "as_string JOther = Inl Panic"

text \<open>The fields in the order \<open>Decode\<close> reads them; \<open>None\<close> rejects the document.\<close>

definition decode_amt :: "(bytes \<Rightarrow> jval option) \<Rightarrow> bytes \<Rightarrow> 64 word option" where
  "decode_amt data op =
     (if op = OpAuth \<or> op = OpDeployAuth then (if data ''amt'' \<noteq> None then None else Some 0)
      else case data ''amt'' of
        Some (JStr s) \<Rightarrow> map_option of_nat (ParseUint s 64)
      | _ \<Rightarrow> None)"

definition decode_dec :: "(bytes \<Rightarrow> jval option) \<Rightarrow> 8 word option option" where
  "decode_dec data =
     (case data ''dec'' of
        None \<Rightarrow> Some None
      | Some JOther \<Rightarrow> None
      | Some (JStr s) \<Rightarrow>
          (case ParseUint s 8 of None \<Rightarrow> None
           | Some v \<Rightarrow> if v > 18 then None else Some (Some (of_nat v))))"

definition opt_string :: "jval option \<Rightarrow> fault + bytes option" where
  "opt_string v = (case v of None \<Rightarrow> Inr None | Some j \<Rightarrow> rbind (as_string j) (\<lambda>s. Inr (Some s)))"

definition decode_tail :: "script_lib \<Rightarrow> (bytes \<Rightarrow> jval option) \<Rightarrow> bsv21 \<Rightarrow> fault + bsv21 option" where
  "decode_tail L data b =
     (if b_Op b = OpDeployMint \<or> b_Op b = OpDeployAuth then
        rbind (opt_string (data ''sym'')) (\<lambda>sym. rbind (opt_string (data ''icon'')) (\<lambda>icon.
          Inr (Some (b\<lparr>b_Symbol := sym, b_Icon := icon\<rparr>))))
      else if b_Op b = OpMint \<or> b_Op b = OpAuth \<or> b_Op b = OpTransfer \<or> b_Op b = OpBurn then
        (case data ''id'' of None \<Rightarrow> Inr None
         | Some j \<Rightarrow> rbind (as_string j) (\<lambda>s.
             if outpoint_ok L s then Inr (Some (b\<lparr>b_Id := s\<rparr>)) else Inr None))
      else Inr None)"

definition decode_doc ::
  "script_lib \<Rightarrow> inscription \<Rightarrow> (bytes \<Rightarrow> jval option) \<Rightarrow> fault + bsv21 option" where
  "decode_doc L insc data =
     (if data ''p'' \<noteq> Some (JStr ''bsv-20'') then Inr None
      else case data ''op'' of None \<Rightarrow> Inr None
      | Some j \<Rightarrow> rbind (as_string j) (\<lambda>raw. let op = to_lower L raw in
          case decode_amt data op of None \<Rightarrow> Inr None
          | Some amt \<Rightarrow> (case decode_dec data of None \<Rightarrow> Inr None
             | Some dec \<Rightarrow> decode_tail L data
                 \<lparr>b_Id = [], b_Op = op, b_Symbol = None, b_Decimals = dec, b_Icon = None,
                  b_Amt = amt, b_Insc = Some insc\<rparr>)))"

definition bsv21_Decode :: "sdk \<Rightarrow> script_lib \<Rightarrow> bytes \<Rightarrow> fault + bsv21 option" where
  "bsv21_Decode K L scr = rbind (inscription_Decode K L scr) (\<lambda>r.
     case r of None \<Rightarrow> Inr None
     | Some insc \<Rightarrow>
         if in_type insc \<noteq> ''application/bsv-20'' then Inr None
         else (case json_parse L (in_content insc) of None \<Rightarrow> Inr None
           | Some data \<Rightarrow> decode_doc L insc data))"

text \<open>Decimal text of a number, as the JSON encoder writes it.\<close>

fun decimal :: "nat \<Rightarrow> bytes" where
  "decimal n = (if n < 10 then [char_of (48 + n)] else decimal (n div 10) @ [char_of (48 + n mod 10)])"

declare decimal.simps [simp del]

text \<open>
  The members \<open>json.Marshal\<close> writes for the struct, by its tags: \<open>id\<close> unless empty, \<open>op\<close>, the
  optional members unless nil, and \<open>amt\<close> always.
\<close>

definition bsv21_json :: "bsv21 \<Rightarrow> (bytes \<times> bytes) list" where
  "bsv21_json b =
     (if b_Id b = [] then [] else [(''id'', b_Id b)]) @ [(''op'', b_Op b)] @
     (case b_Symbol b of None \<Rightarrow> [] | Some s \<Rightarrow> [(''sym'', s)]) @
     (case b_Decimals b of None \<Rightarrow> [] | Some d \<Rightarrow> [(''dec'', decimal (unat d))]) @
     (case b_Icon b of None \<Rightarrow> [] | Some s \<Rightarrow> [(''icon'', s)]) @
     [(''amt'', decimal (unat (b_Amt b)))]"

definition bsv21_Lock :: "script_lib \<Rightarrow> bsv21 \<Rightarrow> bytes \<Rightarrow> bytes" where
  "bsv21_Lock L b lockingScript =
     inscription_Lock L ((new_inscription [])\<lparr>in_content := json_marshal L (bsv21_json b),
        in_type := ''application/bsv-20'', in_suffix := lockingScript\<rparr>)"

section \<open>Shrug tokens\<close>

record metadata =
  m_Symbol :: "bytes option"
  m_Icon :: "outpoint option"
  m_Decimals :: "8 word option"

definition MetadataContentType :: bytes where
  "MetadataContentType = ''application/shrug+cbor''"

definition metadata_Encode :: "sdk \<Rightarrow> script_lib \<Rightarrow> metadata \<Rightarrow> err + bytes" where
  "metadata_Encode K L m =
     (if (case m_Decimals m of None \<Rightarrow> False | Some d \<Rightarrow> d > 18) then Inl (ErrOther ''dec out of range 0-18'')
      else Inr (cbor_marshal L \<lparr>w_Symbol = m_Symbol m,
        w_Icon = map_option (op_bytes K) (m_Icon m), w_Decimals = m_Decimals m\<rparr>))"

definition DecodeMetadata :: "sdk \<Rightarrow> script_lib \<Rightarrow> bytes \<Rightarrow> err + metadata" where
  "DecodeMetadata K L d =
     (case cbor_parse L d of
        None \<Rightarrow> Inl (ErrOther ''invalid shrug metadata'')
      | Some w \<Rightarrow>
          if (case w_Decimals w of None \<Rightarrow> False | Some d \<Rightarrow> d > 18) then Inl (ErrOther ''dec out of range 0-18'')
          else (case w_Icon w of
              None \<Rightarrow> Inr \<lparr>m_Symbol = w_Symbol w, m_Icon = None, m_Decimals = w_Decimals w\<rparr>
            | Some b \<Rightarrow>
                if length b \<noteq> 36 then Inl (ErrOther ''icon must be 36 bytes'')
                else Inr \<lparr>m_Symbol = w_Symbol w, m_Icon = op_from_bytes K b, m_Decimals = w_Decimals w\<rparr>))"

text \<open>The tag, in UTF-8.\<close>

definition SHRUG_TAG :: bytes where
  "SHRUG_TAG = map char_of [0xC2::nat, 0xAF, 0x5C, 0x5F, 0x28, 0xE3, 0x83, 0x84, 0x29, 0x5F, 0x2F, 0xC2, 0xAF]"

record shrug =
  s_Id :: "outpoint option"
  s_Amount :: "int option"
  s_ScriptSuffix :: bytes
  s_Insc :: "inscription option"
  s_Metadata :: "metadata option"

text \<open>A step of \<open>Decode\<close>: the next operation, which must satisfy the guard.\<close>

definition next_op :: "script_lib \<Rightarrow> bytes \<Rightarrow> nat \<Rightarrow> (chunk \<Rightarrow> bool) \<Rightarrow> (chunk \<times> nat) option" where
  "next_op L scr pos ok =
     (case read_op L scr pos of (Some c, p) \<Rightarrow> (if ok c then Some (c, p) else None) | (None, p) \<Rightarrow> None)"

definition shrug_head :: "sdk \<Rightarrow> script_lib \<Rightarrow> bytes \<Rightarrow> (outpoint option \<times> int \<times> nat) option" where
  "shrug_head K L scr =
     Option.bind (next_op L scr 0 (\<lambda>c. ck_data c = SHRUG_TAG)) (\<lambda>(c, p1).
     Option.bind (next_op L scr p1 (\<lambda>c. ck_op c \<le> OP_PUSHDATA4 \<and> length (ck_data c) \<in> {0, 36})) (\<lambda>(cid, p2).
     Option.bind (next_op L scr p2 (\<lambda>c. ck_op c = of_char OP_2DROP)) (\<lambda>(c, p3).
     Option.bind (next_op L scr p3 (\<lambda>c. ck_op c \<le> OP_PUSHDATA4)) (\<lambda>(cnum, p4).
     Option.bind (script_num L (ck_data cnum)) (\<lambda>v.
     if v < 0 then None else
     Option.bind (next_op L scr p4 (\<lambda>c. ck_op c = of_char OP_DROP)) (\<lambda>(c, p5).
     Some (if length (ck_data cid) = 36 then op_from_bytes K (ck_data cid) else None, v, p5)))))))"

definition shrug_Decode :: "sdk \<Rightarrow> script_lib \<Rightarrow> bytes \<Rightarrow> fault + shrug option" where
  "shrug_Decode K L scr =
     (case shrug_head K L scr of
        None \<Rightarrow> Inr None
      | Some (i, v, pos) \<Rightarrow>
          if length scr < pos then Inl Panic
          else rbind (inscription_Decode K L (drop pos scr)) (\<lambda>insc. Inr (Some
            \<lparr>s_Id = i, s_Amount = Some v, s_ScriptSuffix = drop pos scr, s_Insc = insc,
             s_Metadata = (case insc of None \<Rightarrow> None
               | Some n \<Rightarrow> if in_type n = MetadataContentType
                    then (case DecodeMetadata K L (in_content n) of Inl e \<Rightarrow> None | Inr m \<Rightarrow> Some m)
                    else None)\<rparr>)))"

definition shrug_Lock :: "sdk \<Rightarrow> script_lib \<Rightarrow> shrug \<Rightarrow> bytes" where
  "shrug_Lock K L i =
     push_data L SHRUG_TAG @
     (case s_Id i of Some op \<Rightarrow> push_data L (op_bytes K op) | None \<Rightarrow> [OP_0]) @ [OP_2DROP] @
     (case s_Amount i of
        Some a \<Rightarrow> (if 0 < a then push_data L (num_bytes L a) else [OP_0])
      | None \<Rightarrow> [OP_0]) @ [OP_DROP] @ s_ScriptSuffix i"

end
