(* ===== verification/TopicBase.thy ===== *)
theory TopicBase
  imports Template
begin

text \<open>
  What the two token topics (\<open>pkg/bsv21/topic_validated.go\<close>, \<open>pkg/shrug/topic_validated.go\<close>)
  share: the view of a transaction with its inputs' sources, the admittance instructions and the
  missing-input error (\<open>pkg/overlay/errors.go\<close>), and the locale of a pass over the inputs, which
  both topics instantiate.
\<close>

section \<open>Transactions and instructions\<close>

text \<open>
  An input has its source's id and index, whether the source transaction is attached, and the
  locking script of its source output when that is known (\<open>SourceTxOutput\<close>).
\<close>

record topic_input =
  ti_txid :: txid
  ti_index :: "32 word"
  ti_loaded :: bool
  ti_source :: "bytes option"

record topic_tx =
  tt_inputs :: "topic_input list"
  tt_outputs :: "bytes list"

definition ti_outpoint :: "topic_input \<Rightarrow> outpoint" where
  "ti_outpoint x = \<lparr>op_txid = ti_txid x, op_index = ti_index x\<rparr>"

record admittance =
  OutputsToAdmit :: "32 word list"
  CoinsToRetain :: "32 word list"
  AncillaryTxids :: "txid list"

definition no_admittance :: admittance where
  "no_admittance = \<lparr>OutputsToAdmit = [], CoinsToRetain = [], AncillaryTxids = []\<rparr>"

record missing_input =
  mi_tx :: txid
  mi_input :: "32 word"
  mi_missing :: txid
  mi_output :: "32 word"
  mi_topic :: bytes

datatype topic_err = InvalidBeef | MissingInput missing_input | TopicFault fault

definition lift_fault :: "fault + 'a \<Rightarrow> topic_err + 'a" where
  "lift_fault r = (case r of Inl f \<Rightarrow> Inl (TopicFault f) | Inr x \<Rightarrow> Inr x)"

text \<open>The topic manager: its topic and its whitelist of token ids, if any.\<close>

record topic_manager =
  tm_topic :: bytes
  tm_tokenIds :: "bytes list option"

definition missing_error :: "topic_manager \<Rightarrow> txid \<Rightarrow> nat \<Rightarrow> topic_input \<Rightarrow> topic_err" where
  "missing_error M txid vin x = MissingInput
     \<lparr>mi_tx = txid, mi_input = of_nat vin, mi_missing = ti_txid x, mi_output = ti_index x, mi_topic = tm_topic M\<rparr>"

definition supd :: "('s \<Rightarrow> 's) \<Rightarrow> ('s, 'e, unit) sm" where
  "supd f = (\<lambda>s. (Inr (), f s))"

text \<open>\<open>bits.Add64\<close> without a carry in.\<close>

definition Add64 :: "64 word \<Rightarrow> 64 word \<Rightarrow> 64 word \<times> bool" where
  "Add64 x y = (x + y, 2 ^ 64 \<le> unat x + unat y)"

lemma Add64_no_carry: "\<not> snd (Add64 x y) \<Longrightarrow> unat (fst (Add64 x y)) = unat x + unat y"
  by (simp add: Add64_def unat_word_ariths)

section \<open>Passes\<close>

text \<open>A loop that succeeds has met each element's events in order.\<close>

lemma sfor_collect:
  assumes step: "\<And>x s t es. Inv es s \<Longrightarrow> f x s = (Inr (), t) \<Longrightarrow> Inv (es @ g x) t"
    and "Inv es s" and "sfor f xs s = (Inr (), t)"
  shows "Inv (es @ concat (map g xs)) t"
  using assms(2,3)
proof (induction xs arbitrary: es s)
  case Nil
  then show ?case by (simp add: sret_def)
next
  case (Cons x xs)
  obtain s' where s': "f x s = (Inr (), s')" "sfor f xs s' = (Inr (), t)"
    using Cons.prems(2) by (auto simp: step_simps split: prod.splits sum.splits)
  show ?case using Cons.IH[OF step[OF Cons.prems(1) s'(1)] s'(2)] by simp
qed

text \<open>The positions of the inputs that a predicate selects.\<close>

definition needed :: "(topic_input \<Rightarrow> bool) \<Rightarrow> nat \<Rightarrow> topic_input list \<Rightarrow> 32 word list" where
  "needed P n xs = map (\<lambda>(i, x). of_nat i) (filter (\<lambda>(i, x). P x) (List.enumerate n xs))"

lemma needed_simps:
  "needed P n [] = []" "needed P n (x # xs) = (if P x then of_nat n # needed P (Suc n) xs else needed P (Suc n) xs)"
  by (simp_all add: needed_def)

text \<open>
  The contract of the loop over the inputs, in terms of the token ids that have outputs: an input
  that needs to be a known coin is retained, or stops the loop when it is not one; an input that is
  touched has its source recorded.
\<close>

locale input_pass =
  fixes step :: "nat \<times> topic_input \<Rightarrow> ('st, topic_err, unit) sm"
    and toks :: "'st \<Rightarrow> bytes set" and adm :: "'st \<Rightarrow> admittance" and anc :: "'st \<Rightarrow> txid list"
    and prev :: "32 word list" and missing :: "nat \<Rightarrow> topic_input \<Rightarrow> topic_err"
    and touch need :: "bytes set \<Rightarrow> topic_input \<Rightarrow> bool"
  assumes step_ok: "step (i, x) s = (Inr (), t) \<Longrightarrow>
      toks t = toks s \<and> OutputsToAdmit (adm t) = OutputsToAdmit (adm s) \<and> AncillaryTxids (adm t) = AncillaryTxids (adm s) \<and>
      CoinsToRetain (adm t) = CoinsToRetain (adm s) @ (if need (toks s) x then [of_nat i] else []) \<and>
      set (anc t) = set (anc s) \<union> (if touch (toks s) x then {ti_txid x} else {}) \<and>
      (need (toks s) x \<longrightarrow> of_nat i \<in> set prev)"
    and step_err: "step (i, x) s = (Inl e, t) \<Longrightarrow>
      (\<exists>f. e = TopicFault f) \<or> e = missing i x \<and> need (toks s) x \<and> of_nat i \<notin> set prev"
begin

lemma pass_ok:
  assumes "sfor step (List.enumerate n xs) s = (Inr (), t)"
  shows "toks t = toks s \<and> OutputsToAdmit (adm t) = OutputsToAdmit (adm s) \<and> AncillaryTxids (adm t) = AncillaryTxids (adm s) \<and>
    CoinsToRetain (adm t) = CoinsToRetain (adm s) @ needed (need (toks s)) n xs \<and>
    set (anc t) = set (anc s) \<union> ti_txid ` {x \<in> set xs. touch (toks s) x} \<and>
    set (needed (need (toks s)) n xs) \<subseteq> set prev"
  using assms
proof (induction xs arbitrary: n s)
  case Nil
  then show ?case by (simp add: sret_def needed_simps)
next
  case (Cons x xs)
  obtain s' where s': "step (n, x) s = (Inr (), s')" "sfor step (List.enumerate (Suc n) xs) s' = (Inr (), t)"
    using Cons.prems by (auto simp: step_simps split: prod.splits sum.splits)
  show ?case using step_ok[OF s'(1)] Cons.IH[OF s'(2)] by (auto simp: needed_simps)
qed

lemma pass_err:
  assumes "sfor step (List.enumerate n xs) s = (Inl e, t)" and "\<nexists>f. e = TopicFault f"
  shows "\<exists>k < length xs. e = missing (n + k) (xs ! k) \<and> need (toks s) (xs ! k) \<and> of_nat (n + k) \<notin> set prev \<and>
    set (needed (need (toks s)) n (take k xs)) \<subseteq> set prev"
  using assms(1)
proof (induction xs arbitrary: n s)
  case Nil
  then show ?case by (simp add: sret_def)
next
  case (Cons x xs)
  show ?case
  proof (cases "step (n, x) s")
    case (Pair r s')
    show ?thesis
    proof (cases r)
      case (Inl e')
      then have "e' = e" using Cons.prems Pair by (simp add: step_simps)
      then show ?thesis using step_err[of n x s e s'] assms(2) Pair Inl by (intro exI[of _ 0]) (auto simp: needed_simps)
    next
      case (Inr u)
      then have h: "step (n, x) s = (Inr (), s')" "sfor step (List.enumerate (Suc n) xs) s' = (Inl e, t)"
        using Cons.prems Pair by (simp_all add: step_simps)
      obtain k where "k < length xs" "e = missing (Suc n + k) (xs ! k)" "need (toks s) (xs ! k)"
        "of_nat (Suc n + k) \<notin> set prev" "set (needed (need (toks s)) (Suc n) (take k xs)) \<subseteq> set prev"
        using Cons.IH[OF h(2)] step_ok[OF h(1)] by auto
      then show ?thesis using step_ok[OF h(1)] by (intro exI[of _ "Suc k"]) (auto simp: needed_simps)
    qed
  qed
qed

end

end
