(* ===== verification/Bsv21Topic.thy ===== *)
theory Bsv21Topic
  imports TopicBase "HOL-Library.AList"
begin

text \<open>
  \<open>pkg/bsv21/topic_validated.go\<close>: which outputs of a transaction the BSV21 topic admits. The outputs
  are classified first, then the inputs, into one summary for each token id; then each token's
  outputs are admitted by its balance and by its authority. Go ranges over the summaries and over the
  set of ancillary ids in any order: \<open>rngS\<close> and \<open>rngA\<close> are that order.
\<close>

definition NewBsv21ValidatedTopicManager :: "bytes \<Rightarrow> bytes list \<Rightarrow> topic_manager" where
  "NewBsv21ValidatedTopicManager topic ids =
     \<lparr>tm_topic = topic, tm_tokenIds = (if length ids > 0 then Some ids else None)\<rparr>"

definition bsv21_HasTokenId :: "topic_manager \<Rightarrow> bytes \<Rightarrow> bool" where
  "bsv21_HasTokenId M i = (case tm_tokenIds M of None \<Rightarrow> True | Some ids \<Rightarrow> i \<in> set ids)"

section \<open>Summaries\<close>

record token_summary =
  tokensIn :: "64 word"
  transferOut :: "64 word"
  burnOut :: "64 word"
  transferVouts :: "32 word list"
  burnVouts :: "32 word list"
  mintVouts :: "32 word list"
  authVouts :: "32 word list"
  hasAuthInput :: bool
  ts_overflow :: bool

definition new_summary :: token_summary where
  "new_summary = \<lparr>tokensIn = 0, transferOut = 0, burnOut = 0, transferVouts = [], burnVouts = [],
     mintVouts = [], authVouts = [], hasAuthInput = False, ts_overflow = False\<rparr>"

text \<open>The method \<open>add\<close> on an accumulator: the new value, and whether the sum would have wrapped.\<close>

definition ts_add :: "64 word \<Rightarrow> 64 word \<Rightarrow> bool \<Rightarrow> 64 word \<times> bool" where
  "ts_add acc amt overflow =
     (let (sum, carry) = Add64 acc amt in if carry then (acc, True) else (sum, overflow))"

definition add_transferOut :: "64 word \<Rightarrow> token_summary \<Rightarrow> token_summary" where
  "add_transferOut amt ts = (let (v, ov) = ts_add (transferOut ts) amt (ts_overflow ts)
     in ts\<lparr>transferOut := v, ts_overflow := ov\<rparr>)"

definition add_burnOut :: "64 word \<Rightarrow> token_summary \<Rightarrow> token_summary" where
  "add_burnOut amt ts = (let (v, ov) = ts_add (burnOut ts) amt (ts_overflow ts)
     in ts\<lparr>burnOut := v, ts_overflow := ov\<rparr>)"

definition add_tokensIn :: "64 word \<Rightarrow> token_summary \<Rightarrow> token_summary" where
  "add_tokensIn amt ts = (let (v, ov) = ts_add (tokensIn ts) amt (ts_overflow ts)
     in ts\<lparr>tokensIn := v, ts_overflow := ov\<rparr>)"

text \<open>The variables of the function: the summaries, the ancillary ids and the result.\<close>

record bsv_state =
  bs_summary :: "(bytes \<times> token_summary) list"
  bs_anc :: "txid list"
  bs_admit :: admittance

definition upd_summary :: "bytes \<Rightarrow> (token_summary \<Rightarrow> token_summary) \<Rightarrow> bsv_state \<Rightarrow> bsv_state" where
  "upd_summary i f st = st\<lparr>bs_summary := AList.update i
     (f (case map_of (bs_summary st) i of None \<Rightarrow> new_summary | Some ts \<Rightarrow> ts)) (bs_summary st)\<rparr>"

section \<open>The passes\<close>

text \<open>For a deploy the token id is the outpoint of the deploy itself.\<close>

definition own_id :: "script_lib \<Rightarrow> outpoint \<Rightarrow> bsv21 \<Rightarrow> bsv21" where
  "own_id L op b = (if b_Op b = OpDeployMint \<or> b_Op b = OpDeployAuth then b\<lparr>b_Id := ordinal_string L op\<rparr> else b)"

definition record_output :: "32 word \<Rightarrow> bsv21 \<Rightarrow> bsv_state \<Rightarrow> bsv_state" where
  "record_output v b st =
     (if b_Op b = OpDeployMint \<or> b_Op b = OpDeployAuth then
        st\<lparr>bs_admit := (bs_admit st)\<lparr>OutputsToAdmit := OutputsToAdmit (bs_admit st) @ [v]\<rparr>\<rparr>
      else if b_Op b = OpTransfer then
        upd_summary (b_Id b) (\<lambda>ts. (add_transferOut (b_Amt b) ts)\<lparr>transferVouts := transferVouts ts @ [v]\<rparr>) st
      else if b_Op b = OpBurn then
        upd_summary (b_Id b) (\<lambda>ts. (add_burnOut (b_Amt b) ts)\<lparr>burnVouts := burnVouts ts @ [v]\<rparr>) st
      else if b_Op b = OpMint then
        upd_summary (b_Id b) (\<lambda>ts. ts\<lparr>mintVouts := mintVouts ts @ [v]\<rparr>) st
      else if b_Op b = OpAuth then
        upd_summary (b_Id b) (\<lambda>ts. ts\<lparr>authVouts := authVouts ts @ [v]\<rparr>) st
      else st)"

definition classify_output ::
  "topic_manager \<Rightarrow> sdk \<Rightarrow> script_lib \<Rightarrow> txid \<Rightarrow> nat \<times> bytes \<Rightarrow> (bsv_state, topic_err, unit) sm" where
  "classify_output M K L txid = (\<lambda>(vout, scr). sbind (slift (lift_fault (bsv21_Decode K L scr))) (\<lambda>d.
     case d of None \<Rightarrow> sret ()
     | Some b0 \<Rightarrow> let b = own_id L \<lparr>op_txid = txid, op_index = of_nat vout\<rparr> b0 in
         if \<not> bsv21_HasTokenId M (b_Id b) then sret () else supd (record_output (of_nat vout) b)))"

definition retain :: "nat \<Rightarrow> bsv_state \<Rightarrow> bsv_state" where
  "retain vin st = st\<lparr>bs_admit := (bs_admit st)\<lparr>CoinsToRetain := CoinsToRetain (bs_admit st) @ [of_nat vin]\<rparr>\<rparr>"

text \<open>The switch over the operation of an input whose token has outputs.\<close>

definition record_input ::
  "topic_manager \<Rightarrow> txid \<Rightarrow> 32 word list \<Rightarrow> nat \<Rightarrow> topic_input \<Rightarrow> bsv21 \<Rightarrow> (bsv_state, topic_err, unit) sm" where
  "record_input M txid prev vin x b =
     (if b_Op b = OpBurn then sret ()
      else if b_Op b = OpAuth \<or> b_Op b = OpDeployAuth then
        (if of_nat vin \<notin> set prev then sfail (missing_error M txid vin x)
         else supd (\<lambda>st. upd_summary (b_Id b) (\<lambda>ts. ts\<lparr>hasAuthInput := True\<rparr>) (retain vin st)))
      else if b_Op b = OpTransfer \<or> b_Op b = OpMint \<or> b_Op b = OpDeployMint then
        (if of_nat vin \<notin> set prev then sfail (missing_error M txid vin x)
         else supd (\<lambda>st. upd_summary (b_Id b) (add_tokensIn (b_Amt b)) (retain vin st)))
      else sret ())"

definition classify_input ::
  "topic_manager \<Rightarrow> sdk \<Rightarrow> script_lib \<Rightarrow> txid \<Rightarrow> 32 word list \<Rightarrow> nat \<times> topic_input \<Rightarrow> (bsv_state, topic_err, unit) sm" where
  "classify_input M K L txid prev = (\<lambda>(vin, x).
     case ti_source x of None \<Rightarrow> sret ()
     | Some scr \<Rightarrow> sbind (slift (lift_fault (bsv21_Decode K L scr))) (\<lambda>d.
         case d of None \<Rightarrow> sret ()
         | Some b0 \<Rightarrow> let b = own_id L (ti_outpoint x) b0 in
             if \<not> bsv21_HasTokenId M (b_Id b) then sret ()
             else (\<lambda>st. if map_of (bs_summary st) (b_Id b) = None then (Inr (), st)
                        else record_input M txid prev vin x b (st\<lparr>bs_anc := List.insert (ti_txid x) (bs_anc st)\<rparr>))))"

text \<open>The decision for one token.\<close>

definition admit_token :: "bytes \<times> token_summary \<Rightarrow> 32 word list \<Rightarrow> 32 word list" where
  "admit_token = (\<lambda>(i, ts) adm.
     let (out, carry) = Add64 (transferOut ts) (burnOut ts);
         adm1 = (if \<not> ts_overflow ts \<and> \<not> carry \<and> out \<le> tokensIn ts
                 then adm @ transferVouts ts @ burnVouts ts else adm)
     in if hasAuthInput ts then adm1 @ mintVouts ts @ authVouts ts else adm1)"

definition finish ::
  "((bytes \<times> token_summary) list \<Rightarrow> (bytes \<times> token_summary) list) \<Rightarrow> (txid list \<Rightarrow> txid list) \<Rightarrow> bsv_state \<Rightarrow> bsv_state" where
  "finish rngS rngA st =
     (let a = bs_admit st;
          a1 = a\<lparr>OutputsToAdmit := fold admit_token (rngS (bs_summary st)) (OutputsToAdmit a)\<rparr>
      in st\<lparr>bs_admit := (if bs_anc st = [] then a1 else a1\<lparr>AncillaryTxids := rngA (bs_anc st)\<rparr>)\<rparr>)"

definition bsv21_IdentifyAdmissibleOutputs ::
  "topic_manager \<Rightarrow> sdk \<Rightarrow> script_lib \<Rightarrow>
   ((bytes \<times> token_summary) list \<Rightarrow> (bytes \<times> token_summary) list) \<Rightarrow> (txid list \<Rightarrow> txid list) \<Rightarrow>
   (txid \<Rightarrow> topic_tx option) \<Rightarrow> txid \<Rightarrow> 32 word list \<Rightarrow> (topic_err + unit) \<times> admittance" where
  "bsv21_IdentifyAdmissibleOutputs M K L rngS rngA beef txid prev =
     (case beef txid of
        None \<Rightarrow> (Inl InvalidBeef, no_admittance)
      | Some tx \<Rightarrow>
          let (r, st) = sseq (sfor (classify_output M K L txid) (List.enumerate 0 (tt_outputs tx)))
            (\<lambda>st. if bs_summary st = [] then (Inr (), st)
                  else sseq (sfor (classify_input M K L txid prev) (List.enumerate 0 (tt_inputs tx)))
                         (supd (finish rngS rngA)) st)
            \<lparr>bs_summary = [], bs_anc = [], bs_admit = no_admittance\<rparr>
          in (r, bs_admit st))"

section \<open>The inputs to fetch\<close>

text \<open>
  \<open>IdentifyNeededInputs\<close>. The optional loader gives a transaction as its output scripts, or none.
\<close>

fun output_tokens :: "topic_manager \<Rightarrow> sdk \<Rightarrow> script_lib \<Rightarrow> bytes list \<Rightarrow> topic_err + bytes list" where
  "output_tokens M K L [] = Inr []"
| "output_tokens M K L (scr # scrs) =
     rbind (lift_fault (bsv21_Decode K L scr)) (\<lambda>d. rbind (output_tokens M K L scrs) (\<lambda>ids.
       case d of None \<Rightarrow> Inr ids
       | Some b \<Rightarrow>
           if b_Op b = OpDeployMint \<or> b_Op b = OpDeployAuth \<or> \<not> bsv21_HasTokenId M (b_Id b) then Inr ids
           else Inr (List.insert (b_Id b) ids)))"

definition needs_input ::
  "sdk \<Rightarrow> script_lib \<Rightarrow> (txid \<Rightarrow> bytes list option) option \<Rightarrow> bytes list \<Rightarrow> topic_input \<Rightarrow> topic_err + bool" where
  "needs_input K L loader ids x =
     (if ti_loaded x then Inr False
      else case loader of None \<Rightarrow> Inr True
      | Some load \<Rightarrow> (case load (ti_txid x) of None \<Rightarrow> Inr True
          | Some outs \<Rightarrow>
              if length outs \<le> unat (ti_index x) then Inr False
              else rbind (lift_fault (bsv21_Decode K L (outs ! unat (ti_index x)))) (\<lambda>d.
                case d of None \<Rightarrow> Inr False
                | Some b \<Rightarrow> Inr (b_Id (own_id L (ti_outpoint x) b) \<in> set ids))))"

fun needed_inputs ::
  "sdk \<Rightarrow> script_lib \<Rightarrow> (txid \<Rightarrow> bytes list option) option \<Rightarrow> bytes list \<Rightarrow> topic_input list \<Rightarrow> topic_err + outpoint list" where
  "needed_inputs K L loader ids [] = Inr []"
| "needed_inputs K L loader ids (x # xs) =
     rbind (needs_input K L loader ids x) (\<lambda>n. rbind (needed_inputs K L loader ids xs) (\<lambda>ops.
       Inr (if n then ti_outpoint x # ops else ops)))"

definition bsv21_IdentifyNeededInputs ::
  "topic_manager \<Rightarrow> sdk \<Rightarrow> script_lib \<Rightarrow> (txid \<Rightarrow> bytes list option) option \<Rightarrow> (txid \<Rightarrow> topic_tx option) \<Rightarrow> txid \<Rightarrow>
   topic_err + outpoint list" where
  "bsv21_IdentifyNeededInputs M K L loader beef txid =
     (case beef txid of
        None \<Rightarrow> Inl InvalidBeef
      | Some tx \<Rightarrow> rbind (output_tokens M K L (tt_outputs tx)) (\<lambda>ids.
          if ids = [] then Inr [] else needed_inputs K L loader ids (tt_inputs tx)))"

end
