(* ===== verification/TemplateLaws.thy ===== *)
theory TemplateLaws
  imports Template
begin

text \<open>
  Facts about the script templates: every decoder ends within its fuel, what the writers of an
  inscription and of a shrug token write is read back, and what a decoded BSV21 token is.
\<close>

section \<open>Reading always ends\<close>

lemma read_some:
  assumes "read_laws L" and "read_op L scr pos = (Some c, p)"
  shows "pos < p \<and> p \<le> length scr"
  using assms by (auto simp: read_laws_def)

lemma read_none:
  assumes "read_laws L" and "read_op L scr pos = (None, p)" and "pos \<le> length scr"
  shows "p \<le> length scr"
  using assms by (auto simp: read_laws_def)

lemma ord_loop_returns:
  assumes "read_laws L" and "length scr - pos < n" and "pos \<le> length scr"
  shows "\<exists>r. ord_loop K L n scr pos insc = Inr r \<and> (\<forall>i q. r = Inr (i, q) \<longrightarrow> pos < q \<and> q \<le> length scr)"
  using assms(2,3)
proof (induction n arbitrary: pos insc)
  case 0
  then show ?case by simp
next
  case (Suc n)
  have go: "\<exists>r. ord_loop K L n scr q i = Inr r \<and> (\<forall>i q'. r = Inr (i, q') \<longrightarrow> pos < q' \<and> q' \<le> length scr)"
    if h: "read_op L scr pos = (Some a, p)" "read_op L scr p = (Some b, q)" for a b p q i
  proof -
    have "pos < q" "q \<le> length scr" using read_some[OF assms(1) h(1)] read_some[OF assms(1) h(2)] by auto
    then show ?thesis using Suc.IH[of q i] Suc.prems by (meson diff_less_mono2 less_Suc_eq_le less_le_trans order.strict_trans)
  qed
  have le: "pos < q \<and> q \<le> length scr"
    if h: "read_op L scr pos = (Some a, p)" "read_op L scr p = (Some b, q)" for a b p q
    using read_some[OF assms(1) h(1)] read_some[OF assms(1) h(2)] by auto
  show ?case
    by (auto split: prod.split option.split intro: go dest: le simp del: fun_upd_apply)
qed

lemma insc_scan_returns:
  assumes "read_laws L" and "length scr - pos < n"
  shows "\<exists>r. insc_scan K L n scr pos = Inr r"
  using assms(2)
proof (induction n arbitrary: pos)
  case 0
  then show ?case by simp
next
  case (Suc n)
  have go: "\<exists>r. insc_scan K L n scr q = Inr r" if "pos < q" "pos < length scr" for q
    using Suc.IH[of q] Suc.prems that by (meson diff_less_mono2 less_Suc_eq_le less_le_trans)
  have ol: "\<exists>r. ord_loop K L (Suc (length scr)) scr p i = Inr r \<and> (\<forall>i q. r = Inr (i, q) \<longrightarrow> p < q \<and> q \<le> length scr)"
    if "read_op L scr pos = (Some c, p)" for c p i
    using ord_loop_returns[OF assms(1), of scr p "Suc (length scr)" K i] read_some[OF assms(1) that]
    by (simp add: less_Suc_eq_le del: ord_loop.simps)
  show ?case
  proof (cases "length scr \<le> pos")
    case False
    show ?thesis
    proof (cases "read_op L scr pos")
      case (Pair a p)
      show ?thesis
      proof (cases a)
        case (Some op)
        have rd: "read_op L scr pos = (Some op, p)" using Pair Some by simp
        have p: "pos < p" "p \<le> length scr" using read_some[OF assms(1) rd] by auto
        show ?thesis
        proof (cases "ord_marker scr pos op")
          case True
          obtain r where r: "ord_loop K L (Suc (length scr)) scr p (new_inscription (take (pos - 2) scr)) = Inr r"
            "\<forall>i q. r = Inr (i, q) \<longrightarrow> p < q \<and> q \<le> length scr" using ol[OF rd] by blast
          show ?thesis
          proof (cases r)
            case (Inl i)
            then show ?thesis using False rd True r(1) by (simp del: ord_loop.simps)
          next
            case (Inr iq)
            obtain i q where iq: "iq = (i, q)" by (cases iq)
            obtain e q' where e: "read_op L scr q = (e, q')" by (cases "read_op L scr q")
            have q: "p < q" "q \<le> length scr" using r(2) Inr iq by auto
            have q': "q' \<le> length scr" "e \<noteq> None \<Longrightarrow> q < q'"
              using read_some[OF assms(1)] read_none[OF assms(1)] e q by (cases e; blast)+
            show ?thesis
              using False rd True r(1) Inr iq e q q' p go by (cases e) (auto simp del: ord_loop.simps)
          qed
        next
          case no: False
          then show ?thesis using False rd go p by simp
        qed
      qed (use Pair False in simp)
    qed
  qed simp
qed

lemma inscription_Decode_returns: "read_laws L \<Longrightarrow> \<exists>r. inscription_Decode K L scr = Inr r"
  unfolding inscription_Decode_def by (rule insc_scan_returns) auto


lemma next_op_le:
  assumes "read_laws L" and "next_op L scr pos ok = Some (c, p)"
  shows "pos < p \<and> p \<le> length scr"
  using assms(2) read_some[OF assms(1)] by (auto simp: next_op_def split: prod.splits option.splits if_splits)

lemma shrug_head_end:
  assumes "read_laws L" and "shrug_head K L scr = Some (i, v, p)"
  shows "p \<le> length scr"
proof -
  obtain p4 ok c where "next_op L scr p4 ok = Some (c, p)"
    using assms(2) by (auto simp: shrug_head_def bind_eq_Some_conv split: if_splits)
  then show ?thesis using next_op_le[OF assms(1)] by blast
qed

lemma shrug_Decode_returns:
  assumes "read_laws L"
  shows "\<exists>r. shrug_Decode K L scr = Inr r"
proof (cases "shrug_head K L scr")
  case None
  then show ?thesis by (simp add: shrug_Decode_def)
next
  case (Some h)
  obtain i v p where h: "h = (i, v, p)" by (cases h)
  obtain r where "inscription_Decode K L (drop p scr) = Inr r" using inscription_Decode_returns[OF assms] by blast
  then show ?thesis using Some shrug_head_end[OF assms, of K scr i v p] h by (simp add: shrug_Decode_def)
qed

section \<open>Round trips\<close>

text \<open>A script before an inscription: pushed data other than the marker, and opcodes.\<close>

datatype piece = Push bytes | Opc char

fun piece_bytes :: "script_lib \<Rightarrow> piece \<Rightarrow> bytes" where
  "piece_bytes L (Push d) = push_data L d"
| "piece_bytes L (Opc c) = [c]"

fun piece_ok :: "piece \<Rightarrow> bool" where
  "piece_ok (Push d) \<longleftrightarrow> length d < 2 ^ 32 \<and> d \<noteq> ''ord''"
| "piece_ok (Opc c) \<longleftrightarrow> OP_PUSHDATA4 < of_char c \<or> c = OP_0"

lemma read_push:
  assumes "write_laws L" and "length d < 2 ^ 32"
  obtains k where "k \<le> OP_PUSHDATA4" and "length d \<le> 75 \<Longrightarrow> k = length d"
    and "read_op L (pre @ push_data L d @ post) (length pre) =
      (Some \<lparr>ck_op = k, ck_data = d\<rparr>, length pre + length (push_data L d))"
  using assms unfolding write_laws_def by blast

lemma read_opc:
  assumes "write_laws L" and "OP_PUSHDATA4 < of_char c \<or> c = OP_0"
  shows "read_op L (pre @ c # post) (length pre) = (Some \<lparr>ck_op = of_char c, ck_data = []\<rparr>, Suc (length pre))"
  using assms unfolding write_laws_def by blast

lemma piece_read:
  assumes "write_laws L" and "piece_ok x"
  obtains c where "read_op L (pre @ piece_bytes L x @ post) (length pre) = (Some c, length pre + length (piece_bytes L x))"
    and "ck_data c \<noteq> ''ord''"
proof (cases x)
  case (Push d)
  then show ?thesis using that assms read_push[OF assms(1), of d pre post] by (metis chunk.select_convs(2) piece_bytes.simps(1) piece_ok.simps(1))
next
  case (Opc c)
  then show ?thesis using that assms read_opc[OF assms(1), of c pre post] by simp
qed

lemma scan_piece:
  assumes "read_laws L" and "write_laws L" and "piece_ok x" and "scr = pre @ piece_bytes L x @ post"
    and "length scr - length pre < n"
  shows "\<exists>m. length scr - length (pre @ piece_bytes L x) < m \<and>
    insc_scan K L n scr (length pre) = insc_scan K L m scr (length (pre @ piece_bytes L x))"
proof -
  obtain m where n: "n = Suc m" using assms(5) by (cases n) auto
  obtain c where c: "read_op L scr (length pre) = (Some c, length pre + length (piece_bytes L x))" "ck_data c \<noteq> ''ord''"
    using piece_read[OF assms(2,3), of pre post] assms(4) by metis
  have mv: "length pre < length pre + length (piece_bytes L x)" "length pre + length (piece_bytes L x) \<le> length scr"
    using read_some[OF assms(1) c(1)] by auto
  have lt: "length pre < length scr" using mv by linarith
  have "\<not> ord_marker scr (length pre) c" using c(2) by (simp add: ord_marker_def)
  then have eq: "insc_scan K L n scr (length pre) = insc_scan K L m scr (length (pre @ piece_bytes L x))"
    using c(1) lt by (simp add: n del: ord_loop.simps)
  show ?thesis
  proof (intro exI[of _ m] conjI eq)
    show "length scr - length (pre @ piece_bytes L x) < m"
      using mv lt assms(5) unfolding n length_append by linarith
  qed
qed

lemma scan_pieces:
  assumes "read_laws L" and "write_laws L" and "list_all piece_ok ps"
    and "scr = pre @ concat (map (piece_bytes L) ps) @ post" and "length scr - length pre < n"
  shows "\<exists>m. length scr - length (pre @ concat (map (piece_bytes L) ps)) < m \<and>
    insc_scan K L n scr (length pre) = insc_scan K L m scr (length (pre @ concat (map (piece_bytes L) ps)))"
  using assms(3-5)
proof (induction ps arbitrary: pre n)
  case Nil
  then show ?case by auto
next
  case (Cons x ps)
  obtain m where m: "length scr - length (pre @ piece_bytes L x) < m"
    "insc_scan K L n scr (length pre) = insc_scan K L m scr (length (pre @ piece_bytes L x))"
    using scan_piece[OF assms(1,2), of x scr pre "concat (map (piece_bytes L) ps) @ post" n] Cons.prems by auto
  show ?case using Cons.IH[of "pre @ piece_bytes L x" m] Cons.prems m by simp
qed


text \<open>The two reads of a pair of the envelope, and the loop over them.\<close>

lemma ord_loop_pair:
  assumes "read_op L scr pos = (Some op, p)" and "read_op L scr p = (Some op2, q)"
    and "ck_op op \<le> OP_16" and "ck_op op2 \<le> OP_16"
    and "OP_PUSHDATA4 < ck_op op \<or> length (ck_data op) \<le> 1"
  shows "ord_loop K L (Suc n) scr pos insc =
    (if field_number op = 0 then Inr (Inr (set_content L (ck_data op2) insc, q))
     else ord_loop K L n scr q (set_field K L (field_number op) (ck_data op2) insc))"
  using assms by (auto simp: field_number_def)

lemma ord_loop_written:
  assumes "write_laws L" and "length ty < 256" and "utf8_valid L ty" and "length ct < 2 ^ 32"
    and scr: "scr = pre @ [OP_1] @ push_data L ty @ [OP_0] @ push_data L ct @ post"
  shows "ord_loop K L (Suc (Suc n)) scr (length pre) insc =
    Inr (Inr (set_content L ct (insc\<lparr>in_type := ty\<rparr>), length (pre @ [OP_1] @ push_data L ty @ [OP_0] @ push_data L ct)))"
proof -
  let ?p1 = "pre @ [OP_1]" and ?p2 = "pre @ [OP_1] @ push_data L ty" and ?p3 = "pre @ [OP_1] @ push_data L ty @ [OP_0]"
  have r1: "read_op L scr (length pre) = (Some \<lparr>ck_op = of_char OP_1, ck_data = []\<rparr>, length ?p1)"
    using read_opc[OF assms(1), of OP_1 pre "push_data L ty @ [OP_0] @ push_data L ct @ post"]
    by (simp add: scr opcode_defs)
  have ty: "length ty < 2 ^ 32" using assms(2) by simp
  obtain k where k: "k \<le> OP_PUSHDATA4"
    "read_op L (?p1 @ push_data L ty @ [OP_0] @ push_data L ct @ post) (length ?p1) =
      (Some \<lparr>ck_op = k, ck_data = ty\<rparr>, length ?p1 + length (push_data L ty))"
    using read_push[OF assms(1) ty, of ?p1 "[OP_0] @ push_data L ct @ post"] by metis
  then have r2: "read_op L scr (length ?p1) = (Some \<lparr>ck_op = k, ck_data = ty\<rparr>, length ?p2)" by (simp add: scr)
  have r3: "read_op L scr (length ?p2) = (Some \<lparr>ck_op = of_char OP_0, ck_data = []\<rparr>, length ?p3)"
    using read_opc[OF assms(1), of OP_0 ?p2 "push_data L ct @ post"] by (simp add: scr opcode_defs)
  obtain j where j: "j \<le> OP_PUSHDATA4"
    "read_op L (?p3 @ push_data L ct @ post) (length ?p3) =
      (Some \<lparr>ck_op = j, ck_data = ct\<rparr>, length ?p3 + length (push_data L ct))"
    using read_push[OF assms(1,4), of ?p3 post] by metis
  then have r4: "read_op L scr (length ?p3) = (Some \<lparr>ck_op = j, ck_data = ct\<rparr>, length (?p3 @ push_data L ct))"
    by (simp add: scr)
  have f: "field_number \<lparr>ck_op = of_char OP_1, ck_data = []\<rparr> = 1" "field_number \<lparr>ck_op = of_char OP_0, ck_data = []\<rparr> = 0"
    by (simp_all add: field_number_def opcode_defs)
  show ?thesis
    using ord_loop_pair[OF r1 r2, of K "Suc n" insc] ord_loop_pair[OF r3 r4, of K n "insc\<lparr>in_type := ty\<rparr>"] k(1) j(1) f assms(2,3)
    by (simp add: opcode_defs set_field_def del: ord_loop.simps)
qed

definition read_back :: "script_lib \<Rightarrow> inscription \<Rightarrow> inscription" where
  "read_back L i = (set_content L (in_content i) ((new_inscription (in_prefix i))\<lparr>in_type := in_type i\<rparr>))
     \<lparr>in_suffix := in_suffix i\<rparr>"

lemma ord_read:
  assumes "write_laws L"
  shows "read_op L (pre @ push_data L ''ord'' @ post) (length pre) =
    (Some \<lparr>ck_op = OP_DATA3, ck_data = ''ord''\<rparr>, length pre + length (push_data L ''ord''))"
proof -
  have "length ''ord'' < 2 ^ 32" by simp
  then obtain k where "length ''ord'' \<le> 75 \<Longrightarrow> k = length ''ord''"
    "read_op L (pre @ push_data L ''ord'' @ post) (length pre) =
      (Some \<lparr>ck_op = k, ck_data = ''ord''\<rparr>, length pre + length (push_data L ''ord''))"
    using read_push[OF assms, of "''ord''" pre post] by metis
  then show ?thesis by (simp add: OP_DATA3_def)
qed

lemma scan_envelope:
  assumes "pos < length scr" and "read_op L scr pos = (Some op, p)" and "ord_marker scr pos op"
    and "ord_loop K L (Suc (length scr)) scr p (new_inscription (take (pos - 2) scr)) = Inr (Inr (insc, q))"
    and "read_op L scr q = (Some e, q')" and "ck_op e = of_char OP_ENDIF" and "q' \<le> length scr"
  shows "insc_scan K L (Suc n) scr pos = Inr (Some (insc\<lparr>in_suffix := drop q' scr\<rparr>))"
  using assms by (simp del: ord_loop.simps)

lemma inscription_round_trip_aux:
  assumes laws: "read_laws L" "write_laws L" and pre: "list_all piece_ok ps" "in_prefix i = concat (map (piece_bytes L) ps)"
    and ty: "length (in_type i) < 256" "utf8_valid L (in_type i)" and ct: "length (in_content i) < 2 ^ 32"
  shows "inscription_Decode K L (inscription_Lock L i) = Inr (Some (read_back L i))"
proof -
  let ?scr = "inscription_Lock L i"
  let ?hd = "in_prefix i @ [OP_0, OP_IF]"
  let ?h2 = "?hd @ push_data L ''ord''"
  let ?h3 = "?h2 @ [OP_1] @ push_data L (in_type i) @ [OP_0] @ push_data L (in_content i)"
  have scr: "?scr = ?hd @ push_data L ''ord'' @ [OP_1] @ push_data L (in_type i) @ [OP_0] @ push_data L (in_content i) @
      [OP_ENDIF] @ in_suffix i"
    by (simp add: inscription_Lock_def)
  have ok: "list_all piece_ok (ps @ [Opc OP_0, Opc OP_IF])" using pre(1) by (simp add: opcode_defs)
  obtain m where m: "length ?scr - length ?hd < m"
    "insc_scan K L (Suc (length ?scr)) ?scr 0 = insc_scan K L m ?scr (length ?hd)"
    using scan_pieces[OF laws ok, where pre = "[]" and scr = ?scr and n = "Suc (length ?scr)" and K = K
        and post = "push_data L ''ord'' @ [OP_1] @ push_data L (in_type i) @ [OP_0] @ push_data L (in_content i) @
          [OP_ENDIF] @ in_suffix i"] by (auto simp: scr pre(2))
  obtain m' where m': "m = Suc m'" using m(1) by (cases m) auto
  have r0: "read_op L ?scr (length ?hd) = (Some \<lparr>ck_op = OP_DATA3, ck_data = ''ord''\<rparr>, length ?h2)"
    using ord_read[OF laws(2), of ?hd] by (simp add: scr)
  have mk: "ord_marker ?scr (length ?hd) \<lparr>ck_op = OP_DATA3, ck_data = ''ord''\<rparr>"
    by (simp add: ord_marker_def scr nth_append OP_0_def)
  obtain l where l: "length ?scr = Suc l" by (auto simp: scr)
  have lt: "length ?hd < length ?scr" using read_some[OF laws(1) r0] by linarith
  have lp: "ord_loop K L (Suc (length ?scr)) ?scr (length ?h2) (new_inscription (in_prefix i)) =
    Inr (Inr (set_content L (in_content i) ((new_inscription (in_prefix i))\<lparr>in_type := in_type i\<rparr>), length ?h3))"
    using ord_loop_written[OF laws(2) ty ct, where pre = ?h2 and scr = ?scr and n = l and K = K
      and post = "[OP_ENDIF] @ in_suffix i" and insc = "new_inscription (in_prefix i)"]
    by (simp only: l) (simp add: scr)
  have re: "read_op L ?scr (length ?h3) = (Some \<lparr>ck_op = of_char OP_ENDIF, ck_data = []\<rparr>, Suc (length ?h3))"
    using read_opc[OF laws(2), of OP_ENDIF ?h3 "in_suffix i"] by (simp add: scr opcode_defs)
  have tk: "take (length ?hd - 2) ?scr = in_prefix i" "drop (Suc (length ?h3)) ?scr = in_suffix i"
    "Suc (length ?h3) \<le> length ?scr"
  proof -
    have e: "?scr = (?h3 @ [OP_ENDIF]) @ in_suffix i" "length (?h3 @ [OP_ENDIF]) = Suc (length ?h3)"
      by (simp_all add: scr)
    then show "drop (Suc (length ?h3)) ?scr = in_suffix i" by (metis append_eq_conv_conj)
    show "Suc (length ?h3) \<le> length ?scr" by (simp add: scr)
    show "take (length ?hd - 2) ?scr = in_prefix i" by (simp add: scr)
  qed
  have "insc_scan K L (Suc m') ?scr (length ?hd) = Inr (Some (read_back L i))"
    unfolding read_back_def
    by (subst scan_envelope[OF lt r0 mk _ re _ tk(3)], simp only: tk(1) lp, simp, simp only: tk(2))
  then show ?thesis unfolding inscription_Decode_def m(2) m' .
qed

section \<open>BSV21 documents\<close>

lemma bsv21_Decode_faults:
  assumes "read_laws L" and "bsv21_Decode K L scr = Inl f"
  shows "f = Panic"
proof -
  obtain r where r: "inscription_Decode K L scr = Inr r" using inscription_Decode_returns[OF assms(1)] by blast
  have s: "as_string j = Inl e \<Longrightarrow> e = Panic" for j e by (cases j) auto
  have o: "opt_string v = Inl e \<Longrightarrow> e = Panic" for v e
    by (auto simp: opt_string_def rbind_eq_Inl dest: s split: option.splits)
  have t: "decode_tail L data b = Inl e \<Longrightarrow> e = Panic" for data b e
    by (auto simp: decode_tail_def rbind_eq_Inl dest: s o split: if_splits option.splits)
  have d: "decode_doc L insc data = Inl e \<Longrightarrow> e = Panic" for insc data e
    by (auto simp: decode_doc_def Let_def rbind_eq_Inl dest: s t split: if_splits option.splits)
  show ?thesis using assms(2) d by (auto simp: bsv21_Decode_def r split: option.splits if_splits)
qed

definition token_wf :: "script_lib \<Rightarrow> bsv21 \<Rightarrow> bool" where
  "token_wf L b \<longleftrightarrow>
     b_Op b \<in> {OpDeployMint, OpDeployAuth, OpMint, OpAuth, OpTransfer, OpBurn} \<and>
     (b_Op b \<in> {OpAuth, OpDeployAuth} \<longrightarrow> b_Amt b = 0) \<and>
     (if b_Op b \<in> {OpDeployMint, OpDeployAuth} then b_Id b = []
      else outpoint_ok L (b_Id b) \<and> b_Symbol b = None \<and> b_Icon b = None) \<and>
     (\<forall>d. b_Decimals b = Some d \<longrightarrow> d \<le> 18)"

lemma decode_dec_le: "decode_dec data = Some (Some d) \<Longrightarrow> d \<le> 18"
  by (auto simp: decode_dec_def word_le_nat_alt unsigned_of_nat take_bit_nat_eq_self ParseUint_def
      split: option.splits jval.splits if_splits)

lemma bsv21_Decode_wf_aux:
  assumes "bsv21_Decode K L scr = Inr (Some b)"
  shows "token_wf L b"
proof -
  have ne: "OpDeployMint \<noteq> OpMint" "OpDeployMint \<noteq> OpAuth" "OpDeployMint \<noteq> OpTransfer" "OpDeployMint \<noteq> OpBurn"
    "OpDeployAuth \<noteq> OpMint" "OpDeployAuth \<noteq> OpAuth" "OpDeployAuth \<noteq> OpTransfer" "OpDeployAuth \<noteq> OpBurn"
    "OpMint \<noteq> OpAuth" "OpTransfer \<noteq> OpAuth" "OpBurn \<noteq> OpAuth" "OpDeployMint \<noteq> OpDeployAuth"
    by (simp_all add: token_op_defs)
  obtain insc data where doc: "decode_doc L insc data = Inr (Some b)"
    using assms by (auto simp: bsv21_Decode_def rbind_eq_Inr split: option.splits if_splits)
  obtain op amt dec where d: "decode_amt data op = Some amt" "decode_dec data = Some dec"
    "decode_tail L data \<lparr>b_Id = [], b_Op = op, b_Symbol = None, b_Decimals = dec, b_Icon = None,
        b_Amt = amt, b_Insc = Some insc\<rparr> = Inr (Some b)"
    using doc by (auto simp: decode_doc_def Let_def rbind_eq_Inr split: option.splits if_splits)
  have "op \<in> {OpAuth, OpDeployAuth} \<Longrightarrow> amt = 0" using d(1) by (auto simp: decode_amt_def split: if_splits)
  moreover have "\<And>w. dec = Some w \<Longrightarrow> w \<le> 18" using d(2) decode_dec_le by blast
  ultimately show ?thesis using d(3) ne
    by (auto simp: decode_tail_def token_wf_def rbind_eq_Inr split: if_splits option.splits)
qed

text \<open>What the encoder writes has no member \<open>p\<close>.\<close>

lemma bsv21_json_no_p: "map_of (bsv21_json b) ''p'' = None"
  by (simp add: bsv21_json_def split: option.split)

lemma bsv21_Lock_unread:
  assumes "read_laws L" and "write_laws L" and "utf8_valid L ''application/bsv-20''"
    and "length (json_marshal L (bsv21_json b)) < 2 ^ 32"
    and "json_parse L (json_marshal L (bsv21_json b)) = Some (map_option JStr \<circ> map_of (bsv21_json b))"
  shows "bsv21_Decode K L (bsv21_Lock L b s) = Inr None"
proof -
  let ?i = "(new_inscription [])\<lparr>in_content := json_marshal L (bsv21_json b), in_type := ''application/bsv-20'', in_suffix := s\<rparr>"
  have "inscription_Decode K L (inscription_Lock L ?i) = Inr (Some (read_back L ?i))"
    by (rule inscription_round_trip_aux[OF assms(1,2), of "[]"]) (use assms(3,4) in \<open>simp_all add: new_inscription_def\<close>)
  then show ?thesis
    by (simp add: bsv21_Decode_def bsv21_Lock_def read_back_def set_content_def assms(5) decode_doc_def bsv21_json_no_p)
qed

section \<open>Shrug tokens\<close>

lemma next_push:
  assumes "write_laws L" and "length d < 2 ^ 32" and "scr = pre @ push_data L d @ post"
    and "\<And>k. k \<le> OP_PUSHDATA4 \<Longrightarrow> ok \<lparr>ck_op = k, ck_data = d\<rparr>"
  shows "\<exists>c. ck_data c = d \<and> next_op L scr (length pre) ok = Some (c, length (pre @ push_data L d))"
  using read_push[OF assms(1,2), of pre post] assms(3,4) by (fastforce simp: next_op_def)

lemma next_opc:
  assumes "write_laws L" and "OP_PUSHDATA4 < of_char x \<or> x = OP_0" and "scr = pre @ [x] @ post"
    and "ok \<lparr>ck_op = of_char x, ck_data = []\<rparr>"
  shows "\<exists>c. ck_data c = [] \<and> next_op L scr (length pre) ok = Some (c, length (pre @ [x]))"
  using read_opc[OF assms(1,2), of pre post] assms(3,4) by (auto simp: next_op_def)

text \<open>An optional pushed datum, or \<open>OP_0\<close>, is read back as its bytes or none.\<close>

lemma next_push_or_0:
  assumes "write_laws L" and "length d < 2 ^ 32" and "w = push_data L d \<or> w = [OP_0] \<and> d = []"
    and "scr = pre @ w @ post" and "\<And>k. k \<le> OP_PUSHDATA4 \<Longrightarrow> ok \<lparr>ck_op = k, ck_data = d\<rparr>"
  shows "\<exists>c. ck_data c = d \<and> next_op L scr (length pre) ok = Some (c, length (pre @ w))"
  using next_push[OF assms(1,2), of scr pre post ok] next_opc[OF assms(1), of OP_0 scr pre post ok] assms(3-5)
  by (auto simp: OP_0_def)

lemma shrug_head_written:
  assumes "write_laws L" and "length idb = 0 \<or> length idb = 36" and "length nb < 2 ^ 32" and "script_num L nb = Some v" and "0 \<le> v"
    and wi: "wi = push_data L idb \<or> wi = [OP_0] \<and> idb = []" and wn: "wn = push_data L nb \<or> wn = [OP_0] \<and> nb = []"
    and scr: "scr = push_data L SHRUG_TAG @ wi @ [OP_2DROP] @ wn @ [OP_DROP] @ s"
  shows "shrug_head K L scr = Some (if length idb = 36 then op_from_bytes K idb else None, v, length scr - length s)"
proof -
  let ?p1 = "push_data L SHRUG_TAG" let ?p2 = "?p1 @ wi" let ?p3 = "?p2 @ [OP_2DROP]" let ?p4 = "?p3 @ wn" let ?p5 = "?p4 @ [OP_DROP]"
  obtain c1 where c1: "next_op L scr 0 (\<lambda>c. ck_data c = SHRUG_TAG) = Some (c1, length ?p1)"
    using next_push[OF assms(1), of SHRUG_TAG scr "[]" "wi @ [OP_2DROP] @ wn @ [OP_DROP] @ s" "\<lambda>c. ck_data c = SHRUG_TAG"]
    by (auto simp: scr SHRUG_TAG_def)
  obtain c2 where c2: "ck_data c2 = idb"
    "next_op L scr (length ?p1) (\<lambda>c. ck_op c \<le> OP_PUSHDATA4 \<and> length (ck_data c) \<in> {0, 36}) = Some (c2, length ?p2)"
    using next_push_or_0[OF assms(1) _ wi, of scr ?p1 "[OP_2DROP] @ wn @ [OP_DROP] @ s"
        "\<lambda>c. ck_op c \<le> OP_PUSHDATA4 \<and> length (ck_data c) \<in> {0, 36}"] assms(2) by (auto simp: scr)
  obtain c3 where c3: "next_op L scr (length ?p2) (\<lambda>c. ck_op c = of_char OP_2DROP) = Some (c3, length ?p3)"
    using next_opc[OF assms(1), of OP_2DROP scr ?p2 "wn @ [OP_DROP] @ s" "\<lambda>c. ck_op c = of_char OP_2DROP"]
    by (auto simp: scr opcode_defs)
  obtain c4 where c4: "ck_data c4 = nb"
    "next_op L scr (length ?p3) (\<lambda>c. ck_op c \<le> OP_PUSHDATA4) = Some (c4, length ?p4)"
    using next_push_or_0[OF assms(1,3) wn, of scr ?p3 "[OP_DROP] @ s" "\<lambda>c. ck_op c \<le> OP_PUSHDATA4"] by (auto simp: scr)
  obtain c5 where c5: "next_op L scr (length ?p4) (\<lambda>c. ck_op c = of_char OP_DROP) = Some (c5, length ?p5)"
    using next_opc[OF assms(1), of OP_DROP scr ?p4 s "\<lambda>c. ck_op c = of_char OP_DROP"] by (auto simp: scr opcode_defs)
  have "length scr - length s = length ?p5" by (simp add: scr)
  moreover have "\<not> v < 0" using assms(5) by simp
  ultimately show ?thesis
    by (simp only: shrug_head_def c1 c2(2) c3 c4(2) c5 c2(1) c4(1) assms(4) Option.bind.simps prod.case if_False)
qed

lemma drop_suffix: "x = u @ s \<Longrightarrow> drop (length x - length s) x = s"
  by simp

lemma shrug_round_trip_aux:
  assumes laws: "read_laws L" "write_laws L"
    and i: "\<And>op. s_Id i = Some op \<Longrightarrow> length (op_bytes K op) = 36 \<and> op_from_bytes K (op_bytes K op) = Some op"
    and a: "\<And>a. s_Amount i = Some a \<Longrightarrow> 0 < a \<Longrightarrow> length (num_bytes L a) < 2 ^ 32 \<and> script_num L (num_bytes L a) = Some a"
    and z: "script_num L [] = Some 0"
  shows "\<exists>j. shrug_Decode K L (shrug_Lock K L i) = Inr (Some j) \<and> s_Id j = s_Id i \<and>
    s_Amount j = Some (case s_Amount i of None \<Rightarrow> 0 | Some a \<Rightarrow> max 0 a) \<and> s_ScriptSuffix j = s_ScriptSuffix i"
proof -
  let ?idb = "case s_Id i of None \<Rightarrow> [] | Some op \<Rightarrow> op_bytes K op"
  let ?v = "case s_Amount i of None \<Rightarrow> 0 | Some a \<Rightarrow> max 0 a"
  let ?nb = "if 0 < ?v then num_bytes L ?v else []"
  let ?wi = "case s_Id i of Some op \<Rightarrow> push_data L (op_bytes K op) | None \<Rightarrow> [OP_0]"
  let ?wn = "case s_Amount i of Some a \<Rightarrow> (if 0 < a then push_data L (num_bytes L a) else [OP_0]) | None \<Rightarrow> [OP_0]"
  let ?scr = "shrug_Lock K L i"
  have head: "shrug_head K L ?scr = Some (if length ?idb = 36 then op_from_bytes K ?idb else None, ?v, length ?scr - length (s_ScriptSuffix i))"
  proof (rule shrug_head_written[OF laws(2), where wi = ?wi and wn = ?wn and nb = ?nb])
    show "length ?idb = 0 \<or> length ?idb = 36" using i by (auto split: option.split)
    show "length ?nb < 2 ^ 32" using a by (auto split: option.split simp: max_def)
    show "script_num L ?nb = Some ?v" using a z by (auto split: option.split simp: max_def)
    show "0 \<le> ?v" by (simp split: option.split)
    show "?wi = push_data L ?idb \<or> ?wi = [OP_0] \<and> ?idb = []" by (simp split: option.split)
    show "?wn = push_data L ?nb \<or> ?wn = [OP_0] \<and> ?nb = []" by (simp split: option.split)
    show "?scr = push_data L SHRUG_TAG @ ?wi @ [OP_2DROP] @ ?wn @ [OP_DROP] @ s_ScriptSuffix i"
      unfolding shrug_Lock_def by simp
  qed
  have id: "(if length ?idb = 36 then op_from_bytes K ?idb else None) = s_Id i" using i by (auto split: option.split)
  have sfx: "\<not> length ?scr < length ?scr - length (s_ScriptSuffix i)"
    "drop (length ?scr - length (s_ScriptSuffix i)) ?scr = s_ScriptSuffix i"
  proof -
    have e: "?scr = (push_data L SHRUG_TAG @ ?wi @ [OP_2DROP] @ ?wn @ [OP_DROP]) @ s_ScriptSuffix i"
      unfolding shrug_Lock_def by simp
    show "drop (length ?scr - length (s_ScriptSuffix i)) ?scr = s_ScriptSuffix i" by (rule drop_suffix[OF e])
  qed linarith
  obtain r where "inscription_Decode K L (s_ScriptSuffix i) = Inr r" using inscription_Decode_returns[OF laws(1)] by blast
  then show ?thesis using head sfx id by (simp add: shrug_Decode_def)
qed

end
