(* ===== verification/Bsv21Laws.thy ===== *)
theory Bsv21Laws
  imports Bsv21Topic TemplateLaws "HOL-Library.Multiset"
begin

text \<open>
  What the two passes of the BSV21 topic leave: the summaries hold the exact sums of the
  transaction's tokens, or the overflow mark, and the positions of its outputs by operation.
\<close>

section \<open>The tokens of a transaction\<close>

text \<open>The tokens that the topic sees at an output and at an input.\<close>

definition out_event :: "topic_manager \<Rightarrow> sdk \<Rightarrow> script_lib \<Rightarrow> txid \<Rightarrow> nat \<times> bytes \<Rightarrow> (32 word \<times> bsv21) list" where
  "out_event M K L txid = (\<lambda>(vout, scr). case bsv21_Decode K L scr of
     Inr (Some b0) \<Rightarrow> let b = own_id L \<lparr>op_txid = txid, op_index = of_nat vout\<rparr> b0 in
       if bsv21_HasTokenId M (b_Id b) then [(of_nat vout, b)] else []
   | _ \<Rightarrow> [])"

definition input_token :: "topic_manager \<Rightarrow> sdk \<Rightarrow> script_lib \<Rightarrow> topic_input \<Rightarrow> bsv21 option" where
  "input_token M K L x = (case ti_source x of None \<Rightarrow> None
     | Some scr \<Rightarrow> (case bsv21_Decode K L scr of
         Inr (Some b0) \<Rightarrow> let b = own_id L (ti_outpoint x) b0 in if bsv21_HasTokenId M (b_Id b) then Some b else None
       | _ \<Rightarrow> None))"

definition in_event :: "topic_manager \<Rightarrow> sdk \<Rightarrow> script_lib \<Rightarrow> nat \<times> topic_input \<Rightarrow> (32 word \<times> bsv21) list" where
  "in_event M K L = (\<lambda>(vin, x). case input_token M K L x of None \<Rightarrow> [] | Some b \<Rightarrow> [(of_nat vin, b)])"

definition tx_out_events :: "topic_manager \<Rightarrow> sdk \<Rightarrow> script_lib \<Rightarrow> txid \<Rightarrow> topic_tx \<Rightarrow> (32 word \<times> bsv21) list" where
  "tx_out_events M K L txid tx = concat (map (out_event M K L txid) (List.enumerate 0 (tt_outputs tx)))"

definition tx_in_events :: "topic_manager \<Rightarrow> sdk \<Rightarrow> script_lib \<Rightarrow> topic_tx \<Rightarrow> (32 word \<times> bsv21) list" where
  "tx_in_events M K L tx = concat (map (in_event M K L) (List.enumerate 0 (tt_inputs tx)))"

text \<open>The amounts of a token's events with one of some operations, as a list and as a number.\<close>

definition amounts :: "bytes list \<Rightarrow> bytes \<Rightarrow> (32 word \<times> bsv21) list \<Rightarrow> 64 word list" where
  "amounts ops i evs = map (b_Amt \<circ> snd) (filter (\<lambda>(v, b). b_Op b \<in> set ops \<and> b_Id b = i) evs)"

definition total :: "bytes list \<Rightarrow> bytes \<Rightarrow> (32 word \<times> bsv21) list \<Rightarrow> nat" where
  "total ops i evs = sum_list (map unat (amounts ops i evs))"

definition vouts :: "bytes \<Rightarrow> bytes \<Rightarrow> (32 word \<times> bsv21) list \<Rightarrow> 32 word list" where
  "vouts op i evs = map fst (filter (\<lambda>(v, b). b_Op b = op \<and> b_Id b = i) evs)"

abbreviation deploy_ops :: "bytes list" where "deploy_ops \<equiv> [OpDeployMint, OpDeployAuth]"
abbreviation dep_ops :: "bytes list" where "dep_ops \<equiv> [OpTransfer, OpBurn, OpMint, OpAuth]"
abbreviation spend_ops :: "bytes list" where "spend_ops \<equiv> [OpTransfer, OpMint, OpDeployMint]"
abbreviation authority_ops :: "bytes list" where "authority_ops \<equiv> [OpAuth, OpDeployAuth]"

lemma amounts_simps:
  "amounts ops i [] = []"
  "amounts ops i (evs @ [(v, b)]) = amounts ops i evs @ (if b_Op b \<in> set ops \<and> b_Id b = i then [b_Amt b] else [])"
  by (simp_all add: amounts_def)

lemma token_total_simps:
  "total ops i [] = 0"
  "total ops i (evs @ [(v, b)]) = total ops i evs + (if b_Op b \<in> set ops \<and> b_Id b = i then unat (b_Amt b) else 0)"
  by (auto simp: total_def amounts_simps)

lemma vouts_simps:
  "vouts op i [] = []"
  "vouts op i (evs @ [(v, b)]) = vouts op i evs @ (if b_Op b = op \<and> b_Id b = i then [v] else [])"
  by (simp_all add: vouts_def)

lemma op_neq:
  "OpDeployMint \<noteq> OpDeployAuth" "OpDeployMint \<noteq> OpMint" "OpDeployMint \<noteq> OpAuth" "OpDeployMint \<noteq> OpTransfer"
  "OpDeployMint \<noteq> OpBurn" "OpDeployAuth \<noteq> OpMint" "OpDeployAuth \<noteq> OpAuth" "OpDeployAuth \<noteq> OpTransfer"
  "OpDeployAuth \<noteq> OpBurn" "OpMint \<noteq> OpAuth" "OpMint \<noteq> OpTransfer" "OpMint \<noteq> OpBurn" "OpAuth \<noteq> OpTransfer"
  "OpAuth \<noteq> OpBurn" "OpTransfer \<noteq> OpBurn"
  by (simp_all add: token_op_defs)

lemmas op_neqs [simp] = op_neq op_neq[symmetric]

section \<open>Sums that do not wrap\<close>

text \<open>An accumulator holds the sum of what was added, unless that does not fit.\<close>

definition holds :: "64 word \<Rightarrow> nat \<Rightarrow> bool" where
  "holds acc n \<longleftrightarrow> (n < 2 ^ 64 \<longrightarrow> unat acc = n)"

text \<open>The mark is set exactly when one of the three sums does not fit.\<close>

definition tally :: "nat \<Rightarrow> nat \<Rightarrow> nat \<Rightarrow> token_summary \<Rightarrow> bool" where
  "tally t b n ts \<longleftrightarrow> holds (transferOut ts) t \<and> holds (burnOut ts) b \<and> holds (tokensIn ts) n \<and>
     (ts_overflow ts \<longleftrightarrow> 2 ^ 64 \<le> t \<or> 2 ^ 64 \<le> b \<or> 2 ^ 64 \<le> n)"

lemma ts_add_holds:
  assumes "holds acc n" and "ov \<longleftrightarrow> 2 ^ 64 \<le> n \<or> q" and "ts_add acc amt ov = (acc', ov')"
  shows "holds acc' (n + unat amt) \<and> (ov' \<longleftrightarrow> 2 ^ 64 \<le> n + unat amt \<or> q)"
proof (cases "n < 2 ^ 64")
  case True
  then have "unat acc = n" using assms(1) by (simp add: holds_def)
  then show ?thesis using assms(2,3) True Add64_no_carry[of acc amt]
    by (auto simp: ts_add_def Add64_def holds_def split: if_splits)
next
  case False
  then show ?thesis using assms(2,3) by (auto simp: ts_add_def holds_def split: if_splits prod.splits)
qed

lemma tally_new: "tally 0 0 0 new_summary"
  by (simp add: tally_def holds_def new_summary_def)

lemma add_transferOut_simps [simp]:
  "burnOut (add_transferOut a ts) = burnOut ts" "tokensIn (add_transferOut a ts) = tokensIn ts"
  "transferVouts (add_transferOut a ts) = transferVouts ts" "burnVouts (add_transferOut a ts) = burnVouts ts"
  "mintVouts (add_transferOut a ts) = mintVouts ts" "authVouts (add_transferOut a ts) = authVouts ts"
  "hasAuthInput (add_transferOut a ts) = hasAuthInput ts"
  by (simp_all add: add_transferOut_def split: prod.split)

lemma add_burnOut_simps [simp]:
  "transferOut (add_burnOut a ts) = transferOut ts" "tokensIn (add_burnOut a ts) = tokensIn ts"
  "transferVouts (add_burnOut a ts) = transferVouts ts" "burnVouts (add_burnOut a ts) = burnVouts ts"
  "mintVouts (add_burnOut a ts) = mintVouts ts" "authVouts (add_burnOut a ts) = authVouts ts"
  "hasAuthInput (add_burnOut a ts) = hasAuthInput ts"
  by (simp_all add: add_burnOut_def split: prod.split)

lemma add_tokensIn_simps [simp]:
  "transferOut (add_tokensIn a ts) = transferOut ts" "burnOut (add_tokensIn a ts) = burnOut ts"
  "transferVouts (add_tokensIn a ts) = transferVouts ts" "burnVouts (add_tokensIn a ts) = burnVouts ts"
  "mintVouts (add_tokensIn a ts) = mintVouts ts" "authVouts (add_tokensIn a ts) = authVouts ts"
  "hasAuthInput (add_tokensIn a ts) = hasAuthInput ts"
  by (simp_all add: add_tokensIn_def split: prod.split)

lemma tally_update [simp]:
  "tally t b n (ts\<lparr>transferVouts := vs\<rparr>) = tally t b n ts" "tally t b n (ts\<lparr>burnVouts := vs\<rparr>) = tally t b n ts"
  "tally t b n (ts\<lparr>mintVouts := vs\<rparr>) = tally t b n ts" "tally t b n (ts\<lparr>authVouts := vs\<rparr>) = tally t b n ts"
  "tally t b n (ts\<lparr>hasAuthInput := h\<rparr>) = tally t b n ts"
  by (simp_all add: tally_def)

lemma tally_transfer: "tally t b n ts \<Longrightarrow> tally (t + unat a) b n (add_transferOut a ts)"
  using ts_add_holds[of "transferOut ts" t "ts_overflow ts" "2 ^ 64 \<le> b \<or> 2 ^ 64 \<le> n" a]
  by (auto simp: tally_def add_transferOut_def split: prod.split)

lemma tally_burn: "tally t b n ts \<Longrightarrow> tally t (b + unat a) n (add_burnOut a ts)"
  using ts_add_holds[of "burnOut ts" b "ts_overflow ts" "2 ^ 64 \<le> t \<or> 2 ^ 64 \<le> n" a]
  by (auto simp: tally_def add_burnOut_def split: prod.split)

lemma tally_in: "tally t b n ts \<Longrightarrow> tally t b (n + unat a) (add_tokensIn a ts)"
  using ts_add_holds[of "tokensIn ts" n "ts_overflow ts" "2 ^ 64 \<le> t \<or> 2 ^ 64 \<le> b" a]
  by (auto simp: tally_def add_tokensIn_def split: prod.split)

text \<open>The balance test passes exactly when the inputs cover the outputs and all sums fit.\<close>

lemma covered_iff:
  assumes "tally t b n ts"
  shows "(let (out, carry) = Add64 (transferOut ts) (burnOut ts) in \<not> ts_overflow ts \<and> \<not> carry \<and> out \<le> tokensIn ts) \<longleftrightarrow>
    t + b \<le> n \<and> n < 2 ^ 64"
proof (cases "ts_overflow ts")
  case True
  then show ?thesis using assms by (auto simp: tally_def Let_def split: prod.split)
next
  case False
  then have "unat (transferOut ts) = t" "unat (burnOut ts) = b" "unat (tokensIn ts) = n" "n < 2 ^ 64"
    using assms by (auto simp: tally_def holds_def)
  moreover have "unat (transferOut ts + burnOut ts) = t + b" if "t + b < 2 ^ 64"
    using Add64_no_carry[of "transferOut ts" "burnOut ts"] calculation that by (simp add: Add64_def)
  ultimately show ?thesis
    using False by (cases "t + b < 2 ^ 64") (auto simp: Add64_def word_le_nat_alt)
qed

section \<open>The pass over the outputs\<close>

definition summary_ok :: "(32 word \<times> bsv21) list \<Rightarrow> (32 word \<times> bsv21) list \<Rightarrow> bytes \<Rightarrow> token_summary option \<Rightarrow> bool" where
  "summary_ok outs ins i r \<longleftrightarrow> (case r of
     None \<Rightarrow> \<forall>(v, b) \<in> set outs. b_Op b \<in> set dep_ops \<longrightarrow> b_Id b \<noteq> i
   | Some ts \<Rightarrow> (\<exists>(v, b) \<in> set outs. b_Op b \<in> set dep_ops \<and> b_Id b = i) \<and>
       tally (total [OpTransfer] i outs) (total [OpBurn] i outs) (total spend_ops i ins) ts \<and>
       transferVouts ts = vouts OpTransfer i outs \<and> burnVouts ts = vouts OpBurn i outs \<and>
       mintVouts ts = vouts OpMint i outs \<and> authVouts ts = vouts OpAuth i outs \<and>
       (hasAuthInput ts \<longleftrightarrow> (\<exists>(v, b) \<in> set ins. b_Op b \<in> set authority_ops \<and> b_Id b = i)))"

definition outs_ok :: "(32 word \<times> bsv21) list \<Rightarrow> bsv_state \<Rightarrow> bool" where
  "outs_ok outs st \<longleftrightarrow> (\<forall>i. summary_ok outs [] i (map_of (bs_summary st) i)) \<and> distinct (map fst (bs_summary st)) \<and>
     bs_anc st = [] \<and> CoinsToRetain (bs_admit st) = [] \<and> AncillaryTxids (bs_admit st) = [] \<and>
     OutputsToAdmit (bs_admit st) = map fst (filter (\<lambda>(v, b). b_Op b \<in> set deploy_ops) outs)"

definition summary_ids :: "bsv_state \<Rightarrow> bytes set" where
  "summary_ids st = fst ` set (bs_summary st)"

lemma upd_summary_simps [simp]:
  "map_of (bs_summary (upd_summary i f st)) j =
     (if j = i then Some (f (case map_of (bs_summary st) i of None \<Rightarrow> new_summary | Some ts \<Rightarrow> ts))
      else map_of (bs_summary st) j)"
  "bs_anc (upd_summary i f st) = bs_anc st" "bs_admit (upd_summary i f st) = bs_admit st"
  "summary_ids (upd_summary i f st) = insert i (summary_ids st)"
  by (simp_all add: upd_summary_def summary_ids_def update_conv' dom_update)

lemma upd_summary_distinct: "distinct (map fst (bs_summary st)) \<Longrightarrow> distinct (map fst (bs_summary (upd_summary i f st)))"
  by (simp add: upd_summary_def distinct_update)

text \<open>The state of a token before its next output: its summary, or a new one.\<close>

lemma summary_ok_start:
  assumes "summary_ok outs [] i r"
  shows "tally (total [OpTransfer] i outs) (total [OpBurn] i outs) 0 (case r of None \<Rightarrow> new_summary | Some ts \<Rightarrow> ts)"
    and "transferVouts (case r of None \<Rightarrow> new_summary | Some ts \<Rightarrow> ts) = vouts OpTransfer i outs"
    and "burnVouts (case r of None \<Rightarrow> new_summary | Some ts \<Rightarrow> ts) = vouts OpBurn i outs"
    and "mintVouts (case r of None \<Rightarrow> new_summary | Some ts \<Rightarrow> ts) = vouts OpMint i outs"
    and "authVouts (case r of None \<Rightarrow> new_summary | Some ts \<Rightarrow> ts) = vouts OpAuth i outs"
    and "\<not> hasAuthInput (case r of None \<Rightarrow> new_summary | Some ts \<Rightarrow> ts)"
proof -
  have none: "filter (\<lambda>(v, b). b_Op b = op \<and> b_Id b = i) outs = []" if "r = None" "op \<in> set dep_ops" for op
    using assms that by (fastforce simp: summary_ok_def filter_empty_conv)
  then show "tally (total [OpTransfer] i outs) (total [OpBurn] i outs) 0 (case r of None \<Rightarrow> new_summary | Some ts \<Rightarrow> ts)"
    "transferVouts (case r of None \<Rightarrow> new_summary | Some ts \<Rightarrow> ts) = vouts OpTransfer i outs"
    "burnVouts (case r of None \<Rightarrow> new_summary | Some ts \<Rightarrow> ts) = vouts OpBurn i outs"
    "mintVouts (case r of None \<Rightarrow> new_summary | Some ts \<Rightarrow> ts) = vouts OpMint i outs"
    "authVouts (case r of None \<Rightarrow> new_summary | Some ts \<Rightarrow> ts) = vouts OpAuth i outs"
    "\<not> hasAuthInput (case r of None \<Rightarrow> new_summary | Some ts \<Rightarrow> ts)"
    using assms tally_new
    by (cases r; simp add: summary_ok_def total_def amounts_def vouts_def new_summary_def)+
qed

lemma summary_ok_other:
  assumes "b_Id b \<noteq> i \<or> b_Op b \<in> set deploy_ops"
  shows "summary_ok (outs @ [(v, b)]) ins i r \<longleftrightarrow> summary_ok outs ins i r"
proof -
  have t: "total [op] i (outs @ [(v, b)]) = total [op] i outs" "vouts op i (outs @ [(v, b)]) = vouts op i outs"
    if "op \<in> set dep_ops" for op
    using assms that by (auto simp: token_total_simps vouts_simps)
  have e: "b_Op b \<in> set dep_ops \<Longrightarrow> b_Id b \<noteq> i" using assms by auto
  have x: "(\<exists>(v, b) \<in> set (outs @ [(v, b)]). b_Op b \<in> set dep_ops \<and> b_Id b = i) \<longleftrightarrow>
      (\<exists>(v, b) \<in> set outs. b_Op b \<in> set dep_ops \<and> b_Id b = i)"
    "(\<forall>(v, b) \<in> set (outs @ [(v, b)]). b_Op b \<in> set dep_ops \<longrightarrow> b_Id b \<noteq> i) \<longleftrightarrow>
      (\<forall>(v, b) \<in> set outs. b_Op b \<in> set dep_ops \<longrightarrow> b_Id b \<noteq> i)"
    using e by auto
  have m: "OpTransfer \<in> set dep_ops" "OpBurn \<in> set dep_ops" "OpMint \<in> set dep_ops" "OpAuth \<in> set dep_ops" by simp_all
  show ?thesis unfolding summary_ok_def x t[OF m(1)] t[OF m(2)] t[OF m(3)] t[OF m(4)] ..
qed

lemma record_output_ok:
  assumes ok: "outs_ok outs st" and op: "b_Op b \<in> set deploy_ops \<union> set dep_ops"
  shows "outs_ok (outs @ [(v, b)]) (record_output v b st)"
proof (cases "b_Op b \<in> set deploy_ops")
  case True
  then show ?thesis using ok by (auto simp: outs_ok_def record_output_def summary_ok_other)
next
  case False
  let ?i = "b_Id b" and ?r = "map_of (bs_summary st) (b_Id b)"
  let ?ts = "case ?r of None \<Rightarrow> new_summary | Some ts \<Rightarrow> ts"
  have r: "summary_ok outs [] ?i ?r" using ok by (simp add: outs_ok_def)
  note start = summary_ok_start[OF r]
  obtain f where f: "record_output v b st = upd_summary ?i f st"
    and good: "summary_ok (outs @ [(v, b)]) [] ?i (Some (f ?ts))"
  proof -
    consider "b_Op b = OpTransfer" | "b_Op b = OpBurn" | "b_Op b = OpMint" | "b_Op b = OpAuth"
      using op False by auto
    then show thesis
    proof cases
      case 1
      show ?thesis
        by (rule that[of "\<lambda>ts. (add_transferOut (b_Amt b) ts)\<lparr>transferVouts := transferVouts ts @ [v]\<rparr>"])
           (use 1 start tally_transfer[OF start(1), of "b_Amt b"] in
             \<open>simp_all add: record_output_def summary_ok_def token_total_simps vouts_simps\<close>)
    next
      case 2
      show ?thesis
        by (rule that[of "\<lambda>ts. (add_burnOut (b_Amt b) ts)\<lparr>burnVouts := burnVouts ts @ [v]\<rparr>"])
           (use 2 start tally_burn[OF start(1), of "b_Amt b"] in
             \<open>simp_all add: record_output_def summary_ok_def token_total_simps vouts_simps\<close>)
    next
      case 3
      show ?thesis
        by (rule that[of "\<lambda>ts. ts\<lparr>mintVouts := mintVouts ts @ [v]\<rparr>"])
           (use 3 start in \<open>simp_all add: record_output_def summary_ok_def token_total_simps vouts_simps\<close>)
    next
      case 4
      show ?thesis
        by (rule that[of "\<lambda>ts. ts\<lparr>authVouts := authVouts ts @ [v]\<rparr>"])
           (use 4 start in \<open>simp_all add: record_output_def summary_ok_def token_total_simps vouts_simps\<close>)
    qed
  qed
  have "summary_ok (outs @ [(v, b)]) [] j (map_of (bs_summary (upd_summary ?i f st)) j)" for j
    using good ok summary_ok_other[of b j outs v] by (cases "j = ?i") (auto simp: outs_ok_def)
  then show ?thesis using ok False upd_summary_distinct[of st ?i f]
    unfolding f outs_ok_def by (auto simp: case_prod_unfold)
qed

lemma own_id_op [simp]: "b_Op (own_id L op b) = b_Op b" "b_Amt (own_id L op b) = b_Amt b"
  by (simp_all add: own_id_def)

lemma decoded_op: "bsv21_Decode K L scr = Inr (Some b) \<Longrightarrow> b_Op b \<in> set deploy_ops \<union> set dep_ops"
  using bsv21_Decode_wf_aux[of K L scr b] by (auto simp: token_wf_def)

lemma classify_output_ok:
  assumes "outs_ok evs st" and "classify_output M K L txid (vout, scr) st = (Inr (), st')"
  shows "outs_ok (evs @ out_event M K L txid (vout, scr)) st'"
proof (cases "bsv21_Decode K L scr")
  case (Inl f)
  then show ?thesis using assms(2) by (simp add: classify_output_def lift_fault_def step_simps)
next
  case (Inr d)
  show ?thesis
  proof (cases d)
    case None
    then show ?thesis using assms Inr by (simp add: classify_output_def lift_fault_def step_simps out_event_def)
  next
    case (Some b)
    let ?b = "own_id L \<lparr>op_txid = txid, op_index = of_nat vout\<rparr> b"
    have "b_Op ?b \<in> set deploy_ops \<union> set dep_ops" using decoded_op[of K L scr b] Inr Some by simp
    then have "outs_ok (evs @ [(of_nat vout, ?b)]) (record_output (of_nat vout) ?b st)" by (rule record_output_ok[OF assms(1)])
    then show ?thesis using assms Inr Some
      by (auto simp: classify_output_def lift_fault_def step_simps out_event_def Let_def supd_def split: if_splits)
  qed
qed

lemma outs_pass:
  assumes "sfor (classify_output M K L txid) (List.enumerate 0 (tt_outputs tx))
      \<lparr>bs_summary = [], bs_anc = [], bs_admit = no_admittance\<rparr> = (Inr (), st)"
  shows "outs_ok (tx_out_events M K L txid tx) st"
proof -
  have "outs_ok [] \<lparr>bs_summary = [], bs_anc = [], bs_admit = no_admittance\<rparr>"
    by (simp add: outs_ok_def summary_ok_def no_admittance_def)
  from sfor_collect[where Inv = outs_ok, OF _ this assms, of "out_event M K L txid"] classify_output_ok
  show ?thesis by (fastforce simp: tx_out_events_def)
qed

section \<open>The pass over the inputs\<close>

text \<open>
  After the outputs, the inputs seen so far: every summary also counts the inputs of its token. An input
  of a token without outputs leaves no trace.
\<close>

definition ins_ok :: "(32 word \<times> bsv21) list \<Rightarrow> (32 word \<times> bsv21) list \<Rightarrow> bsv_state \<Rightarrow> bool" where
  "ins_ok outs ins st \<longleftrightarrow> (\<forall>i. summary_ok outs ins i (map_of (bs_summary st) i)) \<and> distinct (map fst (bs_summary st)) \<and>
     OutputsToAdmit (bs_admit st) = map fst (filter (\<lambda>(v, b). b_Op b \<in> set deploy_ops) outs)"

lemma summary_ok_in_other:
  assumes "b_Id b \<noteq> i \<or> r = None \<or> b_Op b \<notin> set spend_ops \<union> set authority_ops"
  shows "summary_ok outs (ins @ [(v, b)]) i r \<longleftrightarrow> summary_ok outs ins i r"
  using assms by (auto simp: summary_ok_def token_total_simps split: option.split)

lemma record_input_ok:
  assumes ok: "ins_ok outs ins st" and some: "map_of (bs_summary st) (b_Id b) = Some ts"
    and step: "record_input M txid prev vin x b st = (Inr (), st')"
  shows "ins_ok outs (ins @ [(of_nat vin, b)]) st'"
proof (cases "b_Op b \<in> set spend_ops \<union> set authority_ops")
  case False
  then have "st' = st" using step by (auto simp: record_input_def step_simps split: if_splits)
  then show ?thesis using ok False summary_ok_in_other[of b] unfolding ins_ok_def by blast
next
  case True
  let ?i = "b_Id b"
  have r: "summary_ok outs ins ?i (Some ts)" using ok some by (metis ins_ok_def)
  obtain f where f: "st' = upd_summary ?i f (retain vin st)" and good: "summary_ok outs (ins @ [(of_nat vin, b)]) ?i (Some (f ts))"
  proof -
    consider "b_Op b \<in> set authority_ops" | "b_Op b \<in> set spend_ops" using True by blast
    then show thesis
    proof cases
      case 1
      show ?thesis
        by (rule that[of "\<lambda>ts. ts\<lparr>hasAuthInput := True\<rparr>"])
           (use 1 r step in \<open>auto simp: record_input_def step_simps supd_def summary_ok_def token_total_simps split: if_splits\<close>)
    next
      case 2
      show ?thesis
        by (rule that[of "add_tokensIn (b_Amt b)"])
           (use 2 r step tally_in[of _ _ "total spend_ops ?i ins" ts "b_Amt b"] in
             \<open>auto simp: record_input_def step_simps supd_def summary_ok_def token_total_simps split: if_splits\<close>)
    qed
  qed
  have s: "bs_summary (retain vin st) = bs_summary st" "OutputsToAdmit (bs_admit (retain vin st)) = OutputsToAdmit (bs_admit st)"
    by (simp_all add: retain_def)
  have "summary_ok outs (ins @ [(of_nat vin, b)]) j (map_of (bs_summary st') j)" for j
    using good ok some summary_ok_in_other[of b j _ outs ins] unfolding f by (cases "j = ?i") (auto simp: ins_ok_def s)
  then show ?thesis using ok upd_summary_distinct[of "retain vin st" ?i f] unfolding ins_ok_def f by (simp add: s)
qed

text \<open>A successful step on an input, by what the topic sees there.\<close>

lemma classify_input_cases:
  "classify_input M K L txid prev (vin, x) st =
     (case ti_source x of None \<Rightarrow> (Inr (), st)
      | Some scr \<Rightarrow> (case bsv21_Decode K L scr of Inl f \<Rightarrow> (Inl (TopicFault f), st)
          | Inr d \<Rightarrow> (case input_token M K L x of None \<Rightarrow> (Inr (), st)
              | Some b \<Rightarrow> if map_of (bs_summary st) (b_Id b) = None then (Inr (), st)
                  else record_input M txid prev vin x b (st\<lparr>bs_anc := List.insert (ti_txid x) (bs_anc st)\<rparr>))))"
  by (auto simp: classify_input_def input_token_def lift_fault_def step_simps Let_def
      split: option.split sum.split)

lemma classify_input_ok:
  assumes ok: "ins_ok outs ins st" and step: "classify_input M K L txid prev (vin, x) st = (Inr (), st')"
  shows "ins_ok outs (ins @ in_event M K L (vin, x)) st'"
proof (cases "input_token M K L x")
  case None
  then have "st' = st" using step by (simp add: classify_input_cases split: option.splits sum.splits)
  then show ?thesis using ok None by (simp add: in_event_def)
next
  case b: (Some b)
  have e: "in_event M K L (vin, x) = [(of_nat vin, b)]" by (simp add: in_event_def b)
  obtain scr d where scr: "ti_source x = Some scr" "bsv21_Decode K L scr = Inr d"
    using b by (auto simp: input_token_def split: option.splits sum.splits)
  note step' = step[unfolded classify_input_cases scr b option.case sum.case]
  show ?thesis
  proof (cases "map_of (bs_summary st) (b_Id b)")
    case None
    then have "st' = st" using step' by simp
    moreover have "summary_ok outs (ins @ [(of_nat vin, b)]) i (map_of (bs_summary st) i)" for i
      using ok None summary_ok_in_other[of b i "map_of (bs_summary st) i"] unfolding ins_ok_def by metis
    ultimately show ?thesis using ok by (simp add: e ins_ok_def)
  next
    case (Some ts)
    let ?st = "st\<lparr>bs_anc := List.insert (ti_txid x) (bs_anc st)\<rparr>"
    have "ins_ok outs ins ?st" using ok by (simp add: ins_ok_def)
    then show ?thesis unfolding e using record_input_ok[of outs ins ?st b ts] step' Some by simp
  qed
qed

lemma ins_pass:
  assumes "outs_ok outs st" and "sfor (classify_input M K L txid prev) (List.enumerate 0 (tt_inputs tx)) st = (Inr (), st')"
  shows "ins_ok outs (tx_in_events M K L tx) st'"
proof -
  have "ins_ok outs [] st" using assms(1) by (simp add: outs_ok_def ins_ok_def)
  from sfor_collect[where Inv = "ins_ok outs", OF _ this assms(2), of "in_event M K L"] classify_input_ok
  show ?thesis by (fastforce simp: tx_in_events_def)
qed

end
