(* ===== verification/TemplateProps.thy ===== *)
theory TemplateProps
  imports TemplateLaws
begin

text \<open>
  A concrete script library, which writes and reads the real push format, and the properties of the
  templates with their witnesses on it.
\<close>

section \<open>A concrete library\<close>

text \<open>The script format itself; the other functions are the simplest that satisfy their laws.\<close>

definition demo_prefix :: "nat \<Rightarrow> bytes" where
  "demo_prefix n =
     (if n \<le> 75 then [char_of n] else if n < 256 then char_of (76::nat) # rev (be_bytes 1 n)
      else if n < 65536 then char_of (77::nat) # rev (be_bytes 2 n) else char_of (78::nat) # rev (be_bytes 4 n))"

definition demo_width :: "nat \<Rightarrow> nat" where
  "demo_width b = (if b = 76 then 1 else if b = 77 then 2 else if b = 78 then 4 else 0)"

definition demo_read :: "bytes \<Rightarrow> nat \<Rightarrow> chunk option \<times> nat" where
  "demo_read scr pos =
     (if length scr \<le> pos then (None, pos)
      else let b = of_char (scr ! pos) in
        if 78 < b then (Some \<lparr>ck_op = b, ck_data = []\<rparr>, Suc pos)
        else let start = Suc pos + demo_width b;
                 n = (if b \<le> 75 then b else be_nat (rev (take (demo_width b) (drop (Suc pos) scr))))
             in if length scr < start + n then (None, pos)
                else (Some \<lparr>ck_op = b, ck_data = take n (drop start scr)\<rparr>, start + n))"

definition demo_lib :: script_lib where
  "demo_lib = \<lparr>read_op = demo_read, push_data = (\<lambda>d. demo_prefix (length d) @ d),
     script_num = (\<lambda>b. Some (int (be_nat b))), num_bytes = (\<lambda>v. be_bytes 8 (nat v)),
     sha256 = (\<lambda>b. b), utf8_valid = (\<lambda>b. True), to_lower = (\<lambda>b. b),
     json_parse = (\<lambda>b. None), json_marshal = (\<lambda>kvs. ''J''),
     ordinal_string = demo_bytes, outpoint_ok = (\<lambda>b. length b = 36),
     cbor_parse = (\<lambda>b. None), cbor_marshal = (\<lambda>w. [])\<rparr>"

lemma demo_read_laws: "read_laws demo_lib"
  by (auto simp: read_laws_def demo_lib_def demo_read_def Let_def split: if_splits)

lemma demo_read_at:
  assumes "of_char b = (k::nat)" and "length ls = demo_width k" and "k \<le> 78"
    and "length d = (if k \<le> 75 then k else be_nat (rev ls))"
  shows "demo_read (pre @ b # ls @ d @ post) (length pre) =
    (Some \<lparr>ck_op = k, ck_data = d\<rparr>, length pre + length (b # ls @ d))"
proof -
  have tk: "take (demo_width k) (drop (Suc (length pre)) (pre @ b # ls @ d @ post)) = ls"
    "drop (Suc (length pre) + demo_width k) (pre @ b # ls @ d @ post) = d @ post"
    using assms(2) by simp_all
  show ?thesis unfolding demo_read_def Let_def nth_append_length assms(1) tk
    using assms(2-4) by auto
qed

lemma demo_write_laws: "write_laws demo_lib"
proof -
  have opc: "demo_read (pre @ c # post) (length pre) = (Some \<lparr>ck_op = of_char c, ck_data = []\<rparr>, Suc (length pre))"
    if "OP_PUSHDATA4 < of_char c \<or> c = OP_0" for pre c post
    using that by (auto simp: demo_read_def Let_def opcode_defs demo_width_def)
  have push: "\<exists>k \<le> OP_PUSHDATA4. (length d \<le> 75 \<longrightarrow> k = length d) \<and>
      demo_read (pre @ (demo_prefix (length d) @ d) @ post) (length pre) =
        (Some \<lparr>ck_op = k, ck_data = d\<rparr>, length pre + length (demo_prefix (length d) @ d))"
    if "length d < 2 ^ 32" for pre d post
  proof -
    obtain b ls k where p: "demo_prefix (length d) = b # ls" "of_char b = k" "length ls = demo_width k" "k \<le> 78"
      "length d = (if k \<le> 75 then k else be_nat (rev ls))" "length d \<le> 75 \<longrightarrow> k = length d"
    proof -
      consider "length d \<le> 75" | "75 < length d" "length d < 256" | "256 \<le> length d" "length d < 65536" | "65536 \<le> length d"
        by linarith
      then show thesis
      proof cases
        case 1
        then show ?thesis using that[of "char_of (length d)" "[]" "length d"] by (simp add: demo_prefix_def demo_width_def)
      next
        case 2
        then show ?thesis using that[of "char_of (76::nat)" "rev (be_bytes 1 (length d))" 76]
          by (simp add: demo_prefix_def demo_width_def be_nat_be_bytes del: be_bytes.simps One_nat_def)
      next
        case 3
        then show ?thesis using that[of "char_of (77::nat)" "rev (be_bytes 2 (length d))" 77]
          by (simp add: demo_prefix_def demo_width_def be_nat_be_bytes)
      next
        case 4
        then show ?thesis using that[of "char_of (78::nat)" "rev (be_bytes 4 (length d))" 78] \<open>length d < 2 ^ 32\<close>
          by (simp add: demo_prefix_def demo_width_def be_nat_be_bytes)
      qed
    qed
    have "demo_read (pre @ ((b # ls) @ d) @ post) (length pre) =
        (Some \<lparr>ck_op = k, ck_data = d\<rparr>, length pre + length ((b # ls) @ d))"
      using demo_read_at[OF p(2-5), of pre post] unfolding append_Cons append_assoc .
    then show ?thesis unfolding p(1) using p(4,6) by (intro exI[of _ k]) (simp only: OP_PUSHDATA4_def simp_thms)
  qed
  have eqs: "read_op demo_lib = demo_read" "push_data demo_lib = (\<lambda>d. demo_prefix (length d) @ d)"
    by (simp_all add: demo_lib_def)
  show ?thesis unfolding write_laws_def eqs
    by (intro conjI allI impI) (rule push opc, assumption)+
qed

lemmas demo_laws = demo_read_laws demo_write_laws

section \<open>Properties\<close>

text \<open>
  C14: an inscription that \<open>Lock\<close> wrote after any sequence of opcodes and data pushes is decoded to
  the same type, content, prefix and suffix, with the size and the hash of the content and without a parent.
\<close>

theorem inscription_round_trip:
  assumes "read_laws L" and "write_laws L"
    and "list_all piece_ok ps" and "in_prefix i = concat (map (piece_bytes L) ps)"
    and "length (in_type i) < 256" and "utf8_valid L (in_type i)" and "length (in_content i) < 2 ^ 32"
  shows "inscription_Decode K L (inscription_Lock L i) = Inr (Some
    \<lparr>in_hash = sha256 L (in_content i), in_size = of_nat (length (in_content i)), in_type = in_type i,
     in_content = in_content i, in_parent = None, in_fields = Map.empty,
     in_prefix = in_prefix i, in_suffix = in_suffix i\<rparr>)"
  using inscription_round_trip_aux[OF assms, of K]
  by (simp add: read_back_def set_content_def new_inscription_def)

definition demo_insc :: inscription where
  "demo_insc = (new_inscription (push_data demo_lib ''owner'' @ [CHR 0xac]))
     \<lparr>in_type := ''text/plain'', in_content := ''hi'', in_suffix := ''tail''\<rparr>"

theorem inscription_round_trip_witness:
  "inscription_Decode demo_sdk demo_lib (inscription_Lock demo_lib demo_insc) = Inr (Some
     (demo_insc\<lparr>in_hash := ''hi'', in_size := 2\<rparr>))"
  using inscription_round_trip[OF demo_laws, of "[Push ''owner'', Opc (CHR 0xac)]" demo_insc demo_sdk]
  by (simp add: demo_insc_def new_inscription_def demo_lib_def opcode_defs)

text \<open>
  C15: the decoders return on every script: an inscription and a shrug token are decoded without a
  panic and in bounded fuel; the decoding of a BSV21 token ends too, with a result or a panic.
\<close>

theorem decoders_return:
  assumes "read_laws L"
  shows "(\<exists>r. inscription_Decode K L scr = Inr r) \<and> (\<exists>r. shrug_Decode K L scr = Inr r) \<and>
    bsv21_Decode K L scr \<noteq> Inl Diverge"
  using inscription_Decode_returns[OF assms] shrug_Decode_returns[OF assms] bsv21_Decode_faults[OF assms]
  by blast

theorem decoders_return_witness:
  "bsv21_Decode demo_sdk demo_lib (replicate 5 (CHR 0x4e)) \<noteq> Inl Diverge"
  using decoders_return[OF demo_read_laws] by blast

text \<open>
  C16: a decoded BSV21 token has one of the six operations, an amount of zero when it is an authority,
  a valid token id unless it is a deploy (which has none yet), a symbol and an icon only
  when it is a deploy, and at most 18 decimals.
\<close>

theorem bsv21_Decode_wf:
  assumes "bsv21_Decode K L scr = Inr (Some b)"
  shows "b_Op b \<in> {OpDeployMint, OpDeployAuth, OpMint, OpAuth, OpTransfer, OpBurn} \<and>
    (b_Op b \<in> {OpAuth, OpDeployAuth} \<longrightarrow> b_Amt b = 0) \<and>
    (if b_Op b \<in> {OpDeployMint, OpDeployAuth} then b_Id b = []
     else outpoint_ok L (b_Id b) \<and> b_Symbol b = None \<and> b_Icon b = None) \<and>
    (\<forall>d. b_Decimals b = Some d \<longrightarrow> d \<le> 18)"
  using bsv21_Decode_wf_aux[OF assms] unfolding token_wf_def .

text \<open>A library in which one document is known, and the script that carries it.\<close>

definition doc_lib :: "(bytes \<times> jval) list \<Rightarrow> script_lib" where
  "doc_lib kvs = demo_lib\<lparr>json_parse := (\<lambda>b. if b = ''J'' then Some (map_of kvs) else None)\<rparr>"

definition doc_insc :: inscription where
  "doc_insc = (new_inscription [])\<lparr>in_type := ''application/bsv-20'', in_content := ''J''\<rparr>"

definition doc_script :: bytes where
  "doc_script = inscription_Lock demo_lib doc_insc"

definition str_doc :: "(bytes \<times> bytes) list \<Rightarrow> (bytes \<times> jval) list" where
  "str_doc kvs = map (\<lambda>(k, v). (k, JStr v)) kvs"

lemma map_of_str_doc: "map_of (str_doc kvs) = map_option JStr \<circ> map_of kvs"
  unfolding str_doc_def by (rule map_of_map)

lemma doc_lib_laws: "read_laws (doc_lib kvs)" "write_laws (doc_lib kvs)"
  using demo_laws by (simp_all add: doc_lib_def read_laws_def write_laws_def)

lemma doc_lib_simps [simp]:
  "utf8_valid (doc_lib kvs) b" "json_parse (doc_lib kvs) ''J'' = Some (map_of kvs)" "json_marshal (doc_lib kvs) m = ''J''"
  "to_lower (doc_lib kvs) b = b" "outpoint_ok (doc_lib kvs) b \<longleftrightarrow> length b = 36" "push_data (doc_lib kvs) = push_data demo_lib"
  "ordinal_string (doc_lib kvs) = demo_bytes"
  by (simp_all add: doc_lib_def demo_lib_def)

lemma doc_insc_simps [simp]:
  "in_prefix doc_insc = []" "in_type doc_insc = ''application/bsv-20''" "in_content doc_insc = ''J''"
  by (simp_all add: doc_insc_def new_inscription_def)

lemma read_back_simps [simp]:
  "in_type (read_back L i) = in_type i" "in_content (read_back L i) = in_content i"
  by (simp_all add: read_back_def set_content_def)

lemma doc_script_reads:
  "inscription_Decode K (doc_lib kvs) doc_script = Inr (Some (read_back (doc_lib kvs) doc_insc))"
proof -
  have "doc_script = inscription_Lock (doc_lib kvs) doc_insc"
    by (simp add: doc_script_def inscription_Lock_def)
  then show ?thesis
    by (elim ssubst) (rule inscription_round_trip_aux[OF doc_lib_laws, of "[]"], simp_all)
qed

lemma doc_script_token:
  "bsv21_Decode K (doc_lib kvs) doc_script =
     decode_doc (doc_lib kvs) (read_back (doc_lib kvs) doc_insc) (map_of kvs)"
  by (simp add: bsv21_Decode_def doc_script_reads)

definition demo_deploy :: "(bytes \<times> jval) list" where
  "demo_deploy = [(''p'', JStr ''bsv-20''), (''op'', JStr ''deploy+mint''), (''amt'', JStr ''21''), (''dec'', JStr ''2'')]"

theorem bsv21_Decode_wf_witness:
  "\<exists>b. bsv21_Decode demo_sdk (doc_lib demo_deploy) doc_script = Inr (Some b) \<and> b_Amt b = 21 \<and>
     b_Op b \<in> {OpDeployMint, OpDeployAuth, OpMint, OpAuth, OpTransfer, OpBurn}"
proof -
  have "\<exists>b. bsv21_Decode demo_sdk (doc_lib demo_deploy) doc_script = Inr (Some b) \<and> b_Amt b = 21"
    unfolding doc_script_token by (simp add: decode_doc_def demo_deploy_def decode_amt_def decode_dec_def decode_tail_def
        ParseUint_def is_digit_def token_op_defs opt_string_def)
  then show ?thesis using bsv21_Decode_wf by blast
qed

text \<open>
  C18: what \<open>Lock\<close> writes for a BSV21 token is never decoded as one, whatever the token, because the
  encoded document has no member \<open>p\<close>.
\<close>

theorem bsv21_Lock_unreadable:
  assumes "read_laws L" and "write_laws L" and "utf8_valid L ''application/bsv-20''"
    and "length (json_marshal L (bsv21_json b)) < 2 ^ 32"
    and "json_parse L (json_marshal L (bsv21_json b)) = Some (map_option JStr \<circ> map_of (bsv21_json b))"
  shows "bsv21_Decode K L (bsv21_Lock L b s) = Inr None"
  by (rule bsv21_Lock_unread[OF assms])

definition demo_token :: bsv21 where
  "demo_token = \<lparr>b_Id = replicate 36 (CHR ''a''), b_Op = OpTransfer, b_Symbol = None, b_Decimals = None, b_Icon = None,
     b_Amt = 5, b_Insc = None\<rparr>"

theorem bsv21_Lock_unreadable_witness:
  "bsv21_Decode demo_sdk (doc_lib (str_doc (bsv21_json demo_token)))
     (bsv21_Lock (doc_lib (str_doc (bsv21_json demo_token))) demo_token ''s'') = Inr None"
  by (rule bsv21_Lock_unreadable[OF doc_lib_laws]) (simp_all add: map_of_str_doc)

text \<open>
  A document of the token protocol whose operation is not a string makes the decoder panic.
\<close>

theorem bsv21_Decode_panics:
  assumes "inscription_Decode K L scr = Inr (Some insc)" and "in_type insc = ''application/bsv-20''"
    and "json_parse L (in_content insc) = Some data"
    and "data ''p'' = Some (JStr ''bsv-20'')" and "data ''op'' = Some JOther"
  shows "bsv21_Decode K L scr = Inl Panic"
  using assms by (simp add: bsv21_Decode_def decode_doc_def)

definition demo_bad :: "(bytes \<times> jval) list" where
  "demo_bad = [(''p'', JStr ''bsv-20''), (''op'', JOther)]"

theorem bsv21_Decode_panics_witness: "bsv21_Decode demo_sdk (doc_lib demo_bad) doc_script = Inl Panic"
  by (rule bsv21_Decode_panics[OF doc_script_reads, where data = "map_of demo_bad"]) (simp_all add: demo_bad_def)

text \<open>
  C17: a shrug script that \<open>Lock\<close> wrote is decoded to the same token id, amount (an absent or
  negative amount as zero) and suffix.
\<close>

theorem shrug_round_trip:
  assumes "read_laws L" and "write_laws L"
    and "\<And>op. s_Id i = Some op \<Longrightarrow> length (op_bytes K op) = 36 \<and> op_from_bytes K (op_bytes K op) = Some op"
    and "\<And>a. s_Amount i = Some a \<Longrightarrow> 0 < a \<Longrightarrow> length (num_bytes L a) < 2 ^ 32 \<and> script_num L (num_bytes L a) = Some a"
    and "script_num L [] = Some 0"
  shows "\<exists>j. shrug_Decode K L (shrug_Lock K L i) = Inr (Some j) \<and> s_Id j = s_Id i \<and>
    s_Amount j = Some (case s_Amount i of None \<Rightarrow> 0 | Some a \<Rightarrow> max 0 a) \<and> s_ScriptSuffix j = s_ScriptSuffix i"
  by (rule shrug_round_trip_aux[OF assms])

definition demo_shrug :: shrug where
  "demo_shrug = \<lparr>s_Id = Some \<lparr>op_txid = replicate 32 (CHR 0x07), op_index = 3\<rparr>, s_Amount = Some 1000,
     s_ScriptSuffix = ''rest'', s_Insc = None, s_Metadata = None\<rparr>"

theorem shrug_round_trip_witness:
  "\<exists>j. shrug_Decode demo_sdk demo_lib (shrug_Lock demo_sdk demo_lib demo_shrug) = Inr (Some j) \<and>
     s_Id j = s_Id demo_shrug \<and> s_Amount j = Some 1000 \<and> s_ScriptSuffix j = ''rest''"
proof -
  have wf: "wf_op \<lparr>op_txid = replicate 32 (CHR 0x07), op_index = 3\<rparr>" by (simp add: wf_op_def)
  show ?thesis
    using shrug_round_trip[OF demo_laws, of demo_shrug demo_sdk] demo.op_bytes_length[OF wf] demo.op_from_bytes[OF wf]
    by (simp add: demo_shrug_def demo_lib_def be_nat_be_bytes)
qed

end
