(* ===== verification/Bsv21Props.thy ===== *)
theory Bsv21Props
  imports Bsv21Laws TemplateProps
begin

text \<open>
  The admission rules of the BSV21 topic as properties of the whole function: which outputs are admitted,
  that no token is created by a transfer or a burn, which coins are retained and when the function
  stops at a missing input, and which inputs it asks for.
\<close>

section \<open>The parts of the function\<close>

definition covered :: "token_summary \<Rightarrow> bool" where
  "covered ts \<longleftrightarrow> (let (out, carry) = Add64 (transferOut ts) (burnOut ts)
     in \<not> ts_overflow ts \<and> \<not> carry \<and> out \<le> tokensIn ts)"

definition token_vouts :: "token_summary \<Rightarrow> 32 word list" where
  "token_vouts ts = (if covered ts then transferVouts ts @ burnVouts ts else []) @
     (if hasAuthInput ts then mintVouts ts @ authVouts ts else [])"

lemma admit_token_eq: "admit_token (i, ts) adm = adm @ token_vouts ts"
  by (simp add: admit_token_def token_vouts_def covered_def Let_def split: prod.split)

lemma fold_admit: "fold admit_token S adm = adm @ concat (map (token_vouts \<circ> snd) S)"
  by (induction S arbitrary: adm) (auto simp: admit_token_eq)

text \<open>The ids with outputs other than deploys, and the inputs the function looks at.\<close>

definition dependent_ids :: "(32 word \<times> bsv21) list \<Rightarrow> bytes set" where
  "dependent_ids outs = {b_Id b | v b. (v, b) \<in> set outs \<and> b_Op b \<in> set dep_ops}"

definition touched :: "topic_manager \<Rightarrow> sdk \<Rightarrow> script_lib \<Rightarrow> bytes set \<Rightarrow> topic_input \<Rightarrow> bool" where
  "touched M K L T x \<longleftrightarrow> (case input_token M K L x of None \<Rightarrow> False | Some b \<Rightarrow> b_Id b \<in> T)"

definition needs_coin :: "topic_manager \<Rightarrow> sdk \<Rightarrow> script_lib \<Rightarrow> bytes set \<Rightarrow> topic_input \<Rightarrow> bool" where
  "needs_coin M K L T x \<longleftrightarrow> (case input_token M K L x of None \<Rightarrow> False
     | Some b \<Rightarrow> b_Id b \<in> T \<and> b_Op b \<in> set (spend_ops @ authority_ops))"

lemma outs_ok_ids: "outs_ok outs st \<Longrightarrow> summary_ids st = dependent_ids outs"
proof -
  assume ok: "outs_ok outs st"
  have "i \<in> dom (map_of (bs_summary st)) \<longleftrightarrow> i \<in> dependent_ids outs" for i
  proof -
    have "summary_ok outs [] i (map_of (bs_summary st) i)" using ok by (simp add: outs_ok_def)
    then show ?thesis
      by (cases "map_of (bs_summary st) i") (fastforce simp: summary_ok_def dependent_ids_def)+
  qed
  then show ?thesis by (simp add: summary_ids_def dom_map_of_conv_image_fst set_eq_iff)
qed

text \<open>The loop over the inputs meets the contract of an input pass.\<close>

lemma map_of_None_iff: "map_of (bs_summary st) k = None \<longleftrightarrow> k \<notin> summary_ids st"
  by (simp add: map_of_eq_None_iff summary_ids_def)

lemma summary_ids_simps [simp]:
  "summary_ids (st\<lparr>bs_anc := a\<rparr>) = summary_ids st" "summary_ids (retain vin st) = summary_ids st"
  by (simp_all add: summary_ids_def retain_def)

lemma retain_simps:
  "bs_anc (retain vin st) = bs_anc st" "OutputsToAdmit (bs_admit (retain vin st)) = OutputsToAdmit (bs_admit st)"
  "AncillaryTxids (bs_admit (retain vin st)) = AncillaryTxids (bs_admit st)"
  "CoinsToRetain (bs_admit (retain vin st)) = CoinsToRetain (bs_admit st) @ [of_nat vin]"
  by (simp_all add: retain_def)

lemma record_input_step:
  assumes "b_Id b \<in> summary_ids s" and "record_input M txid prev i x b s = (Inr (), t)"
  shows "summary_ids t = summary_ids s \<and> bs_anc t = bs_anc s \<and>
    OutputsToAdmit (bs_admit t) = OutputsToAdmit (bs_admit s) \<and> AncillaryTxids (bs_admit t) = AncillaryTxids (bs_admit s) \<and>
    CoinsToRetain (bs_admit t) = CoinsToRetain (bs_admit s) @ (if b_Op b \<in> set (spend_ops @ authority_ops) then [of_nat i] else []) \<and>
    (b_Op b \<in> set (spend_ops @ authority_ops) \<longrightarrow> of_nat i \<in> set prev)"
  using assms
  by (auto simp: record_input_def step_simps supd_def insert_absorb retain_simps split: if_splits)

lemma record_input_err:
  "record_input M txid prev i x b s = (Inl e, t) \<Longrightarrow>
     e = missing_error M txid i x \<and> b_Op b \<in> set (spend_ops @ authority_ops) \<and> of_nat i \<notin> set prev"
  by (auto simp: record_input_def step_simps supd_def split: if_splits)

interpretation bsv_pass: input_pass
  "classify_input M K L txid prev" "summary_ids" bs_admit bs_anc prev "missing_error M txid"
  "touched M K L" "needs_coin M K L"
  for M K L txid prev
proof
  fix i x s t
  assume "classify_input M K L txid prev (i, x) s = (Inr (), t)"
  then show "summary_ids t = summary_ids s \<and>
      OutputsToAdmit (bs_admit t) = OutputsToAdmit (bs_admit s) \<and> AncillaryTxids (bs_admit t) = AncillaryTxids (bs_admit s) \<and>
      CoinsToRetain (bs_admit t) = CoinsToRetain (bs_admit s) @ (if needs_coin M K L (summary_ids s) x then [of_nat i] else []) \<and>
      set (bs_anc t) = set (bs_anc s) \<union> (if touched M K L (summary_ids s) x then {ti_txid x} else {}) \<and>
      (needs_coin M K L (summary_ids s) x \<longrightarrow> of_nat i \<in> set prev)"
    using record_input_step[of _ "s\<lparr>bs_anc := List.insert (ti_txid x) (bs_anc s)\<rparr>" M txid prev i x t]
    by (auto simp: classify_input_cases touched_def needs_coin_def map_of_None_iff input_token_def
        split: option.splits sum.splits if_splits)
next
  fix i x s e t
  assume "classify_input M K L txid prev (i, x) s = (Inl e, t)"
  then show "(\<exists>f. e = TopicFault f) \<or>
      e = missing_error M txid i x \<and> needs_coin M K L (summary_ids s) x \<and> of_nat i \<notin> set prev"
    using record_input_err[of M txid prev i x]
    by (auto simp: classify_input_cases needs_coin_def map_of_None_iff split: option.splits sum.splits if_splits)
qed

section \<open>What is admitted\<close>

definition admits :: "(32 word \<times> bsv21) list \<Rightarrow> (32 word \<times> bsv21) list \<Rightarrow> bsv21 \<Rightarrow> bool" where
  "admits outs ins b \<longleftrightarrow>
     b_Op b \<in> {OpDeployMint, OpDeployAuth} \<or>
     b_Op b \<in> {OpTransfer, OpBurn} \<and>
       total [OpTransfer] (b_Id b) outs + total [OpBurn] (b_Id b) outs \<le> total spend_ops (b_Id b) ins \<and>
       total spend_ops (b_Id b) ins < 2 ^ 64 \<or>
     b_Op b \<in> {OpMint, OpAuth} \<and> (\<exists>(u, c) \<in> set ins. b_Op c \<in> {OpAuth, OpDeployAuth} \<and> b_Id c = b_Id b)"

lemma set_vouts: "set (vouts op i outs) = {v. \<exists>b. (v, b) \<in> set outs \<and> b_Op b = op \<and> b_Id b = i}"
  by (force simp: vouts_def)

lemma token_vouts_set:
  assumes "summary_ok outs ins i (Some ts)"
  shows "set (token_vouts ts) = {v. \<exists>b. (v, b) \<in> set outs \<and> b_Id b = i \<and> b_Op b \<in> set dep_ops \<and> admits outs ins b}"
proof -
  have t: "tally (total [OpTransfer] i outs) (total [OpBurn] i outs) (total spend_ops i ins) ts"
    and auth: "hasAuthInput ts \<longleftrightarrow> (\<exists>(u, c) \<in> set ins. b_Op c \<in> {OpAuth, OpDeployAuth} \<and> b_Id c = i)"
    and vs: "transferVouts ts = vouts OpTransfer i outs" "burnVouts ts = vouts OpBurn i outs"
      "mintVouts ts = vouts OpMint i outs" "authVouts ts = vouts OpAuth i outs"
    using assms by (simp_all add: summary_ok_def)
  have cov: "covered ts \<longleftrightarrow> total [OpTransfer] i outs + total [OpBurn] i outs \<le> total spend_ops i ins \<and> total spend_ops i ins < 2 ^ 64"
    unfolding covered_def by (rule covered_iff[OF t])
  have "v \<in> set (token_vouts ts) \<longleftrightarrow> (\<exists>b. (v, b) \<in> set outs \<and> b_Id b = i \<and> b_Op b \<in> set dep_ops \<and> admits outs ins b)" for v
  proof -
    have "v \<in> set (token_vouts ts) \<longleftrightarrow> (\<exists>b. (v, b) \<in> set outs \<and> b_Id b = i \<and>
        (b_Op b \<in> {OpTransfer, OpBurn} \<and> covered ts \<or> b_Op b \<in> {OpMint, OpAuth} \<and> hasAuthInput ts))"
      by (auto simp: token_vouts_def vs set_vouts)
    then show ?thesis unfolding cov auth admits_def by auto
  qed
  then show ?thesis by blast
qed

lemma admitted_set:
  assumes ok: "ins_ok outs ins st" and rng: "set S = set (bs_summary st)" and ops: "\<And>v b. (v, b) \<in> set outs \<Longrightarrow> b_Op b \<in> set (deploy_ops @ dep_ops)"
  shows "set (fold admit_token S (OutputsToAdmit (bs_admit st))) = {v. \<exists>b. (v, b) \<in> set outs \<and> admits outs ins b}"
proof -
  have S: "(i, ts) \<in> set S \<longleftrightarrow> map_of (bs_summary st) i = Some ts" for i ts
    using ok rng by (simp add: ins_ok_def)
  have out: "summary_ok outs ins i (map_of (bs_summary st) i)" for i using ok by (simp add: ins_ok_def)
  have dep: "(\<exists>i ts. (i, ts) \<in> set S \<and> v \<in> set (token_vouts ts)) \<longleftrightarrow> (\<exists>b. (v, b) \<in> set outs \<and> b_Op b \<in> set dep_ops \<and> admits outs ins b)" for v
  proof
    assume "\<exists>i ts. (i, ts) \<in> set S \<and> v \<in> set (token_vouts ts)"
    then obtain i ts where "map_of (bs_summary st) i = Some ts" "v \<in> set (token_vouts ts)" using S by blast
    then show "\<exists>b. (v, b) \<in> set outs \<and> b_Op b \<in> set dep_ops \<and> admits outs ins b"
      using token_vouts_set[of outs ins i ts] out[of i] by auto
  next
    assume "\<exists>b. (v, b) \<in> set outs \<and> b_Op b \<in> set dep_ops \<and> admits outs ins b"
    then obtain b where b: "(v, b) \<in> set outs" "b_Op b \<in> set dep_ops" "admits outs ins b" by blast
    then obtain ts where ts: "map_of (bs_summary st) (b_Id b) = Some ts"
      using out[of "b_Id b"] by (cases "map_of (bs_summary st) (b_Id b)") (fastforce simp: summary_ok_def)+
    then have "v \<in> set (token_vouts ts)" using token_vouts_set[of outs ins "b_Id b" ts] out[of "b_Id b"] b by auto
    then show "\<exists>i ts. (i, ts) \<in> set S \<and> v \<in> set (token_vouts ts)" using ts S by blast
  qed
  have depl: "v \<in> set (OutputsToAdmit (bs_admit st)) \<longleftrightarrow> (\<exists>b. (v, b) \<in> set outs \<and> b_Op b \<in> set deploy_ops)" for v
    using ok by (force simp: ins_ok_def)
  have "v \<in> set (fold admit_token S (OutputsToAdmit (bs_admit st))) \<longleftrightarrow>
      v \<in> set (OutputsToAdmit (bs_admit st)) \<or> (\<exists>i ts. (i, ts) \<in> set S \<and> v \<in> set (token_vouts ts))" for v
    by (force simp: fold_admit)
  moreover have "admits outs ins b" if "b_Op b \<in> set deploy_ops" for b using that by (auto simp: admits_def)
  moreover have "b_Op b \<in> set deploy_ops \<or> b_Op b \<in> set dep_ops" if "(v, b) \<in> set outs" for v b using ops[OF that] by auto
  ultimately show ?thesis unfolding dep depl by blast
qed

lemma out_event_ops:
  assumes "(v, b) \<in> set (tx_out_events M K L txid tx)"
  shows "b_Op b \<in> set (deploy_ops @ dep_ops)"
proof -
  obtain n scr where "(v, b) \<in> set (out_event M K L txid (n, scr))" using assms by (auto simp: tx_out_events_def)
  then obtain b0 op where b0: "bsv21_Decode K L scr = Inr (Some b0)" "b = own_id L op b0"
    unfolding out_event_def Let_def prod.case by (auto split: sum.splits option.splits if_splits) metis
  then show ?thesis using decoded_op[OF b0(1)] by simp blast
qed

text \<open>A call that gets past the outputs either had only deploys, or went through the inputs.\<close>

lemma identify_cases:
  assumes tx: "beef txid = Some tx"
    and r: "bsv21_IdentifyAdmissibleOutputs M K L rngS rngA beef txid prev = (r, a)"
  obtains (fault) f where "r = Inl (TopicFault f)"
  | (deploys) st where "outs_ok (tx_out_events M K L txid tx) st" "bs_summary st = []" "r = Inr ()" "a = bs_admit st"
  | (inputs) st st' where "outs_ok (tx_out_events M K L txid tx) st" "r = Inr ()" "a = bs_admit (finish rngS rngA st')"
      "sfor (classify_input M K L txid prev) (List.enumerate 0 (tt_inputs tx)) st = (Inr (), st')"
  | (stopped) e st st' where "outs_ok (tx_out_events M K L txid tx) st" "r = Inl e"
      "sfor (classify_input M K L txid prev) (List.enumerate 0 (tt_inputs tx)) st = (Inl e, st')"
proof -
  let ?s0 = "\<lparr>bs_summary = [], bs_anc = [], bs_admit = no_admittance\<rparr>"
  obtain q st where q: "sfor (classify_output M K L txid) (List.enumerate 0 (tt_outputs tx)) ?s0 = (q, st)" by force
  have outf: "\<exists>f. e = TopicFault f" if "sfor (classify_output M K L txid) xs s = (Inl e, t)" for xs s e t
    using that
  proof (induction xs arbitrary: s)
    case (Cons x xs)
    then show ?case
      by (cases x) (auto simp: step_simps classify_output_def lift_fault_def supd_def Let_def
          split: prod.splits sum.splits option.splits if_splits)
  qed (simp add: sret_def)
  show thesis
  proof (cases q)
    case (Inl e)
    then show ?thesis using q r tx outf[of _ ?s0 e st] fault
      by (auto simp: bsv21_IdentifyAdmissibleOutputs_def step_simps)
  next
    case (Inr u)
    then have ok: "outs_ok (tx_out_events M K L txid tx) st" using outs_pass[of M K L txid tx st] q by simp
    show ?thesis
    proof (cases "bs_summary st = []")
      case True
      then show ?thesis using q r tx Inr ok deploys by (simp add: bsv21_IdentifyAdmissibleOutputs_def step_simps)
    next
      case False
      obtain p st' where p: "sfor (classify_input M K L txid prev) (List.enumerate 0 (tt_inputs tx)) st = (p, st')" by force
      then show ?thesis using q r tx Inr ok False inputs stopped
        by (cases p) (auto simp: bsv21_IdentifyAdmissibleOutputs_def step_simps supd_def)
    qed
  qed
qed

lemma admission_aux:
  assumes tx: "beef txid = Some tx" and rng: "\<And>S. set (rngS S) = set S"
    and r: "bsv21_IdentifyAdmissibleOutputs M K L rngS rngA beef txid prev = (Inr (), a)"
  shows "set (OutputsToAdmit a) = {v. \<exists>b. (v, b) \<in> set (tx_out_events M K L txid tx) \<and>
    admits (tx_out_events M K L txid tx) (tx_in_events M K L tx) b}"
  using tx r
proof (cases rule: identify_cases)
  case (deploys st)
  have "dependent_ids (tx_out_events M K L txid tx) = {}"
    using outs_ok_ids[OF deploys(1)] deploys(2) by (simp add: summary_ids_def)
  then have "b_Op b \<in> set deploy_ops" if "(v, b) \<in> set (tx_out_events M K L txid tx)" for v b
    using out_event_ops[OF that] that by (auto simp: dependent_ids_def)
  moreover have "v \<in> set (OutputsToAdmit a) \<longleftrightarrow> (\<exists>b. (v, b) \<in> set (tx_out_events M K L txid tx) \<and> b_Op b \<in> set deploy_ops)" for v
    using deploys(1,4) by (force simp: outs_ok_def)
  moreover have "b_Op b \<in> set deploy_ops \<Longrightarrow> admits outs ins b" for outs ins b by (auto simp: admits_def)
  ultimately show ?thesis by blast
next
  case (inputs st st')
  have "OutputsToAdmit a = fold admit_token (rngS (bs_summary st')) (OutputsToAdmit (bs_admit st'))"
    using inputs(3) by (simp add: finish_def Let_def)
  then show ?thesis
    using admitted_set[OF ins_pass[OF inputs(1,4)] rng out_event_ops[of _ _ M K L txid tx]] by simp
qed simp_all

lemma enumerate_event_unique:
  assumes "length xs \<le> 2 ^ 32" and "(v, b) \<in> set (concat (map (out_event M K L txid) (List.enumerate 0 xs)))"
    and "(v, c) \<in> set (concat (map (out_event M K L txid) (List.enumerate 0 xs)))"
  shows "b = c"
proof -
  have pos: "\<exists>n < length xs. v = of_nat n \<and> (v, b) \<in> set (out_event M K L txid (n, xs ! n))"
    if h: "(v, b) \<in> set (concat (map (out_event M K L txid) (List.enumerate 0 xs)))" for b
  proof -
    obtain n x where "(n, x) \<in> set (List.enumerate 0 xs)" "(v, b) \<in> set (out_event M K L txid (n, x))" using h by auto
    moreover then have "v = of_nat n" by (auto simp: out_event_def Let_def split: sum.splits option.splits if_splits)
    ultimately show ?thesis by (auto simp: in_set_enumerate_eq)
  qed
  obtain n m where n: "n < length xs" "v = of_nat n" "(v, b) \<in> set (out_event M K L txid (n, xs ! n))"
    and m: "m < length xs" "v = of_nat m" "(v, c) \<in> set (out_event M K L txid (m, xs ! m))"
    using pos[OF assms(2)] pos[OF assms(3)] by blast
  have "n < 2 ^ 32" "m < 2 ^ 32" using n(1) m(1) assms(1) by auto
  then have "unat (of_nat n :: 32 word) = n" "unat (of_nat m :: 32 word) = m"
    by (simp_all add: unsigned_of_nat take_bit_nat_eq_self)
  then have "n = m" using n(2) m(2) by metis
  then show ?thesis using n(3) m(3)
    by (cases "bsv21_Decode K L (xs ! m)") (auto simp: out_event_def Let_def split: option.splits if_splits)
qed

text \<open>The inputs of a token that the topic counts are retained, and known coins.\<close>

lemma in_event_needed:
  assumes "(u, c) \<in> set (tx_in_events M K L tx)" and "b_Id c \<in> T" and "b_Op c \<in> set (spend_ops @ authority_ops)"
  shows "u \<in> set (needed (needs_coin M K L T) 0 (tt_inputs tx))"
proof -
  obtain n x where x: "(n, x) \<in> set (List.enumerate 0 (tt_inputs tx))" "(u, c) \<in> set (in_event M K L (n, x))"
    using assms(1) by (auto simp: tx_in_events_def)
  then have "input_token M K L x = Some c" "u = of_nat n" by (auto simp: in_event_def split: option.splits)
  then show ?thesis using x(1) assms(2,3) by (force simp: needed_def needs_coin_def)
qed

lemma retained_aux:
  assumes tx: "beef txid = Some tx" and rngA: "\<And>A. set (rngA A) = set A"
    and r: "bsv21_IdentifyAdmissibleOutputs M K L rngS rngA beef txid prev = (Inr (), a)"
  defines "T \<equiv> dependent_ids (tx_out_events M K L txid tx)"
  shows "CoinsToRetain a = needed (needs_coin M K L T) 0 (tt_inputs tx) \<and>
    set (needed (needs_coin M K L T) 0 (tt_inputs tx)) \<subseteq> set prev \<and>
    set (AncillaryTxids a) = ti_txid ` {x \<in> set (tt_inputs tx). touched M K L T x}"
  using tx r
proof (cases rule: identify_cases)
  case (deploys st)
  have "T = {}" using outs_ok_ids[OF deploys(1)] deploys(2) by (simp add: summary_ids_def T_def)
  then have "needed (needs_coin M K L T) 0 (tt_inputs tx) = []" "\<And>x. \<not> touched M K L T x"
    by (auto simp: needed_def needs_coin_def touched_def filter_empty_conv split: option.splits)
  then show ?thesis using deploys by (simp add: outs_ok_def)
next
  case (inputs st st')
  have T: "summary_ids st = T" using outs_ok_ids[OF inputs(1)] by (simp add: T_def)
  have st: "CoinsToRetain (bs_admit st) = []" "bs_anc st = []" "AncillaryTxids (bs_admit st) = []"
    using inputs(1) by (simp_all add: outs_ok_def)
  have p: "CoinsToRetain (bs_admit st') = needed (needs_coin M K L T) 0 (tt_inputs tx)"
    "set (bs_anc st') = ti_txid ` {x \<in> set (tt_inputs tx). touched M K L T x}"
    "AncillaryTxids (bs_admit st') = []" "set (needed (needs_coin M K L T) 0 (tt_inputs tx)) \<subseteq> set prev"
    using bsv_pass.pass_ok[OF inputs(4)] by (simp_all add: T st)
  moreover have "CoinsToRetain a = CoinsToRetain (bs_admit st')"
    "AncillaryTxids a = (if bs_anc st' = [] then AncillaryTxids (bs_admit st') else rngA (bs_anc st'))"
    using inputs(3) by (simp_all add: finish_def Let_def)
  ultimately show ?thesis using rngA by auto
qed simp_all

text \<open>When a transfer or burn of a token is admitted, the token's outputs are covered by its inputs.\<close>

lemma conserved_aux:
  assumes "length (tt_outputs tx) \<le> 2 ^ 32"
    and a: "set (OutputsToAdmit a) = {v. \<exists>b. (v, b) \<in> set outs \<and> admits outs ins b}"
    and outs: "outs = tx_out_events M K L txid tx"
  shows "sum_list (map (unat \<circ> b_Amt \<circ> snd) (filter (\<lambda>(v, b). b_Op b \<in> {OpTransfer, OpBurn} \<and> b_Id b = i \<and>
    v \<in> set (OutputsToAdmit a)) outs)) \<le> total spend_ops i ins"
proof (cases "\<exists>v b. (v, b) \<in> set outs \<and> b_Op b \<in> {OpTransfer, OpBurn} \<and> b_Id b = i \<and> v \<in> set (OutputsToAdmit a)")
  case False
  then have "filter (\<lambda>(v, b). b_Op b \<in> {OpTransfer, OpBurn} \<and> b_Id b = i \<and> v \<in> set (OutputsToAdmit a)) outs = []"
    by (auto simp: filter_empty_conv)
  then show ?thesis by simp
next
  case True
  then obtain v b where b: "(v, b) \<in> set outs" "b_Op b \<in> {OpTransfer, OpBurn}" "b_Id b = i" "v \<in> set (OutputsToAdmit a)" by blast
  then obtain c where "(v, c) \<in> set outs" "admits outs ins c" using a by blast
  then have "admits outs ins b"
    using enumerate_event_unique[OF assms(1), of v b M K L txid c] b(1) by (simp add: outs tx_out_events_def)
  then have le: "total [OpTransfer] i outs + total [OpBurn] i outs \<le> total spend_ops i ins"
    using b by (auto simp: admits_def)
  have "sum_list (map (unat \<circ> b_Amt \<circ> snd) (filter (\<lambda>(v, b). b_Op b \<in> {OpTransfer, OpBurn} \<and> b_Id b = i \<and> P v) xs))
      \<le> total [OpTransfer] i xs + total [OpBurn] i xs" for P xs
    by (induction xs) (auto simp: total_def amounts_def)
  then show ?thesis using le by (meson order_trans)
qed

section \<open>The inputs that are asked for\<close>

lemma own_id_dep: "b_Op b \<notin> set deploy_ops \<Longrightarrow> own_id L op b = b"
  by (simp add: own_id_def)

lemma output_tokens_set:
  assumes "output_tokens M K L scrs = Inr ids"
  shows "set ids = dependent_ids (concat (map (out_event M K L txid) (List.enumerate n scrs)))"
  using assms
proof (induction scrs arbitrary: n ids)
  case Nil
  then show ?case by (simp add: dependent_ids_def)
next
  case (Cons scr scrs)
  obtain d ids' where d: "bsv21_Decode K L scr = Inr d" "output_tokens M K L scrs = Inr ids'"
    using Cons.prems by (auto simp: rbind_eq_Inr lift_fault_def split: sum.splits)
  have split: "dependent_ids (xs @ ys) = dependent_ids xs \<union> dependent_ids ys" for xs ys
    by (auto simp: dependent_ids_def)
  have "set ids = set ids' \<union> dependent_ids (out_event M K L txid (n, scr))"
  proof (cases d)
    case None
    then show ?thesis using Cons.prems d by (simp add: lift_fault_def out_event_def dependent_ids_def)
  next
    case (Some b)
    then have "b_Op b \<in> set deploy_ops \<union> set dep_ops" using decoded_op d(1) by blast
    then show ?thesis using Cons.prems d Some
      by (auto simp: lift_fault_def out_event_def dependent_ids_def own_id_def Let_def split: if_splits)
  qed
  then show ?case using Cons.IH[OF d(2), of "Suc n"] by (simp add: split Un_commute)
qed

lemma needed_inputs_mem:
  assumes "needed_inputs K L loader ids xs = Inr ops" and "x \<in> set xs" and "needs_input K L loader ids x = Inr True"
  shows "ti_outpoint x \<in> set ops"
  using assms(1,2)
proof (induction xs arbitrary: ops)
  case (Cons y ys)
  obtain n ops' where n: "needs_input K L loader ids y = Inr n" "needed_inputs K L loader ids ys = Inr ops'"
    "ops = (if n then ti_outpoint y # ops' else ops')"
    using Cons.prems(1) by (auto simp: rbind_eq_Inr split: if_splits)
  then show ?case using Cons.IH[OF n(2)] Cons.prems(2) assms(3) by auto
qed simp

section \<open>Properties\<close>

text \<open>
  C19: when the function succeeds it admits exactly the deploys, the transfers and burns of each token whose
  counted inputs cover their sum (and fit in 64 bits), and the mints and authorities of each token of which
  an authority is spent; the order in which the tokens are visited does not matter.
\<close>

theorem bsv21_admission_exact:
  assumes "beef txid = Some tx" and "\<And>S. set (rngS S) = set S"
    and "bsv21_IdentifyAdmissibleOutputs M K L rngS rngA beef txid prev = (Inr (), a)"
  shows "set (OutputsToAdmit a) = {v. \<exists>b. (v, b) \<in> set (tx_out_events M K L txid tx) \<and>
    admits (tx_out_events M K L txid tx) (tx_in_events M K L tx) b}"
  by (rule admission_aux[OF assms])

text \<open>
  C20: no transfer or burn creates tokens: of each token, the admitted transfers and burns add up to at
  most what the counted inputs bring in, and each of those inputs is retained and is a previous coin when
  the token has such outputs.
\<close>

theorem bsv21_conserves_tokens:
  assumes "beef txid = Some tx" and "\<And>S. set (rngS S) = set S" and "\<And>A. set (rngA A) = set A"
    and "bsv21_IdentifyAdmissibleOutputs M K L rngS rngA beef txid prev = (Inr (), a)"
    and "length (tt_outputs tx) \<le> 2 ^ 32"
  shows "sum_list (map (unat \<circ> b_Amt \<circ> snd) (filter (\<lambda>(v, b). b_Op b \<in> {OpTransfer, OpBurn} \<and> b_Id b = i \<and>
      v \<in> set (OutputsToAdmit a)) (tx_out_events M K L txid tx))) \<le> total spend_ops i (tx_in_events M K L tx) \<and>
    (\<forall>(u, c) \<in> set (tx_in_events M K L tx). b_Op c \<in> set spend_ops \<and> b_Id c \<in> dependent_ids (tx_out_events M K L txid tx) \<longrightarrow>
      u \<in> set (CoinsToRetain a) \<inter> set prev)"
proof (intro conjI ballI)
  show "sum_list (map (unat \<circ> b_Amt \<circ> snd) (filter (\<lambda>(v, b). b_Op b \<in> {OpTransfer, OpBurn} \<and> b_Id b = i \<and>
      v \<in> set (OutputsToAdmit a)) (tx_out_events M K L txid tx))) \<le> total spend_ops i (tx_in_events M K L tx)"
    by (rule conserved_aux[OF assms(5) admission_aux[OF assms(1,2,4)] refl])
next
  fix e assume e: "e \<in> set (tx_in_events M K L tx)"
  obtain u c where uc: "e = (u, c)" by (cases e)
  show "case e of (u, c) \<Rightarrow> b_Op c \<in> set spend_ops \<and> b_Id c \<in> dependent_ids (tx_out_events M K L txid tx) \<longrightarrow>
      u \<in> set (CoinsToRetain a) \<inter> set prev"
    using in_event_needed[of u c M K L tx "dependent_ids (tx_out_events M K L txid tx)"]
      retained_aux[OF assms(1,3,4)] e unfolding uc by auto
qed

text \<open>
  The function retains exactly the inputs that a token with outputs needs, when they are all previous coins,
  and reports the sources of the inputs it looked at; otherwise it stops, for the first needed
  input that is not a previous coin and with that input in the error (decoding faults apart).
\<close>

theorem bsv21_inputs_exact:
  fixes M :: topic_manager
  assumes "beef txid = Some tx" and "\<And>A. set (rngA A) = set A"
    and "bsv21_IdentifyAdmissibleOutputs M K L rngS rngA beef txid prev = (r, a)" and "\<nexists>f. r = Inl (TopicFault f)"
  defines "T \<equiv> dependent_ids (tx_out_events M K L txid tx)"
  shows "case r of
      Inr u \<Rightarrow> CoinsToRetain a = needed (needs_coin M K L T) 0 (tt_inputs tx) \<and> set (CoinsToRetain a) \<subseteq> set prev \<and>
        set (AncillaryTxids a) = ti_txid ` {x \<in> set (tt_inputs tx). touched M K L T x}
    | Inl e \<Rightarrow> \<exists>k < length (tt_inputs tx). e = missing_error M txid k (tt_inputs tx ! k) \<and>
        needs_coin M K L T (tt_inputs tx ! k) \<and> of_nat k \<notin> set prev \<and>
        set (needed (needs_coin M K L T) 0 (take k (tt_inputs tx))) \<subseteq> set prev"
  using assms(1,3)
proof (cases rule: identify_cases)
  case (fault f)
  then show ?thesis using assms(4) by blast
next
  case (stopped e st st')
  have "summary_ids st = T" using outs_ok_ids[OF stopped(1)] by (simp add: T_def)
  then show ?thesis using bsv_pass.pass_err[OF stopped(3)] assms(4) stopped(2) by simp
next
  case (deploys st)
  have "bsv21_IdentifyAdmissibleOutputs M K L rngS rngA beef txid prev = (Inr (), a)" using assms(3) deploys(3) by simp
  from retained_aux[OF assms(1,2) this] show ?thesis by (simp add: deploys(3) T_def)
next
  case (inputs st st')
  have "bsv21_IdentifyAdmissibleOutputs M K L rngS rngA beef txid prev = (Inr (), a)" using assms(3) inputs(2) by simp
  from retained_aux[OF assms(1,2) this] show ?thesis by (simp add: inputs(2) T_def)
qed

text \<open>
  C21: every input that the admission will need as a coin, once its source is attached, is asked for when it is
  not attached yet, whether or not its transaction is found locally.
\<close>

theorem bsv21_needed_inputs_complete:
  assumes "beef txid = Some tx" and "bsv21_IdentifyNeededInputs M K L loader beef txid = Inr ops"
    and "x \<in> set (tt_inputs tx)" and "\<not> ti_loaded x"
    and "needs_coin M K L (dependent_ids (tx_out_events M K L txid tx)) (x\<lparr>ti_source := Some scr\<rparr>)"
    and "\<And>load outs. loader = Some load \<Longrightarrow> load (ti_txid x) = Some outs \<Longrightarrow>
      unat (ti_index x) < length outs \<and> outs ! unat (ti_index x) = scr"
  shows "ti_outpoint x \<in> set ops"
proof -
  obtain ids where ids: "output_tokens M K L (tt_outputs tx) = Inr ids"
    "(if ids = [] then Inr [] else needed_inputs K L loader ids (tt_inputs tx)) = Inr ops"
    using assms(1,2) by (auto simp: bsv21_IdentifyNeededInputs_def rbind_eq_Inr)
  have T: "set ids = dependent_ids (tx_out_events M K L txid tx)"
    using output_tokens_set[OF ids(1), of txid 0] by (simp add: tx_out_events_def)
  obtain b0 where b0: "bsv21_Decode K L scr = Inr (Some b0)" "b_Id (own_id L (ti_outpoint x) b0) \<in> set ids"
    using assms(5)
    by (auto simp: needs_coin_def input_token_def T Let_def ti_outpoint_def split: option.splits sum.splits if_splits)
  have "needs_input K L loader ids x = Inr True"
  proof (cases loader)
    case (Some load)
    then show ?thesis using assms(4) assms(6)[OF Some] b0
      by (cases "load (ti_txid x)") (auto simp: needs_input_def lift_fault_def)
  qed (simp add: needs_input_def assms(4))
  moreover have "ids \<noteq> []" using b0(2) by auto
  ultimately show ?thesis using ids(2) needed_inputs_mem assms(3) by auto
qed

section \<open>A transaction\<close>

text \<open>Documents by the content of their inscription, and the script that carries a content.\<close>

definition docs_lib :: "(bytes \<times> (bytes \<times> jval) list) list \<Rightarrow> script_lib" where
  "docs_lib ds = demo_lib\<lparr>json_parse := (\<lambda>b. map_option map_of (map_of ds b))\<rparr>"

definition token_insc :: "bytes \<Rightarrow> inscription" where
  "token_insc c = (new_inscription [])\<lparr>in_type := ''application/bsv-20'', in_content := c\<rparr>"

definition token_script :: "bytes \<Rightarrow> bytes" where
  "token_script c = inscription_Lock demo_lib (token_insc c)"

lemma docs_lib_laws: "read_laws (docs_lib ds)" "write_laws (docs_lib ds)"
  using demo_laws by (simp_all add: docs_lib_def read_laws_def write_laws_def)

lemma token_insc_simps:
  "in_prefix (token_insc c) = []" "in_type (token_insc c) = ''application/bsv-20''" "in_content (token_insc c) = c"
  by (simp_all add: token_insc_def new_inscription_def)

lemma docs_lib_simps [simp]:
  "utf8_valid (docs_lib ds) b" "to_lower (docs_lib ds) b = b" "outpoint_ok (docs_lib ds) b \<longleftrightarrow> length b = 36"
  "json_parse (docs_lib ds) b = map_option map_of (map_of ds b)" "push_data (docs_lib ds) = push_data demo_lib"
  "ordinal_string (docs_lib ds) = demo_bytes"
  by (simp_all add: docs_lib_def demo_lib_def)

lemma token_script_decode:
  assumes "map_of ds c = Some kvs" and "length c < 2 ^ 32"
  shows "bsv21_Decode K (docs_lib ds) (token_script c) = decode_doc (docs_lib ds) (read_back (docs_lib ds) (token_insc c)) (map_of kvs)"
proof -
  have "token_script c = inscription_Lock (docs_lib ds) (token_insc c)" by (simp add: token_script_def inscription_Lock_def)
  moreover have "inscription_Decode K (docs_lib ds) (inscription_Lock (docs_lib ds) (token_insc c)) = Inr (Some (read_back (docs_lib ds) (token_insc c)))"
    by (rule inscription_round_trip_aux[OF docs_lib_laws, of "[]"]) (use assms(2) in \<open>simp_all add: token_insc_simps\<close>)
  ultimately show ?thesis by (simp add: bsv21_Decode_def token_insc_simps assms(1))
qed

text \<open>Two transfers of 5 and 3 tokens, fed by a mint of 8.\<close>

definition demo_id :: bytes where "demo_id = replicate 36 (CHR ''a'')"

definition demo_docs :: "(bytes \<times> (bytes \<times> jval) list) list" where
  "demo_docs = map (\<lambda>(c, op, n). (c, [(''p'', JStr ''bsv-20''), (''op'', JStr op), (''amt'', JStr n), (''id'', JStr demo_id)]))
     [(''A'', ''transfer'', ''5''), (''B'', ''transfer'', ''3''), (''C'', ''mint'', ''8'')]"

definition demo_tx :: topic_tx where
  "demo_tx = \<lparr>tt_inputs = [\<lparr>ti_txid = replicate 32 (CHR 0x01), ti_index = 0, ti_loaded = True, ti_source = Some (token_script ''C'')\<rparr>],
     tt_outputs = [token_script ''A'', token_script ''B'']\<rparr>"

definition demo_manager :: topic_manager where
  "demo_manager = NewBsv21ValidatedTopicManager ''tm'' []"

abbreviation demo_txid :: txid where "demo_txid \<equiv> replicate 32 (CHR 0x02)"

definition demo_run :: "32 word list \<Rightarrow> (topic_err + unit) \<times> admittance" where
  "demo_run prev = bsv21_IdentifyAdmissibleOutputs demo_manager demo_sdk (docs_lib demo_docs) rev rev (\<lambda>t. Some demo_tx) demo_txid prev"

definition demo_b :: "bytes \<Rightarrow> bytes \<Rightarrow> 64 word \<Rightarrow> bsv21" where
  "demo_b c op n = \<lparr>b_Id = demo_id, b_Op = op, b_Symbol = None, b_Decimals = None, b_Icon = None, b_Amt = n,
     b_Insc = Some (read_back (docs_lib demo_docs) (token_insc c))\<rparr>"

lemma demo_decode:
  "bsv21_Decode K (docs_lib demo_docs) (token_script ''A'') = Inr (Some (demo_b ''A'' OpTransfer 5))"
  "bsv21_Decode K (docs_lib demo_docs) (token_script ''B'') = Inr (Some (demo_b ''B'' OpTransfer 3))"
  "bsv21_Decode K (docs_lib demo_docs) (token_script ''C'') = Inr (Some (demo_b ''C'' OpMint 8))"
proof -
  have d: "map_of demo_docs ''A'' = Some [(''p'', JStr ''bsv-20''), (''op'', JStr ''transfer''), (''amt'', JStr ''5''), (''id'', JStr demo_id)]"
    "map_of demo_docs ''B'' = Some [(''p'', JStr ''bsv-20''), (''op'', JStr ''transfer''), (''amt'', JStr ''3''), (''id'', JStr demo_id)]"
    "map_of demo_docs ''C'' = Some [(''p'', JStr ''bsv-20''), (''op'', JStr ''mint''), (''amt'', JStr ''8''), (''id'', JStr demo_id)]"
    by (simp_all add: demo_docs_def)
  have i: "length demo_id = 36" by (simp add: demo_id_def)
  note ev = decode_doc_def decode_amt_def decode_dec_def decode_tail_def ParseUint_def is_digit_def token_op_defs demo_b_def
  show "bsv21_Decode K (docs_lib demo_docs) (token_script ''A'') = Inr (Some (demo_b ''A'' OpTransfer 5))"
    unfolding token_script_decode[OF d(1), of K, simplified] by (simp add: ev i)
  show "bsv21_Decode K (docs_lib demo_docs) (token_script ''B'') = Inr (Some (demo_b ''B'' OpTransfer 3))"
    unfolding token_script_decode[OF d(2), of K, simplified] by (simp add: ev i)
  show "bsv21_Decode K (docs_lib demo_docs) (token_script ''C'') = Inr (Some (demo_b ''C'' OpMint 8))"
    unfolding token_script_decode[OF d(3), of K, simplified] by (simp add: ev i)
qed

lemma demo_has: "bsv21_HasTokenId demo_manager i"
  by (simp add: bsv21_HasTokenId_def demo_manager_def NewBsv21ValidatedTopicManager_def)

lemma demo_own [simp]: "own_id L op (demo_b c o' n) = (if o' = OpDeployMint \<or> o' = OpDeployAuth then (demo_b c o' n)\<lparr>b_Id := ordinal_string L op\<rparr> else demo_b c o' n)"
  by (simp add: own_id_def demo_b_def)

lemma demo_b_simps [simp]: "b_Op (demo_b c o' n) = o'" "b_Id (demo_b c o' n) = demo_id" "b_Amt (demo_b c o' n) = n"
  by (simp_all add: demo_b_def)

lemma demo_run_ok: "demo_run [0] = (Inr (), \<lparr>OutputsToAdmit = [0, 1], CoinsToRetain = [0], AncillaryTxids = [replicate 32 (CHR 0x01)]\<rparr>)"
  by (simp add: demo_run_def bsv21_IdentifyAdmissibleOutputs_def demo_tx_def step_simps classify_output_def classify_input_def
      demo_decode lift_fault_def demo_has record_output_def supd_def upd_summary_def new_summary_def add_transferOut_def
      ts_add_def Add64_def no_admittance_def record_input_def retain_def add_tokensIn_def finish_def admit_token_def Let_def)

lemma demo_run_missing: "demo_run [] = (Inl (missing_error demo_manager demo_txid 0 (hd (tt_inputs demo_tx))), no_admittance)"
  by (simp add: demo_run_def bsv21_IdentifyAdmissibleOutputs_def demo_tx_def step_simps classify_output_def classify_input_def
      demo_decode lift_fault_def demo_has record_output_def supd_def upd_summary_def new_summary_def add_transferOut_def
      ts_add_def Add64_def no_admittance_def record_input_def Let_def)

lemma demo_run_is:
  "bsv21_IdentifyAdmissibleOutputs demo_manager demo_sdk (docs_lib demo_docs) rev rev (\<lambda>t. Some demo_tx) demo_txid [0] =
    (Inr (), snd (demo_run [0]))"
  using demo_run_ok by (simp add: demo_run_def)

theorem bsv21_admission_exact_witness:
  "set (OutputsToAdmit (snd (demo_run [0]))) = {v. \<exists>b. (v, b) \<in> set (tx_out_events demo_manager demo_sdk (docs_lib demo_docs) demo_txid demo_tx) \<and>
     admits (tx_out_events demo_manager demo_sdk (docs_lib demo_docs) demo_txid demo_tx) (tx_in_events demo_manager demo_sdk (docs_lib demo_docs) demo_tx) b} \<and>
   OutputsToAdmit (snd (demo_run [0])) = [0, 1]"
  using bsv21_admission_exact[OF refl _ demo_run_is] by (simp add: demo_run_ok)

theorem bsv21_conserves_tokens_witness:
  "sum_list (map (unat \<circ> b_Amt \<circ> snd) (filter (\<lambda>(v, b). b_Op b \<in> {OpTransfer, OpBurn} \<and> b_Id b = demo_id \<and>
      v \<in> set (OutputsToAdmit (snd (demo_run [0])))) (tx_out_events demo_manager demo_sdk (docs_lib demo_docs) demo_txid demo_tx)))
     \<le> total spend_ops demo_id (tx_in_events demo_manager demo_sdk (docs_lib demo_docs) demo_tx)"
  using bsv21_conserves_tokens[OF refl _ _ demo_run_is] by (simp add: demo_tx_def)

theorem bsv21_inputs_exact_witness:
  "\<exists>k < length (tt_inputs demo_tx). fst (demo_run []) = Inl (missing_error demo_manager demo_txid k (tt_inputs demo_tx ! k))"
proof -
  have r: "bsv21_IdentifyAdmissibleOutputs demo_manager demo_sdk (docs_lib demo_docs) rev rev (\<lambda>t. Some demo_tx) demo_txid [] =
      (fst (demo_run []), snd (demo_run []))" by (simp add: demo_run_def)
  have "\<nexists>f. fst (demo_run []) = Inl (TopicFault f)" by (simp add: demo_run_missing missing_error_def)
  from bsv21_inputs_exact[OF refl _ r this] show ?thesis by (auto simp: demo_run_missing)
qed

text \<open>The same transaction before its source is attached.\<close>

definition demo_in :: topic_input where
  "demo_in = \<lparr>ti_txid = replicate 32 (CHR 0x01), ti_index = 0, ti_loaded = False, ti_source = None\<rparr>"

definition demo_tx0 :: topic_tx where
  "demo_tx0 = demo_tx\<lparr>tt_inputs := [demo_in]\<rparr>"

theorem bsv21_needed_inputs_complete_witness:
  "\<exists>ops. bsv21_IdentifyNeededInputs demo_manager demo_sdk (docs_lib demo_docs) None (\<lambda>t. Some demo_tx0) demo_txid = Inr ops \<and>
    ti_outpoint demo_in \<in> set ops"
proof -
  obtain ops where ops: "bsv21_IdentifyNeededInputs demo_manager demo_sdk (docs_lib demo_docs) None (\<lambda>t. Some demo_tx0) demo_txid = Inr ops"
    by (simp add: bsv21_IdentifyNeededInputs_def demo_tx0_def demo_tx_def demo_decode lift_fault_def demo_has needs_input_def demo_in_def)
  have need: "needs_coin demo_manager demo_sdk (docs_lib demo_docs)
      (dependent_ids (tx_out_events demo_manager demo_sdk (docs_lib demo_docs) demo_txid demo_tx0))
      (demo_in\<lparr>ti_source := Some (token_script ''C'')\<rparr>)"
    by (force simp: needs_coin_def input_token_def demo_decode demo_has dependent_ids_def tx_out_events_def out_event_def demo_tx0_def demo_tx_def)
  have "ti_outpoint demo_in \<in> set ops"
    by (rule bsv21_needed_inputs_complete[OF refl ops _ _ need]) (simp_all add: demo_tx0_def demo_in_def)
  then show ?thesis using ops by blast
qed

end
