(* ===== verification/ShrugTopic.thy ===== *)
theory ShrugTopic
  imports TopicBase TemplateLaws "HOL-Library.AList"
begin

text \<open>
  \<open>pkg/shrug/topic_validated.go\<close>: which outputs of a transaction the shrug topic admits. A token
  without an id is a deploy, an amount of zero an authority, any other amount a value; amounts are
  unbounded. \<open>rngS\<close> and \<open>rngA\<close> are the orders in which Go ranges over its maps.
\<close>

definition NewShrugValidatedTopicManager :: "bytes \<Rightarrow> bytes list \<Rightarrow> topic_manager" where
  "NewShrugValidatedTopicManager topic ids =
     \<lparr>tm_topic = topic, tm_tokenIds = (if length ids > 0 then Some ids else None)\<rparr>"

definition shrug_HasTokenId :: "topic_manager \<Rightarrow> bytes \<Rightarrow> bool" where
  "shrug_HasTokenId M i = (case tm_tokenIds M of None \<Rightarrow> True | Some ids \<Rightarrow> i \<in> set ids)"

record shrug_summary =
  sh_tokensIn :: int
  sh_valueOut :: int
  sh_valueVouts :: "32 word list"
  sh_authVouts :: "32 word list"
  sh_hasAuthInput :: bool

definition new_shrug_summary :: shrug_summary where
  "new_shrug_summary = \<lparr>sh_tokensIn = 0, sh_valueOut = 0, sh_valueVouts = [], sh_authVouts = [], sh_hasAuthInput = False\<rparr>"

record shrug_state =
  sh_summary :: "(bytes \<times> shrug_summary) list"
  sh_anc :: "txid list"
  sh_admit :: admittance

definition sh_upd :: "bytes \<Rightarrow> (shrug_summary \<Rightarrow> shrug_summary) \<Rightarrow> shrug_state \<Rightarrow> shrug_state" where
  "sh_upd i f st = st\<lparr>sh_summary := AList.update i
     (f (case map_of (sh_summary st) i of None \<Rightarrow> new_shrug_summary | Some ts \<Rightarrow> ts)) (sh_summary st)\<rparr>"

text \<open>The amount of a decoded token, which the decoder always sets.\<close>

definition shrug_amount :: "shrug \<Rightarrow> int" where
  "shrug_amount s = (case s_Amount s of Some a \<Rightarrow> a | None \<Rightarrow> 0)"

definition shrug_token_id :: "script_lib \<Rightarrow> outpoint \<Rightarrow> shrug \<Rightarrow> bytes" where
  "shrug_token_id L op s = ordinal_string L (case s_Id s of None \<Rightarrow> op | Some i \<Rightarrow> i)"

section \<open>The passes\<close>

definition sh_record_output :: "32 word \<Rightarrow> bytes \<Rightarrow> shrug \<Rightarrow> shrug_state \<Rightarrow> shrug_state" where
  "sh_record_output v i s st =
     (if s_Id s = None then
        st\<lparr>sh_admit := (sh_admit st)\<lparr>OutputsToAdmit := OutputsToAdmit (sh_admit st) @ [v]\<rparr>\<rparr>
      else if shrug_amount s = 0 then sh_upd i (\<lambda>ts. ts\<lparr>sh_authVouts := sh_authVouts ts @ [v]\<rparr>) st
      else sh_upd i (\<lambda>ts. ts\<lparr>sh_valueOut := sh_valueOut ts + shrug_amount s, sh_valueVouts := sh_valueVouts ts @ [v]\<rparr>) st)"

definition sh_classify_output ::
  "topic_manager \<Rightarrow> sdk \<Rightarrow> script_lib \<Rightarrow> txid \<Rightarrow> nat \<times> bytes \<Rightarrow> (shrug_state, topic_err, unit) sm" where
  "sh_classify_output M K L txid = (\<lambda>(vout, scr). sbind (slift (lift_fault (shrug_Decode K L scr))) (\<lambda>d.
     case d of None \<Rightarrow> sret ()
     | Some s \<Rightarrow> let i = shrug_token_id L \<lparr>op_txid = txid, op_index = of_nat vout\<rparr> s in
         if \<not> shrug_HasTokenId M i then sret () else supd (sh_record_output (of_nat vout) i s)))"

definition sh_retain :: "nat \<Rightarrow> shrug_state \<Rightarrow> shrug_state" where
  "sh_retain vin st = st\<lparr>sh_admit := (sh_admit st)\<lparr>CoinsToRetain := CoinsToRetain (sh_admit st) @ [of_nat vin]\<rparr>\<rparr>"

definition sh_record_input ::
  "topic_manager \<Rightarrow> txid \<Rightarrow> 32 word list \<Rightarrow> nat \<Rightarrow> topic_input \<Rightarrow> bytes \<Rightarrow> int \<Rightarrow> (shrug_state, topic_err, unit) sm" where
  "sh_record_input M txid prev vin x i amt =
     (if of_nat vin \<notin> set prev then sfail (missing_error M txid vin x)
      else supd (\<lambda>st. if amt = 0 then sh_upd i (\<lambda>ts. ts\<lparr>sh_hasAuthInput := True\<rparr>) (sh_retain vin st)
                      else sh_upd i (\<lambda>ts. ts\<lparr>sh_tokensIn := sh_tokensIn ts + amt\<rparr>) (sh_retain vin st)))"

definition sh_classify_input ::
  "topic_manager \<Rightarrow> sdk \<Rightarrow> script_lib \<Rightarrow> txid \<Rightarrow> 32 word list \<Rightarrow> nat \<times> topic_input \<Rightarrow> (shrug_state, topic_err, unit) sm" where
  "sh_classify_input M K L txid prev = (\<lambda>(vin, x).
     case ti_source x of None \<Rightarrow> sret ()
     | Some scr \<Rightarrow> sbind (slift (lift_fault (shrug_Decode K L scr))) (\<lambda>d.
         case d of None \<Rightarrow> sret ()
         | Some s \<Rightarrow> let i = shrug_token_id L (ti_outpoint x) s in
             if \<not> shrug_HasTokenId M i then sret ()
             else (\<lambda>st. if map_of (sh_summary st) i = None then (Inr (), st)
                        else sh_record_input M txid prev vin x i (shrug_amount s)
                               (st\<lparr>sh_anc := List.insert (ti_txid x) (sh_anc st)\<rparr>))))"

definition sh_admit_token :: "bytes \<times> shrug_summary \<Rightarrow> 32 word list \<Rightarrow> 32 word list" where
  "sh_admit_token = (\<lambda>(i, ts) adm.
     if sh_hasAuthInput ts then adm @ sh_valueVouts ts @ sh_authVouts ts
     else if sh_valueOut ts \<le> sh_tokensIn ts then adm @ sh_valueVouts ts else adm)"

definition sh_finish ::
  "((bytes \<times> shrug_summary) list \<Rightarrow> (bytes \<times> shrug_summary) list) \<Rightarrow> (txid list \<Rightarrow> txid list) \<Rightarrow> shrug_state \<Rightarrow> shrug_state" where
  "sh_finish rngS rngA st =
     (let a = sh_admit st;
          a1 = a\<lparr>OutputsToAdmit := fold sh_admit_token (rngS (sh_summary st)) (OutputsToAdmit a)\<rparr>
      in st\<lparr>sh_admit := (if sh_anc st = [] then a1 else a1\<lparr>AncillaryTxids := rngA (sh_anc st)\<rparr>)\<rparr>)"

definition shrug_IdentifyAdmissibleOutputs ::
  "topic_manager \<Rightarrow> sdk \<Rightarrow> script_lib \<Rightarrow>
   ((bytes \<times> shrug_summary) list \<Rightarrow> (bytes \<times> shrug_summary) list) \<Rightarrow> (txid list \<Rightarrow> txid list) \<Rightarrow>
   (txid \<Rightarrow> topic_tx option) \<Rightarrow> txid \<Rightarrow> 32 word list \<Rightarrow> (topic_err + unit) \<times> admittance" where
  "shrug_IdentifyAdmissibleOutputs M K L rngS rngA beef txid prev =
     (case beef txid of
        None \<Rightarrow> (Inl InvalidBeef, no_admittance)
      | Some tx \<Rightarrow>
          let (r, st) = sseq (sfor (sh_classify_output M K L txid) (List.enumerate 0 (tt_outputs tx)))
            (\<lambda>st. if sh_summary st = [] then (Inr (), st)
                  else sseq (sfor (sh_classify_input M K L txid prev) (List.enumerate 0 (tt_inputs tx)))
                         (supd (sh_finish rngS rngA)) st)
            \<lparr>sh_summary = [], sh_anc = [], sh_admit = no_admittance\<rparr>
          in (r, sh_admit st))"

text \<open>\<open>IdentifyNeededInputs\<close>: the loop over the outputs stops at the first token it manages.\<close>

fun needs_inputs :: "topic_manager \<Rightarrow> sdk \<Rightarrow> script_lib \<Rightarrow> bytes list \<Rightarrow> topic_err + bool" where
  "needs_inputs M K L [] = Inr False"
| "needs_inputs M K L (scr # scrs) = rbind (lift_fault (shrug_Decode K L scr)) (\<lambda>d.
     case d of None \<Rightarrow> needs_inputs M K L scrs
     | Some s \<Rightarrow> (case s_Id s of None \<Rightarrow> needs_inputs M K L scrs
         | Some i \<Rightarrow> if shrug_HasTokenId M (ordinal_string L i) then Inr True else needs_inputs M K L scrs))"

definition shrug_IdentifyNeededInputs ::
  "topic_manager \<Rightarrow> sdk \<Rightarrow> script_lib \<Rightarrow> (txid \<Rightarrow> topic_tx option) \<Rightarrow> txid \<Rightarrow> topic_err + outpoint list" where
  "shrug_IdentifyNeededInputs M K L beef txid =
     (case beef txid of
        None \<Rightarrow> Inl InvalidBeef
      | Some tx \<Rightarrow> rbind (needs_inputs M K L (tt_outputs tx)) (\<lambda>n.
          if \<not> n then Inr [] else Inr (map ti_outpoint (filter (\<lambda>x. \<not> ti_loaded x) (tt_inputs tx)))))"

section \<open>What the passes leave\<close>

text \<open>A token at a position: whether it is a deploy, its id and its amount.\<close>

record shrug_event =
  ev_pos :: "32 word"
  ev_deploy :: bool
  ev_id :: bytes
  ev_amt :: int

definition sh_token :: "topic_manager \<Rightarrow> sdk \<Rightarrow> script_lib \<Rightarrow> outpoint \<Rightarrow> bytes \<Rightarrow> shrug option" where
  "sh_token M K L op scr = (case shrug_Decode K L scr of
     Inr (Some s) \<Rightarrow> if shrug_HasTokenId M (shrug_token_id L op s) then Some s else None | _ \<Rightarrow> None)"

definition sh_event :: "script_lib \<Rightarrow> nat \<Rightarrow> outpoint \<Rightarrow> shrug \<Rightarrow> shrug_event" where
  "sh_event L n op s = \<lparr>ev_pos = of_nat n, ev_deploy = (s_Id s = None), ev_id = shrug_token_id L op s, ev_amt = shrug_amount s\<rparr>"

definition sh_out_event :: "topic_manager \<Rightarrow> sdk \<Rightarrow> script_lib \<Rightarrow> txid \<Rightarrow> nat \<times> bytes \<Rightarrow> shrug_event list" where
  "sh_out_event M K L txid = (\<lambda>(n, scr). let op = \<lparr>op_txid = txid, op_index = of_nat n\<rparr> in
     case sh_token M K L op scr of None \<Rightarrow> [] | Some s \<Rightarrow> [sh_event L n op s])"

definition sh_in_token :: "topic_manager \<Rightarrow> sdk \<Rightarrow> script_lib \<Rightarrow> topic_input \<Rightarrow> shrug option" where
  "sh_in_token M K L x = (case ti_source x of None \<Rightarrow> None | Some scr \<Rightarrow> sh_token M K L (ti_outpoint x) scr)"

definition sh_in_event :: "topic_manager \<Rightarrow> sdk \<Rightarrow> script_lib \<Rightarrow> nat \<times> topic_input \<Rightarrow> shrug_event list" where
  "sh_in_event M K L = (\<lambda>(n, x). case sh_in_token M K L x of None \<Rightarrow> [] | Some s \<Rightarrow> [sh_event L n (ti_outpoint x) s])"

definition sh_out_events :: "topic_manager \<Rightarrow> sdk \<Rightarrow> script_lib \<Rightarrow> txid \<Rightarrow> topic_tx \<Rightarrow> shrug_event list" where
  "sh_out_events M K L txid tx = concat (map (sh_out_event M K L txid) (List.enumerate 0 (tt_outputs tx)))"

definition sh_in_events :: "topic_manager \<Rightarrow> sdk \<Rightarrow> script_lib \<Rightarrow> topic_tx \<Rightarrow> shrug_event list" where
  "sh_in_events M K L tx = concat (map (sh_in_event M K L) (List.enumerate 0 (tt_inputs tx)))"

text \<open>The sum of a token's amounts over events that satisfy a predicate.\<close>

definition sh_total :: "(shrug_event \<Rightarrow> bool) \<Rightarrow> bytes \<Rightarrow> shrug_event list \<Rightarrow> int" where
  "sh_total P i evs = sum_list (map ev_amt (filter (\<lambda>e. P e \<and> ev_id e = i) evs))"

definition sh_ok :: "shrug_event list \<Rightarrow> shrug_event list \<Rightarrow> bytes \<Rightarrow> shrug_summary option \<Rightarrow> bool" where
  "sh_ok outs ins i r \<longleftrightarrow> (let mine = filter (\<lambda>e. \<not> ev_deploy e \<and> ev_id e = i) outs in case r of
     None \<Rightarrow> mine = []
   | Some ts \<Rightarrow> mine \<noteq> [] \<and> sh_valueOut ts = sum_list (map ev_amt mine) \<and> sh_tokensIn ts = sh_total (\<lambda>e. True) i ins \<and>
       sh_valueVouts ts = map ev_pos (filter (\<lambda>e. ev_amt e \<noteq> 0) mine) \<and>
       sh_authVouts ts = map ev_pos (filter (\<lambda>e. ev_amt e = 0) mine) \<and>
       (sh_hasAuthInput ts \<longleftrightarrow> (\<exists>e \<in> set ins. ev_id e = i \<and> ev_amt e = 0)))"

definition sh_ids :: "shrug_state \<Rightarrow> bytes set" where
  "sh_ids st = fst ` set (sh_summary st)"

definition sh_outs_ok :: "shrug_event list \<Rightarrow> shrug_state \<Rightarrow> bool" where
  "sh_outs_ok outs st \<longleftrightarrow> (\<forall>i. sh_ok outs [] i (map_of (sh_summary st) i)) \<and> distinct (map fst (sh_summary st)) \<and>
     sh_anc st = [] \<and> CoinsToRetain (sh_admit st) = [] \<and> AncillaryTxids (sh_admit st) = [] \<and>
     OutputsToAdmit (sh_admit st) = map ev_pos (filter ev_deploy outs)"

definition sh_ins_ok :: "shrug_event list \<Rightarrow> shrug_event list \<Rightarrow> shrug_state \<Rightarrow> bool" where
  "sh_ins_ok outs ins st \<longleftrightarrow> (\<forall>i. sh_ok outs ins i (map_of (sh_summary st) i)) \<and> distinct (map fst (sh_summary st)) \<and>
     OutputsToAdmit (sh_admit st) = map ev_pos (filter ev_deploy outs)"

lemma sh_upd_simps [simp]:
  "map_of (sh_summary (sh_upd i f st)) j =
     (if j = i then Some (f (case map_of (sh_summary st) i of None \<Rightarrow> new_shrug_summary | Some ts \<Rightarrow> ts))
      else map_of (sh_summary st) j)"
  "sh_anc (sh_upd i f st) = sh_anc st" "sh_admit (sh_upd i f st) = sh_admit st"
  "sh_ids (sh_upd i f st) = insert i (sh_ids st)"
  "distinct (map fst (sh_summary st)) \<Longrightarrow> distinct (map fst (sh_summary (sh_upd i f st)))"
  by (simp_all add: sh_upd_def sh_ids_def update_conv' dom_update distinct_update)

lemma sh_retain_simps [simp]:
  "sh_summary (sh_retain n st) = sh_summary st" "sh_anc (sh_retain n st) = sh_anc st" "sh_ids (sh_retain n st) = sh_ids st"
  "OutputsToAdmit (sh_admit (sh_retain n st)) = OutputsToAdmit (sh_admit st)"
  "AncillaryTxids (sh_admit (sh_retain n st)) = AncillaryTxids (sh_admit st)"
  "CoinsToRetain (sh_admit (sh_retain n st)) = CoinsToRetain (sh_admit st) @ [of_nat n]"
  "sh_ids (st\<lparr>sh_anc := a\<rparr>) = sh_ids st"
  by (simp_all add: sh_retain_def sh_ids_def)

lemma sh_ok_other: "ev_deploy e \<or> ev_id e \<noteq> i \<Longrightarrow> sh_ok (outs @ [e]) ins i r = sh_ok outs ins i r"
  by (auto simp: sh_ok_def)

lemma sh_ok_in_other: "ev_id e \<noteq> i \<or> r = None \<Longrightarrow> sh_ok outs (ins @ [e]) i r = sh_ok outs ins i r"
  by (auto simp: sh_ok_def sh_total_def Let_def split: option.split)

lemma sh_record_output_ok:
  assumes ok: "sh_outs_ok outs st" and e: "e = sh_event L n op s"
  shows "sh_outs_ok (outs @ [e]) (sh_record_output (of_nat n) (ev_id e) s st)"
proof (cases "s_Id s = None")
  case True
  then show ?thesis using ok by (simp add: sh_outs_ok_def sh_record_output_def e sh_event_def sh_ok_other)
next
  case False
  let ?st' = "sh_record_output (of_nat n) (ev_id e) s st"
  have d: "\<not> ev_deploy e" "ev_pos e = of_nat n" "ev_amt e = shrug_amount s" using False by (simp_all add: e sh_event_def)
  have r: "sh_ok outs [] (ev_id e) (map_of (sh_summary st) (ev_id e))" using ok by (simp add: sh_outs_ok_def)
  have "sh_ok (outs @ [e]) [] (ev_id e) (map_of (sh_summary ?st') (ev_id e))"
    using r False d by (cases "map_of (sh_summary st) (ev_id e)")
      (auto simp: sh_record_output_def sh_ok_def Let_def new_shrug_summary_def sh_total_def)
  moreover have "sh_ok (outs @ [e]) [] j (map_of (sh_summary ?st') j)" if "j \<noteq> ev_id e" for j
    using ok that False sh_ok_other[of e j outs "[]"] by (auto simp: sh_outs_ok_def sh_record_output_def)
  ultimately have "sh_ok (outs @ [e]) [] j (map_of (sh_summary ?st') j)" for j by metis
  then show ?thesis using ok False d by (simp add: sh_outs_ok_def sh_record_output_def)
qed

lemma sh_classify_output_cases:
  "sh_classify_output M K L txid (n, scr) st = (case shrug_Decode K L scr of
     Inl f \<Rightarrow> (Inl (TopicFault f), st)
   | Inr d \<Rightarrow> (case sh_token M K L \<lparr>op_txid = txid, op_index = of_nat n\<rparr> scr of None \<Rightarrow> (Inr (), st)
       | Some s \<Rightarrow> (Inr (), sh_record_output (of_nat n) (shrug_token_id L \<lparr>op_txid = txid, op_index = of_nat n\<rparr> s) s st)))"
  by (auto simp: sh_classify_output_def sh_token_def lift_fault_def step_simps Let_def supd_def split: option.split sum.split)

lemma sh_classify_input_cases:
  "sh_classify_input M K L txid prev (n, x) st =
     (case ti_source x of None \<Rightarrow> (Inr (), st)
      | Some scr \<Rightarrow> (case shrug_Decode K L scr of Inl f \<Rightarrow> (Inl (TopicFault f), st)
          | Inr d \<Rightarrow> (case sh_in_token M K L x of None \<Rightarrow> (Inr (), st)
              | Some s \<Rightarrow> if map_of (sh_summary st) (shrug_token_id L (ti_outpoint x) s) = None then (Inr (), st)
                  else sh_record_input M txid prev n x (shrug_token_id L (ti_outpoint x) s) (shrug_amount s)
                         (st\<lparr>sh_anc := List.insert (ti_txid x) (sh_anc st)\<rparr>))))"
  by (auto simp: sh_classify_input_def sh_in_token_def sh_token_def lift_fault_def step_simps Let_def
      split: option.split sum.split)

lemma sh_classify_output_ok:
  assumes "sh_outs_ok evs st" and "sh_classify_output M K L txid (n, scr) st = (Inr (), st')"
  shows "sh_outs_ok (evs @ sh_out_event M K L txid (n, scr)) st'"
  using assms sh_record_output_ok[OF assms(1) refl, of L n "\<lparr>op_txid = txid, op_index = of_nat n\<rparr>"]
  by (auto simp: sh_classify_output_cases sh_out_event_def Let_def sh_event_def split: option.splits sum.splits)

lemma sh_outs_pass:
  assumes "sfor (sh_classify_output M K L txid) (List.enumerate 0 (tt_outputs tx))
      \<lparr>sh_summary = [], sh_anc = [], sh_admit = no_admittance\<rparr> = (Inr (), st)"
  shows "sh_outs_ok (sh_out_events M K L txid tx) st"
proof -
  have "sh_outs_ok [] \<lparr>sh_summary = [], sh_anc = [], sh_admit = no_admittance\<rparr>"
    by (simp add: sh_outs_ok_def sh_ok_def no_admittance_def)
  from sfor_collect[where Inv = sh_outs_ok, OF _ this assms, of "sh_out_event M K L txid"] sh_classify_output_ok
  show ?thesis by (fastforce simp: sh_out_events_def)
qed

lemma sh_record_input_ok:
  assumes ok: "sh_ins_ok outs ins st" and some: "map_of (sh_summary st) (ev_id e) = Some ts" and e: "ev_pos e = of_nat n"
    and step: "sh_record_input M txid prev n x (ev_id e) (ev_amt e) st = (Inr (), st')"
  shows "sh_ins_ok outs (ins @ [e]) st'"
proof -
  have r: "sh_ok outs ins (ev_id e) (Some ts)" using ok some by (metis sh_ins_ok_def)
  have st': "st' = (if ev_amt e = 0 then sh_upd (ev_id e) (\<lambda>ts. ts\<lparr>sh_hasAuthInput := True\<rparr>) (sh_retain n st)
      else sh_upd (ev_id e) (\<lambda>ts. ts\<lparr>sh_tokensIn := sh_tokensIn ts + ev_amt e\<rparr>) (sh_retain n st))"
    using step by (auto simp: sh_record_input_def step_simps supd_def split: if_splits)
  have "sh_ok outs (ins @ [e]) (ev_id e) (map_of (sh_summary st') (ev_id e))"
    using r some by (auto simp: st' sh_ok_def Let_def sh_total_def)
  moreover have "sh_ok outs (ins @ [e]) j (map_of (sh_summary st') j)" if "j \<noteq> ev_id e" for j
    using ok that sh_ok_in_other[of e j _ outs ins] by (auto simp: sh_ins_ok_def st')
  ultimately have "sh_ok outs (ins @ [e]) j (map_of (sh_summary st') j)" for j by metis
  then show ?thesis using ok by (simp add: sh_ins_ok_def st')
qed

lemma sh_classify_input_ok:
  assumes ok: "sh_ins_ok outs ins st" and step: "sh_classify_input M K L txid prev (n, x) st = (Inr (), st')"
  shows "sh_ins_ok outs (ins @ sh_in_event M K L (n, x)) st'"
proof (cases "sh_in_token M K L x")
  case None
  then have "st' = st" using step by (simp add: sh_classify_input_cases split: option.splits sum.splits)
  then show ?thesis using ok None by (simp add: sh_in_event_def)
next
  case s: (Some s)
  let ?e = "sh_event L n (ti_outpoint x) s"
  have ev: "sh_in_event M K L (n, x) = [?e]" "ev_id ?e = shrug_token_id L (ti_outpoint x) s" "ev_amt ?e = shrug_amount s" "ev_pos ?e = of_nat n"
    by (simp_all add: sh_in_event_def s sh_event_def)
  obtain scr d where scr: "ti_source x = Some scr" "shrug_Decode K L scr = Inr d"
    using s by (auto simp: sh_in_token_def sh_token_def split: option.splits sum.splits)
  note step' = step[unfolded sh_classify_input_cases scr s option.case sum.case ev(2)[symmetric] ev(3)[symmetric]]
  show ?thesis
  proof (cases "map_of (sh_summary st) (ev_id ?e)")
    case None
    then have "st' = st" using step' by simp
    moreover have "sh_ok outs (ins @ [?e]) i (map_of (sh_summary st) i)" for i
      using ok None sh_ok_in_other[of ?e i "map_of (sh_summary st) i"] unfolding sh_ins_ok_def by metis
    ultimately show ?thesis using ok by (simp add: ev(1) sh_ins_ok_def)
  next
    case (Some ts)
    let ?st = "st\<lparr>sh_anc := List.insert (ti_txid x) (sh_anc st)\<rparr>"
    have "sh_ins_ok outs ins ?st" using ok by (simp add: sh_ins_ok_def)
    then show ?thesis unfolding ev(1) using sh_record_input_ok[of outs ins ?st ?e ts n] step' Some ev(4) by simp
  qed
qed

lemma sh_ins_pass:
  assumes "sh_outs_ok outs st" and "sfor (sh_classify_input M K L txid prev) (List.enumerate 0 (tt_inputs tx)) st = (Inr (), st')"
  shows "sh_ins_ok outs (sh_in_events M K L tx) st'"
proof -
  have "sh_ins_ok outs [] st" using assms(1) by (simp add: sh_outs_ok_def sh_ins_ok_def)
  from sfor_collect[where Inv = "sh_ins_ok outs", OF _ this assms(2), of "sh_in_event M K L"] sh_classify_input_ok
  show ?thesis by (fastforce simp: sh_in_events_def)
qed

end
