(* ===== verification/ShrugProps.thy ===== *)
theory ShrugProps
  imports ShrugTopic TemplateProps
begin

text \<open>
  The admission rules of the shrug topic as properties of the whole function, by the same locale of
  input passes as the BSV21 topic.
\<close>

section \<open>The contract of the input pass\<close>

definition sh_touched :: "topic_manager \<Rightarrow> sdk \<Rightarrow> script_lib \<Rightarrow> bytes set \<Rightarrow> topic_input \<Rightarrow> bool" where
  "sh_touched M K L T x \<longleftrightarrow> (case sh_in_token M K L x of None \<Rightarrow> False | Some s \<Rightarrow> shrug_token_id L (ti_outpoint x) s \<in> T)"

definition sh_dependent_ids :: "shrug_event list \<Rightarrow> bytes set" where
  "sh_dependent_ids outs = ev_id ` {e \<in> set outs. \<not> ev_deploy e}"

lemma sh_outs_ok_ids: "sh_outs_ok outs st \<Longrightarrow> sh_ids st = sh_dependent_ids outs"
proof -
  assume ok: "sh_outs_ok outs st"
  have "i \<in> dom (map_of (sh_summary st)) \<longleftrightarrow> i \<in> sh_dependent_ids outs" for i
  proof -
    have "sh_ok outs [] i (map_of (sh_summary st) i)" using ok by (simp add: sh_outs_ok_def)
    then show ?thesis
      by (cases "map_of (sh_summary st) i") (auto simp: sh_ok_def Let_def sh_dependent_ids_def filter_empty_conv)
  qed
  then show ?thesis by (simp add: sh_ids_def dom_map_of_conv_image_fst set_eq_iff)
qed

lemma sh_map_of_None: "map_of (sh_summary st) k = None \<longleftrightarrow> k \<notin> sh_ids st"
  by (simp add: map_of_eq_None_iff sh_ids_def)

lemma sh_record_input_step:
  assumes "i \<in> sh_ids s" and "sh_record_input M txid prev n x i amt s = (Inr (), t)"
  shows "sh_ids t = sh_ids s \<and> sh_anc t = sh_anc s \<and>
    OutputsToAdmit (sh_admit t) = OutputsToAdmit (sh_admit s) \<and> AncillaryTxids (sh_admit t) = AncillaryTxids (sh_admit s) \<and>
    CoinsToRetain (sh_admit t) = CoinsToRetain (sh_admit s) @ [of_nat n] \<and> of_nat n \<in> set prev"
  using assms by (auto simp: sh_record_input_def step_simps supd_def insert_absorb split: if_splits)

interpretation sh_pass: input_pass
  "sh_classify_input M K L txid prev" sh_ids sh_admit sh_anc prev "missing_error M txid" "sh_touched M K L" "sh_touched M K L"
  for M K L txid prev
proof
  fix i x s t
  assume "sh_classify_input M K L txid prev (i, x) s = (Inr (), t)"
  then show "sh_ids t = sh_ids s \<and>
      OutputsToAdmit (sh_admit t) = OutputsToAdmit (sh_admit s) \<and> AncillaryTxids (sh_admit t) = AncillaryTxids (sh_admit s) \<and>
      CoinsToRetain (sh_admit t) = CoinsToRetain (sh_admit s) @ (if sh_touched M K L (sh_ids s) x then [of_nat i] else []) \<and>
      set (sh_anc t) = set (sh_anc s) \<union> (if sh_touched M K L (sh_ids s) x then {ti_txid x} else {}) \<and>
      (sh_touched M K L (sh_ids s) x \<longrightarrow> of_nat i \<in> set prev)"
    using sh_record_input_step[of _ "s\<lparr>sh_anc := List.insert (ti_txid x) (sh_anc s)\<rparr>" M txid prev i x _ t]
    by (auto simp: sh_classify_input_cases sh_touched_def sh_map_of_None sh_in_token_def
        split: option.splits sum.splits if_splits)
next
  fix i x s e t
  assume "sh_classify_input M K L txid prev (i, x) s = (Inl e, t)"
  then show "(\<exists>f. e = TopicFault f) \<or>
      e = missing_error M txid i x \<and> sh_touched M K L (sh_ids s) x \<and> of_nat i \<notin> set prev"
    by (auto simp: sh_classify_input_cases sh_touched_def sh_map_of_None sh_record_input_def step_simps supd_def
        split: option.splits sum.splits if_splits)
qed

section \<open>What is admitted\<close>

definition sh_admits :: "shrug_event list \<Rightarrow> shrug_event list \<Rightarrow> shrug_event \<Rightarrow> bool" where
  "sh_admits outs ins e \<longleftrightarrow> ev_deploy e \<or> (\<exists>c \<in> set ins. ev_id c = ev_id e \<and> ev_amt c = 0) \<or>
     ev_amt e \<noteq> 0 \<and> sh_total (\<lambda>c. \<not> ev_deploy c) (ev_id e) outs \<le> sh_total (\<lambda>c. True) (ev_id e) ins"

definition sh_vouts :: "shrug_summary \<Rightarrow> 32 word list" where
  "sh_vouts ts = (if sh_hasAuthInput ts then sh_valueVouts ts @ sh_authVouts ts
     else if sh_valueOut ts \<le> sh_tokensIn ts then sh_valueVouts ts else [])"

lemma sh_fold_admit: "fold sh_admit_token S adm = adm @ concat (map (sh_vouts \<circ> snd) S)"
  by (induction S arbitrary: adm) (auto simp: sh_admit_token_def sh_vouts_def)

lemma sh_vouts_set:
  assumes "sh_ok outs ins i (Some ts)"
  shows "set (sh_vouts ts) = ev_pos ` {e \<in> set outs. \<not> ev_deploy e \<and> ev_id e = i \<and> sh_admits outs ins e}"
proof -
  let ?mine = "filter (\<lambda>e. \<not> ev_deploy e \<and> ev_id e = i) outs"
  have ok: "sh_valueOut ts = sum_list (map ev_amt ?mine)" "sh_tokensIn ts = sh_total (\<lambda>e. True) i ins"
    "sh_valueVouts ts = map ev_pos (filter (\<lambda>e. ev_amt e \<noteq> 0) ?mine)" "sh_authVouts ts = map ev_pos (filter (\<lambda>e. ev_amt e = 0) ?mine)"
    "sh_hasAuthInput ts \<longleftrightarrow> (\<exists>e \<in> set ins. ev_id e = i \<and> ev_amt e = 0)"
    using assms by (simp_all add: sh_ok_def Let_def)
  have "sh_valueOut ts = sh_total (\<lambda>c. \<not> ev_deploy c) i outs" by (simp add: ok sh_total_def)
  then show ?thesis unfolding sh_vouts_def ok(3-5) sh_admits_def using ok(2) by auto
qed

lemma sh_admitted_set:
  assumes ok: "sh_ins_ok outs ins st" and rng: "set S = set (sh_summary st)"
  shows "set (fold sh_admit_token S (OutputsToAdmit (sh_admit st))) = ev_pos ` {e \<in> set outs. sh_admits outs ins e}"
proof -
  have S: "(i, ts) \<in> set S \<longleftrightarrow> map_of (sh_summary st) i = Some ts" for i ts using ok rng by (simp add: sh_ins_ok_def)
  have out: "sh_ok outs ins i (map_of (sh_summary st) i)" for i using ok by (simp add: sh_ins_ok_def)
  have some: "\<exists>ts. map_of (sh_summary st) (ev_id e) = Some ts" if "e \<in> set outs" "\<not> ev_deploy e" for e
    using out[of "ev_id e"] that
    by (cases "map_of (sh_summary st) (ev_id e)") (auto simp: sh_ok_def Let_def filter_empty_conv)
  have dep: "(\<exists>i ts. (i, ts) \<in> set S \<and> v \<in> set (sh_vouts ts)) \<longleftrightarrow>
      v \<in> ev_pos ` {e \<in> set outs. \<not> ev_deploy e \<and> sh_admits outs ins e}" for v
  proof
    assume "\<exists>i ts. (i, ts) \<in> set S \<and> v \<in> set (sh_vouts ts)"
    then obtain i ts where h: "map_of (sh_summary st) i = Some ts" "v \<in> set (sh_vouts ts)" using S by blast
    have "sh_ok outs ins i (Some ts)" using out[of i] h(1) by simp
    then show "v \<in> ev_pos ` {e \<in> set outs. \<not> ev_deploy e \<and> sh_admits outs ins e}" using sh_vouts_set h(2) by blast
  next
    assume "v \<in> ev_pos ` {e \<in> set outs. \<not> ev_deploy e \<and> sh_admits outs ins e}"
    then obtain e where e: "v = ev_pos e" "e \<in> set outs" "\<not> ev_deploy e" "sh_admits outs ins e" by blast
    then obtain ts where ts: "map_of (sh_summary st) (ev_id e) = Some ts" using some by blast
    have "sh_ok outs ins (ev_id e) (Some ts)" using out[of "ev_id e"] ts by simp
    then have "v \<in> set (sh_vouts ts)" using sh_vouts_set e by blast
    then show "\<exists>i ts. (i, ts) \<in> set S \<and> v \<in> set (sh_vouts ts)" using S ts by blast
  qed
  have "v \<in> set (fold sh_admit_token S (OutputsToAdmit (sh_admit st))) \<longleftrightarrow>
      v \<in> set (OutputsToAdmit (sh_admit st)) \<or> (\<exists>i ts. (i, ts) \<in> set S \<and> v \<in> set (sh_vouts ts))" for v
    by (force simp: sh_fold_admit)
  moreover have "set (OutputsToAdmit (sh_admit st)) = ev_pos ` {e \<in> set outs. ev_deploy e}" using ok by (simp add: sh_ins_ok_def)
  moreover have "sh_admits outs ins e" if "ev_deploy e" for e using that by (simp add: sh_admits_def)
  ultimately show ?thesis unfolding dep by blast
qed

lemma shrug_cases:
  assumes tx: "beef txid = Some tx"
    and r: "shrug_IdentifyAdmissibleOutputs M K L rngS rngA beef txid prev = (r, a)"
  obtains (fault) f where "r = Inl (TopicFault f)"
  | (deploys) st where "sh_outs_ok (sh_out_events M K L txid tx) st" "sh_summary st = []" "r = Inr ()" "a = sh_admit st"
  | (inputs) st st' where "sh_outs_ok (sh_out_events M K L txid tx) st" "r = Inr ()" "a = sh_admit (sh_finish rngS rngA st')"
      "sfor (sh_classify_input M K L txid prev) (List.enumerate 0 (tt_inputs tx)) st = (Inr (), st')"
  | (stopped) e st st' where "sh_outs_ok (sh_out_events M K L txid tx) st" "r = Inl e"
      "sfor (sh_classify_input M K L txid prev) (List.enumerate 0 (tt_inputs tx)) st = (Inl e, st')"
proof -
  let ?s0 = "\<lparr>sh_summary = [], sh_anc = [], sh_admit = no_admittance\<rparr>"
  obtain q st where q: "sfor (sh_classify_output M K L txid) (List.enumerate 0 (tt_outputs tx)) ?s0 = (q, st)" by force
  have outf: "\<exists>f. e = TopicFault f" if "sfor (sh_classify_output M K L txid) xs s = (Inl e, t)" for xs s e t
    using that
  proof (induction xs arbitrary: s)
    case (Cons x xs)
    then show ?case
      by (cases x) (auto simp: step_simps sh_classify_output_cases split: prod.splits sum.splits option.splits)
  qed (simp add: sret_def)
  show thesis
  proof (cases q)
    case (Inl e)
    then show ?thesis using q r tx outf[of _ ?s0 e st] fault
      by (auto simp: shrug_IdentifyAdmissibleOutputs_def step_simps)
  next
    case (Inr u)
    then have ok: "sh_outs_ok (sh_out_events M K L txid tx) st" using sh_outs_pass[of M K L txid tx st] q by simp
    show ?thesis
    proof (cases "sh_summary st = []")
      case True
      then show ?thesis using q r tx Inr ok deploys by (simp add: shrug_IdentifyAdmissibleOutputs_def step_simps)
    next
      case False
      obtain p st' where p: "sfor (sh_classify_input M K L txid prev) (List.enumerate 0 (tt_inputs tx)) st = (p, st')" by force
      then show ?thesis using q r tx Inr ok False inputs stopped
        by (cases p) (auto simp: shrug_IdentifyAdmissibleOutputs_def step_simps supd_def)
    qed
  qed
qed

lemma no_summary:
  assumes "sh_outs_ok outs st" and "sh_summary st = []"
  shows "sh_dependent_ids outs = {}" and "e \<in> set outs \<Longrightarrow> ev_deploy e"
  using sh_outs_ok_ids[OF assms(1)] assms(2) by (auto simp: sh_ids_def sh_dependent_ids_def)

section \<open>Properties\<close>

text \<open>
  C22: when the function succeeds it admits exactly the deploys, every output of a token of which an authority
  is spent, and the values of each token whose inputs cover the sum of its values.
\<close>

theorem shrug_admission_exact:
  assumes "beef txid = Some tx" and "\<And>S. set (rngS S) = set S"
    and "shrug_IdentifyAdmissibleOutputs M K L rngS rngA beef txid prev = (Inr (), a)"
  shows "set (OutputsToAdmit a) =
    ev_pos ` {e \<in> set (sh_out_events M K L txid tx). sh_admits (sh_out_events M K L txid tx) (sh_in_events M K L tx) e}"
  using assms(1,3)
proof (cases rule: shrug_cases)
  case (deploys st)
  have "set (OutputsToAdmit a) = ev_pos ` {e \<in> set (sh_out_events M K L txid tx). ev_deploy e}"
    using deploys by (simp add: sh_outs_ok_def)
  then show ?thesis using no_summary(2)[OF deploys(1,2)] by (auto simp: sh_admits_def)
next
  case (inputs st st')
  have "OutputsToAdmit a = fold sh_admit_token (rngS (sh_summary st')) (OutputsToAdmit (sh_admit st'))"
    using inputs(3) by (simp add: sh_finish_def Let_def)
  then show ?thesis using sh_admitted_set[OF sh_ins_pass[OF inputs(1,4)] assms(2)] by simp
qed simp_all

text \<open>
  The function retains exactly the inputs that carry a token with outputs, when they are all previous coins,
  and reports exactly their sources; otherwise it stops with the first such input that is not one.
\<close>

theorem shrug_inputs_exact:
  fixes M :: topic_manager
  assumes "beef txid = Some tx" and "\<And>A. set (rngA A) = set A"
    and "shrug_IdentifyAdmissibleOutputs M K L rngS rngA beef txid prev = (r, a)" and "\<nexists>f. r = Inl (TopicFault f)"
  defines "P \<equiv> sh_touched M K L (sh_dependent_ids (sh_out_events M K L txid tx))"
  shows "case r of
      Inr u \<Rightarrow> CoinsToRetain a = needed P 0 (tt_inputs tx) \<and> set (CoinsToRetain a) \<subseteq> set prev \<and>
        set (AncillaryTxids a) = ti_txid ` {x \<in> set (tt_inputs tx). P x}
    | Inl e \<Rightarrow> \<exists>k < length (tt_inputs tx). e = missing_error M txid k (tt_inputs tx ! k) \<and>
        P (tt_inputs tx ! k) \<and> of_nat k \<notin> set prev \<and> set (needed P 0 (take k (tt_inputs tx))) \<subseteq> set prev"
  using assms(1,3)
proof (cases rule: shrug_cases)
  case (fault f)
  then show ?thesis using assms(4) by blast
next
  case (stopped e st st')
  have "sh_touched M K L (sh_ids st) = P" using sh_outs_ok_ids[OF stopped(1)] by (simp add: P_def)
  then show ?thesis using sh_pass.pass_err[OF stopped(3)] assms(4) stopped(2) by simp
next
  case (deploys st)
  have "P = (\<lambda>x. False)" unfolding P_def no_summary(1)[OF deploys(1,2)] by (rule ext) (simp add: sh_touched_def split: option.split)
  then show ?thesis using deploys by (simp add: sh_outs_ok_def needed_def)
next
  case (inputs st st')
  have P: "sh_touched M K L (sh_ids st) = P" using sh_outs_ok_ids[OF inputs(1)] by (simp add: P_def)
  have st: "CoinsToRetain (sh_admit st) = []" "sh_anc st = []" "AncillaryTxids (sh_admit st) = []"
    using inputs(1) by (simp_all add: sh_outs_ok_def)
  have p: "CoinsToRetain (sh_admit st') = needed P 0 (tt_inputs tx)" "set (sh_anc st') = ti_txid ` {x \<in> set (tt_inputs tx). P x}"
    "AncillaryTxids (sh_admit st') = []" "set (needed P 0 (tt_inputs tx)) \<subseteq> set prev"
    using sh_pass.pass_ok[OF inputs(4)] by (simp_all add: P st)
  moreover have "CoinsToRetain a = CoinsToRetain (sh_admit st')"
    "AncillaryTxids a = (if sh_anc st' = [] then AncillaryTxids (sh_admit st') else rngA (sh_anc st'))"
    using inputs(3) by (simp_all add: sh_finish_def Let_def)
  ultimately show ?thesis using assms(2) inputs(2) by auto
qed

section \<open>A transaction\<close>

text \<open>Two values of 5 and 3 of one token, fed by a value of 9.\<close>

definition sh_demo_id :: outpoint where "sh_demo_id = \<lparr>op_txid = replicate 32 (CHR 0x05), op_index = 1\<rparr>"

definition sh_demo_token :: "int \<Rightarrow> shrug" where
  "sh_demo_token n = \<lparr>s_Id = Some sh_demo_id, s_Amount = Some n, s_ScriptSuffix = [], s_Insc = None, s_Metadata = None\<rparr>"

definition sh_demo_script :: "int \<Rightarrow> bytes" where
  "sh_demo_script n = shrug_Lock demo_sdk demo_lib (sh_demo_token n)"

definition sh_demo_tx :: topic_tx where
  "sh_demo_tx = \<lparr>tt_inputs = [\<lparr>ti_txid = replicate 32 (CHR 0x01), ti_index = 0, ti_loaded = True, ti_source = Some (sh_demo_script 9)\<rparr>],
     tt_outputs = [sh_demo_script 5, sh_demo_script 3]\<rparr>"

definition sh_demo_run :: "32 word list \<Rightarrow> (topic_err + unit) \<times> admittance" where
  "sh_demo_run prev = shrug_IdentifyAdmissibleOutputs (NewShrugValidatedTopicManager ''tm'' []) demo_sdk demo_lib rev rev
     (\<lambda>t. Some sh_demo_tx) (replicate 32 (CHR 0x02)) prev"

lemma sh_demo_decode:
  assumes "0 < n" and "n < 2 ^ 64"
  shows "\<exists>s. shrug_Decode demo_sdk demo_lib (sh_demo_script n) = Inr (Some s) \<and> s_Id s = Some sh_demo_id \<and> s_Amount s = Some n"
proof -
  have wf: "wf_op sh_demo_id" by (simp add: wf_op_def sh_demo_id_def)
  have n: "be_nat (be_bytes 8 (nat n)) = nat n" using assms by (simp add: be_nat_be_bytes nat_less_iff)
  have "\<exists>j. shrug_Decode demo_sdk demo_lib (shrug_Lock demo_sdk demo_lib (sh_demo_token n)) = Inr (Some j) \<and> s_Id j = s_Id (sh_demo_token n) \<and>
      s_Amount j = Some (case s_Amount (sh_demo_token n) of None \<Rightarrow> 0 | Some a \<Rightarrow> max 0 a) \<and> s_ScriptSuffix j = s_ScriptSuffix (sh_demo_token n)"
    by (rule shrug_round_trip_aux[OF demo_laws])
       (use demo.op_bytes_length[OF wf] demo.op_from_bytes[OF wf] n assms in \<open>auto simp: sh_demo_token_def demo_lib_def\<close>)
  then show ?thesis using assms(1) by (auto simp: sh_demo_script_def sh_demo_token_def max_def)
qed

lemma sh_demo_ok:
  "fst (sh_demo_run [0]) = Inr ()" "fst (sh_demo_run []) = Inl (missing_error (NewShrugValidatedTopicManager ''tm'' []) (replicate 32 (CHR 0x02)) 0 (hd (tt_inputs sh_demo_tx)))"
  "OutputsToAdmit (snd (sh_demo_run [0])) = [0, 1]"
proof -
  obtain s9 where s9: "shrug_Decode demo_sdk demo_lib (sh_demo_script 9) = Inr (Some s9)" "s_Id s9 = Some sh_demo_id" "s_Amount s9 = Some 9"
    using sh_demo_decode[of 9] by auto
  obtain s5 where s5: "shrug_Decode demo_sdk demo_lib (sh_demo_script 5) = Inr (Some s5)" "s_Id s5 = Some sh_demo_id" "s_Amount s5 = Some 5"
    using sh_demo_decode[of 5] by auto
  obtain s3 where s3: "shrug_Decode demo_sdk demo_lib (sh_demo_script 3) = Inr (Some s3)" "s_Id s3 = Some sh_demo_id" "s_Amount s3 = Some 3"
    using sh_demo_decode[of 3] by auto
  note ev = sh_demo_run_def shrug_IdentifyAdmissibleOutputs_def sh_demo_tx_def step_simps sh_classify_output_def sh_classify_input_def
    s3 s5 s9 lift_fault_def shrug_HasTokenId_def NewShrugValidatedTopicManager_def sh_record_output_def supd_def sh_upd_def
    new_shrug_summary_def shrug_amount_def shrug_token_id_def sh_record_input_def sh_retain_def sh_finish_def sh_admit_token_def
    no_admittance_def Let_def
  show "fst (sh_demo_run [0]) = Inr ()" "OutputsToAdmit (snd (sh_demo_run [0])) = [0, 1]" by (simp_all add: ev)
  show "fst (sh_demo_run []) = Inl (missing_error (NewShrugValidatedTopicManager ''tm'' []) (replicate 32 (CHR 0x02)) 0 (hd (tt_inputs sh_demo_tx)))"
    by (simp add: ev)
qed

lemma sh_demo_run_is:
  "shrug_IdentifyAdmissibleOutputs (NewShrugValidatedTopicManager ''tm'' []) demo_sdk demo_lib rev rev (\<lambda>t. Some sh_demo_tx)
     (replicate 32 (CHR 0x02)) prev = (fst (sh_demo_run prev), snd (sh_demo_run prev))"
  by (simp add: sh_demo_run_def)

theorem shrug_admission_exact_witness:
  "set (OutputsToAdmit (snd (sh_demo_run [0]))) = {0, 1} \<and>
   ev_pos ` {e \<in> set (sh_out_events (NewShrugValidatedTopicManager ''tm'' []) demo_sdk demo_lib (replicate 32 (CHR 0x02)) sh_demo_tx).
     sh_admits (sh_out_events (NewShrugValidatedTopicManager ''tm'' []) demo_sdk demo_lib (replicate 32 (CHR 0x02)) sh_demo_tx)
       (sh_in_events (NewShrugValidatedTopicManager ''tm'' []) demo_sdk demo_lib sh_demo_tx) e} = {0, 1}"
  using shrug_admission_exact[OF refl _ sh_demo_run_is[of "[0]", unfolded sh_demo_ok]] sh_demo_ok(3) by simp

theorem shrug_inputs_exact_witness:
  "\<exists>k < length (tt_inputs sh_demo_tx). fst (sh_demo_run []) =
     Inl (missing_error (NewShrugValidatedTopicManager ''tm'' []) (replicate 32 (CHR 0x02)) k (tt_inputs sh_demo_tx ! k))"
proof -
  have "\<nexists>f. fst (sh_demo_run []) = Inl (TopicFault f)" by (simp add: sh_demo_ok missing_error_def)
  from shrug_inputs_exact[OF refl _ sh_demo_run_is this] show ?thesis by (auto simp: sh_demo_ok)
qed

end
