(* ===== verification/Dedup.thy ===== *)
theory Dedup
  imports Prelude
begin

text \<open>
  \<open>pkg/dedup/loader.go\<close> and \<open>pkg/dedup/saver.go\<close>: concurrent calls for one key share one
  operation. Calls are threads; a step is one action on the shared map, on an operation's wait group, or
  the end of the worker function. Loader and saver make the same steps, with a value or an
  error as the operation's result: \<open>LoadOrStore\<close>, the worker, \<open>Delete\<close>, \<open>wg.Done\<close>, and for a
  call that found an operation in flight \<open>wg.Wait\<close>. The calls a worker makes itself are
  not part of the steps.
\<close>

section \<open>The machine\<close>

text \<open>
  Where a call stands, with its key and its operation's identity: before \<open>LoadOrStore\<close>, in the worker,
  before \<open>Delete\<close> and before \<open>wg.Done\<close> with the result, in \<open>wg.Wait\<close>, returned; \<open>NoCall\<close> is an unused number.
\<close>

datatype ('k, 'v) pc = NoCall |
    Calling 'k | Working 'k nat | Deleting 'k nat 'v | Signalling 'k nat 'v | Waiting 'k nat | Returned 'k 'v

record ('k, 'v) dd =
  dd_operations :: "'k \<Rightarrow> nat option"
  dd_result :: "nat \<Rightarrow> 'v option"
  dd_done :: "nat set"
  dd_next :: nat
  dd_calls :: "nat \<Rightarrow> ('k, 'v) pc"

definition dd_start :: "'k list \<Rightarrow> ('k, 'v) dd" where
  "dd_start ks = \<lparr>dd_operations = Map.empty, dd_result = Map.empty, dd_done = {}, dd_next = 0,
     dd_calls = (\<lambda>i. if i < length ks then Calling (ks ! i) else NoCall)\<rparr>"

definition goto :: "nat \<Rightarrow> ('k, 'v) pc \<Rightarrow> ('k, 'v) dd \<Rightarrow> ('k, 'v) dd" where
  "goto i p s = s\<lparr>dd_calls := (dd_calls s)(i := p)\<rparr>"

text \<open>\<open>outcome k v\<close>: the worker function may return \<open>v\<close> for the key \<open>k\<close>.\<close>

inductive dd_step :: "('k \<Rightarrow> 'v \<Rightarrow> bool) \<Rightarrow> ('k, 'v) dd \<Rightarrow> ('k, 'v) dd \<Rightarrow> bool" for outcome where
  Join: "dd_calls s i = Calling k \<Longrightarrow> dd_operations s k = Some p \<Longrightarrow>
    dd_step outcome s (goto i (Waiting k p) s)"
| Store: "dd_calls s i = Calling k \<Longrightarrow> dd_operations s k = None \<Longrightarrow>
    dd_step outcome s (goto i (Working k (dd_next s))
      (s\<lparr>dd_operations := (dd_operations s)(k \<mapsto> dd_next s), dd_next := Suc (dd_next s)\<rparr>))"
| Work: "dd_calls s i = Working k p \<Longrightarrow> outcome k v \<Longrightarrow>
    dd_step outcome s (goto i (Deleting k p v) (s\<lparr>dd_result := (dd_result s)(p \<mapsto> v)\<rparr>))"
| Delete: "dd_calls s i = Deleting k p v \<Longrightarrow>
    dd_step outcome s (goto i (Signalling k p v) (s\<lparr>dd_operations := (dd_operations s)(k := None)\<rparr>))"
| Done: "dd_calls s i = Signalling k p v \<Longrightarrow>
    dd_step outcome s (goto i (Returned k v) (s\<lparr>dd_done := insert p (dd_done s)\<rparr>))"
| Wait: "dd_calls s i = Waiting k p \<Longrightarrow> p \<in> dd_done s \<Longrightarrow> dd_result s p = Some v \<Longrightarrow>
    dd_step outcome s (goto i (Returned k v) s)"

text \<open>\<open>Clear\<close> forgets every operation in flight.\<close>

definition dd_Clear :: "('k, 'v) dd \<Rightarrow> ('k, 'v) dd" where
  "dd_Clear s = s\<lparr>dd_operations := Map.empty\<rparr>"

text \<open>Runs of \<open>n\<close> steps.\<close>

inductive dd_run :: "('k \<Rightarrow> 'v \<Rightarrow> bool) \<Rightarrow> ('k, 'v) dd \<Rightarrow> nat \<Rightarrow> ('k, 'v) dd \<Rightarrow> bool" for outcome s0 where
  run_refl: "dd_run outcome s0 0 s0"
| run_step: "dd_run outcome s0 n s \<Longrightarrow> dd_step outcome s t \<Longrightarrow> dd_run outcome s0 (Suc n) t"

section \<open>The invariant\<close>

text \<open>The operation a call runs, with its key, until \<open>Delete\<close> and until \<open>wg.Done\<close>; the result it has.\<close>

fun runs :: "('k, 'v) pc \<Rightarrow> ('k \<times> nat) option" where
  "runs (Working k p) = Some (k, p)"
| "runs (Deleting k p v) = Some (k, p)"
| "runs _ = None"

fun owns :: "('k, 'v) pc \<Rightarrow> ('k \<times> nat) option" where
  "owns (Signalling k p v) = Some (k, p)"
| "owns c = runs c"

fun result_of :: "('k, 'v) pc \<Rightarrow> (nat \<times> 'k \<times> 'v) option" where
  "result_of (Deleting k p v) = Some (p, k, v)"
| "result_of (Signalling k p v) = Some (p, k, v)"
| "result_of _ = None"

definition inv_map :: "('k, 'v) dd \<Rightarrow> bool" where
  "inv_map s \<longleftrightarrow> (\<forall>k p. dd_operations s k = Some p \<longleftrightarrow> (\<exists>i. runs (dd_calls s i) = Some (k, p)))"

definition inv_own :: "('k, 'v) dd \<Rightarrow> bool" where
  "inv_own s \<longleftrightarrow> (\<forall>i k p. owns (dd_calls s i) = Some (k, p) \<longrightarrow> p < dd_next s \<and> p \<notin> dd_done s) \<and>
     (\<forall>i j k l p. owns (dd_calls s i) = Some (k, p) \<longrightarrow> owns (dd_calls s j) = Some (l, p) \<longrightarrow> i = j) \<and>
     (\<forall>p \<in> dd_done s. p < dd_next s)"

definition inv_result :: "('k \<Rightarrow> 'v \<Rightarrow> bool) \<Rightarrow> ('k, 'v) dd \<Rightarrow> bool" where
  "inv_result outcome s \<longleftrightarrow>
     (\<forall>i k p v. result_of (dd_calls s i) = Some (p, k, v) \<longrightarrow> dd_result s p = Some v \<and> outcome k v) \<and>
     (\<forall>i k v. dd_calls s i = Returned k v \<longrightarrow> outcome k v)"

definition inv_wait :: "('k \<Rightarrow> 'v \<Rightarrow> bool) \<Rightarrow> ('k, 'v) dd \<Rightarrow> bool" where
  "inv_wait outcome s \<longleftrightarrow> (\<forall>i k p. dd_calls s i = Waiting k p \<longrightarrow> p < dd_next s \<and>
     ((\<exists>j. owns (dd_calls s j) = Some (k, p)) \<or> p \<in> dd_done s \<and> (\<exists>v. dd_result s p = Some v \<and> outcome k v)))"

definition dd_inv :: "('k \<Rightarrow> 'v \<Rightarrow> bool) \<Rightarrow> ('k, 'v) dd \<Rightarrow> bool" where
  "dd_inv outcome s \<longleftrightarrow> inv_map s \<and> inv_own s \<and> inv_result outcome s \<and> inv_wait outcome s"

lemma goto_simps [simp]:
  "dd_operations (goto i c s) = dd_operations s" "dd_result (goto i c s) = dd_result s" "dd_done (goto i c s) = dd_done s"
  "dd_next (goto i c s) = dd_next s" "dd_calls (goto i c s) j = (if j = i then c else dd_calls s j)"
  by (auto simp: goto_def)

lemma runs_owns: "runs c = Some e \<Longrightarrow> owns c = Some e"
  by (cases c) auto

lemma dd_inv_start: "dd_inv outcome (dd_start ks)"
  by (auto simp: dd_inv_def inv_map_def inv_own_def inv_result_def inv_wait_def dd_start_def)

lemma inv_mapD: "inv_map s \<Longrightarrow> runs (dd_calls s j) = Some (k, p) \<Longrightarrow> dd_operations s k = Some p"
  by (auto simp: inv_map_def)

lemma inv_ownD:
  assumes "inv_own s"
  shows "owns (dd_calls s i) = Some (k, p) \<Longrightarrow> p < dd_next s \<and> p \<notin> dd_done s"
    and "owns (dd_calls s i) = Some (k, p) \<Longrightarrow> owns (dd_calls s j) = Some (l, p) \<Longrightarrow> i = j"
    and "p \<in> dd_done s \<Longrightarrow> p < dd_next s"
  using assms unfolding inv_own_def by - blast+

lemma inv_map_step:
  assumes step: "dd_step outcome s t" and map: "inv_map s" and own: "inv_own s"
  shows "inv_map t"
proof -
  have same: "inv_map t" if "\<And>j. runs (dd_calls t j) = runs (dd_calls s j)" "dd_operations t = dd_operations s"
    using map that by (simp add: inv_map_def)
  from step show ?thesis
  proof (cases rule: dd_step.cases)
    case (Store i k)
    have "(\<exists>j. runs (dd_calls t j) = Some (l, q)) \<longleftrightarrow> (if l = k then q = dd_next s else (\<exists>j. runs (dd_calls s j) = Some (l, q)))" for l q
    proof -
      have "runs (dd_calls s i) = None" "\<nexists>j. runs (dd_calls s j) = Some (k, q)"
        using Store inv_mapD[OF map, of _ k q] by auto
      then show ?thesis using Store(1) by (auto) (metis option.distinct(1))+
    qed
    then show ?thesis using map Store(1) by (auto simp: inv_map_def)
  next
    case (Delete i k p v)
    have "(\<exists>j. runs (dd_calls t j) = Some (l, q)) \<longleftrightarrow> l \<noteq> k \<and> (\<exists>j. runs (dd_calls s j) = Some (l, q))" for l q
    proof -
      have k: "runs (dd_calls s j) = Some (k, q') \<Longrightarrow> j = i" for j q'
      proof -
        assume h: "runs (dd_calls s j) = Some (k, q')"
        have i: "runs (dd_calls s i) = Some (k, p)" using Delete by simp
        then have "q' = p" using inv_mapD[OF map h] inv_mapD[OF map i] by simp
        then show "j = i" using inv_ownD(2)[OF own] runs_owns[OF h] runs_owns[OF i] by blast
      qed
      then show ?thesis using Delete(1,2) by auto (metis runs.simps(2) option.inject prod.inject)
    qed
    then show ?thesis using map Delete(1) by (auto simp: inv_map_def)
  qed (rule same, simp, simp)+
qed

lemma result_owns: "result_of c = Some (p, k, v) \<Longrightarrow> owns c = Some (k, p)"
  by (cases c) auto

lemma inv_own_step:
  assumes step: "dd_step outcome s t" and own: "inv_own s"
  shows "inv_own t"
proof -
  note D = inv_ownD[OF own]
  have same: "inv_own t" if "\<And>j. owns (dd_calls t j) = owns (dd_calls s j)" "dd_done t = dd_done s" "dd_next t = dd_next s"
    using own that by (simp add: inv_own_def)
  from step show ?thesis
  proof (cases rule: dd_step.cases)
    case (Store i k)
    have n: "owns (dd_calls s j) \<noteq> Some (l, dd_next s)" "dd_next s \<notin> dd_done s" for j l
      using D(1)[of j l "dd_next s"] D(3)[of "dd_next s"] by auto
    show ?thesis unfolding inv_own_def
    proof (intro conjI allI impI ballI)
      fix j l q
      assume "owns (dd_calls t j) = Some (l, q)"
      then show "q < dd_next t" "q \<notin> dd_done t" using Store(1) D(1)[of j l q] n(2) by (auto split: if_splits)
    next
      fix a b l m q
      assume "owns (dd_calls t a) = Some (l, q)" "owns (dd_calls t b) = Some (m, q)"
      then show "a = b" using Store(1) D(2)[of a l q b m] n(1) by (auto split: if_splits)
    next
      fix q assume "q \<in> dd_done t" then show "q < dd_next t" using Store(1) D(3)[of q] by auto
    qed
  next
    case (Done i k p v)
    have i: "owns (dd_calls s i) = Some (k, p)" using Done by simp
    show ?thesis unfolding inv_own_def
    proof (intro conjI allI impI ballI)
      fix j l q
      assume "owns (dd_calls t j) = Some (l, q)"
      then show "q < dd_next t" "q \<notin> dd_done t"
        using Done(1) D(1)[of j l q] D(2)[of j l q i k] i by (auto split: if_splits)
    next
      fix a b l m q
      assume "owns (dd_calls t a) = Some (l, q)" "owns (dd_calls t b) = Some (m, q)"
      then show "a = b" using Done(1) D(2)[of a l q b m] by (auto split: if_splits)
    next
      fix q assume "q \<in> dd_done t" then show "q < dd_next t" using Done(1) D(3)[of q] D(1)[OF i] by auto
    qed
  qed (rule same, simp, simp, simp)+
qed

lemma inv_resultD:
  assumes "inv_result outcome s"
  shows "result_of (dd_calls s i) = Some (p, k, v) \<Longrightarrow> dd_result s p = Some v \<and> outcome k v"
    and "dd_calls s i = Returned k v \<Longrightarrow> outcome k v"
  using assms unfolding inv_result_def by - blast+

lemma inv_result_step:
  assumes step: "dd_step outcome s t" and own: "inv_own s" and wait: "inv_wait outcome s" and res: "inv_result outcome s"
  shows "inv_result outcome t"
  using step
proof (cases rule: dd_step.cases)
  case (Work i k p v)
  have other: "dd_result t q = Some w \<and> outcome l w" if "j \<noteq> i" "result_of (dd_calls s j) = Some (q, l, w)" for j l q w
  proof -
    have "owns (dd_calls s i) = Some (k, p)" using Work by simp
    then have "q \<noteq> p" using inv_ownD(2)[OF own] result_owns[OF that(2)] that(1) by blast
    then show ?thesis using res that(2) Work(1) by (auto simp: inv_result_def)
  qed
  show ?thesis using res Work other by (auto simp: inv_result_def split: if_splits)
next
  case (Wait i k p v)
  have "p \<notin> dd_done s" if "owns (dd_calls s j) = Some (k, p)" for j using inv_ownD(1)[OF own that] by blast
  then have "outcome k v" using wait Wait by (fastforce simp: inv_wait_def)
  then show ?thesis using res Wait by (auto simp: inv_result_def split: if_splits)
next
  case (Delete i k p v)
  then show ?thesis using inv_resultD[OF res] inv_resultD(1)[OF res, of i p k v]
    unfolding inv_result_def by (simp split: if_splits; blast)
next
  case (Done i k p v)
  then show ?thesis using inv_resultD[OF res] inv_resultD(1)[OF res, of i p k v]
    unfolding inv_result_def by (simp split: if_splits; blast)
qed (use res in \<open>auto simp: inv_result_def split: if_splits\<close>)

lemma inv_waitD:
  "inv_wait outcome s \<Longrightarrow> dd_calls s i = Waiting k p \<Longrightarrow> p < dd_next s \<and>
     ((\<exists>j. owns (dd_calls s j) = Some (k, p)) \<or> p \<in> dd_done s \<and> (\<exists>v. dd_result s p = Some v \<and> outcome k v))"
  unfolding inv_wait_def by blast

text \<open>A waiting call that the step does not move keeps its owner or its result.\<close>

lemma inv_wait_other:
  assumes step: "dd_step outcome s t" and own: "inv_own s" and wait: "inv_wait outcome s" and res: "inv_result outcome s"
    and j: "dd_calls s j = Waiting l q"
  shows "q < dd_next t \<and> ((\<exists>m. owns (dd_calls t m) = Some (l, q)) \<or> q \<in> dd_done t \<and> (\<exists>v. dd_result t q = Some v \<and> outcome l v))"
  using step
proof (cases rule: dd_step.cases)
  case (Store i k)
  from inv_waitD[OF wait j] show ?thesis
  proof (elim conjE disjE exE)
    fix m assume m: "owns (dd_calls s m) = Some (l, q)" "q < dd_next s"
    then show ?thesis using Store by (intro conjI disjI1 exI[of _ m]) (auto split: if_splits)
  qed (use Store(1) in auto)
next
  case (Work i k p v)
  have i: "owns (dd_calls s i) = Some (k, p)" using Work by simp
  from inv_waitD[OF wait j] show ?thesis
  proof (elim conjE disjE exE)
    fix m assume m: "owns (dd_calls s m) = Some (l, q)" "q < dd_next s"
    then show ?thesis using Work i by (intro conjI disjI1 exI[of _ m]) (auto split: if_splits)
  next
    fix v' assume "q < dd_next s" "q \<in> dd_done s" "dd_result s q = Some v'" "outcome l v'"
    then show ?thesis using Work(1) inv_ownD(1)[OF own i] by auto
  qed
next
  case (Delete i k p v)
  from inv_waitD[OF wait j] show ?thesis
  proof (elim conjE disjE exE)
    fix m assume m: "owns (dd_calls s m) = Some (l, q)" "q < dd_next s"
    then show ?thesis using Delete by (intro conjI disjI1 exI[of _ m]) (auto split: if_splits)
  qed (use Delete(1) in auto)
next
  case (Done i k p v)
  have i: "owns (dd_calls s i) = Some (k, p)" using Done by simp
  have r: "dd_result s p = Some v" "outcome k v" using res Done unfolding inv_result_def by (metis result_of.simps(2))+
  from inv_waitD[OF wait j] show ?thesis
  proof (elim conjE disjE exE)
    fix m assume m: "owns (dd_calls s m) = Some (l, q)" "q < dd_next s"
    show ?thesis
    proof (cases "m = i")
      case True
      then show ?thesis using m i r Done(1) by auto
    next
      case False
      then show ?thesis using m Done(1) by (intro conjI disjI1 exI[of _ m]) auto
    qed
  qed (use Done(1) in auto)
next
  case (Join i k p)
  from inv_waitD[OF wait j] show ?thesis
  proof (elim conjE disjE exE)
    fix m assume m: "owns (dd_calls s m) = Some (l, q)" "q < dd_next s"
    then show ?thesis using Join by (intro conjI disjI1 exI[of _ m]) (auto split: if_splits)
  qed (use Join(1) in auto)
next
  case (Wait i k p v)
  from inv_waitD[OF wait j] show ?thesis
  proof (elim conjE disjE exE)
    fix m assume m: "owns (dd_calls s m) = Some (l, q)" "q < dd_next s"
    then show ?thesis using Wait by (intro conjI disjI1 exI[of _ m]) (auto split: if_splits)
  qed (use Wait(1) in auto)
qed

lemma inv_wait_step:
  assumes step: "dd_step outcome s t" and map: "inv_map s" and own: "inv_own s" and wait: "inv_wait outcome s" and res: "inv_result outcome s"
  shows "inv_wait outcome t"
  unfolding inv_wait_def
proof (intro allI impI)
  fix j l q
  assume t: "dd_calls t j = Waiting l q"
  show "q < dd_next t \<and> ((\<exists>m. owns (dd_calls t m) = Some (l, q)) \<or> q \<in> dd_done t \<and> (\<exists>v. dd_result t q = Some v \<and> outcome l v))"
  proof (cases "dd_calls s j = Waiting l q")
    case True
    then show ?thesis by (rule inv_wait_other[OF step own wait res])
  next
    case False
    from step obtain i k p where "t = goto i (Waiting k p) s" "dd_calls s i = Calling k" "dd_operations s k = Some p" "j = i" "l = k" "q = p"
      using t False by (cases rule: dd_step.cases) (auto split: if_splits)
    moreover from this(3) obtain m where m: "runs (dd_calls s m) = Some (k, p)" using map by (auto simp: inv_map_def)
    ultimately show ?thesis
      using runs_owns[OF m] inv_ownD(1)[OF own runs_owns[OF m]] by (intro conjI disjI1 exI[of _ m]) (auto split: if_splits)
  qed
qed

lemma dd_inv_step: "dd_step outcome s t \<Longrightarrow> dd_inv outcome s \<Longrightarrow> dd_inv outcome t"
  unfolding dd_inv_def using inv_map_step inv_own_step inv_result_step inv_wait_step by blast

lemma dd_run_inv: "dd_run outcome (dd_start ks) n s \<Longrightarrow> dd_inv outcome s"
  by (induction rule: dd_run.induct) (auto intro: dd_inv_start dd_inv_step)

section \<open>Every call returns\<close>

fun call_key :: "('k, 'v) pc \<Rightarrow> 'k option" where
  "call_key NoCall = None"
| "call_key (Calling k) = Some k"
| "call_key (Working k p) = Some k"
| "call_key (Deleting k p v) = Some k"
| "call_key (Signalling k p v) = Some k"
| "call_key (Waiting k p) = Some k"
| "call_key (Returned k v) = Some k"

lemma call_key_step: "dd_step outcome s t \<Longrightarrow> call_key (dd_calls t i) = call_key (dd_calls s i)"
  by (induction rule: dd_step.induct) auto

lemma call_key_run: "dd_run outcome (dd_start ks) n s \<Longrightarrow> call_key (dd_calls s i) = (if i < length ks then Some (ks ! i) else None)"
  by (induction rule: dd_run.induct) (auto simp: dd_start_def call_key_step)

text \<open>How many steps a call still has at most.\<close>

fun steps_left :: "('k, 'v) pc \<Rightarrow> nat" where
  "steps_left (Calling k) = 4"
| "steps_left (Working k p) = 3"
| "steps_left (Deleting k p v) = 2"
| "steps_left (Signalling k p v) = 1"
| "steps_left (Waiting k p) = 1"
| "steps_left _ = 0"

lemma steps_left_step:
  assumes "dd_step outcome s t"
  shows "\<exists>i. steps_left (dd_calls t i) < steps_left (dd_calls s i) \<and> (\<forall>j. j \<noteq> i \<longrightarrow> dd_calls t j = dd_calls s j)"
  using assms
proof (induction rule: dd_step.induct)
  case (Join s i k p)
  then show ?case by (intro exI[of _ i]) simp
next
  case (Store s i k)
  then show ?case by (intro exI[of _ i]) simp
next
  case (Work s i k p v)
  then show ?case by (intro exI[of _ i]) simp
next
  case (Delete s i k p v)
  then show ?case by (intro exI[of _ i]) simp
next
  case (Done s i k p v)
  then show ?case by (intro exI[of _ i]) simp
next
  case (Wait s i k p v)
  then show ?case by (intro exI[of _ i]) simp
qed

lemma run_bound:
  assumes "dd_run outcome (dd_start ks) n s"
  shows "n + (\<Sum>i < length ks. steps_left (dd_calls s i)) \<le> 4 * length ks"
  using assms
proof (induction rule: dd_run.induct)
  case run_refl
  then show ?case by (simp add: dd_start_def)
next
  case (run_step n s t)
  obtain i where i: "steps_left (dd_calls t i) < steps_left (dd_calls s i)" "\<And>j. j \<noteq> i \<Longrightarrow> dd_calls t j = dd_calls s j"
    using steps_left_step[OF run_step.hyps(2)] by blast
  have "i < length ks"
    using call_key_run[OF run_step.hyps(1), of i] i(1) by (cases "dd_calls s i") (auto split: if_splits)
  then have "(\<Sum>j < length ks. steps_left (dd_calls t j)) < (\<Sum>j < length ks. steps_left (dd_calls s j))"
    using i by (intro sum_strict_mono_ex1) (auto intro: order_eq_refl less_imp_le, metis less_imp_le order_refl)
  then show ?case using run_step.IH by simp
qed

lemma owner_steps:
  assumes "owns (dd_calls s i) = Some (k, p)" and "\<And>k. \<exists>v. outcome k v"
  shows "\<exists>t. dd_step outcome s t"
proof (cases "dd_calls s i")
  case (Working l q)
  obtain v where "outcome l v" using assms(2) by blast
  then show ?thesis using dd_step.Work[OF Working, of outcome] by blast
next
  case (Deleting l q v)
  then show ?thesis using dd_step.Delete[OF Deleting, of outcome] by blast
next
  case (Signalling l q v)
  then show ?thesis using dd_step.Done[OF Signalling, of outcome] by blast
qed (use assms(1) in auto)

lemma not_stuck:
  assumes inv: "dd_inv outcome s" and total: "\<And>k. \<exists>v. outcome k v" and i: "0 < steps_left (dd_calls s i)"
  shows "\<exists>t. dd_step outcome s t"
proof (cases "dd_calls s i")
  case (Calling k)
  then show ?thesis
    using dd_step.Join[OF Calling, of _ outcome] dd_step.Store[OF Calling, of outcome] by (cases "dd_operations s k") blast+
next
  case (Waiting k p)
  have "(\<exists>j. owns (dd_calls s j) = Some (k, p)) \<or> p \<in> dd_done s \<and> (\<exists>v. dd_result s p = Some v)"
    using inv inv_waitD[OF _ Waiting, of outcome] by (auto simp: dd_inv_def)
  then show ?thesis using owner_steps[of s _ k p outcome] total dd_step.Wait[OF Waiting, of _ outcome] by blast
next
  case (Working k p)
  then show ?thesis using owner_steps[of s i k p outcome] total by simp
next
  case (Deleting k p v)
  then show ?thesis using owner_steps[of s i k p outcome] total by simp
next
  case (Signalling k p v)
  then show ?thesis using owner_steps[of s i k p outcome] total by simp
qed (use i in auto)

section \<open>Properties\<close>

text \<open>
  C23: however the steps of concurrent calls interleave, at most one call runs the worker for a key, and
  a call that has returned has a result of the worker for the key it was called with, whether it ran the
  worker itself or waited for another call.
\<close>

theorem one_worker_per_key:
  assumes "dd_run outcome (dd_start ks) n s"
  shows "(\<forall>i j k p q. dd_calls s i = Working k p \<longrightarrow> dd_calls s j = Working k q \<longrightarrow> i = j) \<and>
    (\<forall>i k v. dd_calls s i = Returned k v \<longrightarrow> i < length ks \<and> k = ks ! i \<and> outcome k v)"
proof (intro conjI allI impI)
  have inv: "dd_inv outcome s" by (rule dd_run_inv[OF assms])
  fix i j k p q
  assume "dd_calls s i = Working k p" and "dd_calls s j = Working k q"
  then have r: "runs (dd_calls s i) = Some (k, p)" "runs (dd_calls s j) = Some (k, q)" by simp_all
  have "inv_map s" using inv by (simp add: dd_inv_def)
  then have "p = q" using inv_mapD[of s i k p] inv_mapD[of s j k q] r by simp
  then show "i = j" using inv_ownD(2)[of s i k p j k] runs_owns[OF r(1)] runs_owns[OF r(2)] inv unfolding dd_inv_def by blast
next
  have inv: "dd_inv outcome s" by (rule dd_run_inv[OF assms])
  fix i k v
  assume r: "dd_calls s i = Returned k v"
  show "i < length ks" "k = ks ! i" using call_key_run[OF assms, of i] r by (auto split: if_splits)
  show "outcome k v" using inv_resultD(2)[OF _ r] inv unfolding dd_inv_def by blast
qed

text \<open>Two calls for one key: the second waits for the first and gets its result.\<close>

abbreviation demo_outcome :: "nat \<Rightarrow> nat \<Rightarrow> bool" where "demo_outcome k v \<equiv> v = k + 1"

lemma demo_dd_run:
  "\<exists>s. dd_run demo_outcome (dd_start [7, 7]) 3 s \<and> dd_calls s 0 = Deleting 7 0 8 \<and> dd_calls s 1 = Waiting 7 0"
proof -
  let ?s0 = "dd_start [7, 7] :: (nat, nat) dd"
  obtain s1 where s1: "dd_step demo_outcome ?s0 s1" "dd_calls s1 0 = Working 7 0" "dd_calls s1 1 = Calling 7" "dd_operations s1 7 = Some 0"
    using dd_step.Store[of ?s0 0 7 demo_outcome] by (fastforce simp: dd_start_def)
  obtain s2 where s2: "dd_step demo_outcome s1 s2" "dd_calls s2 0 = Working 7 0" "dd_calls s2 1 = Waiting 7 0"
    using dd_step.Join[of s1 1 7 0 demo_outcome] s1 by fastforce
  obtain s3 where s3: "dd_step demo_outcome s2 s3" "dd_calls s3 0 = Deleting 7 0 8" "dd_calls s3 1 = Waiting 7 0"
    using dd_step.Work[of s2 0 7 0 demo_outcome 8] s2 by fastforce
  have "dd_run demo_outcome ?s0 (Suc (Suc (Suc 0))) s3"
    by (rule run_step[OF run_step[OF run_step[OF run_refl s1(1)] s2(1)] s3(1)])
  then show ?thesis using s3 by (auto simp: numeral_3_eq_3)
qed

theorem one_worker_per_key_witness:
  "\<exists>s. dd_run demo_outcome (dd_start [7, 7]) 3 s \<and>
     (\<forall>i j k p q. dd_calls s i = Working k p \<longrightarrow> dd_calls s j = Working k q \<longrightarrow> i = j)"
  using demo_dd_run one_worker_per_key by blast

text \<open>
  C24: no interleaving blocks or runs on: \<open>n\<close> calls make at most \<open>4 * n\<close> steps, and as long as a call has not
  returned some step is possible, provided the worker returns for every key; so every schedule ends with all
  calls returned.
\<close>

theorem dedup_calls_return:
  assumes "dd_run outcome (dd_start ks) n s" and "\<And>k. \<exists>v. outcome k v"
  shows "n \<le> 4 * length ks \<and>
    ((\<nexists>t. dd_step outcome s t) \<longrightarrow> (\<forall>i < length ks. \<exists>v. dd_calls s i = Returned (ks ! i) v))"
proof (intro conjI impI allI)
  show "n \<le> 4 * length ks" using run_bound[OF assms(1)] by simp
next
  fix i
  assume stuck: "\<nexists>t. dd_step outcome s t" and i: "i < length ks"
  have "\<not> 0 < steps_left (dd_calls s i)" using not_stuck[OF dd_run_inv[OF assms(1)] assms(2), of i] stuck by blast
  then show "\<exists>v. dd_calls s i = Returned (ks ! i) v"
    using call_key_run[OF assms(1), of i] i by (cases "dd_calls s i") auto
qed

theorem dedup_calls_return_witness:
  "(3::nat) \<le> 4 * length [7::nat, 7] \<and> (\<exists>s. dd_run demo_outcome (dd_start [7, 7]) 3 s \<and> (\<exists>t. dd_step demo_outcome s t))"
proof -
  obtain s where s: "dd_run demo_outcome (dd_start [7, 7]) 3 s" "dd_calls s 0 = Deleting 7 0 8" using demo_dd_run by blast
  have "\<exists>v. demo_outcome k v" for k by blast
  note w = dedup_calls_return[OF s(1) this]
  have "\<exists>t. dd_step demo_outcome s t"
  proof (rule ccontr)
    assume "\<nexists>t. dd_step demo_outcome s t"
    then have "\<exists>v. dd_calls s 0 = Returned ([7, 7] ! 0) v" using w by blast
    then show False using s(2) by simp
  qed
  then show ?thesis using w s(1) by blast
qed

end
