(* ===== verification/Worker.thy ===== *)
theory Worker
  imports StoreLaws
begin

text \<open>
  \<open>pkg/worker/worker.go\<close>: a worker takes items from a sorted set in order of score and runs a handler on
  each, a bounded number at a time. Its main loop, its goroutines and their channels are a step relation:
  \<open>M\<close> steps are the branches of the main \<open>select\<close>, \<open>G\<close> steps those of a goroutine. A branch of \<open>select\<close>
  other than the default is taken when its channel has a message; the default only when none has. Ticks and
  status logs change no state; a search that fails or finds nothing only sleeps. The clock is
  any score, since \<open>HeightScore(0, 0)\<close> and the retry score are readings of it.
\<close>

text \<open>Where a goroutine stands: it holds its place in the limiter up to \<open>Releasing\<close>.\<close>

datatype gpc = Handling bytes f64 | Removing bytes | Rescoring bytes f64 | Reporting bytes f64 | Releasing bytes | Announcing bytes

text \<open>Where the main loop stands: in \<open>select\<close>, about to take the first pending item, or at the limiter.\<close>

datatype mpc = Selecting | Taking | Spawning bytes f64

text \<open>\<open>wk_succeeded\<close> is not in the code: it records the ids for which the handler has succeeded.\<close>

record 's worker =
  wk_store :: 's
  wk_inflight :: "bytes set"
  wk_pending :: "scored_member list"
  wk_main :: mpc
  wk_running :: "gpc list"
  wk_limiter :: nat
  wk_done :: "bytes list"
  wk_errs :: "(bytes \<times> f64) list"
  wk_succeeded :: "bytes set"

definition wk_start :: "'s \<Rightarrow> 's worker" where
  "wk_start s = \<lparr>wk_store = s, wk_inflight = {}, wk_pending = [], wk_main = Selecting, wk_running = [], wk_limiter = 0,
     wk_done = [], wk_errs = [], wk_succeeded = {}\<rparr>"

definition queue_search :: "bytes \<Rightarrow> 32 word \<Rightarrow> f64 \<Rightarrow> search_cfg" where
  "queue_search key page to = \<lparr>Keys = [key], From = None, To = Some to, Limit = page, JoinType = JoinUnion, Reverse = False\<rparr>"

text \<open>A goroutine moves, or ends.\<close>

definition g_move :: "nat \<Rightarrow> gpc \<Rightarrow> 's worker \<Rightarrow> 's worker" where
  "g_move i g w = w\<lparr>wk_running := (wk_running w)[i := g]\<rparr>"

definition g_end :: "nat \<Rightarrow> 's worker \<Rightarrow> 's worker" where
  "g_end i w = w\<lparr>wk_running := take i (wk_running w) @ drop (Suc i) (wk_running w)\<rparr>"

text \<open>
  \<open>handle id s s'\<close>: the handler may leave the store \<open>s'\<close> when it is called with \<open>id\<close> in the store \<open>s\<close>, and
  \<open>env s s'\<close>: another component may change the store so, when it queues items for instance. The
  capacity of the limiter and of both channels is \<open>cap\<close>.
\<close>

inductive wk_step ::
  "'s store_ops \<Rightarrow> bytes \<Rightarrow> 32 word \<Rightarrow> nat \<Rightarrow> (bytes \<Rightarrow> 's \<Rightarrow> 's \<Rightarrow> bool) \<Rightarrow> ('s \<Rightarrow> 's \<Rightarrow> bool) \<Rightarrow> 's worker \<Rightarrow> 's worker \<Rightarrow> bool"
  for S key page cap handle env where
  M_done: "wk_main w = Selecting \<Longrightarrow> wk_done w = i # ids \<Longrightarrow>
    wk_step S key page cap handle env w (w\<lparr>wk_done := ids, wk_inflight := wk_inflight w - {i}\<rparr>)"
| M_error: "wk_main w = Selecting \<Longrightarrow> wk_errs w = e # es \<Longrightarrow>
    wk_step S key page cap handle env w (w\<lparr>wk_errs := es, wk_inflight := wk_inflight w - {fst e}\<rparr>)"
| M_fetch: "wk_main w = Selecting \<Longrightarrow> wk_done w = [] \<Longrightarrow> wk_errs w = [] \<Longrightarrow> wk_pending w = [] \<Longrightarrow>
    st_Search S (queue_search key page to) (wk_store w) = Inr items \<Longrightarrow> items \<noteq> [] \<Longrightarrow>
    wk_step S key page cap handle env w (w\<lparr>wk_pending := items, wk_main := Taking\<rparr>)"
| M_next: "wk_main w = Selecting \<Longrightarrow> wk_done w = [] \<Longrightarrow> wk_errs w = [] \<Longrightarrow> wk_pending w \<noteq> [] \<Longrightarrow>
    wk_step S key page cap handle env w (w\<lparr>wk_main := Taking\<rparr>)"
| M_skip: "wk_main w = Taking \<Longrightarrow> wk_pending w = item # items \<Longrightarrow> Member item \<in> wk_inflight w \<Longrightarrow>
    wk_step S key page cap handle env w (w\<lparr>wk_pending := items, wk_main := Selecting\<rparr>)"
| M_take: "wk_main w = Taking \<Longrightarrow> wk_pending w = item # items \<Longrightarrow> Member item \<notin> wk_inflight w \<Longrightarrow>
    wk_step S key page cap handle env w (w\<lparr>wk_pending := items, wk_inflight := insert (Member item) (wk_inflight w),
      wk_main := Spawning (Member item) (Score item)\<rparr>)"
| M_spawn: "wk_main w = Spawning i sc \<Longrightarrow> wk_limiter w < cap \<Longrightarrow>
    wk_step S key page cap handle env w (w\<lparr>wk_main := Selecting, wk_limiter := Suc (wk_limiter w),
      wk_running := wk_running w @ [Handling i sc]\<rparr>)"
| Env: "env (wk_store w) s' \<Longrightarrow> wk_step S key page cap handle env w (w\<lparr>wk_store := s'\<rparr>)"
| G_ok: "n < length (wk_running w) \<Longrightarrow> wk_running w ! n = Handling i sc \<Longrightarrow> handle i (wk_store w) s' \<Longrightarrow>
    wk_step S key page cap handle env w (g_move n (Removing i) (w\<lparr>wk_store := s', wk_succeeded := insert i (wk_succeeded w)\<rparr>))"
| G_fail: "n < length (wk_running w) \<Longrightarrow> wk_running w ! n = Handling i sc \<Longrightarrow> handle i (wk_store w) s' \<Longrightarrow>
    wk_step S key page cap handle env w (g_move n (Rescoring i sc) (w\<lparr>wk_store := s'\<rparr>))"
| G_panic: "n < length (wk_running w) \<Longrightarrow> wk_running w ! n = Handling i sc \<Longrightarrow> handle i (wk_store w) s' \<Longrightarrow>
    wk_step S key page cap handle env w (g_move n (Releasing i) (w\<lparr>wk_store := s'\<rparr>))"
| G_remove: "n < length (wk_running w) \<Longrightarrow> wk_running w ! n = Removing i \<Longrightarrow>
    wk_step S key page cap handle env w (g_move n (Releasing i) (w\<lparr>wk_store := snd (st_ZRem S key [i] (wk_store w))\<rparr>))"
| G_rescore: "n < length (wk_running w) \<Longrightarrow> wk_running w ! n = Rescoring i sc \<Longrightarrow> f64_plain retryScore \<Longrightarrow>
    wk_step S key page cap handle env w (g_move n (Reporting i sc) (w\<lparr>wk_store := snd (st_ZAdd S key [scored i retryScore] (wk_store w))\<rparr>))"
| G_report: "n < length (wk_running w) \<Longrightarrow> wk_running w ! n = Reporting i sc \<Longrightarrow> length (wk_errs w) < cap \<Longrightarrow>
    wk_step S key page cap handle env w (g_move n (Releasing i) (w\<lparr>wk_errs := wk_errs w @ [(i, sc)]\<rparr>))"
| G_release: "n < length (wk_running w) \<Longrightarrow> wk_running w ! n = Releasing i \<Longrightarrow>
    wk_step S key page cap handle env w (g_move n (Announcing i) (w\<lparr>wk_limiter := wk_limiter w - 1\<rparr>))"
| G_done: "n < length (wk_running w) \<Longrightarrow> wk_running w ! n = Announcing i \<Longrightarrow> length (wk_done w) < cap \<Longrightarrow>
    wk_step S key page cap handle env w (g_end n (w\<lparr>wk_done := wk_done w @ [i]\<rparr>))"

inductive wk_reach ::
  "'s store_ops \<Rightarrow> bytes \<Rightarrow> 32 word \<Rightarrow> nat \<Rightarrow> (bytes \<Rightarrow> 's \<Rightarrow> 's \<Rightarrow> bool) \<Rightarrow> ('s \<Rightarrow> 's \<Rightarrow> bool) \<Rightarrow> 's \<Rightarrow> 's worker \<Rightarrow> bool"
  for S key page cap handle env s0 where
  wk_init: "wk_reach S key page cap handle env s0 (wk_start s0)"
| wk_next: "wk_reach S key page cap handle env s0 w \<Longrightarrow> wk_step S key page cap handle env w w' \<Longrightarrow>
    wk_reach S key page cap handle env s0 w'"

section \<open>Channels and the limiter\<close>

text \<open>Which goroutines hold a place in the limiter, and which may still report an error.\<close>

fun holds_place :: "gpc \<Rightarrow> bool" where
  "holds_place (Announcing i) = False"
| "holds_place _ = True"

fun may_report :: "gpc \<Rightarrow> bool" where
  "may_report (Releasing i) = False"
| "may_report (Announcing i) = False"
| "may_report _ = True"

definition count :: "('a \<Rightarrow> bool) \<Rightarrow> 'a list \<Rightarrow> nat" where
  "count P xs = length (filter P xs)"

lemma count_simps [simp]: "count P [] = 0" "count P (xs @ ys) = count P xs + count P ys" "count P [x] = (if P x then 1 else 0)"
  by (simp_all add: count_def)

lemma count_split:
  assumes "n < length xs"
  shows "count P xs = count P (take n xs) + (if P (xs ! n) then 1 else 0) + count P (drop (Suc n) xs)"
  by (subst id_take_nth_drop[OF assms]) (simp add: count_def)

lemma count_update:
  assumes "n < length xs"
  shows "count P (xs[n := y]) = count P (take n xs) + (if P y then 1 else 0) + count P (drop (Suc n) xs)"
  using assms by (simp add: upd_conv_take_nth_drop count_def)

definition chan_inv :: "nat \<Rightarrow> 's worker \<Rightarrow> bool" where
  "chan_inv cap w \<longleftrightarrow> wk_limiter w = count holds_place (wk_running w) \<and> wk_limiter w \<le> cap \<and>
     (wk_main w \<noteq> Selecting \<longrightarrow> length (wk_errs w) + count may_report (wk_running w) \<le> cap) \<and>
     (wk_main w = Taking \<longrightarrow> wk_pending w \<noteq> [])"

lemma may_report_holds: "may_report g \<Longrightarrow> holds_place g"
  by (cases g) auto

lemma count_mono: "(\<And>x. P x \<Longrightarrow> Q x) \<Longrightarrow> count P xs \<le> count Q xs"
  by (induction xs) (auto simp: count_def)

lemma move_simps [simp]:
  "wk_store (g_move n g w) = wk_store w" "wk_inflight (g_move n g w) = wk_inflight w" "wk_pending (g_move n g w) = wk_pending w"
  "wk_main (g_move n g w) = wk_main w" "wk_running (g_move n g w) = (wk_running w)[n := g]" "wk_limiter (g_move n g w) = wk_limiter w"
  "wk_done (g_move n g w) = wk_done w" "wk_errs (g_move n g w) = wk_errs w" "wk_succeeded (g_move n g w) = wk_succeeded w"
  by (simp_all add: g_move_def)

lemma end_simps [simp]:
  "wk_store (g_end n w) = wk_store w" "wk_inflight (g_end n w) = wk_inflight w" "wk_pending (g_end n w) = wk_pending w"
  "wk_main (g_end n w) = wk_main w" "wk_running (g_end n w) = take n (wk_running w) @ drop (Suc n) (wk_running w)"
  "wk_limiter (g_end n w) = wk_limiter w" "wk_done (g_end n w) = wk_done w" "wk_errs (g_end n w) = wk_errs w"
  "wk_succeeded (g_end n w) = wk_succeeded w"
  by (simp_all add: g_end_def)

lemma chan_inv_start: "chan_inv cap (wk_start s)"
  by (simp add: chan_inv_def wk_start_def)

lemma chan_inv_step:
  assumes "wk_step S key page cap handle env w w'" and "chan_inv cap w"
  shows "chan_inv cap w'"
  using assms
proof (induction rule: wk_step.induct)
  case (M_next w)
  then show ?case using count_mono[of may_report holds_place, OF may_report_holds, of "wk_running w"] by (auto simp: chan_inv_def)
next
  case (M_fetch w to items)
  then show ?case using count_mono[of may_report holds_place, OF may_report_holds, of "wk_running w"] by (auto simp: chan_inv_def)
qed (auto simp: chan_inv_def count_update count_split[of _ "wk_running _"])

lemma chan_inv_reach: "wk_reach S key page cap handle env s0 w \<Longrightarrow> chan_inv cap w"
  by (induction rule: wk_reach.induct) (auto intro: chan_inv_start chan_inv_step)

section \<open>No deadlock\<close>

text \<open>A goroutine that holds a place can step, if the channel for errors has room.\<close>

lemma holder_steps:
  assumes n: "n < length (wk_running w)" "holds_place (wk_running w ! n)" and room: "may_report (wk_running w ! n) \<Longrightarrow> length (wk_errs w) < cap"
    and handler: "\<And>i s. \<exists>s'. handle i s s'"
  shows "\<exists>w'. wk_step S key page cap handle env w w'"
proof (cases "wk_running w ! n")
  case (Handling i sc)
  obtain s' where "handle i (wk_store w) s'" using handler by blast
  then show ?thesis using wk_step.G_ok[OF n(1) Handling, of handle s' S key page cap env] by blast
next
  case (Removing i)
  then show ?thesis using wk_step.G_remove[OF n(1)] by blast
next
  case (Rescoring i sc)
  have "f64_plain 0" by (simp add: f64_plain_def f64_nan_def f64_neg_zero_def)
  then show ?thesis using wk_step.G_rescore[OF n(1) Rescoring] by blast
next
  case (Reporting i sc)
  then show ?thesis using wk_step.G_report[OF n(1) Reporting, of cap] room by (metis may_report.simps(6))
next
  case (Releasing i)
  then show ?thesis using wk_step.G_release[OF n(1)] by blast
next
  case (Announcing i)
  then show ?thesis using n(2) by simp
qed

lemma count_pos: "0 < count P xs \<Longrightarrow> \<exists>n < length xs. P (xs ! n)"
  by (metis count_def filter_empty_conv in_set_conv_nth length_greater_0_conv)

lemma worker_steps:
  assumes inv: "chan_inv cap w" and cap: "0 < cap" and handler: "\<And>i s. \<exists>s'. handle i s s'"
    and busy: "wk_main w \<noteq> Selecting \<or> wk_done w \<noteq> [] \<or> wk_errs w \<noteq> [] \<or> wk_pending w \<noteq> [] \<or> wk_running w \<noteq> []"
  shows "\<exists>w'. wk_step S key page cap handle env w w'"
proof (cases "wk_main w")
  case Selecting
  consider i ids where "wk_done w = i # ids" | e es where "wk_errs w = e # es" | "wk_done w = []" "wk_errs w = []" "wk_pending w \<noteq> []"
    | "wk_done w = []" "wk_errs w = []" "wk_running w \<noteq> []"
    using busy Selecting by (metis neq_Nil_conv)
  then show ?thesis
  proof cases
    case 4
    then obtain g where g: "0 < length (wk_running w)" "wk_running w ! 0 = g" by simp
    show ?thesis
    proof (cases "holds_place g")
      case True
      then show ?thesis using holder_steps[OF g(1)] g(2) 4(2) cap handler by simp
    next
      case False
      then obtain i where "wk_running w ! 0 = Announcing i" using g(2) by (cases g) auto
      then show ?thesis using wk_step.G_done[OF g(1), of i cap S key page handle env] 4(1) cap by auto
    qed
  next
    case 1
    show ?thesis by (rule exI) (rule wk_step.M_done[OF Selecting 1])
  next
    case 2
    show ?thesis by (rule exI) (rule wk_step.M_error[OF Selecting 2])
  next
    case 3
    show ?thesis by (rule exI) (rule wk_step.M_next[OF Selecting 3])
  qed
next
  case Taking
  then obtain item items where "wk_pending w = item # items" using inv by (auto simp: chan_inv_def neq_Nil_conv)
  then show ?thesis
    using wk_step.M_skip[OF Taking] wk_step.M_take[OF Taking] by blast
next
  case (Spawning i sc)
  show ?thesis
  proof (cases "wk_limiter w < cap")
    case True
    then show ?thesis using wk_step.M_spawn[OF Spawning] by blast
  next
    case False
    then have "0 < count holds_place (wk_running w)" using inv cap by (simp add: chan_inv_def)
    then obtain n where n: "n < length (wk_running w)" "holds_place (wk_running w ! n)" using count_pos by blast
    have "length (wk_errs w) + count may_report (wk_running w) \<le> cap" using inv Spawning by (simp add: chan_inv_def)
    then have "length (wk_errs w) < cap" if "may_report (wk_running w ! n)"
      using count_split[OF n(1), of may_report] that by simp
    then show ?thesis using holder_steps[OF n] handler by blast
  qed
qed

section \<open>No item is lost\<close>

locale worker_env = store_laws S ok hv zv sv kvs hsep zok
  for S :: "'s store_ops" and ok hv zv sv kvs hsep zok +
  fixes key :: bytes and handle :: "bytes \<Rightarrow> 's \<Rightarrow> 's \<Rightarrow> bool" and env :: "'s \<Rightarrow> 's \<Rightarrow> bool"
  assumes key_ok: "zok key"
    and handle_keeps: "ok s \<Longrightarrow> handle i s s' \<Longrightarrow> ok s' \<and> dom (zv s key) \<subseteq> dom (zv s' key)"
    and env_keeps: "ok s \<Longrightarrow> env s s' \<Longrightarrow> ok s' \<and> dom (zv s key) \<subseteq> dom (zv s' key)"
begin

definition queue_inv :: "bytes set \<Rightarrow> 's worker \<Rightarrow> bool" where
  "queue_inv Q w \<longleftrightarrow> ok (wk_store w) \<and> Q \<subseteq> dom (zv (wk_store w) key) \<union> wk_succeeded w \<and>
     (\<forall>i. Removing i \<in> set (wk_running w) \<longrightarrow> i \<in> wk_succeeded w)"

lemma set_move: "set (xs[n := y]) \<subseteq> insert y (set xs)"
  by (rule set_update_subset_insert)

lemma queue_inv_step:
  assumes step: "wk_step S key page cap handle env w w'" and inv: "queue_inv Q w"
  shows "queue_inv Q w'"
  using step inv
proof (induction rule: wk_step.induct)
  case (G_ok n w i sc s')
  then show ?case using handle_keeps[of "wk_store w" i s'] set_move[of "wk_running w" n "Removing i"]
    by (simp add: queue_inv_def) blast
next
  case (G_fail n w i sc s')
  then show ?case using handle_keeps[of "wk_store w" i s'] set_move[of "wk_running w" n "Rescoring i sc"]
    by (simp add: queue_inv_def) blast
next
  case (G_panic n w i sc s')
  then show ?case using handle_keeps[of "wk_store w" i s'] set_move[of "wk_running w" n "Releasing i"]
    by (simp add: queue_inv_def) blast
next
  case (Env w s')
  then show ?case using env_keeps[of "wk_store w" s'] by (simp add: queue_inv_def) blast
next
  case (G_remove n w i)
  have "i \<in> wk_succeeded w" using G_remove by (metis nth_mem queue_inv_def)
  moreover obtain s' where "st_ZRem S key [i] (wk_store w) = (Inr (), s')" "ok s'" "zv s' key = (zv (wk_store w) key)(i := None)"
    using ZRem_law[OF _ key_ok, of "wk_store w" i] G_remove by (auto simp: queue_inv_def)
  ultimately show ?case using G_remove set_move[of "wk_running w" n "Releasing i"] by (auto simp: queue_inv_def)
next
  case (G_rescore n w i sc r)
  obtain s' where "st_ZAdd S key [scored i r] (wk_store w) = (Inr (), s')" "ok s'" "zv s' key = (zv (wk_store w) key)(i \<mapsto> r)"
    using ZAdd_law[OF _ key_ok, of "wk_store w" r i] G_rescore by (auto simp: queue_inv_def)
  then show ?case using G_rescore set_move[of "wk_running w" n "Reporting i sc"] by (auto simp: queue_inv_def)
next
  case (G_report n w i sc)
  then show ?case using set_move[of "wk_running w" n "Releasing i"] by (auto simp: queue_inv_def)
next
  case (G_release n w i)
  then show ?case using set_move[of "wk_running w" n "Announcing i"] by (auto simp: queue_inv_def)
next
  case (G_done n w i)
  then show ?case using set_take_subset[of n "wk_running w"] set_drop_subset[of "Suc n" "wk_running w"] by (auto simp: queue_inv_def)
qed (auto simp: queue_inv_def)

lemma queue_kept:
  assumes "wk_reach S key page cap handle env s0 w" and "ok s0"
  shows "dom (zv s0 key) \<subseteq> dom (zv (wk_store w) key) \<union> wk_succeeded w"
proof -
  have "queue_inv (dom (zv s0 key)) (wk_start s0)" using assms(2) by (simp add: queue_inv_def wk_start_def)
  with assms(1) have "queue_inv (dom (zv s0 key)) w"
    by (induction rule: wk_reach.induct) (blast intro: queue_inv_step)+
  then show ?thesis by (simp add: queue_inv_def)
qed

end

section \<open>ProcessOnce\<close>

text \<open>
  \<open>ProcessOnce\<close>: the caller's loop searches, then starts a goroutine per item of the page, then searches
  again; \<open>clock\<close> says which scores \<open>HeightScore(0, 0)\<close> may read;
  it returns when the search is empty and its goroutines have ended, or at once with the
  error of a search. A goroutine holds its place in the limiter until its handler has returned.
\<close>

datatype 'e po_pc = Searching | Paging "scored_member list" | Waiting | Returned "'e option"

record ('s, 'e) process_once =
  po_store :: 's
  po_at :: "'e po_pc"
  po_running :: "bytes list"

inductive po_step ::
  "'s store_ops \<Rightarrow> bytes \<Rightarrow> 32 word \<Rightarrow> nat \<Rightarrow> (f64 \<Rightarrow> bool) \<Rightarrow> (bytes \<Rightarrow> 's \<Rightarrow> 's \<Rightarrow> bool) \<Rightarrow>
    ('s, err) process_once \<Rightarrow> ('s, err) process_once \<Rightarrow> bool"
  for S key page cap clock handle where
  P_error: "po_at p = Searching \<Longrightarrow> clock to \<Longrightarrow> st_Search S (queue_search key page to) (po_store p) = Inl e \<Longrightarrow>
    po_step S key page cap clock handle p (p\<lparr>po_at := Returned (Some e)\<rparr>)"
| P_empty: "po_at p = Searching \<Longrightarrow> clock to \<Longrightarrow> st_Search S (queue_search key page to) (po_store p) = Inr [] \<Longrightarrow>
    po_step S key page cap clock handle p (p\<lparr>po_at := Waiting\<rparr>)"
| P_page: "po_at p = Searching \<Longrightarrow> clock to \<Longrightarrow> st_Search S (queue_search key page to) (po_store p) = Inr items \<Longrightarrow> items \<noteq> [] \<Longrightarrow>
    po_step S key page cap clock handle p (p\<lparr>po_at := Paging items\<rparr>)"
| P_again: "po_at p = Paging [] \<Longrightarrow> po_step S key page cap clock handle p (p\<lparr>po_at := Searching\<rparr>)"
| P_spawn: "po_at p = Paging (item # items) \<Longrightarrow> length (po_running p) < cap \<Longrightarrow>
    po_step S key page cap clock handle p (p\<lparr>po_at := Paging items, po_running := po_running p @ [Member item]\<rparr>)"
| P_handled: "n < length (po_running p) \<Longrightarrow> handle (po_running p ! n) (po_store p) s' \<Longrightarrow>
    po_step S key page cap clock handle p (p\<lparr>po_store := s', po_running := take n (po_running p) @ drop (Suc n) (po_running p)\<rparr>)"
| P_return: "po_at p = Waiting \<Longrightarrow> po_running p = [] \<Longrightarrow>
    po_step S key page cap clock handle p (p\<lparr>po_at := Returned None\<rparr>)"

inductive po_reach ::
  "'s store_ops \<Rightarrow> bytes \<Rightarrow> 32 word \<Rightarrow> nat \<Rightarrow> (f64 \<Rightarrow> bool) \<Rightarrow> (bytes \<Rightarrow> 's \<Rightarrow> 's \<Rightarrow> bool) \<Rightarrow> 's \<Rightarrow> ('s, err) process_once \<Rightarrow> bool"
  for S key page cap clock handle s0 where
  po_init: "po_reach S key page cap clock handle s0 \<lparr>po_store = s0, po_at = Searching, po_running = []\<rparr>"
| po_next: "po_reach S key page cap clock handle s0 p \<Longrightarrow> po_step S key page cap clock handle p p' \<Longrightarrow>
    po_reach S key page cap clock handle s0 p'"

text \<open>While the handlers keep the search non-empty, the loop goes on.\<close>

definition po_loops :: "('s \<Rightarrow> bool) \<Rightarrow> ('s, 'e) process_once \<Rightarrow> bool" where
  "po_loops I p \<longleftrightarrow> I (po_store p) \<and> (case po_at p of Searching \<Rightarrow> True | Paging items \<Rightarrow> True | _ \<Rightarrow> False)"

lemma po_loops_step:
  assumes "po_step S key page cap clock handle p p'" "po_loops I p"
    and "\<And>i s s'. I s \<Longrightarrow> handle i s s' \<Longrightarrow> I s'"
    and "\<And>s to. I s \<Longrightarrow> clock to \<Longrightarrow> \<exists>x xs. st_Search S (queue_search key page to) s = Inr (x # xs)"
  shows "po_loops I p'"
  using assms(1,2)
proof (induction rule: po_step.induct)
  case (P_error p to e)
  with assms(4)[of "po_store p" to] show ?case by (auto simp: po_loops_def)
next
  case (P_empty p to)
  with assms(4)[of "po_store p" to] show ?case by (auto simp: po_loops_def)
qed (auto simp: po_loops_def intro: assms(3))

lemma po_loops_reach:
  assumes "po_reach S key page cap clock handle s0 p" "I s0"
    and "\<And>i s s'. I s \<Longrightarrow> handle i s s' \<Longrightarrow> I s'"
    and "\<And>s to. I s \<Longrightarrow> clock to \<Longrightarrow> \<exists>x xs. st_Search S (queue_search key page to) s = Inr (x # xs)"
  shows "po_loops I p"
  using assms(1)
proof (induction rule: po_reach.induct)
  case po_init
  show ?case using assms(2) by (simp add: po_loops_def)
next
  case (po_next p p')
  show ?case by (rule po_loops_step[OF po_next(2,3) assms(3,4)])
qed

lemma po_loops_steps:
  assumes "po_loops I p" "0 < cap" "\<And>i s. \<exists>s'. handle i s s'" "clock t"
    and "\<And>s to. I s \<Longrightarrow> clock to \<Longrightarrow> \<exists>x xs. st_Search S (queue_search key page to) s = Inr (x # xs)"
  shows "\<exists>p'. po_step S key page cap clock handle p p'"
proof (cases "po_at p")
  case Searching
  then obtain x xs where "st_Search S (queue_search key page t) (po_store p) = Inr (x # xs)"
    using assms(1,4) assms(5)[of "po_store p" t] by (auto simp: po_loops_def)
  with Searching show ?thesis using po_step.P_page[of p clock t S key page "x # xs" cap handle] assms(4) by blast
next
  case (Paging items)
  show ?thesis
  proof (cases "items = [] \<or> length (po_running p) < cap")
    case True
    then show ?thesis using po_step.P_again[of p] po_step.P_spawn[of p] Paging by (metis neq_Nil_conv)
  next
    case False
    then have n: "0 < length (po_running p)" using assms(2) by linarith
    obtain s' where "handle (po_running p ! 0) (po_store p) s'" using assms(3) by blast
    then show ?thesis using po_step.P_handled[OF n] by blast
  qed
qed (use assms(1) in \<open>auto simp: po_loops_def\<close>)

end
