(* ===== verification/WorkerProps.thy ===== *)
theory WorkerProps
  imports Worker StoreProps
begin

text \<open>
  What the worker promises over the Badger store: it never blocks, it loses no item, and what its
  one-time variant does.
\<close>

context badger_state
begin

text \<open>A search of one key by union, however small its page, is empty only if no score is within the bounds.\<close>

lemma queue_search_nonempty:
  assumes nf: "nul_free key" and i: "zscore (eview E db) key i = Some sc" and t: "\<not> f64_lt to sc"
  shows "\<exists>x xs. badger_Search E (queue_search key page to) db = Inr (x # xs)"
proof -
  let ?all = "queue_search key 0 to" and ?cfg = "queue_search key page to"
  have nfs: "list_all nul_free (Keys ?all)" "list_all nul_free (Keys ?cfg)" using nf by (simp_all add: queue_search_def)
  obtain xs where xs: "badger_Search E ?all db = Inr xs" "set (map (\<lambda>x. (Member x, Score x)) xs) = searched ?all"
    using union_search[OF nfs(1)] by (auto simp: queue_search_def)
  have "(i, sc) \<in> searched ?all"
    using i t by (auto simp: searched_def queue_search_def score_in_range_def)
  then have "xs \<noteq> []" using xs(2) by auto
  moreover have "badger_Search E ?cfg db = Inr (limited ?cfg 0 xs)"
    using badger_search_merge[OF nfs(2)] badger_search_merge[OF nfs(1)] xs(1)
    by (auto simp: queue_search_def limited_def take_map)
  moreover have "limited ?cfg 0 xs \<noteq> []" if "xs \<noteq> []"
    using that by (auto simp: limited_def queue_search_def unat_eq_0)
  ultimately show ?thesis by (metis neq_Nil_conv)
qed

end

context badger_engine
begin

lemma store_contract: "store_laws (badger_store E) (store_ok E) (\<lambda>db. hash_view (eview E db)) (\<lambda>db. zscore (eview E db))
    (\<lambda>db. set_view (eview E db)) (\<lambda>db. kv_view (eview E db)) key_sep nul_free"
  by (rule store.store_laws_axioms)

lemma due_search:
  assumes "nul_free key" "store_ok E s" "badger_ZScore E key i s = Inr sc" "\<not> f64_lt to sc"
  shows "\<exists>x xs. st_Search (badger_store E) (queue_search key page to) s = Inr (x # xs)"
proof -
  have st: "badger_state E s"
    using assms(2) badger_engine_axioms by (simp add: badger_state_def badger_state_axioms_def store_ok_def)
  have "zscore (eview E s) key i = Some sc" using assms(3) by (auto simp: ZScore_eview split: option.splits)
  from badger_state.queue_search_nonempty[OF st assms(1) this assms(4), of page] show ?thesis
    by (simp add: badger_store_def)
qed

end

text \<open>The laws that the worker relies on, over Badger.\<close>

lemma badger_worker_env:
  assumes "badger_engine E" "nul_free key"
    and "\<And>i s s'. store_ok E s \<Longrightarrow> handle i s s' \<Longrightarrow>
      store_ok E s' \<and> dom (zscore (eview E s) key) \<subseteq> dom (zscore (eview E s') key)"
    and "\<And>s s'. store_ok E s \<Longrightarrow> env s s' \<Longrightarrow>
      store_ok E s' \<and> dom (zscore (eview E s) key) \<subseteq> dom (zscore (eview E s') key)"
  shows "worker_env (badger_store E) (store_ok E) (\<lambda>db. hash_view (eview E db)) (\<lambda>db. zscore (eview E db))
    (\<lambda>db. set_view (eview E db)) (\<lambda>db. kv_view (eview E db)) key_sep nul_free key handle env"
  by (rule worker_env.intro[OF badger_engine.store_contract[OF assms(1)]], rule worker_env_axioms.intro)
    (fact assms(2), erule (1) assms(3), erule (1) assms(4))

interpretation idle: worker_env "badger_store mem_engine" "store_ok mem_engine" "\<lambda>db. hash_view (eview mem_engine db)"
  "\<lambda>db. zscore (eview mem_engine db)" "\<lambda>db. set_view (eview mem_engine db)" "\<lambda>db. kv_view (eview mem_engine db)"
  key_sep nul_free "''a''" "\<lambda>i s s'. s' = s" "\<lambda>s s'. s' = s"
  by (rule badger_worker_env[OF mem.badger_engine_axioms]) (simp_all add: nul_free_code)

section \<open>The worker\<close>

text \<open>A run over the small store: a page is fetched, its first item taken, and its handler succeeds.\<close>

abbreviation idle_reach :: "mem_db worker \<Rightarrow> bool" where
  "idle_reach \<equiv> wk_reach (badger_store mem_engine) ''a'' 100 2 (\<lambda>i s s'. s' = s) (\<lambda>s s'. s' = s) small_db"

lemma small_ok: "store_ok mem_engine small_db"
  using badger_engine.reach_zinv[OF mem.badger_engine_axioms small_reach] by (simp add: store_ok_def)

lemma small_due: "\<exists>x xs. st_Search (badger_store mem_engine) (queue_search ''a'' 100 0) small_db = Inr (x # xs)"
  by (rule badger_engine.due_search[OF mem.badger_engine_axioms, of _ _ "''y''" 0])
    (simp_all add: nul_free_code small_ok small_ZScore)

lemma idle_fetch:
  obtains x xs w where "idle_reach w" "wk_main w = Taking" "wk_pending w = x # xs" "wk_inflight w = {}" "wk_limiter w = 0" "wk_running w = []"
proof -
  obtain x xs where "st_Search (badger_store mem_engine) (queue_search ''a'' 100 0) small_db = Inr (x # xs)"
    using small_due by blast
  then have "idle_reach ((wk_start small_db)\<lparr>wk_pending := x # xs, wk_main := Taking\<rparr>)"
    by (intro wk_reach.wk_next[OF wk_reach.wk_init] wk_step.M_fetch) (simp_all add: wk_start_def)
  then show thesis by (rule that[of _ x xs]) (simp_all add: wk_start_def)
qed

lemma idle_success: "\<exists>w. idle_reach w \<and> wk_succeeded w \<noteq> {}"
proof -
  obtain x xs w where w: "idle_reach w" "wk_main w = Taking" "wk_pending w = x # xs" "wk_inflight w = {}" "wk_limiter w = 0" "wk_running w = []"
    by (rule idle_fetch)
  let ?w = "w\<lparr>wk_pending := xs, wk_inflight := {Member x}, wk_main := Spawning (Member x) (Score x)\<rparr>"
  have "idle_reach ?w" using wk_reach.wk_next[OF w(1) wk_step.M_take[OF w(2,3)]] w(4) by simp
  then have r: "idle_reach (?w\<lparr>wk_main := Selecting, wk_limiter := Suc (wk_limiter ?w), wk_running := wk_running ?w @ [Handling (Member x) (Score x)]\<rparr>)"
    by (rule wk_reach.wk_next, intro wk_step.M_spawn) (simp_all add: w(5))
  show ?thesis
    by (rule exI, rule conjI, rule wk_reach.wk_next[OF r], rule wk_step.G_ok[where n = 0 and i = "Member x" and sc = "Score x"])
      (simp_all add: w(6))
qed



text \<open>
  C26: over a Badger store, as long as the handlers and the other users do not take items from the queue, no item
  is lost: in every state the worker reaches, an item that was queued is still in the queue or its handler has succeeded.
\<close>

theorem worker_keeps_items:
  assumes "badger_engine E" "nul_free key"
    and "\<And>i s s'. store_ok E s \<Longrightarrow> handle i s s' \<Longrightarrow>
      store_ok E s' \<and> dom (zscore (eview E s) key) \<subseteq> dom (zscore (eview E s') key)"
    and "\<And>s s'. store_ok E s \<Longrightarrow> env s s' \<Longrightarrow>
      store_ok E s' \<and> dom (zscore (eview E s) key) \<subseteq> dom (zscore (eview E s') key)"
    and "store_ok E s0" "wk_reach (badger_store E) key page cap handle env s0 w" "badger_ZScore E key i s0 = Inr sc"
  shows "i \<in> wk_succeeded w \<or> (\<exists>sc'. badger_ZScore E key i (wk_store w) = Inr sc')"
proof -
  have "dom (zscore (eview E s0) key) \<subseteq> dom (zscore (eview E (wk_store w)) key) \<union> wk_succeeded w"
    by (rule worker_env.queue_kept[OF badger_worker_env[OF assms(1,2,3,4)] assms(6,5)])
  moreover have "zscore (eview E s0) key i = Some sc"
    using assms(7) kv_engine.ZScore_eview[OF badger_engine.axioms(1)[OF assms(1)]] by (auto split: option.splits)
  ultimately show ?thesis
    using kv_engine.ZScore_eview[OF badger_engine.axioms(1)[OF assms(1)]] by fastforce
qed

lemma worker_keeps_items_witness:
  "\<exists>w. idle_reach w \<and> wk_succeeded w \<noteq> {} \<and>
     (\<forall>i\<in>{''x'', ''y''}. i \<in> wk_succeeded w \<or> (\<exists>sc. badger_ZScore mem_engine ''a'' i (wk_store w) = Inr sc))"
proof -
  obtain w where w: "idle_reach w" "wk_succeeded w \<noteq> {}" using idle_success by blast
  have "nul_free ''a''" by (simp add: nul_free_code)
  note kept = worker_keeps_items[OF mem.badger_engine_axioms this _ _ small_ok w(1)]
  show ?thesis using w kept[of "''x''" 1] kept[of "''y''" 0] by (auto simp: small_ZScore)
qed

text \<open>
  C27: \<open>ProcessOnce\<close> takes no item from the queue, so while an item that is due stays queued, which is what
  handlers that leave the queue to the worker make of it, the call does not return: it keeps handing out the same
  items, and can always go on.
\<close>

theorem process_once_keeps_going:
  assumes "badger_engine E" "nul_free key" and "0 < cap" "\<And>j s. \<exists>s'. handle j s s'" "clock t"
    and "\<And>j s s'. store_ok E s \<Longrightarrow> handle j s s' \<Longrightarrow> store_ok E s' \<and> badger_ZScore E key i s' = badger_ZScore E key i s"
    and "store_ok E s0" "badger_ZScore E key i s0 = Inr sc" "\<And>to. clock to \<Longrightarrow> \<not> f64_lt to sc"
    and "po_reach (badger_store E) key page cap clock handle s0 p"
  shows "(\<forall>e. po_at p \<noteq> Returned e) \<and> (\<exists>p'. po_step (badger_store E) key page cap clock handle p p')"
proof -
  let ?I = "\<lambda>s. store_ok E s \<and> badger_ZScore E key i s = Inr sc"
  have search: "\<exists>x xs. st_Search (badger_store E) (queue_search key page to) s = Inr (x # xs)" if "?I s" "clock to" for s to
    using badger_engine.due_search[OF assms(1,2), of s i sc to page] that assms(9)[of to] by simp
  have keeps: "?I s'" if "?I s" "handle j s s'" for j s s' using assms(6)[of s j s'] that by simp
  have "po_loops ?I p"
    using assms(7,8) by (intro po_loops_reach[OF assms(10)]) (simp, erule (1) keeps, erule (1) search)
  then have "\<exists>p'. po_step (badger_store E) key page cap clock handle p p'"
    by (rule po_loops_steps[where I = ?I and t = t]) (use assms(3,4,5) in simp_all, rule search, simp_all)
  moreover have "\<forall>e. po_at p \<noteq> Returned e" using \<open>po_loops ?I p\<close> by (auto simp: po_loops_def)
  ultimately show ?thesis by blast
qed

lemma process_once_keeps_going_witness:
  "\<exists>p p'. po_reach (badger_store mem_engine) ''a'' 100 1 (\<lambda>t. t = 0) (\<lambda>i s s'. s' = s) small_db p \<and>
     (\<exists>item items. po_at p = Paging (item # items)) \<and>
     po_step (badger_store mem_engine) ''a'' 100 1 (\<lambda>t. t = 0) (\<lambda>i s s'. s' = s) p p'"
proof -
  obtain x xs where s: "st_Search (badger_store mem_engine) (queue_search ''a'' 100 0) small_db = Inr (x # xs)"
    using small_due by blast
  let ?p = "\<lparr>po_store = small_db, po_at = Paging (x # xs), po_running = []\<rparr>"
  have r: "po_reach (badger_store mem_engine) ''a'' 100 1 (\<lambda>t. t = 0) (\<lambda>i s s'. s' = s) small_db ?p"
    by (rule po_reach.po_next[OF po_reach.po_init po_step.P_page[where p = "\<lparr>po_store = small_db, po_at = Searching, po_running = []\<rparr>"
          and to = 0 and items = "x # xs", simplified]]) (simp_all add: s)
  have "nul_free ''a''" by (simp add: nul_free_code)
  from process_once_keeps_going[OF mem.badger_engine_axioms this _ _ _ _ small_ok _ _ r, of 0 "''y''" 0]
  obtain p' where "po_step (badger_store mem_engine) ''a'' 100 1 (\<lambda>t. t = 0) (\<lambda>i s s'. s' = s) ?p p'"
    by (auto simp: small_ZScore)
  then show ?thesis using r by (intro exI[of _ ?p] exI[of _ p'] conjI) simp_all
qed

end
