(* ===== verification/Beef.thy ===== *)
theory Beef
  imports Txo LruList Engine
begin

text \<open>
  \<open>pkg/beef\<close>: transactions with their merkle proofs (BEEF), kept by a chain of storages. Here are the
  conversions between BEEF, raw transactions and proofs, the providers of the chain (memory, Badger, a
  remote server, JungleBus), and the chain's operations. The transaction library is a parameter.
\<close>

section \<open>Transactions\<close>

text \<open>
  A transaction of the library: what the code does not look into, its merkle proof if it has one, and
  its inputs, each with the transaction it spends, once that has been filled in.
\<close>

datatype ('b, 'mp) tx = Tx (tx_body: 'b) (MerklePath: "'mp option") (Inputs: "(txid \<times> ('b, 'mp) tx option) list")

abbreviation SourceTXID :: "txid \<times> ('b, 'mp) tx option \<Rightarrow> txid" where "SourceTXID \<equiv> fst"

abbreviation SourceTransaction :: "txid \<times> ('b, 'mp) tx option \<Rightarrow> ('b, 'mp) tx option" where "SourceTransaction \<equiv> snd"

datatype data_format = RawTx | RawTxAndBumpIndex | TxIDOnly

record ('b, 'mp) beef_tx =
  bt_Transaction :: "('b, 'mp) tx option"
  bt_BumpIndex :: int
  bt_DataFormat :: data_format

text \<open>The map of transactions is a list of pairs in the order of the \<open>range\<close> that walks it.\<close>

record ('b, 'mp) beef =
  bf_Version :: "32 word"
  bf_BUMPs :: "'mp list"
  bf_Transactions :: "(txid \<times> ('b, 'mp) beef_tx) list"

text \<open>The calls of the library; its errors are their messages. A successful parse yields a BEEF.\<close>

record ('b, 'mp) beef_lib =
  BEEF_V2 :: "32 word"
  ParseBeef :: "bytes \<Rightarrow> string + ('b, 'mp) beef \<times> ('b, 'mp) tx option \<times> txid option"
  AtomicBytes :: "('b, 'mp) beef \<Rightarrow> txid \<Rightarrow> string + bytes"
  NewTransactionFromBytes :: "bytes \<Rightarrow> string + ('b, 'mp) tx"
  NewMerklePathFromBinary :: "bytes \<Rightarrow> string + 'mp"
  tx_Bytes :: "('b, 'mp) tx \<Rightarrow> bytes"
  mp_Bytes :: "'mp \<Rightarrow> bytes"
  TxID :: "('b, 'mp) tx \<Rightarrow> txid"
  MergeBeef :: "('b, 'mp) beef \<Rightarrow> ('b, 'mp) beef \<Rightarrow> string + ('b, 'mp) beef"
  MergeTransaction :: "('b, 'mp) beef \<Rightarrow> ('b, 'mp) tx \<Rightarrow> string + ('b, 'mp) beef"
  FindTransactionByHash :: "('b, 'mp) beef \<Rightarrow> txid \<Rightarrow> ('b, 'mp) tx option"
  FindTransactionForSigningByHash :: "('b, 'mp) beef \<Rightarrow> txid \<Rightarrow> ('b, 'mp) tx option"
  FindTransaction :: "('b, 'mp) beef \<Rightarrow> txid \<Rightarrow> ('b, 'mp) tx option"
  beef_IsValid :: "('b, 'mp) beef \<Rightarrow> bool"

datatype beef_err = ErrNotFound | ErrMissingInputs txid | BeefErr string | CtxErr

text \<open>An error of the library, passed on.\<close>

definition lib_err :: "string + 'a \<Rightarrow> beef_err + 'a" where
  "lib_err r = (case r of Inl e \<Rightarrow> Inl (BeefErr e) | Inr x \<Rightarrow> Inr x)"

lemma lib_err_simps [simp]: "lib_err (Inl e) = Inl (BeefErr e)" "lib_err (Inr x) = Inr x"
  "lib_err r = Inr y \<longleftrightarrow> r = Inr y"
  by (auto simp: lib_err_def split: sum.splits)

fun set_MerklePath :: "'mp \<Rightarrow> ('b, 'mp) tx \<Rightarrow> ('b, 'mp) tx" where
  "set_MerklePath mp (Tx b _ ins) = Tx b (Some mp) ins"

section \<open>BEEF, raw transactions and proofs\<close>

text \<open>A slice that may be nil.\<close>

type_synonym slice = "bytes option"

definition slen :: "slice \<Rightarrow> nat" where
  "slen s = (case s of None \<Rightarrow> 0 | Some b \<Rightarrow> length b)"

definition splitBEEF :: "('b, 'mp) beef_lib \<Rightarrow> bytes \<Rightarrow> beef_err + bytes \<times> slice" where
  "splitBEEF L beefBytes =
     rbind (lib_err (ParseBeef L beefBytes)) (\<lambda>(_, tx, _).
       case tx of
         None \<Rightarrow> Inl (BeefErr ''no transaction in BEEF'')
       | Some tx \<Rightarrow> Inr (tx_Bytes L tx, map_option (mp_Bytes L) (MerklePath tx)))"

definition createIndividualBEEF :: "('b, 'mp) beef_lib \<Rightarrow> txid \<Rightarrow> ('b, 'mp) tx \<Rightarrow> string + bytes" where
  "createIndividualBEEF L txid tx =
     AtomicBytes L
       \<lparr>bf_Version = BEEF_V2 L,
        bf_BUMPs = (case MerklePath tx of None \<Rightarrow> [] | Some mp \<Rightarrow> [mp]),
        bf_Transactions = [(txid, \<lparr>bt_Transaction = Some tx,
           bt_BumpIndex = (if MerklePath tx \<noteq> None then 0 else -1),
           bt_DataFormat = (if MerklePath tx \<noteq> None then RawTxAndBumpIndex else RawTx)\<rparr>)]\<rparr> txid"

definition assembleBEEF :: "('b, 'mp) beef_lib \<Rightarrow> txid \<Rightarrow> bytes \<Rightarrow> slice \<Rightarrow> string + bytes" where
  "assembleBEEF L txid rawTx proof =
     rbind (NewTransactionFromBytes L rawTx) (\<lambda>tx.
       rbind (if 0 < slen proof
              then rbind (NewMerklePathFromBinary L (the proof)) (\<lambda>mp. Inr (set_MerklePath mp tx))
              else Inr tx)
         (createIndividualBEEF L txid))"

section \<open>The memory provider\<close>

record lru_entry =
  en_rawTx :: slice
  en_proof :: slice

type_synonym beef_lru = "(txid, lru_entry) lru"

definition entry_size :: "lru_entry \<Rightarrow> int" where
  "entry_size e = int (slen (en_rawTx e)) + int (slen (en_proof e))"

function evictIfNeeded :: "beef_lru \<Rightarrow> beef_lru" where
  "evictIfNeeded C =
     (if l_size C > l_max C \<and> l_list C \<noteq> [] then
        (case list_Back (l_list C) of
           None \<Rightarrow> C
         | Some (e, k) \<Rightarrow>
             evictIfNeeded ((lru_drop k e C)\<lparr>l_size := l_size C - (case l_cache C k of None \<Rightarrow> 0 | Some en \<Rightarrow> entry_size en)\<rparr>))
      else C)"
  by pat_completeness auto
termination
proof (relation "measure (\<lambda>C. length (l_list C))")
  fix C :: beef_lru and x e k
  assume "l_size C > l_max C \<and> l_list C \<noteq> []" "list_Back (l_list C) = Some x" "(e, k) = x"
  then have "last (l_list C) = (e, k)" "l_list C \<noteq> []" by (auto simp: list_Back_def)
  then have "(e, k) \<in> set (l_list C)" by (metis last_in_set)
  then have "length (filter (\<lambda>x. fst x \<noteq> e) (l_list C)) < length (l_list C)"
    by (intro length_filter_less[where x = "(e, k)"]) auto
  then show "((lru_drop k e C)\<lparr>l_size := l_size C - (case l_cache C k of None \<Rightarrow> 0 | Some en \<Rightarrow> entry_size en)\<rparr>, C)
      \<in> measure (\<lambda>C. length (l_list C))"
    by (simp add: lru_drop_def list_Remove_def)
qed simp

declare evictIfNeeded.simps [simp del]

text \<open>An entry is overwritten in place, and keeps its proof when the new one is empty.\<close>

definition put_over :: "slice \<Rightarrow> slice \<Rightarrow> lru_entry \<Rightarrow> lru_entry" where
  "put_over rawTx proof en =
     (let en1 = en\<lparr>en_rawTx := rawTx\<rparr> in if 0 < slen proof then en1\<lparr>en_proof := proof\<rparr> else en1)"

definition putEntry :: "txid \<Rightarrow> slice \<Rightarrow> slice \<Rightarrow> beef_lru \<Rightarrow> beef_lru" where
  "putEntry txid rawTx proof C =
     (let newSize = int (slen rawTx) + int (slen proof) in
      evictIfNeeded
        (case l_cache C txid of
           Some existing \<Rightarrow>
             lru_touch txid (C\<lparr>l_size := l_size C + (newSize - entry_size existing),
               l_cache := (l_cache C)(txid \<mapsto> put_over rawTx proof existing)\<rparr>)
         | None \<Rightarrow>
             let C1 = lru_push txid \<lparr>en_rawTx = rawTx, en_proof = (if 0 < slen proof then proof else None)\<rparr> C
             in C1\<lparr>l_size := l_size C1 + newSize\<rparr>))"

definition lru_entry_of :: "txid \<Rightarrow> beef_lru \<Rightarrow> lru_entry option" where
  "lru_entry_of txid C =
     (case l_cache C txid of None \<Rightarrow> None | Some en \<Rightarrow> if en_rawTx en = None then None else Some en)"

definition lru_Get :: "('b, 'mp) beef_lib \<Rightarrow> txid \<Rightarrow> (beef_lru, beef_err, bytes) sm" where
  "lru_Get L txid C =
     (case lru_entry_of txid C of
        None \<Rightarrow> (Inl ErrNotFound, C)
      | Some en \<Rightarrow> (lib_err (assembleBEEF L txid (the (en_rawTx en)) (en_proof en)), lru_touch txid C))"

definition lru_Put :: "('b, 'mp) beef_lib \<Rightarrow> txid \<Rightarrow> bytes \<Rightarrow> (beef_lru, beef_err, unit) sm" where
  "lru_Put L txid beefBytes C =
     (case splitBEEF L beefBytes of
        Inl e \<Rightarrow> (Inl e, C)
      | Inr (rawTx, proof) \<Rightarrow> (Inr (), putEntry txid (Some rawTx) proof C))"

definition lru_GetRawTx :: "txid \<Rightarrow> (beef_lru, beef_err, bytes) sm" where
  "lru_GetRawTx txid C =
     (case lru_entry_of txid C of
        None \<Rightarrow> (Inl ErrNotFound, C)
      | Some en \<Rightarrow> (Inr (the (en_rawTx en)), lru_touch txid C))"

definition lru_GetProof :: "txid \<Rightarrow> (beef_lru, beef_err, bytes) sm" where
  "lru_GetProof txid C =
     (case l_cache C txid of
        None \<Rightarrow> (Inl ErrNotFound, C)
      | Some en \<Rightarrow>
          (case en_proof en of None \<Rightarrow> (Inl ErrNotFound, C) | Some p \<Rightarrow> (Inr p, lru_touch txid C)))"

definition lru_Close :: "beef_lru \<Rightarrow> beef_lru" where
  "lru_Close C = C\<lparr>l_cache := Map.empty, l_index := Map.empty, l_list := [], l_size := 0\<rparr>"

definition lru_Stats :: "beef_lru \<Rightarrow> int \<times> int \<times> nat" where
  "lru_Stats C = (l_size C, l_max C, length (l_list C))"

section \<open>The other providers\<close>

text \<open>A provider works on an arbitrary world. \<open>Close\<close> is left out.\<close>

record 'w beef_storage =
  bs_Get :: "txid \<Rightarrow> ('w, beef_err, bytes) sm"
  bs_Put :: "txid \<Rightarrow> bytes \<Rightarrow> ('w, beef_err, unit) sm"
  bs_UpdateMerklePath :: "txid \<Rightarrow> ('w, beef_err, bytes) sm"
  bs_GetRawTx :: "txid \<Rightarrow> ('w, beef_err, bytes) sm"
  bs_GetProof :: "txid \<Rightarrow> ('w, beef_err, bytes) sm"

text \<open>The memory provider, for a cache that is the part of the world read and written by a pair of functions.\<close>

definition on_part :: "('w \<Rightarrow> 'c) \<Rightarrow> ('c \<Rightarrow> 'w \<Rightarrow> 'w) \<Rightarrow> ('c, 'e, 'a) sm \<Rightarrow> ('w, 'e, 'a) sm" where
  "on_part get put m w = (case m (get w) of (r, c) \<Rightarrow> (r, put c w))"

definition LRUBeefStorage :: "('b, 'mp) beef_lib \<Rightarrow> ('w \<Rightarrow> beef_lru) \<Rightarrow> (beef_lru \<Rightarrow> 'w \<Rightarrow> 'w) \<Rightarrow> 'w beef_storage" where
  "LRUBeefStorage L get put =
     \<lparr> bs_Get = (\<lambda>txid. on_part get put (lru_Get L txid)), bs_Put = (\<lambda>txid b. on_part get put (lru_Put L txid b)),
       bs_UpdateMerklePath = (\<lambda>txid. sret []), bs_GetRawTx = (\<lambda>txid. on_part get put (lru_GetRawTx txid)),
       bs_GetProof = (\<lambda>txid. on_part get put (lru_GetProof txid)) \<rparr>"

definition beefKey :: "txid \<Rightarrow> bytes" where
  "beefKey txid = ''beef:'' @ take 32 (txid @ replicate 32 (CHR 0x00))"

definition bg_Get :: "'w engine \<Rightarrow> txid \<Rightarrow> 'w \<Rightarrow> beef_err + bytes" where
  "bg_Get E txid db =
     (case tx_get E db (beefKey txid) of
        Inr b \<Rightarrow> Inr b
      | Inl e \<Rightarrow> if e = ErrKeyNotFound then Inl ErrNotFound else Inl (BeefErr ''failed to get beef''))"

text \<open>One transaction, with no retry on a conflict.\<close>

definition bg_Put :: "'w engine \<Rightarrow> txid \<Rightarrow> bytes \<Rightarrow> ('w, beef_err, unit) sm" where
  "bg_Put E txid b db =
     (case tx_set E db (beefKey txid) b of
        Inl e \<Rightarrow> (Inl (BeefErr ''put''), db)
      | Inr db' \<Rightarrow> (case tx_commit E db db' 0 of None \<Rightarrow> (Inr (), db') | Some e \<Rightarrow> (Inl (BeefErr ''commit''), db)))"

text \<open>What the providers that keep whole BEEFs answer for a raw transaction and for a proof.\<close>

definition raw_of :: "('b, 'mp) beef_lib \<Rightarrow> beef_err + bytes \<Rightarrow> beef_err + bytes" where
  "raw_of L r = rbind r (\<lambda>b. rbind (splitBEEF L b) (\<lambda>(rawTx, proof). Inr rawTx))"

definition proof_of :: "('b, 'mp) beef_lib \<Rightarrow> beef_err + bytes \<Rightarrow> beef_err + bytes" where
  "proof_of L r = rbind r (\<lambda>b. rbind (splitBEEF L b) (\<lambda>(rawTx, proof).
     if slen proof = 0 then Inl ErrNotFound else Inr (the proof)))"

definition BadgerBeefStorage :: "('b, 'mp) beef_lib \<Rightarrow> 'w engine \<Rightarrow> 'w beef_storage" where
  "BadgerBeefStorage L E =
     \<lparr> bs_Get = (\<lambda>txid. sread (bg_Get E txid)), bs_Put = bg_Put E, bs_UpdateMerklePath = (\<lambda>txid. sret []),
       bs_GetRawTx = (\<lambda>txid. sread (\<lambda>db. raw_of L (bg_Get E txid db))),
       bs_GetProof = (\<lambda>txid. sread (\<lambda>db. proof_of L (bg_Get E txid db))) \<rparr>"

text \<open>
  A remote server: \<open>fetch\<close> is the answer to a request, a status and a body or a transport error; the
  paths are built from the id in display order, which is the library's \<open>String\<close>.
\<close>

definition http_fetch :: "(bytes \<Rightarrow> string + nat \<times> bytes) \<Rightarrow> bytes \<Rightarrow> beef_err + bytes" where
  "http_fetch fetch path =
     rbind (lib_err (fetch path)) (\<lambda>(status, body).
       if status = 404 then Inl ErrNotFound
       else if status \<noteq> 200 then Inl (BeefErr ''beef remote: unexpected status'')
       else Inr body)"

definition parses :: "('b, 'mp) beef_lib \<Rightarrow> bytes \<Rightarrow> beef_err + bytes" where
  "parses L b = rbind (lib_err (ParseBeef L b)) (\<lambda>_. Inr b)"

definition http_Get :: "('b, 'mp) beef_lib \<Rightarrow> (bytes \<Rightarrow> string + nat \<times> bytes) \<Rightarrow> (txid \<Rightarrow> bytes) \<Rightarrow> txid \<Rightarrow> beef_err + bytes" where
  "http_Get L fetch shown txid = rbind (http_fetch fetch (''/'' @ shown txid)) (parses L)"

definition HTTPBeefStorage :: "('b, 'mp) beef_lib \<Rightarrow> (bytes \<Rightarrow> string + nat \<times> bytes) \<Rightarrow> (txid \<Rightarrow> bytes) \<Rightarrow> 'w beef_storage" where
  "HTTPBeefStorage L fetch shown =
     \<lparr> bs_Get = (\<lambda>txid. slift (http_Get L fetch shown txid)), bs_Put = (\<lambda>txid b. sret ()),
       bs_UpdateMerklePath = (\<lambda>txid. slift (http_Get L fetch shown txid)),
       bs_GetRawTx = (\<lambda>txid. slift (http_fetch fetch (''/'' @ shown txid @ ''/tx''))),
       bs_GetProof = (\<lambda>txid. slift (http_fetch fetch (''/'' @ shown txid @ ''/proof''))) \<rparr>"

text \<open>The client of JungleBus, if one is configured; \<open>None\<close> in its answers is the client's not-found error.\<close>

record jb_client =
  GetBeef :: "txid \<Rightarrow> string option + bytes"
  GetRawTransaction :: "txid \<Rightarrow> string option + bytes"
  GetProof :: "txid \<Rightarrow> string option + bytes"

definition jb_call :: "jb_client option \<Rightarrow> (jb_client \<Rightarrow> txid \<Rightarrow> string option + bytes) \<Rightarrow> txid \<Rightarrow> beef_err + bytes" where
  "jb_call client f txid =
     (case client of
        None \<Rightarrow> Inl ErrNotFound
      | Some c \<Rightarrow> (case f c txid of Inl None \<Rightarrow> Inl ErrNotFound | Inl (Some e) \<Rightarrow> Inl (BeefErr e) | Inr b \<Rightarrow> Inr b))"

definition jb_Get :: "('b, 'mp) beef_lib \<Rightarrow> jb_client option \<Rightarrow> txid \<Rightarrow> beef_err + bytes" where
  "jb_Get L client txid = rbind (jb_call client GetBeef txid) (parses L)"

definition JunglebusBeefStorage :: "('b, 'mp) beef_lib \<Rightarrow> jb_client option \<Rightarrow> 'w beef_storage" where
  "JunglebusBeefStorage L client =
     \<lparr> bs_Get = (\<lambda>txid. slift (jb_Get L client txid)), bs_Put = (\<lambda>txid b. sret ()),
       bs_UpdateMerklePath = (\<lambda>txid. slift (jb_Get L client txid)),
       bs_GetRawTx = (\<lambda>txid. slift (jb_call client GetRawTransaction txid)),
       bs_GetProof = (\<lambda>txid. slift (jb_call client GetProof txid)) \<rparr>"

section \<open>The chain\<close>

text \<open>
  \<open>Storage\<close>: its providers, and the proof check of the chain tracker if one is configured, which
  is taken not to change its answers during a call.
\<close>

record ('w, 'mp) beef_chain =
  bc_storages :: "'w beef_storage list"
  bc_verify :: "('mp \<Rightarrow> txid \<Rightarrow> string + bool) option"

text \<open>Filling the storages before the one that answered; their errors are dropped.\<close>

fun fill :: "'w beef_storage list \<Rightarrow> txid \<Rightarrow> bytes \<Rightarrow> 'w \<Rightarrow> 'w" where
  "fill [] txid b w = w"
| "fill (st # sts) txid b w = fill sts txid b (snd (bs_Put st txid b w))"

text \<open>The first loop of \<open>loadBeefInternal\<close>: \<open>None\<close> when no storage has the transaction.\<close>

fun find_beef :: "'w beef_storage list \<Rightarrow> 'w beef_storage list \<Rightarrow> txid \<Rightarrow> ('w, beef_err, bytes option) sm" where
  "find_beef before [] txid w = (Inr None, w)"
| "find_beef before (st # sts) txid w =
     (case bs_Get st txid w of
        (Inr b, w') \<Rightarrow> (Inr (Some b), fill before txid b w')
      | (Inl e, w') \<Rightarrow> if e \<noteq> ErrNotFound then (Inl e, w') else find_beef (before @ [st]) sts txid w')"

definition save_tx :: "('b, 'mp) beef_lib \<Rightarrow> 'w beef_storage list \<Rightarrow> txid \<times> ('b, 'mp) beef_tx \<Rightarrow> ('w, beef_err, unit) sm" where
  "save_tx L sts p =
     (case bt_Transaction (snd p) of
        None \<Rightarrow> sret ()
      | Some tx \<Rightarrow> sbind (slift (lib_err (createIndividualBEEF L (fst p) tx)))
          (\<lambda>b. sfor (\<lambda>st. bs_Put st (fst p) b) sts))"

definition saveBeefInternal :: "('b, 'mp) beef_lib \<Rightarrow> 'w beef_storage list \<Rightarrow> txid \<Rightarrow> ('b, 'mp) beef option \<Rightarrow> ('w, beef_err, unit) sm" where
  "saveBeefInternal L sts txid bf =
     (case bf of
        None \<Rightarrow> sfail (BeefErr ''beef is nil'')
      | Some bf \<Rightarrow>
          if FindTransactionByHash L bf txid = None then sfail (BeefErr ''could not find transaction in BEEF'')
          else sfor (save_tx L sts) (bf_Transactions bf))"

text \<open>Whether \<open>UpdateMerklePath\<close> takes a parsed answer: with a chain tracker, only one with a valid proof.\<close>

definition accepted :: "('mp \<Rightarrow> txid \<Rightarrow> string + bool) option \<Rightarrow> txid \<Rightarrow> ('b, 'mp) tx option \<Rightarrow> bool" where
  "accepted ct txid tx =
     (case ct of
        None \<Rightarrow> True
      | Some verify \<Rightarrow> (case Option.bind tx MerklePath of None \<Rightarrow> False | Some mp \<Rightarrow> verify mp txid = Inr True))"

fun update_loop :: "('b, 'mp) beef_lib \<Rightarrow> 'w beef_storage list \<Rightarrow> ('mp \<Rightarrow> txid \<Rightarrow> string + bool) option \<Rightarrow>
    'w beef_storage list \<Rightarrow> txid \<Rightarrow> ('w, beef_err, bytes) sm" where
  "update_loop L sts ct [] txid w = (Inl (BeefErr ''unable to fetch updated merkle proof''), w)"
| "update_loop L sts ct (st # rest) txid w =
     (case bs_UpdateMerklePath st txid w of
        (Inl e, w') \<Rightarrow> update_loop L sts ct rest txid w'
      | (Inr b, w') \<Rightarrow>
          if length b = 0 then update_loop L sts ct rest txid w'
          else (case ParseBeef L b of
                  Inl e \<Rightarrow> update_loop L sts ct rest txid w'
                | Inr (bf, tx, _) \<Rightarrow>
                    if accepted ct txid tx
                    then (case saveBeefInternal L sts txid (Some bf) w' of
                            (Inl e, w'') \<Rightarrow> (Inl (BeefErr ''failed to save updated BEEF''), w'')
                          | (Inr _, w'') \<Rightarrow> (Inr b, w''))
                    else update_loop L sts ct rest txid w'))"

definition UpdateMerklePath :: "('b, 'mp) beef_lib \<Rightarrow> ('w, 'mp) beef_chain \<Rightarrow> ('mp \<Rightarrow> txid \<Rightarrow> string + bool) option \<Rightarrow>
    txid \<Rightarrow> ('w, beef_err, bytes) sm" where
  "UpdateMerklePath L C ct txid = update_loop L (bc_storages C) ct (bc_storages C) txid"

section \<open>Loading\<close>

text \<open>
  \<open>loadBeefInternal\<close> loads the ancestors of an unproven transaction through the deduplicating loader, which
  for calls made in order is the function itself. The recursion follows the inputs, so
  it is given fuel; \<open>BeefLoad\<close> shows how much is enough.
\<close>

definition nil_tx :: beef_err where
  "nil_tx = BeefErr ''panic: nil pointer dereference''"

type_synonym ('b, 'mp) loaded = "('b, 'mp) beef \<times> ('b, 'mp) tx"

definition parse_loaded :: "('b, 'mp) beef_lib \<Rightarrow> beef_err \<Rightarrow> bytes \<Rightarrow> beef_err + ('b, 'mp) loaded" where
  "parse_loaded L no_tx b =
     (case ParseBeef L b of
        Inl e \<Rightarrow> Inl (BeefErr e)
      | Inr (bf, tx, _) \<Rightarrow> (case tx of None \<Rightarrow> Inl no_tx | Some tx \<Rightarrow> Inr (bf, tx)))"

text \<open>An invalid proof is replaced, or the load fails.\<close>

definition revalidate :: "('b, 'mp) beef_lib \<Rightarrow> ('w, 'mp) beef_chain \<Rightarrow> txid \<Rightarrow> ('b, 'mp) loaded \<Rightarrow> ('w, beef_err, ('b, 'mp) loaded) sm" where
  "revalidate L C txid r =
     (case (bc_verify C, MerklePath (snd r)) of
        (Some verify, Some mp) \<Rightarrow>
          if verify mp txid = Inr True then sret r
          else sbind (UpdateMerklePath L C (bc_verify C) txid) (\<lambda>b. slift (parse_loaded L nil_tx b))
      | _ \<Rightarrow> sret r)"

text \<open>A missing proof is looked for; that none is found is no error.\<close>

definition look_for_proof :: "('b, 'mp) beef_lib \<Rightarrow> ('w, 'mp) beef_chain \<Rightarrow> txid \<Rightarrow> ('b, 'mp) loaded \<Rightarrow> ('w, beef_err, ('b, 'mp) loaded) sm" where
  "look_for_proof L C txid r =
     (if MerklePath (snd r) \<noteq> None \<or> bc_verify C = None then sret r
      else (\<lambda>w. case UpdateMerklePath L C (bc_verify C) txid w of
                  (Inl e, w') \<Rightarrow> (Inr r, w')
                | (Inr b, w') \<Rightarrow> (parse_loaded L nil_tx b, w')))"

definition not_in_beef :: beef_err where "not_in_beef = BeefErr ''transaction not found in BEEF''"

text \<open>Everything before the ancestors: the stored BEEF with its proof checked.\<close>

definition load_own :: "('b, 'mp) beef_lib \<Rightarrow> ('w, 'mp) beef_chain \<Rightarrow> txid \<Rightarrow> ('w, beef_err, ('b, 'mp) loaded) sm" where
  "load_own L C txid =
     sbind (find_beef [] (bc_storages C) txid) (\<lambda>found.
       case found of
         None \<Rightarrow> sfail not_in_beef
       | Some b \<Rightarrow>
           sbind (slift (parse_loaded L not_in_beef b)) (\<lambda>r.
             sbind (revalidate L C txid r) (look_for_proof L C txid)))"

text \<open>The loop over the inputs, for a given way to load.\<close>

fun merge_inputs :: "('b, 'mp) beef_lib \<Rightarrow> (txid \<Rightarrow> 'w \<Rightarrow> ((beef_err + ('b, 'mp) beef) \<times> 'w) option) \<Rightarrow>
    (txid \<times> ('b, 'mp) tx option) list \<Rightarrow> ('b, 'mp) beef \<Rightarrow> 'w \<Rightarrow> ((beef_err + ('b, 'mp) beef) \<times> 'w) option" where
  "merge_inputs L load [] bf w = Some (Inr bf, w)"
| "merge_inputs L load (input # inputs) bf w =
     (case load (SourceTXID input) w of
        None \<Rightarrow> None
      | Some (Inl e, w') \<Rightarrow> Some (Inl (ErrMissingInputs (SourceTXID input)), w')
      | Some (Inr input_bf, w') \<Rightarrow>
          (case MergeBeef L bf input_bf of
             Inl e \<Rightarrow> Some (Inl (BeefErr e), w')
           | Inr bf' \<Rightarrow> merge_inputs L load inputs bf' w'))"

fun loadBeef :: "nat \<Rightarrow> ('b, 'mp) beef_lib \<Rightarrow> ('w, 'mp) beef_chain \<Rightarrow> txid \<Rightarrow> 'w \<Rightarrow> ((beef_err + ('b, 'mp) beef) \<times> 'w) option" where
  "loadBeef 0 L C txid w = None"
| "loadBeef (Suc n) L C txid w =
     (case load_own L C txid w of
        (Inl e, w') \<Rightarrow> Some (Inl e, w')
      | (Inr (bf, tx), w') \<Rightarrow>
          if MerklePath tx \<noteq> None then Some (Inr bf, w')
          else merge_inputs L (loadBeef n L C) (Inputs tx) bf w')"

section \<open>The operations over a loader\<close>

text \<open>\<open>load\<close> is the deduplicating loader in what follows: \<open>loadBeef\<close> with some fuel.\<close>

type_synonym ('w, 'b, 'mp) loader = "txid \<Rightarrow> 'w \<Rightarrow> ((beef_err + ('b, 'mp) beef) \<times> 'w) option"

definition obind :: "((beef_err + 'a) \<times> 'w) option \<Rightarrow> ('a \<Rightarrow> 'w \<Rightarrow> ((beef_err + 'c) \<times> 'w) option) \<Rightarrow> ((beef_err + 'c) \<times> 'w) option" where
  "obind m f = (case m of None \<Rightarrow> None | Some (Inl e, w) \<Rightarrow> Some (Inl e, w) | Some (Inr x, w) \<Rightarrow> f x w)"

text \<open>\<open>MergeBeef\<close> of the storage: the BEEFs of further transactions merged into one.\<close>

fun merge_beefs :: "('b, 'mp) beef_lib \<Rightarrow> ('w, 'b, 'mp) loader \<Rightarrow> ('b, 'mp) beef \<Rightarrow> txid list \<Rightarrow> 'w \<Rightarrow> ((beef_err + ('b, 'mp) beef) \<times> 'w) option" where
  "merge_beefs L load bf [] w = Some (Inr bf, w)"
| "merge_beefs L load bf (txid # txids) w =
     (case load txid w of
        None \<Rightarrow> None
      | Some (Inl e, w') \<Rightarrow> Some (Inl (BeefErr ''failed to load tx for merge''), w')
      | Some (Inr added, w') \<Rightarrow>
          (case MergeBeef L bf added of
             Inl e \<Rightarrow> Some (Inl (BeefErr e), w')
           | Inr bf' \<Rightarrow> merge_beefs L load bf' txids w'))"

definition LoadTx :: "('b, 'mp) beef_lib \<Rightarrow> ('w, 'b, 'mp) loader \<Rightarrow> txid \<Rightarrow> 'w \<Rightarrow> ((beef_err + ('b, 'mp) tx) \<times> 'w) option" where
  "LoadTx L load txid w =
     obind (load txid w) (\<lambda>bf w'.
       case FindTransactionForSigningByHash L bf txid of
         None \<Rightarrow> Some (Inl not_in_beef, w')
       | Some tx \<Rightarrow> Some (Inr tx, w'))"

definition LoadTxFromBeef :: "('b, 'mp) beef_lib \<Rightarrow> bytes \<Rightarrow> txid \<Rightarrow> beef_err + ('b, 'mp) tx" where
  "LoadTxFromBeef L beefBytes txid =
     rbind (lib_err (ParseBeef L beefBytes)) (\<lambda>(bf, tx, parsed).
       if parsed \<noteq> None \<and> parsed \<noteq> Some txid then Inl (BeefErr ''txid mismatch'')
       else (case (case tx of Some t \<Rightarrow> Some t | None \<Rightarrow> FindTransaction L bf txid) of
               None \<Rightarrow> Inl not_in_beef
             | Some t \<Rightarrow> Inr t))"

text \<open>Inputs are filled in one after the other: all of them, or only those without a source.\<close>

fun fill_inputs :: "(txid \<Rightarrow> 'w \<Rightarrow> ((beef_err + ('b, 'mp) tx) \<times> 'w) option) \<Rightarrow> bool \<Rightarrow>
    (txid \<times> ('b, 'mp) tx option) list \<Rightarrow> 'w \<Rightarrow> ((beef_err + (txid \<times> ('b, 'mp) tx option) list) \<times> 'w) option" where
  "fill_inputs build again [] w = Some (Inr [], w)"
| "fill_inputs build again (input # inputs) w =
     obind (if \<not> again \<and> SourceTransaction input \<noteq> None then Some (Inr input, w)
            else obind (build (SourceTXID input) w) (\<lambda>src w'. Some (Inr (SourceTXID input, Some src), w')))
       (\<lambda>filled w'. obind (fill_inputs build again inputs w') (\<lambda>rest w''. Some (Inr (filled # rest), w'')))"

fun BuildBeefTx :: "nat \<Rightarrow> ('b, 'mp) beef_lib \<Rightarrow> ('w, 'b, 'mp) loader \<Rightarrow> txid \<Rightarrow> 'w \<Rightarrow> ((beef_err + ('b, 'mp) tx) \<times> 'w) option" where
  "BuildBeefTx 0 L load txid w = None"
| "BuildBeefTx (Suc n) L load txid w =
     obind (LoadTx L load txid w) (\<lambda>tx w'.
       if MerklePath tx \<noteq> None then Some (Inr tx, w')
       else obind (fill_inputs (BuildBeefTx n L load) True (Inputs tx) w')
              (\<lambda>inputs w''. Some (Inr (Tx (tx_body tx) (MerklePath tx) inputs), w'')))"

definition BuildFullBeefTx :: "nat \<Rightarrow> ('b, 'mp) beef_lib \<Rightarrow> ('w, 'b, 'mp) loader \<Rightarrow> txid \<Rightarrow> 'w \<Rightarrow> ((beef_err + ('b, 'mp) tx) \<times> 'w) option" where
  "BuildFullBeefTx n L load txid w =
     obind (LoadTx L load txid w) (\<lambda>tx w'.
       obind (fill_inputs (BuildBeefTx n L load) False (Inputs tx) w')
         (\<lambda>inputs w''. Some (Inr (Tx (tx_body tx) (MerklePath tx) inputs), w'')))"

definition PopulateAncestors :: "nat \<Rightarrow> ('b, 'mp) beef_lib \<Rightarrow> ('w, 'b, 'mp) loader \<Rightarrow> ('b, 'mp) tx \<Rightarrow> 'w \<Rightarrow> ((beef_err + ('b, 'mp) tx) \<times> 'w) option" where
  "PopulateAncestors n L load tx w =
     (if MerklePath tx \<noteq> None then Some (Inr tx, w)
      else obind (fill_inputs (BuildBeefTx n L load) False (Inputs tx) w)
             (\<lambda>inputs w'. Some (Inr (Tx (tx_body tx) (MerklePath tx) inputs), w')))"

text \<open>The sources that are filled in are merged into a copy of the loaded BEEF as they come.\<close>

fun merge_sources :: "('b, 'mp) beef_lib \<Rightarrow> (txid \<Rightarrow> 'w \<Rightarrow> ((beef_err + ('b, 'mp) tx) \<times> 'w) option) \<Rightarrow>
    (txid \<times> ('b, 'mp) tx option) list \<Rightarrow> ('b, 'mp) beef \<Rightarrow> 'w \<Rightarrow> ((beef_err + ('b, 'mp) beef) \<times> 'w) option" where
  "merge_sources L build [] bf w = Some (Inr bf, w)"
| "merge_sources L build (input # inputs) bf w =
     (if SourceTransaction input \<noteq> None then merge_sources L build inputs bf w
      else obind (build (SourceTXID input) w) (\<lambda>src w'.
             case MergeTransaction L bf src of
               Inl e \<Rightarrow> Some (Inl (BeefErr e), w')
             | Inr bf' \<Rightarrow> merge_sources L build inputs bf' w'))"

definition BuildFullBeef :: "nat \<Rightarrow> ('b, 'mp) beef_lib \<Rightarrow> ('w, 'b, 'mp) loader \<Rightarrow> txid \<Rightarrow> 'w \<Rightarrow> ((beef_err + bytes) \<times> 'w) option" where
  "BuildFullBeef n L load txid w =
     obind (load txid w) (\<lambda>bf w'.
       case FindTransactionForSigningByHash L bf txid of
         None \<Rightarrow> Some (Inl not_in_beef, w')
       | Some tx \<Rightarrow>
           obind (merge_sources L (BuildBeefTx n L load) (Inputs tx) bf w') (\<lambda>bf' w''.
             if \<not> beef_IsValid L bf' then Some (Inl (BeefErr ''incomplete BEEF''), w'')
             else Some (lib_err (AtomicBytes L bf' txid), w'')))"

section \<open>Saving and reading parts\<close>

definition SaveBeefBytes :: "('b, 'mp) beef_lib \<Rightarrow> ('w, 'mp) beef_chain \<Rightarrow> txid \<Rightarrow> bytes \<Rightarrow> ('w, beef_err, unit) sm" where
  "SaveBeefBytes L C txid beefBytes =
     sbind (slift (lib_err (ParseBeef L beefBytes))) (\<lambda>(bf, _, _). saveBeefInternal L (bc_storages C) txid (Some bf))"

definition SaveRaw :: "('b, 'mp) beef_lib \<Rightarrow> ('w, 'mp) beef_chain \<Rightarrow> bytes \<Rightarrow> ('w, beef_err, unit) sm" where
  "SaveRaw L C rawBytes =
     (if length rawBytes = 0 then sfail (BeefErr ''empty raw bytes'')
      else case ParseBeef L rawBytes of
             Inr (bf, Some tx, _) \<Rightarrow> saveBeefInternal L (bc_storages C) (TxID L tx) (Some bf)
           | _ \<Rightarrow>
               sbind (slift (lib_err (NewTransactionFromBytes L rawBytes))) (\<lambda>tx.
                 sbind (slift (lib_err (createIndividualBEEF L (TxID L tx) tx)))
                   (\<lambda>b. sfor (\<lambda>st. bs_Put st (TxID L tx) b) (bc_storages C))))"

text \<open>
  \<open>LoadRawTx\<close> and \<open>LoadProof\<close>: the first storage with a non-empty answer, which the storages before it are
  filled with. \<open>ctx_err\<close> is the error of the context if it was cancelled; any other error moves on.
\<close>

fun load_raw :: "('b, 'mp) beef_lib \<Rightarrow> beef_err option \<Rightarrow> 'w beef_storage list \<Rightarrow> 'w beef_storage list \<Rightarrow> txid \<Rightarrow> ('w, beef_err, bytes) sm" where
  "load_raw L ctx_err before [] txid w = (Inl ErrNotFound, w)"
| "load_raw L ctx_err before (st # sts) txid w =
     (case bs_GetRawTx st txid w of
        (Inl e, w') \<Rightarrow> if ctx_err = Some e then (Inl e, w') else load_raw L ctx_err (before @ [st]) sts txid w'
      | (Inr rawTx, w') \<Rightarrow>
          if length rawTx = 0 then load_raw L ctx_err (before @ [st]) sts txid w'
          else (Inr rawTx, if before = [] then w'
                           else (case assembleBEEF L txid rawTx None of Inl e \<Rightarrow> w' | Inr b \<Rightarrow> fill before txid b w')))"

definition LoadRawTx :: "('b, 'mp) beef_lib \<Rightarrow> beef_err option \<Rightarrow> ('w, 'mp) beef_chain \<Rightarrow> txid \<Rightarrow> ('w, beef_err, bytes) sm" where
  "LoadRawTx L ctx_err C txid = load_raw L ctx_err [] (bc_storages C) txid"

fun load_proof :: "('b, 'mp) beef_lib \<Rightarrow> beef_err option \<Rightarrow> 'w beef_storage list \<Rightarrow> 'w beef_storage list \<Rightarrow> txid \<Rightarrow> ('w, beef_err, bytes) sm" where
  "load_proof L ctx_err before [] txid w = (Inl ErrNotFound, w)"
| "load_proof L ctx_err before (st # sts) txid w =
     (case bs_GetProof st txid w of
        (Inl e, w') \<Rightarrow> if ctx_err = Some e then (Inl e, w') else load_proof L ctx_err (before @ [st]) sts txid w'
      | (Inr proof, w') \<Rightarrow>
          if length proof = 0 then load_proof L ctx_err (before @ [st]) sts txid w'
          else if before = [] then (Inr proof, w')
          else (case bs_GetRawTx st txid w' of
                  (Inl e, w'') \<Rightarrow> (Inr proof, w'')
                | (Inr rawTx, w'') \<Rightarrow>
                    (Inr proof, case assembleBEEF L txid rawTx (Some proof) of
                       Inl e \<Rightarrow> w'' | Inr b \<Rightarrow> fill before txid b w'')))"

definition LoadProof :: "('b, 'mp) beef_lib \<Rightarrow> beef_err option \<Rightarrow> ('w, 'mp) beef_chain \<Rightarrow> txid \<Rightarrow> ('w, beef_err, bytes) sm" where
  "LoadProof L ctx_err C txid = load_proof L ctx_err [] (bc_storages C) txid"

section \<open>A concrete library\<close>

text \<open>A child without a proof and its proven parent; a proof is whether it is valid.\<close>

definition demo_tx :: "bytes \<Rightarrow> (unit, bool) tx option" where
  "demo_tx b = (if b = ''c'' then Some (Tx () None [(''p'', None)]) else if b = ''p'' then Some (Tx () (Some True) []) else None)"

definition demo_beef_lib :: "(unit, bool) beef_lib" where
  "demo_beef_lib =
     \<lparr>BEEF_V2 = 2,
      ParseBeef = (\<lambda>b. case demo_tx b of None \<Rightarrow> Inl ''bad''
        | Some t \<Rightarrow> Inr (\<lparr>bf_Version = 2, bf_BUMPs = [], bf_Transactions = [(b, \<lparr>bt_Transaction = Some t, bt_BumpIndex = -1, bt_DataFormat = RawTx\<rparr>)]\<rparr>, Some t, Some b)),
      AtomicBytes = (\<lambda>bf t. Inr t), NewTransactionFromBytes = (\<lambda>b. case demo_tx b of None \<Rightarrow> Inl ''bad'' | Some t \<Rightarrow> Inr t),
      NewMerklePathFromBinary = (\<lambda>b. Inr True), tx_Bytes = (\<lambda>t. if MerklePath t = None then ''c'' else ''p''), mp_Bytes = (\<lambda>mp. ''1''),
      TxID = (\<lambda>t. if MerklePath t = None then ''c'' else ''p''),
      MergeBeef = (\<lambda>x y. Inr (x\<lparr>bf_Transactions := bf_Transactions x @ bf_Transactions y\<rparr>)),
      MergeTransaction = (\<lambda>x t. Inr x), FindTransactionByHash = (\<lambda>bf t. demo_tx t),
      FindTransactionForSigningByHash = (\<lambda>bf t. demo_tx t), FindTransaction = (\<lambda>bf t. demo_tx t), beef_IsValid = (\<lambda>bf. True)\<rparr>"

end
