(* ===== verification/BeefCache.thy ===== *)
theory BeefCache
  imports Beef
begin

text \<open>
  The memory provider of \<open>pkg/beef/lru.go\<close> as a list of entries in order of use beside its byte counter: the
  same answers, the same evictions. The counter never exceeds the budget, but it is only a lower bound of the bytes
  that are kept, and it drifts.
\<close>

section \<open>The specification\<close>

datatype beef_op = OpGet txid | OpGetRawTx txid | OpGetProof txid | OpPut txid bytes slice | OpClose

type_synonym cache_spec = "int \<times> (txid \<times> lru_entry) list"

text \<open>The oldest entries go until the counter is within the budget.\<close>

fun trim_oldest :: "int \<Rightarrow> int \<Rightarrow> (txid \<times> lru_entry) list \<Rightarrow> cache_spec" where
  "trim_oldest m c [] = (c, [])"
| "trim_oldest m c (x # xs) = (if m < c then trim_oldest m (c - entry_size (snd x)) xs else (c, x # xs))"

definition trim :: "int \<Rightarrow> cache_spec \<Rightarrow> cache_spec" where
  "trim m s = map_prod (\<lambda>c. c) rev (trim_oldest m (fst s) (rev (snd s)))"

definition spec_read :: "(lru_entry \<Rightarrow> (beef_err + bytes) option) \<Rightarrow> txid \<Rightarrow> cache_spec \<Rightarrow> (beef_err + bytes) \<times> cache_spec" where
  "spec_read f t s =
     (case Option.bind (map_of (snd s) t) (\<lambda>en. map_option (Pair en) (f en)) of
        None \<Rightarrow> (Inl ErrNotFound, s)
      | Some (en, r) \<Rightarrow> (r, fst s, recent t en (snd s)))"

definition new_entry :: "bytes \<Rightarrow> slice \<Rightarrow> lru_entry" where
  "new_entry r p = \<lparr>en_rawTx = Some r, en_proof = (if 0 < slen p then p else None)\<rparr>"

definition spec_put :: "txid \<Rightarrow> bytes \<Rightarrow> slice \<Rightarrow> cache_spec \<Rightarrow> cache_spec" where
  "spec_put t r p s =
     (case map_of (snd s) t of
        None \<Rightarrow> (fst s + int (length r) + int (slen p), recent t (new_entry r p) (snd s))
      | Some en \<Rightarrow> (fst s + int (length r) + int (slen p) - entry_size en, recent t (put_over (Some r) p en) (snd s)))"

fun beef_spec_step :: "('b, 'mp) beef_lib \<Rightarrow> int \<Rightarrow> beef_op \<Rightarrow> cache_spec \<Rightarrow> (beef_err + bytes) \<times> cache_spec" where
  "beef_spec_step L m (OpGet t) s = spec_read (\<lambda>en. map_option (\<lambda>r. lib_err (assembleBEEF L t r (en_proof en))) (en_rawTx en)) t s"
| "beef_spec_step L m (OpGetRawTx t) s = spec_read (\<lambda>en. map_option Inr (en_rawTx en)) t s"
| "beef_spec_step L m (OpGetProof t) s = spec_read (\<lambda>en. map_option Inr (en_proof en)) t s"
| "beef_spec_step L m (OpPut t r p) s = (Inr [], trim m (spec_put t r p s))"
| "beef_spec_step L m OpClose s = (Inr [], 0, [])"

fun beef_cache_step :: "('b, 'mp) beef_lib \<Rightarrow> beef_op \<Rightarrow> beef_lru \<Rightarrow> (beef_err + bytes) \<times> beef_lru" where
  "beef_cache_step L (OpGet t) C = lru_Get L t C"
| "beef_cache_step L (OpGetRawTx t) C = lru_GetRawTx t C"
| "beef_cache_step L (OpGetProof t) C = lru_GetProof t C"
| "beef_cache_step L (OpPut t r p) C = (Inr [], putEntry t (Some r) p C)"
| "beef_cache_step L OpClose C = (Inr [], lru_Close C)"

section \<open>The simulation\<close>

definition cache_abs :: "beef_lru \<Rightarrow> cache_spec" where
  "cache_abs C = (l_size C, lru_abs C)"

definition cache_ok :: "int \<Rightarrow> beef_lru \<Rightarrow> bool" where
  "cache_ok m C \<longleftrightarrow> lru_ok C \<and> l_max C = m"

lemma evict_trim:
  assumes "cache_ok m C"
  shows "cache_ok m (evictIfNeeded C) \<and> cache_abs (evictIfNeeded C) = trim m (cache_abs C)"
  using assms
proof (induction C rule: evictIfNeeded.induct)
  case (1 C)
  have ok: "lru_ok C" "l_max C = m" using "1.prems" by (simp_all add: cache_ok_def)
  show ?case
  proof (cases "l_size C > l_max C \<and> l_list C \<noteq> []")
    case True
    then obtain e k where b: "list_Back (l_list C) = Some (e, k)"
      by (cases "list_Back (l_list C)") (auto simp: list_Back_def)
    note ba = back_abs[OF ok(1) b]
    have "map_of (lru_abs C) k \<noteq> None"
      using ba(3,4) by (metis last_in_set map_of_eq_None_iff image_eqI)
    then obtain en where en: "l_cache C k = Some en" using abs_lookup[OF ok(1), of k] by auto
    have "last (lru_abs C) = (k, en)"
      using ba(3,4) en abs_lookup[OF ok(1), of k] map_of_is_SomeI[OF abs_distinct[OF ok(1)]]
      by (metis last_in_set option.inject prod.collapse)
    then have rev: "rev (lru_abs C) = (k, en) # rev (butlast (lru_abs C))"
      using ba(3) by (metis append_butlast_last_id rev.simps(2) rev_append rev_rev_ident append_Cons append_Nil)
    let ?C = "(lru_drop k e C)\<lparr>l_size := l_size C - (case l_cache C k of None \<Rightarrow> 0 | Some en \<Rightarrow> entry_size en)\<rparr>"
    have abs: "lru_abs ?C = butlast (lru_abs C)"
      using lru_drop_ok(2)[OF ok(1) ba(1)] ba(2) by (simp add: lru_abs_def)
    have "cache_ok m ?C"
      using lru_drop_ok(1)[OF ok(1) ba(1)] ok(2) by (simp add: cache_ok_def lru_ok_def) (simp add: lru_drop_def)
    from "1.IH"[OF True b refl this] have ih: "cache_ok m (evictIfNeeded ?C)" "cache_abs (evictIfNeeded ?C) = trim m (cache_abs ?C)"
      by blast+
    have "m < l_size C" using True ok(2) by simp
    then have "trim m (l_size C - entry_size en, butlast (lru_abs C)) = trim m (l_size C, lru_abs C)"
      unfolding trim_def fst_conv snd_conv rev by simp
    moreover have "cache_abs ?C = (l_size C - entry_size en, butlast (lru_abs C))"
      unfolding cache_abs_def abs by (simp add: en)
    ultimately have "trim m (cache_abs ?C) = trim m (cache_abs C)" unfolding cache_abs_def by metis
    moreover have "evictIfNeeded C = evictIfNeeded ?C"
      using True b by (subst evictIfNeeded.simps) simp
    ultimately show ?thesis using ih by simp
  next
    case False
    have "trim m (cache_abs C) = cache_abs C"
    proof (cases "rev (lru_abs C)")
      case Nil
      then show ?thesis by (simp add: trim_def cache_abs_def)
    next
      case (Cons x xs)
      then have "l_list C \<noteq> []" by (auto simp: lru_abs_def)
      then show ?thesis using False ok(2) Cons by (auto simp: trim_def cache_abs_def)
    qed
    moreover have "evictIfNeeded C = C" using False evictIfNeeded.simps[of C] by meson
    ultimately show ?thesis using "1.prems" by simp
  qed
qed

lemma touch_cache:
  assumes "cache_ok m C" "l_cache C k = Some en"
  shows "cache_ok m (lru_touch k C) \<and> cache_abs (lru_touch k C) = (l_size C, recent k en (lru_abs C))"
  using assms touch_ok[of C k] touch_abs[of C k] by (simp add: cache_ok_def cache_abs_def recent_def)

lemma recent_new: "map_of xs k = None \<Longrightarrow> recent k v xs = (k, v) # xs"
  by (auto simp: recent_def map_of_eq_None_iff intro!: filter_True)

lemma put_spec:
  assumes ok: "cache_ok m C"
  shows "cache_ok m (putEntry t (Some r) p C) \<and> cache_abs (putEntry t (Some r) p C) = trim m (spec_put t r p (cache_abs C))"
proof (cases "l_cache C t")
  case None
  let ?C1 = "lru_push t (new_entry r p) C"
  let ?C2 = "?C1\<lparr>l_size := l_size ?C1 + (int (length r) + int (slen p))\<rparr>"
  have lok: "lru_ok C" using ok by (simp add: cache_ok_def)
  note pu = push_ok[OF lok None, of "new_entry r p"]
  have "cache_ok m ?C2" using pu(1) ok by (simp add: cache_ok_def lru_ok_def) (simp add: lru_push_def)
  moreover have "cache_abs ?C2 = spec_put t r p (cache_abs C)"
    using pu(2) None abs_lookup[OF lok, of t] recent_new[of "lru_abs C" t "new_entry r p"]
    by (simp add: cache_abs_def spec_put_def lru_abs_def) (simp add: lru_push_def)
  moreover have "putEntry t (Some r) p C = evictIfNeeded ?C2"
    by (simp add: putEntry_def None new_entry_def slen_def Let_def)
  ultimately show ?thesis using evict_trim[of m ?C2] by simp
next
  case (Some en)
  let ?en = "put_over (Some r) p en"
  let ?C1 = "C\<lparr>l_size := l_size C + (int (length r) + int (slen p) - entry_size en), l_cache := (l_cache C)(t \<mapsto> ?en)\<rparr>"
  have lok: "lru_ok C" using ok by (simp add: cache_ok_def)
  note up = upd_cache_ok[OF lok, of t ?en]
  have ok1: "cache_ok m ?C1" using up(1) Some ok by (simp add: cache_ok_def lru_ok_def)
  have abs1: "lru_abs ?C1 = lru_abs (C\<lparr>l_cache := (l_cache C)(t \<mapsto> ?en)\<rparr>)" by (simp add: lru_abs_def)
  have "l_cache ?C1 t = Some ?en" by simp
  note tc = touch_cache[OF ok1 this]
  have "recent t ?en (lru_abs ?C1) = recent t ?en (lru_abs C)"
    using up(2) Some unfolding recent_def abs1 by simp
  then have "cache_abs (lru_touch t ?C1) = spec_put t r p (cache_abs C)"
    using tc Some abs_lookup[OF lok, of t] by (simp add: cache_abs_def spec_put_def)
  moreover have "putEntry t (Some r) p C = evictIfNeeded (lru_touch t ?C1)"
    by (simp add: putEntry_def Some slen_def Let_def)
  ultimately show ?thesis using evict_trim[of m "lru_touch t ?C1"] tc by simp
qed

lemma beef_step_refines:
  assumes "cache_ok m C"
  shows "cache_ok m (snd (beef_cache_step L x C)) \<and>
    beef_spec_step L m x (cache_abs C) = (fst (beef_cache_step L x C), cache_abs (snd (beef_cache_step L x C)))"
proof (cases x)
  case (OpPut t r p)
  then show ?thesis using put_spec[OF assms] by simp
next
  case OpClose
  then show ?thesis using assms
    by (simp add: cache_ok_def lru_Close_def cache_abs_def lru_abs_def lru_ok_def)
next
  case (OpGet t)
  then show ?thesis
    using assms touch_cache[OF assms, of t] abs_lookup[of C t]
    by (auto simp: lru_Get_def lru_entry_of_def spec_read_def cache_abs_def cache_ok_def split: option.splits)
next
  case (OpGetRawTx t)
  then show ?thesis
    using assms touch_cache[OF assms, of t] abs_lookup[of C t]
    by (auto simp: lru_GetRawTx_def lru_entry_of_def spec_read_def cache_abs_def cache_ok_def split: option.splits)
next
  case (OpGetProof t)
  then show ?thesis
    using assms touch_cache[OF assms, of t] abs_lookup[of C t]
    by (auto simp: lru_GetProof_def spec_read_def cache_abs_def cache_ok_def split: option.splits)
qed

section \<open>The counter\<close>

definition kept_bytes :: "cache_spec \<Rightarrow> int" where
  "kept_bytes s = sum_list (map (\<lambda>x. entry_size (snd x)) (snd s))"

text \<open>The counter is within the budget and no more than the bytes that are kept.\<close>

definition counter_ok :: "int \<Rightarrow> cache_spec \<Rightarrow> bool" where
  "counter_ok m s \<longleftrightarrow> distinct (map fst (snd s)) \<and> fst s \<le> max m 0 \<and> fst s \<le> kept_bytes s"

lemma trim_oldest_counter:
  "fst (trim_oldest m c xs) \<le> m \<or> snd (trim_oldest m c xs) = []"
  "c \<le> sum_list (map (\<lambda>x. entry_size (snd x)) xs) \<Longrightarrow>
    fst (trim_oldest m c xs) \<le> sum_list (map (\<lambda>x. entry_size (snd x)) (snd (trim_oldest m c xs)))"
  "\<exists>ys. xs = ys @ snd (trim_oldest m c xs)"
proof -
  show "fst (trim_oldest m c xs) \<le> m \<or> snd (trim_oldest m c xs) = []"
    by (induction m c xs rule: trim_oldest.induct) auto
  show "c \<le> sum_list (map (\<lambda>x. entry_size (snd x)) xs) \<Longrightarrow>
    fst (trim_oldest m c xs) \<le> sum_list (map (\<lambda>x. entry_size (snd x)) (snd (trim_oldest m c xs)))"
    by (induction m c xs rule: trim_oldest.induct) auto
  show "\<exists>ys. xs = ys @ snd (trim_oldest m c xs)"
    by (induction m c xs rule: trim_oldest.induct) (auto, metis append_Cons)
qed

lemma kept_rev: "sum_list (map f (rev xs)) = (sum_list (map f xs) :: int)"
  by (metis rev_map sum_list_rev)

lemma trim_counter:
  assumes "distinct (map fst (snd s))" "fst s \<le> kept_bytes s"
  shows "counter_ok m (trim m s)"
proof -
  let ?t = "trim_oldest m (fst s) (rev (snd s))"
  have "fst ?t \<le> sum_list (map (\<lambda>x. entry_size (snd x)) (snd ?t))"
    using trim_oldest_counter(2)[of "fst s" "rev (snd s)" m] assms(2) by (simp add: kept_bytes_def kept_rev)
  moreover obtain ys where "rev (snd s) = ys @ snd ?t" using trim_oldest_counter(3)[of "rev (snd s)" m "fst s"] by blast
  then have "distinct (map fst (snd ?t))"
    using assms(1) by (metis distinct_append distinct_rev map_append rev_map)
  moreover have "fst ?t \<le> max m 0"
    using trim_oldest_counter(1)[of m "fst s" "rev (snd s)"] calculation(1) by (auto simp: max_def)
  ultimately show ?thesis by (simp add: counter_ok_def trim_def kept_bytes_def kept_rev rev_map[symmetric])
qed

lemma kept_recent:
  assumes "distinct (map fst xs)" "map_of xs k = Some en"
  shows "sum_list (map (\<lambda>x. entry_size (snd x)) (recent k v xs)) =
    sum_list (map (\<lambda>x. entry_size (snd x)) xs) - entry_size en + entry_size v"
  using assms
proof (induction xs)
  case (Cons x xs)
  show ?case
  proof (cases "fst x = k")
    case True
    then have "filter (\<lambda>x. fst x \<noteq> k) xs = xs" using Cons.prems(1) by (auto simp: image_iff intro!: filter_True)
    then show ?thesis using True Cons.prems(2) by (simp add: recent_def)
  next
    case False
    then show ?thesis using Cons by (cases x) (simp add: recent_def)
  qed
qed simp

lemma recent_distinct: "distinct (map fst xs) \<Longrightarrow> distinct (map fst (recent k v xs))"
  by (auto simp: recent_def intro: distinct_map_filter)

lemma put_over_size: "entry_size (put_over (Some r) p en) =
    int (length r) + (if 0 < slen p then int (slen p) else int (slen (en_proof en)))"
  by (simp add: put_over_def entry_size_def slen_def Let_def)

lemma spec_counter:
  assumes "counter_ok m s"
  shows "counter_ok m (snd (beef_spec_step L m x s))"
proof -
  have read: "counter_ok m (snd (spec_read f t s))" for f t
  proof (cases "map_of (snd s) t")
    case None
    then show ?thesis using assms by (simp add: spec_read_def)
  next
    case (Some en)
    have "counter_ok m (fst s, recent t en (snd s))"
      using assms kept_recent[OF _ Some, of en] recent_distinct[of "snd s" t en]
      by (simp add: counter_ok_def kept_bytes_def)
    then show ?thesis using assms Some by (cases "f en") (simp_all add: spec_read_def)
  qed
  have put: "counter_ok m (trim m (spec_put t r p s))" for t r p
  proof (rule trim_counter)
    show "distinct (map fst (snd (spec_put t r p s)))"
      using assms recent_distinct by (auto simp: spec_put_def counter_ok_def split: option.splits)
    show "fst (spec_put t r p s) \<le> kept_bytes (spec_put t r p s)"
    proof (cases "map_of (snd s) t")
      case None
      then show ?thesis using assms
        by (simp add: spec_put_def kept_bytes_def recent_new counter_ok_def new_entry_def entry_size_def slen_def split: option.splits)
    next
      case (Some en)
      have "kept_bytes (spec_put t r p s) = kept_bytes s - entry_size en + entry_size (put_over (Some r) p en)"
        using kept_recent[OF _ Some] assms Some by (simp add: spec_put_def kept_bytes_def counter_ok_def)
      then show ?thesis using assms Some by (simp add: spec_put_def counter_ok_def put_over_size split: if_splits)
    qed
  qed
  have "counter_ok m (0, [])" by (simp add: counter_ok_def kept_bytes_def)
  then show ?thesis by (cases x) (simp_all add: read put)
qed

lemma cache_new_ok: "cache_ok m (lru_new m)" "cache_abs (lru_new m) = (0, [])"
  by (simp_all add: cache_ok_def cache_abs_def) (simp_all add: lru_new_def)

text \<open>After any operations, the run of the specification and its counter.\<close>

lemma cache_runs:
  "cache_ok m (snd (run_ops (beef_cache_step L) ops (lru_new m))) \<and>
   run_ops (beef_spec_step L m) ops (0, []) =
     (fst (run_ops (beef_cache_step L) ops (lru_new m)), cache_abs (snd (run_ops (beef_cache_step L) ops (lru_new m))))"
  using run_ops_simulation[where R = "cache_ok m" and a = cache_abs and f = "beef_cache_step L"
      and g = "beef_spec_step L m" and s = "lru_new m", OF beef_step_refines cache_new_ok(1)]
  by (simp add: cache_new_ok(2))

lemma spec_runs_counter: "counter_ok m s \<Longrightarrow> counter_ok m (snd (run_ops (beef_spec_step L m) ops s))"
proof (induction ops arbitrary: s)
  case (Cons x ops)
  show ?case using Cons.IH[OF spec_counter[OF Cons.prems, of L x]] by (simp add: case_prod_beta)
qed simp

section \<open>The properties\<close>

text \<open>
  C28: over every sequence of reads, writes and resets, the memory cache of transactions gives the answers of a list
  of entries in order of use, of which the oldest go while the byte counter is over the budget. After every operation the
  counter is within the budget, and it never exceeds the bytes of the entries that are kept.
\<close>

theorem beef_cache_refines_recency_list:
  "fst (run_ops (beef_cache_step L) ops (lru_new m)) = fst (run_ops (beef_spec_step L m) ops (0, [])) \<and>
   cache_abs (snd (run_ops (beef_cache_step L) ops (lru_new m))) = snd (run_ops (beef_spec_step L m) ops (0, [])) \<and>
   l_size (snd (run_ops (beef_cache_step L) ops (lru_new m))) \<le> max m 0 \<and>
   l_size (snd (run_ops (beef_cache_step L) ops (lru_new m))) \<le>
     lru_bytes entry_size (snd (run_ops (beef_cache_step L) ops (lru_new m)))"
proof -
  let ?C = "snd (run_ops (beef_cache_step L) ops (lru_new m))"
  have run: "run_ops (beef_spec_step L m) ops (0, []) = (fst (run_ops (beef_cache_step L) ops (lru_new m)), cache_abs ?C)"
    using cache_runs by blast
  have "counter_ok m (0, [])" by (simp add: counter_ok_def kept_bytes_def)
  from spec_runs_counter[OF this, of L ops] have "counter_ok m (cache_abs ?C)" by (simp add: run)
  moreover have "kept_bytes (cache_abs ?C) = lru_bytes entry_size ?C"
    by (simp add: kept_bytes_def cache_abs_def lru_bytes_def case_prod_beta')
  ultimately show ?thesis by (simp add: run counter_ok_def cache_abs_def)
qed

text \<open>Rewriting an entry that has a proof without one lowers the counter each time.\<close>

lemma rewrites_lower_counter:
  assumes "c \<le> m" "p \<noteq> []"
  shows "run_ops (beef_spec_step L m) (replicate n (OpPut t r None)) (c, [(t, new_entry r (Some p))]) =
    (replicate n (Inr []), (c - int n * int (length p), [(t, new_entry r (Some p))]))"
  using assms(1)
proof (induction n arbitrary: c)
  case (Suc n)
  have "put_over (Some r) None (new_entry r (Some p)) = new_entry r (Some p)"
    by (simp add: put_over_def new_entry_def slen_def Let_def)
  then have "spec_put t r None (c, [(t, new_entry r (Some p))]) = (c - int (length p), [(t, new_entry r (Some p))])"
    using assms(2) by (simp add: spec_put_def recent_def entry_size_def new_entry_def slen_def)
  moreover have "trim m (c - int (length p), [(t, new_entry r (Some p))]) = (c - int (length p), [(t, new_entry r (Some p))])"
    using Suc.prems by (simp add: trim_def)
  ultimately show ?case using Suc.IH[of "c - int (length p)"] Suc.prems by (simp add: algebra_simps)
qed simp

lemma run_ops_append:
  "run_ops f (xs @ ys) s = (fst (run_ops f xs s) @ fst (run_ops f ys (snd (run_ops f xs s))), snd (run_ops f ys (snd (run_ops f xs s))))"
  by (induction xs arbitrary: s) (simp_all add: case_prod_beta)

text \<open>
  C29: the byte budget does not bound what the cache keeps. Writing a transaction again without its proof keeps the
  proof but takes its bytes off the counter each time, so for any bound there are writes, the first of which fits the
  budget, after which the entries of a cache hold more bytes than that bound.
\<close>

theorem beef_cache_outgrows_budget:
  assumes "int (length r) + int (length p) \<le> m" "p \<noteq> []"
  shows "\<exists>ops. bound < lru_bytes entry_size (snd (run_ops (beef_cache_step L) (OpPut t r (Some p) # ops) (lru_new m)))"
proof -
  define big where "big = replicate (Suc (nat bound)) (CHR 0x00)"
  define t' where "t' = CHR 0x00 # t"
  define n where "n = length big + length r"
  let ?en = "new_entry r (Some p)"
  let ?ops = "OpPut t r (Some p) # replicate n (OpPut t r None) @ [OpPut t' big None]"
  let ?c = "int (length r) + int (length p) - int n * int (length p)"
  have "spec_put t r (Some p) (0, []) = (int (length r) + int (length p), [(t, ?en)])"
    by (simp add: spec_put_def recent_def slen_def)
  moreover have "trim m (int (length r) + int (length p), [(t, ?en)]) = (int (length r) + int (length p), [(t, ?en)])"
    using assms(1) by (simp add: trim_def)
  ultimately have first: "beef_spec_step L m (OpPut t r (Some p)) (0, []) = (Inr [], int (length r) + int (length p), [(t, ?en)])"
    by simp
  have "spec_put t' big None (?c, [(t, ?en)]) = (?c + int (length big), [(t', new_entry big None), (t, ?en)])"
    by (simp add: spec_put_def recent_def slen_def t'_def)
  moreover have "?c + int (length big) \<le> m"
  proof -
    have "1 \<le> length p" using assms(2) by (cases p) auto
    then have "int n * 1 \<le> int n * int (length p)" by (intro mult_left_mono) auto
    then show ?thesis using assms(1) by (simp add: n_def)
  qed
  ultimately have last: "beef_spec_step L m (OpPut t' big None) (?c, [(t, ?en)]) =
      (Inr [], ?c + int (length big), [(t', new_entry big None), (t, ?en)])"
    by (simp add: trim_def)
  have "snd (run_ops (beef_spec_step L m) ?ops (0, [])) = (?c + int (length big), [(t', new_entry big None), (t, ?en)])"
    using rewrites_lower_counter[OF assms, of L n t] first last by (simp add: run_ops_append)
  then have "lru_abs (snd (run_ops (beef_cache_step L) ?ops (lru_new m))) = [(t', new_entry big None), (t, ?en)]"
    using cache_runs[of m L ?ops] by (simp add: cache_abs_def)
  then have "bound < lru_bytes entry_size (snd (run_ops (beef_cache_step L) ?ops (lru_new m)))"
    by (simp add: lru_bytes_def entry_size_def new_entry_def slen_def big_def)
  then show ?thesis by blast
qed

lemma beef_cache_outgrows_budget_witness:
  "\<exists>ops. 1000 < lru_bytes entry_size (snd (run_ops (beef_cache_step demo_beef_lib) (OpPut ''t'' ''raw'' (Some ''proof'') # ops) (lru_new 16)))"
  using beef_cache_outgrows_budget[of "''raw''" "''proof''" 16 1000 demo_beef_lib "''t''"] by simp

end
