(* ===== verification/BeefLoad.thy ===== *)
theory BeefLoad
  imports Beef
begin

text \<open>
  What the chain of \<open>pkg/beef/beef.go\<close> loads: with a chain tracker, only BEEFs that lead down to merkle proofs the
  tracker accepts; and that it returns, whatever the storages answer, when inputs come before the transactions that
  spend them.
\<close>

section \<open>Proven BEEFs\<close>

text \<open>
  A BEEF that stands for a transaction: it was parsed with the transaction's accepted proof, or without
  one, and then the BEEFs of all its inputs, themselves proven, have been merged into it.
\<close>

inductive proven :: "('b, 'mp) beef_lib \<Rightarrow> ('mp \<Rightarrow> txid \<Rightarrow> string + bool) \<Rightarrow> txid \<Rightarrow> ('b, 'mp) beef \<Rightarrow> bool"
  and merged :: "('b, 'mp) beef_lib \<Rightarrow> ('mp \<Rightarrow> txid \<Rightarrow> string + bool) \<Rightarrow> txid list \<Rightarrow> ('b, 'mp) beef \<Rightarrow> ('b, 'mp) beef \<Rightarrow> bool"
  for L verify where
  by_proof: "ParseBeef L b = Inr (bf, Some tx, i) \<Longrightarrow> MerklePath tx = Some mp \<Longrightarrow> verify mp txid = Inr True \<Longrightarrow>
    proven L verify txid bf"
| by_inputs: "ParseBeef L b = Inr (bf, Some tx, i) \<Longrightarrow> MerklePath tx = None \<Longrightarrow>
    merged L verify (map SourceTXID (Inputs tx)) bf bf' \<Longrightarrow> proven L verify txid bf'"
| no_inputs: "merged L verify [] bf bf"
| an_input: "proven L verify t input_bf \<Longrightarrow> MergeBeef L bf input_bf = Inr bf1 \<Longrightarrow> merged L verify ts bf1 bf2 \<Longrightarrow>
    merged L verify (t # ts) bf bf2"

text \<open>What is known of a transaction before its ancestors are loaded.\<close>

definition own_ok :: "('b, 'mp) beef_lib \<Rightarrow> ('mp \<Rightarrow> txid \<Rightarrow> string + bool) \<Rightarrow> txid \<Rightarrow> ('b, 'mp) loaded \<Rightarrow> bool" where
  "own_ok L verify txid r \<longleftrightarrow> (\<exists>b i. ParseBeef L b = Inr (fst r, Some (snd r), i)) \<and>
     (\<forall>mp. MerklePath (snd r) = Some mp \<longrightarrow> verify mp txid = Inr True)"

lemma parse_loaded_Inr:
  "parse_loaded L e b = Inr r \<longleftrightarrow> (\<exists>i. ParseBeef L b = Inr (fst r, Some (snd r), i))"
  by (cases r) (auto simp: parse_loaded_def split: sum.splits option.splits prod.splits)

lemma update_accepted:
  "update_loop L sts ct rest txid w = (Inr b, w') \<Longrightarrow> \<exists>bf tx i. ParseBeef L b = Inr (bf, tx, i) \<and> accepted ct txid tx"
  by (induction rest arbitrary: w) (auto split: prod.splits sum.splits if_splits)

lemma update_own:
  assumes "UpdateMerklePath L C (Some verify) txid w = (Inr b, w')" "parse_loaded L e b = Inr r"
  shows "own_ok L verify txid r \<and> MerklePath (snd r) \<noteq> None"
proof -
  from update_accepted[OF assms(1)[unfolded UpdateMerklePath_def]]
  obtain bf tx i where "ParseBeef L b = Inr (bf, tx, i)" "accepted (Some verify) txid tx" by blast
  then show ?thesis using assms(2)
    by (cases tx) (auto simp: parse_loaded_Inr own_ok_def accepted_def split: option.splits)
qed

lemma load_own_cases:
  assumes "load_own L C txid w = (Inr r, w')" "bc_verify C = Some verify"
  shows "own_ok L verify txid r"
proof -
  obtain b w1 where b: "find_beef [] (bc_storages C) txid w = (Inr (Some b), w1)"
    using assms(1) by (auto simp: load_own_def sm_apply split: prod.splits sum.splits option.splits)
  then obtain r1 w2 where r1: "parse_loaded L not_in_beef b = Inr r1" "sbind (revalidate L C txid r1) (look_for_proof L C txid) w1 = (Inr r, w')"
    using assms(1) by (auto simp: load_own_def sm_apply split: prod.splits sum.splits)
  then obtain r2 w3 where r2: "revalidate L C txid r1 w1 = (Inr r2, w3)" "look_for_proof L C txid r2 w3 = (Inr r, w')"
    by (auto simp: sm_apply split: prod.splits sum.splits)
  have ok2: "own_ok L verify txid r2"
  proof (cases "\<exists>mp. MerklePath (snd r1) = Some mp \<and> verify mp txid \<noteq> Inr True")
    case True
    then obtain u where "UpdateMerklePath L C (Some verify) txid w1 = (Inr u, w3)" "parse_loaded L nil_tx u = Inr r2"
      using r2(1) assms(2) by (auto simp: revalidate_def sm_apply split: prod.splits sum.splits if_splits)
    then show ?thesis by (rule conjunct1[OF update_own])
  next
    case False
    then have "r2 = r1" using r2(1) assms(2) by (auto simp: revalidate_def sm_apply split: option.splits if_splits)
    then show ?thesis using False r1(1) by (auto simp: own_ok_def parse_loaded_Inr)
  qed
  show ?thesis
  proof (cases "MerklePath (snd r2)")
    case None
    then show ?thesis using r2(2) ok2 assms(2) update_own[of L C verify txid w3]
      by (auto simp: look_for_proof_def split: prod.splits sum.splits)
  next
    case (Some mp)
    then show ?thesis using r2(2) ok2 by (simp add: look_for_proof_def sm_apply)
  qed
qed

lemma merge_inputs_merged:
  assumes "merge_inputs L load inputs bf w = Some (Inr bf', w')"
    and "\<And>input w x w''. input \<in> set inputs \<Longrightarrow> load (SourceTXID input) w = Some (Inr x, w'') \<Longrightarrow> proven L verify (SourceTXID input) x"
  shows "merged L verify (map SourceTXID inputs) bf bf'"
  using assms
proof (induction inputs arbitrary: bf w)
  case Nil
  then show ?case by (simp add: no_inputs)
next
  case (Cons input inputs)
  from Cons.prems(1) obtain x w1 bf1 where x: "load (SourceTXID input) w = Some (Inr x, w1)" "MergeBeef L bf x = Inr bf1"
    "merge_inputs L load inputs bf1 w1 = Some (Inr bf', w')"
    by (auto split: option.splits prod.splits sum.splits)
  have "proven L verify (SourceTXID input) x" using Cons.prems(2)[OF _ x(1)] by simp
  moreover have "merged L verify (map SourceTXID inputs) bf1 bf'"
    using Cons.IH[OF x(3)] Cons.prems(2) by simp
  ultimately show ?case using an_input[OF _ x(2)] by simp
qed

lemma load_proven:
  "loadBeef n L C txid w = Some (Inr bf, w') \<Longrightarrow> bc_verify C = Some verify \<Longrightarrow> proven L verify txid bf"
proof (induction n arbitrary: txid w bf w')
  case (Suc n)
  from Suc.prems(1) obtain bf0 tx w1 where own: "load_own L C txid w = (Inr (bf0, tx), w1)"
    by (auto split: prod.splits sum.splits)
  obtain b i where p: "ParseBeef L b = Inr (bf0, Some tx, i)" and v: "\<And>mp. MerklePath tx = Some mp \<Longrightarrow> verify mp txid = Inr True"
    using load_own_cases[OF own Suc.prems(2)] by (auto simp: own_ok_def)
  show ?case
  proof (cases "MerklePath tx")
    case None
    then have "merge_inputs L (loadBeef n L C) (Inputs tx) bf0 w1 = Some (Inr bf, w')" using Suc.prems(1) own by simp
    from merge_inputs_merged[OF this Suc.IH[OF _ Suc.prems(2)]] show ?thesis by (rule by_inputs[OF p None])
  next
    case (Some mp)
    then have "bf0 = bf" using Suc.prems(1) own by simp
    then show ?thesis using by_proof[where txid = txid, OF p Some] v[OF Some] by simp
  qed
qed simp

section \<open>Enough fuel\<close>

text \<open>What the storages may answer for a transaction.\<close>

definition answers :: "('w, 'mp) beef_chain \<Rightarrow> txid \<Rightarrow> bytes \<Rightarrow> bool" where
  "answers C txid b \<longleftrightarrow> (\<exists>st\<in>set (bc_storages C). \<exists>w w'.
     bs_Get st txid w = (Inr b, w') \<or> bs_UpdateMerklePath st txid w = (Inr b, w'))"

text \<open>
  \<open>rank\<close> orders transactions by spending: what the storages answer for a transaction spends only
  transactions of lower rank.
\<close>

definition ranked :: "('b, 'mp) beef_lib \<Rightarrow> ('w, 'mp) beef_chain \<Rightarrow> (txid \<Rightarrow> nat) \<Rightarrow> bool" where
  "ranked L C rank \<longleftrightarrow> (\<forall>txid b bf tx i. answers C txid b \<longrightarrow> ParseBeef L b = Inr (bf, Some tx, i) \<longrightarrow>
     (\<forall>input\<in>set (Inputs tx). rank (SourceTXID input) < rank txid))"

lemma find_answers: "find_beef before sts txid w = (Inr (Some b), w') \<Longrightarrow> \<exists>st\<in>set sts. \<exists>w w'. bs_Get st txid w = (Inr b, w')"
  by (induction sts arbitrary: before w) (fastforce split: prod.splits sum.splits if_splits)+

lemma update_answers: "update_loop L sts ct rest txid w = (Inr b, w') \<Longrightarrow> \<exists>st\<in>set rest. \<exists>w w'. bs_UpdateMerklePath st txid w = (Inr b, w')"
  by (induction rest arbitrary: w) (fastforce split: prod.splits sum.splits if_splits)+

lemma update_parsed:
  assumes "UpdateMerklePath L C ct txid w = (Inr b, w')" "parse_loaded L e b = Inr r"
  shows "\<exists>b i. answers C txid b \<and> ParseBeef L b = Inr (fst r, Some (snd r), i)"
  using update_answers[OF assms(1)[unfolded UpdateMerklePath_def]] assms(2) by (auto simp: answers_def parse_loaded_Inr)

lemma load_own_parsed:
  assumes "load_own L C txid w = (Inr r, w')"
  shows "\<exists>b i. answers C txid b \<and> ParseBeef L b = Inr (fst r, Some (snd r), i)"
proof -
  obtain b w1 r1 w2 where b: "find_beef [] (bc_storages C) txid w = (Inr (Some b), w1)" "parse_loaded L not_in_beef b = Inr r1"
    and r1: "sbind (revalidate L C txid r1) (look_for_proof L C txid) w1 = (Inr r, w')"
    using assms by (auto simp: load_own_def sm_apply split: prod.splits sum.splits option.splits)
  then obtain r2 w3 where r2: "revalidate L C txid r1 w1 = (Inr r2, w3)" "look_for_proof L C txid r2 w3 = (Inr r, w')"
    by (auto simp: sm_apply split: prod.splits sum.splits)
  have "\<exists>b i. answers C txid b \<and> ParseBeef L b = Inr (fst r1, Some (snd r1), i)"
    using find_answers[OF b(1)] b(2) by (auto simp: answers_def parse_loaded_Inr)
  then have "\<exists>b i. answers C txid b \<and> ParseBeef L b = Inr (fst r2, Some (snd r2), i)"
    using r2(1) update_parsed[of L C "bc_verify C" txid w1 _ w3 nil_tx r2]
    by (auto simp: revalidate_def sm_apply split: prod.splits sum.splits option.splits if_splits)
  then show ?thesis
    using r2(2) update_parsed[of L C "bc_verify C" txid w3 _ w' nil_tx r]
    by (auto simp: look_for_proof_def sm_apply split: prod.splits sum.splits if_splits)
qed

lemma merge_inputs_total:
  assumes "\<And>input w. input \<in> set inputs \<Longrightarrow> \<exists>r. load (SourceTXID input) w = Some r"
  shows "\<exists>r. merge_inputs L load inputs bf w = Some r"
  using assms
proof (induction inputs arbitrary: bf w)
  case (Cons input inputs)
  obtain r w1 where r: "load (SourceTXID input) w = Some (r, w1)" using Cons.prems[of input w] by auto
  show ?case
  proof (cases r)
    case (Inr x)
    show ?thesis
    proof (cases "MergeBeef L bf x")
      case (Inr bf1)
      have "\<exists>r. merge_inputs L load inputs bf1 w1 = Some r" by (rule Cons.IH) (use Cons.prems in simp)
      then show ?thesis using r \<open>r = Inr x\<close> Inr by simp
    qed (use r Inr in simp)
  qed (use r in simp)
qed simp

lemma load_total: "ranked L C rank \<Longrightarrow> rank txid < n \<Longrightarrow> \<exists>r. loadBeef n L C txid w = Some r"
proof (induction n arbitrary: txid w)
  case (Suc n)
  obtain r w1 where own: "load_own L C txid w = (r, w1)" by fastforce
  show ?case
  proof (cases r)
    case (Inr p)
    obtain bf tx where p: "p = (bf, tx)" by fastforce
    have "\<exists>r. merge_inputs L (loadBeef n L C) (Inputs tx) bf w1 = Some r" if "MerklePath tx = None"
    proof (rule merge_inputs_total)
      fix input w2 assume "input \<in> set (Inputs tx)"
      then have "rank (SourceTXID input) < rank txid"
        using Suc.prems(1) load_own_parsed[of L C txid w "(bf, tx)" w1] own Inr p unfolding ranked_def by fastforce
      then show "\<exists>r. loadBeef n L C (SourceTXID input) w2 = Some r" using Suc by simp
    qed
    then show ?thesis using own Inr p by simp
  qed (use own in simp)
qed simp

section \<open>The properties\<close>

text \<open>
  C30: with a chain tracker, loading a transaction returns, with fuel above its depth in the order of spending, and
  a BEEF it returns is proven: the transaction's stored proof, or one fetched in its place, is one the tracker accepts,
  or there is none and the BEEFs of all its inputs, proven the same way, have been merged in. An error or an
  unusable answer of a storage never lets an unchecked proof through.
\<close>

theorem beef_load_proven:
  assumes "bc_verify C = Some verify" "ranked L C rank" "rank txid < n"
  shows "\<exists>r w'. loadBeef n L C txid w = Some (r, w') \<and> (\<forall>bf. r = Inr bf \<longrightarrow> proven L verify txid bf)"
proof -
  obtain r w' where "loadBeef n L C txid w = Some (r, w')" using load_total[OF assms(2,3), of w] by auto
  then show ?thesis using load_proven[OF _ assms(1)] by blast
qed

text \<open>One storage with both transactions, which keeps nothing.\<close>

definition demo_storage :: "unit beef_storage" where
  "demo_storage =
     \<lparr>bs_Get = (\<lambda>t. if t \<in> {''c'', ''p''} then sret t else sfail ErrNotFound), bs_Put = (\<lambda>t b. sret ()),
      bs_UpdateMerklePath = (\<lambda>t. sret []), bs_GetRawTx = (\<lambda>t. sfail ErrNotFound), bs_GetProof = (\<lambda>t. sfail ErrNotFound)\<rparr>"

definition demo_beef_chain :: "(unit, bool) beef_chain" where
  "demo_beef_chain = \<lparr>bc_storages = [demo_storage], bc_verify = Some (\<lambda>mp t. Inr mp)\<rparr>"

lemma demo_rank: "ranked demo_beef_lib demo_beef_chain (\<lambda>t. if t = ''c'' then 1 else 0)"
  by (auto simp: ranked_def answers_def demo_beef_chain_def demo_storage_def demo_beef_lib_def demo_tx_def sm_apply split: if_splits)

lemma beef_load_proven_witness:
  "\<exists>bf. loadBeef 2 demo_beef_lib demo_beef_chain ''c'' () = Some (Inr bf, ()) \<and> map fst (bf_Transactions bf) = [''c'', ''p''] \<and>
     proven demo_beef_lib (\<lambda>mp t. Inr mp) ''c'' bf"
proof -
  have "bc_verify demo_beef_chain = Some (\<lambda>mp t. Inr mp)" by (simp add: demo_beef_chain_def)
  from beef_load_proven[OF this demo_rank, of "''c''" 2 "()"]
  obtain r where r: "loadBeef 2 demo_beef_lib demo_beef_chain ''c'' () = Some (r, ())"
      "\<forall>bf. r = Inr bf \<longrightarrow> proven demo_beef_lib (\<lambda>mp t. Inr mp) ''c'' bf"
    by auto
  moreover have "\<exists>bf. loadBeef 2 demo_beef_lib demo_beef_chain ''c'' () = Some (Inr bf, ()) \<and> map fst (bf_Transactions bf) = [''c'', ''p'']"
    by (simp add: numeral_2_eq_2 load_own_def demo_beef_chain_def demo_storage_def demo_beef_lib_def demo_tx_def sm_apply parse_loaded_def
        revalidate_def look_for_proof_def UpdateMerklePath_def)
  ultimately show ?thesis by auto
qed

end
