(* ===== verification/OriginStore.thy ===== *)
theory OriginStore
  imports Txo Engine
begin

text \<open>
  \<open>pkg/ordfs/interfaces.go\<close> and \<open>pkg/ordfs/origin_store.go\<close>: the index of ordinal chains. For every indexed outpoint
  it has the origin and the place on the origin's chain, and for every place of a chain its outpoint and, where the
  output has them, its content revision, its map data and its parent. The Badger store keeps them
  under keys with a four-byte prefix, the origin and the big-endian place.
\<close>

section \<open>The interface\<close>

record origin_info =
  oi_Origin :: outpoint
  oi_Seq :: "32 word"

record rev_entry =
  rv_Outpoint :: "outpoint option"
  rv_ContentType :: bytes
  rv_ContentLength :: "32 word"

record origin_entry =
  oe_Outpoint :: outpoint
  oe_Seq :: "32 word"
  oe_HasRev :: bool
  oe_HasMap :: bool
  oe_HasPar :: bool
  oe_ContentType :: bytes
  oe_ContentLength :: "32 word"

record origin_batch =
  ob_Origin :: outpoint
  ob_Entries :: "origin_entry list"

record 's origin_store =
  os_GetOrigin :: "outpoint \<Rightarrow> ('s, origin_info option) rd"
  os_GetSeqAt :: "outpoint \<Rightarrow> 32 word \<Rightarrow> ('s, outpoint option) rd"
  os_GetLatestSeq :: "outpoint \<Rightarrow> ('s, outpoint option \<times> 32 word) rd"
  os_GetLatestRevBefore :: "outpoint \<Rightarrow> 32 word \<Rightarrow> ('s, rev_entry option) rd"
  os_GetLatestMapBefore :: "outpoint \<Rightarrow> 32 word \<Rightarrow> ('s, outpoint option) rd"
  os_GetLatestParentBefore :: "outpoint \<Rightarrow> 32 word \<Rightarrow> ('s, outpoint option) rd"
  os_GetAllMapUpTo :: "outpoint \<Rightarrow> 32 word \<Rightarrow> ('s, outpoint option list) rd"
  os_GetMapSeq :: "outpoint \<Rightarrow> outpoint \<Rightarrow> ('s, 32 word) rd"
  os_WriteBatch :: "origin_batch \<Rightarrow> ('s, err, unit) sm"
  os_AddEntry :: "outpoint \<Rightarrow> origin_entry \<Rightarrow> ('s, err, unit) sm"

section \<open>Keys and values\<close>

definition prefixOrg :: bytes where "prefixOrg = ''org:''"
definition prefixSeq :: bytes where "prefixSeq = ''seq:''"
definition prefixRev :: bytes where "prefixRev = ''rev:''"
definition prefixMap :: bytes where "prefixMap = ''map:''"
definition prefixPar :: bytes where "prefixPar = ''par:''"
definition metaSchema :: bytes where "metaSchema = ''meta:schema''"

lemmas prefix_defs = prefixOrg_def prefixSeq_def prefixRev_def prefixMap_def prefixPar_def metaSchema_def

text \<open>Reading a big-endian number panics on fewer than four bytes.\<close>

definition put_uint32 :: "32 word \<Rightarrow> bytes" where
  "put_uint32 w = be_bytes 4 (unat w)"

definition get_uint32 :: "bytes \<Rightarrow> err + 32 word" where
  "get_uint32 b = (if length b < 4 then Inl (ErrOther ''panic: index out of range'') else Inr (of_nat (be_nat (take 4 b))))"

definition orgKey :: "sdk \<Rightarrow> outpoint \<Rightarrow> bytes" where
  "orgKey K op = prefixOrg @ op_bytes K op"

definition encodeOrgValue :: "sdk \<Rightarrow> outpoint \<Rightarrow> 32 word \<Rightarrow> bytes" where
  "encodeOrgValue K origin seq = op_bytes K origin @ put_uint32 seq"

text \<open>A slice of 36 bytes is an outpoint, so the second \<open>None\<close> does not happen.\<close>

definition decodeOrgValue :: "sdk \<Rightarrow> bytes \<Rightarrow> origin_info option" where
  "decodeOrgValue K val =
     (if length val < 40 then None
      else case op_from_bytes K (take 36 val) of
             None \<Rightarrow> None
           | Some op \<Rightarrow> Some \<lparr>oi_Origin = op, oi_Seq = of_nat (be_nat (take 4 (drop 36 val)))\<rparr>)"

definition seqKey :: "sdk \<Rightarrow> bytes \<Rightarrow> outpoint \<Rightarrow> 32 word \<Rightarrow> bytes" where
  "seqKey K pre origin seq = pre @ op_bytes K origin @ put_uint32 seq"

definition encodeRevValue :: "sdk \<Rightarrow> outpoint \<Rightarrow> 32 word \<Rightarrow> bytes \<Rightarrow> bytes" where
  "encodeRevValue K op contentLength contentType = op_bytes K op @ put_uint32 contentLength @ contentType"

definition decodeRevValue :: "sdk \<Rightarrow> bytes \<Rightarrow> rev_entry option" where
  "decodeRevValue K val =
     (if length val < 40 then None
      else Some \<lparr>rv_Outpoint = op_from_bytes K (take 36 val), rv_ContentType = drop 40 val,
        rv_ContentLength = of_nat (be_nat (take 4 (drop 36 val)))\<rparr>)"

definition originPrefix :: "sdk \<Rightarrow> bytes \<Rightarrow> outpoint \<Rightarrow> bytes" where
  "originPrefix K pre origin = pre @ op_bytes K origin"

section \<open>The schema\<close>

definition schemaVersion :: "'db engine \<Rightarrow> 'db \<Rightarrow> err + 32 word" where
  "schemaVersion E db =
     (case tx_get E db metaSchema of
        Inl e \<Rightarrow> if e = ErrKeyNotFound then Inr 0 else Inl e
      | Inr val \<Rightarrow>
          if length val < 4 then Inl (ErrOther ''invalid meta:schema value length'')
          else Inr (of_nat (be_nat (take 4 val))))"

text \<open>One transaction: \<open>db.Update\<close>, with no retry on a conflict.\<close>

definition one_update :: "'db engine \<Rightarrow> ('db \<Rightarrow> err + 'db) \<Rightarrow> ('db, err, unit) sm" where
  "one_update E fn db =
     (case fn db of
        Inl e \<Rightarrow> (Inl e, db)
      | Inr db' \<Rightarrow> (case tx_commit E db db' 0 of None \<Rightarrow> (Inr (), db') | Some e \<Rightarrow> (Inl e, db)))"

definition originStoreSchemaVersion :: "32 word" where "originStoreSchemaVersion = 1"

definition ensureSchema :: "'db engine \<Rightarrow> ('db, err, unit) sm" where
  "ensureSchema E =
     sbind (sread (schemaVersion E)) (\<lambda>ver.
       if ver < originStoreSchemaVersion
       then one_update E (\<lambda>db. tx_set E db metaSchema (put_uint32 originStoreSchemaVersion))
       else if originStoreSchemaVersion < ver then sfail (ErrOther ''origin store schema newer than supported'')
       else sret ())"

section \<open>Reads\<close>

definition bo_GetOrigin :: "sdk \<Rightarrow> 'db engine \<Rightarrow> outpoint \<Rightarrow> ('db, origin_info option) rd" where
  "bo_GetOrigin K E op db =
     (case tx_get E db (orgKey K op) of
        Inl e \<Rightarrow> if e = ErrKeyNotFound then Inr None else Inl e
      | Inr val \<Rightarrow>
          (case decodeOrgValue K val of
             None \<Rightarrow> Inl (ErrOther ''invalid org value length'')
           | Some info \<Rightarrow> Inr (Some info)))"

definition bo_GetSeqAt :: "sdk \<Rightarrow> 'db engine \<Rightarrow> outpoint \<Rightarrow> 32 word \<Rightarrow> ('db, outpoint option) rd" where
  "bo_GetSeqAt K E origin seq db =
     (case tx_get E db (seqKey K prefixSeq origin seq) of
        Inl e \<Rightarrow> if e = ErrKeyNotFound then Inr None else Inl e
      | Inr val \<Rightarrow> Inr (op_from_bytes K val))"

text \<open>The item a reverse iterator stands on after \<open>Seek\<close>, if it has the prefix.\<close>

definition seek_back :: "'db engine \<Rightarrow> 'db \<Rightarrow> bytes \<Rightarrow> bytes \<Rightarrow> bytes option" where
  "seek_back E db key pfx =
     (case it_seek E db True key of
        [] \<Rightarrow> None
      | k # ks \<Rightarrow> if prefix pfx k then Some k else None)"

definition bo_GetLatestSeq :: "sdk \<Rightarrow> 'db engine \<Rightarrow> outpoint \<Rightarrow> ('db, outpoint option \<times> 32 word) rd" where
  "bo_GetLatestSeq K E origin db =
     (let pfx = originPrefix K prefixSeq origin in
      case seek_back E db (pfx @ [CHR 0xff]) pfx of
        None \<Rightarrow> Inr (None, 0)
      | Some k \<Rightarrow>
          rbind (get_uint32 (drop (length pfx) k)) (\<lambda>seq.
            rbind (tx_get E db k) (\<lambda>val.
              case op_from_bytes K val of None \<Rightarrow> Inr (None, 0) | Some op \<Rightarrow> Inr (Some op, seq))))"

definition getLatestBefore :: "sdk \<Rightarrow> 'db engine \<Rightarrow> bytes \<Rightarrow> outpoint \<Rightarrow> 32 word \<Rightarrow> ('db, outpoint option) rd" where
  "getLatestBefore K E pre origin seq db =
     (case seek_back E db (seqKey K pre origin seq) (originPrefix K pre origin) of
        None \<Rightarrow> Inr None
      | Some k \<Rightarrow> rbind (tx_get E db k) (\<lambda>val. Inr (op_from_bytes K val)))"

definition bo_GetLatestRevBefore :: "sdk \<Rightarrow> 'db engine \<Rightarrow> outpoint \<Rightarrow> 32 word \<Rightarrow> ('db, rev_entry option) rd" where
  "bo_GetLatestRevBefore K E origin seq db =
     (case seek_back E db (seqKey K prefixRev origin seq) (originPrefix K prefixRev origin) of
        None \<Rightarrow> Inr None
      | Some k \<Rightarrow> rbind (tx_get E db k) (\<lambda>val. Inr (decodeRevValue K val)))"

text \<open>The loops over the map entries of an origin, in the order of the iterator.\<close>

fun maps_up_to :: "sdk \<Rightarrow> nat \<Rightarrow> 32 word \<Rightarrow> (bytes \<times> (err + bytes)) list \<Rightarrow> err + outpoint option list" where
  "maps_up_to K n seq [] = Inr []"
| "maps_up_to K n seq ((k, v) # items) =
     rbind (get_uint32 (drop n k)) (\<lambda>entrySeq.
       if seq < entrySeq then Inr []
       else rbind v (\<lambda>val. rbind (maps_up_to K n seq items) (\<lambda>rest. Inr (op_from_bytes K val # rest))))"

definition bo_GetAllMapUpTo :: "sdk \<Rightarrow> 'db engine \<Rightarrow> outpoint \<Rightarrow> 32 word \<Rightarrow> ('db, outpoint option list) rd" where
  "bo_GetAllMapUpTo K E origin seq db =
     (let pfx = originPrefix K prefixMap origin in maps_up_to K (length pfx) seq (it_prefix E db pfx))"

fun find_map :: "nat \<Rightarrow> bytes \<Rightarrow> (bytes \<times> (err + bytes)) list \<Rightarrow> err + 32 word" where
  "find_map n target [] = Inl (ErrOther ''map entry not found for outpoint'')"
| "find_map n target ((k, v) # items) =
     rbind v (\<lambda>val. if val = target then get_uint32 (drop n k) else find_map n target items)"

definition bo_GetMapSeq :: "sdk \<Rightarrow> 'db engine \<Rightarrow> outpoint \<Rightarrow> outpoint \<Rightarrow> ('db, 32 word) rd" where
  "bo_GetMapSeq K E origin op db =
     (let pfx = originPrefix K prefixMap origin in find_map (length pfx) (op_bytes K op) (it_prefix E db pfx))"

section \<open>Writes\<close>

text \<open>The writes of one entry, in order.\<close>

definition entry_writes :: "sdk \<Rightarrow> outpoint \<Rightarrow> origin_entry \<Rightarrow> kv list" where
  "entry_writes K origin e =
     [(orgKey K (oe_Outpoint e), encodeOrgValue K origin (oe_Seq e)),
      (seqKey K prefixSeq origin (oe_Seq e), op_bytes K (oe_Outpoint e))] @
     (if oe_HasRev e then [(seqKey K prefixRev origin (oe_Seq e),
        encodeRevValue K (oe_Outpoint e) (oe_ContentLength e) (oe_ContentType e))] else []) @
     (if oe_HasMap e then [(seqKey K prefixMap origin (oe_Seq e), op_bytes K (oe_Outpoint e))] else []) @
     (if oe_HasPar e then [(seqKey K prefixPar origin (oe_Seq e), op_bytes K (oe_Outpoint e))] else [])"

definition set_all :: "'db engine \<Rightarrow> kv list \<Rightarrow> 'db \<Rightarrow> err + 'db" where
  "set_all E = rfold (\<lambda>(k, v) db. tx_set E db k v)"

definition bo_WriteBatch :: "sdk \<Rightarrow> 'db engine \<Rightarrow> origin_batch \<Rightarrow> ('db, err, unit) sm" where
  "bo_WriteBatch K E batch =
     one_update E (set_all E (concat (map (entry_writes K (ob_Origin batch)) (ob_Entries batch))))"

definition bo_AddEntry :: "sdk \<Rightarrow> 'db engine \<Rightarrow> outpoint \<Rightarrow> origin_entry \<Rightarrow> ('db, err, unit) sm" where
  "bo_AddEntry K E origin e = one_update E (set_all E (entry_writes K origin e))"

definition BadgerOriginStore :: "sdk \<Rightarrow> 'db engine \<Rightarrow> 'db origin_store" where
  "BadgerOriginStore K E =
     \<lparr> os_GetOrigin = bo_GetOrigin K E, os_GetSeqAt = bo_GetSeqAt K E, os_GetLatestSeq = bo_GetLatestSeq K E,
       os_GetLatestRevBefore = bo_GetLatestRevBefore K E,
       os_GetLatestMapBefore = getLatestBefore K E prefixMap,
       os_GetLatestParentBefore = getLatestBefore K E prefixPar,
       os_GetAllMapUpTo = bo_GetAllMapUpTo K E, os_GetMapSeq = bo_GetMapSeq K E,
       os_WriteBatch = bo_WriteBatch K E, os_AddEntry = bo_AddEntry K E \<rparr>"

end
