(* ===== verification/OriginLaws.thy ===== *)
theory OriginLaws
  imports OriginStore
begin

text \<open>
  The contract of an origin store, on its contents as maps, and the proof that the Badger store keeps it:
  the keys sort by place within a chain, so that a reverse seek finds the latest entry at or before a
  place and an iteration lists the entries in order.
\<close>

section \<open>Abstract contents\<close>

record origins =
  og_org :: "outpoint \<Rightarrow> (outpoint \<times> 32 word) option"
  og_seq :: "outpoint \<Rightarrow> 32 word \<Rightarrow> outpoint option"
  og_rev :: "outpoint \<Rightarrow> 32 word \<Rightarrow> rev_entry option"
  og_map :: "outpoint \<Rightarrow> 32 word \<Rightarrow> outpoint option"
  og_par :: "outpoint \<Rightarrow> 32 word \<Rightarrow> outpoint option"

definition at :: "outpoint \<Rightarrow> 32 word \<Rightarrow> 'a \<Rightarrow> (outpoint \<Rightarrow> 32 word \<Rightarrow> 'a option) \<Rightarrow> outpoint \<Rightarrow> 32 word \<Rightarrow> 'a option" where
  "at o1 n x f = f(o1 := (f o1)(n \<mapsto> x))"

definition rev_of :: "origin_entry \<Rightarrow> rev_entry" where
  "rev_of e = \<lparr>rv_Outpoint = Some (oe_Outpoint e), rv_ContentType = oe_ContentType e, rv_ContentLength = oe_ContentLength e\<rparr>"

definition put_entry :: "outpoint \<Rightarrow> origin_entry \<Rightarrow> origins \<Rightarrow> origins" where
  "put_entry o1 e g = g\<lparr>
     og_org := (og_org g)(oe_Outpoint e \<mapsto> (o1, oe_Seq e)),
     og_seq := at o1 (oe_Seq e) (oe_Outpoint e) (og_seq g),
     og_rev := (if oe_HasRev e then at o1 (oe_Seq e) (rev_of e) (og_rev g) else og_rev g),
     og_map := (if oe_HasMap e then at o1 (oe_Seq e) (oe_Outpoint e) (og_map g) else og_map g),
     og_par := (if oe_HasPar e then at o1 (oe_Seq e) (oe_Outpoint e) (og_par g) else og_par g)\<rparr>"

text \<open>The places up to a place in order, and the latest of them.\<close>

definition places :: "(32 word \<Rightarrow> 'a option) \<Rightarrow> 32 word \<Rightarrow> 32 word list" where
  "places f n = sorted_list_of_set {m. m \<le> n \<and> f m \<noteq> None}"

definition latest :: "(32 word \<Rightarrow> 'a option) \<Rightarrow> 32 word \<Rightarrow> 32 word option" where
  "latest f n = (case rev (places f n) of [] \<Rightarrow> None | m # ms \<Rightarrow> Some m)"

lemma places_props: "set (places f n) = {m. m \<le> n \<and> f m \<noteq> None}" "sorted (places f n)" "distinct (places f n)"
  by (simp_all add: places_def)

lemma latest_Some: "latest f n = Some m \<longleftrightarrow> m \<le> n \<and> f m \<noteq> None \<and> (\<forall>k\<le>n. f k \<noteq> None \<longrightarrow> k \<le> m)"
proof (cases "rev (places f n)")
  case Nil
  then show ?thesis using places_props(1)[of f n] by (auto simp: latest_def)
next
  case (Cons l ls)
  then have l: "places f n = rev ls @ [l]" by simp
  then have "m' \<in> set (places f n) \<Longrightarrow> m' \<le> l" for m' using places_props(2)[of f n] by (auto simp: sorted_append)
  moreover have "l \<in> set (places f n)" using l by simp
  ultimately have "l \<le> n \<and> f l \<noteq> None \<and> (\<forall>k\<le>n. f k \<noteq> None \<longrightarrow> k \<le> l)" using places_props(1)[of f n] by auto
  then show ?thesis using Cons by (auto simp: latest_def intro: antisym)
qed

lemma latest_None: "latest f n = None \<longleftrightarrow> (\<forall>m\<le>n. f m = None)"
proof -
  have "latest f n = None \<longleftrightarrow> places f n = []" by (simp add: latest_def split: list.splits)
  also have "\<dots> \<longleftrightarrow> {m. m \<le> n \<and> f m \<noteq> None} = {}" using places_props(1)[of f n] by (metis set_empty)
  finally show ?thesis by auto
qed

section \<open>The contract\<close>

locale origin_laws =
  fixes O' :: "'s origin_store" and ok :: "'s \<Rightarrow> bool" and view :: "'s \<Rightarrow> origins"
  assumes GetOrigin_law: "ok s \<Longrightarrow> wf_op p \<Longrightarrow>
      os_GetOrigin O' p s = Inr (map_option (\<lambda>(o1, n). \<lparr>oi_Origin = o1, oi_Seq = n\<rparr>) (og_org (view s) p))"
    and org_wf: "ok s \<Longrightarrow> og_org (view s) p = Some (o1, n) \<Longrightarrow> wf_op o1"
    and seq_wf: "ok s \<Longrightarrow> og_seq (view s) o1 n = Some p \<Longrightarrow> wf_op p"
    and GetSeqAt_law: "ok s \<Longrightarrow> wf_op o1 \<Longrightarrow> os_GetSeqAt O' o1 n s = Inr (og_seq (view s) o1 n)"
    and LatestSeq_law: "ok s \<Longrightarrow> wf_op o1 \<Longrightarrow> (\<forall>n. og_seq (view s) o1 n \<noteq> None \<longrightarrow> n < 0xff000000) \<Longrightarrow>
      os_GetLatestSeq O' o1 s = Inr (case latest (og_seq (view s) o1) (- 1) of None \<Rightarrow> (None, 0) | Some n \<Rightarrow> (og_seq (view s) o1 n, n))"
    and RevBefore_law: "ok s \<Longrightarrow> wf_op o1 \<Longrightarrow>
      os_GetLatestRevBefore O' o1 n s = Inr (Option.bind (latest (og_rev (view s) o1) n) (og_rev (view s) o1))"
    and MapBefore_law: "ok s \<Longrightarrow> wf_op o1 \<Longrightarrow>
      os_GetLatestMapBefore O' o1 n s = Inr (Option.bind (latest (og_map (view s) o1) n) (og_map (view s) o1))"
    and ParBefore_law: "ok s \<Longrightarrow> wf_op o1 \<Longrightarrow>
      os_GetLatestParentBefore O' o1 n s = Inr (Option.bind (latest (og_par (view s) o1) n) (og_par (view s) o1))"
    and MapUpTo_law: "ok s \<Longrightarrow> wf_op o1 \<Longrightarrow>
      os_GetAllMapUpTo O' o1 n s = Inr (map (og_map (view s) o1) (places (og_map (view s) o1) n))"
    and MapSeq_law: "ok s \<Longrightarrow> wf_op o1 \<Longrightarrow> wf_op p \<Longrightarrow>
      os_GetMapSeq O' o1 p s = (case filter (\<lambda>m. og_map (view s) o1 m = Some p) (places (og_map (view s) o1) (- 1)) of
        [] \<Rightarrow> Inl (ErrOther ''map entry not found for outpoint'') | m # ms \<Rightarrow> Inr m)"
    and Add_law: "ok s \<Longrightarrow> wf_op o1 \<Longrightarrow> wf_op (oe_Outpoint e) \<Longrightarrow>
      \<exists>s'. os_AddEntry O' o1 e s = (Inr (), s') \<and> ok s' \<and> view s' = put_entry o1 e (view s)"
    and Batch_law: "ok s \<Longrightarrow> wf_op o1 \<Longrightarrow> \<forall>e\<in>set es. wf_op (oe_Outpoint e) \<Longrightarrow>
      \<exists>s'. os_WriteBatch O' \<lparr>ob_Origin = o1, ob_Entries = es\<rparr> s = (Inr (), s') \<and> ok s' \<and> view s' = fold (put_entry o1) es (view s)"

section \<open>Keys\<close>

lemma put_uint32_simps [simp]: "length (put_uint32 n) = 4" "of_nat (be_nat (put_uint32 n)) = n"
  "get_uint32 (put_uint32 n) = Inr n" "be_nat (put_uint32 n) = unat n"
  by (simp_all add: put_uint32_def get_uint32_def be4_word)

lemma put_uint32_less: "put_uint32 m < put_uint32 n \<longleftrightarrow> m < n"
  using be_nat_less_iff[of "put_uint32 m" "put_uint32 n"] by (simp add: word_less_nat_alt)

lemma put_uint32_le: "put_uint32 m \<le> put_uint32 n \<longleftrightarrow> m \<le> n"
  using put_uint32_less[of n m] by (simp add: linorder_not_less[symmetric])

lemma put_uint32_inj [simp]: "put_uint32 m = put_uint32 n \<longleftrightarrow> m = n"
  by (metis put_uint32_simps(2))

lemma append_less: "(p @ x < p @ y) = (x < (y :: bytes))"
  by (induction p) auto

lemma append_le: "(p @ x \<le> p @ y) = (x \<le> (y :: bytes))"
  using append_less[of p y x] by (simp add: linorder_not_less[symmetric])

text \<open>The prefixes keep their keys apart.\<close>

definition timeline_prefixes :: "bytes set" where
  "timeline_prefixes = {prefixSeq, prefixRev, prefixMap, prefixPar}"

lemma prefix_lengths [simp]: "p \<in> timeline_prefixes \<Longrightarrow> length p = 4" "length prefixOrg = 4"
  by (auto simp: timeline_prefixes_def prefix_defs)

lemma prefix_in [simp]: "prefixSeq \<in> timeline_prefixes" "prefixRev \<in> timeline_prefixes" "prefixMap \<in> timeline_prefixes"
  "prefixPar \<in> timeline_prefixes" "prefixOrg \<notin> timeline_prefixes"
  by (auto simp: timeline_prefixes_def prefix_defs)

lemma prefix_neq [simp]: "prefixSeq \<noteq> prefixRev" "prefixSeq \<noteq> prefixMap" "prefixSeq \<noteq> prefixPar" "prefixRev \<noteq> prefixMap"
  "prefixRev \<noteq> prefixPar" "prefixMap \<noteq> prefixPar" "prefixRev \<noteq> prefixSeq" "prefixMap \<noteq> prefixSeq" "prefixPar \<noteq> prefixSeq"
  "prefixMap \<noteq> prefixRev" "prefixPar \<noteq> prefixRev" "prefixPar \<noteq> prefixMap"
  by (auto simp: prefix_defs)

context sdk_laws
begin

lemma seqKey_inj:
  assumes "p \<in> timeline_prefixes" "q \<in> timeline_prefixes" "wf_op o1" "wf_op o2"
  shows "seqKey K p o1 m = seqKey K q o2 n \<longleftrightarrow> p = q \<and> o1 = o2 \<and> m = n"
proof -
  have "length p = length q" "length (op_bytes K o1) = length (op_bytes K o2)"
    using assms op_bytes_length by simp_all
  then show ?thesis using op_bytes_inj[OF assms(3,4)] by (auto simp: seqKey_def)
qed

lemma orgKey_inj: "wf_op a \<Longrightarrow> wf_op b \<Longrightarrow> orgKey K a = orgKey K b \<longleftrightarrow> a = b"
  using op_bytes_inj by (simp add: orgKey_def)

lemma org_seq_keys: "p \<in> timeline_prefixes \<Longrightarrow> orgKey K a \<noteq> seqKey K p o1 n"
proof
  assume "p \<in> timeline_prefixes" "orgKey K a = seqKey K p o1 n"
  then have "prefixOrg = p" unfolding orgKey_def seqKey_def by (metis append_eq_append_conv prefix_lengths)
  then show False using \<open>p \<in> timeline_prefixes\<close> by simp
qed

lemma decode_values [simp]:
  "wf_op a \<Longrightarrow> decodeOrgValue K (encodeOrgValue K a n) = Some \<lparr>oi_Origin = a, oi_Seq = n\<rparr>"
  "wf_op a \<Longrightarrow> decodeRevValue K (encodeRevValue K a n t) = Some \<lparr>rv_Outpoint = Some a, rv_ContentType = t, rv_ContentLength = n\<rparr>"
  by (simp_all add: decodeOrgValue_def encodeOrgValue_def decodeRevValue_def encodeRevValue_def op_bytes_length op_from_bytes)

end

section \<open>The contents of a Badger store\<close>

definition badger_origins :: "sdk \<Rightarrow> (bytes \<Rightarrow> bytes option) \<Rightarrow> origins" where
  "badger_origins K V =
     \<lparr>og_org = (\<lambda>p. if wf_op p then map_option (\<lambda>i. (oi_Origin i, oi_Seq i)) (Option.bind (V (orgKey K p)) (decodeOrgValue K)) else None),
      og_seq = (\<lambda>o1 n. if wf_op o1 then Option.bind (V (seqKey K prefixSeq o1 n)) (op_from_bytes K) else None),
      og_rev = (\<lambda>o1 n. if wf_op o1 then Option.bind (V (seqKey K prefixRev o1 n)) (decodeRevValue K) else None),
      og_map = (\<lambda>o1 n. if wf_op o1 then Option.bind (V (seqKey K prefixMap o1 n)) (op_from_bytes K) else None),
      og_par = (\<lambda>o1 n. if wf_op o1 then Option.bind (V (seqKey K prefixPar o1 n)) (op_from_bytes K) else None)\<rparr>"

text \<open>Only the store's own writes are under its prefixes.\<close>

definition entry_ok :: "sdk \<Rightarrow> bytes \<Rightarrow> bytes \<Rightarrow> bool" where
  "entry_ok K k v \<longleftrightarrow>
     (prefix prefixOrg k \<longrightarrow> (\<exists>a n. wf_op a \<and> v = encodeOrgValue K a n)) \<and>
     (\<forall>p\<in>timeline_prefixes. prefix p k \<longrightarrow> (\<exists>o1 n. wf_op o1 \<and> k = seqKey K p o1 n)) \<and>
     (prefix prefixRev k \<longrightarrow> (\<exists>a n t. wf_op a \<and> v = encodeRevValue K a n t)) \<and>
     (\<forall>p\<in>timeline_prefixes - {prefixRev}. prefix p k \<longrightarrow> (\<exists>a. wf_op a \<and> v = op_bytes K a))"

definition origins_ok :: "sdk \<Rightarrow> (bytes \<Rightarrow> bytes option) \<Rightarrow> bool" where
  "origins_ok K V \<longleftrightarrow> (\<forall>k v. V k = Some v \<longrightarrow> entry_ok K k v)"

context sdk_laws
begin

text \<open>What the writes do to the abstract contents.\<close>

lemma seq_entry:
  assumes "wf_op o1" "wf_op a" "V (seqKey K prefixSeq o1 n) = Some (op_bytes K a)"
  shows "og_seq (badger_origins K V) o1 n = Some a"
  using assms op_from_bytes by (simp add: badger_origins_def)

lemma timeline_key: "prefix p (seqKey K q o1 n) \<longleftrightarrow> p = q" if "p \<in> timeline_prefixes" "q \<in> timeline_prefixes"
  using that by (auto simp: seqKey_def prefix_def append_eq_append_conv2 timeline_prefixes_def prefix_defs)

lemma other_prefixes [simp]: "p \<in> timeline_prefixes \<Longrightarrow> \<not> prefix p (orgKey K a)" "p \<in> timeline_prefixes \<Longrightarrow> \<not> prefix prefixOrg (seqKey K p o1 n)"
  "prefix prefixOrg (orgKey K a)"
  by (auto simp: orgKey_def seqKey_def timeline_prefixes_def prefix_defs)

lemma view_write_org:
  assumes "wf_op a" "wf_op o1"
  shows "badger_origins K (V(orgKey K a \<mapsto> encodeOrgValue K o1 n)) =
    (badger_origins K V)\<lparr>og_org := (og_org (badger_origins K V))(a \<mapsto> (o1, n))\<rparr>"
  using assms by (auto simp: badger_origins_def fun_eq_iff orgKey_inj org_seq_keys org_seq_keys[symmetric])

lemma view_write_line:
  assumes "wf_op a" "wf_op o1"
  shows "badger_origins K (V(seqKey K prefixSeq o1 n \<mapsto> op_bytes K a)) =
      (badger_origins K V)\<lparr>og_seq := at o1 n a (og_seq (badger_origins K V))\<rparr>"
    and "badger_origins K (V(seqKey K prefixMap o1 n \<mapsto> op_bytes K a)) =
      (badger_origins K V)\<lparr>og_map := at o1 n a (og_map (badger_origins K V))\<rparr>"
    and "badger_origins K (V(seqKey K prefixPar o1 n \<mapsto> op_bytes K a)) =
      (badger_origins K V)\<lparr>og_par := at o1 n a (og_par (badger_origins K V))\<rparr>"
    and "badger_origins K (V(seqKey K prefixRev o1 n \<mapsto> encodeRevValue K a len t)) =
      (badger_origins K V)\<lparr>og_rev := at o1 n \<lparr>rv_Outpoint = Some a, rv_ContentType = t, rv_ContentLength = len\<rparr> (og_rev (badger_origins K V))\<rparr>"
  using assms op_from_bytes by (auto simp: badger_origins_def fun_eq_iff at_def seqKey_inj org_seq_keys)

definition good_write :: "bytes \<times> bytes \<Rightarrow> bool" where
  "good_write kv \<longleftrightarrow>
     (\<exists>a o1 n. wf_op a \<and> wf_op o1 \<and> kv = (orgKey K a, encodeOrgValue K o1 n)) \<or>
     (\<exists>p a o1 n. p \<in> timeline_prefixes - {prefixRev} \<and> wf_op a \<and> wf_op o1 \<and> kv = (seqKey K p o1 n, op_bytes K a)) \<or>
     (\<exists>a o1 n len t. wf_op a \<and> wf_op o1 \<and> kv = (seqKey K prefixRev o1 n, encodeRevValue K a len t))"

lemma good_write_ok: "good_write kv \<Longrightarrow> entry_ok K (fst kv) (snd kv)"
  unfolding good_write_def
proof (elim disjE exE conjE)
  fix a o1 n assume "wf_op o1" "kv = (orgKey K a, encodeOrgValue K o1 n)"
  then show ?thesis using other_prefixes prefix_in by (auto simp: entry_ok_def)
next
  fix p a o1 n assume "p \<in> timeline_prefixes - {prefixRev}" "wf_op a" "wf_op o1" "kv = (seqKey K p o1 n, op_bytes K a)"
  then show ?thesis by (auto simp: entry_ok_def timeline_key)
next
  fix a o1 n len t assume "wf_op a" "wf_op o1" "kv = (seqKey K prefixRev o1 n, encodeRevValue K a len t)"
  then show ?thesis by (auto simp: entry_ok_def timeline_key)
qed

lemma ok_write: "origins_ok K V \<Longrightarrow> good_write kv \<Longrightarrow> origins_ok K (V(fst kv \<mapsto> snd kv))"
  using good_write_ok by (auto simp: origins_ok_def)

lemma ok_writes: "origins_ok K V \<Longrightarrow> list_all good_write kvs \<Longrightarrow> origins_ok K (fold (\<lambda>kv V. V(fst kv \<mapsto> snd kv)) kvs V)"
  by (induction kvs arbitrary: V) (auto intro: ok_write)

lemma good_entry:
  assumes "wf_op o1" "wf_op (oe_Outpoint e)"
  shows "list_all good_write (entry_writes K o1 e)"
proof -
  have "good_write (orgKey K (oe_Outpoint e), encodeOrgValue K o1 (oe_Seq e))" using assms unfolding good_write_def by blast
  moreover have "good_write (seqKey K p o1 (oe_Seq e), op_bytes K (oe_Outpoint e))" if "p \<in> timeline_prefixes - {prefixRev}" for p
    using assms that unfolding good_write_def by blast
  moreover have "good_write (seqKey K prefixRev o1 (oe_Seq e), encodeRevValue K (oe_Outpoint e) (oe_ContentLength e) (oe_ContentType e))"
    using assms unfolding good_write_def by blast
  ultimately show ?thesis by (simp add: entry_writes_def)
qed

lemma view_entry:
  assumes "wf_op o1" "wf_op (oe_Outpoint e)"
  shows "badger_origins K (fold (\<lambda>kv V. V(fst kv \<mapsto> snd kv)) (entry_writes K o1 e) V) = put_entry o1 e (badger_origins K V)"
  using assms by (simp add: entry_writes_def put_entry_def view_write_org view_write_line rev_of_def)

lemma view_entries:
  assumes "wf_op o1" "\<forall>e\<in>set es. wf_op (oe_Outpoint e)"
  shows "badger_origins K (fold (\<lambda>kv V. V(fst kv \<mapsto> snd kv)) (concat (map (entry_writes K o1) es)) V) =
      fold (put_entry o1) es (badger_origins K V)"
    and "list_all good_write (concat (map (entry_writes K o1) es))"
  using assms by (induction es arbitrary: V) (auto simp: view_entry good_entry)

end

end
