(* ===== verification/OriginBadger.thy ===== *)
theory OriginBadger
  imports OriginLaws
begin

text \<open>The Badger origin store keeps the contract of an origin store.\<close>

lemma latest_cong: "(\<And>m. f m = None \<longleftrightarrow> g m = None) \<Longrightarrow> latest f n = latest g n"
  and places_cong: "(\<And>m. f m = None \<longleftrightarrow> g m = None) \<Longrightarrow> places f n = places g n"
  by (simp_all add: latest_def places_def)

lemma takeWhile_sorted: "sorted xs \<Longrightarrow> takeWhile (\<lambda>m. m \<le> n) xs = filter (\<lambda>m. m \<le> n) (xs :: 'a :: linorder list)"
  by (induction xs) (auto simp: filter_empty_conv intro!: filter_False[symmetric] dest: order_trans)

lemma places_takeWhile: "takeWhile (\<lambda>m. m \<le> n) (places f (- 1)) = places f n"
proof -
  have "filter (\<lambda>m. m \<le> n) (places f (- 1)) = places f n"
    by (rule sorted_distinct_set_unique) (use places_props[of f] in \<open>auto simp: sorted_wrt_filter\<close>)
  then show ?thesis using takeWhile_sorted[OF places_props(2)] by metis
qed

lemma put_uint32_ff: "n < 0xff000000 \<Longrightarrow> put_uint32 n \<le> [CHR 0xff]"
proof -
  assume "n < 0xff000000"
  then have n: "unat n < 0xff000000" by (simp add: word_less_nat_alt)
  have "be_bytes (Suc 3) (unat n) = char_of (unat n div 256 ^ 3) # be_bytes 3 (unat n)" by (rule be_bytes.simps(2))
  then have hd: "put_uint32 n = char_of (unat n div 16777216) # be_bytes 3 (unat n)"
    by (simp add: put_uint32_def)
  have "unat n div 16777216 < 255" using n by (simp add: div_less_iff_less_mult)
  then have "(char_of (unat n div 16777216) :: char) < CHR 0xff" by (simp add: less_char_def of_char_of)
  then show ?thesis unfolding hd by simp
qed

lemma maps_up_to_written:
  "length pre = k \<Longrightarrow> maps_up_to K k n (map (\<lambda>m. (pre @ put_uint32 m, Inr (v m))) ms) =
    Inr (map (\<lambda>m. op_from_bytes K (v m)) (takeWhile (\<lambda>m. m \<le> n) ms))"
  by (induction ms) (auto simp: linorder_not_le)

lemma find_map_written:
  "length pre = k \<Longrightarrow> find_map k target (map (\<lambda>m. (pre @ put_uint32 m, Inr (v m))) ms) =
    (case filter (\<lambda>m. v m = target) ms of [] \<Rightarrow> Inl (ErrOther ''map entry not found for outpoint'') | m # ms \<Rightarrow> Inr m)"
  by (induction ms) auto

locale badger_origin_store = badger_engine E + sdk_laws K for E :: "'db engine" and K
begin

abbreviation contents_of :: "'db \<Rightarrow> bytes \<Rightarrow> bytes option" where "contents_of db \<equiv> eview E db"

lemma entry: "origins_ok K (contents_of db) \<Longrightarrow> contents_of db k = Some v \<Longrightarrow> entry_ok K k v"
  by (simp add: origins_ok_def)

lemma under_prefix:
  assumes "origins_ok K (contents_of db)" "contents_of db k \<noteq> None" "p \<in> timeline_prefixes" "wf_op o1" "prefix (originPrefix K p o1) k"
  shows "\<exists>n. k = seqKey K p o1 n"
proof -
  have "prefix p k" using assms(5) unfolding originPrefix_def by (meson append_prefixD)
  then obtain o2 n where k: "wf_op o2" "k = seqKey K p o2 n"
    using entry[OF assms(1)] assms(2,3) unfolding entry_ok_def by blast
  then have "prefix (op_bytes K o1) (op_bytes K o2 @ put_uint32 n)" using assms(5) by (simp add: originPrefix_def seqKey_def)
  then have "op_bytes K o1 = op_bytes K o2"
    using op_bytes_length[OF assms(4)] op_bytes_length[OF k(1)] by (auto simp: prefix_def append_eq_append_conv)
  then show ?thesis using op_bytes_inj[OF assms(4) k(1)] k(2) by blast
qed

lemma seek_back_latest:
  assumes ok: "origins_ok K (contents_of db)" and p: "p \<in> timeline_prefixes" and wf: "wf_op o1"
    and key: "prefix (originPrefix K p o1) key"
    and le: "\<And>m. contents_of db (seqKey K p o1 m) \<noteq> None \<Longrightarrow> seqKey K p o1 m \<le> key \<longleftrightarrow> m \<le> n"
  shows "seek_back E db key (originPrefix K p o1) = map_option (seqKey K p o1) (latest (\<lambda>m. contents_of db (seqKey K p o1 m)) n)"
proof (cases "it_seek E db True key")
  case Nil
  then have none: "\<not> (contents_of db k \<noteq> None \<and> k \<le> key)" for k using seek_rev_items[of db key] by auto
  have "latest (\<lambda>m. contents_of db (seqKey K p o1 m)) n = None"
    unfolding latest_None using le none by blast
  then show ?thesis by (simp add: seek_back_def Nil)
next
  case (Cons k ks)
  have k: "contents_of db k \<noteq> None" "k \<le> key" using seek_rev_items[of db key] Cons by auto
  have max: "k' \<le> k" if "contents_of db k' \<noteq> None" "k' \<le> key" for k'
  proof -
    have "k' \<in> set (k # ks)" using seek_rev_items[of db key] Cons that by auto
    then show ?thesis using seek_rev_sorted[of db key] Cons by (auto simp: less_imp_le)
  qed
  have pre: "prefix (originPrefix K p o1) (seqKey K p o1 m)" for m by (simp add: originPrefix_def seqKey_def)
  show ?thesis
  proof (cases "prefix (originPrefix K p o1) k")
    case True
    then obtain m where m: "k = seqKey K p o1 m" using under_prefix[OF ok k(1) p wf] by blast
    have "seqKey K p o1 m' \<le> seqKey K p o1 m \<longleftrightarrow> m' \<le> m" for m' by (simp add: seqKey_def append_le put_uint32_le)
    then have "latest (\<lambda>m. contents_of db (seqKey K p o1 m)) n = Some m"
      unfolding latest_Some using k max le m by metis
    then show ?thesis using True by (simp add: seek_back_def Cons m)
  next
    case False
    have "\<not> (m \<le> n \<and> contents_of db (seqKey K p o1 m) \<noteq> None)" for m
    proof
      assume m: "m \<le> n \<and> contents_of db (seqKey K p o1 m) \<noteq> None"
      then have "seqKey K p o1 m \<le> k" using max le by blast
      moreover have "originPrefix K p o1 \<le> seqKey K p o1 m" using prefix_le[OF pre] .
      ultimately have "originPrefix K p o1 \<le> k" by (rule order_trans[rotated])
      then show False using prefix_interval[OF _ k(2) key] False by blast
    qed
    then have "latest (\<lambda>m. contents_of db (seqKey K p o1 m)) n = None" unfolding latest_None by blast
    then show ?thesis using False by (simp add: seek_back_def Cons)
  qed
qed

lemma prefix_places:
  assumes ok: "origins_ok K (contents_of db)" and p: "p \<in> timeline_prefixes" and wf: "wf_op o1"
  shows "it_prefix E db (originPrefix K p o1) =
    map (\<lambda>m. (originPrefix K p o1 @ put_uint32 m, Inr (the (contents_of db (seqKey K p o1 m))))) (places (\<lambda>m. contents_of db (seqKey K p o1 m)) (- 1))"
proof -
  let ?pl = "places (\<lambda>m. contents_of db (seqKey K p o1 m)) (- 1)"
  let ?items = "it_prefix E db (originPrefix K p o1)"
  have key: "originPrefix K p o1 @ put_uint32 m = seqKey K p o1 m" for m by (simp add: originPrefix_def seqKey_def)
  have pre: "prefix (originPrefix K p o1) (seqKey K p o1 m)" for m by (simp add: key[symmetric])
  have "set (map fst ?items) = seqKey K p o1 ` {m. contents_of db (seqKey K p o1 m) \<noteq> None}"
  proof (rule set_eqI)
    fix k
    show "k \<in> set (map fst ?items) \<longleftrightarrow> k \<in> seqKey K p o1 ` {m. contents_of db (seqKey K p o1 m) \<noteq> None}"
      unfolding prefix_keys using under_prefix[OF ok _ p wf, of k] pre by auto
  qed
  then have "set (map fst ?items) = seqKey K p o1 ` set ?pl" by (simp add: places_props)
  moreover have "sorted_wrt (<) (map (seqKey K p o1) ?pl)"
    using places_props(2,3)[of "\<lambda>m. contents_of db (seqKey K p o1 m)" "- 1"]
    by (simp add: sorted_wrt_map seqKey_def append_less put_uint32_less strict_sorted_iff)
  ultimately have keys: "map fst ?items = map (seqKey K p o1) ?pl"
    using prefix_sorted[of db "originPrefix K p o1"]
    by (intro sorted_distinct_set_unique) (auto simp: strict_sorted_iff)
  have "?items = map (\<lambda>k. (k, Inr (the (contents_of db k)))) (map fst ?items)"
  proof -
    have "x = (fst x, Inr (the (contents_of db (fst x))))" if "x \<in> set ?items" for x
      using prefix_values(1)[OF that] by (cases x) auto
    then show ?thesis by (simp add: map_idI)
  qed
  then show ?thesis unfolding keys by (simp add: key)
qed

text \<open>What is under the keys decodes, so the abstract contents have the same places.\<close>

lemma line_value:
  assumes "origins_ok K (contents_of db)" "p \<in> timeline_prefixes - {prefixRev}" "wf_op o1" "contents_of db (seqKey K p o1 n) = Some v"
  shows "\<exists>a. wf_op a \<and> v = op_bytes K a \<and> op_from_bytes K v = Some a"
proof -
  have "prefix p (seqKey K p o1 n)" by (simp add: seqKey_def)
  then obtain a where "wf_op a" "v = op_bytes K a" using entry[OF assms(1,4)] assms(2) unfolding entry_ok_def by blast
  then show ?thesis using op_from_bytes by blast
qed

lemma rev_value:
  assumes "origins_ok K (contents_of db)" "wf_op o1" "contents_of db (seqKey K prefixRev o1 n) = Some v"
  shows "decodeRevValue K v \<noteq> None"
proof -
  have "prefix prefixRev (seqKey K prefixRev o1 n)" by (simp add: seqKey_def)
  then obtain a n' t where "wf_op a" "v = encodeRevValue K a n' t" using entry[OF assms(1,3)] unfolding entry_ok_def by blast
  then show ?thesis by simp
qed

lemma line_none:
  assumes "origins_ok K (contents_of db)" "wf_op o1" "p \<in> timeline_prefixes - {prefixRev}"
  shows "Option.bind (contents_of db (seqKey K p o1 n)) (op_from_bytes K) = None \<longleftrightarrow> contents_of db (seqKey K p o1 n) = None"
  using line_value[OF assms(1,3,2), of n] by (cases "contents_of db (seqKey K p o1 n)") auto

lemma rev_none:
  assumes "origins_ok K (contents_of db)" "wf_op o1"
  shows "Option.bind (contents_of db (seqKey K prefixRev o1 n)) (decodeRevValue K) = None \<longleftrightarrow> contents_of db (seqKey K prefixRev o1 n) = None"
  using rev_value[OF assms, of n] by (cases "contents_of db (seqKey K prefixRev o1 n)") auto

text \<open>The reads, on the abstract contents.\<close>

lemma before_law:
  assumes "origins_ok K (contents_of db)" "wf_op o1" "p \<in> timeline_prefixes - {prefixRev}"
  shows "getLatestBefore K E p o1 n db =
    (let f = (\<lambda>m. Option.bind (contents_of db (seqKey K p o1 m)) (op_from_bytes K)) in Inr (Option.bind (latest f n) f))"
proof -
  let ?f = "\<lambda>m. Option.bind (contents_of db (seqKey K p o1 m)) (op_from_bytes K)"
  have p: "p \<in> timeline_prefixes" using assms(3) by blast
  have "prefix (originPrefix K p o1) (seqKey K p o1 n)" by (simp add: originPrefix_def seqKey_def)
  from seek_back_latest[OF assms(1) p assms(2) this, of n]
  have "seek_back E db (seqKey K p o1 n) (originPrefix K p o1) = map_option (seqKey K p o1) (latest (\<lambda>m. contents_of db (seqKey K p o1 m)) n)"
    by (simp add: seqKey_def append_le put_uint32_le)
  moreover have "latest (\<lambda>m. contents_of db (seqKey K p o1 m)) n = latest ?f n"
    by (rule latest_cong) (simp only: line_none[OF assms])
  moreover have "tx_get E db (seqKey K p o1 m) = Inr v \<and> ?f m = op_from_bytes K v" if "contents_of db (seqKey K p o1 m) = Some v" for m v
    using that by (simp add: get_eview)
  ultimately show ?thesis
    using latest_Some[of "\<lambda>m. contents_of db (seqKey K p o1 m)" n]
    by (fastforce simp: getLatestBefore_def split: option.splits)
qed

lemma rev_before_law:
  assumes "origins_ok K (contents_of db)" "wf_op o1"
  shows "bo_GetLatestRevBefore K E o1 n db =
    (let f = (\<lambda>m. Option.bind (contents_of db (seqKey K prefixRev o1 m)) (decodeRevValue K)) in Inr (Option.bind (latest f n) f))"
proof -
  let ?f = "\<lambda>m. Option.bind (contents_of db (seqKey K prefixRev o1 m)) (decodeRevValue K)"
  have "prefix (originPrefix K prefixRev o1) (seqKey K prefixRev o1 n)" by (simp add: originPrefix_def seqKey_def)
  from seek_back_latest[OF assms(1) _ assms(2) this, of n]
  have "seek_back E db (seqKey K prefixRev o1 n) (originPrefix K prefixRev o1) =
      map_option (seqKey K prefixRev o1) (latest (\<lambda>m. contents_of db (seqKey K prefixRev o1 m)) n)"
    by (simp add: seqKey_def append_le put_uint32_le)
  moreover have "latest (\<lambda>m. contents_of db (seqKey K prefixRev o1 m)) n = latest ?f n"
    by (rule latest_cong) (simp only: rev_none[OF assms])
  moreover have "tx_get E db (seqKey K prefixRev o1 m) = Inr v \<and> ?f m = decodeRevValue K v" if "contents_of db (seqKey K prefixRev o1 m) = Some v" for m v
    using that by (simp add: get_eview)
  ultimately show ?thesis
    using latest_Some[of "\<lambda>m. contents_of db (seqKey K prefixRev o1 m)" n]
    by (fastforce simp: bo_GetLatestRevBefore_def split: option.splits)
qed

lemma latest_seq_law:
  assumes "origins_ok K (contents_of db)" "wf_op o1"
    and small: "\<And>n. contents_of db (seqKey K prefixSeq o1 n) \<noteq> None \<Longrightarrow> n < 0xff000000"
  shows "bo_GetLatestSeq K E o1 db =
    (let f = (\<lambda>m. Option.bind (contents_of db (seqKey K prefixSeq o1 m)) (op_from_bytes K)) in
      Inr (case latest f (- 1) of None \<Rightarrow> (None, 0) | Some n \<Rightarrow> (f n, n)))"
proof -
  let ?g = "\<lambda>m. contents_of db (seqKey K prefixSeq o1 m)"
  let ?f = "\<lambda>m. Option.bind (?g m) (op_from_bytes K)"
  let ?pre = "originPrefix K prefixSeq o1"
  have key: "seqKey K prefixSeq o1 m = ?pre @ put_uint32 m" for m by (simp add: originPrefix_def seqKey_def)
  have "seek_back E db (?pre @ [CHR 0xff]) ?pre = map_option (seqKey K prefixSeq o1) (latest ?g (- 1))"
  proof (rule seek_back_latest[OF assms(1) prefix_in(1) assms(2)])
    show "seqKey K prefixSeq o1 m \<le> ?pre @ [CHR 0xff] \<longleftrightarrow> m \<le> - 1" if "?g m \<noteq> None" for m
      using put_uint32_ff[OF small[OF that]] by (simp add: key append_le)
  qed simp
  moreover have lat: "latest ?g (- 1) = latest ?f (- 1)"
    by (rule latest_cong) (simp only: line_none[OF assms(1,2), of prefixSeq, simplified])
  ultimately have sb: "seek_back E db (?pre @ [CHR 0xff]) ?pre = map_option (seqKey K prefixSeq o1) (latest ?f (- 1))" by simp
  show ?thesis
  proof (cases "latest ?f (- 1)")
    case None
    then show ?thesis using sb by (simp add: bo_GetLatestSeq_def Let_def)
  next
    case (Some n)
    then obtain v where v: "?g n = Some v" using latest_Some[of ?f "- 1" n] by (auto simp: bind_eq_None_conv)
    then obtain a where "op_from_bytes K v = Some a" using line_value[OF assms(1) _ assms(2) v] by auto
    moreover have "tx_get E db (seqKey K prefixSeq o1 n) = Inr v" using v by (simp add: get_eview)
    ultimately show ?thesis using sb Some v by (simp add: bo_GetLatestSeq_def Let_def key)
  qed
qed

lemma map_loops:
  assumes "origins_ok K (contents_of db)" "wf_op o1"
  defines "f \<equiv> \<lambda>m. Option.bind (contents_of db (seqKey K prefixMap o1 m)) (op_from_bytes K)"
  shows "bo_GetAllMapUpTo K E o1 n db = Inr (map f (places f n))"
    and "wf_op p \<Longrightarrow> bo_GetMapSeq K E o1 p db = (case filter (\<lambda>m. f m = Some p) (places f (- 1)) of
        [] \<Rightarrow> Inl (ErrOther ''map entry not found for outpoint'') | m # ms \<Rightarrow> Inr m)"
proof -
  let ?g = "\<lambda>m. contents_of db (seqKey K prefixMap o1 m)"
  have pl: "places ?g n = places f n" for n
    unfolding f_def by (rule places_cong) (simp only: line_none[OF assms(1,2), of prefixMap, simplified])
  have val: "\<exists>v a. ?g m = Some v \<and> op_from_bytes K v = Some a \<and> v = op_bytes K a \<and> wf_op a" if mem: "m \<in> set (places f n)" for m n
  proof -
    obtain v where v: "?g m = Some v" using mem by (auto simp: places_props f_def bind_eq_Some_conv)
    have "prefixMap \<in> timeline_prefixes - {prefixRev}" by simp
    from line_value[OF assms(1) this assms(2) v] show ?thesis using v by blast
  qed
  have items: "it_prefix E db (originPrefix K prefixMap o1) =
      map (\<lambda>m. (originPrefix K prefixMap o1 @ put_uint32 m, Inr (the (?g m)))) (places f (- 1))"
    using prefix_places[OF assms(1) prefix_in(3) assms(2)] unfolding pl .
  have "op_from_bytes K (the (?g m)) = f m" if "m \<in> set (places f n)" for m
    using val[OF that] by (auto simp: f_def)
  then show "bo_GetAllMapUpTo K E o1 n db = Inr (map f (places f n))"
    by (simp add: bo_GetAllMapUpTo_def Let_def items maps_up_to_written places_takeWhile)
  assume p: "wf_op p"
  have "the (?g m) = op_bytes K p \<longleftrightarrow> f m = Some p" if "m \<in> set (places f (- 1))" for m
    using val[OF that] op_bytes_inj[OF _ p] by (auto simp: f_def)
  then have "filter (\<lambda>m. the (?g m) = op_bytes K p) (places f (- 1)) = filter (\<lambda>m. f m = Some p) (places f (- 1))"
    by (rule filter_cong[OF refl])
  then show "bo_GetMapSeq K E o1 p db = (case filter (\<lambda>m. f m = Some p) (places f (- 1)) of
        [] \<Rightarrow> Inl (ErrOther ''map entry not found for outpoint'') | m # ms \<Rightarrow> Inr m)"
    by (simp add: bo_GetMapSeq_def Let_def items find_map_written)
qed

lemma get_origin_law:
  assumes "origins_ok K (contents_of db)" "wf_op p"
  shows "bo_GetOrigin K E p db = Inr (Option.bind (contents_of db (orgKey K p)) (decodeOrgValue K))"
proof (cases "contents_of db (orgKey K p)")
  case None
  then show ?thesis by (simp add: bo_GetOrigin_def get_eview)
next
  case (Some v)
  have "prefix prefixOrg (orgKey K p)" by (simp add: orgKey_def)
  then obtain a n where "wf_op a" "v = encodeOrgValue K a n" using entry[OF assms(1) Some] unfolding entry_ok_def by blast
  then show ?thesis using Some by (simp add: bo_GetOrigin_def get_eview)
qed

lemma set_all_ok:
  "\<exists>db'. set_all E kvs db = Inr db' \<and> contents_of db' = fold (\<lambda>kv V. V(fst kv \<mapsto> snd kv)) kvs (contents_of db)"
  unfolding set_all_def by (rule rfold_ok) (use set_ok in auto)

lemma write_law:
  assumes "origins_ok K (contents_of db)" "list_all good_write kvs"
  shows "\<exists>db'. one_update E (set_all E kvs) db = (Inr (), db') \<and> origins_ok K (contents_of db') \<and>
    badger_origins K (contents_of db') = badger_origins K (fold (\<lambda>kv V. V(fst kv \<mapsto> snd kv)) kvs (contents_of db))"
proof -
  obtain db' where "set_all E kvs db = Inr db'" "contents_of db' = fold (\<lambda>kv V. V(fst kv \<mapsto> snd kv)) kvs (contents_of db)"
    using set_all_ok by blast
  then show ?thesis using ok_writes[OF assms] commit_ok by (simp add: one_update_def)
qed

end

sublocale badger_origin_store \<subseteq> store: origin_laws "BadgerOriginStore K E" "\<lambda>db. origins_ok K (eview E db)" "\<lambda>db. badger_origins K (eview E db)"
proof
  fix s o1 p n e es
  assume ok: "origins_ok K (contents_of s)"
  note defs = BadgerOriginStore_def badger_origins_def
  have info: "(\<lambda>x. \<lparr>oi_Origin = oi_Origin x, oi_Seq = oi_Seq x\<rparr>) = id" by (simp add: fun_eq_iff)
  show "os_GetOrigin (BadgerOriginStore K E) p s =
      Inr (map_option (\<lambda>(o1, n). \<lparr>oi_Origin = o1, oi_Seq = n\<rparr>) (og_org (badger_origins K (contents_of s)) p))" if "wf_op p"
    using get_origin_law[OF ok that] that by (simp add: defs option.map_comp comp_def info option.map_id)
  show "wf_op o1" if "og_org (badger_origins K (contents_of s)) p = Some (o1, n)"
  proof -
    from that obtain v i where v: "contents_of s (orgKey K p) = Some v" "decodeOrgValue K v = Some i" "oi_Origin i = o1"
      by (auto simp: defs bind_eq_Some_conv split: if_splits)
    have "prefix prefixOrg (orgKey K p)" by (simp add: orgKey_def)
    then obtain a m where "wf_op a" "v = encodeOrgValue K a m" using entry[OF ok v(1)] unfolding entry_ok_def by blast
    then show ?thesis using v by auto
  qed
  show "wf_op p" if "og_seq (badger_origins K (contents_of s)) o1 n = Some p"
    using that op_from_wf by (auto simp: defs bind_eq_Some_conv split: if_splits)
  show "os_GetSeqAt (BadgerOriginStore K E) o1 n s = Inr (og_seq (badger_origins K (contents_of s)) o1 n)" if "wf_op o1"
    using that by (simp add: defs bo_GetSeqAt_def get_eview split: option.splits)
  show "os_GetLatestSeq (BadgerOriginStore K E) o1 s =
      Inr (case latest (og_seq (badger_origins K (contents_of s)) o1) (- 1) of None \<Rightarrow> (None, 0) | Some n \<Rightarrow> (og_seq (badger_origins K (contents_of s)) o1 n, n))"
    if "wf_op o1" "\<forall>n. og_seq (badger_origins K (contents_of s)) o1 n \<noteq> None \<longrightarrow> n < 0xff000000"
  proof -
    have "n < 0xff000000" if "contents_of s (seqKey K prefixSeq o1 n) \<noteq> None" for n
      using \<open>\<forall>n. og_seq (badger_origins K (contents_of s)) o1 n \<noteq> None \<longrightarrow> n < 0xff000000\<close> \<open>wf_op o1\<close>
        line_none[OF ok \<open>wf_op o1\<close>, of prefixSeq n] that by (simp add: defs)
    from latest_seq_law[OF ok that(1) this] show ?thesis using that(1) by (simp add: defs Let_def split: option.splits)
  qed
  show "os_GetLatestRevBefore (BadgerOriginStore K E) o1 n s =
      Inr (Option.bind (latest (og_rev (badger_origins K (contents_of s)) o1) n) (og_rev (badger_origins K (contents_of s)) o1))" if "wf_op o1"
    using rev_before_law[OF ok that] that by (simp add: defs Let_def)
  show "os_GetLatestMapBefore (BadgerOriginStore K E) o1 n s =
      Inr (Option.bind (latest (og_map (badger_origins K (contents_of s)) o1) n) (og_map (badger_origins K (contents_of s)) o1))" if "wf_op o1"
    using before_law[OF ok that, of prefixMap] that by (simp add: defs Let_def)
  show "os_GetLatestParentBefore (BadgerOriginStore K E) o1 n s =
      Inr (Option.bind (latest (og_par (badger_origins K (contents_of s)) o1) n) (og_par (badger_origins K (contents_of s)) o1))" if "wf_op o1"
    using before_law[OF ok that, of prefixPar] that by (simp add: defs Let_def)
  show "os_GetAllMapUpTo (BadgerOriginStore K E) o1 n s =
      Inr (map (og_map (badger_origins K (contents_of s)) o1) (places (og_map (badger_origins K (contents_of s)) o1) n))" if "wf_op o1"
    using map_loops(1)[OF ok that] that by (simp add: defs)
  show "os_GetMapSeq (BadgerOriginStore K E) o1 p s =
      (case filter (\<lambda>m. og_map (badger_origins K (contents_of s)) o1 m = Some p) (places (og_map (badger_origins K (contents_of s)) o1) (- 1)) of
        [] \<Rightarrow> Inl (ErrOther ''map entry not found for outpoint'') | m # ms \<Rightarrow> Inr m)" if "wf_op o1" "wf_op p"
    using map_loops(2)[OF ok that] that by (simp add: defs)
  show "\<exists>s'. os_AddEntry (BadgerOriginStore K E) o1 e s = (Inr (), s') \<and> origins_ok K (contents_of s') \<and>
      badger_origins K (contents_of s') = put_entry o1 e (badger_origins K (contents_of s))" if "wf_op o1" "wf_op (oe_Outpoint e)"
    using write_law[OF ok good_entry[OF that]] view_entry[OF that] by (simp add: BadgerOriginStore_def bo_AddEntry_def)
  show "\<exists>s'. os_WriteBatch (BadgerOriginStore K E) \<lparr>ob_Origin = o1, ob_Entries = es\<rparr> s = (Inr (), s') \<and> origins_ok K (contents_of s') \<and>
      badger_origins K (contents_of s') = fold (put_entry o1) es (badger_origins K (contents_of s))"
    if "wf_op o1" "\<forall>e\<in>set es. wf_op (oe_Outpoint e)"
    using write_law[OF ok view_entries(2)[OF that]] view_entries(1)[OF that] by (simp add: BadgerOriginStore_def bo_WriteBatch_def)
qed

interpretation mem_origins: badger_origin_store mem_engine demo_sdk
  by unfold_locales

end
