(* ===== verification/Bitcom.thy ===== *)
theory Bitcom
  imports TemplateLaws
begin

text \<open>
  \<open>pkg/template/bitcom\<close>: the protocols that follow an \<open>OP_RETURN\<close>, separated by pipes, and the data of the
  B and MAP protocols (\<open>bitcom.go\<close>, \<open>b.go\<close>, \<open>map.go\<close>). The loops get fuel as in \<open>Template\<close>.
\<close>

section \<open>Protocols\<close>

record bitcom_protocol =
  bp_Protocol :: bytes
  bp_Script :: "bytes option"
  bp_Pos :: nat

record bitcom =
  bm_Protocols :: "bitcom_protocol list"
  bm_ScriptPrefix :: bytes

definition OP_RETURN :: nat where "OP_RETURN = 106"
definition OP_DATA1 :: nat where "OP_DATA1 = 1"

text \<open>\<open>findReturn\<close> and \<open>findPipe\<close>: where the first operation of a kind starts.\<close>

fun find_op :: "script_lib \<Rightarrow> (chunk \<Rightarrow> bool) \<Rightarrow> nat \<Rightarrow> bytes \<Rightarrow> nat \<Rightarrow> fault + nat option" where
  "find_op L P 0 scr i = Inl Diverge"
| "find_op L P (Suc n) scr i =
     (if length scr \<le> i then Inr None
      else case read_op L scr i of
             (None, j) \<Rightarrow> Inr None
           | (Some op, j) \<Rightarrow> if P op then Inr (Some i) else find_op L P n scr j)"

definition is_return :: "chunk \<Rightarrow> bool" where
  "is_return op \<longleftrightarrow> ck_op op = OP_RETURN"

definition is_pipe :: "chunk \<Rightarrow> bool" where
  "is_pipe op \<longleftrightarrow> ck_op op = OP_DATA1 \<and> 0 < length (ck_data op) \<and> ck_data op ! 0 = CHR ''|''"

definition findReturn :: "script_lib \<Rightarrow> bytes \<Rightarrow> nat \<Rightarrow> fault + nat option" where
  "findReturn L scr i = find_op L is_return (Suc (length scr)) scr i"

definition findPipe :: "script_lib \<Rightarrow> bytes \<Rightarrow> nat \<Rightarrow> fault + nat option" where
  "findPipe L scr i = find_op L is_pipe (Suc (length scr)) scr i"

text \<open>The loop of \<open>Decode\<close>, which returns what it has when an operation cannot be read.\<close>

fun proto_loop :: "script_lib \<Rightarrow> nat \<Rightarrow> bytes \<Rightarrow> nat \<Rightarrow> bitcom_protocol list \<Rightarrow> fault + bitcom_protocol list" where
  "proto_loop L 0 scr pos ps = Inl Diverge"
| "proto_loop L (Suc n) scr pos ps =
     (if length scr \<le> pos then Inr ps
      else rbind (findPipe L scr pos) (\<lambda>pipePos.
        case read_op L scr pos of
          (None, p) \<Rightarrow> Inr ps
        | (Some op, p) \<Rightarrow>
            let proto = \<lparr>bp_Protocol = ck_data op, bp_Script = None, bp_Pos = pos\<rparr> in
            (case pipePos of
               None \<Rightarrow> if length scr < p then Inl Panic else Inr (ps @ [proto\<lparr>bp_Script := Some (drop p scr)\<rparr>])
             | Some pipe \<Rightarrow>
                 if pipe < p then Inr (ps @ [proto])
                 else if length scr < pipe then Inl Panic
                 else proto_loop L n scr (pipe + 2) (ps @ [proto\<lparr>bp_Script := Some (drop p (take pipe scr))\<rparr>]))))"

definition bitcom_Decode :: "script_lib \<Rightarrow> bytes option \<Rightarrow> fault + bitcom option" where
  "bitcom_Decode L scr =
     (case scr of
        None \<Rightarrow> Inr (Some \<lparr>bm_Protocols = [], bm_ScriptPrefix = []\<rparr>)
      | Some scr \<Rightarrow>
          rbind (findReturn L scr 0) (\<lambda>r.
            case r of
              None \<Rightarrow> Inr None
            | Some pos \<Rightarrow>
                rbind (proto_loop L (Suc (length scr)) scr (Suc pos) []) (\<lambda>ps.
                  Inr (Some \<lparr>bm_Protocols = ps, bm_ScriptPrefix = (if 0 < pos then take (pos - 1) scr else [])\<rparr>))))"

fun write_protos :: "script_lib \<Rightarrow> bitcom_protocol list \<Rightarrow> bytes" where
  "write_protos L [] = []"
| "write_protos L [p] = push_data L (bp_Protocol p) @ (case bp_Script p of None \<Rightarrow> [] | Some s \<Rightarrow> s)"
| "write_protos L (p # ps) =
     push_data L (bp_Protocol p) @ (case bp_Script p of None \<Rightarrow> [] | Some s \<Rightarrow> s) @ push_data L ''|'' @ write_protos L ps"

definition bitcom_Lock :: "script_lib \<Rightarrow> bitcom \<Rightarrow> bytes" where
  "bitcom_Lock L b =
     bm_ScriptPrefix b @ (if bm_Protocols b = [] then [] else char_of OP_RETURN # write_protos L (bm_Protocols b))"

section \<open>B\<close>

definition BPrefix :: bytes where "BPrefix = ''19HxigV4QyBv3tHpQVcUEQyq1pzZVdoAut''"

record b_data =
  bd_MediaType :: bytes
  bd_Encoding :: bytes
  bd_Data :: bytes
  bd_Filename :: bytes

definition DecodeB :: "script_lib \<Rightarrow> bytes option \<Rightarrow> b_data option" where
  "DecodeB L d =
     Option.bind d (\<lambda>scr.
       case read_op L scr 0 of (None, p) \<Rightarrow> None | (Some op1, p1) \<Rightarrow>
       (case read_op L scr p1 of (None, p) \<Rightarrow> None | (Some op2, p2) \<Rightarrow>
       (case read_op L scr p2 of (None, p) \<Rightarrow> None | (Some op3, p3) \<Rightarrow>
         Some \<lparr>bd_MediaType = ck_data op2, bd_Encoding = ck_data op3, bd_Data = ck_data op1,
           bd_Filename = (case read_op L scr p3 of (Some op4, p4) \<Rightarrow> ck_data op4 | (None, p4) \<Rightarrow> [])\<rparr>)))"

section \<open>MAP\<close>

definition MapPrefix :: bytes where "MapPrefix = ''1PuQa7K62MiKCtssSLKy1kh56WWU7MtUR5''"

definition MapCmdSet :: bytes where "MapCmdSet = ''SET''"

record map_data =
  md_Cmd :: bytes
  md_Data :: "(bytes \<times> bytes) list"

text \<open>Zero bytes become spaces, then the six characters of the escape do.\<close>

definition zero_escape :: bytes where
  "zero_escape = CHR 0x5c # ''u0000''"

fun replace_escape :: "bytes \<Rightarrow> bytes" where
  "replace_escape [] = []"
| "replace_escape (c # cs) =
     (if prefix zero_escape (c # cs) then CHR '' '' # replace_escape (drop 5 cs) else c # replace_escape cs)"

definition clean :: "bytes \<Rightarrow> bytes" where
  "clean b = replace_escape (map (\<lambda>c. if c = CHR 0x00 then CHR '' '' else c) b)"

text \<open>The pairs of a \<open>SET\<close>; a key without a value is dropped. The map is an association list.\<close>

fun map_loop :: "script_lib \<Rightarrow> nat \<Rightarrow> bytes \<Rightarrow> nat \<Rightarrow> (bytes \<times> bytes) list \<Rightarrow> fault + (bytes \<times> bytes) list" where
  "map_loop L 0 scr pos m = Inl Diverge"
| "map_loop L (Suc n) scr pos m =
     (case read_op L scr pos of
        (None, p) \<Rightarrow> Inr m
      | (Some key, p) \<Rightarrow>
          (case read_op L scr p of
             (None, q) \<Rightarrow> Inr m
           | (Some val, q) \<Rightarrow> map_loop L n scr q (AList.update (clean (ck_data key)) (clean (ck_data val)) m)))"

definition DecodeMap :: "script_lib \<Rightarrow> bytes option \<Rightarrow> fault + map_data option" where
  "DecodeMap L d =
     (case d of
        None \<Rightarrow> Inr None
      | Some scr \<Rightarrow>
          if length scr < 6 then Inr None
          else (case read_op L scr 0 of
                  (None, p) \<Rightarrow> Inr None
                | (Some op, p) \<Rightarrow>
                    if ck_data op = MapCmdSet
                    then rbind (map_loop L (Suc (length scr)) scr p [])
                           (\<lambda>m. Inr (Some \<lparr>md_Cmd = ck_data op, md_Data = m\<rparr>))
                    else Inr (Some \<lparr>md_Cmd = ck_data op, md_Data = []\<rparr>)))"

section \<open>The decoders return\<close>

lemma find_op_returns:
  assumes "read_laws L" "length scr - i < n"
  shows "\<exists>r. find_op L P n scr i = Inr r \<and> (\<forall>j. r = Some j \<longrightarrow> i \<le> j \<and> j < length scr)"
  using assms(2)
proof (induction n arbitrary: i)
  case (Suc n)
  show ?case
  proof (cases "length scr \<le> i")
    case False
    obtain op j where rd: "read_op L scr i = (op, j)" by fastforce
    show ?thesis
    proof (cases op)
      case (Some c)
      then have "i < j" using read_some[OF assms(1)] rd by blast
      then show ?thesis using Suc.IH[of j] Suc.prems False rd Some by fastforce
    qed (use False rd in simp)
  qed simp
qed simp

lemma findPipe_returns: "read_laws L \<Longrightarrow> \<exists>r. findPipe L scr i = Inr r \<and> (\<forall>j. r = Some j \<longrightarrow> i \<le> j \<and> j < length scr)"
  and findReturn_returns: "read_laws L \<Longrightarrow> \<exists>r. findReturn L scr i = Inr r \<and> (\<forall>j. r = Some j \<longrightarrow> i \<le> j \<and> j < length scr)"
  using find_op_returns[of L scr i "Suc (length scr)"] by (simp_all add: findPipe_def findReturn_def)

lemma proto_loop_returns:
  assumes "read_laws L" "length scr - pos < n"
  shows "\<exists>ps'. proto_loop L n scr pos ps = Inr ps'"
  using assms(2)
proof (induction n arbitrary: pos ps)
  case (Suc n)
  show ?case
  proof (cases "length scr \<le> pos")
    case False
    obtain pipe where pipe: "findPipe L scr pos = Inr pipe" "\<forall>j. pipe = Some j \<longrightarrow> pos \<le> j \<and> j < length scr"
      using findPipe_returns[OF assms(1)] by blast
    obtain op p where rd: "read_op L scr pos = (op, p)" by fastforce
    show ?thesis
    proof (cases op)
      case (Some c)
      then have p: "pos < p" "p \<le> length scr" using read_some[OF assms(1)] rd by blast+
      show ?thesis
      proof (cases pipe)
        case None
        then show ?thesis using False pipe rd Some p by (simp add: Let_def)
      next
        case (Some j)
        have "length scr - (j + 2) < n" if "p \<le> j" using that Suc.prems False p by linarith
        then show ?thesis using False pipe rd \<open>op = Some c\<close> p Some Suc.IH[of "j + 2"] by (auto simp: Let_def)
      qed
    qed (use False pipe rd in simp)
  qed simp
qed simp

lemma bitcom_Decode_returns: "read_laws L \<Longrightarrow> \<exists>r. bitcom_Decode L scr = Inr r"
proof (cases scr)
  case (Some s)
  assume L: "read_laws L"
  obtain r where r: "findReturn L s 0 = Inr r" using findReturn_returns[OF L] by blast
  show ?thesis
  proof (cases r)
    case (Some pos)
    have "length s - Suc pos < Suc (length s)" by simp
    then obtain ps where "proto_loop L (Suc (length s)) s (Suc pos) [] = Inr ps"
      using proto_loop_returns[OF L, of s "Suc pos" "Suc (length s)" "[]"] by blast
    then show ?thesis using r Some \<open>scr = Some s\<close> by (simp add: bitcom_Decode_def del: proto_loop.simps)
  qed (use r \<open>scr = Some s\<close> in \<open>simp add: bitcom_Decode_def\<close>)
qed (simp add: bitcom_Decode_def)

lemma map_loop_returns:
  assumes "read_laws L" "length scr - pos < n"
  shows "\<exists>m'. map_loop L n scr pos m = Inr m'"
  using assms(2)
proof (induction n arbitrary: pos m)
  case (Suc n)
  obtain k p where rd: "read_op L scr pos = (k, p)" by fastforce
  show ?case
  proof (cases k)
    case (Some key)
    obtain v q where rd2: "read_op L scr p = (v, q)" by fastforce
    show ?thesis
    proof (cases v)
      case (Some val)
      then have "length scr - q < n"
        using read_some[OF assms(1), of scr pos key p] read_some[OF assms(1), of scr p val q] rd rd2 \<open>k = Some key\<close> Suc.prems by auto
      then show ?thesis using Suc.IH rd rd2 \<open>k = Some key\<close> Some by simp
    qed (use rd rd2 Some in simp)
  qed (use rd in simp)
qed simp

lemma DecodeMap_returns: "read_laws L \<Longrightarrow> \<exists>r. DecodeMap L d = Inr r"
proof (cases d)
  case (Some scr)
  assume L: "read_laws L"
  show ?thesis
  proof (cases "length scr < 6")
    case False
    obtain op p where rd: "read_op L scr 0 = (op, p)" by fastforce
    show ?thesis
    proof (cases op)
      case c: (Some c)
      have "length scr - p < Suc (length scr)" by simp
      then obtain m where "map_loop L (Suc (length scr)) scr p [] = Inr m"
        using map_loop_returns[OF L, of scr p "Suc (length scr)" "[]"] by blast
      then show ?thesis using rd c False Some by (simp add: DecodeMap_def del: map_loop.simps)
    qed (use rd False Some in \<open>simp add: DecodeMap_def\<close>)
  qed (use Some in \<open>simp add: DecodeMap_def\<close>)
qed (simp add: DecodeMap_def)

end
