(* ===== verification/Ordfs.thy ===== *)
theory Ordfs
  imports Bitcom OriginStore
begin

text \<open>
  \<open>pkg/ordfs/ordfs.go\<close>: content on ordinal chains. An output is parsed for an inscription and for the B and MAP
  protocols; an ordinal is followed backwards to its origin and forwards along its spends, and every
  step is recorded in the origin store; a request is answered with the latest content, map data and parent at a place of
  the chain. The context is never cancelled; an error that the code wraps keeps its cause. The goroutine that
  extends the expiry of the held locks during a crawl is left out.
\<close>

section \<open>What the service uses\<close>

text \<open>A transaction: its inputs' previous outputs (a nil id panics where it is read) and its outputs.\<close>

record otx =
  ot_TxID :: txid
  ot_Inputs :: "(txid option \<times> 32 word) list"
  ot_Outputs :: "(64 word \<times> bytes) list"

text \<open>A value of a JSON object: a string, or what the library parsed.\<close>

datatype 'j any = AnyStr bytes | AnyJson 'j

type_synonym 'j any_map = "bytes \<Rightarrow> 'j any option"

record parsed_entry =
  pe_ContentType :: bytes
  pe_ContentLength :: int
  pe_Map :: bytes

text \<open>The JSON library: objects and arrays of the nested fields, and what is written and read back.\<close>

record 'j ordfs_json =
  parse_object :: "bytes \<Rightarrow> 'j option"
  parse_array :: "bytes \<Rightarrow> 'j option"
  marshal_any :: "'j any_map \<Rightarrow> bytes option"
  unmarshal_any :: "bytes \<Rightarrow> 'j any_map option"
  marshal_entry :: "parsed_entry \<Rightarrow> bytes option"
  unmarshal_entry :: "bytes \<Rightarrow> parsed_entry option"

text \<open>
  The service on a world that holds the origin store, the cache and the crawl coordinator. Transactions and spends
  are taken not to change during a call, so the loaders are functions.
\<close>

record ('s, 'j) ordfs =
  of_sdk :: sdk
  of_script :: script_lib
  of_json :: "'j ordfs_json"
  of_LoadTx :: "txid \<Rightarrow> err + otx"
  of_GetSpend :: "outpoint \<Rightarrow> err + txid option"
  of_origins :: "'s origin_store"
  of_cache_Get :: "bytes \<Rightarrow> ('s, err, bytes option) sm"
  of_cache_Set :: "bytes \<Rightarrow> bytes \<Rightarrow> 's \<Rightarrow> 's"
  of_AcquireLock :: "outpoint \<Rightarrow> ('s, err, bool) sm"
  of_WaitForCrawl :: "outpoint \<Rightarrow> ('s, err, unit) sm"
  of_PublishComplete :: "outpoint list \<Rightarrow> bytes \<Rightarrow> 's \<Rightarrow> 's"
  of_PublishFailure :: "outpoint list \<Rightarrow> 's \<Rightarrow> 's"
  of_ReleaseLock :: "outpoint \<Rightarrow> 's \<Rightarrow> 's"

definition ErrNotFound :: err where "ErrNotFound = ErrOther ''not found''"

definition nil_pointer :: err where "nil_pointer = ErrOther ''panic: nil pointer dereference''"

definition of_fault :: "fault + 'a \<Rightarrow> err + 'a" where
  "of_fault r = (case r of Inl f \<Rightarrow> Inl (ErrOther ''panic'') | Inr x \<Rightarrow> Inr x)"

definition loadOutput :: "('s, 'j) ordfs \<Rightarrow> outpoint \<Rightarrow> err + 64 word \<times> bytes" where
  "loadOutput F op =
     rbind (of_LoadTx F (op_txid op)) (\<lambda>tx.
       if length (ot_Outputs tx) \<le> unat (op_index op) then Inl (ErrOther ''output index out of range'')
       else Inr (ot_Outputs tx ! unat (op_index op)))"

section \<open>Parsing an output\<close>

record response =
  rs_Outpoint :: "outpoint option"
  rs_Origin :: "outpoint option"
  rs_ContentType :: bytes
  rs_Content :: "bytes option"
  rs_ContentLength :: int
  rs_Map :: "bytes option"
  rs_Sequence :: int
  rs_Parent :: "outpoint option"

text \<open>What the scan of a script has found so far. A push of no bytes is taken to give a nil slice.\<close>

record found =
  fd_type :: bytes
  fd_content :: "bytes option"
  fd_length :: int
  fd_map :: "(bytes \<times> bytes) list option"
  fd_parent :: "outpoint option"

definition octet_stream :: bytes where "octet_stream = ''application/octet-stream''"

definition or_octets :: "bytes \<Rightarrow> bytes" where
  "or_octets t = (if t = [] then octet_stream else t)"

definition scan_inscription :: "bool \<Rightarrow> inscription option \<Rightarrow> found" where
  "scan_inscription loadContent insc =
     (case insc of
        None \<Rightarrow> \<lparr>fd_type = [], fd_content = None, fd_length = 0, fd_map = None, fd_parent = None\<rparr>
      | Some i \<Rightarrow>
          if in_content i \<noteq> []
          then \<lparr>fd_type = or_octets (in_type i), fd_content = (if loadContent then Some (in_content i) else None),
                fd_length = int (length (in_content i)), fd_map = None, fd_parent = in_parent i\<rparr>
          else \<lparr>fd_type = [], fd_content = None, fd_length = 0, fd_map = None, fd_parent = in_parent i\<rparr>)"

definition scan_protocol :: "script_lib \<Rightarrow> bool \<Rightarrow> bitcom_protocol \<Rightarrow> found \<Rightarrow> fault + found" where
  "scan_protocol L loadContent proto fd =
     (if bp_Protocol proto = MapPrefix then
        rbind (DecodeMap L (bp_Script proto)) (\<lambda>m.
          case m of
            None \<Rightarrow> Inr fd
          | Some m \<Rightarrow>
              if md_Cmd m = MapCmdSet
              then Inr (fd\<lparr>fd_map := Some (fold (\<lambda>(k, v). AList.update k v) (md_Data m) (case fd_map fd of None \<Rightarrow> [] | Some d \<Rightarrow> d))\<rparr>)
              else Inr fd)
      else if bp_Protocol proto = BPrefix then
        (case DecodeB L (bp_Script proto) of
           None \<Rightarrow> Inr fd
         | Some b \<Rightarrow>
             if bd_Data b = [] then Inr fd
             else Inr (fd\<lparr>fd_type := (if fd_type fd = [] then or_octets (bd_MediaType b) else fd_type fd),
                    fd_length := (if fd_length fd = 0 then int (length (bd_Data b)) else fd_length fd),
                    fd_content := (if fd_content fd = None \<and> loadContent then Some (bd_Data b) else fd_content fd)\<rparr>))
      else Inr fd)"

definition scan_script :: "sdk \<Rightarrow> script_lib \<Rightarrow> bool \<Rightarrow> bytes \<Rightarrow> fault + found" where
  "scan_script K L loadContent scr =
     rbind (inscription_Decode K L scr) (\<lambda>insc.
       rbind (bitcom_Decode L (Some scr)) (\<lambda>bc.
         case bc of
           None \<Rightarrow> Inr (scan_inscription loadContent insc)
         | Some bc \<Rightarrow> rfold (scan_protocol L loadContent) (bm_Protocols bc) (scan_inscription loadContent insc)))"

text \<open>The map as JSON, with its nested fields parsed.\<close>

definition strings :: "(bytes \<times> bytes) list \<Rightarrow> 'j any_map" where
  "strings m = (\<lambda>k. map_option AnyStr (map_of m k))"

definition nest :: "bytes \<Rightarrow> (bytes \<Rightarrow> 'j option) \<Rightarrow> (bytes \<times> bytes) list \<Rightarrow> 'j any_map \<Rightarrow> 'j any_map" where
  "nest field parse m a =
     (case map_of m field of
        None \<Rightarrow> a
      | Some s \<Rightarrow> if s = [] then a else (case parse s of None \<Rightarrow> a | Some j \<Rightarrow> a(field \<mapsto> AnyJson j)))"

definition map_json :: "'j ordfs_json \<Rightarrow> (bytes \<times> bytes) list \<Rightarrow> bytes option" where
  "map_json J m =
     marshal_any J (nest ''royalties'' (parse_array J) m (nest ''subTypeData'' (parse_object J) m (strings m)))"

definition parsed_key :: "sdk \<Rightarrow> outpoint \<Rightarrow> bytes" where
  "parsed_key K op = ''parsed:'' @ op_string K op"

definition cacheParsedOutput :: "('s, 'j) ordfs \<Rightarrow> outpoint \<Rightarrow> bytes \<Rightarrow> int \<Rightarrow> (bytes \<times> bytes) list \<Rightarrow> 's \<Rightarrow> 's" where
  "cacheParsedOutput F op contentType contentLength m s =
     (case marshal_entry (of_json F) \<lparr>pe_ContentType = contentType, pe_ContentLength = contentLength,
              pe_Map = (if m = [] then [] else case marshal_any (of_json F) (strings m) of None \<Rightarrow> [] | Some b \<Rightarrow> b)\<rparr> of
        None \<Rightarrow> s
      | Some data \<Rightarrow> of_cache_Set F (parsed_key (of_sdk F) op) data s)"

definition getCachedParsed :: "('s, 'j) ordfs \<Rightarrow> outpoint \<Rightarrow> 's \<Rightarrow> parsed_entry option \<times> 's" where
  "getCachedParsed F op s =
     (case of_cache_Get F (parsed_key (of_sdk F) op) s of
        (Inr (Some data), s') \<Rightarrow> (unmarshal_entry (of_json F) data, s')
      | (_, s') \<Rightarrow> (None, s'))"

definition response_of :: "('s, 'j) ordfs \<Rightarrow> found \<Rightarrow> response" where
  "response_of F fd =
     \<lparr>rs_Outpoint = None, rs_Origin = None, rs_ContentType = fd_type fd, rs_Content = fd_content fd,
      rs_ContentLength = fd_length fd, rs_Map = Option.bind (fd_map fd) (map_json (of_json F)), rs_Sequence = 0,
      rs_Parent = fd_parent fd\<rparr>"

definition parseOutput :: "('s, 'j) ordfs \<Rightarrow> outpoint \<Rightarrow> 64 word \<times> bytes \<Rightarrow> bool \<Rightarrow> ('s, err, response) sm" where
  "parseOutput F op out loadContent s =
     (case of_fault (scan_script (of_sdk F) (of_script F) loadContent (snd out)) of
        Inl e \<Rightarrow> (Inl e, s)
      | Inr fd \<Rightarrow>
          let m = (case fd_map fd of None \<Rightarrow> [] | Some m \<Rightarrow> m) in
          (Inr (response_of F fd),
           if fd_type fd \<noteq> [] \<or> m \<noteq> []
           then cacheParsedOutput F op (fd_type fd) (fd_length fd) m s else s))"

definition ParseOutputForContent :: "sdk \<Rightarrow> script_lib \<Rightarrow> 'j ordfs_json \<Rightarrow> bytes \<Rightarrow> fault + bytes \<times> bytes option \<times> bytes \<times> outpoint option" where
  "ParseOutputForContent K L J scr =
     rbind (scan_script K L True scr) (\<lambda>fd.
       Inr (fd_type fd, fd_content fd,
            (case fd_map fd of None \<Rightarrow> [] | Some m \<Rightarrow> (case marshal_any J (strings m) of None \<Rightarrow> [] | Some b \<Rightarrow> b)), fd_parent fd))"

section \<open>Following the ordinal\<close>

fun offset_of_input :: "('s, 'j) ordfs \<Rightarrow> outpoint \<Rightarrow> (txid option \<times> 32 word) list \<Rightarrow> 64 word \<Rightarrow> err + 64 word option" where
  "offset_of_input F op [] off = Inr None"
| "offset_of_input F op ((t, ix) # ins) off =
     (if t = Some (op_txid op) \<and> ix = op_index op then Inr (Some off)
      else case t of
             None \<Rightarrow> Inl nil_pointer
           | Some t \<Rightarrow> rbind (loadOutput F \<lparr>op_txid = t, op_index = ix\<rparr>) (\<lambda>(sats, _). offset_of_input F op ins (off + sats)))"

text \<open>The loop over the outputs: \<open>None\<close> when the ordinal does not go to a single-satoshi output.\<close>

fun output_at :: "64 word \<Rightarrow> nat \<Rightarrow> 64 word \<Rightarrow> 64 word list \<Rightarrow> err + nat option" where
  "output_at off i cum [] = Inl (ErrOther ''ordinal output not found'')"
| "output_at off i cum (s # ss) =
     (if s = 0 then output_at off (Suc i) cum ss
      else if cum = off then (if s \<noteq> 1 then Inr None else Inr (Some i))
      else if cum + s > off then Inl (ErrOther ''ordinal output not found'')
      else output_at off (Suc i) (cum + s) ss)"

definition calculateOrdinalOutput :: "('s, 'j) ordfs \<Rightarrow> otx \<Rightarrow> outpoint \<Rightarrow> err + outpoint option" where
  "calculateOrdinalOutput F spendTx spent =
     rbind (offset_of_input F spent (ot_Inputs spendTx) 0) (\<lambda>off.
       case off of
         None \<Rightarrow> Inl (ErrOther ''outpoint not found in spending transaction inputs'')
       | Some off \<Rightarrow> rbind (output_at off 0 0 (map fst (ot_Outputs spendTx))) (\<lambda>v.
           Inr (map_option (\<lambda>i. \<lparr>op_txid = ot_TxID spendTx, op_index = of_nat i\<rparr>) v)))"

fun input_at :: "('s, 'j) ordfs \<Rightarrow> 64 word \<Rightarrow> 64 word \<Rightarrow> (txid option \<times> 32 word) list \<Rightarrow> err + outpoint option" where
  "input_at F off cum [] = Inr None"
| "input_at F off cum ((t, ix) # ins) =
     (case t of
        None \<Rightarrow> Inl nil_pointer
      | Some t \<Rightarrow>
          rbind (loadOutput F \<lparr>op_txid = t, op_index = ix\<rparr>) (\<lambda>(sats, _).
            if cum = off then (if sats \<noteq> 1 then Inr None else Inr (Some \<lparr>op_txid = t, op_index = ix\<rparr>))
            else if cum + sats > off then Inr None
            else input_at F off (cum + sats) ins))"

definition calculatePreviousOrdinalInput :: "('s, 'j) ordfs \<Rightarrow> otx \<Rightarrow> outpoint \<Rightarrow> err + outpoint option" where
  "calculatePreviousOrdinalInput F tx cur =
     (if length (ot_Outputs tx) \<le> unat (op_index cur) then Inl (ErrOther ''invalid outpoint index'')
      else if fst (ot_Outputs tx ! unat (op_index cur)) \<noteq> 1 then Inl (ErrOther ''output is not a 1-sat output'')
      else input_at F (sum_list (map fst (take (unat (op_index cur)) (ot_Outputs tx)))) 0 (ot_Inputs tx))"

section \<open>Crawling backwards\<close>

record chain_entry =
  ce_Outpoint :: outpoint
  ce_RelativeSeq :: int
  ce_ContentOutpoint :: "outpoint option"
  ce_MapOutpoint :: "outpoint option"
  ce_ParentOutpoint :: "outpoint option"
  ce_ContentType :: bytes
  ce_ContentLength :: int

definition chain_entry_of :: "outpoint \<Rightarrow> int \<Rightarrow> response \<Rightarrow> chain_entry" where
  "chain_entry_of op rel r =
     \<lparr>ce_Outpoint = op, ce_RelativeSeq = rel,
      ce_ContentOutpoint = (if rs_ContentType r \<noteq> [] then Some op else None),
      ce_MapOutpoint = (if rs_Map r \<noteq> None then Some op else None),
      ce_ParentOutpoint = (if rs_Parent r \<noteq> None then Some op else None),
      ce_ContentType = rs_ContentType r, ce_ContentLength = rs_ContentLength r\<rparr>"

definition entry_at :: "int \<Rightarrow> chain_entry \<Rightarrow> origin_entry" where
  "entry_at shift e =
     \<lparr>oe_Outpoint = ce_Outpoint e, oe_Seq = of_int (ce_RelativeSeq e + shift), oe_HasRev = (ce_ContentOutpoint e \<noteq> None),
      oe_HasMap = (ce_MapOutpoint e \<noteq> None), oe_HasPar = (ce_ParentOutpoint e \<noteq> None),
      oe_ContentType = ce_ContentType e, oe_ContentLength = of_int (ce_ContentLength e)\<rparr>"

definition migrateToOrigin :: "('s, 'j) ordfs \<Rightarrow> outpoint \<Rightarrow> chain_entry list \<Rightarrow> int \<Rightarrow> ('s, err, unit) sm" where
  "migrateToOrigin F origin chain priorSeq =
     (if chain = [] then sret ()
      else os_WriteBatch (of_origins F)
             \<lparr>ob_Origin = origin, ob_Entries = map (entry_at (priorSeq + 1 - ce_RelativeSeq (last chain))) chain\<rparr>)"

text \<open>
  Before an outpoint is crawled: its known origin, or none, and then its crawl lock is held. If another crawl holds
  the lock, it is waited for.
\<close>

definition known_or_locked :: "('s, 'j) ordfs \<Rightarrow> outpoint \<Rightarrow> ('s, err, origin_info option) sm" where
  "known_or_locked F op =
     sbind (sread (os_GetOrigin (of_origins F) op)) (\<lambda>info.
       if info \<noteq> None then sret info
       else sbind (of_AcquireLock F op) (\<lambda>acquired.
         if acquired then sret None
         else sseq (of_WaitForCrawl F op)
           (sbind (sread (os_GetOrigin (of_origins F) op)) (\<lambda>info.
             if info \<noteq> None then sret info
             else (\<lambda>s. case of_AcquireLock F op s of
                         (Inr True, s') \<Rightarrow> (Inr None, s')
                       | (_, s') \<Rightarrow> (Inl (ErrOther ''failed to acquire lock after wait''), s'))))))"

text \<open>A step back: the entry of the outpoint and the previous outpoint.\<close>

definition crawl_step :: "('s, 'j) ordfs \<Rightarrow> outpoint \<Rightarrow> int \<Rightarrow> ('s, err, chain_entry \<times> outpoint option) sm" where
  "crawl_step F op rel =
     sbind (slift (of_LoadTx F (op_txid op))) (\<lambda>tx.
       if length (ot_Outputs tx) \<le> unat (op_index op) then sfail (ErrOther ''invalid outpoint index'')
       else sbind (parseOutput F op (ot_Outputs tx ! unat (op_index op)) True) (\<lambda>r.
         sbind (slift (calculatePreviousOrdinalInput F tx op)) (\<lambda>prev.
           sret (chain_entry_of op rel r, prev))))"

definition finish_crawl :: "('s, 'j) ordfs \<Rightarrow> outpoint \<Rightarrow> chain_entry list \<Rightarrow> int \<Rightarrow> outpoint list \<Rightarrow> ('s, err, outpoint) sm" where
  "finish_crawl F origin chain priorSeq locked s =
     (case migrateToOrigin F origin chain priorSeq s of
        (Inl e, s') \<Rightarrow> (Inl e, of_PublishFailure F locked s')
      | (Inr _, s') \<Rightarrow> (Inr origin, of_PublishComplete F locked (op_string (of_sdk F) origin) s'))"

text \<open>The loop, with the outpoints whose locks it holds; \<open>None\<close> when the fuel is used up.\<close>

fun crawl_loop :: "nat \<Rightarrow> ('s, 'j) ordfs \<Rightarrow> outpoint \<Rightarrow> int \<Rightarrow> chain_entry list \<Rightarrow> outpoint list \<Rightarrow> 's \<Rightarrow>
    ((err + outpoint) \<times> outpoint list \<times> 's) option" where
  "crawl_loop 0 F cur rel chain locked s = None"
| "crawl_loop (Suc n) F cur rel chain locked s =
     (case known_or_locked F cur s of
        (Inl e, s1) \<Rightarrow> Some (Inl e, locked, s1)
      | (Inr (Some info), s1) \<Rightarrow>
          (case finish_crawl F (oi_Origin info) chain (uint (oi_Seq info)) locked s1 of (r, s2) \<Rightarrow> Some (r, locked, s2))
      | (Inr None, s1) \<Rightarrow>
          (case crawl_step F cur rel s1 of
             (Inl e, s2) \<Rightarrow> Some (Inl e, locked @ [cur], s2)
           | (Inr (entry, None), s2) \<Rightarrow>
               (case finish_crawl F cur (chain @ [entry]) (-1) (locked @ [cur]) s2 of (r, s3) \<Rightarrow> Some (r, locked @ [cur], s3))
           | (Inr (entry, Some prev), s2) \<Rightarrow>
               crawl_loop n F prev (rel - 1) (chain @ [entry]) (locked @ [cur]) s2))"

definition backwardCrawl :: "nat \<Rightarrow> ('s, 'j) ordfs \<Rightarrow> outpoint \<Rightarrow> 's \<Rightarrow> ((err + outpoint) \<times> 's) option" where
  "backwardCrawl n F op s =
     (case crawl_loop n F op 0 [] [] s of
        None \<Rightarrow> None
      | Some (r, locked, s') \<Rightarrow> Some (r, fold (of_ReleaseLock F) locked s'))"

section \<open>Crawling forwards\<close>

definition entry_of :: "outpoint \<Rightarrow> int \<Rightarrow> response \<Rightarrow> origin_entry" where
  "entry_of op seq r =
     \<lparr>oe_Outpoint = op, oe_Seq = of_int seq, oe_HasRev = (rs_ContentType r \<noteq> []), oe_HasMap = (rs_Map r \<noteq> None),
      oe_HasPar = (rs_Parent r \<noteq> None), oe_ContentType = rs_ContentType r, oe_ContentLength = of_int (rs_ContentLength r)\<rparr>"

text \<open>Where the ordinal goes when its outpoint is spent: \<open>None\<close> when it is not, or no longer an ordinal.\<close>

definition next_outpoint :: "('s, 'j) ordfs \<Rightarrow> outpoint \<Rightarrow> err + outpoint option" where
  "next_outpoint F cur =
     rbind (of_GetSpend F cur) (\<lambda>spend.
       case spend of
         None \<Rightarrow> Inr None
       | Some t \<Rightarrow> rbind (of_LoadTx F t) (\<lambda>spendTx. calculateOrdinalOutput F spendTx cur))"

fun forwardCrawl :: "nat \<Rightarrow> ('s, 'j) ordfs \<Rightarrow> outpoint \<Rightarrow> outpoint \<Rightarrow> int \<Rightarrow> int \<Rightarrow> 's \<Rightarrow> ((err + outpoint \<times> int) \<times> 's) option" where
  "forwardCrawl 0 F origin cur curSeq targetSeq s = None"
| "forwardCrawl (Suc n) F origin cur curSeq targetSeq s =
     (case sbind (slift (loadOutput F cur)) (\<lambda>out. sbind (parseOutput F cur out True) (\<lambda>r.
             os_AddEntry (of_origins F) origin (entry_of cur curSeq r))) s of
        (Inl e, s') \<Rightarrow> Some (Inl e, s')
      | (Inr _, s') \<Rightarrow>
          if 0 \<le> targetSeq \<and> targetSeq \<le> curSeq then Some (Inr (cur, curSeq), s')
          else (case next_outpoint F cur of
                  Inl e \<Rightarrow> Some (Inl e, s')
                | Inr None \<Rightarrow> Some (Inr (cur, curSeq), s')
                | Inr (Some nxt) \<Rightarrow> forwardCrawl n F origin nxt (curSeq + 1) targetSeq s'))"

section \<open>Resolving\<close>

record resolution =
  rn_Origin :: outpoint
  rn_Current :: "outpoint option"
  rn_Content :: "rev_entry option"
  rn_Map :: "outpoint option"
  rn_Parent :: "outpoint option"
  rn_Sequence :: int

text \<open>A step that may fail, may change the store, and may run out of fuel.\<close>

definition fbind :: "((err + 'a) \<times> 's) option \<Rightarrow> ('a \<Rightarrow> 's \<Rightarrow> ((err + 'b) \<times> 's) option) \<Rightarrow> ((err + 'b) \<times> 's) option" where
  "fbind m f = (case m of None \<Rightarrow> None | Some (Inl e, s) \<Rightarrow> Some (Inl e, s) | Some (Inr x, s) \<Rightarrow> f x s)"

definition frd :: "('s, 'a) rd \<Rightarrow> 's \<Rightarrow> ((err + 'a) \<times> 's) option" where
  "frd r s = Some (r s, s)"

definition known_or_crawled :: "nat \<Rightarrow> ('s, 'j) ordfs \<Rightarrow> outpoint \<Rightarrow> 's \<Rightarrow> ((err + outpoint) \<times> 's) option" where
  "known_or_crawled n F op s =
     fbind (frd (os_GetOrigin (of_origins F) op) s) (\<lambda>info s.
       case info of Some i \<Rightarrow> Some (Inr (oi_Origin i), s) | None \<Rightarrow> backwardCrawl n F op s)"

text \<open>The outpoint at a place: from the store, or by crawling on from the latest place; \<open>-1\<close> is the end.\<close>

definition target_of :: "nat \<Rightarrow> ('s, 'j) ordfs \<Rightarrow> outpoint \<Rightarrow> int \<Rightarrow> 's \<Rightarrow> ((err + outpoint option \<times> int) \<times> 's) option" where
  "target_of n F origin seq s =
     fbind (if 0 \<le> seq then frd (os_GetSeqAt (of_origins F) origin (of_int seq)) s else Some (Inr None, s)) (\<lambda>target s.
       if target \<noteq> None then Some (Inr (target, seq), s)
       else fbind (frd (os_GetLatestSeq (of_origins F) origin) s) (\<lambda>(start, startSeq) s.
         fbind (case start of
                  None \<Rightarrow> forwardCrawl n F origin origin 0 seq s
                | Some p \<Rightarrow> forwardCrawl n F origin p (uint startSeq) seq s) (\<lambda>(final, finalSeq) s.
           if seq = -1 then Some (Inr (Some final, finalSeq), s)
           else if 0 \<le> seq then
             fbind (frd (os_GetSeqAt (of_origins F) origin (of_int seq)) s) (\<lambda>target s.
               case target of None \<Rightarrow> Some (Inl ErrNotFound, s) | Some p \<Rightarrow> Some (Inr (Some p, seq), s))
           else Some (Inr (None, seq), s))))"

definition Resolve :: "nat \<Rightarrow> ('s, 'j) ordfs \<Rightarrow> outpoint \<Rightarrow> int \<Rightarrow> 's \<Rightarrow> ((err + resolution) \<times> 's) option" where
  "Resolve n F requested seq s =
     fbind (known_or_crawled n F requested s) (\<lambda>origin s.
       fbind (target_of n F origin seq s) (\<lambda>(target, targetSeq) s.
         fbind (frd (os_GetLatestRevBefore (of_origins F) origin (of_int targetSeq)) s) (\<lambda>rev s.
           fbind (frd (os_GetLatestMapBefore (of_origins F) origin (of_int targetSeq)) s) (\<lambda>mp s.
             fbind (frd (os_GetLatestParentBefore (of_origins F) origin (of_int targetSeq)) s) (\<lambda>par s.
               if rev = None then Some (Inl ErrNotFound, s)
               else Some (Inr \<lparr>rn_Origin = origin, rn_Current = target, rn_Content = rev, rn_Map = mp, rn_Parent = par,
                      rn_Sequence = targetSeq\<rparr>, s))))))"

section \<open>Answering a request\<close>

record request =
  rq_Outpoint :: "outpoint option"
  rq_Txid :: "txid option"
  rq_Seq :: "int option"
  rq_Raw :: bool
  rq_Content :: bool
  rq_Map :: bool
  rq_Parent :: bool

definition SeqOrigin :: int where "SeqOrigin = -2"

text \<open>A step that cannot run out of fuel, as one that can.\<close>

definition fsm :: "('s, err, 'a) sm \<Rightarrow> 's \<Rightarrow> ((err + 'a) \<times> 's) option" where
  "fsm m s = Some (m s)"

definition drop_unasked :: "request \<Rightarrow> response \<Rightarrow> response" where
  "drop_unasked req r =
     r\<lparr>rs_Content := (if rq_Content req then rs_Content r else None), rs_Map := (if rq_Map req then rs_Map r else None)\<rparr>"

definition originInfo :: "nat \<Rightarrow> ('s, 'j) ordfs \<Rightarrow> outpoint \<Rightarrow> 's \<Rightarrow> ((err + origin_info) \<times> 's) option" where
  "originInfo n F op s =
     fbind (frd (os_GetOrigin (of_origins F) op) s) (\<lambda>info s.
       case info of
         Some i \<Rightarrow> Some (Inr i, s)
       | None \<Rightarrow>
           fbind (backwardCrawl n F op s) (\<lambda>_ s.
             fbind (frd (os_GetOrigin (of_origins F) op) s) (\<lambda>info s.
               case info of Some i \<Rightarrow> Some (Inr i, s) | None \<Rightarrow> Some (Inl ErrNotFound, s))))"

text \<open>The first output with content, by its index.\<close>

fun first_content :: "('s, 'j) ordfs \<Rightarrow> request \<Rightarrow> txid \<Rightarrow> nat \<Rightarrow> (64 word \<times> bytes) list \<Rightarrow> ('s, err, response) sm" where
  "first_content F req txid i [] = sfail ErrNotFound"
| "first_content F req txid i (out # outs) =
     (let op = \<lparr>op_txid = txid, op_index = of_nat i\<rparr> in
      sbind (parseOutput F op out (rq_Content req)) (\<lambda>r.
        if rs_Content r \<noteq> None then sret (drop_unasked req (r\<lparr>rs_Outpoint := Some op, rs_Sequence := 0\<rparr>))
        else first_content F req txid (Suc i) outs))"

definition loadByTxid :: "('s, 'j) ordfs \<Rightarrow> request \<Rightarrow> txid \<Rightarrow> ('s, err, response) sm" where
  "loadByTxid F req txid =
     sbind (slift (of_LoadTx F txid)) (\<lambda>tx. first_content F req txid 0 (ot_Outputs tx))"

definition merged_key :: "sdk \<Rightarrow> outpoint \<Rightarrow> bytes" where
  "merged_key K op = ''merged:'' @ op_string K op"

text \<open>The map of one outpoint: from the cache, or parsed again; an output that does not load is passed over.\<close>

definition parsed_map :: "('s, 'j) ordfs \<Rightarrow> outpoint \<Rightarrow> ('s, err, 'j any_map) sm" where
  "parsed_map F op =
     sbind (slift (loadOutput F op)) (\<lambda>out. sbind (parseOutput F op out False) (\<lambda>r.
       sret (case Option.bind (rs_Map r) (unmarshal_any (of_json F)) of None \<Rightarrow> Map.empty | Some a \<Rightarrow> a)))"

definition map_at :: "('s, 'j) ordfs \<Rightarrow> outpoint \<Rightarrow> ('s, err, 'j any_map) sm" where
  "map_at F op s =
     (case getCachedParsed F op s of
        (Some e, s') \<Rightarrow>
          if pe_Map e \<noteq> [] then (Inr (case unmarshal_any (of_json F) (pe_Map e) of None \<Rightarrow> Map.empty | Some a \<Rightarrow> a), s')
          else parsed_map F op s'
      | (None, s') \<Rightarrow> parsed_map F op s')"

fun merge_maps :: "('s, 'j) ordfs \<Rightarrow> outpoint option list \<Rightarrow> 'j any_map \<Rightarrow> 's \<Rightarrow> 'j any_map \<times> 's" where
  "merge_maps F [] m s = (m, s)"
| "merge_maps F (None # ops) m s = merge_maps F ops m s"
| "merge_maps F (Some op # ops) m s =
     (case map_at F op s of
        (Inr a, s') \<Rightarrow> merge_maps F ops (m ++ a) s'
      | (Inl e, s') \<Rightarrow> merge_maps F ops m s')"

definition merge_and_cache :: "('s, 'j) ordfs \<Rightarrow> outpoint \<Rightarrow> outpoint option list \<Rightarrow> ('s, err, 'j any_map) sm" where
  "merge_and_cache F mapOutpoint ops s =
     (case merge_maps F ops Map.empty s of
        (m, s') \<Rightarrow> (Inr m, case marshal_any (of_json F) m of
                               None \<Rightarrow> s' | Some b \<Rightarrow> of_cache_Set F (merged_key (of_sdk F) mapOutpoint) b s'))"

definition cached_merge :: "('s, 'j) ordfs \<Rightarrow> outpoint \<Rightarrow> 's \<Rightarrow> 'j any_map option \<times> 's" where
  "cached_merge F mapOutpoint s =
     (case of_cache_Get F (merged_key (of_sdk F) mapOutpoint) s of
        (Inr (Some b), s') \<Rightarrow> (unmarshal_any (of_json F) b, s')
      | (_, s') \<Rightarrow> (None, s'))"

definition loadMergedMap :: "('s, 'j) ordfs \<Rightarrow> outpoint \<Rightarrow> outpoint \<Rightarrow> ('s, err, 'j any_map) sm" where
  "loadMergedMap F origin mapOutpoint s =
     (case cached_merge F mapOutpoint s of
        (Some m, s') \<Rightarrow> (Inr m, s')
      | (None, s') \<Rightarrow>
          sbind (sread (os_GetMapSeq (of_origins F) origin mapOutpoint)) (\<lambda>mapSeq.
            sbind (sread (os_GetAllMapUpTo (of_origins F) origin mapSeq)) (merge_and_cache F mapOutpoint)) s')"

text \<open>The content, the merged map and the parent of a resolution, as far as they are asked for.\<close>

definition part :: "bool \<Rightarrow> ('s, err, response) sm \<Rightarrow> response \<Rightarrow> ('s, err, response) sm" where
  "part asked m r = (if asked then m else sret r)"

definition loadResolution :: "('s, 'j) ordfs \<Rightarrow> request \<Rightarrow> resolution \<Rightarrow> ('s, err, response) sm" where
  "loadResolution F req rn =
     (let r0 = \<lparr>rs_Outpoint = rn_Current rn, rs_Origin = Some (rn_Origin rn),
                rs_ContentType = (case rn_Content rn of None \<Rightarrow> [] | Some e \<Rightarrow> rv_ContentType e), rs_Content = None,
                rs_ContentLength = (case rn_Content rn of None \<Rightarrow> 0 | Some e \<Rightarrow> uint (rv_ContentLength e)),
                rs_Map = None, rs_Sequence = rn_Sequence rn, rs_Parent = None\<rparr> in
      sbind (case rn_Content rn of
               None \<Rightarrow> sret r0
             | Some e \<Rightarrow> part (rq_Content req)
                 (case rv_Outpoint e of
                    None \<Rightarrow> sfail nil_pointer
                  | Some op \<Rightarrow> sbind (slift (loadOutput F op)) (\<lambda>out. sbind (parseOutput F op out True) (\<lambda>p.
                      sret (r0\<lparr>rs_Content := rs_Content p\<rparr>)))) r0) (\<lambda>r1.
        sbind (case rn_Map rn of
                 None \<Rightarrow> sret r1
               | Some op \<Rightarrow> part (rq_Map req)
                   (sbind (loadMergedMap F (rn_Origin rn) op) (\<lambda>m.
                     sret (case marshal_any (of_json F) m of None \<Rightarrow> r1 | Some b \<Rightarrow> r1\<lparr>rs_Map := Some b\<rparr>))) r1) (\<lambda>r2.
          case rn_Parent rn of
            None \<Rightarrow> sret r2
          | Some op \<Rightarrow> part (rq_Parent req)
              (sbind (slift (loadOutput F op)) (\<lambda>out. sbind (parseOutput F op out False) (\<lambda>p.
                sret (r2\<lparr>rs_Parent := rs_Parent p\<rparr>)))) r2)))"

definition Load :: "nat \<Rightarrow> ('s, 'j) ordfs \<Rightarrow> request \<Rightarrow> 's \<Rightarrow> ((err + response) \<times> 's) option" where
  "Load n F req s =
     (case rq_Txid req of
        Some t \<Rightarrow> fsm (loadByTxid F req t) s
      | None \<Rightarrow>
          (case rq_Outpoint req of
             None \<Rightarrow> Some (Inl (ErrOther ''either txid or outpoint is required''), s)
           | Some op \<Rightarrow>
               fbind (fsm (slift (loadOutput F op)) s) (\<lambda>out s.
                 if rq_Raw req \<or> fst out \<noteq> 1
                 then fsm (sbind (parseOutput F op out (rq_Content req)) (\<lambda>r. sret (drop_unasked req (r\<lparr>rs_Outpoint := Some op\<rparr>)))) s
                 else fbind (case rq_Seq req of
                               None \<Rightarrow> fbind (originInfo n F op s) (\<lambda>i s. Some (Inr (uint (oi_Seq i)), s))
                             | Some q \<Rightarrow> Some (Inr (if q = SeqOrigin then 0 else q), s)) (\<lambda>seq s.
                        fbind (Resolve n F op seq s) (\<lambda>rn s. fsm (loadResolution F req rn) s)))))"

section \<open>Streams\<close>

record stream_response =
  sr_Origin :: outpoint
  sr_ContentType :: bytes
  sr_BytesWritten :: int
  sr_FinalSequence :: int
  sr_StreamEnded :: bool

text \<open>
  The part of a chunk that is written: whether the start of the range has been found, the bytes, and whether the range
  is finished. An end without a start dereferences the nil start.
\<close>

definition chunk_part :: "int option \<Rightarrow> int option \<Rightarrow> int \<Rightarrow> bool \<Rightarrow> bytes \<Rightarrow> err + bool \<times> bytes" where
  "chunk_part rangeStart rangeEnd cumulative startFound content =
     (let size = int (length content);
          here = (case rangeStart of None \<Rightarrow> False | Some a \<Rightarrow> \<not> startFound \<and> a < cumulative + size);
          chunkStart = (if here then the rangeStart - cumulative else 0);
          startFound' = (startFound \<or> here) in
      rbind (case rangeEnd of
               None \<Rightarrow> Inr size
             | Some b \<Rightarrow>
                 if \<not> startFound' then Inr size
                 else (case rangeStart of
                         None \<Rightarrow> Inl nil_pointer
                       | Some a \<Rightarrow>
                           let fromStart = cumulative - a in
                           Inr (if b - a < fromStart + size then b - a - fromStart else size))) (\<lambda>chunkEnd.
        if startFound' \<and> chunkStart < chunkEnd
        then (if chunkStart < 0 then Inl (ErrOther ''panic: slice bounds out of range'')
              else Inr (startFound', take (nat (chunkEnd - chunkStart)) (drop (nat chunkStart) content)))
        else Inr (startFound', [])))"

definition range_done :: "int option \<Rightarrow> int option \<Rightarrow> int \<Rightarrow> bool" where
  "range_done rangeStart rangeEnd written =
     (case rangeEnd of None \<Rightarrow> False | Some b \<Rightarrow> (case rangeStart of None \<Rightarrow> False | Some a \<Rightarrow> b - a \<le> written))"

text \<open>The loop; the bytes written so far are its output. The writer is taken not to fail.\<close>

fun stream_loop :: "nat \<Rightarrow> ('s, 'j) ordfs \<Rightarrow> outpoint \<Rightarrow> int option \<Rightarrow> int option \<Rightarrow> outpoint \<Rightarrow> int \<Rightarrow> int \<Rightarrow> bool \<Rightarrow> bytes \<Rightarrow> bytes \<Rightarrow> 's \<Rightarrow>
    ((err + stream_response) \<times> bytes \<times> 's) option" where
  "stream_loop 0 F origin a b cur rel cumulative startFound contentType out s = None"
| "stream_loop (Suc n) F origin a b cur rel cumulative startFound contentType out s =
     (case sbind (slift (loadOutput F cur)) (\<lambda>o1. parseOutput F cur o1 True) s of
        (Inl e, s') \<Rightarrow> Some (Inl e, out, s')
      | (Inr r, s') \<Rightarrow>
          let contentType' = (if rel = 0 then rs_ContentType r else contentType);
              content = (case rs_Content r of None \<Rightarrow> [] | Some c \<Rightarrow> c);
              response = (\<lambda>out'. \<lparr>sr_Origin = origin, sr_ContentType = contentType', sr_BytesWritten = int (length out'),
                                   sr_FinalSequence = rel, sr_StreamEnded = True\<rparr>) in
          (case (if content = [] then Inr (startFound, []) else chunk_part a b cumulative startFound content) of
             Inl e \<Rightarrow> Some (Inl e, out, s')
           | Inr (startFound', piece) \<Rightarrow>
               let out' = out @ piece in
               if piece \<noteq> [] \<and> range_done a b (int (length out')) then Some (Inr (response out'), out', s')
               else if 0 < rel \<and> rs_ContentType r \<noteq> ''ordfs/stream'' then Some (Inr (response out'), out', s')
               else (case of_GetSpend F cur of
                       Inr (Some t) \<Rightarrow>
                         (case of_LoadTx F t of
                            Inl e \<Rightarrow> Some (Inl e, out', s')
                          | Inr spendTx \<Rightarrow>
                              (case calculateOrdinalOutput F spendTx cur of
                                 Inr (Some nxt) \<Rightarrow>
                                   stream_loop n F origin a b nxt (rel + 1) (cumulative + int (length content)) startFound' contentType' out' s'
                               | _ \<Rightarrow> Some (Inr (response out'), out', s')))
                     | _ \<Rightarrow> Some (Inr (response out'), out', s'))))"

definition StreamContent :: "nat \<Rightarrow> ('s, 'j) ordfs \<Rightarrow> outpoint \<Rightarrow> int option \<Rightarrow> int option \<Rightarrow> 's \<Rightarrow> ((err + stream_response) \<times> bytes \<times> 's) option" where
  "StreamContent n F op rangeStart rangeEnd s =
     (case known_or_crawled n F op s of
        None \<Rightarrow> None
      | Some (Inl e, s') \<Rightarrow> Some (Inl e, [], s')
      | Some (Inr origin, s') \<Rightarrow> stream_loop n F origin rangeStart rangeEnd op 0 0 (rangeStart = None) [] [] s')"

end
