(* ===== verification/OrdfsLaws.thy ===== *)
theory OrdfsLaws
  imports Ordfs OriginBadger Ordinals
begin

text \<open>
  Chains of ordinals as the crawl sees them, when an index of them is true to the chains, and that crawling
  keeps it so.
\<close>

section \<open>Chains\<close>

text \<open>What a step back sees of an outpoint: its parsed output, and where its ordinal came from.\<close>

definition parsed_value :: "('s, 'j) ordfs \<Rightarrow> 64 word \<times> bytes \<Rightarrow> bool \<Rightarrow> err + response" where
  "parsed_value F out loadContent =
     rbind (of_fault (scan_script (of_sdk F) (of_script F) loadContent (snd out))) (\<lambda>fd. Inr (response_of F fd))"

definition visit :: "('s, 'j) ordfs \<Rightarrow> outpoint \<Rightarrow> err + response \<times> outpoint option" where
  "visit F op =
     rbind (of_LoadTx F (op_txid op)) (\<lambda>tx.
       if length (ot_Outputs tx) \<le> unat (op_index op) then Inl (ErrOther ''invalid outpoint index'')
       else rbind (parsed_value F (ot_Outputs tx ! unat (op_index op)) True) (\<lambda>r.
         rbind (calculatePreviousOrdinalInput F tx op) (\<lambda>p. Inr (r, p))))"

text \<open>The origin of an outpoint and how many steps lead back to it.\<close>

inductive hops :: "('s, 'j) ordfs \<Rightarrow> outpoint \<Rightarrow> outpoint \<Rightarrow> nat \<Rightarrow> bool" for F where
  at_origin: "visit F op = Inr (r, None) \<Longrightarrow> hops F op op 0"
| step_back: "visit F op = Inr (r, Some p) \<Longrightarrow> hops F p o1 n \<Longrightarrow> hops F op o1 (Suc n)"

inductive_cases hops_0E: "hops F op o1 0"
inductive_cases hops_SucE: "hops F op o1 (Suc n)"

lemma hops_unique: "hops F op o1 n \<Longrightarrow> hops F op o2 m \<Longrightarrow> o1 = o2 \<and> n = m"
proof (induction arbitrary: m rule: hops.induct)
  case (at_origin op r)
  from at_origin(2,1) show ?case by (cases rule: hops.cases) auto
next
  case (step_back op r p o1 n)
  from step_back.prems step_back.hyps(1) show ?case
    by (cases rule: hops.cases) (use step_back.IH in auto)
qed

text \<open>What the index records of an outpoint at its place.\<close>

definition rev_at :: "('s, 'j) ordfs \<Rightarrow> outpoint \<Rightarrow> rev_entry option" where
  "rev_at F op =
     (case visit F op of
        Inl e \<Rightarrow> None
      | Inr (r, p) \<Rightarrow>
          if rs_ContentType r = [] then None
          else Some \<lparr>rv_Outpoint = Some op, rv_ContentType = rs_ContentType r, rv_ContentLength = of_int (rs_ContentLength r)\<rparr>)"

definition has_map :: "('s, 'j) ordfs \<Rightarrow> outpoint \<Rightarrow> outpoint option" where
  "has_map F op = (case visit F op of Inl e \<Rightarrow> None | Inr (r, p) \<Rightarrow> if rs_Map r = None then None else Some op)"

definition has_parent :: "('s, 'j) ordfs \<Rightarrow> outpoint \<Rightarrow> outpoint option" where
  "has_parent F op = (case visit F op of Inl e \<Rightarrow> None | Inr (r, p) \<Rightarrow> if rs_Parent r = None then None else Some op)"

section \<open>A true index\<close>

text \<open>
  Every recorded place is the outpoint's true place, a place has exactly the content, map and parent entries of its
  outpoint, and the places of an origin have no gaps.
\<close>

definition true_places :: "('s, 'j) ordfs \<Rightarrow> origins \<Rightarrow> bool" where
  "true_places F g \<longleftrightarrow>
     (\<forall>op o1 n. og_org g op = Some (o1, n) \<longrightarrow> hops F op o1 (unat n) \<and> og_seq g o1 n = Some op) \<and>
     (\<forall>o1 n op. og_seq g o1 n = Some op \<longrightarrow> hops F op o1 (unat n) \<and> n < 0xff000000) \<and>
     (\<forall>o1 n. og_rev g o1 n = Option.bind (og_seq g o1 n) (rev_at F)) \<and>
     (\<forall>o1 n. og_map g o1 n = Option.bind (og_seq g o1 n) (has_map F)) \<and>
     (\<forall>o1 n. og_par g o1 n = Option.bind (og_seq g o1 n) (has_parent F))"

definition no_gaps :: "origins \<Rightarrow> bool" where
  "no_gaps g \<longleftrightarrow> (\<forall>o1 n m. og_seq g o1 n \<noteq> None \<longrightarrow> m \<le> n \<longrightarrow> og_seq g o1 m \<noteq> None)"

text \<open>An ordinal goes to at most one output.\<close>

definition linear :: "('s, 'j) ordfs \<Rightarrow> bool" where
  "linear F \<longleftrightarrow> (\<forall>a b r r' p. visit F a = Inr (r, Some p) \<longrightarrow> visit F b = Inr (r', Some p) \<longrightarrow> a = b)"

lemma linear_hops: "hops F a o1 n \<Longrightarrow> linear F \<Longrightarrow> hops F b o1 n \<Longrightarrow> a = b"
proof (induction arbitrary: b rule: hops.induct)
  case (at_origin op r)
  from at_origin(3) show ?case by (cases rule: hops.cases) auto
next
  case (step_back op r p o1 n)
  from step_back.prems(2) show ?case
  proof (cases rule: hops.cases)
    case (step_back r' p')
    then have "p = p'" using step_back.IH[OF step_back.prems(1)] by blast
    then show ?thesis using step_back.hyps(1) step_back(1) step_back.prems(1) unfolding linear_def by blast
  qed
qed

text \<open>An entry that is true to its outpoint.\<close>

definition true_entry :: "('s, 'j) ordfs \<Rightarrow> outpoint \<Rightarrow> origin_entry \<Rightarrow> bool" where
  "true_entry F o1 e \<longleftrightarrow> hops F (oe_Outpoint e) o1 (unat (oe_Seq e)) \<and> oe_Seq e < 0xff000000 \<and>
     rev_at F (oe_Outpoint e) = (if oe_HasRev e then Some (rev_of e) else None) \<and>
     has_map F (oe_Outpoint e) = (if oe_HasMap e then Some (oe_Outpoint e) else None) \<and>
     has_parent F (oe_Outpoint e) = (if oe_HasPar e then Some (oe_Outpoint e) else None)"

lemma true_places_put:
  assumes g: "true_places F g" and e: "true_entry F o1 e" and lin: "linear F"
  shows "true_places F (put_entry o1 e g)"
proof -
  note gd = g[unfolded true_places_def] and ed = e[unfolded true_entry_def]
  have same: "og_seq g o1 (oe_Seq e) = None \<or> og_seq g o1 (oe_Seq e) = Some (oe_Outpoint e)"
  proof (cases "og_seq g o1 (oe_Seq e)")
    case (Some op)
    then have "hops F op o1 (unat (oe_Seq e))" using gd by blast
    then show ?thesis using linear_hops[OF _ lin, of op o1] ed Some by blast
  qed simp
  have org: "hops F op o2 (unat n) \<and> og_seq (put_entry o1 e g) o2 n = Some op"
    if h: "og_org (put_entry o1 e g) op = Some (o2, n)" for op o2 n
  proof (cases "op = oe_Outpoint e")
    case True
    then show ?thesis using h ed by (simp add: put_entry_def at_def)
  next
    case False
    then have "hops F op o2 (unat n) \<and> og_seq g o2 n = Some op" using h gd by (simp add: put_entry_def)
    then show ?thesis using same False by (auto simp: put_entry_def at_def)
  qed
  have sq: "hops F op o2 (unat n) \<and> n < 0xff000000" if "og_seq (put_entry o1 e g) o2 n = Some op" for o2 n op
    using that gd ed by (auto simp: put_entry_def at_def split: if_splits)
  have at_other: "og_seq (put_entry o1 e g) o2 n = (if o2 = o1 \<and> n = oe_Seq e then Some (oe_Outpoint e) else og_seq g o2 n)" for o2 n
    by (simp add: put_entry_def at_def)
  have rv: "og_rev (put_entry o1 e g) o2 n = Option.bind (og_seq (put_entry o1 e g) o2 n) (rev_at F)" for o2 n
    using gd ed same unfolding at_other by (auto simp: put_entry_def at_def)
  have mp: "og_map (put_entry o1 e g) o2 n = Option.bind (og_seq (put_entry o1 e g) o2 n) (has_map F)" for o2 n
    using gd ed same unfolding at_other by (auto simp: put_entry_def at_def)
  have pr: "og_par (put_entry o1 e g) o2 n = Option.bind (og_seq (put_entry o1 e g) o2 n) (has_parent F)" for o2 n
    using gd ed same unfolding at_other by (auto simp: put_entry_def at_def)
  show ?thesis unfolding true_places_def using org sq rv mp pr by blast
qed

lemma true_places_puts: "true_places F g \<Longrightarrow> \<forall>e\<in>set es. true_entry F o1 e \<Longrightarrow> linear F \<Longrightarrow> true_places F (fold (put_entry o1) es g)"
  by (induction es arbitrary: g) (auto intro: true_places_put)

lemma puts_seq_dom:
  "og_seq (fold (put_entry o1) es g) o2 n \<noteq> None \<longleftrightarrow> og_seq g o2 n \<noteq> None \<or> o2 = o1 \<and> n \<in> oe_Seq ` set es"
  by (induction es arbitrary: g) (auto simp: put_entry_def at_def)

lemma puts_org:
  "op \<notin> oe_Outpoint ` set es \<Longrightarrow> og_org (fold (put_entry o1) es g) op = og_org g op"
  by (induction es arbitrary: g) (auto simp: put_entry_def)

lemma puts_org_dom: "op \<in> oe_Outpoint ` set es \<Longrightarrow> og_org (fold (put_entry o1) es g) op \<noteq> None"
proof (induction es arbitrary: g)
  case (Cons e es)
  show ?case
  proof (cases "op \<in> oe_Outpoint ` set es")
    case False
    then have "op = oe_Outpoint e" using Cons.prems by auto
    moreover have "og_org (put_entry o1 e g) (oe_Outpoint e) = Some (o1, oe_Seq e)" by (simp add: put_entry_def)
    ultimately show ?thesis using puts_org[OF False, of o1 "put_entry o1 e g"] by simp
  qed (use Cons.IH in simp)
qed simp

section \<open>The entries of a crawl\<close>

text \<open>Chain entries from the newest back, the last one at the place \<open>base\<close> of the origin's chain.\<close>

definition line :: "('s, 'j) ordfs \<Rightarrow> outpoint \<Rightarrow> nat \<Rightarrow> chain_entry list \<Rightarrow> bool" where
  "line F o1 base cs \<longleftrightarrow> (\<forall>i<length cs. \<exists>q r p. cs ! i = chain_entry_of q (- int i) r \<and> visit F q = Inr (r, p) \<and>
     hops F q o1 (base + (length cs - 1 - i)) \<and> wf_op q)"

text \<open>The way back from an outpoint: the entries so far, and where the crawl stands.\<close>

inductive path :: "('s, 'j) ordfs \<Rightarrow> outpoint \<Rightarrow> chain_entry list \<Rightarrow> outpoint \<Rightarrow> bool" for F op where
  path_nil: "path F op [] op"
| path_snoc: "path F op es cur \<Longrightarrow> visit F cur = Inr (r, Some p) \<Longrightarrow> wf_op cur \<Longrightarrow>
    path F op (es @ [chain_entry_of cur (- int (length es)) r]) p"

lemma path_hops: "path F op es cur \<Longrightarrow> hops F cur o1 n \<Longrightarrow> hops F op o1 (n + length es)"
proof (induction arbitrary: n rule: path.induct)
  case (path_snoc es cur r p)
  then have "hops F cur o1 (Suc n)" by (blast intro: step_back)
  from path_snoc.IH[OF this] show ?case by simp
qed simp

lemma path_line: "path F op es cur \<Longrightarrow> hops F cur o1 n \<Longrightarrow> line F o1 (Suc n) es"
proof (induction arbitrary: n rule: path.induct)
  case path_nil
  then show ?case by (simp add: line_def)
next
  case (path_snoc es cur r p)
  have cur: "hops F cur o1 (Suc n)" using path_snoc.hyps(2) path_snoc.prems by (blast intro: step_back)
  have ih: "line F o1 (Suc (Suc n)) es" by (rule path_snoc.IH[OF cur])
  show ?case unfolding line_def
  proof (intro allI impI)
    fix i assume i: "i < length (es @ [chain_entry_of cur (- int (length es)) r])"
    show "\<exists>q r' p'. (es @ [chain_entry_of cur (- int (length es)) r]) ! i = chain_entry_of q (- int i) r' \<and> visit F q = Inr (r', p') \<and>
        hops F q o1 (Suc n + (length (es @ [chain_entry_of cur (- int (length es)) r]) - 1 - i)) \<and> wf_op q"
    proof (cases "i < length es")
      case True
      then have "Suc n + (length (es @ [chain_entry_of cur (- int (length es)) r]) - 1 - i) = Suc (Suc n) + (length es - 1 - i)" by simp
      then show ?thesis using True ih unfolding line_def by (simp add: nth_append)
    next
      case False
      then have "i = length es" using i by simp
      then show ?thesis using cur path_snoc.hyps(2,3) by auto
    qed
  qed
qed

lemma path_line_origin:
  assumes "path F op es cur" "visit F cur = Inr (r, None)" "wf_op cur"
  shows "line F cur 0 (es @ [chain_entry_of cur (- int (length es)) r])"
proof -
  have cur: "hops F cur cur 0" using assms(2) by (rule at_origin)
  have "line F cur (Suc 0) es" by (rule path_line[OF assms(1) cur])
  then show ?thesis unfolding line_def
  proof (intro allI impI)
    fix i assume l: "\<forall>i<length es. \<exists>q r p. es ! i = chain_entry_of q (- int i) r \<and> visit F q = Inr (r, p) \<and> hops F q cur (Suc 0 + (length es - 1 - i)) \<and> wf_op q"
      and i: "i < length (es @ [chain_entry_of cur (- int (length es)) r])"
    show "\<exists>q r' p'. (es @ [chain_entry_of cur (- int (length es)) r]) ! i = chain_entry_of q (- int i) r' \<and> visit F q = Inr (r', p') \<and>
        hops F q cur (0 + (length (es @ [chain_entry_of cur (- int (length es)) r]) - 1 - i)) \<and> wf_op q"
    proof (cases "i < length es")
      case True
      then have "0 + (length (es @ [chain_entry_of cur (- int (length es)) r]) - 1 - i) = Suc 0 + (length es - 1 - i)" by simp
      then show ?thesis using True l by (simp add: nth_append)
    next
      case False
      then have "i = length es" using i by simp
      then show ?thesis using cur assms(2,3) by auto
    qed
  qed
qed

lemma path_first: "path F op es cur \<Longrightarrow> es \<noteq> [] \<Longrightarrow> ce_Outpoint (es ! 0) = op"
  by (induction rule: path.induct) (auto simp: nth_append chain_entry_of_def elim: path.cases)

lemma line_last: "line F o1 base cs \<Longrightarrow> cs \<noteq> [] \<Longrightarrow> ce_RelativeSeq (last cs) = 1 - int (length cs)"
  by (auto simp: line_def last_conv_nth chain_entry_of_def of_nat_diff Suc_le_eq dest!: spec[of _ "length cs - 1"])

definition line_entries :: "nat \<Rightarrow> chain_entry list \<Rightarrow> origin_entry list" where
  "line_entries base cs = map (entry_at (int base - ce_RelativeSeq (last cs))) cs"

lemma word_small: "n < 0xff000000 \<Longrightarrow> unat (of_nat n :: 32 word) = n \<and> (of_nat n :: 32 word) < 0xff000000"
  by (simp add: word_less_nat_alt unat_of_nat)

text \<open>The entries written for a line are true, at consecutive places from \<open>base\<close>.\<close>

lemma line_entries_at:
  assumes l: "line F o1 base cs" and i: "i < length cs" and small: "base + length cs \<le> 0xff000000"
  shows "true_entry F o1 (line_entries base cs ! i) \<and> wf_op (oe_Outpoint (line_entries base cs ! i)) \<and>
    oe_Seq (line_entries base cs ! i) = of_nat (base + (length cs - 1 - i)) \<and> oe_Outpoint (line_entries base cs ! i) = ce_Outpoint (cs ! i)"
proof -
  obtain q r p where c: "cs ! i = chain_entry_of q (- int i) r" "visit F q = Inr (r, p)" "hops F q o1 (base + (length cs - 1 - i))" "wf_op q"
    using l i unfolding line_def by blast
  let ?n = "base + (length cs - 1 - i)"
  have "ce_RelativeSeq (last cs) = 1 - int (length cs)" using line_last[OF l] i by fastforce
  then have s: "- int i + (int base - ce_RelativeSeq (last cs)) = int ?n" using i by (simp add: of_nat_diff)
  have e: "line_entries base cs ! i = \<lparr>oe_Outpoint = q, oe_Seq = of_nat ?n, oe_HasRev = (rs_ContentType r \<noteq> []),
      oe_HasMap = (rs_Map r \<noteq> None), oe_HasPar = (rs_Parent r \<noteq> None), oe_ContentType = rs_ContentType r,
      oe_ContentLength = of_int (rs_ContentLength r)\<rparr>"
  proof -
    have "line_entries base cs ! i = entry_at (int base - ce_RelativeSeq (last cs)) (chain_entry_of q (- int i) r)"
      using i c(1) by (simp add: line_entries_def)
    also have "\<dots> = \<lparr>oe_Outpoint = q, oe_Seq = of_int (int ?n), oe_HasRev = (rs_ContentType r \<noteq> []),
      oe_HasMap = (rs_Map r \<noteq> None), oe_HasPar = (rs_Parent r \<noteq> None), oe_ContentType = rs_ContentType r,
      oe_ContentLength = of_int (rs_ContentLength r)\<rparr>"
      unfolding entry_at_def s[symmetric] by (simp add: chain_entry_of_def)
    finally show ?thesis by (simp only: of_int_of_nat_eq)
  qed
  have "?n < 0xff000000" using small i by linarith
  note w = word_small[OF this]
  show ?thesis
    using c w unfolding e true_entry_def rev_at_def has_map_def has_parent_def rev_of_def
    by (auto simp: chain_entry_of_def)
qed

lemma line_entries_all:
  assumes l: "line F o1 base cs" and small: "base + length cs \<le> 0xff000000"
  shows "\<forall>e\<in>set (line_entries base cs). true_entry F o1 e \<and> wf_op (oe_Outpoint e)"
    and "oe_Seq ` set (line_entries base cs) = of_nat ` {base..<base + length cs}"
proof -
  have len: "length (line_entries base cs) = length cs" by (simp add: line_entries_def)
  show "\<forall>e\<in>set (line_entries base cs). true_entry F o1 e \<and> wf_op (oe_Outpoint e)"
    using line_entries_at[OF l _ small] len by (metis in_set_conv_nth)
  have "oe_Seq ` set (line_entries base cs) = (\<lambda>i. of_nat (base + (length cs - 1 - i))) ` {..<length cs}"
  proof -
    have "oe_Seq ` set (line_entries base cs) = (\<lambda>i. oe_Seq (line_entries base cs ! i)) ` {..<length cs}"
      using len by (auto simp: set_conv_nth image_def)
    then show ?thesis using line_entries_at[OF l _ small] by (simp cong: image_cong_simp)
  qed
  also have "\<dots> = of_nat ` ((\<lambda>i. base + (length cs - 1 - i)) ` {..<length cs})" by (simp add: image_image)
  also have "(\<lambda>i. base + (length cs - 1 - i)) ` {..<length cs} = {base..<base + length cs}"
  proof
    show "{base..<base + length cs} \<subseteq> (\<lambda>i. base + (length cs - 1 - i)) ` {..<length cs}"
    proof
      fix x assume "x \<in> {base..<base + length cs}"
      then have "x = base + (length cs - 1 - (length cs - 1 - (x - base)))" "length cs - 1 - (x - base) < length cs" by auto
      then show "x \<in> (\<lambda>i. base + (length cs - 1 - i)) ` {..<length cs}" by blast
    qed
  qed auto
  finally show "oe_Seq ` set (line_entries base cs) = of_nat ` {base..<base + length cs}" .
qed

end
