(* ===== verification/OrdfsLedger.thy ===== *)
theory OrdfsLedger
  imports OrdfsLaws
begin

text \<open>
  What the crawls rely on of the transactions they load: ids match, sums fit in 64 bits, every source has
  satoshis, and no output is spent twice. Then an ordinal goes to at most one output, and the steps forward and back
  undo each other.
\<close>

section \<open>Sound transactions\<close>

text \<open>The satoshis of an input's source, if it loads.\<close>

definition src :: "('s, 'j) ordfs \<Rightarrow> txid option \<times> 32 word \<Rightarrow> sats option" where
  "src F i = (case fst i of
     None \<Rightarrow> None
   | Some t \<Rightarrow> (case loadOutput F \<lparr>op_txid = t, op_index = snd i\<rparr> of Inl e \<Rightarrow> None | Inr out \<Rightarrow> Some (fst out)))"

definition in_of :: "outpoint \<Rightarrow> txid option \<times> 32 word" where
  "in_of p = (Some (op_txid p), op_index p)"

definition sound_tx :: "('s, 'j) ordfs \<Rightarrow> txid \<Rightarrow> otx \<Rightarrow> bool" where
  "sound_tx F t tx \<longleftrightarrow>
     ot_TxID tx = t \<and> length t = 32 \<and> distinct (ot_Inputs tx) \<and> length (ot_Outputs tx) \<le> 2 ^ 32 \<and>
     total (map fst (ot_Outputs tx)) < 2 ^ 64 \<and> total (List.map_filter (src F) (ot_Inputs tx)) < 2 ^ 64 \<and>
     (\<forall>i\<in>set (ot_Inputs tx). src F i \<noteq> Some 0 \<and> (\<forall>u. fst i = Some u \<longrightarrow> length u = 32))"

definition sound_ledger :: "('s, 'j) ordfs \<Rightarrow> bool" where
  "sound_ledger F \<longleftrightarrow>
     (\<forall>t tx. of_LoadTx F t = Inr tx \<longrightarrow> sound_tx F t tx) \<and>
     (\<forall>t u tx ux i. of_LoadTx F t = Inr tx \<longrightarrow> of_LoadTx F u = Inr ux \<longrightarrow>
        i \<in> set (ot_Inputs tx) \<longrightarrow> i \<in> set (ot_Inputs ux) \<longrightarrow> t = u)"

lemma in_of_inj [simp]: "in_of p = in_of q \<longleftrightarrow> p = q"
  by (cases p; cases q) (simp add: in_of_def)

lemma total_filter_take: "pre @ x # suf = xs \<Longrightarrow> \<forall>i\<in>set pre. src F i \<noteq> None \<Longrightarrow>
    total (map (the \<circ> src F) pre) \<le> total (List.map_filter (src F) xs)"
proof -
  assume "pre @ x # suf = xs" "\<forall>i\<in>set pre. src F i \<noteq> None"
  moreover have "\<forall>i\<in>set pre. src F i \<noteq> None \<Longrightarrow> List.map_filter (src F) pre = map (the \<circ> src F) pre"
    by (induction pre) (auto simp: List.map_filter_def)
  moreover have "List.map_filter (src F) (a @ b) = List.map_filter (src F) a @ List.map_filter (src F) b" for a b
    by (simp add: List.map_filter_def)
  ultimately show ?thesis by auto
qed

section \<open>The loops\<close>

text \<open>The loop over the inputs, on the loaded ones.\<close>

lemma loadOutput_src:
  "loadOutput F \<lparr>op_txid = t, op_index = ix\<rparr> = Inr out \<Longrightarrow> src F (Some t, ix) = Some (fst out)"
  by (simp add: src_def)

text \<open>An input stands at an offset when everything before it loads and it brings the ordinal there.\<close>

definition stands_at :: "('s, 'j) ordfs \<Rightarrow> (txid option \<times> 32 word) list \<Rightarrow> outpoint \<Rightarrow> nat \<Rightarrow> bool" where
  "stands_at F ins p n \<longleftrightarrow> (\<exists>pre suf. ins = pre @ in_of p # suf \<and> (\<forall>i\<in>set pre. src F i \<noteq> None) \<and>
     n = total (map (the \<circ> src F) pre))"

lemma stands_at_Cons:
  "stands_at F (i # ins) p n \<longleftrightarrow>
     i = in_of p \<and> n = 0 \<or> (\<exists>s. src F i = Some s \<and> unat s \<le> n \<and> stands_at F ins p (n - unat s))"
  (is "?L \<longleftrightarrow> ?R")
proof
  assume ?L
  then obtain pre suf where p: "i # ins = pre @ in_of p # suf" "\<forall>i\<in>set pre. src F i \<noteq> None" "n = total (map (the \<circ> src F) pre)"
    unfolding stands_at_def by blast
  show ?R
  proof (cases pre)
    case Nil
    then show ?thesis using p by simp
  next
    case (Cons j pre')
    then have "j = i" "ins = pre' @ in_of p # suf" using p by auto
    then show ?thesis using p Cons unfolding stands_at_def by fastforce
  qed
next
  assume ?R
  then show ?L
  proof
    assume "i = in_of p \<and> n = 0"
    then have "i # ins = [] @ in_of p # ins" "n = total (map (the \<circ> src F) [])" by simp_all
    then show ?L unfolding stands_at_def by fastforce
  next
    assume "\<exists>s. src F i = Some s \<and> unat s \<le> n \<and> stands_at F ins p (n - unat s)"
    then obtain s pre suf where "src F i = Some s" "unat s \<le> n" "ins = pre @ in_of p # suf" "\<forall>i\<in>set pre. src F i \<noteq> None"
      "n - unat s = total (map (the \<circ> src F) pre)" unfolding stands_at_def by blast
    then have "i # ins = (i # pre) @ in_of p # suf" "\<forall>j\<in>set (i # pre). src F j \<noteq> None" "n = total (map (the \<circ> src F) (i # pre))"
      by auto
    then show ?L unfolding stands_at_def by blast
  qed
qed

lemma stands_at_Nil [simp]: "\<not> stands_at F [] p n"
  by (simp add: stands_at_def)

lemma map_filter_Cons: "List.map_filter f (x # xs) = (case f x of None \<Rightarrow> List.map_filter f xs | Some y \<Rightarrow> y # List.map_filter f xs)"
  by (simp add: List.map_filter_def split: option.splits)

lemma input_at_iff:
  assumes "unat cum + total (List.map_filter (src F) ins) < 2 ^ 64" "unat cum \<le> unat off" "\<forall>i\<in>set ins. src F i \<noteq> Some 0"
  shows "input_at F off cum ins = Inr (Some p) \<longleftrightarrow> stands_at F ins p (unat off - unat cum) \<and> src F (in_of p) = Some 1"
  using assms
proof (induction ins arbitrary: cum)
  case Nil
  then show ?case by simp
next
  case (Cons i ins)
  obtain t ix where i: "i = (t, ix)" by fastforce
  show ?case
  proof (cases "src F i")
    case None
    then have "stands_at F (i # ins) p (unat off - unat cum) \<and> src F (in_of p) = Some 1 \<longleftrightarrow> False"
      unfolding stands_at_Cons by auto
    moreover have "\<exists>e. input_at F off cum (i # ins) = Inl e"
      using None i by (auto simp: src_def split: option.splits sum.splits)
    ultimately show ?thesis by auto
  next
    case (Some s)
    then obtain u out where u: "t = Some u" "loadOutput F \<lparr>op_txid = u, op_index = ix\<rparr> = Inr out" "fst out = s"
      using i by (auto simp: src_def split: option.splits sum.splits)
    have s0: "0 < unat s" using Cons.prems(3) Some by (auto simp: unat_gt_0)
    have add: "unat (cum + s) = unat cum + unat s"
      using Cons.prems(1) Some by (intro unat_add_lem[THEN iffD1]) (simp add: map_filter_Cons)
    have step: "input_at F off cum (i # ins) =
        (if cum = off then (if s \<noteq> 1 then Inr None else Inr (Some \<lparr>op_txid = u, op_index = ix\<rparr>))
         else if cum + s > off then Inr None else input_at F off (cum + s) ins)"
      using i u by (simp add: case_prod_beta)
    have iof: "i = in_of p \<longleftrightarrow> p = \<lparr>op_txid = u, op_index = ix\<rparr>" using i u by (cases p) (auto simp: in_of_def)
    consider "cum = off" | "cum \<noteq> off" "off < cum + s" | "cum \<noteq> off" "\<not> off < cum + s" by blast
    then show ?thesis
    proof cases
      case 1
      then have "stands_at F (i # ins) p (unat off - unat cum) \<longleftrightarrow> i = in_of p" using s0 Some by (simp add: stands_at_Cons)
      then show ?thesis using step 1 Some iof by auto
    next
      case 2
      then have "unat off - unat cum < unat s" using add Cons.prems(2) by (simp add: word_less_nat_alt)
      moreover have "unat off - unat cum \<noteq> 0" using 2 Cons.prems(2) by (auto simp: word_unat_eq_iff)
      ultimately show ?thesis using step 2 Some by (simp add: stands_at_Cons)
    next
      case 3
      then have le: "unat (cum + s) \<le> unat off" by (simp add: word_less_nat_alt)
      have "unat (cum + s) + total (List.map_filter (src F) ins) < 2 ^ 64" using Cons.prems(1) Some add by (simp add: map_filter_Cons)
      moreover have "unat off - unat cum \<noteq> 0" using 3 Cons.prems(2) by (auto simp: word_unat_eq_iff)
      moreover have "unat s \<le> unat off - unat cum" using le add by simp
      ultimately show ?thesis
        using step 3 Some Cons.IH[OF _ le] Cons.prems(3) add le by (simp add: stands_at_Cons)
    qed
  qed
qed

text \<open>The offset of a spent outpoint among the inputs.\<close>

lemma offset_of_input_Some:
  "offset_of_input F spent ins acc = Inr (Some off) \<Longrightarrow>
     \<exists>pre suf. ins = pre @ in_of spent # suf \<and> (\<forall>i\<in>set pre. src F i \<noteq> None) \<and> off = acc + sum_list (map (the \<circ> src F) pre)"
proof (induction ins arbitrary: acc)
  case (Cons i ins)
  obtain t ix where i: "i = (t, ix)" by fastforce
  show ?case
  proof (cases "t = Some (op_txid spent) \<and> ix = op_index spent")
    case True
    then have "i # ins = [] @ in_of spent # ins" using i by (simp add: in_of_def)
    then show ?thesis using True Cons.prems i by (intro exI[of _ "[]"] exI[of _ ins]) (simp add: in_of_def)
  next
    case False
    then obtain u out where u: "t = Some u" "loadOutput F \<lparr>op_txid = u, op_index = ix\<rparr> = Inr out"
      "offset_of_input F spent ins (acc + fst out) = Inr (Some off)"
      using Cons.prems i by (cases t) (auto simp: rbind_eq_Inr case_prod_beta split: if_splits)
    from Cons.IH[OF u(3)] obtain pre suf where p: "ins = pre @ in_of spent # suf" "\<forall>i\<in>set pre. src F i \<noteq> None"
      "off = acc + fst out + sum_list (map (the \<circ> src F) pre)" by blast
    have "src F i = Some (fst out)" using i u by (simp add: loadOutput_src)
    then show ?thesis using p by (intro exI[of _ "i # pre"] exI[of _ suf]) (auto simp: add.assoc comp_def)
  qed
qed simp

lemma output_at_find: "output_at off i cum ss = Inr (Some v) \<longleftrightarrow> find_output off i cum ss = Some v"
  by (induction ss arbitrary: i cum) auto

section \<open>Steps back and forward\<close>

lemma stands_at_unique: "distinct ins \<Longrightarrow> stands_at F ins p n \<Longrightarrow> stands_at F ins p m \<Longrightarrow> n = m"
proof -
  assume d: "distinct ins" "stands_at F ins p n" "stands_at F ins p m"
  then obtain pre suf pre' suf' where s: "ins = pre @ in_of p # suf" "n = total (map (the \<circ> src F) pre)"
    "ins = pre' @ in_of p # suf'" "m = total (map (the \<circ> src F) pre')" unfolding stands_at_def by blast
  then have "pre = pre'" using d(1) append_Cons_eq_iff[of "in_of p" pre suf pre' suf'] by auto
  then show "n = m" using s by simp
qed

lemma take_total_unique:
  assumes "i < length ss" "j < length ss" "ss ! i = 1" "ss ! j = (1 :: sats)" "total (take i ss) = total (take j ss)"
  shows "i = j"
proof -
  have less: False if "a < b" "b < length ss" "ss ! a = 1" "total (take a ss) = total (take b ss)" for a b
  proof -
    have "take b ss = take a ss @ ss ! a # drop (Suc a) (take b ss)"
      using id_take_nth_drop[of a "take b ss"] that(1,2) by (simp add: min_def)
    then have "total (take b ss) = total (take a ss) + unat (ss ! a) + total (drop (Suc a) (take b ss))"
      by (metis total_simps(2,3) add.assoc)
    then show False using that(3,4) by simp
  qed
  then show ?thesis using assms by (metis linorder_neqE_nat)
qed

lemma sum_outs:
  assumes "sound_tx F t tx"
  shows "unat (sum_list (map fst (take n (ot_Outputs tx)))) = total (take n (map fst (ot_Outputs tx)))"
proof -
  have "total (take n (map fst (ot_Outputs tx))) < 2 ^ 64"
    using assms le_less_trans[OF total_take_le] unfolding sound_tx_def by blast
  from unat_sum_list[OF this] show ?thesis by (simp add: take_map)
qed

text \<open>A step back: the output and the input hold the same satoshi.\<close>

lemma previous_iff:
  assumes "sound_tx F t tx"
  shows "calculatePreviousOrdinalInput F tx op = Inr (Some p) \<longleftrightarrow>
    unat (op_index op) < length (ot_Outputs tx) \<and> fst (ot_Outputs tx ! unat (op_index op)) = 1 \<and>
    stands_at F (ot_Inputs tx) p (total (take (unat (op_index op)) (map fst (ot_Outputs tx)))) \<and> src F (in_of p) = Some 1"
proof -
  have fit: "unat (0 :: sats) + total (List.map_filter (src F) (ot_Inputs tx)) < 2 ^ 64"
    and nz: "\<forall>i\<in>set (ot_Inputs tx). src F i \<noteq> Some 0"
    using assms by (auto simp: sound_tx_def)
  let ?off = "sum_list (map fst (take (unat (op_index op)) (ot_Outputs tx)))"
  have "unat (0 :: sats) \<le> unat ?off" by simp
  from input_at_iff[OF fit this nz] show ?thesis
    by (auto simp: calculatePreviousOrdinalInput_def sum_outs[OF assms])
qed

lemma visit_Some:
  assumes "sound_ledger F" "visit F op = Inr (r, Some p)"
  obtains tx where "of_LoadTx F (op_txid op) = Inr tx" "sound_tx F (op_txid op) tx"
    "calculatePreviousOrdinalInput F tx op = Inr (Some p)"
proof -
  obtain tx where "of_LoadTx F (op_txid op) = Inr tx" "calculatePreviousOrdinalInput F tx op = Inr (Some p)"
    using assms(2) by (auto simp: visit_def rbind_eq_Inr split: if_splits)
  then show thesis using that assms(1) unfolding sound_ledger_def by blast
qed

lemma stands_at_in: "stands_at F ins p n \<Longrightarrow> in_of p \<in> set ins"
  by (auto simp: stands_at_def)

theorem sound_linear:
  assumes "sound_ledger F"
  shows "linear F"
  unfolding linear_def
proof (intro allI impI)
  fix a b r r' p assume v: "visit F a = Inr (r, Some p)" "visit F b = Inr (r', Some p)"
  obtain ta where a: "of_LoadTx F (op_txid a) = Inr ta" "sound_tx F (op_txid a) ta" "calculatePreviousOrdinalInput F ta a = Inr (Some p)"
    by (rule visit_Some[OF assms v(1)])
  obtain tb where b: "of_LoadTx F (op_txid b) = Inr tb" "sound_tx F (op_txid b) tb" "calculatePreviousOrdinalInput F tb b = Inr (Some p)"
    by (rule visit_Some[OF assms v(2)])
  note pa = a(3)[unfolded previous_iff[OF a(2)]] and pb = b(3)[unfolded previous_iff[OF b(2)]]
  have "in_of p \<in> set (ot_Inputs ta)" "in_of p \<in> set (ot_Inputs tb)" using pa pb stands_at_in by blast+
  then have t: "op_txid a = op_txid b" using assms a(1) b(1) unfolding sound_ledger_def by blast
  then have tt: "ta = tb" using a(1) b(1) by simp
  have "distinct (ot_Inputs ta)" using a(2) by (simp add: sound_tx_def)
  then have eq: "total (take (unat (op_index a)) (map fst (ot_Outputs ta))) = total (take (unat (op_index b)) (map fst (ot_Outputs ta)))"
    using pa pb stands_at_unique tt by blast
  have la: "unat (op_index a) < length (map fst (ot_Outputs ta))" "map fst (ot_Outputs ta) ! unat (op_index a) = 1"
    using pa by auto
  have lb: "unat (op_index b) < length (map fst (ot_Outputs ta))" "map fst (ot_Outputs ta) ! unat (op_index b) = 1"
    using pb tt by auto
  have "unat (op_index a) = unat (op_index b)" by (rule take_total_unique[OF la(1) lb(1) la(2) lb(2) eq])
  then show "a = b" using t by (simp add: word_unat_eq_iff)
qed

text \<open>A step forward leads to an output whose step back leads to where it came from.\<close>

lemma parsed_returns: "read_laws (of_script F) \<Longrightarrow> \<exists>r. parsed_value F out b = Inr r"
proof -
  assume L: "read_laws (of_script F)"
  obtain insc where i: "inscription_Decode (of_sdk F) (of_script F) (snd out) = Inr insc"
    using inscription_Decode_returns[OF L] by blast
  obtain bc where bc: "bitcom_Decode (of_script F) (Some (snd out)) = Inr bc" using bitcom_Decode_returns[OF L] by blast
  have "\<exists>fd'. rfold (scan_protocol (of_script F) b) ps fd = Inr fd'" for ps fd
  proof (induction ps arbitrary: fd)
    case (Cons pr ps)
    have "\<exists>fd'. scan_protocol (of_script F) b pr fd = Inr fd'"
      using DecodeMap_returns[OF L, of "bp_Script pr"] by (auto simp: scan_protocol_def split: option.splits)
    then show ?case using Cons by auto
  qed simp
  then obtain fd where "bc = Some m \<Longrightarrow> rfold (scan_protocol (of_script F) b) (bm_Protocols m) (scan_inscription b insc) = Inr fd" for m
    by (cases bc) auto
  then show ?thesis using i bc by (cases bc) (auto simp: parsed_value_def scan_script_def of_fault_def)
qed

lemma next_visit:
  assumes F: "sound_ledger F" "read_laws (of_script F)"
    and cur: "visit F cur = Inr (r, prev)" and nxt: "next_outpoint F cur = Inr (Some nxt)"
  shows "(\<exists>r'. visit F nxt = Inr (r', Some cur)) \<and> wf_op nxt"
proof -
  obtain t tx where t: "of_LoadTx F t = Inr tx" "calculateOrdinalOutput F tx cur = Inr (Some nxt)"
    using nxt by (auto simp: next_outpoint_def rbind_eq_Inr split: option.splits)
  have s: "sound_tx F t tx" using F(1) t(1) unfolding sound_ledger_def by blast
  obtain off i where off: "offset_of_input F cur (ot_Inputs tx) 0 = Inr (Some off)"
    and i: "output_at off 0 0 (map fst (ot_Outputs tx)) = Inr (Some i)" and n: "nxt = \<lparr>op_txid = ot_TxID tx, op_index = of_nat i\<rparr>"
    using t(2) by (auto simp: calculateOrdinalOutput_def rbind_eq_Inr split: option.splits)
  from offset_of_input_Some[OF off] obtain pre suf where p: "ot_Inputs tx = pre @ in_of cur # suf" "\<forall>i\<in>set pre. src F i \<noteq> None"
    "off = sum_list (map (the \<circ> src F) pre)" by auto
  have "total (map (the \<circ> src F) pre) < 2 ^ 64"
    using total_filter_take[OF p(1)[symmetric] p(2)] s unfolding sound_tx_def by linarith
  then have offn: "unat off = total (map (the \<circ> src F) pre)" using p(3) unat_sum_list by blast
  then have st: "stands_at F (ot_Inputs tx) cur (unat off)" using p unfolding stands_at_def by blast
  have "unat (0 :: sats) + total (map fst (ot_Outputs tx)) < 2 ^ 64" using s by (simp add: sound_tx_def)
  from find_output_iff[OF this, of off 0 i] i[unfolded output_at_find]
  have o: "i < length (ot_Outputs tx)" "fst (ot_Outputs tx ! i) = 1" "unat off = total (take i (map fst (ot_Outputs tx)))"
    by auto
  have "i < 2 ^ 32" using o(1) s by (simp add: sound_tx_def)
  then have ix: "unat (op_index nxt) = i" using n by (simp add: unat_of_nat)
  have id: "op_txid nxt = t" "wf_op nxt" using n s by (simp_all add: sound_tx_def wf_op_def)
  have "src F (in_of cur) = Some 1"
  proof -
    obtain ct where "of_LoadTx F (op_txid cur) = Inr ct" "unat (op_index cur) < length (ot_Outputs ct)"
      "fst (ot_Outputs ct ! unat (op_index cur)) = 1"
      using cur by (auto simp: visit_def rbind_eq_Inr calculatePreviousOrdinalInput_def split: if_splits)
    then show ?thesis by (simp add: src_def in_of_def loadOutput_def)
  qed
  then have "calculatePreviousOrdinalInput F tx nxt = Inr (Some cur)"
    using previous_iff[OF s, of nxt cur] ix o st by simp
  moreover obtain r' where "parsed_value F (ot_Outputs tx ! i) True = Inr r'" using parsed_returns[OF F(2)] by blast
  ultimately show ?thesis using t(1) id ix o(1) by (simp add: visit_def)
qed

lemma visit_wf:
  assumes "sound_ledger F" "visit F op = Inr (r, Some p)"
  shows "wf_op p"
proof -
  obtain tx where tx: "sound_tx F (op_txid op) tx" "calculatePreviousOrdinalInput F tx op = Inr (Some p)"
    by (rule visit_Some[OF assms])
  then have "in_of p \<in> set (ot_Inputs tx)" using previous_iff stands_at_in by blast
  then show ?thesis using tx(1) by (auto simp: sound_tx_def wf_op_def in_of_def)
qed

end
