(* ===== verification/OrdfsCrawl.thy ===== *)
theory OrdfsCrawl
  imports OrdfsLedger
begin

text \<open>
  The crawls over any origin store that keeps its contract and any coordinator that does not falsify the store:
  the index stays true to the chains, the backward crawl finds the origin, and the forward crawl and the resolution
  find the outpoint at a place with the latest content, map data and parent at or before it.
\<close>

section \<open>Good states\<close>

definition good_view :: "('s, 'j) ordfs \<Rightarrow> origins \<Rightarrow> bool" where
  "good_view F g \<longleftrightarrow> true_places F g \<and> no_gaps g"

text \<open>What other crawls may do meanwhile: add true places.\<close>

definition grown :: "('s, 'j) ordfs \<Rightarrow> ('s \<Rightarrow> bool) \<Rightarrow> ('s \<Rightarrow> origins) \<Rightarrow> 's \<Rightarrow> 's \<Rightarrow> bool" where
  "grown F ok view s s' \<longleftrightarrow> ok s' \<and> good_view F (view s') \<and>
     (\<forall>p x. og_org (view s) p = Some x \<longrightarrow> og_org (view s') p = Some x) \<and>
     (\<forall>o1 n. og_seq (view s) o1 n \<noteq> None \<longrightarrow> og_seq (view s') o1 n \<noteq> None)"

lemma grown_trans: "grown F ok view s s' \<Longrightarrow> grown F ok view s' s'' \<Longrightarrow> grown F ok view s s''"
  by (simp add: grown_def)

text \<open>\<open>free S s\<close>: no other crawl holds the lock of an outpoint of \<open>S\<close>.\<close>

locale ordfs_laws = origin_laws "of_origins F" ok view
  for F :: "('s, 'j) ordfs" and ok :: "'s \<Rightarrow> bool" and view :: "'s \<Rightarrow> origins" +
  fixes free :: "outpoint set \<Rightarrow> 's \<Rightarrow> bool"
  assumes free_mono: "free S s \<Longrightarrow> T \<subseteq> S \<Longrightarrow> free T s"
    and Lock_free: "free S s \<Longrightarrow> op \<in> S \<Longrightarrow> Ball S wf_op \<Longrightarrow>
      fst (of_AcquireLock F op s) = Inr True \<and> free (S - {op}) (snd (of_AcquireLock F op s))"
    and Cache_free: "free S s \<Longrightarrow> free S (of_cache_Set F k v s)"
    and ledger: "sound_ledger F" and scripts: "read_laws (of_script F)"
    and Cache_grown: "ok s \<Longrightarrow> good_view F (view s) \<Longrightarrow> grown F ok view s (of_cache_Set F k v s)"
    and Lock_grown: "ok s \<Longrightarrow> good_view F (view s) \<Longrightarrow> grown F ok view s (snd (of_AcquireLock F op s))"
    and Wait_grown: "ok s \<Longrightarrow> good_view F (view s) \<Longrightarrow> grown F ok view s (snd (of_WaitForCrawl F op s))"
    and Complete_grown: "ok s \<Longrightarrow> good_view F (view s) \<Longrightarrow> grown F ok view s (of_PublishComplete F ops b s)"
    and Failure_grown: "ok s \<Longrightarrow> good_view F (view s) \<Longrightarrow> grown F ok view s (of_PublishFailure F ops s)"
    and Release_grown: "ok s \<Longrightarrow> good_view F (view s) \<Longrightarrow> grown F ok view s (of_ReleaseLock F op s)"
begin

abbreviation good :: "'s \<Rightarrow> bool" where
  "good s \<equiv> ok s \<and> good_view F (view s)"

abbreviation later :: "'s \<Rightarrow> 's \<Rightarrow> bool" where
  "later s s' \<equiv> grown F ok view s s'"

lemma linear: "linear F"
  using ledger by (rule sound_linear)

lemma later_refl: "good s \<Longrightarrow> later s s"
  by (simp add: grown_def)

lemma later_good: "later s s' \<Longrightarrow> good s'"
  by (simp add: grown_def)

lemma good_hops: "good s \<Longrightarrow> og_org (view s) op = Some (o1, n) \<Longrightarrow> hops F op o1 (unat n) \<and> og_seq (view s) o1 n = Some op"
  by (simp add: good_view_def true_places_def)

lemma good_seq: "good s \<Longrightarrow> og_seq (view s) o1 n = Some op \<Longrightarrow> hops F op o1 (unat n) \<and> n < 0xff000000"
  by (simp add: good_view_def true_places_def)

text \<open>A known origin is the right one.\<close>

lemma known_origin:
  assumes "good s" "og_org (view s) op \<noteq> None" "hops F op o1 k"
  shows "og_org (view s) op = Some (o1, of_nat k) \<and> k < 0xff000000"
proof -
  obtain o2 n where o: "og_org (view s) op = Some (o2, n)" using assms(2) by auto
  then have h: "hops F op o2 (unat n)" "og_seq (view s) o2 n = Some op" using good_hops[OF assms(1)] by blast+
  then have k: "o2 = o1" "unat n = k" using hops_unique[OF assms(3)] by auto
  have "n < 0xff000000" using good_seq[OF assms(1) h(2)] by blast
  then show ?thesis using o k by (auto simp: word_less_nat_alt)
qed

section \<open>Writing true entries\<close>

text \<open>Entries at the places that follow the ones the store has.\<close>

lemma good_puts:
  assumes s: "good_view F g" and es: "\<forall>e\<in>set es. true_entry F o1 e" and dom: "oe_Seq ` set es = of_nat ` {base..<base + l}"
    and small: "base + l \<le> 0xff000000" and below: "base = 0 \<or> og_seq g o1 (of_nat (base - 1)) \<noteq> None"
  shows "good_view F (fold (put_entry o1) es g)"
proof -
  let ?g = "fold (put_entry o1) es g"
  have t: "true_places F ?g" using s es linear true_places_puts unfolding good_view_def by blast
  have w: "unat (of_nat m :: 32 word) = m" if "m < base + l" for m using word_small[of m] that small by simp
  have "og_seq ?g o2 m \<noteq> None" if n: "og_seq ?g o2 n \<noteq> None" and m: "m \<le> n" for o2 n m
  proof -
    from n[unfolded puts_seq_dom] show ?thesis
    proof
      assume "og_seq g o2 n \<noteq> None"
      then have "og_seq g o2 m \<noteq> None" using s m unfolding good_view_def no_gaps_def by blast
      then show ?thesis by (simp only: puts_seq_dom simp_thms)
    next
      assume c: "o2 = o1 \<and> n \<in> oe_Seq ` set es"
      then obtain k where k: "base \<le> k" "k < base + l" "n = of_nat k" using dom by auto
      have mk: "unat m \<le> k" using m k w by (simp add: word_le_nat_alt)
      show ?thesis
      proof (cases "base \<le> unat m")
        case True
        then have "m \<in> oe_Seq ` set es" unfolding dom using mk k(2) by (intro image_eqI[of _ _ "unat m"]) auto
        then show ?thesis using c by (simp only: puts_seq_dom simp_thms)
      next
        case False
        then have "m \<le> of_nat (base - 1)" using w[of "base - 1"] k by (simp add: word_le_nat_alt)
        moreover have "og_seq g o1 (of_nat (base - 1)) \<noteq> None" using below False by auto
        ultimately have "og_seq g o1 m \<noteq> None" using s unfolding good_view_def no_gaps_def by blast
        then show ?thesis using c by (simp only: puts_seq_dom simp_thms)
      qed
    qed
  qed
  then show ?thesis using t unfolding good_view_def no_gaps_def by blast
qed

text \<open>No known origin is changed.\<close>

lemma put_keeps:
  assumes "true_places F g" "true_entry F o1 e" "og_org g p = Some x"
  shows "og_org (put_entry o1 e g) p = Some x"
proof (cases "p = oe_Outpoint e")
  case True
  obtain o2 n where x: "x = (o2, n)" by fastforce
  have "hops F p o2 (unat n)" "hops F p o1 (unat (oe_Seq e))"
    using assms True x by (auto simp: true_places_def true_entry_def)
  then have "o2 = o1 \<and> n = oe_Seq e" using hops_unique by (metis word_unat_eq_iff)
  then show ?thesis using True x by (simp add: put_entry_def)
qed (use assms(3) in \<open>simp add: put_entry_def\<close>)

lemma puts_keep:
  "true_places F g \<Longrightarrow> \<forall>e\<in>set es. true_entry F o1 e \<Longrightarrow> og_org g p = Some x \<Longrightarrow> og_org (fold (put_entry o1) es g) p = Some x"
proof (induction es arbitrary: g)
  case (Cons e es)
  then have "true_places F (put_entry o1 e g)" "og_org (put_entry o1 e g) p = Some x"
    using true_places_put[OF _ _ linear] put_keeps by auto
  then show ?case using Cons by simp
qed simp

lemma migrate_good:
  assumes s: "good s" and l: "line F o1 base cs" and small: "base + length cs \<le> 0xff000000"
    and below: "base = 0 \<or> og_seq (view s) o1 (of_nat (base - 1)) \<noteq> None" and o1: "wf_op o1"
  shows "\<exists>s'. migrateToOrigin F o1 cs (int base - 1) s = (Inr (), s') \<and> later s s' \<and> (\<forall>c\<in>set cs. og_org (view s') (ce_Outpoint c) \<noteq> None)"
proof (cases "cs = []")
  case True
  then show ?thesis using later_refl[OF s] by (simp add: migrateToOrigin_def sm_apply)
next
  case False
  let ?es = "line_entries base cs"
  note all = line_entries_all[OF l small]
  obtain s' where s': "os_WriteBatch (of_origins F) \<lparr>ob_Origin = o1, ob_Entries = ?es\<rparr> s = (Inr (), s')" "ok s'"
    "view s' = fold (put_entry o1) ?es (view s)"
    using Batch_law[of s o1 ?es] s o1 all(1) by blast
  have es: "\<forall>e\<in>set ?es. true_entry F o1 e" using all(1) by blast
  have t: "true_places F (view s)" using s by (simp add: good_view_def)
  have "good_view F (view s')" unfolding s'(3) using good_puts[OF _ es all(2) small below] s by blast
  moreover have "og_seq (view s') o2 n \<noteq> None" if "og_seq (view s) o2 n \<noteq> None" for o2 n
    using that unfolding s'(3) puts_seq_dom by blast
  ultimately have "later s s'" unfolding grown_def using s'(2) puts_keep[OF t es] unfolding s'(3) by blast
  moreover have "og_org (view s') (ce_Outpoint c) \<noteq> None" if "c \<in> set cs" for c
  proof -
    have "oe_Outpoint (entry_at (int base - ce_RelativeSeq (last cs)) c) = ce_Outpoint c" by (simp add: entry_at_def)
    then have "ce_Outpoint c \<in> oe_Outpoint ` set ?es" using that unfolding line_entries_def by force
    then show ?thesis unfolding s'(3) by (rule puts_org_dom)
  qed
  moreover have "migrateToOrigin F o1 cs (int base - 1) = os_WriteBatch (of_origins F) \<lparr>ob_Origin = o1, ob_Entries = ?es\<rparr>"
    using False by (simp add: migrateToOrigin_def line_entries_def)
  ultimately show ?thesis using s'(1) by auto
qed

section \<open>Crawling backwards\<close>

lemma parse_good:
  assumes s: "good s"
  shows "\<exists>s'. parseOutput F op out b s = (parsed_value F out b, s') \<and> later s s' \<and> (\<forall>S. free S s \<longrightarrow> free S s')"
proof (cases "of_fault (scan_script (of_sdk F) (of_script F) b (snd out))")
  case (Inl e)
  then show ?thesis using later_refl[OF s] by (simp add: parseOutput_def parsed_value_def)
next
  case (Inr fd)
  have "later s (cacheParsedOutput F op t l m s)" "\<forall>S. free S s \<longrightarrow> free S (cacheParsedOutput F op t l m s)" for t l m
    using Cache_grown Cache_free later_refl[OF s] s by (simp_all add: cacheParsedOutput_def split: option.splits)
  then show ?thesis using Inr later_refl[OF s] by (simp add: parseOutput_def parsed_value_def Let_def)
qed

lemma step_good:
  assumes "good s" "visit F op = Inr (r, p)"
  shows "\<exists>s'. crawl_step F op rel s = (Inr (chain_entry_of op rel r, p), s') \<and> later s s' \<and> (\<forall>S. free S s \<longrightarrow> free S s')"
proof -
  obtain tx where tx: "of_LoadTx F (op_txid op) = Inr tx" "\<not> length (ot_Outputs tx) \<le> unat (op_index op)"
    "parsed_value F (ot_Outputs tx ! unat (op_index op)) True = Inr r" "calculatePreviousOrdinalInput F tx op = Inr p"
    using assms(2) by (auto simp: visit_def rbind_eq_Inr split: if_splits)
  obtain s' where "parseOutput F op (ot_Outputs tx ! unat (op_index op)) True s = (Inr r, s')" "later s s'"
    "\<forall>S. free S s \<longrightarrow> free S s'" using parse_good[OF assms(1), of op "ot_Outputs tx ! unat (op_index op)" True] tx(3) by auto
  then show ?thesis using tx by (simp add: crawl_step_def sm_apply)
qed

text \<open>The outpoints of a chain up to a place; the crawl takes their locks, and no other crawl's stop it.\<close>

definition behind :: "outpoint \<Rightarrow> nat \<Rightarrow> outpoint set" where
  "behind o1 m = {p. wf_op p \<and> (\<exists>j\<le>m. hops F p o1 j)}"

definition lock_ok :: "outpoint \<Rightarrow> 's \<Rightarrow> err + origin_info option \<Rightarrow> 's \<Rightarrow> bool" where
  "lock_ok op s r s' \<longleftrightarrow> (\<forall>S. free S s \<longrightarrow> op \<in> S \<longrightarrow> Ball S wf_op \<longrightarrow>
     (\<exists>i. r = Inr i) \<and> (r = Inr None \<longrightarrow> free (S - {op}) s'))"

lemma lock_okD: "lock_ok op s r s' \<Longrightarrow> free S s \<Longrightarrow> op \<in> S \<Longrightarrow> Ball S wf_op \<Longrightarrow>
    (\<exists>i. r = Inr i) \<and> (r = Inr None \<longrightarrow> free (S - {op}) s')"
  unfolding lock_ok_def by blast

lemma known_good:
  assumes s: "good s" and op: "wf_op op"
  shows "\<exists>r s'. known_or_locked F op s = (r, s') \<and> later s s' \<and>
    (\<forall>i. r = Inr (Some i) \<longrightarrow> og_org (view s') op = Some (oi_Origin i, oi_Seq i)) \<and> lock_ok op s r s'"
proof -
  have get: "os_GetOrigin (of_origins F) op s = Inr (map_option (\<lambda>(o1, n). \<lparr>oi_Origin = o1, oi_Seq = n\<rparr>) (og_org (view s) op))" if "good s" for s
    using GetOrigin_law that op by blast
  obtain a s1 where a: "of_AcquireLock F op s = (a, s1)" by fastforce
  obtain w s2 where w: "of_WaitForCrawl F op s1 = (w, s2)" by fastforce
  obtain a' s3 where a': "of_AcquireLock F op s2 = (a', s3)" by fastforce
  have l1: "later s s1" using Lock_grown[of s op] s a by simp
  have l2: "later s1 s2" using Wait_grown[of s1 op] later_good[OF l1] w by simp
  have l3: "later s2 s3" using Lock_grown[of s2 op] later_good[OF l2] a' by simp
  note ls = l1 grown_trans[OF l1 l2] grown_trans[OF grown_trans[OF l1 l2] l3] later_refl[OF s]
  have g: "a = Inr True \<and> free (S - {op}) s1" if "free S s" "op \<in> S" "Ball S wf_op" for S using Lock_free[OF that] a by simp
  show ?thesis
  proof (cases "og_org (view s) op")
    case (Some x)
    then show ?thesis unfolding lock_ok_def using get[OF s] ls(4) by (cases x) (simp add: known_or_locked_def sm_apply)
  next
    case None
    show ?thesis
    proof (cases a)
      case (Inl e)
      then have "\<not> (free S s \<and> op \<in> S \<and> Ball S wf_op)" for S using g by auto
      then show ?thesis unfolding lock_ok_def using None get[OF s] a ls(1) Inl by (simp add: known_or_locked_def sm_apply)
    next
      case (Inr b)
      show ?thesis
      proof (cases b)
        case True
        have "known_or_locked F op s = (Inr None, s1)" using True None get[OF s] a Inr by (simp add: known_or_locked_def sm_apply)
        then show ?thesis unfolding lock_ok_def using ls(1) g by blast
      next
        case False
        then have ng: "\<not> (free S s \<and> op \<in> S \<and> Ball S wf_op)" for S using g Inr by auto
        have "known_or_locked F op s = (case w of Inl e \<Rightarrow> (Inl e, s2) | Inr _ \<Rightarrow>
            (case og_org (view s2) op of Some x \<Rightarrow> (Inr (Some \<lparr>oi_Origin = fst x, oi_Seq = snd x\<rparr>), s2)
             | None \<Rightarrow> (if a' = Inr True then Inr None else Inl (ErrOther ''failed to acquire lock after wait''), s3)))"
          using None get[OF s] a Inr False w a' get[OF later_good[OF ls(2)]]
          by (auto simp: known_or_locked_def sm_apply split: sum.splits option.splits bool.splits)
        then have "\<exists>r s'. known_or_locked F op s = (r, s') \<and> later s s' \<and>
            (\<forall>i. r = Inr (Some i) \<longrightarrow> og_org (view s') op = Some (oi_Origin i, oi_Seq i))"
          using ls by (cases w; cases "og_org (view s2) op") auto
        then show ?thesis unfolding lock_ok_def using ng by blast
      qed
    qed
  qed
qed

lemma finish_good:
  assumes "good s" "line F o1 base cs" "base + length cs \<le> 0xff000000"
    "base = 0 \<or> og_seq (view s) o1 (of_nat (base - 1)) \<noteq> None" "wf_op o1"
  shows "\<exists>s'. finish_crawl F o1 cs (int base - 1) locked s = (Inr o1, s') \<and> later s s' \<and> (\<forall>c\<in>set cs. og_org (view s') (ce_Outpoint c) \<noteq> None)"
proof -
  obtain s1 where m: "migrateToOrigin F o1 cs (int base - 1) s = (Inr (), s1)" "later s s1"
    "\<forall>c\<in>set cs. og_org (view s1) (ce_Outpoint c) \<noteq> None" using migrate_good[OF assms] by blast
  let ?s2 = "of_PublishComplete F locked (op_string (of_sdk F) o1) s1"
  have l: "later s1 ?s2" using Complete_grown later_good[OF m(2)] by simp
  then have "\<forall>c\<in>set cs. og_org (view ?s2) (ce_Outpoint c) \<noteq> None" using m(3) unfolding grown_def by fastforce
  then show ?thesis using m(1) grown_trans[OF m(2) l] by (simp add: finish_crawl_def)
qed

text \<open>The loop: the crawl has come from \<open>op\<close> to \<open>cur\<close>, from which the origin is \<open>m\<close> steps away.\<close>

lemma crawl_loop_good:
  assumes "m < n" "good s" "path F op es cur" "hops F cur o1 m" "wf_op cur" "wf_op o1" "m + length es < 0xff000000"
  shows "\<exists>r locked' s'. crawl_loop n F cur (- int (length es)) es locked s = Some (r, locked', s') \<and> later s s' \<and>
    (\<forall>o2. r = Inr o2 \<longrightarrow> o2 = o1 \<and> og_org (view s') op = Some (o1, of_nat (m + length es))) \<and> (free (behind o1 m) s \<longrightarrow> r = Inr o1)"
  using assms
proof (induction n arbitrary: s es cur m locked)
  case (Suc n)
  have opk: "hops F op o1 (m + length es)" by (rule path_hops[OF Suc.prems(3,4)])
  have known: "\<exists>s'. finish_crawl F o1 cs (int base - 1) lk s1 = (Inr o1, s') \<and> later s1 s' \<and> og_org (view s') op = Some (o1, of_nat (m + length es))"
    if s1: "good s1" and l: "line F o1 base cs" "base + length cs \<le> 0xff000000" "base = 0 \<or> og_seq (view s1) o1 (of_nat (base - 1)) \<noteq> None"
      and op: "(\<exists>c\<in>set cs. ce_Outpoint c = op) \<or> og_org (view s1) op \<noteq> None" for s1 base cs lk
  proof -
    obtain s' where s': "finish_crawl F o1 cs (int base - 1) lk s1 = (Inr o1, s')" "later s1 s'"
      "\<forall>c\<in>set cs. og_org (view s') (ce_Outpoint c) \<noteq> None" using finish_good[OF s1 l Suc.prems(6)] by blast
    have "og_org (view s') op \<noteq> None" using op s'(2,3) unfolding grown_def by fastforce
    from known_origin[OF later_good[OF s'(2)] this opk] s' show ?thesis by blast
  qed
  obtain k s1 where k: "known_or_locked F cur s = (k, s1)" "later s s1"
    "\<forall>i. k = Inr (Some i) \<longrightarrow> og_org (view s1) cur = Some (oi_Origin i, oi_Seq i)" "lock_ok cur s k s1"
    using known_good[OF Suc.prems(2,5)] by blast
  have cb: "cur \<in> behind o1 m" "Ball (behind o1 m) wf_op" using Suc.prems(4,5) by (auto simp: behind_def)
  note s1 = later_good[OF k(2)]
  consider e where "k = Inl e" | i where "k = Inr (Some i)" | "k = Inr None" by (cases k) (auto split: option.splits)
  then show ?case
  proof cases
    case 1
    then have nf: "\<not> free (behind o1 m) s" using lock_okD[OF k(4) _ cb] by auto
    have "crawl_loop (Suc n) F cur (- int (length es)) es locked s = Some (Inl e, locked, s1)" using k(1) 1 by simp
    then show ?thesis using k(2) nf by blast
  next
    case (2 i)
    note o2 = k(3)[rule_format, OF 2]
    have i: "oi_Origin i = o1" "unat (oi_Seq i) = m" using good_hops[OF s1 o2] hops_unique[OF Suc.prems(4)] by auto
    have seq: "og_seq (view s1) o1 (of_nat (Suc m - 1)) \<noteq> None" using good_hops[OF s1 o2] i by auto
    have opc: "(\<exists>c\<in>set es. ce_Outpoint c = op) \<or> og_org (view s1) op \<noteq> None"
      using path_first[OF Suc.prems(3)] Suc.prems(3) o2 by (cases "es = []") (auto elim: path.cases)
    have small: "Suc m + length es \<le> 0xff000000" using Suc.prems(7) by simp
    obtain s2 where s2: "finish_crawl F o1 es (int (Suc m) - 1) locked s1 = (Inr o1, s2)" "later s1 s2" "og_org (view s2) op = Some (o1, of_nat (m + length es))"
      using known[OF s1 path_line[OF Suc.prems(3,4)] small disjI2[OF seq] opc] by blast
    have "uint (oi_Seq i) = int (Suc m) - 1" using i(2) by (simp only: uint_nat)
    then show ?thesis using k(1,2) 2 i(1) s2 grown_trans[OF k(2) s2(2)] by simp
  next
    case 3
    show ?thesis
    proof (cases m)
      case 0
      then obtain r where v: "visit F cur = Inr (r, None)" "cur = o1" using Suc.prems(4) by (auto elim: hops_0E)
      obtain s2 where st: "crawl_step F cur (- int (length es)) s1 = (Inr (chain_entry_of cur (- int (length es)) r, None), s2)" "later s1 s2"
        using step_good[OF s1 v(1)] by blast
      let ?cs = "es @ [chain_entry_of cur (- int (length es)) r]"
      have l: "line F o1 0 ?cs" using path_line_origin[OF Suc.prems(3) v(1) Suc.prems(5)] v(2) by simp
      have opc: "(\<exists>c\<in>set ?cs. ce_Outpoint c = op) \<or> og_org (view s2) op \<noteq> None"
        using path_first[OF Suc.prems(3)] Suc.prems(3) by (cases "es = []") (auto simp: chain_entry_of_def elim: path.cases)
      have "0 + length ?cs \<le> 0xff000000" using Suc.prems(7) by simp
      from known[OF later_good[OF st(2)] l this _ opc, of "locked @ [cur]"]
      obtain s3 where s3: "finish_crawl F o1 ?cs (int 0 - 1) (locked @ [cur]) s2 = (Inr o1, s3)" "later s2 s3"
        "og_org (view s3) op = Some (o1, of_nat (m + length es))" by auto
      then show ?thesis using k(1) 3 st(1) v(2) grown_trans[OF k(2) grown_trans[OF st(2) s3(2)]] by simp
    next
      case (Suc m')
      then obtain r p where v: "visit F cur = Inr (r, Some p)" "hops F p o1 m'" using Suc.prems(4) by (auto elim: hops_SucE)
      obtain s2 where st: "crawl_step F cur (- int (length es)) s1 = (Inr (chain_entry_of cur (- int (length es)) r, Some p), s2)" "later s1 s2"
        "\<forall>S. free S s1 \<longrightarrow> free S s2" using step_good[OF s1 v(1)] by blast
      let ?cs = "es @ [chain_entry_of cur (- int (length es)) r]"
      have pt: "path F op ?cs p" by (rule path_snoc[OF Suc.prems(3) v(1) Suc.prems(5)])
      have "m' < n" "m' + length ?cs < 0xff000000" using Suc Suc.prems by auto
      from Suc.IH[OF this(1) later_good[OF st(2)] pt v(2) visit_wf[OF ledger v(1)] Suc.prems(6) this(2), of "locked @ [cur]"]
      obtain q lk s3 where s3: "crawl_loop n F p (- int (length ?cs)) ?cs (locked @ [cur]) s2 = Some (q, lk, s3)" "later s2 s3"
        "(\<forall>o2. q = Inr o2 \<longrightarrow> o2 = o1 \<and> og_org (view s3) op = Some (o1, of_nat (m' + length ?cs))) \<and> (free (behind o1 m') s2 \<longrightarrow> q = Inr o1)"
        by blast
      have len: "m' + length ?cs = m + length es" "- int (length es) - 1 = - int (length ?cs)" using Suc by auto
      have eq: "crawl_loop (Suc n) F cur (- int (length es)) es locked s = Some (q, lk, s3)"
        using k(1) 3 st(1) s3(1)[folded len(2)] by simp
      have lt: "later s s3" using grown_trans[OF k(2) grown_trans[OF st(2) s3(2)]] .
      have "free (behind o1 m') s2" if "free (behind o1 m) s"
      proof -
        have "\<not> hops F cur o1 j" if "j \<le> m'" for j using that hops_unique[OF Suc.prems(4)] Suc by fastforce
        then have "cur \<notin> behind o1 m'" by (auto simp: behind_def)
        moreover have "behind o1 m' \<subseteq> behind o1 m" using Suc unfolding behind_def by (blast intro: le_SucI)
        ultimately have "behind o1 m' \<subseteq> behind o1 m - {cur}" by blast
        moreover have "free (behind o1 m - {cur}) s1" using lock_okD[OF k(4) that cb] 3 by blast
        ultimately show ?thesis using free_mono st(3) by blast
      qed
      then show ?thesis unfolding eq using lt s3(3)[unfolded len(1)] by blast
    qed
  qed
qed simp

end

end
