(* ===== verification/OrdfsResolve.thy ===== *)
theory OrdfsResolve
  imports OrdfsCrawl
begin

text \<open>
  The forward crawl and the resolution of a place, over the contract of \<open>OrdfsCrawl\<close>.
\<close>

section \<open>Specifications\<close>

text \<open>How many steps the forward crawl takes to a target place, or to the end when the target is negative.\<close>

inductive ahead :: "('s, 'j) ordfs \<Rightarrow> int \<Rightarrow> outpoint \<Rightarrow> nat \<Rightarrow> nat \<Rightarrow> bool" for F t where
  ahead_stop: "0 \<le> t \<and> t \<le> int m \<or> (\<forall>nxt. next_outpoint F cur \<noteq> Inr (Some nxt)) \<Longrightarrow> ahead F t cur m 0"
| ahead_go: "\<not> (0 \<le> t \<and> t \<le> int m) \<Longrightarrow> next_outpoint F cur = Inr (Some nxt) \<Longrightarrow> ahead F t nxt (Suc m) l \<Longrightarrow> ahead F t cur m (Suc l)"

lemma ahead_target: "0 \<le> t \<Longrightarrow> \<exists>l. ahead F t cur m l \<and> m + l \<le> max m (nat t)"
proof (induction "nat (t - int m)" arbitrary: cur m)
  case 0
  then have "ahead F t cur m 0" by (intro ahead_stop) simp
  then show ?case by (intro exI[of _ 0]) simp
next
  case (Suc d)
  show ?case
  proof (cases "\<exists>nxt. next_outpoint F cur = Inr (Some nxt)")
    case True
    then obtain nxt where n: "next_outpoint F cur = Inr (Some nxt)" by blast
    have d: "d = nat (t - int (Suc m))" using Suc.hyps(2) by simp
    obtain l where l: "ahead F t nxt (Suc m) l" "Suc m + l \<le> max (Suc m) (nat t)" using Suc.hyps(1)[OF d Suc.prems] by blast
    have "\<not> (0 \<le> t \<and> t \<le> int m)" "Suc m \<le> nat t" using Suc.hyps(2) by auto
    then show ?thesis using ahead_go[OF _ n l(1)] l(2) by (intro exI[of _ "Suc l"]) simp
  next
    case False
    then have "ahead F t cur m 0" by (intro ahead_stop) blast
    then show ?thesis by (intro exI[of _ 0]) simp
  qed
qed

text \<open>From every outpoint of the chain the spends end within a place.\<close>

definition chain_ends :: "('s, 'j) ordfs \<Rightarrow> outpoint \<Rightarrow> nat \<Rightarrow> bool" where
  "chain_ends F o1 N \<longleftrightarrow> (\<forall>p m. hops F p o1 m \<longrightarrow> (\<exists>l. ahead F (- 1) p m l \<and> m + l \<le> N))"

text \<open>The last value at or before a place of the chain.\<close>

definition newest :: "('s, 'j) ordfs \<Rightarrow> (outpoint \<Rightarrow> 'a option) \<Rightarrow> outpoint \<Rightarrow> nat \<Rightarrow> 'a option \<Rightarrow> bool" where
  "newest F f o1 q x \<longleftrightarrow>
     (case x of
        None \<Rightarrow> \<forall>p j. j \<le> q \<longrightarrow> hops F p o1 j \<longrightarrow> f p = None
      | Some v \<Rightarrow> \<exists>p j. j \<le> q \<and> hops F p o1 j \<and> f p = Some v \<and>
          (\<forall>p' j'. j < j' \<longrightarrow> j' \<le> q \<longrightarrow> hops F p' o1 j' \<longrightarrow> f p' = None))"

lemma hops_wf: "hops F op o1 n \<Longrightarrow> sound_ledger F \<Longrightarrow> wf_op op \<Longrightarrow> wf_op o1"
  by (induction rule: hops.induct) (auto dest: visit_wf)

lemma hops_origin: "hops F op o1 n \<Longrightarrow> \<exists>r. visit F o1 = Inr (r, None)"
  by (induction rule: hops.induct) auto

lemma hops_visit: "hops F op o1 n \<Longrightarrow> \<exists>r p. visit F op = Inr (r, p)"
  by (cases rule: hops.cases) auto

context ordfs_laws
begin

lemma hops_wf_all: "hops F op o1 n \<Longrightarrow> wf_op o1 \<Longrightarrow> wf_op op"
proof (induction rule: hops.induct)
  case (step_back op r p o1 n)
  obtain tx where "of_LoadTx F (op_txid op) = Inr tx" "sound_tx F (op_txid op) tx" by (rule visit_Some[OF ledger step_back.hyps(1)])
  then show ?case by (simp add: sound_tx_def wf_op_def)
qed simp

section \<open>The backward crawl\<close>

lemma releases_grown: "good s \<Longrightarrow> later s (fold (of_ReleaseLock F) ops s)"
proof (induction ops arbitrary: s)
  case (Cons op ops)
  have l: "later s (of_ReleaseLock F op s)" using Release_grown Cons.prems by blast
  from grown_trans[OF l Cons.IH[OF later_good[OF l]]] show ?case by simp
qed (simp add: later_refl)

lemma backward_good:
  assumes "m < n" "good s" "hops F op o1 m" "wf_op op" "m < 0xff000000"
  shows "\<exists>r s'. backwardCrawl n F op s = Some (r, s') \<and> later s s' \<and>
    (\<forall>o2. r = Inr o2 \<longrightarrow> o2 = o1 \<and> og_org (view s') op = Some (o1, of_nat m)) \<and> (free (behind o1 m) s \<longrightarrow> r = Inr o1)"
proof -
  have small: "m + length ([] :: chain_entry list) < 0xff000000" using assms(5) by simp
  have z: "- int (length ([] :: chain_entry list)) = 0" "m + length ([] :: chain_entry list) = m" by simp_all
  from crawl_loop_good[OF assms(1,2) path_nil assms(3,4) hops_wf[OF assms(3) ledger assms(4)] small, of "[]", unfolded z]
  obtain r lk s1 where c: "crawl_loop n F op 0 [] [] s = Some (r, lk, s1)" "later s s1"
    "\<forall>o2. r = Inr o2 \<longrightarrow> o2 = o1 \<and> og_org (view s1) op = Some (o1, of_nat m)" "free (behind o1 m) s \<longrightarrow> r = Inr o1"
    by blast
  have l: "later s1 (fold (of_ReleaseLock F) lk s1)" by (rule releases_grown[OF later_good[OF c(2)]])
  have "og_org (view (fold (of_ReleaseLock F) lk s1)) op = Some x" if "og_org (view s1) op = Some x" for x
    using l that unfolding grown_def by blast
  moreover have "backwardCrawl n F op s = Some (r, fold (of_ReleaseLock F) lk s1)" using c(1) by (simp add: backwardCrawl_def)
  ultimately show ?thesis using c(3,4) grown_trans[OF c(2) l] by blast
qed

section \<open>The forward crawl\<close>

lemma loaded:
  assumes "visit F cur = Inr (r, p)"
  shows "\<exists>out. loadOutput F cur = Inr out \<and> parsed_value F out True = Inr r"
  using assms by (auto simp: visit_def rbind_eq_Inr loadOutput_def simp del: split_paired_Ex split: if_splits)

lemma true_entry_of:
  assumes "visit F cur = Inr (r, p)" "hops F cur o1 m" "m < 0xff000000"
  shows "true_entry F o1 (entry_of cur (int m) r)"
  using assms word_small[of m]
  by (auto simp: true_entry_def entry_of_def rev_at_def has_map_def has_parent_def rev_of_def)

lemma record_good:
  assumes s: "good s" and h: "hops F cur o1 m" and small: "m < 0xff000000" and o1: "wf_op o1"
    and below: "m = 0 \<or> og_seq (view s) o1 (of_nat (m - 1)) \<noteq> None"
  shows "\<exists>s'. sbind (slift (loadOutput F cur)) (\<lambda>out. sbind (parseOutput F cur out True) (\<lambda>r.
      os_AddEntry (of_origins F) o1 (entry_of cur (int m) r))) s = (Inr (), s') \<and> later s s' \<and> og_seq (view s') o1 (of_nat m) = Some cur"
proof -
  obtain r p where v: "visit F cur = Inr (r, p)" using hops_visit[OF h] by blast
  obtain out where out: "loadOutput F cur = Inr out" "parsed_value F out True = Inr r" using loaded[OF v] by blast
  obtain s1 where s1: "parseOutput F cur out True s = (Inr r, s1)" "later s s1" using parse_good[OF s] out(2) by metis
  let ?e = "entry_of cur (int m) r"
  have e: "oe_Outpoint ?e = cur" "oe_Seq ?e = of_nat m" by (simp_all add: entry_of_def)
  note g1 = later_good[OF s1(2)]
  obtain s2 where s2: "os_AddEntry (of_origins F) o1 ?e s1 = (Inr (), s2)" "ok s2" "view s2 = put_entry o1 ?e (view s1)"
    using Add_law[of s1 o1 ?e] g1 o1 hops_wf_all[OF h o1] e(1) by auto
  have te: "\<forall>e'\<in>set [?e]. true_entry F o1 e'" using true_entry_of[OF v h small] by simp
  have b1: "m = 0 \<or> og_seq (view s1) o1 (of_nat (m - 1)) \<noteq> None" using below s1(2) unfolding grown_def by blast
  have "good_view F (view s2)"
    using good_puts[of "view s1" "[?e]" o1 m 1] g1 te b1 small e(2) s2(3) by simp
  moreover have "og_org (view s2) p = Some x" if "og_org (view s1) p = Some x" for p x
    unfolding s2(3) using put_keeps[OF _ _ that] g1 te by (simp add: good_view_def)
  moreover have "og_seq (view s2) o2 n \<noteq> None" if "og_seq (view s1) o2 n \<noteq> None" for o2 n
    using that unfolding s2(3) by (auto simp: put_entry_def at_def)
  ultimately have "later s1 s2" unfolding grown_def using s2(2) by blast
  moreover have "og_seq (view s2) o1 (of_nat m) = Some cur" using s2(3) e by (simp add: put_entry_def at_def)
  ultimately show ?thesis using out s1 s2 grown_trans[OF s1(2)] by (auto simp: sm_apply)
qed

lemma forward_good:
  assumes "ahead F t cur m l" "l < n" "good s" "hops F cur o1 m" "m + l < 0xff000000" "wf_op o1"
    "m = 0 \<or> og_seq (view s) o1 (of_nat (m - 1)) \<noteq> None"
  shows "\<exists>r s'. forwardCrawl n F o1 cur (int m) t s = Some (r, s') \<and> later s s' \<and>
    (\<forall>p q. r = Inr (p, q) \<longrightarrow> (\<exists>j. q = int j \<and> m \<le> j \<and> j \<le> m + l \<and> hops F p o1 j \<and> og_seq (view s') o1 (of_nat j) = Some p \<and>
       (next_outpoint F p = Inr None \<or> 0 \<le> t \<and> t \<le> int j))) \<and>
    (\<forall>e. r = Inl e \<longrightarrow> (\<exists>p j. hops F p o1 j \<and> j \<le> m + l \<and> next_outpoint F p = Inl e))"
  using assms
proof (induction arbitrary: n s rule: ahead.induct)
  case (ahead_stop m cur)
  then obtain n' where n: "n = Suc n'" by (cases n) auto
  obtain s1 where s1: "sbind (slift (loadOutput F cur)) (\<lambda>out. sbind (parseOutput F cur out True) (\<lambda>r.
      os_AddEntry (of_origins F) o1 (entry_of cur (int m) r))) s = (Inr (), s1)" "later s s1" "og_seq (view s1) o1 (of_nat m) = Some cur"
    using record_good[OF ahead_stop.prems(2,3) _ ahead_stop.prems(5,6)] ahead_stop.prems(4) by auto
  show ?case
  proof (cases "0 \<le> t \<and> t \<le> int m")
    case True
    then have "forwardCrawl n F o1 cur (int m) t s = Some (Inr (cur, int m), s1)" using n s1(1) by simp
    then show ?thesis using s1(2,3) ahead_stop.prems(3) True by auto
  next
    case False
    consider e where "next_outpoint F cur = Inl e" | "next_outpoint F cur = Inr None"
      using ahead_stop.hyps False by (metis not_None_eq sum.exhaust)
    then show ?thesis
    proof cases
      case 1
      then have "forwardCrawl n F o1 cur (int m) t s = Some (Inl e, s1)" using n s1(1) False by simp
      then show ?thesis using s1(2) ahead_stop.prems(3) 1 by auto
    next
      case 2
      then have "forwardCrawl n F o1 cur (int m) t s = Some (Inr (cur, int m), s1)" using n s1(1) False by simp
      then show ?thesis using s1(2,3) ahead_stop.prems(3) 2 by auto
    qed
  qed
next
  case (ahead_go m cur nxt l)
  then obtain n' where n: "n = Suc n'" by (cases n) auto
  obtain s1 where s1: "sbind (slift (loadOutput F cur)) (\<lambda>out. sbind (parseOutput F cur out True) (\<lambda>r.
      os_AddEntry (of_origins F) o1 (entry_of cur (int m) r))) s = (Inr (), s1)" "later s s1" "og_seq (view s1) o1 (of_nat m) = Some cur"
    using record_good[OF ahead_go.prems(2,3) _ ahead_go.prems(5,6)] ahead_go.prems(4) by auto
  obtain r0 p0 where v: "visit F cur = Inr (r0, p0)" using hops_visit[OF ahead_go.prems(3)] by blast
  obtain r1 where "visit F nxt = Inr (r1, Some cur)" using next_visit[OF ledger scripts v ahead_go.hyps(2)] by blast
  then have h: "hops F nxt o1 (Suc m)" using ahead_go.prems(3) by (rule step_back)
  have b: "Suc m = 0 \<or> og_seq (view s1) o1 (of_nat (Suc m - 1)) \<noteq> None" using s1(3) by simp
  have "l < n'" "Suc m + l < 0xff000000" using ahead_go.prems n by auto
  from ahead_go.IH[OF this(1) later_good[OF s1(2)] h this(2) ahead_go.prems(5) b]
  obtain r s2 where s2: "forwardCrawl n' F o1 nxt (int (Suc m)) t s1 = Some (r, s2)" "later s1 s2"
    "\<forall>p q. r = Inr (p, q) \<longrightarrow> (\<exists>j. q = int j \<and> Suc m \<le> j \<and> j \<le> Suc m + l \<and> hops F p o1 j \<and> og_seq (view s2) o1 (of_nat j) = Some p \<and>
       (next_outpoint F p = Inr None \<or> 0 \<le> t \<and> t \<le> int j))"
    "\<forall>e. r = Inl e \<longrightarrow> (\<exists>p j. hops F p o1 j \<and> j \<le> Suc m + l \<and> next_outpoint F p = Inl e)" by blast
  have step: "int m + 1 = int (Suc m)" by simp
  have "forwardCrawl n F o1 cur (int m) t s = Some (r, s2)"
    unfolding n forwardCrawl.simps s1(1) using ahead_go.hyps(1,2) s2(1) by (auto simp: step simp del: of_nat_Suc forwardCrawl.simps)
  then show ?case using s2(3,4) grown_trans[OF s1(2) s2(2)] by (metis Suc_leD add_Suc add_Suc_right)
qed

section \<open>The target place\<close>

lemma no_gap: "good s \<Longrightarrow> og_seq (view s) o1 n \<noteq> None \<Longrightarrow> m \<le> n \<Longrightarrow> og_seq (view s) o1 m \<noteq> None"
  unfolding good_view_def no_gaps_def by blast

lemma seq_place:
  assumes s: "good s" and h: "hops F p o1 j" and j: "j < 0xff000000" and q: "og_seq (view s) o1 (of_nat j) \<noteq> None"
  shows "og_seq (view s) o1 (of_nat j) = Some p"
proof -
  obtain p' where p': "og_seq (view s) o1 (of_nat j) = Some p'" using q by auto
  have "hops F p' o1 j" using good_seq[OF s p'] word_small[OF j] by simp
  then show ?thesis using linear_hops[OF _ linear h] p' by blast
qed

text \<open>Where the forward crawl starts, and that it has enough fuel to end.\<close>

definition enough :: "nat \<Rightarrow> outpoint \<Rightarrow> int \<Rightarrow> bool" where
  "enough n o1 seq \<longleftrightarrow> 0 \<le> seq \<and> seq < 0xff000000 \<and> nat seq < n \<or> seq = - 1 \<and> (\<exists>N. chain_ends F o1 N \<and> N < n \<and> N < 0xff000000)"

lemma enough_ahead:
  assumes "enough n o1 seq" "hops F cur o1 m" "m < 0xff000000" "0 \<le> seq \<longrightarrow> int m \<le> seq"
  shows "\<exists>l. ahead F seq cur m l \<and> l < n \<and> m + l < 0xff000000"
  using assms(1) unfolding enough_def
proof (elim disjE)
  assume s: "0 \<le> seq \<and> seq < 0xff000000 \<and> nat seq < n"
  then obtain l where "ahead F seq cur m l" "m + l \<le> max m (nat seq)" using ahead_target by blast
  moreover have "max m (nat seq) = nat seq" using s assms(4) by simp
  ultimately show ?thesis using s by (intro exI[of _ l]) auto
next
  assume "seq = - 1 \<and> (\<exists>N. chain_ends F o1 N \<and> N < n \<and> N < 0xff000000)"
  then obtain N l where "ahead F seq cur m l" "m + l \<le> N" "N < n" "N < 0xff000000"
    using assms(2) unfolding chain_ends_def by blast
  then show ?thesis by (intro exI[of _ l]) auto
qed

lemma start_good:
  assumes s: "good s" and o1: "wf_op o1" "hops F o1 o1 0" and en: "enough n o1 seq"
    and ns: "0 \<le> seq \<longrightarrow> og_seq (view s) o1 (of_int seq) = None"
  shows "\<exists>st sq r s'. os_GetLatestSeq (of_origins F) o1 s = Inr (st, sq) \<and>
    (case st of None \<Rightarrow> forwardCrawl n F o1 o1 0 seq s | Some p \<Rightarrow> forwardCrawl n F o1 p (uint sq) seq s) = Some (r, s') \<and> later s s' \<and>
    (\<forall>p q. r = Inr (p, q) \<longrightarrow> (\<exists>j. q = int j \<and> j < 0xff000000 \<and> hops F p o1 j \<and> og_seq (view s') o1 (of_nat j) = Some p \<and>
       (next_outpoint F p = Inr None \<or> 0 \<le> seq \<and> seq \<le> int j))) \<and>
    (\<forall>e. r = Inl e \<longrightarrow> (\<exists>p j. hops F p o1 j \<and> next_outpoint F p = Inl e))"
proof -
  have crawl: ?thesis
    if st: "os_GetLatestSeq (of_origins F) o1 s = Inr (st, sq)"
      "(case st of None \<Rightarrow> forwardCrawl n F o1 o1 0 seq s | Some p \<Rightarrow> forwardCrawl n F o1 p (uint sq) seq s) = forwardCrawl n F o1 cur (int m) seq s"
      and h: "hops F cur o1 m" "m < 0xff000000" "0 \<le> seq \<longrightarrow> int m \<le> seq" "m = 0 \<or> og_seq (view s) o1 (of_nat (m - 1)) \<noteq> None"
    for st sq cur m
  proof -
    obtain l where l: "ahead F seq cur m l" "l < n" "m + l < 0xff000000" using enough_ahead[OF en h(1-3)] by blast
    from forward_good[OF l(1,2) s h(1) l(3) o1(1) h(4)] obtain r s' where
      f: "forwardCrawl n F o1 cur (int m) seq s = Some (r, s')" "later s s'"
      "\<forall>p q. r = Inr (p, q) \<longrightarrow> (\<exists>j. q = int j \<and> m \<le> j \<and> j \<le> m + l \<and> hops F p o1 j \<and> og_seq (view s') o1 (of_nat j) = Some p \<and>
         (next_outpoint F p = Inr None \<or> 0 \<le> seq \<and> seq \<le> int j))"
      "\<forall>e. r = Inl e \<longrightarrow> (\<exists>p j. hops F p o1 j \<and> j \<le> m + l \<and> next_outpoint F p = Inl e)" by blast
    have "\<exists>j. q = int j \<and> j < 0xff000000 \<and> hops F p o1 j \<and> og_seq (view s') o1 (of_nat j) = Some p \<and>
        (next_outpoint F p = Inr None \<or> 0 \<le> seq \<and> seq \<le> int j)" if rq: "r = Inr (p, q)" for p q
    proof -
      obtain j where "q = int j" "j \<le> m + l" "hops F p o1 j" "og_seq (view s') o1 (of_nat j) = Some p"
        "next_outpoint F p = Inr None \<or> 0 \<le> seq \<and> seq \<le> int j" using f(3) rq by blast
      then show ?thesis using le_less_trans[OF _ l(3)] by (intro exI[of _ j]) blast
    qed
    moreover have "\<exists>p j. hops F p o1 j \<and> next_outpoint F p = Inl e" if "r = Inl e" for e using f(4) that by blast
    moreover have "(case st of None \<Rightarrow> forwardCrawl n F o1 o1 0 seq s | Some p \<Rightarrow> forwardCrawl n F o1 p (uint sq) seq s) = Some (r, s')"
      using st(2) f(1) by simp
    ultimately show ?thesis using st(1) f(2) by blast
  qed
  have small: "\<forall>n. og_seq (view s) o1 n \<noteq> None \<longrightarrow> n < 0xff000000" using good_seq[OF s] by blast
  have lat: "os_GetLatestSeq (of_origins F) o1 s =
      Inr (case latest (og_seq (view s) o1) (- 1) of None \<Rightarrow> (None, 0) | Some n \<Rightarrow> (og_seq (view s) o1 n, n))"
    using LatestSeq_law[OF _ o1(1) small] s by blast
  show ?thesis
  proof (cases "latest (og_seq (view s) o1) (- 1)")
    case None
    then show ?thesis using crawl[of None 0 o1 0] lat o1(2) by simp
  next
    case (Some w)
    then obtain p where p: "og_seq (view s) o1 w = Some p" using latest_Some[of "og_seq (view s) o1" "- 1" w] by auto
    have small_w: "unat w < 0xff000000" using good_seq[OF s p] by (simp add: word_less_nat_alt)
    have le: "int (unat w) \<le> seq" if "0 \<le> seq"
    proof (rule ccontr)
      assume "\<not> int (unat w) \<le> seq"
      then have "nat seq \<le> unat w" using that by linarith
      then have "(of_nat (nat seq) :: 32 word) \<le> w"
        by (simp add: word_le_nat_alt unat_of_nat)
      then have "og_seq (view s) o1 (of_nat (nat seq)) \<noteq> None" using no_gap[OF s, of o1 w] p by blast
      then show False using ns that by (simp add: of_nat_nat)
    qed
    have below: "unat w = 0 \<or> og_seq (view s) o1 (of_nat (unat w - 1)) \<noteq> None"
    proof (cases "unat w = 0")
      case False
      have "unat w - 1 < 0xff000000" using small_w by simp
      then have "unat (of_nat (unat w - 1) :: 32 word) = unat w - 1" using word_small by blast
      then have "(of_nat (unat w - 1) :: 32 word) \<le> w" by (simp add: word_le_nat_alt)
      then show ?thesis using no_gap[OF s, of o1 w] p by blast
    qed simp
    have st: "os_GetLatestSeq (of_origins F) o1 s = Inr (Some p, w)" using lat Some p by simp
    have "(case Some p of None \<Rightarrow> forwardCrawl n F o1 o1 0 seq s | Some p \<Rightarrow> forwardCrawl n F o1 p (uint w) seq s) =
        forwardCrawl n F o1 p (int (unat w)) seq s" by (simp only: option.case uint_nat)
    moreover have "hops F p o1 (unat w)" using good_seq[OF s p] by blast
    moreover have "0 \<le> seq \<longrightarrow> int (unat w) \<le> seq" using le by blast
    ultimately show ?thesis by (rule crawl[OF st _ _ small_w _ below])
  qed
qed

lemma target_good:
  assumes s: "good s" and o1: "wf_op o1" "hops F o1 o1 0" and en: "enough n o1 seq"
  shows "\<exists>r s'. target_of n F o1 seq s = Some (r, s') \<and> later s s' \<and>
    (\<forall>p q. r = Inr (p, q) \<longrightarrow> (\<exists>v j. p = Some v \<and> q = int j \<and> j < 0xff000000 \<and> hops F v o1 j \<and> og_seq (view s') o1 (of_nat j) = Some v \<and>
       (0 \<le> seq \<longrightarrow> seq = int j) \<and> (seq = - 1 \<longrightarrow> next_outpoint F v = Inr None))) \<and>
    (\<forall>e. r = Inl e \<longrightarrow> (\<exists>p j. hops F p o1 j \<and> (next_outpoint F p = Inl e \<or>
       0 \<le> seq \<and> int j < seq \<and> next_outpoint F p = Inr None \<and> e = ErrNotFound)))"
proof (cases "0 \<le> seq \<and> og_seq (view s) o1 (of_int seq) \<noteq> None")
  case True
  then obtain v where v: "og_seq (view s) o1 (of_int seq) = Some v" by auto
  have w: "of_int seq = (of_nat (nat seq) :: 32 word)" using True by simp
  have sm: "nat seq < 0xff000000" using en True unfolding enough_def by auto
  have "hops F v o1 (nat seq)" using good_seq[OF s v] word_small[OF sm] unfolding w by simp
  moreover have "target_of n F o1 seq s = Some (Inr (Some v, seq), s)"
    using True v GetSeqAt_law[of s o1] s o1(1) by (simp add: target_of_def fbind_def frd_def)
  ultimately show ?thesis using later_refl[OF s] v sm True unfolding w by (auto simp: enough_def intro!: exI[of _ "nat seq"])
next
  case False
  have first: "(if 0 \<le> seq then frd (os_GetSeqAt (of_origins F) o1 (of_int seq)) s else Some (Inr None, s)) = Some (Inr None, s)"
    using False GetSeqAt_law[of s o1] s o1(1) by (auto simp: frd_def)
  have ns: "0 \<le> seq \<longrightarrow> og_seq (view s) o1 (of_int seq) = None" using False by auto
  obtain st sq r s1 where st: "os_GetLatestSeq (of_origins F) o1 s = Inr (st, sq)"
    and cr: "(case st of None \<Rightarrow> forwardCrawl n F o1 o1 0 seq s | Some p \<Rightarrow> forwardCrawl n F o1 p (uint sq) seq s) = Some (r, s1)"
    and l: "later s s1"
    and rr: "\<And>p q. r = Inr (p, q) \<longrightarrow> (\<exists>j. q = int j \<and> j < 0xff000000 \<and> hops F p o1 j \<and> og_seq (view s1) o1 (of_nat j) = Some p \<and>
       (next_outpoint F p = Inr None \<or> 0 \<le> seq \<and> seq \<le> int j))"
    and rl: "\<And>e. r = Inl e \<longrightarrow> (\<exists>p j. hops F p o1 j \<and> next_outpoint F p = Inl e)"
    using start_good[OF s o1 en ns] by blast
  have tgt: "target_of n F o1 seq s = fbind (Some (r, s1)) (\<lambda>(final, finalSeq) s.
      if seq = -1 then Some (Inr (Some final, finalSeq), s)
      else if 0 \<le> seq then fbind (frd (os_GetSeqAt (of_origins F) o1 (of_int seq)) s) (\<lambda>target s.
             case target of None \<Rightarrow> Some (Inl ErrNotFound, s) | Some p \<Rightarrow> Some (Inr (Some p, seq), s))
      else Some (Inr (None, seq), s))"
    unfolding target_of_def first cr[symmetric] using st by (simp add: fbind_def frd_def)
  show ?thesis
  proof (cases r)
    case (Inl e)
    then have "target_of n F o1 seq s = Some (Inl e, s1)" using tgt by (simp add: fbind_def)
    moreover obtain p j where "hops F p o1 j" "next_outpoint F p = Inl e" using rl Inl by blast
    ultimately show ?thesis using l by blast
  next
    case (Inr fq)
    obtain p q where fq: "fq = (p, q)" by fastforce
    obtain j where j: "q = int j" "j < 0xff000000" "hops F p o1 j" "og_seq (view s1) o1 (of_nat j) = Some p"
      "next_outpoint F p = Inr None \<or> 0 \<le> seq \<and> seq \<le> int j" using rr Inr fq by blast
    show ?thesis
    proof (cases "seq = - 1")
      case True
      then have "target_of n F o1 seq s = Some (Inr (Some p, int j), s1)" using tgt Inr fq j(1) by (simp add: fbind_def)
      then show ?thesis using l j True by auto
    next
      case neg: False
      then have pos: "0 \<le> seq" and sm: "nat seq < 0xff000000" using en unfolding enough_def by auto
      have w: "of_int seq = (of_nat (nat seq) :: 32 word)" using pos by simp
      note g1 = later_good[OF l]
      have t: "target_of n F o1 seq s = Some (case og_seq (view s1) o1 (of_nat (nat seq)) of None \<Rightarrow> Inl ErrNotFound | Some v \<Rightarrow> Inr (Some v, seq), s1)"
        using tgt Inr fq neg pos GetSeqAt_law[of s1 o1] g1 o1(1) unfolding w by (simp add: fbind_def frd_def split: option.splits)
      show ?thesis
      proof (cases "og_seq (view s1) o1 (of_nat (nat seq))")
        case None
        have "int j < seq"
        proof (rule ccontr)
          assume "\<not> int j < seq"
          then have le: "(of_nat (nat seq) :: 32 word) \<le> of_nat j" using word_small[OF j(2)] word_small[OF sm] by (simp add: word_le_nat_alt)
          have "og_seq (view s1) o1 (of_nat j) \<noteq> None" using j(4) by simp
          from no_gap[OF g1 this le] None show False by blast
        qed
        then have "next_outpoint F p = Inr None" using j(5) by auto
        then show ?thesis using t None l j(3) pos \<open>int j < seq\<close> by auto
      next
        case (Some v)
        have "hops F v o1 (nat seq)" using good_seq[OF g1 Some] word_small[OF sm] by simp
        then show ?thesis using t Some l sm pos neg by (auto intro!: exI[of _ "nat seq"])
      qed
    qed
  qed
qed

section \<open>Resolving\<close>

text \<open>What the store answers for the latest value at or before a recorded place.\<close>

lemma newest_law:
  assumes s: "good s" and q: "og_seq (view s) o1 (of_nat j) \<noteq> None" "j < 0xff000000"
    and G: "\<And>n. G n = Option.bind (og_seq (view s) o1 n) f"
  shows "newest F f o1 j (Option.bind (latest G (of_nat j)) G)"
proof -
  have at: "G (of_nat i) = f p" if h: "hops F p o1 i" "i \<le> j" for p i
  proof -
    have i: "i < 0xff000000" using h(2) q(2) by simp
    have "(of_nat i :: 32 word) \<le> of_nat j" using word_small[OF i] word_small[OF q(2)] h(2) by (simp add: word_le_nat_alt)
    then have "og_seq (view s) o1 (of_nat i) \<noteq> None" using no_gap[OF s q(1)] by blast
    then show ?thesis using seq_place[OF s h(1) i] G by simp
  qed
  have le: "(of_nat i :: 32 word) \<le> of_nat j \<longleftrightarrow> i \<le> j" if "i < 0xff000000" for i
    using word_small[OF that] word_small[OF q(2)] by (simp add: word_le_nat_alt)
  show ?thesis
  proof (cases "latest G (of_nat j)")
    case None
    have "f p = None" if h: "i \<le> j" "hops F p o1 i" for p i
    proof -
      have "i < 0xff000000" using h(1) q(2) by simp
      then have "G (of_nat i) = None" using None[unfolded latest_None] le h(1) by blast
      then show ?thesis using at[OF h(2,1)] by simp
    qed
    then show ?thesis using None by (simp add: newest_def)
  next
    case (Some w)
    note lw = Some[unfolded latest_Some]
    obtain v where v: "G w = Some v" using lw by auto
    then obtain p where p: "og_seq (view s) o1 w = Some p" "f p = Some v" using G by (auto simp: bind_eq_Some_conv)
    have h: "hops F p o1 (unat w)" using good_seq[OF s p(1)] by blast
    have wj: "unat w \<le> j" using lw word_small[OF q(2)] by (simp add: word_le_nat_alt)
    have "f p' = None" if j': "unat w < j'" "j' \<le> j" "hops F p' o1 j'" for p' j'
    proof (rule ccontr)
      assume "f p' \<noteq> None"
      then have "G (of_nat j') \<noteq> None" using at[OF j'(3,2)] by simp
      moreover have sm: "j' < 0xff000000" using j'(2) q(2) by simp
      ultimately have "of_nat j' \<le> w" using lw le j'(2) by blast
      then show False using j'(1) word_small[OF sm] by (simp add: word_le_nat_alt)
    qed
    then show ?thesis using Some v h wj p(2) unfolding newest_def by auto
  qed
qed

text \<open>A resolution: the outpoint at the place and the newest content, map data and parent.\<close>

definition resolves :: "outpoint \<Rightarrow> int \<Rightarrow> resolution \<Rightarrow> bool" where
  "resolves o1 seq rn \<longleftrightarrow> (\<exists>p j. rn_Origin rn = o1 \<and> rn_Current rn = Some p \<and> rn_Sequence rn = int j \<and> hops F p o1 j \<and>
     (0 \<le> seq \<longrightarrow> seq = int j) \<and> (seq = - 1 \<longrightarrow> next_outpoint F p = Inr None) \<and> rn_Content rn \<noteq> None \<and>
     newest F (rev_at F) o1 j (rn_Content rn) \<and> newest F (has_map F) o1 j (rn_Map rn) \<and> newest F (has_parent F) o1 j (rn_Parent rn))"

text \<open>Why there is none: the spends cannot be read, the chain ends before the place, or it has no content.\<close>

definition unresolved :: "outpoint \<Rightarrow> int \<Rightarrow> err \<Rightarrow> bool" where
  "unresolved o1 seq e \<longleftrightarrow> (\<exists>p j. hops F p o1 j \<and>
     (next_outpoint F p = Inl e \<or> 0 \<le> seq \<and> int j < seq \<and> next_outpoint F p = Inr None \<and> e = ErrNotFound \<or>
      (0 \<le> seq \<longrightarrow> seq = int j) \<and> newest F (rev_at F) o1 j None \<and> e = ErrNotFound))"

lemma crawled_good:
  assumes "m < n" "good s" "hops F op o1 m" "wf_op op" "m < 0xff000000"
  shows "\<exists>r s'. known_or_crawled n F op s = Some (r, s') \<and> later s s' \<and> (\<forall>o2. r = Inr o2 \<longrightarrow> o2 = o1) \<and> (free (behind o1 m) s \<longrightarrow> r = Inr o1)"
proof (cases "og_org (view s) op")
  case None
  then have "known_or_crawled n F op s = backwardCrawl n F op s"
    using GetOrigin_law[of s op] assms(2,4) by (simp add: known_or_crawled_def fbind_def frd_def)
  then show ?thesis using backward_good[OF assms] by auto
next
  case (Some x)
  then have x: "x = (o1, of_nat m)" using known_origin[OF assms(2) _ assms(3)] by simp
  then have "known_or_crawled n F op s = Some (Inr o1, s)"
    using GetOrigin_law[of s op] assms(2,4) Some by (simp add: known_or_crawled_def fbind_def frd_def)
  then show ?thesis using later_refl[OF assms(2)] by auto
qed

lemma Resolve_good:
  assumes m: "m < n" and s: "good s" and h: "hops F op o1 m" "wf_op op" "m < 0xff000000" and en: "enough n o1 seq"
  shows "\<exists>r s'. Resolve n F op seq s = Some (r, s') \<and> later s s' \<and> (\<forall>rn. r = Inr rn \<longrightarrow> resolves o1 seq rn) \<and>
    (free (behind o1 m) s \<longrightarrow> (\<forall>e. r = Inl e \<longrightarrow> unresolved o1 seq e))"
proof -
  obtain r1 s1 where k: "known_or_crawled n F op s = Some (r1, s1)" "later s s1" "\<forall>o2. r1 = Inr o2 \<longrightarrow> o2 = o1"
    "free (behind o1 m) s \<longrightarrow> r1 = Inr o1" using crawled_good[OF m s h] by blast
  show ?thesis
  proof (cases r1)
    case (Inl e)
    then show ?thesis using k by (auto simp: Resolve_def fbind_def)
  next
    case (Inr o2)
    then have o2: "r1 = Inr o1" using k(3) by simp
    have o1: "wf_op o1" "hops F o1 o1 0" using hops_wf[OF h(1) ledger h(2)] hops_origin[OF h(1)] at_origin by auto
    obtain r2 s2 where t: "target_of n F o1 seq s1 = Some (r2, s2)" "later s1 s2"
      "\<forall>p q. r2 = Inr (p, q) \<longrightarrow> (\<exists>v j. p = Some v \<and> q = int j \<and> j < 0xff000000 \<and> hops F v o1 j \<and> og_seq (view s2) o1 (of_nat j) = Some v \<and>
        (0 \<le> seq \<longrightarrow> seq = int j) \<and> (seq = - 1 \<longrightarrow> next_outpoint F v = Inr None))"
      "\<forall>e. r2 = Inl e \<longrightarrow> (\<exists>p j. hops F p o1 j \<and> (next_outpoint F p = Inl e \<or>
        0 \<le> seq \<and> int j < seq \<and> next_outpoint F p = Inr None \<and> e = ErrNotFound))"
      using target_good[OF later_good[OF k(2)] o1 en] by blast
    note l = grown_trans[OF k(2) t(2)] and g = later_good[OF t(2)]
    show ?thesis
    proof (cases r2)
      case (Inl e)
      then have "Resolve n F op seq s = Some (Inl e, s2)" using k(1) o2 t(1) by (simp add: Resolve_def fbind_def)
      moreover have "unresolved o1 seq e" using t(4) Inl unfolding unresolved_def by blast
      ultimately show ?thesis using l by auto
    next
      case (Inr vq)
      then obtain v j where v: "vq = (Some v, int j)" "j < 0xff000000" "hops F v o1 j" "og_seq (view s2) o1 (of_nat j) = Some v"
        "0 \<le> seq \<longrightarrow> seq = int j" "seq = - 1 \<longrightarrow> next_outpoint F v = Inr None" using t(3) by (cases vq) blast
      have tp: "true_places F (view s2)" using g by (simp add: good_view_def)
      let ?val = "\<lambda>f. Option.bind (latest (f (view s2) o1) (of_nat j)) (f (view s2) o1)"
      have reads: "os_GetLatestRevBefore (of_origins F) o1 (of_nat j) s2 = Inr (?val og_rev)"
        "os_GetLatestMapBefore (of_origins F) o1 (of_nat j) s2 = Inr (?val og_map)"
        "os_GetLatestParentBefore (of_origins F) o1 (of_nat j) s2 = Inr (?val og_par)"
        using RevBefore_law MapBefore_law ParBefore_law g o1(1) by blast+
      have rs: "Resolve n F op seq s = Some (if ?val og_rev = None then Inl ErrNotFound
          else Inr \<lparr>rn_Origin = o1, rn_Current = Some v, rn_Content = ?val og_rev, rn_Map = ?val og_map, rn_Parent = ?val og_par,
            rn_Sequence = int j\<rparr>, s2)"
        using k(1) o2 t(1) Inr v(1) reads by (simp add: Resolve_def fbind_def frd_def)
      have pl: "og_seq (view s2) o1 (of_nat j) \<noteq> None" using v(4) by simp
      have "newest F (rev_at F) o1 j (?val og_rev)" "newest F (has_map F) o1 j (?val og_map)" "newest F (has_parent F) o1 j (?val og_par)"
        using tp by (intro newest_law[OF g pl v(2)], simp add: true_places_def)+
      then show ?thesis using rs l v unfolding resolves_def unresolved_def by (cases "?val og_rev = None") fastforce+
    qed
  qed
qed

end

end
