(* ===== verification/OrdfsStream.thy ===== *)
theory OrdfsStream
  imports OrdfsResolve
begin

text \<open>
  Streams: the chunks of the outpoints that follow an outpoint are its content, and a range request is answered
  with that part of it.
\<close>

section \<open>The content of a stream\<close>

text \<open>The chunks from an outpoint on, if all can be read and the chain ends within the fuel.\<close>

fun chunks :: "nat \<Rightarrow> ('s, 'j) ordfs \<Rightarrow> outpoint \<Rightarrow> nat \<Rightarrow> bytes list option" where
  "chunks 0 F cur rel = None"
| "chunks (Suc n) F cur rel =
     (case rbind (loadOutput F cur) (\<lambda>out. parsed_value F out True) of
        Inl e \<Rightarrow> None
      | Inr r \<Rightarrow>
          let c = (case rs_Content r of None \<Rightarrow> [] | Some c \<Rightarrow> c) in
          if 0 < rel \<and> rs_ContentType r \<noteq> ''ordfs/stream'' then Some [c]
          else (case of_GetSpend F cur of
                  Inr (Some t) \<Rightarrow>
                    (case of_LoadTx F t of
                       Inl e \<Rightarrow> None
                     | Inr tx \<Rightarrow>
                         (case calculateOrdinalOutput F tx cur of
                            Inr (Some nxt) \<Rightarrow> map_option (Cons c) (chunks n F nxt (Suc rel))
                          | _ \<Rightarrow> Some [c]))
                | _ \<Rightarrow> Some [c]))"

text \<open>The part of the content from the start of a range up to its end, which is exclusive.\<close>

definition range_start :: "int option \<Rightarrow> int" where
  "range_start a = (case a of None \<Rightarrow> 0 | Some a \<Rightarrow> a)"

definition cut :: "int option \<Rightarrow> int option \<Rightarrow> bytes \<Rightarrow> bytes" where
  "cut a b x = (case b of None \<Rightarrow> drop (nat (range_start a)) x
     | Some b \<Rightarrow> take (nat (b - range_start a)) (drop (nat (range_start a)) x))"

definition valid_range :: "int option \<Rightarrow> int option \<Rightarrow> bool" where
  "valid_range a b \<longleftrightarrow> (case a of None \<Rightarrow> b = None | Some a \<Rightarrow> 0 \<le> a \<and> (case b of None \<Rightarrow> True | Some b \<Rightarrow> a \<le> b))"

definition start_found :: "int option \<Rightarrow> int \<Rightarrow> bool" where
  "start_found a cum \<longleftrightarrow> (case a of None \<Rightarrow> True | Some a \<Rightarrow> a < cum)"

lemma cut_done: "range_done a b (int (length (cut a b x))) \<Longrightarrow> cut a b (x @ y) = cut a b x"
  by (auto simp: range_done_def cut_def range_start_def split: option.splits)

lemma chunk_part_cut:
  assumes v: "valid_range a b" and c: "c \<noteq> []"
  shows "\<exists>piece. chunk_part a b (int (length x)) (start_found a (int (length x))) c = Inr (start_found a (int (length (x @ c))), piece) \<and>
    cut a b (x @ c) = cut a b x @ piece"
proof (cases a)
  case None
  then have "b = None" using v by (simp add: valid_range_def)
  then show ?thesis using None c by (simp add: chunk_part_def start_found_def cut_def range_start_def)
next
  case (Some a')
  have a: "0 \<le> a'" using v Some by (simp add: valid_range_def)
  define n where "n = nat a'"
  have an: "a' = int n" using a by (simp add: n_def)
  show ?thesis
  proof (cases b)
    case None
    then show ?thesis using Some an c
      by (auto simp: chunk_part_def start_found_def cut_def range_start_def Let_def nat_diff_distrib)
  next
    case b: (Some b')
    define m where "m = nat (b' - a')"
    have bm: "b' = int n + int m" using v Some b an by (simp add: valid_range_def m_def)
    have "nat (int m - (int (length x) - int n)) + length x - n = m" if "\<not> n < length x" using that by auto
    then show ?thesis using Some b an bm c
      by (auto simp: chunk_part_def start_found_def cut_def range_start_def Let_def nat_diff_distrib)
  qed
qed

context ordfs_laws
begin

lemma stream_loop_cut:
  assumes "chunks n F cur rel = Some cs" "good s" "valid_range a b"
  shows "\<exists>r s'. stream_loop n F o1 a b cur (int rel) (int (length x)) (start_found a (int (length x))) ct (cut a b x) s =
      Some (Inr r, cut a b (x @ concat cs), s') \<and> later s s' \<and> sr_Origin r = o1 \<and> sr_BytesWritten r = int (length (cut a b (x @ concat cs)))"
  using assms(1,2)
proof (induction n arbitrary: cur rel cs s x ct)
  case (Suc n)
  obtain out r where out: "loadOutput F cur = Inr out" "parsed_value F out True = Inr r"
    using Suc.prems(1) by (auto simp: rbind_def split: sum.splits)
  obtain s1 where s1: "parseOutput F cur out True s = (Inr r, s1)" "later s s1" using parse_good[OF Suc.prems(2)] out(2) by metis
  define c where "c = (case rs_Content r of None \<Rightarrow> [] | Some c \<Rightarrow> c)"
  define ct' where "ct' = (if rel = 0 then rs_ContentType r else ct)"
  obtain piece where piece: "(if c = [] then Inr (start_found a (int (length x)), []) else
        chunk_part a b (int (length x)) (start_found a (int (length x))) c) = Inr (start_found a (int (length (x @ c))), piece)"
      "cut a b (x @ c) = cut a b x @ piece"
    using chunk_part_cut[OF assms(3), of c x] by (cases "c = []") auto
  define resp where "resp = \<lparr>sr_Origin = o1, sr_ContentType = ct', sr_BytesWritten = int (length (cut a b (x @ c))),
    sr_FinalSequence = int rel, sr_StreamEnded = True\<rparr>"
  define rest where "rest = (if piece \<noteq> [] \<and> range_done a b (int (length (cut a b (x @ c)))) then Some (Inr resp, cut a b (x @ c), s1)
     else if 0 < rel \<and> rs_ContentType r \<noteq> ''ordfs/stream'' then Some (Inr resp, cut a b (x @ c), s1)
     else (case of_GetSpend F cur of
             Inr (Some t) \<Rightarrow>
               (case of_LoadTx F t of
                  Inl e \<Rightarrow> Some (Inl e, cut a b (x @ c), s1)
                | Inr spendTx \<Rightarrow>
                    (case calculateOrdinalOutput F spendTx cur of
                       Inr (Some nxt) \<Rightarrow> stream_loop n F o1 a b nxt (int (Suc rel)) (int (length (x @ c)))
                         (start_found a (int (length (x @ c)))) ct' (cut a b (x @ c)) s1
                     | _ \<Rightarrow> Some (Inr resp, cut a b (x @ c), s1)))
           | _ \<Rightarrow> Some (Inr resp, cut a b (x @ c), s1)))"
  have rel: "int rel + 1 = int (Suc rel)" "(0 < int rel) = (0 < rel)" "(int rel = 0) = (rel = 0)"
    "int (length x) + int (length c) = int (length (x @ c))" by simp_all
  have step: "stream_loop (Suc n) F o1 a b cur (int rel) (int (length x)) (start_found a (int (length x))) ct (cut a b x) s = rest"
    unfolding stream_loop.simps rest_def resp_def ct'_def
    by (simp only: sbind_def slift_def out(1) s1(1) Let_def c_def[symmetric] piece rel sum.case prod.case)
  have fin: ?case if e: "rest = Some (Inr resp, cut a b (x @ c), s1)" "cut a b (x @ concat cs) = cut a b (x @ c)"
    unfolding step e using s1(2) by (auto simp: resp_def)
  show ?case
  proof (cases "piece \<noteq> [] \<and> range_done a b (int (length (cut a b (x @ c))))")
    case True
    obtain ys where "concat cs = c @ ys"
      using Suc.prems(1) out c_def by (auto split: if_splits sum.splits option.splits)
    then have "cut a b (x @ concat cs) = cut a b (x @ c)" using cut_done[of a b "x @ c" ys] True by simp
    then show ?thesis using True by (intro fin) (auto simp: rest_def)
  next
    case False
    show ?thesis
    proof (cases "\<exists>t tx nxt. \<not> (0 < rel \<and> rs_ContentType r \<noteq> ''ordfs/stream'') \<and> of_GetSpend F cur = Inr (Some t) \<and>
        of_LoadTx F t = Inr tx \<and> calculateOrdinalOutput F tx cur = Inr (Some nxt)")
      case True
      then obtain t tx nxt where t: "\<not> (0 < rel \<and> rs_ContentType r \<noteq> ''ordfs/stream'')" "of_GetSpend F cur = Inr (Some t)"
        "of_LoadTx F t = Inr tx" "calculateOrdinalOutput F tx cur = Inr (Some nxt)" by blast
      obtain cs' where cs': "cs = c # cs'" "chunks n F nxt (Suc rel) = Some cs'"
        using Suc.prems(1) out t c_def by (auto split: if_splits)
      have rst: "rest = stream_loop n F o1 a b nxt (int (Suc rel)) (int (length (x @ c))) (start_found a (int (length (x @ c)))) ct' (cut a b (x @ c)) s1"
        unfolding rest_def using False t by auto
      from Suc.IH[OF cs'(2) later_good[OF s1(2)], of "x @ c" ct'] show ?thesis
        unfolding step rst cs'(1) using grown_trans[OF s1(2)] by auto
    next
      case end': False
      have "cs = [c]" using Suc.prems(1) out c_def end' by (auto simp: Let_def split: if_splits sum.splits option.splits)
      then show ?thesis using False end' Suc.prems(1) out by (intro fin) (auto simp: rest_def split: sum.splits option.splits if_splits)
    qed
  qed
qed simp

end

end
