(* ===== verification/OrdfsWorld.thy ===== *)
theory OrdfsWorld
  imports OrdfsStream LruList
begin

text \<open>
  What the resolution service runs on: the cache of \<open>cache_lru.go\<close> and the chain of caches (\<open>cache_chain.go\<close>), the
  crawl coordinator (\<open>coordinator.go\<close>), and the service over them and the Badger origin store. Other goroutines act
  while a crawl waits: what they do is a parameter.
\<close>

section \<open>The memory cache\<close>

text \<open>An element holds its key and value; the map leads from keys to elements.\<close>

record content_cache =
  oc_maxSize :: int
  oc_items :: "bytes \<Rightarrow> nat option"
  oc_lru :: "(bytes \<times> bytes) elems"
  oc_next :: nat

definition NewLRUCache :: "int \<Rightarrow> content_cache" where
  "NewLRUCache maxSize = \<lparr>oc_maxSize = maxSize, oc_items = Map.empty, oc_lru = [], oc_next = 0\<rparr>"

definition oc_Get :: "bytes \<Rightarrow> content_cache \<Rightarrow> bytes option \<times> content_cache" where
  "oc_Get key c =
     (case oc_items c key of
        None \<Rightarrow> (None, c)
      | Some e \<Rightarrow> (map_option snd (map_of (oc_lru c) e), c\<lparr>oc_lru := list_MoveToFront e (oc_lru c)\<rparr>))"

function oc_evict :: "content_cache \<Rightarrow> content_cache" where
  "oc_evict c =
     (if oc_maxSize c < int (length (oc_lru c))
      then (case list_Back (oc_lru c) of
              None \<Rightarrow> c
            | Some (e, k, v) \<Rightarrow> oc_evict (c\<lparr>oc_items := (oc_items c)(k := None), oc_lru := list_Remove e (oc_lru c)\<rparr>))
      else c)"
  by pat_completeness auto
termination
proof (relation "measure (\<lambda>c. length (oc_lru c))")
  fix c x e y k v
  assume h: "list_Back (oc_lru c) = Some x" "(e, y) = x" "(k, v) = y"
  then have "(e, k, v) \<in> set (oc_lru c)" by (auto simp: list_Back_def split: if_splits) (metis last_in_set)
  then have "length (filter (\<lambda>x. fst x \<noteq> e) (oc_lru c)) < length (oc_lru c)"
    by (intro length_filter_less[where x = "(e, k, v)"]) auto
  then show "(c\<lparr>oc_items := (oc_items c)(k := None), oc_lru := list_Remove e (oc_lru c)\<rparr>, c) \<in> measure (\<lambda>c. length (oc_lru c))"
    by (simp add: list_Remove_def)
qed simp

declare oc_evict.simps [simp del]

definition oc_Set :: "bytes \<Rightarrow> bytes \<Rightarrow> content_cache \<Rightarrow> content_cache" where
  "oc_Set key v c =
     (case oc_items c key of
        Some e \<Rightarrow> c\<lparr>oc_lru := map (\<lambda>x. if fst x = e then (e, fst (snd x), v) else x) (list_MoveToFront e (oc_lru c))\<rparr>
      | None \<Rightarrow> oc_evict (c\<lparr>oc_lru := (oc_next c, key, v) # oc_lru c, oc_items := (oc_items c)(key \<mapsto> oc_next c),
                            oc_next := Suc (oc_next c)\<rparr>))"

definition oc_Delete :: "bytes \<Rightarrow> content_cache \<Rightarrow> content_cache" where
  "oc_Delete key c =
     (case oc_items c key of
        None \<Rightarrow> c
      | Some e \<Rightarrow> c\<lparr>oc_items := (oc_items c)(key := None), oc_lru := list_Remove e (oc_lru c)\<rparr>)"

section \<open>The chain of caches\<close>

record 'w cache_ops =
  ca_Get :: "bytes \<Rightarrow> ('w, err, bytes option) sm"
  ca_Set :: "bytes \<Rightarrow> bytes \<Rightarrow> ('w, err, unit) sm"
  ca_Delete :: "bytes \<Rightarrow> ('w, err, unit) sm"

text \<open>Writing a hit back to the faster caches; their errors are dropped.\<close>

fun write_back :: "'w cache_ops list \<Rightarrow> bytes \<Rightarrow> bytes \<Rightarrow> 'w \<Rightarrow> 'w" where
  "write_back [] key v w = w"
| "write_back (c # cs) key v w = write_back cs key v (snd (ca_Set c key v w))"

fun cache_get :: "'w cache_ops list \<Rightarrow> 'w cache_ops list \<Rightarrow> bytes \<Rightarrow> ('w, err, bytes option) sm" where
  "cache_get faster [] key w = (Inr None, w)"
| "cache_get faster (c # cs) key w =
     (case ca_Get c key w of
        (Inl e, w') \<Rightarrow> (Inl e, w')
      | (Inr None, w') \<Rightarrow> cache_get (faster @ [c]) cs key w'
      | (Inr (Some v), w') \<Rightarrow> (Inr (Some v), write_back faster key v w'))"

definition CacheChain :: "'w cache_ops list \<Rightarrow> 'w cache_ops" where
  "CacheChain cs =
     \<lparr> ca_Get = cache_get [] cs,
       ca_Set = (\<lambda>key v. sfor (\<lambda>c. ca_Set c key v) cs),
       ca_Delete = (\<lambda>key. sfor (\<lambda>c. ca_Delete c key) cs) \<rparr>"

section \<open>The coordinator\<close>

text \<open>
  Locks with their expiry on a clock of seconds, the channels that wait for each key, and the messages in the
  channels. A channel gets one message at most, since a publication removes it from the waiters, so its
  buffer of one never blocks the sender.
\<close>

record coordinator =
  mc_now :: int
  mc_locks :: "(bytes \<times> int) list"
  mc_waiters :: "(bytes \<times> nat list) list"
  mc_mail :: "(nat \<times> bytes) list"
  mc_next :: nat

definition mc_AcquireLock :: "bytes \<Rightarrow> coordinator \<Rightarrow> bool \<times> coordinator" where
  "mc_AcquireLock key m =
     (case map_of (mc_locks m) key of
        Some expiry \<Rightarrow>
          if mc_now m < expiry then (False, m) else (True, m\<lparr>mc_locks := AList.update key (mc_now m + 15) (mc_locks m)\<rparr>)
      | None \<Rightarrow> (True, m\<lparr>mc_locks := AList.update key (mc_now m + 15) (mc_locks m)\<rparr>))"

definition mc_ReleaseLock :: "bytes \<Rightarrow> coordinator \<Rightarrow> coordinator" where
  "mc_ReleaseLock key m = m\<lparr>mc_locks := AList.delete key (mc_locks m)\<rparr>"

definition mc_RefreshLocks :: "bytes list \<Rightarrow> coordinator \<Rightarrow> coordinator" where
  "mc_RefreshLocks keys m =
     fold (\<lambda>key m. if map_of (mc_locks m) key = None then m
                   else m\<lparr>mc_locks := AList.update key (mc_now m + 15) (mc_locks m)\<rparr>) keys m"

definition mc_wait :: "bytes \<Rightarrow> coordinator \<Rightarrow> nat \<times> coordinator" where
  "mc_wait key m =
     (mc_next m, m\<lparr>mc_next := Suc (mc_next m),
        mc_waiters := AList.update key ((case map_of (mc_waiters m) key of None \<Rightarrow> [] | Some cs \<Rightarrow> cs) @ [mc_next m]) (mc_waiters m)\<rparr>)"

definition mc_publish :: "bytes \<Rightarrow> bytes list \<Rightarrow> coordinator \<Rightarrow> coordinator" where
  "mc_publish msg keys m =
     fold (\<lambda>key m. m\<lparr>mc_mail := mc_mail m @ map (\<lambda>ch. (ch, msg)) (case map_of (mc_waiters m) key of None \<Rightarrow> [] | Some cs \<Rightarrow> cs),
                     mc_waiters := AList.delete key (mc_waiters m)\<rparr>) keys m"

text \<open>One round of the cleanup goroutine.\<close>

definition mc_cleanup :: "coordinator \<Rightarrow> coordinator" where
  "mc_cleanup m = m\<lparr>mc_locks := filter (\<lambda>(key, expiry). \<not> expiry < mc_now m) (mc_locks m)\<rparr>"

section \<open>The service\<close>

record 'db ordfs_world =
  ow_db :: 'db
  ow_cache :: content_cache
  ow_coord :: coordinator

definition on_db :: "('db, 'e, 'a) sm \<Rightarrow> ('db ordfs_world, 'e, 'a) sm" where
  "on_db f w = (case f (ow_db w) of (r, d) \<Rightarrow> (r, w\<lparr>ow_db := d\<rparr>))"

definition on_cache :: "(content_cache \<Rightarrow> content_cache) \<Rightarrow> 'db ordfs_world \<Rightarrow> 'db ordfs_world" where
  "on_cache f w = w\<lparr>ow_cache := f (ow_cache w)\<rparr>"

definition on_coord :: "(coordinator \<Rightarrow> coordinator) \<Rightarrow> 'db ordfs_world \<Rightarrow> 'db ordfs_world" where
  "on_coord f w = w\<lparr>ow_coord := f (ow_coord w)\<rparr>"

definition lru_cache :: "'db ordfs_world cache_ops" where
  "lru_cache =
     \<lparr> ca_Get = (\<lambda>key w. case oc_Get key (ow_cache w) of (v, c) \<Rightarrow> (Inr v, w\<lparr>ow_cache := c\<rparr>)),
       ca_Set = (\<lambda>key v w. (Inr (), on_cache (oc_Set key v) w)),
       ca_Delete = (\<lambda>key w. (Inr (), on_cache (oc_Delete key) w)) \<rparr>"

definition origins_of_world :: "'db origin_store \<Rightarrow> 'db ordfs_world origin_store" where
  "origins_of_world O' =
     \<lparr> os_GetOrigin = (\<lambda>p w. os_GetOrigin O' p (ow_db w)), os_GetSeqAt = (\<lambda>p n w. os_GetSeqAt O' p n (ow_db w)),
       os_GetLatestSeq = (\<lambda>p w. os_GetLatestSeq O' p (ow_db w)),
       os_GetLatestRevBefore = (\<lambda>p n w. os_GetLatestRevBefore O' p n (ow_db w)),
       os_GetLatestMapBefore = (\<lambda>p n w. os_GetLatestMapBefore O' p n (ow_db w)),
       os_GetLatestParentBefore = (\<lambda>p n w. os_GetLatestParentBefore O' p n (ow_db w)),
       os_GetAllMapUpTo = (\<lambda>p n w. os_GetAllMapUpTo O' p n (ow_db w)),
       os_GetMapSeq = (\<lambda>p q w. os_GetMapSeq O' p q (ow_db w)),
       os_WriteBatch = (\<lambda>b. on_db (os_WriteBatch O' b)), os_AddEntry = (\<lambda>p e. on_db (os_AddEntry O' p e)) \<rparr>"

text \<open>
  What a waiting goroutine sees: messages in its channel and ticks of its timer, each with the world as the other
  goroutines left it, until the request's context is done.
\<close>

datatype wait_event = Message bytes | Tick

fun wait_loop :: "bytes \<Rightarrow> (wait_event \<times> 'db ordfs_world) list \<Rightarrow> ('db ordfs_world, err, unit) sm" where
  "wait_loop key [] w = (Inl (ErrOther ''context canceled''), w)"
| "wait_loop key ((Message msg, w') # evs) w = (if msg \<noteq> [] then Inr () else Inl (ErrOther ''crawl failed''), w')"
| "wait_loop key ((Tick, w') # evs) w =
     (case map_of (mc_locks (ow_coord w')) key of
        None \<Rightarrow> (Inr (), w')
      | Some expiry \<Rightarrow> if expiry < mc_now (ow_coord w') then (Inr (), w') else wait_loop key evs w')"

definition mc_WaitForCrawl :: "(nat \<Rightarrow> 'db ordfs_world \<Rightarrow> (wait_event \<times> 'db ordfs_world) list) \<Rightarrow> bytes \<Rightarrow> ('db ordfs_world, err, unit) sm" where
  "mc_WaitForCrawl others key w =
     (case mc_wait key (ow_coord w) of (ch, m) \<Rightarrow> let w1 = w\<lparr>ow_coord := m\<rparr> in wait_loop key (others ch w1) w1)"

definition ordfs_service :: "sdk \<Rightarrow> 'db engine \<Rightarrow> script_lib \<Rightarrow> 'j ordfs_json \<Rightarrow> (txid \<Rightarrow> err + otx) \<Rightarrow> (outpoint \<Rightarrow> err + txid option) \<Rightarrow>
    (nat \<Rightarrow> 'db ordfs_world \<Rightarrow> (wait_event \<times> 'db ordfs_world) list) \<Rightarrow> ('db ordfs_world, 'j) ordfs" where
  "ordfs_service K E L J loadTx getSpend others =
     \<lparr> of_sdk = K, of_script = L, of_json = J, of_LoadTx = loadTx, of_GetSpend = getSpend,
       of_origins = origins_of_world (BadgerOriginStore K E),
       of_cache_Get = ca_Get lru_cache, of_cache_Set = (\<lambda>key v w. snd (ca_Set lru_cache key v w)),
       of_AcquireLock = (\<lambda>op w. case mc_AcquireLock (op_string K op) (ow_coord w) of (b, m) \<Rightarrow> (Inr b, w\<lparr>ow_coord := m\<rparr>)),
       of_WaitForCrawl = (\<lambda>op. mc_WaitForCrawl others (op_string K op)),
       of_PublishComplete = (\<lambda>ops msg. on_coord (mc_publish msg (map (op_string K) ops))),
       of_PublishFailure = (\<lambda>ops. on_coord (mc_publish [] (map (op_string K) ops))),
       of_ReleaseLock = (\<lambda>op. on_coord (mc_ReleaseLock (op_string K op))) \<rparr>"

section \<open>The service keeps the contract\<close>

text \<open>No crawl holds an unexpired lock of an outpoint of the set.\<close>

definition unlocked :: "sdk \<Rightarrow> outpoint set \<Rightarrow> 'db ordfs_world \<Rightarrow> bool" where
  "unlocked K S w \<longleftrightarrow> (\<forall>p\<in>S. \<forall>expiry.
     map_of (mc_locks (ow_coord w)) (op_string K p) = Some expiry \<longrightarrow> expiry \<le> mc_now (ow_coord w))"

text \<open>The other goroutines only let the index grow.\<close>

definition fair_others :: "('db ordfs_world, 'j) ordfs \<Rightarrow> ('db ordfs_world \<Rightarrow> bool) \<Rightarrow> ('db ordfs_world \<Rightarrow> origins) \<Rightarrow>
    (nat \<Rightarrow> 'db ordfs_world \<Rightarrow> (wait_event \<times> 'db ordfs_world) list) \<Rightarrow> bool" where
  "fair_others F ok view others \<longleftrightarrow>
     (\<forall>ch w. ok w \<longrightarrow> good_view F (view w) \<longrightarrow> (\<forall>ev\<in>set (others ch w). grown F ok view w (snd ev)))"

locale ordfs_service_laws = badger_origin_store E K for E :: "'db engine" and K :: sdk +
  fixes L :: script_lib and J :: "'j ordfs_json" and loadTx getSpend others
  assumes ledger: "sound_ledger (ordfs_service K E L J loadTx getSpend others)" and scripts: "read_laws L"
    and strings: "inj_on (op_string K) {p. wf_op p}"
    and fair: "fair_others (ordfs_service K E L J loadTx getSpend others) (\<lambda>w. origins_ok K (eview E (ow_db w)))
      (\<lambda>w. badger_origins K (eview E (ow_db w))) others"
begin

abbreviation F :: "('db ordfs_world, 'j) ordfs" where
  "F \<equiv> ordfs_service K E L J loadTx getSpend others"

lemma same_db: "ow_db w' = ow_db w \<Longrightarrow> origins_ok K (eview E (ow_db w)) \<Longrightarrow> good_view F (badger_origins K (eview E (ow_db w))) \<Longrightarrow>
    grown F (\<lambda>w. origins_ok K (eview E (ow_db w))) (\<lambda>w. badger_origins K (eview E (ow_db w))) w w'"
  by (simp add: grown_def)

end

lemma wait_result: "snd (wait_loop key evs w) \<in> insert w (snd ` set evs)"
  by (induction key evs w rule: wait_loop.induct) (auto split: option.splits)

lemma on_db_simps: "f (ow_db w) = (r, d) \<Longrightarrow> on_db f w = (r, w\<lparr>ow_db := d\<rparr>)"
  by (simp add: on_db_def)

sublocale ordfs_service_laws \<subseteq> service: ordfs_laws "ordfs_service K E L J loadTx getSpend others"
  "\<lambda>w. origins_ok K (eview E (ow_db w))" "\<lambda>w. badger_origins K (eview E (ow_db w))" "unlocked K"
proof
  fix S T :: "outpoint set" and w :: "'db ordfs_world" and op k v
  assume f: "unlocked K S w"
  show "unlocked K T w" if "T \<subseteq> S" using f that unfolding unlocked_def by blast
  show "unlocked K S (of_cache_Set F k v w)"
  proof -
    have "ow_coord (of_cache_Set F k v w) = ow_coord w" by (simp add: ordfs_service_def lru_cache_def on_cache_def)
    then show ?thesis using f by (simp only: unlocked_def)
  qed
  show "fst (of_AcquireLock F op w) = Inr True \<and> unlocked K (S - {op}) (snd (of_AcquireLock F op w))" if "op \<in> S" "Ball S wf_op"
  proof -
    have a: "mc_AcquireLock (op_string K op) (ow_coord w) =
        (True, (ow_coord w)\<lparr>mc_locks := AList.update (op_string K op) (mc_now (ow_coord w) + 15) (mc_locks (ow_coord w))\<rparr>)"
      using f that(1) unfolding unlocked_def by (auto simp: mc_AcquireLock_def split: option.splits)
    have "op_string K p \<noteq> op_string K op" if "p \<in> S - {op}" for p
      using that \<open>op \<in> S\<close> \<open>Ball S wf_op\<close> strings by (auto dest: inj_onD)
    then show ?thesis using f by (auto simp: ordfs_service_def a unlocked_def update_conv')
  qed
next
  fix w :: "'db ordfs_world" and o1 p n e es
  assume ok: "origins_ok K (eview E (ow_db w))"
  note defs = ordfs_service_def origins_of_world_def
  show "os_GetOrigin (of_origins F) p w =
      Inr (map_option (\<lambda>(o1, n). \<lparr>oi_Origin = o1, oi_Seq = n\<rparr>) (og_org (badger_origins K (eview E (ow_db w))) p))" if "wf_op p"
    using store.GetOrigin_law[OF ok that] by (simp add: defs)
  show "wf_op o1" if "og_org (badger_origins K (eview E (ow_db w))) p = Some (o1, n)" by (rule store.org_wf[OF ok that])
  show "wf_op p" if "og_seq (badger_origins K (eview E (ow_db w))) o1 n = Some p" by (rule store.seq_wf[OF ok that])
  show "os_GetSeqAt (of_origins F) o1 n w = Inr (og_seq (badger_origins K (eview E (ow_db w))) o1 n)" if "wf_op o1"
    using store.GetSeqAt_law[OF ok that] by (simp add: defs)
  show "os_GetLatestSeq (of_origins F) o1 w = Inr (case latest (og_seq (badger_origins K (eview E (ow_db w))) o1) (- 1) of
      None \<Rightarrow> (None, 0) | Some n \<Rightarrow> (og_seq (badger_origins K (eview E (ow_db w))) o1 n, n))"
    if "wf_op o1" "\<forall>n. og_seq (badger_origins K (eview E (ow_db w))) o1 n \<noteq> None \<longrightarrow> n < 0xff000000"
    using store.LatestSeq_law[OF ok that] by (simp add: defs)
  show "os_GetLatestRevBefore (of_origins F) o1 n w = Inr (Option.bind (latest (og_rev (badger_origins K (eview E (ow_db w))) o1) n)
      (og_rev (badger_origins K (eview E (ow_db w))) o1))" if "wf_op o1"
    using store.RevBefore_law[OF ok that] by (simp add: defs)
  show "os_GetLatestMapBefore (of_origins F) o1 n w = Inr (Option.bind (latest (og_map (badger_origins K (eview E (ow_db w))) o1) n)
      (og_map (badger_origins K (eview E (ow_db w))) o1))" if "wf_op o1"
    using store.MapBefore_law[OF ok that] by (simp add: defs)
  show "os_GetLatestParentBefore (of_origins F) o1 n w = Inr (Option.bind (latest (og_par (badger_origins K (eview E (ow_db w))) o1) n)
      (og_par (badger_origins K (eview E (ow_db w))) o1))" if "wf_op o1"
    using store.ParBefore_law[OF ok that] by (simp add: defs)
  show "os_GetAllMapUpTo (of_origins F) o1 n w = Inr (map (og_map (badger_origins K (eview E (ow_db w))) o1)
      (places (og_map (badger_origins K (eview E (ow_db w))) o1) n))" if "wf_op o1"
    using store.MapUpTo_law[OF ok that] by (simp add: defs)
  show "os_GetMapSeq (of_origins F) o1 p w = (case filter (\<lambda>m. og_map (badger_origins K (eview E (ow_db w))) o1 m = Some p)
      (places (og_map (badger_origins K (eview E (ow_db w))) o1) (- 1)) of
        [] \<Rightarrow> Inl (ErrOther ''map entry not found for outpoint'') | m # ms \<Rightarrow> Inr m)" if "wf_op o1" "wf_op p"
    using store.MapSeq_law[OF ok that] by (simp add: defs)
  show "\<exists>s'. os_AddEntry (of_origins F) o1 e w = (Inr (), s') \<and> origins_ok K (eview E (ow_db s')) \<and>
      badger_origins K (eview E (ow_db s')) = put_entry o1 e (badger_origins K (eview E (ow_db w)))" if "wf_op o1" "wf_op (oe_Outpoint e)"
    using store.Add_law[OF ok that] by (auto simp: defs on_db_simps)
  show "\<exists>s'. os_WriteBatch (of_origins F) \<lparr>ob_Origin = o1, ob_Entries = es\<rparr> w = (Inr (), s') \<and> origins_ok K (eview E (ow_db s')) \<and>
      badger_origins K (eview E (ow_db s')) = fold (put_entry o1) es (badger_origins K (eview E (ow_db w)))"
    if "wf_op o1" "\<forall>e\<in>set es. wf_op (oe_Outpoint e)"
    using store.Batch_law[OF ok that] by (auto simp: defs on_db_simps)
  fix k v op ops b
  assume g: "good_view F (badger_origins K (eview E (ow_db w)))"
  let ?later = "grown F (\<lambda>w. origins_ok K (eview E (ow_db w))) (\<lambda>w. badger_origins K (eview E (ow_db w)))"
  note same = same_db[OF _ ok g]
  show "?later w (of_cache_Set F k v w)"
    by (rule same) (simp add: ordfs_service_def lru_cache_def on_cache_def)
  show "?later w (snd (of_AcquireLock F op w))"
    by (rule same) (simp add: ordfs_service_def case_prod_beta)
  show "?later w (of_PublishComplete F ops b w)" "?later w (of_PublishFailure F ops w)" "?later w (of_ReleaseLock F op w)"
    by (rule same, simp add: ordfs_service_def on_coord_def)+
  show "?later w (snd (of_WaitForCrawl F op w))"
  proof -
    obtain ch m where m: "mc_wait (op_string K op) (ow_coord w) = (ch, m)" by fastforce
    let ?w = "w\<lparr>ow_coord := m\<rparr>"
    have r: "snd (of_WaitForCrawl F op w) = snd (wait_loop (op_string K op) (others ch ?w) ?w)"
      using m by (simp add: ordfs_service_def mc_WaitForCrawl_def Let_def)
    have "?later ?w (snd ev)" if "ev \<in> set (others ch ?w)" for ev
      using fair ok g that unfolding fair_others_def by simp
    then show ?thesis unfolding r using wait_result[of "op_string K op" "others ch ?w" ?w] same[of ?w]
        grown_trans[OF same[of ?w]] by auto
  qed
qed (use ledger scripts in \<open>simp_all add: ordfs_service_def\<close>)

text \<open>A true index, as the properties name it, and what the contract gives for the service.\<close>

definition index_true :: "sdk \<Rightarrow> 'db engine \<Rightarrow> ('db ordfs_world, 'j) ordfs \<Rightarrow> 'db ordfs_world \<Rightarrow> bool" where
  "index_true K E F w \<longleftrightarrow> origins_ok K (eview E (ow_db w)) \<and> good_view F (badger_origins K (eview E (ow_db w)))"

context ordfs_service_laws
begin

lemmas service_laws = service.ordfs_laws_axioms

end

section \<open>The memory cache is a bounded list in order of use\<close>

definition oc_ok :: "content_cache \<Rightarrow> bool" where
  "oc_ok c \<longleftrightarrow> distinct (map fst (oc_lru c)) \<and> distinct (map (fst \<circ> snd) (oc_lru c)) \<and> (\<forall>x\<in>set (oc_lru c). fst x < oc_next c) \<and>
     (\<forall>k e. oc_items c k = Some e \<longleftrightarrow> (\<exists>v. (e, k, v) \<in> set (oc_lru c)))"

definition oc_abs :: "content_cache \<Rightarrow> (bytes \<times> bytes) list" where
  "oc_abs c = map snd (oc_lru c)"

lemma item_elem:
  assumes "oc_ok c" "oc_items c k = Some e" "x \<in> set (oc_lru c)"
  shows "fst x = e \<longleftrightarrow> fst (snd x) = k"
proof -
  obtain v where v: "(e, k, v) \<in> set (oc_lru c)" using assms(1,2) unfolding oc_ok_def by blast
  have i: "inj_on fst (set (oc_lru c))" "inj_on (fst \<circ> snd) (set (oc_lru c))"
    using assms(1) unfolding oc_ok_def distinct_map by blast+
  have "fst x = e \<Longrightarrow> x = (e, k, v)" using inj_onD[OF i(1) _ assms(3) v] by simp
  moreover have "fst (snd x) = k \<Longrightarrow> x = (e, k, v)" using inj_onD[OF i(2) _ assms(3) v] by simp
  ultimately show ?thesis by (metis fst_conv snd_conv)
qed

lemma item_parts:
  assumes "oc_ok c" "oc_items c k = Some e"
  obtains v where "map_of (oc_lru c) e = Some (k, v)" "map_of (oc_abs c) k = Some v"
    "filter (\<lambda>x. fst x = e) (oc_lru c) = [(e, k, v)]" "map snd (filter (\<lambda>x. fst x \<noteq> e) (oc_lru c)) = filter (\<lambda>x. fst x \<noteq> k) (oc_abs c)"
proof -
  obtain v where v: "(e, k, v) \<in> set (oc_lru c)" using assms unfolding oc_ok_def by blast
  have d: "distinct (map fst (oc_lru c))" "distinct (map fst (oc_abs c))" using assms(1) by (simp_all add: oc_ok_def oc_abs_def)
  have m: "map_of (oc_lru c) e = Some (k, v)" using v d(1) by simp
  have "(k, v) \<in> set (oc_abs c)" using v by (force simp: oc_abs_def)
  then have a: "map_of (oc_abs c) k = Some v" using d(2) by simp
  have one: "filter (\<lambda>x. fst x = e) xs = [(e, y)]" if "distinct (map fst xs)" "(e, y) \<in> set xs" for xs :: "(nat \<times> bytes \<times> bytes) list" and y
    using that by (induction xs) (force intro!: filter_False)+
  have "filter (\<lambda>x. fst x \<noteq> e) (oc_lru c) = filter (\<lambda>x. fst (snd x) \<noteq> k) (oc_lru c)"
    by (rule filter_cong[OF refl]) (simp add: item_elem[OF assms])
  then have "map snd (filter (\<lambda>x. fst x \<noteq> e) (oc_lru c)) = filter (\<lambda>x. fst x \<noteq> k) (oc_abs c)"
    by (simp add: oc_abs_def filter_map comp_def)
  then show thesis using that m a one[OF d(1) v] by blast
qed

lemma item_None: "oc_ok c \<Longrightarrow> oc_items c k = None \<longleftrightarrow> map_of (oc_abs c) k = None"
proof -
  assume ok: "oc_ok c"
  have "oc_items c k \<noteq> None \<longleftrightarrow> (\<exists>e v. (e, k, v) \<in> set (oc_lru c))" using ok unfolding oc_ok_def by (metis not_None_eq)
  also have "\<dots> \<longleftrightarrow> k \<in> fst ` set (oc_abs c)" by (force simp: oc_abs_def)
  finally show ?thesis by (auto simp: map_of_eq_None_iff)
qed

lemma oc_Get_law: "oc_ok c \<Longrightarrow> oc_ok (snd (oc_Get k c)) \<and> fst (oc_Get k c) = map_of (oc_abs c) k \<and>
    oc_abs (snd (oc_Get k c)) = (case map_of (oc_abs c) k of None \<Rightarrow> oc_abs c | Some v \<Rightarrow> recent k v (oc_abs c))"
proof (cases "oc_items c k")
  case None
  assume "oc_ok c"
  then show ?thesis using None item_None[of c k] by (simp add: oc_Get_def)
next
  case (Some e)
  assume ok: "oc_ok c"
  obtain v where v: "map_of (oc_lru c) e = Some (k, v)" "map_of (oc_abs c) k = Some v" "filter (\<lambda>x. fst x = e) (oc_lru c) = [(e, k, v)]"
    "map snd (filter (\<lambda>x. fst x \<noteq> e) (oc_lru c)) = filter (\<lambda>x. fst x \<noteq> k) (oc_abs c)" by (rule item_parts[OF ok Some])
  have "oc_abs (c\<lparr>oc_lru := list_MoveToFront e (oc_lru c)\<rparr>) = recent k v (oc_abs c)"
    using v(3,4) by (simp add: oc_abs_def[of "c\<lparr>oc_lru := _\<rparr>"] list_MoveToFront_def recent_def)
  moreover have "oc_ok (c\<lparr>oc_lru := list_MoveToFront e (oc_lru c)\<rparr>)"
    using ok unfolding oc_ok_def by (simp add: MoveToFront_perm)
  ultimately show ?thesis using Some v by (simp add: oc_Get_def)
qed

lemma oc_Delete_law: "oc_ok c \<Longrightarrow> oc_ok (oc_Delete k c) \<and> oc_abs (oc_Delete k c) = filter (\<lambda>x. fst x \<noteq> k) (oc_abs c)"
proof (cases "oc_items c k")
  case None
  assume ok: "oc_ok c"
  then have "k \<notin> fst ` set (oc_abs c)" using None item_None[OF ok, of k] by (simp add: map_of_eq_None_iff)
  then have "filter (\<lambda>x. fst x \<noteq> k) (oc_abs c) = oc_abs c" by (auto intro!: filter_True)
  then show ?thesis using None ok by (simp add: oc_Delete_def)
next
  case (Some e)
  assume ok: "oc_ok c"
  obtain v where v: "map snd (filter (\<lambda>x. fst x \<noteq> e) (oc_lru c)) = filter (\<lambda>x. fst x \<noteq> k) (oc_abs c)" by (rule item_parts[OF ok Some])
  let ?c = "c\<lparr>oc_items := (oc_items c)(k := None), oc_lru := list_Remove e (oc_lru c)\<rparr>"
  have "((oc_items c)(k := None)) k' = Some e' \<longleftrightarrow> (\<exists>v. (e', k', v) \<in> set (list_Remove e (oc_lru c)))" for k' e'
  proof -
    have "(e', k', v) \<in> set (list_Remove e (oc_lru c)) \<longleftrightarrow> (e', k', v) \<in> set (oc_lru c) \<and> k' \<noteq> k" for v
      using item_elem[OF ok Some, of "(e', k', v)"] by (auto simp: list_Remove_def)
    then show ?thesis using ok by (cases "k' = k") (simp_all add: oc_ok_def)
  qed
  then have "oc_ok ?c" using ok unfolding oc_ok_def by (auto simp: list_Remove_def intro: distinct_map_filter)
  moreover have "oc_abs ?c = filter (\<lambda>x. fst x \<noteq> k) (oc_abs c)" unfolding oc_abs_def[of ?c] using v by (simp add: list_Remove_def)
  ultimately show ?thesis using Some by (simp add: oc_Delete_def)
qed

lemma back_last:
  assumes "oc_ok c" "list_Back (oc_lru c) = Some (e, k, v)"
  shows "oc_items c k = Some e" "filter (\<lambda>x. fst x \<noteq> k) (oc_abs c) = butlast (oc_abs c)" "oc_abs c \<noteq> []"
proof -
  have l: "oc_lru c \<noteq> []" "last (oc_lru c) = (e, k, v)" using assms(2) by (auto simp: list_Back_def split: if_splits)
  then have "(e, k, v) \<in> set (oc_lru c)" by (metis last_in_set)
  then show "oc_items c k = Some e" using assms(1) unfolding oc_ok_def by blast
  show ne: "oc_abs c \<noteq> []" using l(1) by (simp add: oc_abs_def)
  have last: "fst (last (oc_abs c)) = k" using l by (simp add: oc_abs_def last_map)
  have eq: "oc_abs c = butlast (oc_abs c) @ [last (oc_abs c)]" using ne by simp
  have "distinct (map fst (oc_abs c))" using assms(1) by (simp add: oc_ok_def oc_abs_def)
  then have "distinct (map fst (butlast (oc_abs c) @ [last (oc_abs c)]))" using eq by simp
  then have "filter (\<lambda>x. fst x \<noteq> k) (butlast (oc_abs c)) = butlast (oc_abs c)" using last by (intro filter_True) (auto simp: image_iff)
  then show "filter (\<lambda>x. fst x \<noteq> k) (oc_abs c) = butlast (oc_abs c)"
    using last by (subst eq) (simp del: append_butlast_last_id)
qed

lemma oc_evict_law:
  "oc_ok c \<Longrightarrow> oc_ok (oc_evict c) \<and> oc_maxSize (oc_evict c) = oc_maxSize c \<and> oc_abs (oc_evict c) = take (nat (oc_maxSize c)) (oc_abs c)"
proof (induction c rule: oc_evict.induct)
  case (1 c)
  have len: "length (oc_abs c) = length (oc_lru c)" by (simp add: oc_abs_def)
  show ?case
  proof (cases "oc_maxSize c < int (length (oc_lru c)) \<and> oc_lru c \<noteq> []")
    case True
    then obtain e k v where b: "list_Back (oc_lru c) = Some (e, k, v)" by (cases "last (oc_lru c)") (auto simp: list_Back_def)
    note bl = back_last[OF "1.prems" b]
    let ?c = "c\<lparr>oc_items := (oc_items c)(k := None), oc_lru := list_Remove e (oc_lru c)\<rparr>"
    have d: "?c = oc_Delete k c" using bl(1) by (simp add: oc_Delete_def)
    have ok: "oc_ok ?c" "oc_abs ?c = butlast (oc_abs c)" using oc_Delete_law[OF "1.prems", of k] bl(2) unfolding d by auto
    have "nat (oc_maxSize c) < length (oc_abs c)" using True len by (cases "oc_abs c") auto
    then have "take (nat (oc_maxSize c)) (butlast (oc_abs c)) = take (nat (oc_maxSize c)) (oc_abs c)" by (simp add: take_butlast)
    moreover have "oc_evict c = oc_evict ?c" using True b by (subst oc_evict.simps) simp
    moreover have "oc_maxSize c < int (length (oc_lru c))" using True by blast
    note IH = "1.IH"[OF this b refl refl ok(1)]
    ultimately show ?thesis using ok(2) IH by simp
  next
    case False
    then have "oc_evict c = c" by (subst oc_evict.simps) (auto simp: list_Back_def)
    moreover have "length (oc_abs c) \<le> nat (oc_maxSize c)" using False len by auto
    ultimately show ?thesis using "1.prems" by simp
  qed
qed

lemma oc_Set_law:
  assumes "oc_ok c" "length (oc_abs c) \<le> nat (oc_maxSize c)"
  shows "oc_ok (oc_Set k v c) \<and> oc_maxSize (oc_Set k v c) = oc_maxSize c \<and> oc_abs (oc_Set k v c) = take (nat (oc_maxSize c)) (recent k v (oc_abs c))"
proof (cases "oc_items c k")
  case None
  let ?c = "c\<lparr>oc_lru := (oc_next c, k, v) # oc_lru c, oc_items := (oc_items c)(k \<mapsto> oc_next c), oc_next := Suc (oc_next c)\<rparr>"
  have nk: "map_of (oc_abs c) k = None" using item_None[OF assms(1)] None by blast
  then have "k \<notin> fst ` set (oc_abs c)" by (simp add: map_of_eq_None_iff)
  then have fk: "filter (\<lambda>x. fst x \<noteq> k) (oc_abs c) = oc_abs c" by (auto intro!: filter_True)
  have fresh: "oc_next c \<notin> fst ` set (oc_lru c)" using assms(1) unfolding oc_ok_def by fastforce
  have nok: "(e', k, v') \<notin> set (oc_lru c)" for e' v'
  proof
    assume "(e', k, v') \<in> set (oc_lru c)"
    then have "oc_items c k = Some e'" using assms(1) unfolding oc_ok_def by blast
    then show False using None by simp
  qed
  then have newk: "k \<notin> (fst \<circ> snd) ` set (oc_lru c)" by force
  have items: "((oc_items c)(k \<mapsto> oc_next c)) k' = Some e' \<longleftrightarrow> (\<exists>v'. (e', k', v') \<in> set ((oc_next c, k, v) # oc_lru c))" for k' e'
    using nok assms(1) by (cases "k' = k") (auto simp: oc_ok_def)
  have "\<forall>x\<in>set ((oc_next c, k, v) # oc_lru c). fst x < Suc (oc_next c)"
    using assms(1) unfolding oc_ok_def by (auto intro: less_SucI)
  then have "oc_ok ?c" using assms(1) fresh newk items unfolding oc_ok_def by simp
  from oc_evict_law[OF this] show ?thesis using None fk by (simp add: oc_Set_def oc_abs_def[of ?c] recent_def oc_abs_def[of c])
next
  case (Some e)
  obtain v0 where v0: "map_of (oc_abs c) k = Some v0" "filter (\<lambda>x. fst x = e) (oc_lru c) = [(e, k, v0)]"
    "map snd (filter (\<lambda>x. fst x \<noteq> e) (oc_lru c)) = filter (\<lambda>x. fst x \<noteq> k) (oc_abs c)" by (rule item_parts[OF assms(1) Some])
  let ?f = "\<lambda>x. if fst x = e then (e, fst (snd x), v) else x"
  let ?l = "map ?f (list_MoveToFront e (oc_lru c))"
  have l: "?l = (e, k, v) # filter (\<lambda>x. fst x \<noteq> e) (oc_lru c)"
    unfolding list_MoveToFront_def using v0(2) by (simp, intro map_idI) simp
  have keys: "map fst ?l = map fst (list_MoveToFront e (oc_lru c))" "map (fst \<circ> snd) ?l = map (fst \<circ> snd) (list_MoveToFront e (oc_lru c))"
    by (auto simp: comp_def)
  have "(\<exists>v'. (e', k', v') \<in> set ?l) \<longleftrightarrow> (\<exists>v'. (e', k', v') \<in> set (oc_lru c))" for e' k'
  proof (cases "e' = e")
    case True
    have "(e, k, v0) \<in> set (filter (\<lambda>x. fst x = e) (oc_lru c))" unfolding v0(2) by simp
    then have "(\<exists>v'. (e, k', v') \<in> set (oc_lru c)) \<longleftrightarrow> k' = k" using item_elem[OF assms(1) Some, of "(e, k', _)"] by auto
    then show ?thesis using True unfolding l by auto
  next
    case False
    then show ?thesis unfolding l by auto
  qed
  moreover have "fst ` set ?l = fst ` set (oc_lru c)" using keys(1) by (metis list.set_map MoveToFront_perm(1))
  then have "\<forall>x\<in>set ?l. fst x < oc_next c" using assms(1) unfolding oc_ok_def by (metis (no_types, lifting) imageE imageI)
  ultimately have "oc_ok (c\<lparr>oc_lru := ?l\<rparr>)"
    using assms(1) unfolding oc_ok_def by (simp del: map_map set_map list.set_map add: keys MoveToFront_perm)
  moreover have "oc_abs (c\<lparr>oc_lru := ?l\<rparr>) = recent k v (oc_abs c)"
    unfolding l using v0(3) by (simp add: oc_abs_def[of "c\<lparr>oc_lru := _\<rparr>"] recent_def)
  moreover have "length (recent k v (oc_abs c)) = length (oc_abs c)"
    using assms(1) v0(1) by (intro recent_length) (simp_all add: oc_ok_def oc_abs_def)
  ultimately show ?thesis using Some assms(2) by (simp add: oc_Set_def)
qed

end
