(* ===== verification/OrdfsProps.thy ===== *)
theory OrdfsProps
  imports OrdfsWorld TemplateProps
begin

text \<open>The properties of the ordinal file system, over the Badger origin store.\<close>

section \<open>A concrete script library\<close>

text \<open>One byte is one operation; two bytes stand for \<open>OP_RETURN\<close> and a push of the B prefix.\<close>

definition tiny_read :: "bytes \<Rightarrow> nat \<Rightarrow> chunk option \<times> nat" where
  "tiny_read scr pos =
     (if length scr \<le> pos then (None, pos)
      else (Some (if scr ! pos = CHR ''R'' then \<lparr>ck_op = OP_RETURN, ck_data = []\<rparr>
                  else if scr ! pos = CHR ''B'' then \<lparr>ck_op = 34, ck_data = BPrefix\<rparr>
                  else \<lparr>ck_op = OP_DATA1, ck_data = [scr ! pos]\<rparr>), Suc pos))"

definition tiny_lib :: script_lib where
  "tiny_lib = demo_lib\<lparr>read_op := tiny_read\<rparr>"

lemma tiny_laws: "read_laws tiny_lib"
  by (auto simp: read_laws_def tiny_lib_def tiny_read_def split: if_splits)

lemma chain_op_neq: "OP_DATA1 \<noteq> OP_RETURN" "OP_RETURN \<noteq> 34" "OP_DATA1 \<noteq> OP_DATA3" "OP_RETURN \<noteq> OP_DATA3" "(34::nat) \<noteq> OP_DATA3" "(34 :: nat) \<noteq> OP_DATA1" "OP_RETURN \<noteq> OP_DATA1"
  "MapPrefix \<noteq> BPrefix" "BPrefix \<noteq> MapPrefix"
  by (simp_all add: OP_DATA1_def OP_RETURN_def OP_DATA3_def MapPrefix_def BPrefix_def)

lemma six: "Suc (length ''RBhtx'') = Suc (Suc (Suc (Suc (Suc (Suc 0)))))" by simp

lemma tiny_insc: "inscription_Decode demo_sdk tiny_lib ''RBhtx'' = Inr None"
  unfolding inscription_Decode_def six
  by (simp add: tiny_lib_def tiny_read_def ord_marker_def chain_op_neq chain_op_neq[symmetric])

lemma tiny_ret: "findReturn tiny_lib ''RBhtx'' 0 = Inr (Some 0)"
  unfolding findReturn_def six by (simp add: tiny_lib_def tiny_read_def is_return_def)

lemma tiny_pipe: "findPipe tiny_lib ''RBhtx'' (Suc 0) = Inr None"
  unfolding findPipe_def six by (simp add: tiny_lib_def tiny_read_def is_pipe_def chain_op_neq)

lemma tiny_bitcom: "bitcom_Decode tiny_lib (Some ''RBhtx'') = Inr (Some \<lparr>bm_Protocols = [\<lparr>bp_Protocol = BPrefix, bp_Script = Some ''htx'', bp_Pos = 1\<rparr>], bm_ScriptPrefix = []\<rparr>)"
  unfolding bitcom_Decode_def option.case tiny_ret six
  by (simp add: tiny_pipe) (simp add: tiny_lib_def tiny_read_def)

lemma tiny_scan: "scan_script demo_sdk tiny_lib True ''RBhtx'' =
    Inr \<lparr>fd_type = ''t'', fd_content = Some ''h'', fd_length = 1, fd_map = None, fd_parent = None\<rparr>"
  unfolding scan_script_def tiny_insc tiny_bitcom
  by (simp add: scan_protocol_def chain_op_neq DecodeB_def scan_inscription_def) (simp add: tiny_lib_def tiny_read_def or_octets_def)
section \<open>A concrete chain\<close>

text \<open>Two transactions: the first creates an ordinal with content from no inputs, the second moves it.\<close>

definition id_of :: "char \<Rightarrow> txid" where
  "id_of c = replicate 31 CHR 0x00 @ [c]"

definition chain_op :: "char \<Rightarrow> outpoint" where
  "chain_op c = \<lparr>op_txid = id_of c, op_index = 0\<rparr>"

definition chain_load :: "txid \<Rightarrow> err + otx" where
  "chain_load t =
     (if t = id_of CHR ''a'' then Inr \<lparr>ot_TxID = t, ot_Inputs = [], ot_Outputs = [(1, ''RBhtx'')]\<rparr>
      else if t = id_of CHR ''b'' then Inr \<lparr>ot_TxID = t, ot_Inputs = [in_of (chain_op CHR ''a'')], ot_Outputs = [(1, [])]\<rparr>
      else Inl (ErrOther ''not found''))"

definition chain_spend :: "outpoint \<Rightarrow> err + txid option" where
  "chain_spend op = Inr (if op = chain_op CHR ''a'' then Some (id_of CHR ''b'') else None)"

definition chain_json :: "unit ordfs_json" where
  "chain_json = \<lparr>parse_object = (\<lambda>b. None), parse_array = (\<lambda>b. None), marshal_any = (\<lambda>m. None), unmarshal_any = (\<lambda>b. None),
     marshal_entry = (\<lambda>e. None), unmarshal_entry = (\<lambda>b. None)\<rparr>"

text \<open>While a crawl waits, the timer ticks once.\<close>

definition chain_others :: "nat \<Rightarrow> mem_db ordfs_world \<Rightarrow> (wait_event \<times> mem_db ordfs_world) list" where
  "chain_others ch w = [(Tick, w)]"

abbreviation chain_service :: "(mem_db ordfs_world, unit) ordfs" where
  "chain_service \<equiv> ordfs_service demo_sdk mem_engine tiny_lib chain_json chain_load chain_spend chain_others"

definition chain_world :: "mem_db ordfs_world" where
  "chain_world = \<lparr>ow_db = [], ow_cache = NewLRUCache 10,
     ow_coord = \<lparr>mc_now = 0, mc_locks = [], mc_waiters = [], mc_mail = [], mc_next = 0\<rparr>\<rparr>"

lemma chain_fields [simp]:
  "of_LoadTx chain_service = chain_load" "of_GetSpend chain_service = chain_spend" "of_script chain_service = tiny_lib" "of_sdk chain_service = demo_sdk"
  "of_json chain_service = chain_json"
  by (simp_all add: ordfs_service_def)

lemma id_of_simps [simp]: "length (id_of c) = 32" "id_of c = id_of d \<longleftrightarrow> c = d" "chain_op c = chain_op d \<longleftrightarrow> c = d"
  "wf_op (chain_op c)" "op_txid (chain_op c) = id_of c" "op_index (chain_op c) = 0"
  by (simp_all add: id_of_def chain_op_def wf_op_def)

lemma chain_src: "src chain_service (in_of (chain_op CHR ''a'')) = Some 1"
  by (simp add: src_def in_of_def loadOutput_def chain_load_def)

lemma chain_ledger: "sound_ledger chain_service"
proof -
  have "sound_tx chain_service t tx" if "chain_load t = Inr tx" for t tx
    using that chain_src by (auto simp: chain_load_def sound_tx_def List.map_filter_def total_def in_of_def split: if_splits)
  moreover have "t = u" if "chain_load t = Inr tx" "chain_load u = Inr ux" "i \<in> set (ot_Inputs tx)" "i \<in> set (ot_Inputs ux)" for t u tx ux i
    using that by (auto simp: chain_load_def split: if_splits)
  ultimately show ?thesis unfolding sound_ledger_def by (metis chain_fields(1))
qed

lemma demo_strings: "inj_on (op_string demo_sdk) {p. wf_op p}"
proof (rule inj_onI)
  fix a b assume "a \<in> {p. wf_op p}" "b \<in> {p. wf_op p}" "op_string demo_sdk a = op_string demo_sdk b"
  then show "a = b" using demo.op_bytes_inj[of a b] by (simp add: demo_sdk_def)
qed

interpretation chain: ordfs_service_laws mem_engine demo_sdk tiny_lib chain_json chain_load chain_spend chain_others
  by unfold_locales (use chain_ledger tiny_laws demo_strings in \<open>auto simp: fair_others_def chain_others_def grown_def\<close>)

lemma chain_parsed:
  "parsed_value chain_service (1, ''RBhtx'') True = Inr \<lparr>rs_Outpoint = None, rs_Origin = None, rs_ContentType = ''t'',
     rs_Content = Some ''h'', rs_ContentLength = 1, rs_Map = None, rs_Sequence = 0, rs_Parent = None\<rparr>"
  "parsed_value chain_service (1, []) True = Inr \<lparr>rs_Outpoint = None, rs_Origin = None, rs_ContentType = [],
     rs_Content = None, rs_ContentLength = 0, rs_Map = None, rs_Sequence = 0, rs_Parent = None\<rparr>"
proof -
  have "scan_script demo_sdk tiny_lib True [] = Inr \<lparr>fd_type = [], fd_content = None, fd_length = 0, fd_map = None, fd_parent = None\<rparr>"
    by (simp add: scan_script_def inscription_Decode_def bitcom_Decode_def findReturn_def scan_inscription_def)
  then show "parsed_value chain_service (1, []) True = Inr \<lparr>rs_Outpoint = None, rs_Origin = None, rs_ContentType = [],
     rs_Content = None, rs_ContentLength = 0, rs_Map = None, rs_Sequence = 0, rs_Parent = None\<rparr>"
    by (simp add: parsed_value_def of_fault_def response_of_def)
qed (simp add: parsed_value_def of_fault_def response_of_def tiny_scan)

lemma chain_visit:
  "visit chain_service (chain_op CHR ''a'') = Inr (\<lparr>rs_Outpoint = None, rs_Origin = None, rs_ContentType = ''t'',
     rs_Content = Some ''h'', rs_ContentLength = 1, rs_Map = None, rs_Sequence = 0, rs_Parent = None\<rparr>, None)"
  "visit chain_service (chain_op CHR ''b'') = Inr (\<lparr>rs_Outpoint = None, rs_Origin = None, rs_ContentType = [],
     rs_Content = None, rs_ContentLength = 0, rs_Map = None, rs_Sequence = 0, rs_Parent = None\<rparr>, Some (chain_op CHR ''a''))"
proof -
  have "loadOutput chain_service \<lparr>op_txid = id_of CHR ''a'', op_index = 0\<rparr> = Inr (1, ''RBhtx'')" by (simp add: loadOutput_def chain_load_def)
  then show "visit chain_service (chain_op CHR ''b'') = Inr (\<lparr>rs_Outpoint = None, rs_Origin = None, rs_ContentType = [],
     rs_Content = None, rs_ContentLength = 0, rs_Map = None, rs_Sequence = 0, rs_Parent = None\<rparr>, Some (chain_op CHR ''a''))"
    by (simp add: visit_def chain_load_def calculatePreviousOrdinalInput_def in_of_def chain_parsed)
qed (simp add: visit_def chain_load_def calculatePreviousOrdinalInput_def chain_parsed)

lemma chain_rev:
  "rev_at chain_service (chain_op CHR ''a'') = Some \<lparr>rv_Outpoint = Some (chain_op CHR ''a''), rv_ContentType = ''t'', rv_ContentLength = 1\<rparr>"
  "rev_at chain_service (chain_op CHR ''b'') = None"
  by (simp_all add: rev_at_def chain_visit)

lemma chain_next: "next_outpoint chain_service (chain_op CHR ''a'') = Inr (Some (chain_op CHR ''b''))"
  "p \<noteq> chain_op CHR ''a'' \<Longrightarrow> next_outpoint chain_service p = Inr None"
  by (simp_all add: next_outpoint_def chain_spend_def chain_load_def calculateOrdinalOutput_def in_of_def)

lemma chain_hops: "hops chain_service (chain_op CHR ''a'') (chain_op CHR ''a'') 0"
  "hops chain_service (chain_op CHR ''b'') (chain_op CHR ''a'') 1"
proof -
  show "hops chain_service (chain_op CHR ''a'') (chain_op CHR ''a'') 0" using chain_visit(1) by (rule at_origin)
  then show "hops chain_service (chain_op CHR ''b'') (chain_op CHR ''a'') 1" using chain_visit(2) step_back by fastforce
qed

lemma chain_place: "hops chain_service p (chain_op CHR ''a'') j \<Longrightarrow> (j = 0 \<longleftrightarrow> p = chain_op CHR ''a'') \<and> (j = 1 \<longrightarrow> p = chain_op CHR ''b'')"
  using chain_hops hops_unique linear_hops[OF _ sound_linear[OF chain_ledger]] by (metis hops_0E)

lemma chain_true: "index_true demo_sdk mem_engine chain_service chain_world"
  by (simp add: index_true_def origins_ok_def good_view_def true_places_def no_gaps_def badger_origins_def chain_world_def)

lemma chain_unlocked: "unlocked demo_sdk S chain_world"
  by (simp add: unlocked_def chain_world_def)

section \<open>Properties\<close>

text \<open>
  C31: a backward crawl finds the origin of an ordinal. From a true index, for an outpoint some steps from
  its origin, the crawl returns with the index still true; its result is the origin, with the outpoint recorded at its place, and
  it fails only when another crawl holds the lock of an outpoint on the way.
\<close>

theorem backward_crawl_finds_origin:
  assumes "ordfs_service_laws E K L J loadTx getSpend others" "F = ordfs_service K E L J loadTx getSpend others"
    and "index_true K E F w" "hops F op o1 m" "wf_op op" "m < 0xff000000" "m < n"
  shows "\<exists>r w'. backwardCrawl n F op w = Some (r, w') \<and> index_true K E F w' \<and>
    (\<forall>o2. r = Inr o2 \<longrightarrow> o2 = o1 \<and> bo_GetOrigin K E op (ow_db w') = Inr (Some \<lparr>oi_Origin = o1, oi_Seq = of_nat m\<rparr>)) \<and>
    (unlocked K {p. wf_op p \<and> (\<exists>j\<le>m. hops F p o1 j)} w \<longrightarrow> r = Inr o1)"
proof -
  note laws = ordfs_service_laws.service_laws[OF assms(1), folded assms(2)]
  let ?ok = "\<lambda>w. origins_ok K (eview E (ow_db w))" and ?view = "\<lambda>w. badger_origins K (eview E (ow_db w))"
  obtain r w' where r: "backwardCrawl n F op w = Some (r, w')" "grown F ?ok ?view w w'"
    "\<forall>o2. r = Inr o2 \<longrightarrow> o2 = o1 \<and> og_org (?view w') op = Some (o1, of_nat m)"
    "unlocked K (ordfs_laws.behind F o1 m) w \<longrightarrow> r = Inr o1"
    using ordfs_laws.backward_good[OF laws assms(7) _ assms(4,5,6), of w] assms(3) unfolding index_true_def by blast
  have t: "index_true K E F w'" using r(2) by (simp add: grown_def index_true_def)
  have b: "ordfs_laws.behind F o1 m = {p. wf_op p \<and> (\<exists>j\<le>m. hops F p o1 j)}" by (rule ordfs_laws.behind_def[OF laws])
  have "bo_GetOrigin K E op (ow_db w') = Inr (Some \<lparr>oi_Origin = o1, oi_Seq = of_nat m\<rparr>)" if "r = Inr o2" for o2
    using ordfs_laws.axioms(1)[OF laws, THEN origin_laws.GetOrigin_law, of w' op] t r(3) that assms(2,5)
    by (auto simp: index_true_def ordfs_service_def origins_of_world_def BadgerOriginStore_def)
  then show ?thesis using r t unfolding b by blast
qed

lemma backward_crawl_finds_origin_witness:
  "\<exists>w'. backwardCrawl 2 chain_service (chain_op CHR ''b'') chain_world = Some (Inr (chain_op CHR ''a''), w') \<and>
     bo_GetOrigin demo_sdk mem_engine (chain_op CHR ''b'') (ow_db w') = Inr (Some \<lparr>oi_Origin = chain_op CHR ''a'', oi_Seq = 1\<rparr>)"
  using backward_crawl_finds_origin[OF chain.ordfs_service_laws_axioms refl chain_true chain_hops(2) id_of_simps(4), of 2] chain_unlocked
  by auto

text \<open>
  C32: a resolution answers with the chain. From a true index, asked for a place of an ordinal's chain or
  for its end, \<open>Resolve\<close> returns with the index still true. A result has the origin, the outpoint at the place (or one that
  is not spent on), and the newest content, map data and parent at or before it. Without other crawls' locks on the way it fails
  only when a spend cannot be read, the chain ends before the place, or nothing up to the place has content.
\<close>

theorem resolve_answers_with_chain:
  assumes "ordfs_service_laws E K L J loadTx getSpend others" "F = ordfs_service K E L J loadTx getSpend others"
    and "index_true K E F w" "hops F op o1 m" "wf_op op" "m < 0xff000000" "m < n"
    and "0 \<le> seq \<and> seq < 0xff000000 \<and> nat seq < n \<or> seq = - 1 \<and> (\<exists>N. chain_ends F o1 N \<and> N < n \<and> N < 0xff000000)"
  shows "\<exists>r w'. Resolve n F op seq w = Some (r, w') \<and> index_true K E F w' \<and>
    (\<forall>rn. r = Inr rn \<longrightarrow> (\<exists>p j. rn_Origin rn = o1 \<and> rn_Current rn = Some p \<and> rn_Sequence rn = int j \<and> hops F p o1 j \<and>
       (0 \<le> seq \<longrightarrow> seq = int j) \<and> (seq = - 1 \<longrightarrow> next_outpoint F p = Inr None) \<and> rn_Content rn \<noteq> None \<and>
       newest F (rev_at F) o1 j (rn_Content rn) \<and> newest F (has_map F) o1 j (rn_Map rn) \<and> newest F (has_parent F) o1 j (rn_Parent rn))) \<and>
    (unlocked K {p. wf_op p \<and> (\<exists>j\<le>m. hops F p o1 j)} w \<longrightarrow> (\<forall>e. r = Inl e \<longrightarrow> (\<exists>p j. hops F p o1 j \<and>
       (next_outpoint F p = Inl e \<or> 0 \<le> seq \<and> int j < seq \<and> next_outpoint F p = Inr None \<and> e = ErrNotFound \<or>
        (0 \<le> seq \<longrightarrow> seq = int j) \<and> newest F (rev_at F) o1 j None \<and> e = ErrNotFound))))"
proof -
  note laws = ordfs_service_laws.service_laws[OF assms(1), folded assms(2)]
  have en: "ordfs_laws.enough F n o1 seq" using assms(8) by (simp add: ordfs_laws.enough_def[OF laws])
  have "origins_ok K (eview E (ow_db w)) \<and> good_view F (badger_origins K (eview E (ow_db w)))"
    using assms(3) by (simp add: index_true_def)
  from ordfs_laws.Resolve_good[OF laws assms(7) this assms(4,5,6) en] show ?thesis
    unfolding ordfs_laws.resolves_def[OF laws] ordfs_laws.unresolved_def[OF laws] ordfs_laws.behind_def[OF laws]
      grown_def index_true_def by blast
qed

lemma resolve_answers_with_chain_witness:
  "\<exists>rn w'. Resolve 2 chain_service (chain_op CHR ''b'') 1 chain_world = Some (Inr rn, w') \<and> rn_Origin rn = chain_op CHR ''a'' \<and>
     rn_Current rn = Some (chain_op CHR ''b'') \<and>
     rn_Content rn = Some \<lparr>rv_Outpoint = Some (chain_op CHR ''a''), rv_ContentType = ''t'', rv_ContentLength = 1\<rparr>"
proof -
  let ?a = "chain_op CHR ''a''" and ?b = "chain_op CHR ''b''"
  have none: "\<not> newest chain_service (rev_at chain_service) ?a 1 None"
    using chain_hops(1) chain_rev(1) unfolding newest_def by fastforce
  obtain r w' where r: "Resolve 2 chain_service ?b 1 chain_world = Some (r, w')"
    "\<And>rn. r = Inr rn \<Longrightarrow> \<exists>p j. rn_Origin rn = ?a \<and> rn_Current rn = Some p \<and> hops chain_service p ?a j \<and> 1 = int j \<and>
       newest chain_service (rev_at chain_service) ?a j (rn_Content rn)"
    "\<And>e. r = Inl e \<Longrightarrow> \<exists>p j. hops chain_service p ?a j \<and> (next_outpoint chain_service p = Inl e \<or>
       int j < 1 \<and> next_outpoint chain_service p = Inr None \<or> 1 = int j \<and> newest chain_service (rev_at chain_service) ?a j None)"
    using resolve_answers_with_chain[OF chain.ordfs_service_laws_axioms refl chain_true chain_hops(2) id_of_simps(4), of 2 1] chain_unlocked
    by fastforce
  have "next_outpoint chain_service p \<noteq> Inl e" for p e using chain_next by (cases "p = ?a") auto
  then have "r \<noteq> Inl e" for e using r(3)[of e] none chain_next(1) chain_place by fastforce
  then obtain rn where rn: "r = Inr rn" by (cases r) auto
  obtain p where p: "rn_Origin rn = ?a" "rn_Current rn = Some p" "hops chain_service p ?a 1" "newest chain_service (rev_at chain_service) ?a 1 (rn_Content rn)"
    using r(2)[OF rn] by auto
  obtain v q j where v: "rn_Content rn = Some v" "j \<le> 1" "hops chain_service q ?a j" "rev_at chain_service q = Some v"
    using p(4) none by (cases "rn_Content rn") (auto simp: newest_def)
  then have "j = 0 \<or> j = 1" by auto
  then have "q = ?a" using v(3,4) chain_place chain_rev(2) by fastforce
  then show ?thesis using r(1) rn p chain_place[OF p(3)] v chain_rev(1) by auto
qed

text \<open>
  C33: a stream is answered with the requested part of the chain's content. From a true index and without other
  crawls' locks on the way, when the chunks from an outpoint on can be read, \<open>StreamContent\<close> writes exactly the bytes from the
  start of the range up to its exclusive end (or to the end of the content), and reports the origin and the number of bytes.
\<close>

theorem stream_answers_range:
  assumes "ordfs_service_laws E K L J loadTx getSpend others" "F = ordfs_service K E L J loadTx getSpend others"
    and "index_true K E F w" "hops F op o1 m" "wf_op op" "m < 0xff000000" "m < n"
    and "unlocked K {p. wf_op p \<and> (\<exists>j\<le>m. hops F p o1 j)} w" "chunks n F op 0 = Some cs"
    and "a = None \<and> b = None \<or> (\<exists>a'. a = Some a' \<and> 0 \<le> a' \<and> (\<forall>b'. b = Some b' \<longrightarrow> a' \<le> b'))"
  shows "\<exists>r w'. StreamContent n F op a b w = Some (Inr r, cut a b (concat cs), w') \<and> sr_Origin r = o1 \<and>
    sr_BytesWritten r = int (length (cut a b (concat cs))) \<and> index_true K E F w'"
proof -
  note laws = ordfs_service_laws.service_laws[OF assms(1), folded assms(2)]
  let ?ok = "\<lambda>w. origins_ok K (eview E (ow_db w))" and ?view = "\<lambda>w. badger_origins K (eview E (ow_db w))"
  have g: "?ok w \<and> good_view F (?view w)" using assms(3) by (simp add: index_true_def)
  obtain w1 where w1: "known_or_crawled n F op w = Some (Inr o1, w1)" "grown F ?ok ?view w w1"
    using ordfs_laws.crawled_good[OF laws assms(7) g assms(4,5,6)] assms(8) ordfs_laws.behind_def[OF laws] by metis
  have v: "valid_range a b" using assms(10) by (auto simp: valid_range_def split: option.splits)
  have s: "start_found a 0 \<longleftrightarrow> a = None" "cut a b [] = []"
    using assms(10) by (auto simp: start_found_def cut_def split: option.splits)
  have "?ok w1 \<and> good_view F (?view w1)" using w1(2) by (simp add: grown_def)
  from ordfs_laws.stream_loop_cut[OF laws assms(9) this v, of o1 "[]" "[]"] obtain r w2 where
    "stream_loop n F o1 a b op 0 0 (a = None) [] [] w1 = Some (Inr r, cut a b (concat cs), w2)" "grown F ?ok ?view w1 w2"
    "sr_Origin r = o1" "sr_BytesWritten r = int (length (cut a b (concat cs)))" using s by auto
  then show ?thesis using w1(1) by (auto simp: StreamContent_def grown_def index_true_def)
qed

lemma stream_answers_range_witness:
  "\<exists>r w'. StreamContent 2 chain_service (chain_op CHR ''a'') (Some 0) (Some 1) chain_world = Some (Inr r, ''h'', w') \<and>
     sr_Origin r = chain_op CHR ''a'' \<and> sr_BytesWritten r = 1"
proof -
  have l: "loadOutput chain_service (chain_op CHR ''a'') = Inr (1, ''RBhtx'')" "loadOutput chain_service (chain_op CHR ''b'') = Inr (1, [])"
    by (simp_all add: loadOutput_def chain_load_def)
  have "calculateOrdinalOutput chain_service \<lparr>ot_TxID = id_of CHR ''b'', ot_Inputs = [in_of (chain_op CHR ''a'')], ot_Outputs = [(1, [])]\<rparr>
      (chain_op CHR ''a'') = Inr (Some (chain_op CHR ''b''))"
    using chain_next(1) by (simp add: next_outpoint_def chain_spend_def chain_load_def)
  then have c: "chunks 2 chain_service (chain_op CHR ''a'') 0 = Some [''h'', []]"
    by (simp add: numeral_2_eq_2 l chain_parsed chain_spend_def chain_load_def)
  have "\<exists>a'. Some (0 :: int) = Some a' \<and> 0 \<le> a' \<and> (\<forall>b'. Some (1 :: int) = Some b' \<longrightarrow> a' \<le> b')" by simp
  from stream_answers_range[OF chain.ordfs_service_laws_axioms refl chain_true chain_hops(1) id_of_simps(4) _ _ chain_unlocked c disjI2[OF this]]
  show ?thesis by (auto simp: cut_def range_start_def)
qed

section \<open>Ranges that are not answered\<close>

text \<open>A range with an end and no start stops at the first chunk with a nil dereference.\<close>

lemma suffix_range_panics: "c \<noteq> [] \<Longrightarrow> chunk_part None (Some b) cumulative True c = Inl nil_pointer"
  by (simp add: chunk_part_def)

end
