(* ===== verification/TopicStore.thy ===== *)
theory TopicStore
  imports Txo
begin

text \<open>
  \<open>pkg/overlay/storage/storage.go\<close>: the interface of a topic's storage, as operations on any
  world, and its contract. What a storage holds of a topic is a \<open>topic_view\<close>: maps of outputs,
  events, applied transactions and peers, and the transactions that the index of topics lists for it. The locale \<open>topic_storage\<close> says how each operation
  changes the view of its own topic, that it leaves the other topics alone, and what it answers;
  \<open>keeps\<close> tells whether inserting an output again keeps its spend, in which the two providers differ.
\<close>

section \<open>The interface\<close>

text \<open>A blob that is absent and one that is empty are the same: the code only looks at lengths.\<close>

record output_record =
  or_Outpoint :: outpoint
  or_Txid :: txid
  or_Satoshis :: "64 word"
  or_SpendTxid :: "txid option"
  or_Score :: f64
  or_Deps :: bytes
  or_InputsConsumed :: bytes
  or_ConsumedBy :: bytes
  or_CreatedAt :: int

record query_opts =
  qo_Since :: f64
  qo_Limit :: "32 word"
  qo_Reverse :: bool

record 'w topic_ops =
  ts_InsertOutput :: "outpoint \<Rightarrow> txid \<Rightarrow> 64 word \<Rightarrow> bytes \<Rightarrow> bytes \<Rightarrow> f64 \<Rightarrow> ('w, err, unit) sm"
  ts_GetOutput :: "outpoint \<Rightarrow> ('w, err, output_record option) sm"
  ts_FindOutputs :: "outpoint list \<Rightarrow> ('w, err, output_record list) sm"
  ts_FindOutputsForTransaction :: "txid \<Rightarrow> ('w, err, output_record list) sm"
  ts_MarkSpent :: "outpoint \<Rightarrow> txid \<Rightarrow> ('w, err, unit) sm"
  ts_UpdateConsumedBy :: "outpoint \<Rightarrow> bytes \<Rightarrow> ('w, err, unit) sm"
  ts_FindUTXOs :: "query_opts option \<Rightarrow> ('w, err, output_record list) sm"
  ts_DeleteOutput :: "outpoint \<Rightarrow> ('w, err, unit) sm"
  ts_Rollback :: "txid \<Rightarrow> ('w, err, unit) sm"
  ts_InsertAppliedTx :: "txid \<Rightarrow> f64 \<Rightarrow> ('w, err, unit) sm"
  ts_HasAppliedTx :: "txid \<Rightarrow> ('w, err, bool) sm"
  ts_UpdateLastInteraction :: "bytes \<Rightarrow> f64 \<Rightarrow> ('w, err, unit) sm"
  ts_GetLastInteraction :: "bytes \<Rightarrow> ('w, err, f64) sm"
  ts_SaveEvent :: "bytes \<Rightarrow> outpoint \<Rightarrow> f64 \<Rightarrow> ('w, err, unit) sm"
  ts_DeleteEvent :: "bytes \<Rightarrow> outpoint \<Rightarrow> ('w, err, unit) sm"
  ts_FindByEvent :: "bytes \<Rightarrow> query_opts option \<Rightarrow> ('w, err, output_record list) sm"
  ts_UpdateEventsForTxid :: "txid \<Rightarrow> f64 \<Rightarrow> ('w, err, unit) sm"

section \<open>What a topic holds\<close>

record topic_view =
  tv_outs :: "outpoint \<Rightarrow> output_record option"
  tv_events :: "bytes \<Rightarrow> outpoint \<Rightarrow> f64 option"
  tv_applied :: "txid \<Rightarrow> bool"
  tv_peers :: "bytes \<Rightarrow> f64 option"
  tv_txids :: "txid set"

definition empty_view :: topic_view where
  "empty_view = \<lparr>tv_outs = (\<lambda>_. None), tv_events = (\<lambda>_ _. None), tv_applied = (\<lambda>_. False), tv_peers = (\<lambda>_. None), tv_txids = {}\<rparr>"

definition new_record :: "outpoint \<Rightarrow> txid \<Rightarrow> 64 word \<Rightarrow> bytes \<Rightarrow> bytes \<Rightarrow> f64 \<Rightarrow> int \<Rightarrow> output_record" where
  "new_record op txid sats deps ins sc now =
     \<lparr>or_Outpoint = op, or_Txid = txid, or_Satoshis = sats, or_SpendTxid = None, or_Score = sc,
      or_Deps = deps, or_InputsConsumed = ins, or_ConsumedBy = [], or_CreatedAt = now\<rparr>"

text \<open>The record after an insertion over an old one: it keeps the old spend and consumers, or not.\<close>

definition reinserted :: "bool \<Rightarrow> output_record option \<Rightarrow> output_record \<Rightarrow> output_record" where
  "reinserted keeps old r =
     (case old of
        None \<Rightarrow> r
      | Some o' \<Rightarrow> if keeps then r\<lparr>or_SpendTxid := or_SpendTxid o', or_ConsumedBy := or_ConsumedBy o'\<rparr> else r)"

definition v_InsertOutput ::
  "bool \<Rightarrow> outpoint \<Rightarrow> txid \<Rightarrow> 64 word \<Rightarrow> bytes \<Rightarrow> bytes \<Rightarrow> f64 \<Rightarrow> int \<Rightarrow> topic_view \<Rightarrow> topic_view" where
  "v_InsertOutput keeps op txid sats deps ins sc now v =
     v\<lparr>tv_outs := (tv_outs v)(op \<mapsto> reinserted keeps (tv_outs v op) (new_record op txid sats deps ins sc now))\<rparr>"

definition v_MarkSpent :: "outpoint \<Rightarrow> txid \<Rightarrow> topic_view \<Rightarrow> topic_view" where
  "v_MarkSpent op t v = v\<lparr>tv_outs := (tv_outs v)(op := map_option (or_SpendTxid_update (\<lambda>_. Some t)) (tv_outs v op))\<rparr>"

definition v_UpdateConsumedBy :: "outpoint \<Rightarrow> bytes \<Rightarrow> topic_view \<Rightarrow> topic_view" where
  "v_UpdateConsumedBy op b v = v\<lparr>tv_outs := (tv_outs v)(op := map_option (or_ConsumedBy_update (\<lambda>_. b)) (tv_outs v op))\<rparr>"

definition v_DropOutput :: "outpoint \<Rightarrow> topic_view \<Rightarrow> topic_view" where
  "v_DropOutput op v = v\<lparr>tv_outs := (tv_outs v)(op := None)\<rparr>"

definition v_DeleteOutput :: "outpoint \<Rightarrow> topic_view \<Rightarrow> topic_view" where
  "v_DeleteOutput op v = (v_DropOutput op v)\<lparr>tv_events := (\<lambda>e. (tv_events v e)(op := None))\<rparr>"

definition v_Rollback :: "txid \<Rightarrow> topic_view \<Rightarrow> topic_view" where
  "v_Rollback t v =
     v\<lparr>tv_outs := (\<lambda>op. case tv_outs v op of None \<Rightarrow> None | Some r \<Rightarrow> if or_Txid r = t then None else Some r)\<rparr>"

definition v_InsertAppliedTx :: "txid \<Rightarrow> topic_view \<Rightarrow> topic_view" where
  "v_InsertAppliedTx t v = v\<lparr>tv_applied := (tv_applied v)(t := True)\<rparr>"

definition v_UpdateLastInteraction :: "bytes \<Rightarrow> f64 \<Rightarrow> topic_view \<Rightarrow> topic_view" where
  "v_UpdateLastInteraction host since v = v\<lparr>tv_peers := (tv_peers v)(host \<mapsto> since)\<rparr>"

definition v_Record :: "txid \<Rightarrow> topic_view \<Rightarrow> topic_view" where
  "v_Record x v = v\<lparr>tv_txids := insert x (tv_txids v)\<rparr>"

definition v_SaveEvent :: "bytes \<Rightarrow> outpoint \<Rightarrow> f64 \<Rightarrow> topic_view \<Rightarrow> topic_view" where
  "v_SaveEvent e op sc v = v\<lparr>tv_events := (tv_events v)(e := (tv_events v e)(op \<mapsto> sc))\<rparr>"

definition v_DeleteEvent :: "bytes \<Rightarrow> outpoint \<Rightarrow> topic_view \<Rightarrow> topic_view" where
  "v_DeleteEvent e op v = v\<lparr>tv_events := (tv_events v)(e := (tv_events v e)(op := None))\<rparr>"

definition v_UpdateEventsForTxid :: "txid \<Rightarrow> f64 \<Rightarrow> topic_view \<Rightarrow> topic_view" where
  "v_UpdateEventsForTxid t sc v =
     v\<lparr>tv_events := (\<lambda>e op. if (\<exists>r. tv_outs v op = Some r \<and> or_Txid r = t)
        then map_option (\<lambda>_. sc) (tv_events v e op) else tv_events v e op)\<rparr>"

lemmas view_defs = v_InsertOutput_def v_MarkSpent_def v_UpdateConsumedBy_def v_DropOutput_def v_DeleteOutput_def
  v_Rollback_def v_InsertAppliedTx_def v_UpdateLastInteraction_def v_Record_def v_SaveEvent_def v_DeleteEvent_def
  v_UpdateEventsForTxid_def

section \<open>Listings\<close>

text \<open>\<open>Since\<close> counts when it is positive, \<open>Limit\<close> when it is not zero; nil options are the default ones.\<close>

definition no_opts :: query_opts where
  "no_opts = \<lparr>qo_Since = 0, qo_Limit = 0, qo_Reverse = False\<rparr>"

definition opts_of :: "query_opts option \<Rightarrow> query_opts" where
  "opts_of o' = (case o' of None \<Rightarrow> no_opts | Some q \<Rightarrow> q)"

definition since_ok :: "query_opts \<Rightarrow> f64 \<Rightarrow> bool" where
  "since_ok q sc \<longleftrightarrow> (f64_lt 0 (qo_Since q) \<longrightarrow> f64_lt (qo_Since q) sc)"

definition limited :: "query_opts \<Rightarrow> 'a list \<Rightarrow> 'a list" where
  "limited q xs = (if 0 < qo_Limit q then take (unat (qo_Limit q)) xs else xs)"

definition score_key :: "query_opts \<Rightarrow> output_record \<Rightarrow> int" where
  "score_key q r = (if qo_Reverse q then - f64_ord (or_Score r) else f64_ord (or_Score r))"

text \<open>A page of a set of records: the first of them in order of score, each once.\<close>

definition listed :: "query_opts \<Rightarrow> output_record set \<Rightarrow> output_record list \<Rightarrow> bool" where
  "listed q S xs \<longleftrightarrow>
     (\<exists>ys. distinct (map or_Outpoint ys) \<and> set ys = S \<and> sorted (map (score_key q) ys) \<and> xs = limited q ys)"

definition view_utxos :: "query_opts \<Rightarrow> topic_view \<Rightarrow> output_record set" where
  "view_utxos q v = {r. (\<exists>op. tv_outs v op = Some r) \<and> or_SpendTxid r = None \<and> since_ok q (or_Score r)}"

definition view_event :: "bytes \<Rightarrow> query_opts \<Rightarrow> topic_view \<Rightarrow> output_record set" where
  "view_event e q v =
     {r\<lparr>or_Score := sc\<rparr> | r op sc. tv_outs v op = Some r \<and> tv_events v e op = Some sc \<and> since_ok q sc}"

text \<open>A list of exactly the records that a condition selects, each once, in any order.\<close>

definition picks :: "topic_view \<Rightarrow> (output_record \<Rightarrow> bool) \<Rightarrow> output_record list \<Rightarrow> bool" where
  "picks v P xs \<longleftrightarrow> distinct (map or_Outpoint xs) \<and> set xs = {r. (\<exists>op. tv_outs v op = Some r) \<and> P r}"

section \<open>The contract\<close>

text \<open>
  A write, on a topic, in a sound world: it keeps the world sound; when nothing fails
  (\<open>calm\<close>) it succeeds; it changes the topic's view as \<open>R\<close> says, or as \<open>E\<close> when it fails, and
  no other topic.
\<close>

definition commits ::
  "('w \<Rightarrow> bool) \<Rightarrow> ('w \<Rightarrow> bool) \<Rightarrow> ('w \<Rightarrow> bytes \<Rightarrow> topic_view) \<Rightarrow> bytes \<Rightarrow> ('w, err, unit) sm \<Rightarrow>
    (topic_view \<Rightarrow> topic_view \<Rightarrow> bool) \<Rightarrow> (topic_view \<Rightarrow> topic_view \<Rightarrow> bool) \<Rightarrow> bool" where
  "commits ok calm views t m R E \<longleftrightarrow>
     (\<forall>w r w'. ok w \<longrightarrow> m w = (r, w') \<longrightarrow>
        ok w' \<and> (calm w \<longrightarrow> calm w' \<and> r = Inr ()) \<and> (\<forall>s. s \<noteq> t \<longrightarrow> views w' s = views w s) \<and>
        (r = Inr () \<longrightarrow> R (views w t) (views w' t)) \<and> (\<forall>e. r = Inl e \<longrightarrow> E (views w t) (views w' t)))"

definition same_view :: "topic_view \<Rightarrow> topic_view \<Rightarrow> bool" where
  "same_view v v' \<longleftrightarrow> v' = v"

text \<open>A read changes no topic, and its answer satisfies \<open>P\<close>.\<close>

definition answers ::
  "('w \<Rightarrow> bool) \<Rightarrow> ('w \<Rightarrow> bool) \<Rightarrow> ('w \<Rightarrow> bytes \<Rightarrow> topic_view) \<Rightarrow> bytes \<Rightarrow> ('w, err, 'a) sm \<Rightarrow>
    (topic_view \<Rightarrow> 'a \<Rightarrow> bool) \<Rightarrow> bool" where
  "answers ok calm views t m P \<longleftrightarrow>
     (\<forall>w r w'. ok w \<longrightarrow> m w = (r, w') \<longrightarrow>
        ok w' \<and> views w' = views w \<and> (calm w \<longrightarrow> calm w' \<and> (\<exists>x. r = Inr x)) \<and>
        (\<forall>x. r = Inr x \<longrightarrow> P (views w t) x))"

text \<open>A view belongs to its keys: the record of an outpoint carries it.\<close>

definition view_ok :: "topic_view \<Rightarrow> bool" where
  "view_ok v \<longleftrightarrow> (\<forall>op r. tv_outs v op = Some r \<longrightarrow> or_Outpoint r = op \<and> wf_op op)"

locale topic_storage =
  fixes T :: "'w topic_ops" and t :: bytes and keeps :: bool and most :: nat
    and text_ok :: "bytes \<Rightarrow> bool"
    and ok calm :: "'w \<Rightarrow> bool" and views :: "'w \<Rightarrow> bytes \<Rightarrow> topic_view"
  assumes views_ok: "ok w \<Longrightarrow> view_ok (views w t)"
    and InsertOutput: "wf_op op \<Longrightarrow> length x = 32 \<Longrightarrow> f64_plain sc \<Longrightarrow> unat sats < 2 ^ 63 \<Longrightarrow>
      commits ok calm views t (ts_InsertOutput T op x sats deps ins sc)
        (\<lambda>v v'. \<exists>now. v' = v_InsertOutput keeps op x sats deps ins sc now v) same_view"
    and GetOutput: "wf_op op \<Longrightarrow> answers ok calm views t (ts_GetOutput T op) (\<lambda>v r. r = tv_outs v op)"
    and FindOutputs: "\<forall>op \<in> set ops. wf_op op \<Longrightarrow> length ops \<le> most \<Longrightarrow>
      answers ok calm views t (ts_FindOutputs T ops) (\<lambda>v. picks v (\<lambda>r. or_Outpoint r \<in> set ops))"
    and FindOutputsForTransaction: "length x = 32 \<Longrightarrow>
      answers ok calm views t (ts_FindOutputsForTransaction T x) (\<lambda>v. picks v (\<lambda>r. or_Txid r = x))"
    and MarkSpent: "wf_op op \<Longrightarrow> length x = 32 \<Longrightarrow>
      commits ok calm views t (ts_MarkSpent T op x) (\<lambda>v v'. v' = v_MarkSpent op x v) same_view"
    and UpdateConsumedBy: "wf_op op \<Longrightarrow>
      commits ok calm views t (ts_UpdateConsumedBy T op b) (\<lambda>v v'. v' = v_UpdateConsumedBy op b v) same_view"
    and FindUTXOs: "answers ok calm views t (ts_FindUTXOs T q) (\<lambda>v. listed (opts_of q) (view_utxos (opts_of q) v))"
    and DeleteOutput: "wf_op op \<Longrightarrow>
      commits ok calm views t (ts_DeleteOutput T op) (\<lambda>v v'. v' = v_DeleteOutput op v)
        (\<lambda>v v'. v' = v \<or> v' = v_DropOutput op v)"
    and Rollback: "length x = 32 \<Longrightarrow>
      commits ok calm views t (ts_Rollback T x) (\<lambda>v v'. v' = v_Rollback x v) same_view"
    and InsertAppliedTx: "length x = 32 \<Longrightarrow> f64_plain sc \<Longrightarrow>
      commits ok calm views t (ts_InsertAppliedTx T x sc) (\<lambda>v v'. v' = v_InsertAppliedTx x v) same_view"
    and HasAppliedTx: "length x = 32 \<Longrightarrow> answers ok calm views t (ts_HasAppliedTx T x) (\<lambda>v b. b = tv_applied v x)"
    and UpdateLastInteraction: "text_ok host \<Longrightarrow> f64_plain since \<Longrightarrow>
      commits ok calm views t (ts_UpdateLastInteraction T host since)
        (\<lambda>v v'. v' = v_UpdateLastInteraction host since v) same_view"
    and GetLastInteraction: "text_ok host \<Longrightarrow> answers ok calm views t (ts_GetLastInteraction T host)
      (\<lambda>v s. s = (case tv_peers v host of None \<Rightarrow> 0 | Some x \<Rightarrow> x))"
    and SaveEvent: "wf_op op \<Longrightarrow> text_ok e \<Longrightarrow> f64_plain sc \<Longrightarrow>
      commits ok calm views t (ts_SaveEvent T e op sc) (\<lambda>v v'. v' = v_SaveEvent e op sc v) same_view"
    and DeleteEvent: "wf_op op \<Longrightarrow> text_ok e \<Longrightarrow>
      commits ok calm views t (ts_DeleteEvent T e op) (\<lambda>v v'. v' = v_DeleteEvent e op v) same_view"
    and FindByEvent: "text_ok e \<Longrightarrow>
      answers ok calm views t (ts_FindByEvent T e q) (\<lambda>v. listed (opts_of q) (view_event e (opts_of q) v))"
    and UpdateEventsForTxid: "length x = 32 \<Longrightarrow> f64_plain sc \<Longrightarrow>
      commits ok calm views t (ts_UpdateEventsForTxid T x sc) (\<lambda>v v'. v' = v_UpdateEventsForTxid x sc v) same_view"

text \<open>
  The factory and the index of topics: opening a topic changes no view and gives a storage that
  keeps the contract as long as its own condition \<open>okt\<close> holds; the index lists the topics of a transaction.
\<close>

record 'w tx_topic_index =
  ix_Record :: "txid \<Rightarrow> bytes \<Rightarrow> ('w, err, unit) sm"
  ix_Topics :: "txid \<Rightarrow> ('w, err, bytes list) sm"
  ix_Delete :: "txid \<Rightarrow> ('w, err, unit) sm"

locale topic_factory =
  fixes F :: "bytes \<Rightarrow> ('w, err, 'w topic_ops) sm" and X :: "'w tx_topic_index"
    and keeps :: bool and most :: nat and text_ok :: "bytes \<Rightarrow> bool"
    and ok calm :: "'w \<Rightarrow> bool" and known :: "bytes \<Rightarrow> 'w \<Rightarrow> bool" and views :: "'w \<Rightarrow> bytes \<Rightarrow> topic_view"
  assumes opens: "ok w \<Longrightarrow> text_ok t \<Longrightarrow> F t w = (r, w') \<Longrightarrow>
      ok w' \<and> views w' = views w \<and> (calm w \<longrightarrow> calm w' \<and> (\<exists>T. r = Inr T)) \<and>
      (\<forall>T. r = Inr T \<longrightarrow>
        (\<exists>okt. topic_storage T t keeps most text_ok okt calm views \<and> okt w' \<and> (\<forall>v. okt v \<longrightarrow> ok v \<and> known t v)))"
    and Record: "length x = 32 \<Longrightarrow> text_ok t \<Longrightarrow>
      commits (\<lambda>v. ok v \<and> known t v) calm views t (ix_Record X x t) (\<lambda>v v'. v' = v_Record x v) same_view"
    and Topics: "ok w \<Longrightarrow> length x = 32 \<Longrightarrow> ix_Topics X x w = (q, w') \<Longrightarrow>
      ok w' \<and> views w' = views w \<and> (calm w \<longrightarrow> calm w' \<and> (\<exists>ts. q = Inr ts)) \<and>
      (\<forall>ts. q = Inr ts \<longrightarrow> distinct ts \<and> set ts = {t. x \<in> tv_txids (views w t)} \<and> (\<forall>t \<in> set ts. text_ok t))"

end
