(* ===== verification/SqlTable.thy ===== *)
theory SqlTable
  imports Prelude
begin

text \<open>
  Tables of a relational database as lists of rows, with the statements the storages of
  \<open>pkg/overlay/storage\<close> send: select by key, insert or replace, insert or update, insert or
  ignore, update and delete. A table whose key column is a primary key keeps its keys distinct.
\<close>

named_theorems table_simps \<open>what a statement does to the row with a key\<close>

definition t_ok :: "('r \<Rightarrow> 'k) \<Rightarrow> 'r list \<Rightarrow> bool" where
  "t_ok k xs \<longleftrightarrow> distinct (map k xs)"

definition t_get :: "('r \<Rightarrow> 'k) \<Rightarrow> 'k \<Rightarrow> 'r list \<Rightarrow> 'r option" where
  "t_get k q xs = find (\<lambda>r. k r = q) xs"

text \<open>\<open>INSERT OR REPLACE\<close> deletes the row with the key, and the new row comes last.\<close>

definition t_replace :: "('r \<Rightarrow> 'k) \<Rightarrow> 'r \<Rightarrow> 'r list \<Rightarrow> 'r list" where
  "t_replace k r xs = filter (\<lambda>x. k x \<noteq> k r) xs @ [r]"

text \<open>\<open>UPDATE ... SET\<close> and \<open>DELETE\<close> with a condition.\<close>

definition t_update :: "('r \<Rightarrow> bool) \<Rightarrow> ('r \<Rightarrow> 'r) \<Rightarrow> 'r list \<Rightarrow> 'r list" where
  "t_update P f xs = map (\<lambda>x. if P x then f x else x) xs"

definition t_delete :: "('r \<Rightarrow> bool) \<Rightarrow> 'r list \<Rightarrow> 'r list" where
  "t_delete P xs = filter (\<lambda>x. \<not> P x) xs"

text \<open>\<open>INSERT ... ON CONFLICT (key) DO UPDATE SET\<close>: the row with the key is updated in place.\<close>

definition t_upsert :: "('r \<Rightarrow> 'k) \<Rightarrow> ('r \<Rightarrow> 'r) \<Rightarrow> 'r \<Rightarrow> 'r list \<Rightarrow> 'r list" where
  "t_upsert k f r xs =
     (if t_get k (k r) xs = None then xs @ [r] else t_update (\<lambda>x. k x = k r) f xs)"

text \<open>\<open>INSERT OR IGNORE\<close> and \<open>ON CONFLICT DO NOTHING\<close>.\<close>

definition t_ignore :: "('r \<Rightarrow> 'k) \<Rightarrow> 'r \<Rightarrow> 'r list \<Rightarrow> 'r list" where
  "t_ignore k r xs = (if t_get k (k r) xs = None then xs @ [r] else xs)"

section \<open>The row with a key\<close>

lemma t_get_None: "t_get k q xs = None \<longleftrightarrow> (\<forall>x \<in> set xs. k x \<noteq> q)"
  by (auto simp: t_get_def find_None_iff)

lemma t_get_SomeD: "t_get k q xs = Some r \<Longrightarrow> r \<in> set xs \<and> k r = q"
  by (auto simp: t_get_def find_Some_iff)

lemma t_get_iff: "t_ok k xs \<Longrightarrow> t_get k q xs = Some r \<longleftrightarrow> r \<in> set xs \<and> k r = q"
proof
  assume "t_ok k xs" and r: "r \<in> set xs \<and> k r = q"
  then have inj: "inj_on k (set xs)" by (simp add: t_ok_def distinct_map)
  obtain r' where r': "t_get k q xs = Some r'" using r by (cases "t_get k q xs") (auto simp: t_get_None)
  then have "r' \<in> set xs" "k r' = q" by (auto dest: t_get_SomeD)
  with inj r r' show "t_get k q xs = Some r" by (auto dest: inj_onD)
qed (rule t_get_SomeD)

lemma t_get_append:
  "t_get k q (xs @ ys) = (case t_get k q xs of None \<Rightarrow> t_get k q ys | Some r \<Rightarrow> Some r)"
  by (induction xs) (auto simp: t_get_def)

lemma t_get_single [table_simps]: "t_get k q [] = None" "t_get k q [r] = (if k r = q then Some r else None)"
  by (simp_all add: t_get_def)

lemma t_get_filter:
  assumes "t_ok k xs"
  shows "t_get k q (filter P xs) =
    (case t_get k q xs of None \<Rightarrow> None | Some r \<Rightarrow> if P r then Some r else None)"
proof (cases "t_get k q xs")
  case None
  then have "\<forall>x \<in> set (filter P xs). k x \<noteq> q" by (auto simp: t_get_None)
  then have "t_get k q (filter P xs) = None" by (simp add: t_get_None)
  with None show ?thesis by simp
next
  case (Some r)
  then have r: "r \<in> set xs" "k r = q" by (auto dest: t_get_SomeD)
  have fok: "t_ok k (filter P xs)" using assms by (simp add: t_ok_def distinct_map_filter)
  show ?thesis
  proof (cases "P r")
    case True
    with r Some fok show ?thesis by (simp add: t_get_iff)
  next
    case False
    have "k x \<noteq> q" if "x \<in> set (filter P xs)" for x
    proof
      assume "k x = q"
      with that assms have "t_get k q xs = Some x" by (simp add: t_get_iff)
      with Some False that show False by simp
    qed
    then have "t_get k q (filter P xs) = None" by (simp add: t_get_None)
    with False Some show ?thesis by simp
  qed
qed

lemma t_get_map:
  assumes "\<And>x. k (f x) = k x"
  shows "t_get k q (map f xs) = map_option f (t_get k q xs)"
  by (induction xs) (auto simp: t_get_def assms)

lemma t_get_replace [table_simps]:
  "t_get k q (t_replace k r xs) = (if q = k r then Some r else t_get k q xs)"
proof -
  have "t_get k q (filter (\<lambda>x. k x \<noteq> k r) xs) = (if q = k r then None else t_get k q xs)"
    by (induction xs) (auto simp: t_get_def)
  then show ?thesis by (auto simp: t_replace_def t_get_append table_simps split: option.splits)
qed

lemma t_get_update [table_simps]:
  assumes "\<And>x. k (f x) = k x"
  shows "t_get k q (t_update P f xs) = map_option (\<lambda>r. if P r then f r else r) (t_get k q xs)"
  unfolding t_update_def by (rule t_get_map) (simp add: assms)

lemma t_get_delete [table_simps]:
  "t_ok k xs \<Longrightarrow> t_get k q (t_delete P xs) =
    (case t_get k q xs of None \<Rightarrow> None | Some r \<Rightarrow> if P r then None else Some r)"
  by (auto simp: t_delete_def t_get_filter split: option.splits)

lemma t_get_upsert [table_simps]:
  assumes "\<And>x. k (f x) = k x"
  shows "t_get k q (t_upsert k f r xs) =
    (if q = k r then Some (case t_get k q xs of None \<Rightarrow> r | Some x \<Rightarrow> f x) else t_get k q xs)"
proof (cases "t_get k (k r) xs")
  case None
  then show ?thesis by (auto simp: t_upsert_def t_get_append table_simps split: option.splits)
next
  case (Some x)
  have "map_option (\<lambda>s. if k s = k r then f s else s) (t_get k q xs) =
    (if q = k r then map_option f (t_get k q xs) else t_get k q xs)"
    by (cases "t_get k q xs") (auto dest: t_get_SomeD)
  with Some show ?thesis by (auto simp: t_upsert_def t_get_update[of k f, OF assms] split: option.splits)
qed

lemma t_get_ignore [table_simps]:
  "t_get k q (t_ignore k r xs) = (if q = k r \<and> t_get k q xs = None then Some r else t_get k q xs)"
  by (auto simp: t_ignore_def t_get_append table_simps split: option.splits)

section \<open>Keys stay distinct\<close>

lemma t_ok_statements [table_simps]:
  "t_ok k []"
  "t_ok k xs \<Longrightarrow> t_ok k (t_replace k r xs)"
  "t_ok k xs \<Longrightarrow> t_ok k (t_delete P xs)"
  "t_ok k xs \<Longrightarrow> t_ok k (t_ignore k r xs)"
  by (auto simp: t_ok_def t_replace_def t_delete_def t_ignore_def t_get_None distinct_map_filter split: if_splits)

lemma t_ok_update [table_simps]:
  assumes "\<And>x. k (f x) = k x" and "t_ok k xs"
  shows "t_ok k (t_update P f xs)"
proof -
  have "map k (t_update P f xs) = map k xs" by (induction xs) (auto simp: t_update_def assms(1))
  with assms(2) show ?thesis by (simp add: t_ok_def)
qed

lemma t_ok_upsert [table_simps]:
  assumes "\<And>x. k (f x) = k x" and "t_ok k xs"
  shows "t_ok k (t_upsert k f r xs)"
proof (cases "t_get k (k r) xs")
  case None
  with assms(2) show ?thesis by (auto simp: t_upsert_def t_ok_def t_get_None)
next
  case (Some x)
  with t_ok_update[of k f, OF assms] show ?thesis by (simp add: t_upsert_def)
qed

lemma t_set_statements [table_simps]:
  "set (t_replace k r xs) = insert r {x \<in> set xs. k x \<noteq> k r}"
  "set (t_delete P xs) = {x \<in> set xs. \<not> P x}"
  "set (t_update P f xs) = (\<lambda>x. if P x then f x else x) ` set xs"
  by (auto simp: t_replace_def t_delete_def t_update_def)

lemma t_set_upsert: "set (t_upsert k f r xs) \<subseteq> insert r (set xs \<union> f ` set xs)"
  by (auto simp: t_upsert_def t_update_def)

lemma t_set_ignore: "set (t_ignore k r xs) \<subseteq> insert r (set xs)"
  by (auto simp: t_ignore_def)

end
