(* ===== verification/OutputRows.thy ===== *)
theory OutputRows
  imports TopicStore SqlTable "HOL-Library.Multiset"
begin

text \<open>
  The rows of the tables \<open>outputs\<close> and \<open>events\<close>, which both storages of
  \<open>pkg/overlay/storage\<close> have, how rows are read back into records (\<open>hydrateRecord\<close>,
  \<open>scanOutput\<close>, \<open>scanOutputs\<close>), and the selections they share. The lemmas give what a
  selection answers in terms of the view of the tables.
\<close>

section \<open>Rows and records\<close>

record output_row =
  r_outpoint :: bytes
  r_txid :: bytes
  r_satoshis :: "64 word"
  r_spend_txid :: "bytes option"
  r_score :: f64
  r_deps :: bytes
  r_inputs_consumed :: bytes
  r_consumed_by :: bytes
  r_created_at :: int

record event_row =
  ev_event :: bytes
  ev_outpoint :: bytes
  ev_score :: f64

definition event_key :: "event_row \<Rightarrow> bytes \<times> bytes" where
  "event_key e = (ev_event e, ev_outpoint e)"

text \<open>What the database decides: the order of rows when the statement does not, and its limits.\<close>

record sql_engine =
  sq_arrange :: "string \<Rightarrow> output_row list \<Rightarrow> output_row list"
  sq_arrange_topics :: "bytes list \<Rightarrow> bytes list"
  sq_max_args :: nat
  sq_text :: "bytes \<Rightarrow> bool"

definition engine_laws :: "sql_engine \<Rightarrow> bool" where
  "engine_laws G \<longleftrightarrow> (\<forall>q xs. mset (sq_arrange G q xs) = mset xs) \<and> (\<forall>xs. mset (sq_arrange_topics G xs) = mset xs)"

text \<open>\<open>database/sql\<close> refuses unsigned integers with the high bit set.\<close>

definition sql_uint64 :: "64 word \<Rightarrow> bool" where
  "sql_uint64 n \<longleftrightarrow> unat n < 2 ^ 63"

definition zero_hash :: txid where
  "zero_hash = replicate 32 (CHR 0x00)"

definition hydrateRecord :: "sdk \<Rightarrow> output_row \<Rightarrow> err + output_record" where
  "hydrateRecord K r =
     (case op_from_bytes K (r_outpoint r) of
        None \<Rightarrow> Inl (ErrOther ''invalid outpoint bytes'')
      | Some op \<Rightarrow> Inr
          \<lparr>or_Outpoint = op,
           or_Txid = (if length (r_txid r) = 32 then r_txid r else zero_hash),
           or_Satoshis = r_satoshis r,
           or_SpendTxid = (case r_spend_txid r of None \<Rightarrow> None | Some b \<Rightarrow> if length b = 32 then Some b else None),
           or_Score = r_score r, or_Deps = r_deps r, or_InputsConsumed = r_inputs_consumed r,
           or_ConsumedBy = r_consumed_by r, or_CreatedAt = r_created_at r\<rparr>)"

fun scanOutputs :: "sdk \<Rightarrow> output_row list \<Rightarrow> err + output_record list" where
  "scanOutputs K [] = Inr []"
| "scanOutputs K (r # rs) =
     rbind (hydrateRecord K r) (\<lambda>x. rbind (scanOutputs K rs) (\<lambda>xs. Inr (x # xs)))"

definition scanOutput :: "sdk \<Rightarrow> output_row option \<Rightarrow> err + output_record option" where
  "scanOutput K row = (case row of None \<Rightarrow> Inr None | Some r \<Rightarrow> rbind (hydrateRecord K r) (\<lambda>x. Inr (Some x)))"

text \<open>\<open>ORDER BY score\<close> and \<open>LIMIT\<close>.\<close>

definition order_limit :: "query_opts \<Rightarrow> output_row list \<Rightarrow> output_row list" where
  "order_limit q rs =
     limited q (sort_key (\<lambda>r. if qo_Reverse q then - f64_ord (r_score r) else f64_ord (r_score r)) rs)"

definition utxo_rows :: "query_opts \<Rightarrow> output_row list \<Rightarrow> output_row list" where
  "utxo_rows q rs = filter (\<lambda>r. r_spend_txid r = None \<and> since_ok q (r_score r)) rs"

text \<open>\<open>events e JOIN outputs o ON e.outpoint = o.outpoint WHERE e.event = ?\<close>, with the event's score.\<close>

definition join_rows :: "bytes \<Rightarrow> query_opts \<Rightarrow> event_row list \<Rightarrow> output_row list \<Rightarrow> output_row list" where
  "join_rows e q es rs = concat (map (\<lambda>x.
     if ev_event x = e \<and> since_ok q (ev_score x)
     then map (r_score_update (\<lambda>_. ev_score x)) (filter (\<lambda>r. r_outpoint r = ev_outpoint x) rs)
     else []) es)"

section \<open>Sound tables and their view\<close>

definition row_ok :: "sdk \<Rightarrow> output_row \<Rightarrow> bool" where
  "row_ok K r \<longleftrightarrow> op_from_bytes K (r_outpoint r) \<noteq> None \<and> length (r_txid r) = 32 \<and>
     (\<forall>b. r_spend_txid r = Some b \<longrightarrow> length b = 32) \<and> f64_plain (r_score r)"

definition rows_ok :: "sdk \<Rightarrow> output_row list \<Rightarrow> bool" where
  "rows_ok K rs \<longleftrightarrow> t_ok r_outpoint rs \<and> (\<forall>r \<in> set rs. row_ok K r)"

definition events_ok :: "sdk \<Rightarrow> event_row list \<Rightarrow> bool" where
  "events_ok K es \<longleftrightarrow> t_ok event_key es \<and> (\<forall>e \<in> set es. op_from_bytes K (ev_outpoint e) \<noteq> None \<and> f64_plain (ev_score e))"

definition rec_of :: "sdk \<Rightarrow> output_row \<Rightarrow> output_record" where
  "rec_of K r =
     \<lparr>or_Outpoint = the (op_from_bytes K (r_outpoint r)), or_Txid = r_txid r, or_Satoshis = r_satoshis r,
      or_SpendTxid = r_spend_txid r, or_Score = r_score r, or_Deps = r_deps r,
      or_InputsConsumed = r_inputs_consumed r, or_ConsumedBy = r_consumed_by r, or_CreatedAt = r_created_at r\<rparr>"

definition out_view :: "sdk \<Rightarrow> output_row list \<Rightarrow> outpoint \<Rightarrow> output_record option" where
  "out_view K rs op = (if wf_op op then map_option (rec_of K) (t_get r_outpoint (op_bytes K op) rs) else None)"

definition ev_view :: "sdk \<Rightarrow> event_row list \<Rightarrow> bytes \<Rightarrow> outpoint \<Rightarrow> f64 option" where
  "ev_view K es e op = (if wf_op op then map_option ev_score (t_get event_key (e, op_bytes K op) es) else None)"

lemma rec_of_simps [simp]:
  "or_Txid (rec_of K r) = r_txid r" "or_Satoshis (rec_of K r) = r_satoshis r" "or_SpendTxid (rec_of K r) = r_spend_txid r"
  "or_Score (rec_of K r) = r_score r" "or_Deps (rec_of K r) = r_deps r" "or_ConsumedBy (rec_of K r) = r_consumed_by r"
  "rec_of K (r\<lparr>r_score := s\<rparr>) = (rec_of K r)\<lparr>or_Score := s\<rparr>"
  "rec_of K (r\<lparr>r_spend_txid := p\<rparr>) = (rec_of K r)\<lparr>or_SpendTxid := p\<rparr>"
  "rec_of K (r\<lparr>r_consumed_by := c\<rparr>) = (rec_of K r)\<lparr>or_ConsumedBy := c\<rparr>"
  by (simp_all add: rec_of_def)

lemma hydrate_ok: "row_ok K r \<Longrightarrow> hydrateRecord K r = Inr (rec_of K r)"
  by (auto simp: row_ok_def hydrateRecord_def rec_of_def split: option.splits)

lemma scan_ok: "\<forall>r \<in> set rs. row_ok K r \<Longrightarrow> scanOutputs K rs = Inr (map (rec_of K) rs)"
  by (induction rs) (auto simp: hydrate_ok)

context sdk_laws
begin

lemma row_key: "row_ok K r \<Longrightarrow> wf_op (or_Outpoint (rec_of K r)) \<and> op_bytes K (or_Outpoint (rec_of K r)) = r_outpoint r"
  by (auto simp: row_ok_def rec_of_def dest: op_from_wf)

lemma out_view_iff:
  assumes "rows_ok K rs"
  shows "out_view K rs op = Some x \<longleftrightarrow> (\<exists>r \<in> set rs. rec_of K r = x \<and> or_Outpoint x = op)"
proof
  assume "out_view K rs op = Some x"
  then obtain r where op: "wf_op op" and r: "t_get r_outpoint (op_bytes K op) rs = Some r" "x = rec_of K r"
    by (auto simp: out_view_def split: if_splits)
  then have mem: "r \<in> set rs" "r_outpoint r = op_bytes K op" by (auto dest: t_get_SomeD)
  with assms have "row_ok K r" by (simp add: rows_ok_def)
  with row_key[of r] mem have "wf_op (or_Outpoint (rec_of K r))" "op_bytes K (or_Outpoint (rec_of K r)) = op_bytes K op"
    by auto
  with op have "or_Outpoint (rec_of K r) = op" using op_bytes_inj by blast
  with mem r show "\<exists>r \<in> set rs. rec_of K r = x \<and> or_Outpoint x = op" by auto
next
  assume "\<exists>r \<in> set rs. rec_of K r = x \<and> or_Outpoint x = op"
  then obtain r where r: "r \<in> set rs" "rec_of K r = x" "or_Outpoint x = op" by auto
  with assms have "row_ok K r" by (simp add: rows_ok_def)
  with row_key[of r] r have op: "wf_op op" "op_bytes K op = r_outpoint r" by auto
  have "t_get r_outpoint (op_bytes K op) rs = Some r"
    using assms r op by (auto simp: rows_ok_def t_get_iff)
  with op r show "out_view K rs op = Some x" by (simp add: out_view_def)
qed

lemma out_view_set: "rows_ok K rs \<Longrightarrow> {x. (\<exists>op. out_view K rs op = Some x) \<and> P x} = rec_of K ` {r \<in> set rs. P (rec_of K r)}"
  by (auto simp: out_view_iff)

lemma out_view_ok: "rows_ok K rs \<Longrightarrow> out_view K rs op = Some r \<Longrightarrow> or_Outpoint r = op \<and> wf_op op"
  by (auto simp: out_view_iff rows_ok_def dest: row_key)

lemma distinct_records:
  assumes "t_ok r_outpoint rs" and "\<forall>r \<in> set rs. row_ok K r"
  shows "distinct (map or_Outpoint (map (rec_of K) rs))"
proof -
  have "map r_outpoint rs = map (op_bytes K) (map or_Outpoint (map (rec_of K) rs))"
    using assms(2) row_key by (induction rs) auto
  with assms(1) show ?thesis unfolding t_ok_def by (metis distinct_map)
qed

lemma picks_rows:
  assumes rs: "rows_ok K rs" and v: "tv_outs v = out_view K rs" and m: "mset ys = mset (filter Q rs)"
    and Q: "\<And>r. r \<in> set rs \<Longrightarrow> Q r = P (rec_of K r)"
  shows "picks v P (map (rec_of K) ys)"
proof -
  have "set ys = set (filter Q rs)" using m by (metis set_mset_mset)
  then have set: "set ys = {r \<in> set rs. P (rec_of K r)}" using Q by auto
  have "t_ok r_outpoint (filter Q rs)" using rs by (simp add: rows_ok_def t_ok_def distinct_map_filter)
  moreover have "mset (map r_outpoint ys) = mset (map r_outpoint (filter Q rs))" using m by simp
  ultimately have "distinct (map r_outpoint ys)" unfolding t_ok_def using mset_eq_imp_distinct_iff by blast
  moreover have "\<forall>r \<in> set ys. row_ok K r" using set rs by (simp add: rows_ok_def)
  ultimately show ?thesis unfolding picks_def v out_view_set[OF rs] set[symmetric]
    using distinct_records[of ys] by (simp add: t_ok_def)
qed

lemma lists_rows:
  assumes d: "t_ok r_outpoint rs" and ok: "\<forall>r \<in> set rs. row_ok K r" and S: "S = rec_of K ` set rs"
    and m: "mset ys = mset rs"
  shows "listed q S (map (rec_of K) (order_limit q ys))"
proof -
  let ?k = "\<lambda>r. if qo_Reverse q then - f64_ord (r_score r) else f64_ord (r_score r)"
  let ?zs = "sort_key ?k ys"
  have mz: "mset ?zs = mset rs" using m by simp
  have "mset (map r_outpoint ?zs) = mset (map r_outpoint rs)" using m by simp
  then have "distinct (map r_outpoint ?zs)" using d mset_eq_imp_distinct_iff unfolding t_ok_def by blast
  moreover have set: "set ?zs = set rs" by (metis mz set_mset_mset)
  ultimately have "distinct (map or_Outpoint (map (rec_of K) ?zs))"
    using distinct_records[of ?zs] ok by (simp add: t_ok_def)
  moreover have "set (map (rec_of K) ?zs) = S" unfolding set_map set S ..
  moreover have "map (score_key q) (map (rec_of K) ?zs) = map ?k ?zs"
    by (simp add: score_key_def)
  then have "sorted (map (score_key q) (map (rec_of K) ?zs))" by (simp only: sorted_sort_key)
  moreover have "map (rec_of K) (order_limit q ys) = limited q (map (rec_of K) ?zs)"
    by (simp add: order_limit_def limited_def take_map)
  ultimately show ?thesis unfolding listed_def by blast
qed

lemma utxos_listed:
  assumes rs: "rows_ok K rs" and v: "tv_outs v = out_view K rs" and m: "mset ys = mset (utxo_rows q rs)"
  shows "listed q (view_utxos q v) (map (rec_of K) (order_limit q ys))"
proof (rule lists_rows[OF _ _ _ m])
  show "t_ok r_outpoint (utxo_rows q rs)" using rs by (simp add: rows_ok_def t_ok_def utxo_rows_def distinct_map_filter)
  show "\<forall>r \<in> set (utxo_rows q rs). row_ok K r" using rs by (simp add: rows_ok_def utxo_rows_def)
  have "view_utxos q v = {x. (\<exists>op. out_view K rs op = Some x) \<and> (or_SpendTxid x = None \<and> since_ok q (or_Score x))}"
    by (simp add: view_utxos_def v)
  also have "\<dots> = rec_of K ` set (utxo_rows q rs)" unfolding out_view_set[OF rs] utxo_rows_def by simp
  finally show "view_utxos q v = rec_of K ` set (utxo_rows q rs)" .
qed

lemma join_set:
  "set (join_rows e q es rs) = {r\<lparr>r_score := ev_score x\<rparr> | r x. x \<in> set es \<and> r \<in> set rs \<and>
     ev_event x = e \<and> since_ok q (ev_score x) \<and> r_outpoint r = ev_outpoint x}"
  by (auto simp: join_rows_def)

lemma join_distinct:
  assumes es: "t_ok event_key es" and rs: "t_ok r_outpoint rs"
  shows "t_ok r_outpoint (join_rows e q es rs)"
  using es
proof (induction es)
  case Nil
  show ?case by (simp add: join_rows_def t_ok_def)
next
  case (Cons x es)
  have one: "distinct (map r_outpoint (filter (\<lambda>r. r_outpoint r = ev_outpoint x) rs))"
    using rs by (simp add: t_ok_def distinct_map_filter)
  have cons: "join_rows e q (x # es) rs =
      (if ev_event x = e \<and> since_ok q (ev_score x)
       then map (r_score_update (\<lambda>_. ev_score x)) (filter (\<lambda>r. r_outpoint r = ev_outpoint x) rs) else []) @ join_rows e q es rs"
    by (simp add: join_rows_def)
  have later: "r_outpoint r \<noteq> ev_outpoint x" if "r \<in> set (join_rows e q es rs)" "ev_event x = e" for r
  proof
    assume eq: "r_outpoint r = ev_outpoint x"
    from that(1) obtain y where "y \<in> set es" "ev_event y = e" "ev_outpoint y = r_outpoint r"
      by (auto simp: join_set)
    then have "event_key x \<in> event_key ` set es" using that(2) eq by (auto simp: event_key_def intro!: image_eqI[of _ _ y])
    with Cons.prems show False by (simp add: t_ok_def)
  qed
  show ?case
  proof (cases "ev_event x = e \<and> since_ok q (ev_score x)")
    case True
    have "r_outpoint ` {r \<in> set rs. r_outpoint r = ev_outpoint x} \<inter> r_outpoint ` set (join_rows e q es rs) = {}"
      using later True by fastforce
    with True Cons one show ?thesis unfolding cons t_ok_def by (simp add: t_ok_def comp_def)
  next
    case False
    with Cons show ?thesis unfolding cons by (auto simp: t_ok_def)
  qed
qed

lemma event_view_set:
  assumes rs: "rows_ok K rs" and es: "events_ok K es" and v: "tv_outs v = out_view K rs" "tv_events v = ev_view K es"
  shows "view_event e q v = rec_of K ` set (join_rows e q es rs)"
proof -
  have iff: "(\<exists>op. tv_outs v op = Some a \<and> tv_events v e op = Some sc) \<longleftrightarrow>
    (\<exists>r \<in> set rs. \<exists>x \<in> set es. a = rec_of K r \<and> sc = ev_score x \<and> ev_event x = e \<and> r_outpoint r = ev_outpoint x)" for a sc
  proof
    assume "\<exists>op. tv_outs v op = Some a \<and> tv_events v e op = Some sc"
    then obtain op where op: "out_view K rs op = Some a" "ev_view K es e op = Some sc" by (auto simp: v)
    then obtain r where r: "r \<in> set rs" "rec_of K r = a" "or_Outpoint a = op" using out_view_iff[OF rs] by blast
    then have "row_ok K r" using rs by (simp add: rows_ok_def)
    then have "r_outpoint r = op_bytes K op" using row_key[of r] r by simp
    moreover obtain x where "x \<in> set es" "event_key x = (e, op_bytes K op)" "sc = ev_score x"
      using op(2) by (auto simp: ev_view_def split: if_splits dest: t_get_SomeD)
    ultimately show "\<exists>r \<in> set rs. \<exists>x \<in> set es. a = rec_of K r \<and> sc = ev_score x \<and> ev_event x = e \<and> r_outpoint r = ev_outpoint x"
      using r by (intro bexI[of _ r] bexI[of _ x]) (auto simp: event_key_def)
  next
    assume "\<exists>r \<in> set rs. \<exists>x \<in> set es. a = rec_of K r \<and> sc = ev_score x \<and> ev_event x = e \<and> r_outpoint r = ev_outpoint x"
    then obtain r x where rx: "r \<in> set rs" "x \<in> set es" "a = rec_of K r" "sc = ev_score x" "ev_event x = e"
      "r_outpoint r = ev_outpoint x" by blast
    then have "row_ok K r" using rs by (simp add: rows_ok_def)
    from row_key[OF this] have k: "wf_op (or_Outpoint a)" "op_bytes K (or_Outpoint a) = ev_outpoint x" using rx by auto
    have "t_get event_key (e, ev_outpoint x) es = Some x" using es rx by (auto simp: events_ok_def t_get_iff event_key_def)
    then have "tv_events v e (or_Outpoint a) = Some sc" using k rx by (simp add: v ev_view_def)
    moreover have "tv_outs v (or_Outpoint a) = Some a" using out_view_iff[OF rs] rx by (auto simp: v)
    ultimately show "\<exists>op. tv_outs v op = Some a \<and> tv_events v e op = Some sc" by blast
  qed
  have "view_event e q v =
      {a\<lparr>or_Score := sc\<rparr> | a sc. since_ok q sc \<and> (\<exists>op. tv_outs v op = Some a \<and> tv_events v e op = Some sc)}"
    unfolding view_event_def by blast
  also have "\<dots> = {a\<lparr>or_Score := sc\<rparr> | a sc. since_ok q sc \<and> (\<exists>r \<in> set rs. \<exists>x \<in> set es. a = rec_of K r \<and>
      sc = ev_score x \<and> ev_event x = e \<and> r_outpoint r = ev_outpoint x)}"
    unfolding iff ..
  also have "\<dots> = {rec_of K (r\<lparr>r_score := ev_score x\<rparr>) | r x. x \<in> set es \<and> r \<in> set rs \<and>
      ev_event x = e \<and> since_ok q (ev_score x) \<and> r_outpoint r = ev_outpoint x}"
    unfolding rec_of_simps by blast
  also have "\<dots> = rec_of K ` set (join_rows e q es rs)" unfolding join_set by (simp only: image_Collect) blast
  finally show ?thesis .
qed

lemma events_listed:
  assumes rs: "rows_ok K rs" and es: "events_ok K es" and v: "tv_outs v = out_view K rs" "tv_events v = ev_view K es"
    and m: "mset ys = mset (join_rows e q es rs)"
  shows "listed q (view_event e q v) (map (rec_of K) (order_limit q ys))"
proof (rule lists_rows[OF _ _ _ m])
  show "t_ok r_outpoint (join_rows e q es rs)" using rs es by (simp add: rows_ok_def events_ok_def join_distinct)
  show "\<forall>r \<in> set (join_rows e q es rs). row_ok K r"
    using rs es by (auto simp: join_set rows_ok_def events_ok_def row_ok_def)
  show "view_event e q v = rec_of K ` set (join_rows e q es rs)" by (rule event_view_set[OF rs es v])
qed

section \<open>Statements on rows\<close>

lemma rows_replace:
  assumes "rows_ok K rs" and "row_ok K r"
  shows "rows_ok K (t_replace r_outpoint r rs)"
  using assms by (auto simp: rows_ok_def table_simps)

lemma rows_update:
  assumes "rows_ok K rs" and "\<And>r. r_outpoint (f r) = r_outpoint r" and "\<And>r. row_ok K r \<Longrightarrow> row_ok K (f r)"
  shows "rows_ok K (t_update P f rs)"
  using assms(1,3) t_ok_update[where k = r_outpoint, OF assms(2)] by (auto simp: rows_ok_def table_simps)

lemma rows_delete: "rows_ok K rs \<Longrightarrow> rows_ok K (t_delete P rs)"
  by (auto simp: rows_ok_def table_simps)

lemma out_view_replace:
  assumes "wf_op op" and "r_outpoint r = op_bytes K op"
  shows "out_view K (t_replace r_outpoint r rs) = (out_view K rs)(op \<mapsto> rec_of K r)"
proof
  fix op'
  show "out_view K (t_replace r_outpoint r rs) op' = ((out_view K rs)(op \<mapsto> rec_of K r)) op'"
    using assms by (cases "wf_op op'") (auto simp: out_view_def table_simps op_bytes_inj)
qed

lemma out_view_update:
  assumes "wf_op op" and f: "\<And>r. r_outpoint (f r) = r_outpoint r" and g: "\<And>r. rec_of K (f r) = g (rec_of K r)"
  shows "out_view K (t_update (\<lambda>r. r_outpoint r = op_bytes K op) f rs) =
    (out_view K rs)(op := map_option g (out_view K rs op))"
proof
  fix op'
  have "map_option (rec_of K) (map_option (\<lambda>r. if r_outpoint r = op_bytes K op then f r else r) (t_get r_outpoint (op_bytes K op') rs)) =
    (if op' = op then map_option g (out_view K rs op) else out_view K rs op')" if "wf_op op'"
  proof (cases "t_get r_outpoint (op_bytes K op') rs")
    case None
    with that show ?thesis by (auto simp: out_view_def)
  next
    case (Some r)
    then have "r_outpoint r = op_bytes K op'" by (auto dest: t_get_SomeD)
    with Some that assms(1) g show ?thesis by (auto simp: out_view_def op_bytes_inj)
  qed
  then show "out_view K (t_update (\<lambda>r. r_outpoint r = op_bytes K op) f rs) op' =
      ((out_view K rs)(op := map_option g (out_view K rs op))) op'"
    using assms(1) by (auto simp: out_view_def t_get_update[where k = r_outpoint, OF f])
qed

lemma out_view_delete:
  assumes "rows_ok K rs" and "\<And>r. r \<in> set rs \<Longrightarrow> P r = Q (rec_of K r)"
  shows "out_view K (t_delete P rs) op =
    (case out_view K rs op of None \<Rightarrow> None | Some x \<Rightarrow> if Q x then None else Some x)"
  using assms by (auto simp: out_view_def rows_ok_def table_simps split: option.splits dest: t_get_SomeD)

lemma events_replace:
  assumes "events_ok K es" and "wf_op op" and "f64_plain sc"
  shows "events_ok K (t_replace event_key \<lparr>ev_event = e, ev_outpoint = op_bytes K op, ev_score = sc\<rparr> es)"
  using assms by (auto simp: events_ok_def table_simps op_from_bytes)

lemma events_update:
  assumes "events_ok K es" and "f64_plain sc"
  shows "events_ok K (t_update P (ev_score_update (\<lambda>_. sc)) es)"
  using assms t_ok_update[where k = event_key and f = "ev_score_update (\<lambda>_. sc)"]
  by (auto simp: events_ok_def table_simps event_key_def)

lemma events_delete: "events_ok K es \<Longrightarrow> events_ok K (t_delete P es)"
  by (auto simp: events_ok_def table_simps)

lemma ev_view_replace:
  assumes "wf_op op" and "event_key x = (e, op_bytes K op)"
  shows "ev_view K (t_replace event_key x es) = (ev_view K es)(e := (ev_view K es e)(op \<mapsto> ev_score x))"
proof (intro ext)
  fix e' op'
  show "ev_view K (t_replace event_key x es) e' op' = ((ev_view K es)(e := (ev_view K es e)(op \<mapsto> ev_score x))) e' op'"
    using assms by (cases "wf_op op'") (auto simp: ev_view_def table_simps op_bytes_inj)
qed

lemma ev_view_delete:
  assumes "events_ok K es"
  shows "ev_view K (t_delete P es) e op =
    (case t_get event_key (e, op_bytes K op) es of
       None \<Rightarrow> None | Some x \<Rightarrow> if wf_op op \<and> \<not> P x then Some (ev_score x) else None)"
  using assms by (auto simp: ev_view_def events_ok_def table_simps split: option.splits)

lemma ev_view_delete_op:
  assumes "events_ok K es" and "wf_op op"
  shows "ev_view K (t_delete (\<lambda>x. ev_outpoint x = op_bytes K op) es) = (\<lambda>e. (ev_view K es e)(op := None))"
proof (intro ext)
  fix e op'
  show "ev_view K (t_delete (\<lambda>x. ev_outpoint x = op_bytes K op) es) e op' = ((ev_view K es e)(op := None)) op'"
    unfolding ev_view_delete[OF assms(1)] using assms(2)
    by (auto simp: ev_view_def event_key_def op_bytes_inj split: option.splits dest!: t_get_SomeD)
qed

lemma ev_view_delete_one:
  assumes "events_ok K es" and "wf_op op"
  shows "ev_view K (t_delete (\<lambda>x. ev_event x = e \<and> ev_outpoint x = op_bytes K op) es) =
    (ev_view K es)(e := (ev_view K es e)(op := None))"
proof (intro ext)
  fix e' op'
  show "ev_view K (t_delete (\<lambda>x. ev_event x = e \<and> ev_outpoint x = op_bytes K op) es) e' op' =
      ((ev_view K es)(e := (ev_view K es e)(op := None))) e' op'"
    unfolding ev_view_delete[OF assms(1)] using assms(2)
    by (auto simp: ev_view_def event_key_def op_bytes_inj split: option.splits dest!: t_get_SomeD)
qed

text \<open>The events whose outpoint is an output of a transaction.\<close>

lemma ev_view_update_tx:
  assumes rs: "rows_ok K rs"
  shows "ev_view K (t_update (\<lambda>x. ev_outpoint x \<in> r_outpoint ` {r \<in> set rs. r_txid r = t}) (ev_score_update (\<lambda>_. sc)) es) =
    (\<lambda>e op. if (\<exists>r. out_view K rs op = Some r \<and> or_Txid r = t)
       then map_option (\<lambda>_. sc) (ev_view K es e op) else ev_view K es e op)"
proof (intro ext)
  fix e op
  have tx: "op_bytes K op \<in> r_outpoint ` {r \<in> set rs. r_txid r = t} \<longleftrightarrow> (\<exists>r. out_view K rs op = Some r \<and> or_Txid r = t)"
    if op: "wf_op op"
  proof -
    have "t_get r_outpoint (op_bytes K op) rs = Some r \<longleftrightarrow> r \<in> set rs \<and> r_outpoint r = op_bytes K op" for r
      using rs by (simp add: rows_ok_def t_get_iff)
    then have ex: "(\<exists>r. out_view K rs op = Some r \<and> or_Txid r = t) \<longleftrightarrow> (\<exists>r. r \<in> set rs \<and> r_outpoint r = op_bytes K op \<and> r_txid r = t)"
      using op by (auto simp: out_view_def)
    show ?thesis unfolding ex by force
  qed
  have key: "event_key (ev_score_update (\<lambda>_. sc) x) = event_key x" for x by (simp add: event_key_def)
  show "ev_view K (t_update (\<lambda>x. ev_outpoint x \<in> r_outpoint ` {r \<in> set rs. r_txid r = t}) (ev_score_update (\<lambda>_. sc)) es) e op =
      (if (\<exists>r. out_view K rs op = Some r \<and> or_Txid r = t) then map_option (\<lambda>_. sc) (ev_view K es e op) else ev_view K es e op)"
  proof (cases "wf_op op \<and> t_get event_key (e, op_bytes K op) es \<noteq> None")
    case True
    then obtain x where x: "t_get event_key (e, op_bytes K op) es = Some x" by auto
    then have "ev_outpoint x = op_bytes K op" by (auto simp: event_key_def dest: t_get_SomeD)
    with True x tx show ?thesis by (auto simp: ev_view_def t_get_update[where k = event_key, OF key])
  next
    case False
    then show ?thesis by (auto simp: ev_view_def t_get_update[where k = event_key, OF key])
  qed
qed

end

end
