(* ===== verification/TopicTables.thy ===== *)
theory TopicTables
  imports OutputRows
begin

text \<open>
  The tables of one topic and the statements that both storages of \<open>pkg/overlay/storage\<close> send
  to them, each a function on the tables: a write returns the new tables or the error of the
  statement, a query returns its answer. The lemmas give what each statement does to the view of
  the tables. SQLite keeps the tables of a topic in a file of their own; PostgreSQL keeps the
  rows of all topics together, and every statement restricts itself to the rows of one topic.
\<close>

section \<open>Tables\<close>

record topic_tables =
  tb_outputs :: "output_row list"
  tb_events :: "event_row list"
  tb_applied :: "(txid \<times> f64) list"
  tb_peers :: "(bytes \<times> f64) list"

definition new_tables :: topic_tables where
  "new_tables = \<lparr>tb_outputs = [], tb_events = [], tb_applied = [], tb_peers = []\<rparr>"

section \<open>Statements\<close>

definition new_row :: "sdk \<Rightarrow> outpoint \<Rightarrow> txid \<Rightarrow> 64 word \<Rightarrow> bytes \<Rightarrow> bytes \<Rightarrow> f64 \<Rightarrow> int \<Rightarrow> output_row" where
  "new_row K op txid sats deps ins sc now =
     \<lparr>r_outpoint = op_bytes K op, r_txid = txid, r_satoshis = sats, r_spend_txid = None, r_score = sc,
      r_deps = deps, r_inputs_consumed = ins, r_consumed_by = [], r_created_at = now\<rparr>"

definition select_output :: "sdk \<Rightarrow> outpoint \<Rightarrow> topic_tables \<Rightarrow> err + output_record option" where
  "select_output K op tb = scanOutput K (t_get r_outpoint (op_bytes K op) (tb_outputs tb))"

definition select_outputs :: "sdk \<Rightarrow> sql_engine \<Rightarrow> outpoint list \<Rightarrow> topic_tables \<Rightarrow> err + output_record list" where
  "select_outputs K G ops tb =
     (if sq_max_args G < length ops then Inl (ErrOther ''too many SQL variables'')
      else scanOutputs K (sq_arrange G ''FindOutputs''
        (filter (\<lambda>r. r_outpoint r \<in> set (map (op_bytes K) ops)) (tb_outputs tb))))"

definition select_tx :: "sdk \<Rightarrow> sql_engine \<Rightarrow> txid \<Rightarrow> topic_tables \<Rightarrow> err + output_record list" where
  "select_tx K G txid tb =
     scanOutputs K (sq_arrange G ''FindOutputsForTransaction'' (filter (\<lambda>r. r_txid r = txid) (tb_outputs tb)))"

definition select_utxos :: "sdk \<Rightarrow> sql_engine \<Rightarrow> query_opts option \<Rightarrow> topic_tables \<Rightarrow> err + output_record list" where
  "select_utxos K G opts tb =
     scanOutputs K (order_limit (opts_of opts) (sq_arrange G ''FindUTXOs'' (utxo_rows (opts_of opts) (tb_outputs tb))))"

definition select_event :: "sdk \<Rightarrow> sql_engine \<Rightarrow> bytes \<Rightarrow> query_opts option \<Rightarrow> topic_tables \<Rightarrow> err + output_record list" where
  "select_event K G event opts tb =
     scanOutputs K (order_limit (opts_of opts)
       (sq_arrange G ''FindByEvent'' (join_rows event (opts_of opts) (tb_events tb) (tb_outputs tb))))"

definition select_applied :: "txid \<Rightarrow> topic_tables \<Rightarrow> err + bool" where
  "select_applied txid tb = Inr (t_get fst txid (tb_applied tb) \<noteq> None)"

definition select_since :: "bytes \<Rightarrow> topic_tables \<Rightarrow> err + f64" where
  "select_since host tb = Inr (case t_get fst host (tb_peers tb) of None \<Rightarrow> 0 | Some (_, s) \<Rightarrow> s)"

definition set_spend_txid :: "sdk \<Rightarrow> outpoint \<Rightarrow> txid \<Rightarrow> topic_tables \<Rightarrow> err + topic_tables" where
  "set_spend_txid K op spendTxid tb = Inr (tb\<lparr>tb_outputs :=
     t_update (\<lambda>r. r_outpoint r = op_bytes K op) (r_spend_txid_update (\<lambda>_. Some spendTxid)) (tb_outputs tb)\<rparr>)"

definition set_consumed_by :: "sdk \<Rightarrow> outpoint \<Rightarrow> bytes \<Rightarrow> topic_tables \<Rightarrow> err + topic_tables" where
  "set_consumed_by K op consumedBy tb = Inr (tb\<lparr>tb_outputs :=
     t_update (\<lambda>r. r_outpoint r = op_bytes K op) (r_consumed_by_update (\<lambda>_. consumedBy)) (tb_outputs tb)\<rparr>)"

definition delete_output :: "sdk \<Rightarrow> outpoint \<Rightarrow> topic_tables \<Rightarrow> err + topic_tables" where
  "delete_output K op tb = Inr (tb\<lparr>tb_outputs := t_delete (\<lambda>r. r_outpoint r = op_bytes K op) (tb_outputs tb)\<rparr>)"

definition delete_events :: "sdk \<Rightarrow> outpoint \<Rightarrow> topic_tables \<Rightarrow> err + topic_tables" where
  "delete_events K op tb = Inr (tb\<lparr>tb_events := t_delete (\<lambda>e. ev_outpoint e = op_bytes K op) (tb_events tb)\<rparr>)"

definition delete_tx :: "txid \<Rightarrow> topic_tables \<Rightarrow> err + topic_tables" where
  "delete_tx txid tb = Inr (tb\<lparr>tb_outputs := t_delete (\<lambda>r. r_txid r = txid) (tb_outputs tb)\<rparr>)"

definition delete_event :: "sdk \<Rightarrow> bytes \<Rightarrow> outpoint \<Rightarrow> topic_tables \<Rightarrow> err + topic_tables" where
  "delete_event K event op tb = Inr (tb\<lparr>tb_events :=
     t_delete (\<lambda>e. ev_event e = event \<and> ev_outpoint e = op_bytes K op) (tb_events tb)\<rparr>)"

definition of_tx :: "txid \<Rightarrow> output_row list \<Rightarrow> bytes set" where
  "of_tx txid rs = set (map r_outpoint (filter (\<lambda>r. r_txid r = txid) rs))"

text \<open>\<open>real\<close> is what the column makes of a score: no row, no value is stored.\<close>

definition set_event_scores :: "(f64 \<Rightarrow> err + f64) \<Rightarrow> txid \<Rightarrow> f64 \<Rightarrow> topic_tables \<Rightarrow> err + topic_tables" where
  "set_event_scores real txid sc tb =
     (if list_ex (\<lambda>e. ev_outpoint e \<in> of_tx txid (tb_outputs tb)) (tb_events tb)
      then rbind (real sc) (\<lambda>s. Inr (tb\<lparr>tb_events :=
        t_update (\<lambda>e. ev_outpoint e \<in> of_tx txid (tb_outputs tb)) (ev_score_update (\<lambda>_. s)) (tb_events tb)\<rparr>))
      else Inr tb)"

lemmas statement_defs = select_output_def select_outputs_def select_tx_def select_utxos_def select_event_def
  select_applied_def select_since_def set_spend_txid_def set_consumed_by_def delete_output_def delete_events_def
  delete_tx_def delete_event_def set_event_scores_def

section \<open>What the statements do to the view\<close>

definition tables_ok :: "sdk \<Rightarrow> topic_tables \<Rightarrow> bool" where
  "tables_ok K tb \<longleftrightarrow> rows_ok K (tb_outputs tb) \<and> events_ok K (tb_events tb) \<and> t_ok fst (tb_applied tb) \<and> t_ok fst (tb_peers tb)"

definition tables_view :: "sdk \<Rightarrow> txid set \<Rightarrow> topic_tables \<Rightarrow> topic_view" where
  "tables_view K X tb =
     \<lparr>tv_outs = out_view K (tb_outputs tb), tv_events = ev_view K (tb_events tb),
      tv_applied = (\<lambda>x. t_get fst x (tb_applied tb) \<noteq> None),
      tv_peers = (\<lambda>h. map_option snd (t_get fst h (tb_peers tb))), tv_txids = X\<rparr>"

text \<open>A write that succeeds on sound tables, and a query that answers from them.\<close>

definition writes :: "sdk \<Rightarrow> (topic_tables \<Rightarrow> err + topic_tables) \<Rightarrow> (topic_view \<Rightarrow> topic_view \<Rightarrow> bool) \<Rightarrow> bool" where
  "writes K f R \<longleftrightarrow> (\<forall>tb X. tables_ok K tb \<longrightarrow>
     (\<exists>tb'. f tb = Inr tb' \<and> tables_ok K tb' \<and> R (tables_view K X tb) (tables_view K X tb')))"

definition selects :: "sdk \<Rightarrow> (topic_tables \<Rightarrow> err + 'a) \<Rightarrow> (topic_view \<Rightarrow> 'a \<Rightarrow> bool) \<Rightarrow> bool" where
  "selects K f P \<longleftrightarrow> (\<forall>tb X. tables_ok K tb \<longrightarrow> (\<exists>x. f tb = Inr x \<and> P (tables_view K X tb) x))"

lemma writesI:
  assumes "\<And>tb X. tables_ok K tb \<Longrightarrow> \<exists>tb'. f tb = Inr tb' \<and> tables_ok K tb' \<and> R (tables_view K X tb) (tables_view K X tb')"
  shows "writes K f R"
  using assms by (simp add: writes_def)

lemma selectsI:
  assumes "\<And>tb X. tables_ok K tb \<Longrightarrow> \<exists>x. f tb = Inr x \<and> P (tables_view K X tb) x"
  shows "selects K f P"
  using assms by (simp add: selects_def)

locale table_laws = sdk_laws +
  fixes G :: sql_engine
  assumes engine: "engine_laws G"
begin

lemma arranged [simp]: "mset (sq_arrange G q xs) = mset xs" "set (sq_arrange G q xs) = set xs"
  using engine by (simp_all add: engine_laws_def) (metis engine engine_laws_def set_mset_mset)

lemma arranged_page: "set (order_limit q (sq_arrange G s xs)) \<subseteq> set xs"
proof -
  have "set (limited q ys) \<subseteq> set ys" for ys :: "output_row list" by (simp add: limited_def set_take_subset)
  then have "set (order_limit q (sq_arrange G s xs)) \<subseteq> set (sort_key (\<lambda>r. if qo_Reverse q then - f64_ord (r_score r) else f64_ord (r_score r)) (sq_arrange G s xs))"
    unfolding order_limit_def .
  then show ?thesis by simp
qed

lemma utxo_scan:
  assumes "rows_ok K rs"
  shows "scanOutputs K (order_limit q (sq_arrange G s (utxo_rows q rs))) =
    Inr (map (rec_of K) (order_limit q (sq_arrange G s (utxo_rows q rs))))"
  by (rule scan_ok) (use assms arranged_page[of q s "utxo_rows q rs"] in \<open>auto simp: rows_ok_def utxo_rows_def\<close>)

lemma join_scan:
  assumes "rows_ok K rs" and "events_ok K es"
  shows "scanOutputs K (order_limit q (sq_arrange G s (join_rows e q es rs))) =
    Inr (map (rec_of K) (order_limit q (sq_arrange G s (join_rows e q es rs))))"
proof (rule scan_ok)
  have "row_ok K r" if "r \<in> set (join_rows e q es rs)" for r
    using that assms by (auto simp: join_set rows_ok_def events_ok_def row_ok_def)
  then show "\<forall>r \<in> set (order_limit q (sq_arrange G s (join_rows e q es rs))). row_ok K r"
    using arranged_page[of q s "join_rows e q es rs"] by blast
qed

lemma picks_scan:
  assumes rs: "rows_ok K rs" and v: "tv_outs v = out_view K rs" and Q: "\<And>r. r \<in> set rs \<Longrightarrow> Q r = P (rec_of K r)"
  shows "\<exists>xs. scanOutputs K (sq_arrange G s (filter Q rs)) = Inr xs \<and> picks v P xs"
proof -
  have "scanOutputs K (sq_arrange G s (filter Q rs)) = Inr (map (rec_of K) (sq_arrange G s (filter Q rs)))"
    by (rule scan_ok) (use rs in \<open>simp add: rows_ok_def\<close>)
  moreover have "picks v P (map (rec_of K) (sq_arrange G s (filter Q rs)))"
    by (rule picks_rows[where Q = Q and P = P, OF rs v _ Q]) simp_all
  ultimately show ?thesis by blast
qed

lemma view_simps [simp]:
  "tv_outs (tables_view K X tb) = out_view K (tb_outputs tb)" "tv_events (tables_view K X tb) = ev_view K (tb_events tb)"
  by (simp_all add: tables_view_def)

lemma tables_okD:
  "tables_ok K tb \<Longrightarrow> rows_ok K (tb_outputs tb)" "tables_ok K tb \<Longrightarrow> events_ok K (tb_events tb)"
  "tables_ok K tb \<Longrightarrow> t_ok fst (tb_applied tb)" "tables_ok K tb \<Longrightarrow> t_ok fst (tb_peers tb)"
  by (simp_all add: tables_ok_def)

lemma get_law: "wf_op op \<Longrightarrow> selects K (select_output K op) (\<lambda>v r. r = tv_outs v op)"
  unfolding select_output_def
  by (rule selectsI)
    (auto simp: scanOutput_def out_view_def tables_ok_def rows_ok_def hydrate_ok split: option.splits dest: t_get_SomeD)

lemma find_law:
  assumes "\<forall>op \<in> set ops. wf_op op" and "length ops \<le> sq_max_args G"
  shows "selects K (select_outputs K G ops) (\<lambda>v. picks v (\<lambda>r. or_Outpoint r \<in> set ops))"
proof (rule selectsI)
  fix tb X
  assume tb: "tables_ok K tb"
  have "\<exists>x. scanOutputs K (sq_arrange G ''FindOutputs'' (filter (\<lambda>r. r_outpoint r \<in> set (map (op_bytes K) ops)) (tb_outputs tb))) =
      Inr x \<and> picks (tables_view K X tb) (\<lambda>r. or_Outpoint r \<in> set ops) x"
  proof (rule picks_scan[OF tables_okD(1)[OF tb]])
    fix r
    assume "r \<in> set (tb_outputs tb)"
    then have "row_ok K r" using tb by (simp add: tables_ok_def rows_ok_def)
    from row_key[OF this] show "(r_outpoint r \<in> set (map (op_bytes K) ops)) = (or_Outpoint (rec_of K r) \<in> set ops)"
      using assms(1) op_bytes_inj by (auto simp: image_iff) metis
  qed simp
  then show "\<exists>x. select_outputs K G ops tb = Inr x \<and> picks (tables_view K X tb) (\<lambda>r. or_Outpoint r \<in> set ops) x"
    using assms(2) by (simp add: select_outputs_def)
qed

lemma find_tx_law: "selects K (select_tx K G x) (\<lambda>v. picks v (\<lambda>r. or_Txid r = x))"
  unfolding select_tx_def
  by (rule selectsI, rule picks_scan[OF tables_okD(1)]) simp_all

lemma mark_law:
  assumes "wf_op op" and "length x = 32"
  shows "writes K (set_spend_txid K op x) (\<lambda>v v'. v' = v_MarkSpent op x v)"
  unfolding set_spend_txid_def
proof (rule writesI)
  fix tb X
  assume tb: "tables_ok K tb"
  let ?f = "r_spend_txid_update (\<lambda>_. Some x)"
  have "rows_ok K (t_update P ?f (tb_outputs tb))" for P
    by (rule rows_update[OF tables_okD(1)[OF tb]]) (use assms in \<open>auto simp: row_ok_def\<close>)
  moreover have "out_view K (t_update (\<lambda>r. r_outpoint r = op_bytes K op) ?f (tb_outputs tb)) =
      (out_view K (tb_outputs tb))(op := map_option (or_SpendTxid_update (\<lambda>_. Some x)) (out_view K (tb_outputs tb) op))"
    by (rule out_view_update[OF assms(1)]) (simp_all add: rec_of_def)
  ultimately show "\<exists>tb'. Inr (tb\<lparr>tb_outputs := t_update (\<lambda>r. r_outpoint r = op_bytes K op) ?f (tb_outputs tb)\<rparr>) = Inr tb' \<and>
      tables_ok K tb' \<and> tables_view K X tb' = v_MarkSpent op x (tables_view K X tb)"
    using tb by (simp add: tables_ok_def tables_view_def v_MarkSpent_def)
qed

lemma consumed_law:
  assumes "wf_op op"
  shows "writes K (set_consumed_by K op b) (\<lambda>v v'. v' = v_UpdateConsumedBy op b v)"
  unfolding set_consumed_by_def
proof (rule writesI)
  fix tb X
  assume tb: "tables_ok K tb"
  let ?f = "r_consumed_by_update (\<lambda>_. b)"
  have "rows_ok K (t_update P ?f (tb_outputs tb))" for P
    by (rule rows_update[OF tables_okD(1)[OF tb]]) (auto simp: row_ok_def)
  moreover have "out_view K (t_update (\<lambda>r. r_outpoint r = op_bytes K op) ?f (tb_outputs tb)) =
      (out_view K (tb_outputs tb))(op := map_option (or_ConsumedBy_update (\<lambda>_. b)) (out_view K (tb_outputs tb) op))"
    by (rule out_view_update[OF assms(1)]) (simp_all add: rec_of_def)
  ultimately show "\<exists>tb'. Inr (tb\<lparr>tb_outputs := t_update (\<lambda>r. r_outpoint r = op_bytes K op) ?f (tb_outputs tb)\<rparr>) = Inr tb' \<and>
      tables_ok K tb' \<and> tables_view K X tb' = v_UpdateConsumedBy op b (tables_view K X tb)"
    using tb by (simp add: tables_ok_def tables_view_def v_UpdateConsumedBy_def)
qed

lemma utxos_law: "selects K (select_utxos K G q) (\<lambda>v. listed (opts_of q) (view_utxos (opts_of q) v))"
  unfolding select_utxos_def
  by (rule selectsI) (auto simp: utxo_scan tables_ok_def intro!: utxos_listed)

lemma rollback_law: "writes K (delete_tx x) (\<lambda>v v'. v' = v_Rollback x v)"
  unfolding delete_tx_def
proof (rule writesI)
  fix tb X
  assume tb: "tables_ok K tb"
  have "out_view K (t_delete (\<lambda>r. r_txid r = x) (tb_outputs tb)) op =
      (case out_view K (tb_outputs tb) op of None \<Rightarrow> None | Some y \<Rightarrow> if or_Txid y = x then None else Some y)" for op
    by (rule out_view_delete[OF tables_okD(1)[OF tb]]) simp
  then show "\<exists>tb'. Inr (tb\<lparr>tb_outputs := t_delete (\<lambda>r. r_txid r = x) (tb_outputs tb)\<rparr>) = Inr tb' \<and>
      tables_ok K tb' \<and> tables_view K X tb' = v_Rollback x (tables_view K X tb)"
    using tb rows_delete[of "tb_outputs tb"] by (auto simp: tables_ok_def tables_view_def v_Rollback_def)
qed

lemma drop_law:
  assumes "wf_op op"
  shows "writes K (delete_output K op) (\<lambda>v v'. v' = v_DropOutput op v)"
  unfolding delete_output_def
proof (rule writesI)
  fix tb X
  assume tb: "tables_ok K tb"
  have key: "(r_outpoint r = op_bytes K op) = (or_Outpoint (rec_of K r) = op)" if "r \<in> set (tb_outputs tb)" for r
  proof -
    have "row_ok K r" using that tb by (simp add: tables_ok_def rows_ok_def)
    from row_key[OF this] assms show ?thesis by (metis op_bytes_inj)
  qed
  have "out_view K (t_delete (\<lambda>r. r_outpoint r = op_bytes K op) (tb_outputs tb)) p =
      (case out_view K (tb_outputs tb) p of None \<Rightarrow> None | Some y \<Rightarrow> if or_Outpoint y = op then None else Some y)" for p
    by (rule out_view_delete[where Q = "\<lambda>y. or_Outpoint y = op", OF tables_okD(1)[OF tb] key])
  then have "out_view K (t_delete (\<lambda>r. r_outpoint r = op_bytes K op) (tb_outputs tb)) = (out_view K (tb_outputs tb))(op := None)"
    using out_view_ok[OF tables_okD(1)[OF tb]] by (auto simp: fun_eq_iff split: option.splits)
  then show "\<exists>tb'. Inr (tb\<lparr>tb_outputs := t_delete (\<lambda>r. r_outpoint r = op_bytes K op) (tb_outputs tb)\<rparr>) = Inr tb' \<and>
      tables_ok K tb' \<and> tables_view K X tb' = v_DropOutput op (tables_view K X tb)"
    using tb rows_delete[of "tb_outputs tb"] by (simp add: tables_ok_def tables_view_def v_DropOutput_def)
qed

lemma drop_events_law:
  assumes "wf_op op"
  shows "writes K (delete_events K op) (\<lambda>v v'. v' = v\<lparr>tv_events := (\<lambda>e. (tv_events v e)(op := None))\<rparr>)"
  unfolding delete_events_def
  by (rule writesI) (use assms events_delete in \<open>auto simp: tables_ok_def tables_view_def ev_view_delete_op\<close>)

lemma has_applied_law: "selects K (select_applied x) (\<lambda>v b. b = tv_applied v x)"
  unfolding select_applied_def by (rule selectsI) (auto simp: tables_view_def)

lemma get_peer_law: "selects K (select_since host)
    (\<lambda>v s. s = (case tv_peers v host of None \<Rightarrow> 0 | Some x \<Rightarrow> x))"
  unfolding select_since_def by (rule selectsI) (auto simp: tables_view_def split: option.splits)

lemma delete_event_law:
  assumes "wf_op op"
  shows "writes K (delete_event K e op) (\<lambda>v v'. v' = v_DeleteEvent e op v)"
  unfolding delete_event_def
  by (rule writesI)
    (use assms events_delete in \<open>auto simp: tables_ok_def tables_view_def v_DeleteEvent_def ev_view_delete_one\<close>)

lemma find_event_law: "selects K (select_event K G e q)
    (\<lambda>v. listed (opts_of q) (view_event e (opts_of q) v))"
  unfolding select_event_def
  by (rule selectsI) (auto simp: join_scan tables_ok_def intro!: events_listed)

lemma update_events_law:
  assumes "f64_plain sc" and real: "real sc = Inr sc"
  shows "writes K (set_event_scores real x sc) (\<lambda>v v'. v' = v_UpdateEventsForTxid x sc v)"
  unfolding set_event_scores_def
proof (rule writesI)
  fix tb X
  assume tb: "tables_ok K tb"
  let ?P = "\<lambda>e. ev_outpoint e \<in> of_tx x (tb_outputs tb)"
  let ?es = "t_update ?P (ev_score_update (\<lambda>_. sc)) (tb_events tb)"
  have of_tx: "of_tx x (tb_outputs tb) = r_outpoint ` {r \<in> set (tb_outputs tb). r_txid r = x}" by (simp add: of_tx_def)
  have "tables_view K X (tb\<lparr>tb_events := ?es\<rparr>) = v_UpdateEventsForTxid x sc (tables_view K X tb)"
    unfolding of_tx using ev_view_update_tx[OF tables_okD(1)[OF tb]]
    by (simp add: tables_view_def v_UpdateEventsForTxid_def cong: if_cong)
  moreover have "tables_ok K (tb\<lparr>tb_events := ?es\<rparr>)" using tb events_update[OF _ assms(1)] by (simp add: tables_ok_def)
  moreover have "\<not> list_ex ?P (tb_events tb) \<Longrightarrow> tb\<lparr>tb_events := ?es\<rparr> = tb"
  proof -
    assume "\<not> list_ex ?P (tb_events tb)"
    then have "?es = tb_events tb" unfolding t_update_def by (intro map_idI) (auto simp: list_ex_iff)
    then show ?thesis by simp
  qed
  ultimately show "\<exists>tb'. (if list_ex ?P (tb_events tb)
      then rbind (real sc) (\<lambda>s. Inr (tb\<lparr>tb_events := t_update ?P (ev_score_update (\<lambda>_. s)) (tb_events tb)\<rparr>))
      else Inr tb) = Inr tb' \<and> tables_ok K tb' \<and> tables_view K X tb' = v_UpdateEventsForTxid x sc (tables_view K X tb)"
    using real by (cases "list_ex ?P (tb_events tb)") auto
qed

lemma new_row_ok: "wf_op op \<Longrightarrow> length x = 32 \<Longrightarrow> f64_plain sc \<Longrightarrow> row_ok K (new_row K op x sats deps ins sc now)"
  by (simp add: row_ok_def new_row_def op_from_bytes)

lemma rec_of_new_row: "wf_op op \<Longrightarrow> rec_of K (new_row K op x sats deps ins sc now) = new_record op x sats deps ins sc now"
  by (simp add: rec_of_def new_row_def new_record_def op_from_bytes)

lemma put_output:
  assumes tb: "tables_ok K tb" and rows: "rows_ok K rs" and v: "out_view K rs = (out_view K (tb_outputs tb))(op \<mapsto> r)"
  shows "tables_ok K (tb\<lparr>tb_outputs := rs\<rparr>)"
    and "tables_view K X (tb\<lparr>tb_outputs := rs\<rparr>) = (tables_view K X tb)\<lparr>tv_outs := (tv_outs (tables_view K X tb))(op \<mapsto> r)\<rparr>"
  using assms by (simp_all add: tables_ok_def tables_view_def)

lemma put_event:
  assumes tb: "tables_ok K tb" and es: "events_ok K es" and v: "ev_view K es = (ev_view K (tb_events tb))(e := (ev_view K (tb_events tb) e)(op \<mapsto> sc))"
  shows "tables_ok K (tb\<lparr>tb_events := es\<rparr>)" "tables_view K X (tb\<lparr>tb_events := es\<rparr>) = v_SaveEvent e op sc (tables_view K X tb)"
  using assms by (simp_all add: tables_ok_def tables_view_def v_SaveEvent_def)

lemma put_applied:
  assumes "tables_ok K tb"
  shows "tables_ok K (tb\<lparr>tb_applied := t_ignore fst (x, s) (tb_applied tb)\<rparr>)"
    "tables_view K X (tb\<lparr>tb_applied := t_ignore fst (x, s) (tb_applied tb)\<rparr>) = v_InsertAppliedTx x (tables_view K X tb)"
  using assms by (auto simp: tables_ok_def tables_view_def v_InsertAppliedTx_def table_simps fun_eq_iff)

lemma put_peer:
  assumes "tables_ok K tb" and "t_ok fst ps" and "\<And>h. t_get fst h ps = (if h = host then Some (host, s) else t_get fst h (tb_peers tb))"
  shows "tables_ok K (tb\<lparr>tb_peers := ps\<rparr>)" "tables_view K X (tb\<lparr>tb_peers := ps\<rparr>) = v_UpdateLastInteraction host s (tables_view K X tb)"
  using assms by (auto simp: tables_ok_def tables_view_def v_UpdateLastInteraction_def fun_eq_iff)

lemma tables_view_ok: "tables_ok K tb \<Longrightarrow> view_ok (tables_view K X tb)"
  using out_view_ok by (auto simp: tables_ok_def view_ok_def)

lemma new_tables_ok: "tables_ok K new_tables"
  by (simp add: tables_ok_def new_tables_def rows_ok_def events_ok_def table_simps)

end

text \<open>Two statements of one operation: the second may fail after the first is done.\<close>

lemma commits_seq:
  assumes m: "commits ok calm views t m R same_view" and n: "commits ok calm views t n S same_view"
  shows "commits ok calm views t (sseq m n) (R OO S) (\<lambda>v v'. v' = v \<or> R v v')"
  unfolding commits_def
proof (intro allI impI)
  fix w r w'
  assume w: "ok w" and run: "sseq m n w = (r, w')"
  obtain r1 w1 where m1: "m w = (r1, w1)" by fastforce
  note M = m[unfolded commits_def same_view_def, rule_format, OF w m1]
  show "ok w' \<and> (calm w \<longrightarrow> calm w' \<and> r = Inr ()) \<and> (\<forall>s. s \<noteq> t \<longrightarrow> views w' s = views w s) \<and>
      (r = Inr () \<longrightarrow> (R OO S) (views w t) (views w' t)) \<and>
      (\<forall>e. r = Inl e \<longrightarrow> views w' t = views w t \<or> R (views w t) (views w' t))"
  proof (cases r1)
    case (Inl e)
    with run m1 M show ?thesis by (auto simp: step_simps)
  next
    case (Inr u)
    then have n1: "n w1 = (r, w')" using run m1 by (simp add: step_simps)
    show ?thesis using M Inr n[unfolded commits_def same_view_def, rule_format, OF conjunct1[OF M] n1]
      by (cases r) auto
  qed
qed

lemma commits_mono:
  assumes "commits ok calm views t m R E" and "\<And>v v'. R v v' \<Longrightarrow> R' v v'" and "\<And>v v'. E v v' \<Longrightarrow> E' v v'"
  shows "commits ok calm views t m R' E'"
  using assms unfolding commits_def by blast

end
