(* ===== verification/SqliteTopic.thy ===== *)
theory SqliteTopic
  imports TopicTables
begin

text \<open>
  \<open>pkg/overlay/storage/sqlite.go\<close> and \<open>tx_topic_index.go\<close>: one database per topic, opened by
  a factory that caches them, and the index from transactions to topics. Each SQL statement is
  a function on the topic's tables. A statement may fail: the world carries the faults to come.
  \<open>SqliteLaws\<close> shows that it keeps the contract of \<open>TopicStore\<close>.
\<close>

section \<open>The databases\<close>

text \<open>
  The databases by topic (one that was never opened has the tables the schema makes), the
  topics whose database is open, the index, the statements that will fail, and the clock.
\<close>

record sqlite_world =
  sw_files :: "bytes \<Rightarrow> topic_tables"
  sw_stores :: "bytes list"
  sw_txid_topics :: "(txid \<times> bytes) list"
  sw_faults :: "bool list"
  sw_now :: int

definition sql_err :: err where
  "sql_err = ErrOther ''sqlite: statement failed''"

definition sq_stmt :: "(sqlite_world, err, 'a) sm \<Rightarrow> (sqlite_world, err, 'a) sm" where
  "sq_stmt m w =
     (if sw_faults w \<noteq> [] \<and> hd (sw_faults w) then (Inl sql_err, w\<lparr>sw_faults := tl (sw_faults w)\<rparr>)
      else m (w\<lparr>sw_faults := tl (sw_faults w)\<rparr>))"

definition sq_exec :: "bytes \<Rightarrow> (int \<Rightarrow> topic_tables \<Rightarrow> err + topic_tables) \<Rightarrow> (sqlite_world, err, unit) sm" where
  "sq_exec t f = sq_stmt (\<lambda>w.
     case f (sw_now w) (sw_files w t) of
       Inl e \<Rightarrow> (Inl e, w)
     | Inr tb \<Rightarrow> (Inr (), w\<lparr>sw_files := (sw_files w)(t := tb)\<rparr>))"

definition sq_query :: "bytes \<Rightarrow> (topic_tables \<Rightarrow> err + 'a) \<Rightarrow> (sqlite_world, err, 'a) sm" where
  "sq_query t f = sq_stmt (\<lambda>w. (f (sw_files w t), w))"

text \<open>
  A \<open>REAL NOT NULL\<close> column: SQLite turns NaN into NULL, which the column refuses, and
  negative zero into zero.
\<close>

definition sql_real :: "f64 \<Rightarrow> err + f64" where
  "sql_real f =
     (if f64_nan f then Inl (ErrOther ''NOT NULL constraint failed'')
      else Inr (if f = f64_neg_zero then 0 else f))"

section \<open>The operations of a topic's storage\<close>

definition sq_InsertOutput ::
  "sdk \<Rightarrow> bytes \<Rightarrow> outpoint \<Rightarrow> txid \<Rightarrow> 64 word \<Rightarrow> bytes \<Rightarrow> bytes \<Rightarrow> f64 \<Rightarrow> (sqlite_world, err, unit) sm" where
  "sq_InsertOutput K t op txid sats deps ins sc =
     (if \<not> sql_uint64 sats then sfail (ErrOther ''uint64 values with high bit set are not supported'')
      else sq_exec t (\<lambda>now tb. rbind (sql_real sc) (\<lambda>s. Inr (tb\<lparr>tb_outputs :=
        t_replace r_outpoint (new_row K op txid sats deps ins s now) (tb_outputs tb)\<rparr>))))"

definition sq_GetOutput :: "sdk \<Rightarrow> bytes \<Rightarrow> outpoint \<Rightarrow> (sqlite_world, err, output_record option) sm" where
  "sq_GetOutput K t op = sq_query t (select_output K op)"

definition sq_FindOutputs :: "sdk \<Rightarrow> sql_engine \<Rightarrow> bytes \<Rightarrow> outpoint list \<Rightarrow> (sqlite_world, err, output_record list) sm" where
  "sq_FindOutputs K G t ops = (if ops = [] then sret [] else sq_query t (select_outputs K G ops))"

definition sq_FindOutputsForTransaction ::
  "sdk \<Rightarrow> sql_engine \<Rightarrow> bytes \<Rightarrow> txid \<Rightarrow> (sqlite_world, err, output_record list) sm" where
  "sq_FindOutputsForTransaction K G t txid = sq_query t (select_tx K G txid)"

definition sq_MarkSpent :: "sdk \<Rightarrow> bytes \<Rightarrow> outpoint \<Rightarrow> txid \<Rightarrow> (sqlite_world, err, unit) sm" where
  "sq_MarkSpent K t op spendTxid = sq_exec t (\<lambda>_. set_spend_txid K op spendTxid)"

definition sq_UpdateConsumedBy :: "sdk \<Rightarrow> bytes \<Rightarrow> outpoint \<Rightarrow> bytes \<Rightarrow> (sqlite_world, err, unit) sm" where
  "sq_UpdateConsumedBy K t op consumedBy = sq_exec t (\<lambda>_. set_consumed_by K op consumedBy)"

definition sq_FindUTXOs :: "sdk \<Rightarrow> sql_engine \<Rightarrow> bytes \<Rightarrow> query_opts option \<Rightarrow> (sqlite_world, err, output_record list) sm" where
  "sq_FindUTXOs K G t opts = sq_query t (select_utxos K G opts)"

definition sq_DeleteOutput :: "sdk \<Rightarrow> bytes \<Rightarrow> outpoint \<Rightarrow> (sqlite_world, err, unit) sm" where
  "sq_DeleteOutput K t op = sseq (sq_exec t (\<lambda>_. delete_output K op)) (sq_exec t (\<lambda>_. delete_events K op))"

definition sq_Rollback :: "bytes \<Rightarrow> txid \<Rightarrow> (sqlite_world, err, unit) sm" where
  "sq_Rollback t txid = sq_exec t (\<lambda>_. delete_tx txid)"

text \<open>\<open>INSERT OR IGNORE\<close> also ignores a row that a \<open>NOT NULL\<close> column refuses.\<close>

definition sq_InsertAppliedTx :: "bytes \<Rightarrow> txid \<Rightarrow> f64 \<Rightarrow> (sqlite_world, err, unit) sm" where
  "sq_InsertAppliedTx t txid sc = sq_exec t (\<lambda>_ tb.
     case sql_real sc of
       Inl _ \<Rightarrow> Inr tb
     | Inr s \<Rightarrow> Inr (tb\<lparr>tb_applied := t_ignore fst (txid, s) (tb_applied tb)\<rparr>))"

definition sq_HasAppliedTx :: "bytes \<Rightarrow> txid \<Rightarrow> (sqlite_world, err, bool) sm" where
  "sq_HasAppliedTx t txid = sq_query t (select_applied txid)"

definition sq_UpdateLastInteraction :: "bytes \<Rightarrow> bytes \<Rightarrow> f64 \<Rightarrow> (sqlite_world, err, unit) sm" where
  "sq_UpdateLastInteraction t host since = sq_exec t (\<lambda>_ tb.
     rbind (sql_real since) (\<lambda>s. Inr (tb\<lparr>tb_peers := t_replace fst (host, s) (tb_peers tb)\<rparr>)))"

definition sq_GetLastInteraction :: "bytes \<Rightarrow> bytes \<Rightarrow> (sqlite_world, err, f64) sm" where
  "sq_GetLastInteraction t host = sq_query t (select_since host)"

definition sq_SaveEvent :: "sdk \<Rightarrow> bytes \<Rightarrow> bytes \<Rightarrow> outpoint \<Rightarrow> f64 \<Rightarrow> (sqlite_world, err, unit) sm" where
  "sq_SaveEvent K t event op sc = sq_exec t (\<lambda>_ tb. rbind (sql_real sc) (\<lambda>s. Inr (tb\<lparr>tb_events :=
     t_replace event_key \<lparr>ev_event = event, ev_outpoint = op_bytes K op, ev_score = s\<rparr> (tb_events tb)\<rparr>)))"

definition sq_DeleteEvent :: "sdk \<Rightarrow> bytes \<Rightarrow> bytes \<Rightarrow> outpoint \<Rightarrow> (sqlite_world, err, unit) sm" where
  "sq_DeleteEvent K t event op = sq_exec t (\<lambda>_. delete_event K event op)"

definition sq_UpdateEventsForTxid :: "bytes \<Rightarrow> txid \<Rightarrow> f64 \<Rightarrow> (sqlite_world, err, unit) sm" where
  "sq_UpdateEventsForTxid t txid sc = sq_exec t (\<lambda>_. set_event_scores sql_real txid sc)"

definition sq_FindByEvent ::
  "sdk \<Rightarrow> sql_engine \<Rightarrow> bytes \<Rightarrow> bytes \<Rightarrow> query_opts option \<Rightarrow> (sqlite_world, err, output_record list) sm" where
  "sq_FindByEvent K G t event opts = sq_query t (select_event K G event opts)"

definition SQLiteStorage :: "sdk \<Rightarrow> sql_engine \<Rightarrow> bytes \<Rightarrow> sqlite_world topic_ops" where
  "SQLiteStorage K G t =
     \<lparr>ts_InsertOutput = sq_InsertOutput K t, ts_GetOutput = sq_GetOutput K t, ts_FindOutputs = sq_FindOutputs K G t,
      ts_FindOutputsForTransaction = sq_FindOutputsForTransaction K G t, ts_MarkSpent = sq_MarkSpent K t,
      ts_UpdateConsumedBy = sq_UpdateConsumedBy K t, ts_FindUTXOs = sq_FindUTXOs K G t,
      ts_DeleteOutput = sq_DeleteOutput K t, ts_Rollback = sq_Rollback t, ts_InsertAppliedTx = sq_InsertAppliedTx t,
      ts_HasAppliedTx = sq_HasAppliedTx t, ts_UpdateLastInteraction = sq_UpdateLastInteraction t,
      ts_GetLastInteraction = sq_GetLastInteraction t, ts_SaveEvent = sq_SaveEvent K t, ts_DeleteEvent = sq_DeleteEvent K t,
      ts_FindByEvent = sq_FindByEvent K G t, ts_UpdateEventsForTxid = sq_UpdateEventsForTxid t\<rparr>"

section \<open>The factory and the index of topics\<close>

text \<open>A topic that is not open is opened: its schema is created if it is not there.\<close>

definition NewSQLiteStorage :: "sdk \<Rightarrow> sql_engine \<Rightarrow> bytes \<Rightarrow> (sqlite_world, err, sqlite_world topic_ops) sm" where
  "NewSQLiteStorage K G topic = sseq (sq_exec topic (\<lambda>_ tb. Inr tb)) (sret (SQLiteStorage K G topic))"

definition sq_Topic :: "sdk \<Rightarrow> sql_engine \<Rightarrow> bytes \<Rightarrow> (sqlite_world, err, sqlite_world topic_ops) sm" where
  "sq_Topic K G topic w =
     (if topic \<in> set (sw_stores w) then (Inr (SQLiteStorage K G topic), w)
      else sbind (NewSQLiteStorage K G topic) (\<lambda>s w'. (Inr s, w'\<lparr>sw_stores := topic # sw_stores w'\<rparr>)) w)"

definition sq_Record :: "txid \<Rightarrow> bytes \<Rightarrow> (sqlite_world, err, unit) sm" where
  "sq_Record txid topic = sq_stmt (\<lambda>w.
     (Inr (), w\<lparr>sw_txid_topics := t_ignore id (txid, topic) (sw_txid_topics w)\<rparr>))"

definition sq_Topics :: "sql_engine \<Rightarrow> txid \<Rightarrow> (sqlite_world, err, bytes list) sm" where
  "sq_Topics G txid = sq_stmt (\<lambda>w.
     (Inr (sq_arrange_topics G (map snd (filter (\<lambda>(x, _). x = txid) (sw_txid_topics w)))), w))"

definition sq_Delete :: "txid \<Rightarrow> (sqlite_world, err, unit) sm" where
  "sq_Delete txid = sq_stmt (\<lambda>w.
     (Inr (), w\<lparr>sw_txid_topics := t_delete (\<lambda>(x, _). x = txid) (sw_txid_topics w)\<rparr>))"

end
