(* ===== verification/SqliteLaws.thy ===== *)
theory SqliteLaws
  imports SqliteTopic
begin

text \<open>
  The SQLite storage of a topic keeps the contract of \<open>TopicStore\<close>: the tables stay sound, and
  each operation changes and answers what the contract says of the view of the tables. In
  particular an output that is inserted again loses its spend.
\<close>

section \<open>Sound worlds and their views\<close>

definition sq_ok :: "sdk \<Rightarrow> sqlite_world \<Rightarrow> bool" where
  "sq_ok K w \<longleftrightarrow> (\<forall>t. tables_ok K (sw_files w t)) \<and> distinct (sw_txid_topics w)"

definition sq_calm :: "sqlite_world \<Rightarrow> bool" where
  "sq_calm w \<longleftrightarrow> True \<notin> set (sw_faults w)"

definition sq_views :: "sdk \<Rightarrow> sqlite_world \<Rightarrow> bytes \<Rightarrow> topic_view" where
  "sq_views K w t = tables_view K {x. (x, t) \<in> set (sw_txid_topics w)} (sw_files w t)"

lemma sql_real_plain: "f64_plain f \<Longrightarrow> sql_real f = Inr f"
  by (simp add: sql_real_def f64_plain_def)

section \<open>Statements\<close>

lemma exec_commits:
  assumes f: "\<And>now. writes K (f now) R"
  shows "commits (sq_ok K) sq_calm (sq_views K) t (sq_exec t f) R same_view"
  unfolding commits_def
proof (intro allI impI)
  fix w r w'
  assume w: "sq_ok K w" and run: "sq_exec t f w = (r, w')"
  show "sq_ok K w' \<and> (sq_calm w \<longrightarrow> sq_calm w' \<and> r = Inr ()) \<and> (\<forall>s. s \<noteq> t \<longrightarrow> sq_views K w' s = sq_views K w s) \<and>
      (r = Inr () \<longrightarrow> R (sq_views K w t) (sq_views K w' t)) \<and> (\<forall>e. r = Inl e \<longrightarrow> same_view (sq_views K w t) (sq_views K w' t))"
  proof (cases "sw_faults w \<noteq> [] \<and> hd (sw_faults w)")
    case True
    with run have "r = Inl sql_err" "w' = w\<lparr>sw_faults := tl (sw_faults w)\<rparr>"
      by (auto simp: sq_exec_def sq_stmt_def)
    moreover have "\<not> sq_calm w" using True by (metis hd_in_set sq_calm_def)
    ultimately show ?thesis using w by (simp add: sq_ok_def sq_views_def same_view_def)
  next
    case False
    obtain tb' where tb': "f (sw_now w) (sw_files w t) = Inr tb'" "tables_ok K tb'"
      "R (sq_views K w t) (tables_view K {x. (x, t) \<in> set (sw_txid_topics w)} tb')"
      using f[of "sw_now w"] w unfolding sq_ok_def writes_def sq_views_def by meson
    with run False have "r = Inr ()" "w' = w\<lparr>sw_faults := tl (sw_faults w), sw_files := (sw_files w)(t := tb')\<rparr>"
      by (auto simp: sq_exec_def sq_stmt_def)
    moreover have "sq_calm w \<longrightarrow> True \<notin> set (tl (sw_faults w))"
      by (cases "sw_faults w") (auto simp: sq_calm_def)
    ultimately show ?thesis using w tb' by (simp add: sq_ok_def sq_views_def sq_calm_def)
  qed
qed

lemma query_answers:
  assumes f: "selects K f P"
  shows "answers (sq_ok K) sq_calm (sq_views K) t (sq_query t f) P"
  unfolding answers_def
proof (intro allI impI)
  fix w r w'
  assume w: "sq_ok K w" and run: "sq_query t f w = (r, w')"
  have w': "w' = w\<lparr>sw_faults := tl (sw_faults w)\<rparr>"
    using run by (auto simp: sq_query_def sq_stmt_def split: if_splits)
  have tl: "sq_calm w \<longrightarrow> sq_calm w'" unfolding w' by (cases "sw_faults w") (auto simp: sq_calm_def)
  obtain x where x: "f (sw_files w t) = Inr x" "P (sq_views K w t) x"
    using f w unfolding sq_ok_def sq_views_def selects_def by meson
  have "r = Inl sql_err \<and> \<not> sq_calm w \<or> r = Inr x"
    using run x(1) by (cases "sw_faults w") (auto simp: sq_query_def sq_stmt_def sq_calm_def split: if_splits)
  moreover have "sq_ok K w'" "sq_views K w' = sq_views K w" using w by (auto simp: w' sq_ok_def sq_views_def)
  ultimately show "sq_ok K w' \<and> sq_views K w' = sq_views K w \<and> (sq_calm w \<longrightarrow> sq_calm w' \<and> (\<exists>x. r = Inr x)) \<and>
      (\<forall>x. r = Inr x \<longrightarrow> P (sq_views K w t) x)"
    using x(2) tl by auto
qed

section \<open>The contract\<close>

context table_laws
begin

lemma sq_insert_law:
  assumes op: "wf_op op" "length x = 32" "f64_plain sc" "unat sats < 2 ^ 63"
  shows "commits (sq_ok K) sq_calm (sq_views K) t (sq_InsertOutput K t op x sats deps ins sc)
    (\<lambda>v v'. \<exists>now. v' = v_InsertOutput False op x sats deps ins sc now v) same_view"
proof -
  have go: "sql_uint64 sats" using op(4) by (simp add: sql_uint64_def)
  show ?thesis unfolding sq_InsertOutput_def eqTrueI[OF go] not_True_eq_False if_False sql_real_plain[OF op(3)] rbind_simps
  proof (rule exec_commits, rule writesI)
    fix now tb X
    assume tb: "tables_ok K tb"
    let ?r = "new_row K op x sats deps ins sc now"
    have "r_outpoint ?r = op_bytes K op" by (simp add: new_row_def)
    from out_view_replace[OF op(1) this]
    have v: "out_view K (t_replace r_outpoint ?r (tb_outputs tb)) =
        (out_view K (tb_outputs tb))(op \<mapsto> new_record op x sats deps ins sc now)"
      using rec_of_new_row[OF op(1)] by simp
    have keep: "reinserted False old r = r" for old r by (simp add: reinserted_def split: option.splits)
    show "\<exists>tb'. Inr (tb\<lparr>tb_outputs := t_replace r_outpoint ?r (tb_outputs tb)\<rparr>) = Inr tb' \<and> tables_ok K tb' \<and>
        (\<exists>now. tables_view K X tb' = v_InsertOutput False op x sats deps ins sc now (tables_view K X tb))"
      using put_output[OF tb rows_replace[OF tables_okD(1)[OF tb] new_row_ok[OF op(1-3)]] v]
      unfolding v_InsertOutput_def keep by blast
  qed
qed

lemma sq_find_law:
  assumes "\<forall>op \<in> set ops. wf_op op" and "length ops \<le> sq_max_args G"
  shows "answers (sq_ok K) sq_calm (sq_views K) t (sq_FindOutputs K G t ops) (\<lambda>v. picks v (\<lambda>r. or_Outpoint r \<in> set ops))"
proof (cases "ops = []")
  case True
  then show ?thesis by (auto simp: sq_FindOutputs_def answers_def sret_def picks_def)
next
  case False
  then show ?thesis using query_answers[OF find_law[OF assms]] by (simp add: sq_FindOutputs_def)
qed

lemma sq_delete_law:
  assumes "wf_op op"
  shows "commits (sq_ok K) sq_calm (sq_views K) t (sq_DeleteOutput K t op) (\<lambda>v v'. v' = v_DeleteOutput op v)
    (\<lambda>v v'. v' = v \<or> v' = v_DropOutput op v)"
  unfolding sq_DeleteOutput_def
  by (rule commits_mono[OF commits_seq[OF exec_commits[OF drop_law[OF assms]] exec_commits[OF drop_events_law[OF assms]]]])
    (auto simp: v_DeleteOutput_def v_DropOutput_def)

lemma sq_applied_law:
  assumes "f64_plain sc"
  shows "commits (sq_ok K) sq_calm (sq_views K) t (sq_InsertAppliedTx t x sc) (\<lambda>v v'. v' = v_InsertAppliedTx x v) same_view"
  unfolding sq_InsertAppliedTx_def sql_real_plain[OF assms] sum.case
  by (rule exec_commits, rule writesI) (use put_applied in blast)

lemma sq_peer_law:
  assumes "f64_plain since"
  shows "commits (sq_ok K) sq_calm (sq_views K) t (sq_UpdateLastInteraction t host since)
    (\<lambda>v v'. v' = v_UpdateLastInteraction host since v) same_view"
  unfolding sq_UpdateLastInteraction_def sql_real_plain[OF assms] rbind_simps
proof (rule exec_commits, rule writesI)
  fix tb X
  assume tb: "tables_ok K tb"
  show "\<exists>tb'. Inr (tb\<lparr>tb_peers := t_replace fst (host, since) (tb_peers tb)\<rparr>) = Inr tb' \<and> tables_ok K tb' \<and>
      tables_view K X tb' = v_UpdateLastInteraction host since (tables_view K X tb)"
    using put_peer[OF tb, of "t_replace fst (host, since) (tb_peers tb)" host since] tables_okD(4)[OF tb]
    by (simp add: table_simps)
qed

lemma sq_event_law:
  assumes "wf_op op" and "f64_plain sc"
  shows "commits (sq_ok K) sq_calm (sq_views K) t (sq_SaveEvent K t e op sc) (\<lambda>v v'. v' = v_SaveEvent e op sc v) same_view"
  unfolding sq_SaveEvent_def sql_real_plain[OF assms(2)] rbind_simps
proof (rule exec_commits, rule writesI)
  fix tb X
  assume tb: "tables_ok K tb"
  let ?x = "\<lparr>ev_event = e, ev_outpoint = op_bytes K op, ev_score = sc\<rparr>"
  have "ev_view K (t_replace event_key ?x (tb_events tb)) = (ev_view K (tb_events tb))(e := (ev_view K (tb_events tb) e)(op \<mapsto> sc))"
    using ev_view_replace[OF assms(1), of ?x e] by (simp add: event_key_def)
  from put_event[OF tb events_replace[OF tables_okD(2)[OF tb] assms] this]
  show "\<exists>tb'. Inr (tb\<lparr>tb_events := t_replace event_key ?x (tb_events tb)\<rparr>) = Inr tb' \<and> tables_ok K tb' \<and>
      tables_view K X tb' = v_SaveEvent e op sc (tables_view K X tb)"
    by blast
qed

lemma sqlite_topic: "topic_storage (SQLiteStorage K G t) t False (sq_max_args G) (\<lambda>_. True) (sq_ok K) sq_calm (sq_views K)"
proof (unfold_locales, simp_all only: SQLiteStorage_def topic_ops.select_convs)
  show "view_ok (sq_views K w t)" if "sq_ok K w" for w
    using that tables_view_ok by (simp add: sq_ok_def sq_views_def)
qed (simp_all add: sq_insert_law sq_find_law sq_delete_law sq_applied_law sq_peer_law sq_event_law
  sq_GetOutput_def sq_FindOutputsForTransaction_def sq_MarkSpent_def sq_UpdateConsumedBy_def sq_FindUTXOs_def
  sq_Rollback_def sq_HasAppliedTx_def sq_GetLastInteraction_def sq_DeleteEvent_def sq_FindByEvent_def
  sq_UpdateEventsForTxid_def query_answers exec_commits get_law find_tx_law mark_law consumed_law utxos_law
  rollback_law has_applied_law get_peer_law delete_event_law find_event_law update_events_law sql_real_plain)

lemma sqlite_factory:
  "topic_factory (sq_Topic K G) \<lparr>ix_Record = sq_Record, ix_Topics = sq_Topics G, ix_Delete = sq_Delete\<rparr>
     False (sq_max_args G) (\<lambda>_. True) (sq_ok K) sq_calm (\<lambda>_ _. True) (sq_views K)"
proof (unfold_locales, simp_all only: tx_topic_index.select_convs simp_thms)
  fix w t r w'
  assume w: "sq_ok K w" and run: "sq_Topic K G t w = (r, w')"
  have "sq_ok K w' \<and> sq_views K w' = sq_views K w \<and> (sq_calm w \<longrightarrow> sq_calm w' \<and> (\<exists>T. r = Inr T)) \<and>
      (\<forall>T. r = Inr T \<longrightarrow> T = SQLiteStorage K G t)"
    using w run by (cases "sw_faults w")
      (auto simp: sq_Topic_def NewSQLiteStorage_def step_simps sq_exec_def sq_stmt_def sq_ok_def sq_views_def sq_calm_def
        fun_eq_iff split: if_splits)
  then show "sq_ok K w' \<and> sq_views K w' = sq_views K w \<and> (sq_calm w \<longrightarrow> sq_calm w' \<and> (\<exists>T. r = Inr T)) \<and>
      (\<forall>T. r = Inr T \<longrightarrow> (\<exists>okt. topic_storage T t False (sq_max_args G) (\<lambda>_. True) okt sq_calm (sq_views K) \<and> okt w' \<and>
        (\<forall>v. okt v \<longrightarrow> sq_ok K v)))"
    using sqlite_topic by blast
next
  fix x :: txid and t
  show "commits (sq_ok K) sq_calm (sq_views K) t (sq_Record x t) (\<lambda>v v'. v' = v_Record x v) same_view"
    unfolding commits_def
  proof (intro allI impI)
    fix w r w'
    assume w: "sq_ok K w" and run: "sq_Record x t w = (r, w')"
    have ids: "set (t_ignore id (x, t) (sw_txid_topics w)) = insert (x, t) (set (sw_txid_topics w))"
      "distinct (t_ignore id (x, t) (sw_txid_topics w))"
      using w t_get_None[of id "(x, t)" "sw_txid_topics w"] by (auto simp: t_ignore_def sq_ok_def dest: t_get_SomeD)
    show "sq_ok K w' \<and> (sq_calm w \<longrightarrow> sq_calm w' \<and> r = Inr ()) \<and> (\<forall>s. s \<noteq> t \<longrightarrow> sq_views K w' s = sq_views K w s) \<and>
        (r = Inr () \<longrightarrow> sq_views K w' t = v_Record x (sq_views K w t)) \<and> (\<forall>e. r = Inl e \<longrightarrow> same_view (sq_views K w t) (sq_views K w' t))"
      using w run ids by (cases "sw_faults w")
        (auto simp: sq_Record_def sq_stmt_def sq_ok_def sq_calm_def sq_views_def same_view_def v_Record_def tables_view_def split: if_splits)
  qed
next
  fix w x r w'
  assume w: "sq_ok K w" and run: "sq_Topics G x w = (r, w')"
  let ?ts = "map snd (filter (\<lambda>(y, _). y = x) (sw_txid_topics w))"
  have "mset (sq_arrange_topics G ?ts) = mset ?ts" using engine by (simp add: engine_laws_def)
  moreover have "distinct ?ts" using w by (auto simp: sq_ok_def distinct_map intro!: inj_onI)
  ultimately have ts: "distinct (sq_arrange_topics G ?ts)" "set (sq_arrange_topics G ?ts) = set ?ts"
    by (metis mset_eq_imp_distinct_iff) (metis \<open>mset (sq_arrange_topics G ?ts) = mset ?ts\<close> set_mset_mset)
  have "sq_ok K w' \<and> sq_views K w' = sq_views K w \<and> (sq_calm w \<longrightarrow> sq_calm w' \<and> (\<exists>ts. r = Inr ts)) \<and>
      (\<forall>ts. r = Inr ts \<longrightarrow> ts = sq_arrange_topics G ?ts)"
    using w run by (cases "sw_faults w")
      (auto simp: sq_Topics_def sq_stmt_def sq_ok_def sq_views_def sq_calm_def fun_eq_iff split: if_splits)
  moreover have "set ?ts = {t. x \<in> tv_txids (sq_views K w t)}"
    by (force simp: sq_views_def tables_view_def)
  ultimately show "sq_ok K w' \<and> sq_views K w' = sq_views K w \<and> (sq_calm w \<longrightarrow> sq_calm w' \<and> (\<exists>ts. r = Inr ts)) \<and>
      (\<forall>ts. r = Inr ts \<longrightarrow> distinct ts \<and> set ts = {t. x \<in> tv_txids (sq_views K w t)} \<and> (\<forall>t \<in> set ts. True))"
    using ts by auto
qed

end

end
