(* ===== verification/PostgresTopic.thy ===== *)
theory PostgresTopic
  imports TopicTables
begin

text \<open>
  \<open>pkg/overlay/storage/postgres.go\<close> and \<open>postgres_factory.go\<close>: one database for all topics. Each
  topic has a number in the table \<open>topics\<close>, every row carries the number of its topic, and every
  statement selects by it, so the tables are kept here as the rows of each number. In this storage an output that
  is inserted again keeps its spend: \<open>ON CONFLICT DO UPDATE\<close> leaves the columns it does not name.
\<close>

section \<open>The database\<close>

record pg_world =
  pg_topics :: "(nat \<times> bytes) list"
  pg_sequence :: nat
  pg_tables :: "nat \<Rightarrow> topic_tables"
  pg_txid_topics :: "(txid \<times> nat) list"
  pg_topicIDs :: "bytes \<Rightarrow> nat option"
  pg_faults :: "bool list"
  pg_now :: int

definition pg_err :: err where
  "pg_err = ErrOther ''postgres: statement failed''"

definition pg_text_err :: err where
  "pg_text_err = ErrOther ''invalid byte sequence for encoding UTF8''"

definition pg_stmt :: "(pg_world, err, 'a) sm \<Rightarrow> (pg_world, err, 'a) sm" where
  "pg_stmt m w =
     (if pg_faults w \<noteq> [] \<and> hd (pg_faults w) then (Inl pg_err, w\<lparr>pg_faults := tl (pg_faults w)\<rparr>)
      else m (w\<lparr>pg_faults := tl (pg_faults w)\<rparr>))"

definition pg_exec :: "nat \<Rightarrow> (int \<Rightarrow> topic_tables \<Rightarrow> err + topic_tables) \<Rightarrow> (pg_world, err, unit) sm" where
  "pg_exec i f = pg_stmt (\<lambda>w.
     case f (pg_now w) (pg_tables w i) of
       Inl e \<Rightarrow> (Inl e, w)
     | Inr tb \<Rightarrow> (Inr (), w\<lparr>pg_tables := (pg_tables w)(i := tb)\<rparr>))"

definition pg_query :: "nat \<Rightarrow> (topic_tables \<Rightarrow> err + 'a) \<Rightarrow> (pg_world, err, 'a) sm" where
  "pg_query i f = pg_stmt (\<lambda>w. (f (pg_tables w i), w))"

text \<open>A \<open>TEXT\<close> parameter must be valid UTF-8 without NUL.\<close>

definition pg_with_text :: "sql_engine \<Rightarrow> bytes \<Rightarrow> (topic_tables \<Rightarrow> err + 'a) \<Rightarrow> topic_tables \<Rightarrow> err + 'a" where
  "pg_with_text G s f tb = (if sq_text G s then f tb else Inl pg_text_err)"

section \<open>The operations of a topic's storage\<close>

definition pg_InsertOutput ::
  "sdk \<Rightarrow> nat \<Rightarrow> outpoint \<Rightarrow> txid \<Rightarrow> 64 word \<Rightarrow> bytes \<Rightarrow> bytes \<Rightarrow> f64 \<Rightarrow> (pg_world, err, unit) sm" where
  "pg_InsertOutput K i op txid sats deps ins sc =
     (if \<not> sql_uint64 sats then sfail (ErrOther ''uint64 is greater than maximum value for int8'')
      else pg_exec i (\<lambda>now tb. Inr (tb\<lparr>tb_outputs := t_upsert r_outpoint
        (\<lambda>r. r\<lparr>r_txid := txid, r_satoshis := sats, r_score := sc, r_deps := deps, r_inputs_consumed := ins, r_created_at := now\<rparr>)
        (new_row K op txid sats deps ins sc now) (tb_outputs tb)\<rparr>)))"

definition pg_GetOutput :: "sdk \<Rightarrow> nat \<Rightarrow> outpoint \<Rightarrow> (pg_world, err, output_record option) sm" where
  "pg_GetOutput K i op = pg_query i (select_output K op)"

text \<open>The number of the topic is one more argument.\<close>

definition pg_FindOutputs :: "sdk \<Rightarrow> sql_engine \<Rightarrow> nat \<Rightarrow> outpoint list \<Rightarrow> (pg_world, err, output_record list) sm" where
  "pg_FindOutputs K G i ops =
     (if ops = [] then sret []
      else if sq_max_args G < length ops + 1 then sfail (ErrOther ''extended protocol limited to 65535 parameters'')
      else pg_query i (select_outputs K G ops))"

definition pg_FindOutputsForTransaction ::
  "sdk \<Rightarrow> sql_engine \<Rightarrow> nat \<Rightarrow> txid \<Rightarrow> (pg_world, err, output_record list) sm" where
  "pg_FindOutputsForTransaction K G i txid = pg_query i (select_tx K G txid)"

definition pg_MarkSpent :: "sdk \<Rightarrow> nat \<Rightarrow> outpoint \<Rightarrow> txid \<Rightarrow> (pg_world, err, unit) sm" where
  "pg_MarkSpent K i op spendTxid = pg_exec i (\<lambda>_. set_spend_txid K op spendTxid)"

definition pg_UpdateConsumedBy :: "sdk \<Rightarrow> nat \<Rightarrow> outpoint \<Rightarrow> bytes \<Rightarrow> (pg_world, err, unit) sm" where
  "pg_UpdateConsumedBy K i op consumedBy = pg_exec i (\<lambda>_. set_consumed_by K op consumedBy)"

definition pg_FindUTXOs :: "sdk \<Rightarrow> sql_engine \<Rightarrow> nat \<Rightarrow> query_opts option \<Rightarrow> (pg_world, err, output_record list) sm" where
  "pg_FindUTXOs K G i opts = pg_query i (select_utxos K G opts)"

definition pg_DeleteOutput :: "sdk \<Rightarrow> nat \<Rightarrow> outpoint \<Rightarrow> (pg_world, err, unit) sm" where
  "pg_DeleteOutput K i op = sseq (pg_exec i (\<lambda>_. delete_output K op)) (pg_exec i (\<lambda>_. delete_events K op))"

definition pg_Rollback :: "nat \<Rightarrow> txid \<Rightarrow> (pg_world, err, unit) sm" where
  "pg_Rollback i txid = pg_exec i (\<lambda>_. delete_tx txid)"

definition pg_InsertAppliedTx :: "nat \<Rightarrow> txid \<Rightarrow> f64 \<Rightarrow> (pg_world, err, unit) sm" where
  "pg_InsertAppliedTx i txid sc = pg_exec i (\<lambda>_ tb. Inr (tb\<lparr>tb_applied := t_ignore fst (txid, sc) (tb_applied tb)\<rparr>))"

definition pg_HasAppliedTx :: "nat \<Rightarrow> txid \<Rightarrow> (pg_world, err, bool) sm" where
  "pg_HasAppliedTx i txid = pg_query i (select_applied txid)"

definition pg_UpdateLastInteraction :: "sql_engine \<Rightarrow> nat \<Rightarrow> bytes \<Rightarrow> f64 \<Rightarrow> (pg_world, err, unit) sm" where
  "pg_UpdateLastInteraction G i host since = pg_exec i (\<lambda>_. pg_with_text G host (\<lambda>tb.
     Inr (tb\<lparr>tb_peers := t_upsert fst (\<lambda>(h, _). (h, since)) (host, since) (tb_peers tb)\<rparr>)))"

definition pg_GetLastInteraction :: "sql_engine \<Rightarrow> nat \<Rightarrow> bytes \<Rightarrow> (pg_world, err, f64) sm" where
  "pg_GetLastInteraction G i host = pg_query i (pg_with_text G host (select_since host))"

definition pg_SaveEvent :: "sdk \<Rightarrow> sql_engine \<Rightarrow> nat \<Rightarrow> bytes \<Rightarrow> outpoint \<Rightarrow> f64 \<Rightarrow> (pg_world, err, unit) sm" where
  "pg_SaveEvent K G i event op sc = pg_exec i (\<lambda>_. pg_with_text G event (\<lambda>tb. Inr (tb\<lparr>tb_events :=
     t_upsert event_key (ev_score_update (\<lambda>_. sc))
       \<lparr>ev_event = event, ev_outpoint = op_bytes K op, ev_score = sc\<rparr> (tb_events tb)\<rparr>)))"

definition pg_DeleteEvent :: "sdk \<Rightarrow> sql_engine \<Rightarrow> nat \<Rightarrow> bytes \<Rightarrow> outpoint \<Rightarrow> (pg_world, err, unit) sm" where
  "pg_DeleteEvent K G i event op = pg_exec i (\<lambda>_. pg_with_text G event (delete_event K event op))"

definition pg_UpdateEventsForTxid :: "nat \<Rightarrow> txid \<Rightarrow> f64 \<Rightarrow> (pg_world, err, unit) sm" where
  "pg_UpdateEventsForTxid i txid sc = pg_exec i (\<lambda>_. set_event_scores Inr txid sc)"

definition pg_FindByEvent ::
  "sdk \<Rightarrow> sql_engine \<Rightarrow> nat \<Rightarrow> bytes \<Rightarrow> query_opts option \<Rightarrow> (pg_world, err, output_record list) sm" where
  "pg_FindByEvent K G i event opts = pg_query i (pg_with_text G event (select_event K G event opts))"

definition PostgresStorage :: "sdk \<Rightarrow> sql_engine \<Rightarrow> nat \<Rightarrow> pg_world topic_ops" where
  "PostgresStorage K G i =
     \<lparr>ts_InsertOutput = pg_InsertOutput K i, ts_GetOutput = pg_GetOutput K i, ts_FindOutputs = pg_FindOutputs K G i,
      ts_FindOutputsForTransaction = pg_FindOutputsForTransaction K G i, ts_MarkSpent = pg_MarkSpent K i,
      ts_UpdateConsumedBy = pg_UpdateConsumedBy K i, ts_FindUTXOs = pg_FindUTXOs K G i,
      ts_DeleteOutput = pg_DeleteOutput K i, ts_Rollback = pg_Rollback i, ts_InsertAppliedTx = pg_InsertAppliedTx i,
      ts_HasAppliedTx = pg_HasAppliedTx i, ts_UpdateLastInteraction = pg_UpdateLastInteraction G i,
      ts_GetLastInteraction = pg_GetLastInteraction G i, ts_SaveEvent = pg_SaveEvent K G i, ts_DeleteEvent = pg_DeleteEvent K G i,
      ts_FindByEvent = pg_FindByEvent K G i, ts_UpdateEventsForTxid = pg_UpdateEventsForTxid i\<rparr>"

section \<open>Topics by number\<close>

text \<open>
  \<open>INSERT ... ON CONFLICT (name) DO NOTHING RETURNING id\<close>: a new name gets the next number of the
  sequence; for a known one nothing is returned, though the sequence has moved on.
\<close>

definition insert_topic :: "sql_engine \<Rightarrow> bytes \<Rightarrow> (pg_world, err, nat option) sm" where
  "insert_topic G name = pg_stmt (\<lambda>w.
     if \<not> sq_text G name then (Inl pg_text_err, w)
     else if t_get snd name (pg_topics w) = None
     then (Inr (Some (pg_sequence w)),
           w\<lparr>pg_topics := pg_topics w @ [(pg_sequence w, name)], pg_sequence := Suc (pg_sequence w)\<rparr>)
     else (Inr None, w\<lparr>pg_sequence := Suc (pg_sequence w)\<rparr>))"

definition select_topic :: "sql_engine \<Rightarrow> bytes \<Rightarrow> (pg_world, err, nat option) sm" where
  "select_topic G name = pg_stmt (\<lambda>w.
     (if sq_text G name then Inr (map_option fst (t_get snd name (pg_topics w))) else Inl pg_text_err, w))"

definition no_rows :: err where
  "no_rows = ErrOther ''sql: no rows in result set''"

definition resolveTopicID :: "sql_engine \<Rightarrow> bytes \<Rightarrow> (pg_world, err, nat) sm" where
  "resolveTopicID G name w =
     (case pg_topicIDs w name of
        Some i \<Rightarrow> (Inr i, w)
      | None \<Rightarrow>
          sbind (insert_topic G name) (\<lambda>found.
            sbind (case found of
                Some i \<Rightarrow> sret i
              | None \<Rightarrow> sbind (select_topic G name) (\<lambda>known. case known of Some i \<Rightarrow> sret i | None \<Rightarrow> sfail no_rows))
              (\<lambda>i w'. (Inr i, w'\<lparr>pg_topicIDs := (pg_topicIDs w')(name \<mapsto> i)\<rparr>))) w)"

definition pg_Topic :: "sdk \<Rightarrow> sql_engine \<Rightarrow> bytes \<Rightarrow> (pg_world, err, pg_world topic_ops) sm" where
  "pg_Topic K G topic = sbind (resolveTopicID G topic) (\<lambda>i. sret (PostgresStorage K G i))"

section \<open>The index of topics\<close>

definition pg_Record :: "sql_engine \<Rightarrow> txid \<Rightarrow> bytes \<Rightarrow> (pg_world, err, unit) sm" where
  "pg_Record G txid topic = sbind (select_topic G topic) (\<lambda>known.
     case known of
       None \<Rightarrow> sfail no_rows
     | Some i \<Rightarrow> pg_stmt (\<lambda>w. (Inr (), w\<lparr>pg_txid_topics := t_ignore id (txid, i) (pg_txid_topics w)\<rparr>)))"

definition topics_rows :: "txid \<Rightarrow> pg_world \<Rightarrow> bytes list" where
  "topics_rows txid w = concat (map (\<lambda>tt. if fst tt = txid then map snd (filter (\<lambda>t. fst t = snd tt) (pg_topics w)) else [])
     (pg_txid_topics w))"

definition pg_Topics :: "sql_engine \<Rightarrow> txid \<Rightarrow> (pg_world, err, bytes list) sm" where
  "pg_Topics G txid = pg_stmt (\<lambda>w. (Inr (sq_arrange_topics G (topics_rows txid w)), w))"

definition pg_Delete :: "txid \<Rightarrow> (pg_world, err, unit) sm" where
  "pg_Delete txid = pg_stmt (\<lambda>w. (Inr (), w\<lparr>pg_txid_topics := t_delete (\<lambda>(x, _). x = txid) (pg_txid_topics w)\<rparr>))"

end
