(* ===== verification/PostgresLaws.thy ===== *)
theory PostgresLaws
  imports PostgresTopic
begin

text \<open>
  The PostgreSQL storage keeps the contract of \<open>TopicStore\<close>, and its factory and index theirs:
  each topic has one number, and an output that is inserted again keeps its spend.
\<close>

section \<open>Sound worlds and their views\<close>

definition pg_ok :: "sdk \<Rightarrow> sql_engine \<Rightarrow> pg_world \<Rightarrow> bool" where
  "pg_ok K G w \<longleftrightarrow>
     t_ok fst (pg_topics w) \<and> t_ok snd (pg_topics w) \<and> (\<forall>(i, n) \<in> set (pg_topics w). i < pg_sequence w \<and> sq_text G n) \<and>
     (\<forall>i. tables_ok K (pg_tables w i)) \<and> (\<forall>i \<ge> pg_sequence w. pg_tables w i = new_tables) \<and>
     (\<forall>n i. pg_topicIDs w n = Some i \<longrightarrow> (i, n) \<in> set (pg_topics w)) \<and>
     distinct (pg_txid_topics w) \<and> (\<forall>(x, i) \<in> set (pg_txid_topics w). i \<in> fst ` set (pg_topics w))"

definition pg_calm :: "pg_world \<Rightarrow> bool" where
  "pg_calm w \<longleftrightarrow> True \<notin> set (pg_faults w)"

definition pg_known :: "bytes \<Rightarrow> pg_world \<Rightarrow> bool" where
  "pg_known t w \<longleftrightarrow> t \<in> snd ` set (pg_topics w)"

definition pg_views :: "sdk \<Rightarrow> pg_world \<Rightarrow> bytes \<Rightarrow> topic_view" where
  "pg_views K w t =
     (case t_get snd t (pg_topics w) of
        None \<Rightarrow> empty_view
      | Some (i, _) \<Rightarrow> tables_view K {x. (x, i) \<in> set (pg_txid_topics w)} (pg_tables w i))"

definition pg_open :: "sdk \<Rightarrow> sql_engine \<Rightarrow> nat \<Rightarrow> bytes \<Rightarrow> pg_world \<Rightarrow> bool" where
  "pg_open K G i t w \<longleftrightarrow> pg_ok K G w \<and> (i, t) \<in> set (pg_topics w)"

lemma pg_view_of:
  "pg_ok K G w \<Longrightarrow> (i, t) \<in> set (pg_topics w) \<Longrightarrow>
    pg_views K w t = tables_view K {x. (x, i) \<in> set (pg_txid_topics w)} (pg_tables w i)"
  using t_get_iff[of snd "pg_topics w" t "(i, t)"] by (auto simp: pg_views_def pg_ok_def)

lemma other_number:
  "pg_ok K G w \<Longrightarrow> (i, t) \<in> set (pg_topics w) \<Longrightarrow> (j, s) \<in> set (pg_topics w) \<Longrightarrow> s \<noteq> t \<Longrightarrow> j \<noteq> i"
  using inj_onD[of fst "set (pg_topics w)" "(i, t)" "(j, s)"] by (auto simp: pg_ok_def t_ok_def distinct_map)

lemma pg_faults_frame [simp]:
  "pg_ok K G (w\<lparr>pg_faults := fs\<rparr>) = pg_ok K G w" "pg_views K (w\<lparr>pg_faults := fs\<rparr>) = pg_views K w"
  "pg_calm (w\<lparr>pg_topics := ts\<rparr>) = pg_calm w" "pg_calm (w\<lparr>pg_sequence := n\<rparr>) = pg_calm w"
  "pg_calm (w\<lparr>pg_topicIDs := ids\<rparr>) = pg_calm w" "pg_calm (w\<lparr>pg_txid_topics := xs\<rparr>) = pg_calm w"
  "pg_views K (w\<lparr>pg_sequence := n\<rparr>) = pg_views K w" "pg_views K (w\<lparr>pg_topicIDs := ids\<rparr>) = pg_views K w"
  by (auto simp: pg_ok_def pg_views_def pg_calm_def fun_eq_iff split: option.splits)

lemma topics_rows_faults [simp]: "topics_rows x (w\<lparr>pg_faults := fs\<rparr>) = topics_rows x w"
  by (simp add: topics_rows_def cong: if_cong)

lemma other_topic: "pg_ok K G w \<Longrightarrow> (j, t) \<in> set (pg_topics w) \<Longrightarrow> (i, t) \<in> set (pg_topics w) \<Longrightarrow> j = i"
  using inj_onD[of snd "set (pg_topics w)" "(i, t)" "(j, t)"] by (auto simp: pg_ok_def t_ok_def distinct_map)

text \<open>Only the rows of a topic's number belong to its view.\<close>

lemma views_put:
  assumes w: "pg_open K G i t w" and tb: "tables_ok K tb"
  shows "pg_open K G i t (w\<lparr>pg_faults := fs, pg_tables := (pg_tables w)(i := tb)\<rparr>)"
    and "pg_views K (w\<lparr>pg_faults := fs, pg_tables := (pg_tables w)(i := tb)\<rparr>) =
      (pg_views K w)(t := tables_view K {x. (x, i) \<in> set (pg_txid_topics w)} tb)"
proof -
  have it: "(i, t) \<in> set (pg_topics w)" "pg_ok K G w" using w by (simp_all add: pg_open_def)
  have "i < pg_sequence w" using it by (auto simp: pg_ok_def)
  with it tb show ok: "pg_open K G i t (w\<lparr>pg_faults := fs, pg_tables := (pg_tables w)(i := tb)\<rparr>)"
    by (auto simp: pg_open_def pg_ok_def)
  show "pg_views K (w\<lparr>pg_faults := fs, pg_tables := (pg_tables w)(i := tb)\<rparr>) =
      (pg_views K w)(t := tables_view K {x. (x, i) \<in> set (pg_txid_topics w)} tb)"
  proof
    fix s
    show "pg_views K (w\<lparr>pg_faults := fs, pg_tables := (pg_tables w)(i := tb)\<rparr>) s =
        ((pg_views K w)(t := tables_view K {x. (x, i) \<in> set (pg_txid_topics w)} tb)) s"
    proof (cases "s = t")
      case True
      with pg_view_of[of K G "w\<lparr>pg_faults := fs, pg_tables := (pg_tables w)(i := tb)\<rparr>" i t] ok show ?thesis
        by (simp add: pg_open_def)
    next
      case False
      have "i \<noteq> j" if "t_get snd s (pg_topics w) = Some (j, s')" for j s'
        using other_number[OF it(2,1), of j s'] False t_get_SomeD[OF that] by auto
      with False show ?thesis by (auto simp: pg_views_def split: option.splits)
    qed
  qed
qed

lemma pg_exec_commits:
  assumes f: "\<And>now. writes K (f now) R"
  shows "commits (pg_open K G i t) pg_calm (pg_views K) t (pg_exec i f) R same_view"
  unfolding commits_def
proof (intro allI impI)
  fix w r w'
  assume w: "pg_open K G i t w" and run: "pg_exec i f w = (r, w')"
  let ?X = "{x. (x, i) \<in> set (pg_txid_topics w)}"
  have v: "pg_views K w t = tables_view K ?X (pg_tables w i)" using w by (intro pg_view_of[of K G]) (simp_all add: pg_open_def)
  show "pg_open K G i t w' \<and> (pg_calm w \<longrightarrow> pg_calm w' \<and> r = Inr ()) \<and> (\<forall>s. s \<noteq> t \<longrightarrow> pg_views K w' s = pg_views K w s) \<and>
      (r = Inr () \<longrightarrow> R (pg_views K w t) (pg_views K w' t)) \<and> (\<forall>e. r = Inl e \<longrightarrow> same_view (pg_views K w t) (pg_views K w' t))"
  proof (cases "pg_faults w \<noteq> [] \<and> hd (pg_faults w)")
    case True
    with run have "r = Inl pg_err" "w' = w\<lparr>pg_faults := tl (pg_faults w)\<rparr>" by (auto simp: pg_exec_def pg_stmt_def)
    moreover have "\<not> pg_calm w" using True by (metis hd_in_set pg_calm_def)
    ultimately show ?thesis using w by (simp add: pg_open_def same_view_def)
  next
    case False
    have "tables_ok K (pg_tables w i)" using w by (simp add: pg_open_def pg_ok_def)
    then obtain tb' where tb': "f (pg_now w) (pg_tables w i) = Inr tb'" "tables_ok K tb'"
      "R (pg_views K w t) (tables_view K ?X tb')"
      using f[of "pg_now w"] unfolding writes_def v by meson
    have "r = Inr ()" "w' = w\<lparr>pg_faults := tl (pg_faults w), pg_tables := (pg_tables w)(i := tb')\<rparr>"
      using run False tb'(1) by (auto simp: pg_exec_def pg_stmt_def)
    moreover have "pg_calm w \<longrightarrow> True \<notin> set (tl (pg_faults w))" by (cases "pg_faults w") (auto simp: pg_calm_def)
    ultimately show ?thesis using views_put[OF w tb'(2), of "tl (pg_faults w)"] tb'(3) by (simp add: pg_calm_def)
  qed
qed

lemma pg_query_answers:
  assumes f: "selects K f P"
  shows "answers (pg_open K G i t) pg_calm (pg_views K) t (pg_query i f) P"
  unfolding answers_def
proof (intro allI impI)
  fix w r w'
  assume w: "pg_open K G i t w" and run: "pg_query i f w = (r, w')"
  have w': "w' = w\<lparr>pg_faults := tl (pg_faults w)\<rparr>"
    using run by (auto simp: pg_query_def pg_stmt_def split: if_splits)
  have calm: "pg_calm w \<longrightarrow> pg_calm w'" unfolding w' by (cases "pg_faults w") (auto simp: pg_calm_def)
  have v: "pg_views K w t = tables_view K {x. (x, i) \<in> set (pg_txid_topics w)} (pg_tables w i)"
    using w by (intro pg_view_of[of K G]) (simp_all add: pg_open_def)
  have "tables_ok K (pg_tables w i)" using w by (simp add: pg_open_def pg_ok_def)
  then obtain x where x: "f (pg_tables w i) = Inr x" "P (pg_views K w t) x"
    using f unfolding v selects_def by meson
  have "r = Inl pg_err \<and> \<not> pg_calm w \<or> r = Inr x"
    using run x(1) by (cases "pg_faults w") (auto simp: pg_query_def pg_stmt_def pg_calm_def split: if_splits)
  moreover have "pg_open K G i t w'" "pg_views K w' = pg_views K w"
    using w by (simp_all add: w' pg_open_def)
  ultimately show "pg_open K G i t w' \<and> pg_views K w' = pg_views K w \<and> (pg_calm w \<longrightarrow> pg_calm w' \<and> (\<exists>x. r = Inr x)) \<and>
      (\<forall>x. r = Inr x \<longrightarrow> P (pg_views K w t) x)"
    using x(2) calm by auto
qed

lemma with_text:
  "sq_text G s \<Longrightarrow> pg_with_text G s f = f"
  by (simp add: pg_with_text_def fun_eq_iff)

section \<open>The contract\<close>

context table_laws
begin

lemma pg_insert_law:
  assumes op: "wf_op op" "length x = 32" "f64_plain sc" "unat sats < 2 ^ 63"
  shows "commits (pg_open K G i t) pg_calm (pg_views K) t (pg_InsertOutput K i op x sats deps ins sc)
    (\<lambda>v v'. \<exists>now. v' = v_InsertOutput True op x sats deps ins sc now v) same_view"
proof -
  have go: "sql_uint64 sats" using op(4) by (simp add: sql_uint64_def)
  show ?thesis unfolding pg_InsertOutput_def eqTrueI[OF go] not_True_eq_False if_False
  proof (rule pg_exec_commits, rule writesI)
    fix now tb X
    assume tb: "tables_ok K tb"
    let ?r = "new_row K op x sats deps ins sc now"
    let ?f = "\<lambda>r. r\<lparr>r_txid := x, r_satoshis := sats, r_score := sc, r_deps := deps, r_inputs_consumed := ins, r_created_at := now\<rparr>"
    let ?rs = "t_upsert r_outpoint ?f ?r (tb_outputs tb)"
    let ?new = "reinserted True (out_view K (tb_outputs tb) op) (new_record op x sats deps ins sc now)"
    have key: "r_outpoint ?r = op_bytes K op" by (simp add: new_row_def)
    have f: "row_ok K (?f r)" if "row_ok K r" for r using that op by (auto simp: row_ok_def)
    have "set ?rs \<subseteq> insert ?r (set (tb_outputs tb) \<union> ?f ` set (tb_outputs tb))" by (rule t_set_upsert)
    then have rows: "rows_ok K ?rs"
      using tables_okD(1)[OF tb] f new_row_ok[OF op(1-3)] t_ok_upsert[of r_outpoint ?f "tb_outputs tb" ?r]
      by (auto simp: rows_ok_def)
    have "out_view K ?rs = (out_view K (tb_outputs tb))(op \<mapsto> ?new)"
    proof
      fix p
      have fx: "rec_of K (?f r) = (new_record op x sats deps ins sc now)\<lparr>or_SpendTxid := r_spend_txid r, or_ConsumedBy := r_consumed_by r\<rparr>"
        if "r_outpoint r = op_bytes K op" for r
        using that op(1) by (simp add: rec_of_def new_record_def op_from_bytes)
      show "out_view K ?rs p = ((out_view K (tb_outputs tb))(op \<mapsto> ?new)) p"
      proof (cases "p = op")
        case True
        have "t_get r_outpoint (op_bytes K op) ?rs =
            Some (case t_get r_outpoint (op_bytes K op) (tb_outputs tb) of None \<Rightarrow> ?r | Some y \<Rightarrow> ?f y)"
          by (subst t_get_upsert) (simp_all add: key)
        then show ?thesis using True op(1) rec_of_new_row[OF op(1)] fx
          by (auto simp: out_view_def reinserted_def split: option.splits dest!: t_get_SomeD)
      next
        case False
        then have "t_get r_outpoint (op_bytes K p) ?rs = t_get r_outpoint (op_bytes K p) (tb_outputs tb)" if "wf_op p"
          using that op(1) by (subst t_get_upsert) (auto simp: key op_bytes_inj)
        with False show ?thesis by (simp add: out_view_def)
      qed
    qed
    from put_output[OF tb rows this]
    show "\<exists>tb'. Inr (tb\<lparr>tb_outputs := ?rs\<rparr>) = Inr tb' \<and> tables_ok K tb' \<and>
        (\<exists>now. tables_view K X tb' = v_InsertOutput True op x sats deps ins sc now (tables_view K X tb))"
      unfolding v_InsertOutput_def by (simp add: tables_view_def) blast
  qed
qed

lemma pg_find_law:
  assumes "\<forall>op \<in> set ops. wf_op op" and "length ops \<le> sq_max_args G - 1"
  shows "answers (pg_open K G i t) pg_calm (pg_views K) t (pg_FindOutputs K G i ops) (\<lambda>v. picks v (\<lambda>r. or_Outpoint r \<in> set ops))"
proof (cases "ops = []")
  case True
  then show ?thesis by (auto simp: pg_FindOutputs_def answers_def sret_def picks_def)
next
  case False
  then have "0 < length ops" by simp
  with assms(2) have "length ops \<le> sq_max_args G" "\<not> sq_max_args G < length ops + 1" by linarith+
  with False show ?thesis using pg_query_answers[OF find_law[OF assms(1)]] by (simp add: pg_FindOutputs_def)
qed

lemma pg_delete_law:
  assumes "wf_op op"
  shows "commits (pg_open K G i t) pg_calm (pg_views K) t (pg_DeleteOutput K i op) (\<lambda>v v'. v' = v_DeleteOutput op v)
    (\<lambda>v v'. v' = v \<or> v' = v_DropOutput op v)"
  unfolding pg_DeleteOutput_def
  by (rule commits_mono[OF commits_seq[OF pg_exec_commits[OF drop_law[OF assms]] pg_exec_commits[OF drop_events_law[OF assms]]]])
    (auto simp: v_DeleteOutput_def v_DropOutput_def)

lemma pg_applied_law:
  "commits (pg_open K G i t) pg_calm (pg_views K) t (pg_InsertAppliedTx i x sc) (\<lambda>v v'. v' = v_InsertAppliedTx x v) same_view"
  unfolding pg_InsertAppliedTx_def
  by (rule pg_exec_commits, rule writesI) (use put_applied in blast)

lemma pg_peer_law:
  assumes "sq_text G host"
  shows "commits (pg_open K G i t) pg_calm (pg_views K) t (pg_UpdateLastInteraction G i host since)
    (\<lambda>v v'. v' = v_UpdateLastInteraction host since v) same_view"
  unfolding pg_UpdateLastInteraction_def with_text[OF assms]
proof (rule pg_exec_commits, rule writesI)
  fix tb X
  assume tb: "tables_ok K tb"
  let ?f = "\<lambda>(h, _). (h, since)"
  have key: "fst (?f y) = fst y" for y :: "bytes \<times> f64" by (cases y) simp
  have "t_get fst h (t_upsert fst ?f (host, since) (tb_peers tb)) =
      (if h = host then Some (host, since) else t_get fst h (tb_peers tb))" for h
    by (subst t_get_upsert) (auto simp: key split: option.splits dest!: t_get_SomeD)
  moreover have "t_ok fst (t_upsert fst ?f (host, since) (tb_peers tb))"
    by (rule t_ok_upsert) (simp_all add: key tables_okD(4)[OF tb])
  ultimately show "\<exists>tb'. Inr (tb\<lparr>tb_peers := t_upsert fst ?f (host, since) (tb_peers tb)\<rparr>) = Inr tb' \<and> tables_ok K tb' \<and>
      tables_view K X tb' = v_UpdateLastInteraction host since (tables_view K X tb)"
    using put_peer[OF tb] by blast
qed

lemma pg_event_law:
  assumes "wf_op op" and "f64_plain sc" and "sq_text G e"
  shows "commits (pg_open K G i t) pg_calm (pg_views K) t (pg_SaveEvent K G i e op sc) (\<lambda>v v'. v' = v_SaveEvent e op sc v) same_view"
  unfolding pg_SaveEvent_def with_text[OF assms(3)]
proof (rule pg_exec_commits, rule writesI)
  fix tb X
  assume tb: "tables_ok K tb"
  let ?x = "\<lparr>ev_event = e, ev_outpoint = op_bytes K op, ev_score = sc\<rparr>"
  let ?f = "ev_score_update (\<lambda>_. sc)"
  let ?es = "t_upsert event_key ?f ?x (tb_events tb)"
  have key: "event_key (?f y) = event_key y" for y by (simp add: event_key_def)
  have "set ?es \<subseteq> insert ?x (set (tb_events tb) \<union> ?f ` set (tb_events tb))" by (rule t_set_upsert)
  then have es: "events_ok K ?es"
    using tables_okD(2)[OF tb] assms t_ok_upsert[of event_key ?f "tb_events tb" ?x, OF key]
    by (auto simp: events_ok_def op_from_bytes)
  have "ev_view K ?es = (ev_view K (tb_events tb))(e := (ev_view K (tb_events tb) e)(op \<mapsto> sc))"
  proof (intro ext)
    fix e' p
    have "t_get event_key (e', op_bytes K p) ?es = (if (e', op_bytes K p) = (e, op_bytes K op)
        then Some (case t_get event_key (e', op_bytes K p) (tb_events tb) of None \<Rightarrow> ?x | Some y \<Rightarrow> ?f y)
        else t_get event_key (e', op_bytes K p) (tb_events tb))"
      using t_get_upsert[of event_key ?f, OF key, of _ ?x] by (simp add: event_key_def)
    then show "ev_view K ?es e' p = ((ev_view K (tb_events tb))(e := (ev_view K (tb_events tb) e)(op \<mapsto> sc))) e' p"
      using assms(1) by (auto simp: ev_view_def op_bytes_inj split: option.splits)
  qed
  from put_event[OF tb es this]
  show "\<exists>tb'. Inr (tb\<lparr>tb_events := ?es\<rparr>) = Inr tb' \<and> tables_ok K tb' \<and> tables_view K X tb' = v_SaveEvent e op sc (tables_view K X tb)"
    by blast
qed

lemma postgres_topic:
  "topic_storage (PostgresStorage K G i) t True (sq_max_args G - 1) (sq_text G) (pg_open K G i t) pg_calm (pg_views K)"
proof (unfold_locales, simp_all only: PostgresStorage_def topic_ops.select_convs)
  show "view_ok (pg_views K w t)" if "pg_open K G i t w" for w
    using that tables_view_ok pg_view_of[of K G w i t] by (simp add: pg_open_def pg_ok_def)
qed (simp_all add: pg_insert_law pg_find_law pg_delete_law pg_applied_law pg_peer_law pg_event_law
  pg_GetOutput_def pg_FindOutputsForTransaction_def pg_MarkSpent_def pg_UpdateConsumedBy_def pg_FindUTXOs_def
  pg_Rollback_def pg_HasAppliedTx_def pg_GetLastInteraction_def pg_DeleteEvent_def pg_FindByEvent_def
  pg_UpdateEventsForTxid_def pg_query_answers pg_exec_commits get_law find_tx_law mark_law consumed_law utxos_law
  rollback_law has_applied_law get_peer_law delete_event_law find_event_law update_events_law with_text)

end

section \<open>The factory and the index\<close>

lemma empty_tables_view: "tables_view K {} new_tables = empty_view"
  by (simp add: tables_view_def new_tables_def empty_view_def out_view_def ev_view_def table_simps fun_eq_iff)

lemma add_topic:
  assumes w: "pg_ok K G w" and t: "sq_text G t" "t_get snd t (pg_topics w) = None"
  shows "pg_ok K G (w\<lparr>pg_topics := pg_topics w @ [(pg_sequence w, t)], pg_sequence := Suc (pg_sequence w)\<rparr>)"
    and "pg_views K (w\<lparr>pg_topics := pg_topics w @ [(pg_sequence w, t)], pg_sequence := Suc (pg_sequence w)\<rparr>) = pg_views K w"
proof -
  have new: "pg_sequence w \<notin> fst ` set (pg_topics w)" "t \<notin> snd ` set (pg_topics w)"
    using w t(2) by (auto simp: pg_ok_def t_get_None)
  then show "pg_ok K G (w\<lparr>pg_topics := pg_topics w @ [(pg_sequence w, t)], pg_sequence := Suc (pg_sequence w)\<rparr>)"
    using w t(1) by (auto simp: pg_ok_def t_ok_def)
  have none: "{x. (x, pg_sequence w) \<in> set (pg_txid_topics w)} = {}" "pg_tables w (pg_sequence w) = new_tables"
    using w new(1) by (auto simp: pg_ok_def)
  show "pg_views K (w\<lparr>pg_topics := pg_topics w @ [(pg_sequence w, t)], pg_sequence := Suc (pg_sequence w)\<rparr>) = pg_views K w"
  proof
    fix s
    show "pg_views K (w\<lparr>pg_topics := pg_topics w @ [(pg_sequence w, t)], pg_sequence := Suc (pg_sequence w)\<rparr>) s = pg_views K w s"
    proof (cases "s = t")
      case True
      with t(2) none show ?thesis by (simp add: pg_views_def t_get_append table_simps empty_tables_view)
    next
      case False
      then show ?thesis by (auto simp: pg_views_def t_get_append table_simps split: option.splits)
    qed
  qed
qed

lemma bump_sequence: "pg_ok K G w \<Longrightarrow> pg_ok K G (w\<lparr>pg_sequence := Suc (pg_sequence w)\<rparr>)"
  by (auto simp: pg_ok_def)

lemma cache_number: "pg_ok K G w \<Longrightarrow> (i, t) \<in> set (pg_topics w) \<Longrightarrow> pg_ok K G (w\<lparr>pg_topicIDs := (pg_topicIDs w)(t \<mapsto> i)\<rparr>)"
  by (auto simp: pg_ok_def)

lemma index_entry:
  "pg_ok K G w \<Longrightarrow> i \<in> fst ` set (pg_topics w) \<Longrightarrow> distinct ys \<Longrightarrow> set ys = insert (x, i) (set (pg_txid_topics w)) \<Longrightarrow>
    pg_ok K G (w\<lparr>pg_txid_topics := ys\<rparr>)"
  by (simp add: pg_ok_def)

text \<open>One statement of the factory or the index.\<close>

lemma pg_stmt_cases:
  assumes "pg_stmt m w = (r, w')"
  obtains "r = Inl pg_err" "w' = w\<lparr>pg_faults := tl (pg_faults w)\<rparr>" "\<not> pg_calm w"
    | "m (w\<lparr>pg_faults := tl (pg_faults w)\<rparr>) = (r, w')" "pg_calm w \<Longrightarrow> pg_calm (w\<lparr>pg_faults := tl (pg_faults w)\<rparr>)"
proof (cases "pg_faults w \<noteq> [] \<and> hd (pg_faults w)")
  case True
  then have "\<not> pg_calm w" by (metis hd_in_set pg_calm_def)
  with True assms show ?thesis by (intro that(1)) (auto simp: pg_stmt_def)
next
  case False
  have "pg_calm w \<Longrightarrow> pg_calm (w\<lparr>pg_faults := tl (pg_faults w)\<rparr>)" by (cases "pg_faults w") (auto simp: pg_calm_def)
  with False assms show ?thesis by (intro that(2)) (auto simp: pg_stmt_def)
qed

lemma insert_topic_law:
  assumes w: "pg_ok K G w" and t: "sq_text G t" and run: "insert_topic G t w = (r, w')"
  shows "pg_ok K G w' \<and> pg_views K w' = pg_views K w \<and> (pg_calm w \<longrightarrow> pg_calm w' \<and> (\<exists>x. r = Inr x)) \<and>
    (\<forall>i. r = Inr (Some i) \<longrightarrow> (i, t) \<in> set (pg_topics w')) \<and>
    (r = Inr None \<longrightarrow> t_get snd t (pg_topics w') \<noteq> None)"
  using run unfolding insert_topic_def
proof (cases rule: pg_stmt_cases)
  case 1
  with w show ?thesis by simp
next
  case 2
  let ?v = "w\<lparr>pg_faults := tl (pg_faults w)\<rparr>"
  have v: "pg_ok K G ?v" using w by simp
  show ?thesis
  proof (cases "t_get snd t (pg_topics w) = None")
    case True
    with 2 t have "r = Inr (Some (pg_sequence w))" "w' = ?v\<lparr>pg_topics := pg_topics ?v @ [(pg_sequence ?v, t)], pg_sequence := Suc (pg_sequence ?v)\<rparr>"
      by auto
    with add_topic[OF v t] True 2(2) show ?thesis by (simp add: pg_calm_def)
  next
    case False
    with 2 t have "r = Inr None" "w' = ?v\<lparr>pg_sequence := Suc (pg_sequence ?v)\<rparr>" by auto
    with bump_sequence[OF v] False 2(2) show ?thesis by simp
  qed
qed

lemma select_topic_law:
  assumes w: "pg_ok K G w" and t: "sq_text G t" and run: "select_topic G t w = (r, w')"
  shows "pg_ok K G w' \<and> pg_views K w' = pg_views K w \<and> pg_topics w' = pg_topics w \<and> (pg_calm w \<longrightarrow> pg_calm w' \<and> (\<exists>x. r = Inr x)) \<and>
    (\<forall>x. r = Inr x \<longrightarrow> x = map_option fst (t_get snd t (pg_topics w)))"
  using run unfolding select_topic_def
  by (cases rule: pg_stmt_cases) (use w t in auto)

lemma resolve_law:
  assumes w: "pg_ok K G w" and t: "sq_text G t" and run: "resolveTopicID G t w = (r, w')"
  shows "pg_ok K G w' \<and> pg_views K w' = pg_views K w \<and> (pg_calm w \<longrightarrow> pg_calm w' \<and> (\<exists>i. r = Inr i)) \<and>
    (\<forall>i. r = Inr i \<longrightarrow> (i, t) \<in> set (pg_topics w'))"
proof (cases "pg_topicIDs w t")
  case (Some i)
  with run w show ?thesis by (auto simp: resolveTopicID_def pg_ok_def)
next
  case None
  obtain q v where ins: "insert_topic G t w = (q, v)" by fastforce
  note I = insert_topic_law[OF w t ins]
  show ?thesis
  proof (cases q)
    case (Inl e)
    with run None ins I show ?thesis by (auto simp: resolveTopicID_def step_simps)
  next
    case (Inr found)
    show ?thesis
    proof (cases found)
      case (Some i)
      with run None ins Inr have "r = Inr i" "w' = v\<lparr>pg_topicIDs := (pg_topicIDs v)(t \<mapsto> i)\<rparr>"
        by (auto simp: resolveTopicID_def step_simps)
      with I Inr Some cache_number[of K G v i t] show ?thesis by auto
    next
      case none: None
      obtain p u where sel: "select_topic G t v = (p, u)" by fastforce
      from I have v: "pg_ok K G v" by simp
      note S = select_topic_law[OF v t sel]
      show ?thesis
      proof (cases p)
        case (Inl e)
        with run None ins Inr none sel I S show ?thesis by (auto simp: resolveTopicID_def step_simps)
      next
        case (Inr known)
        then obtain i t' where i: "t_get snd t (pg_topics v) = Some (i, t')" "known = Some i"
          using S I \<open>q = Inr found\<close> none by auto
        then have mem: "(i, t) \<in> set (pg_topics u)" using S t_get_SomeD[OF i(1)] by auto
        have "r = Inr i" "w' = u\<lparr>pg_topicIDs := (pg_topicIDs u)(t \<mapsto> i)\<rparr>"
          using run None ins \<open>q = Inr found\<close> none sel Inr i(2) by (auto simp: resolveTopicID_def step_simps)
        with I S mem cache_number[of K G u i t] show ?thesis by auto
      qed
    qed
  qed
qed

context table_laws
begin

lemma record_law:
  assumes "sq_text G t"
  shows "commits (\<lambda>v. pg_ok K G v \<and> pg_known t v) pg_calm (pg_views K) t (pg_Record G x t) (\<lambda>v v'. v' = v_Record x v) same_view"
  unfolding commits_def
proof (intro allI impI)
  fix w r w'
  assume w: "pg_ok K G w \<and> pg_known t w" and run: "pg_Record G x t w = (r, w')"
  obtain p u where sel: "select_topic G t w = (p, u)" by fastforce
  note S = select_topic_law[OF conjunct1[OF w] assms sel]
  have u: "pg_ok K G u" "pg_known t u" using S w by (simp_all add: pg_known_def)
  then obtain i where it: "(i, t) \<in> set (pg_topics u)" by (auto simp: pg_known_def)
  then have get: "t_get snd t (pg_topics u) = Some (i, t)" using u(1) by (simp add: pg_ok_def t_get_iff)
  show "(pg_ok K G w' \<and> pg_known t w') \<and> (pg_calm w \<longrightarrow> pg_calm w' \<and> r = Inr ()) \<and> (\<forall>s. s \<noteq> t \<longrightarrow> pg_views K w' s = pg_views K w s) \<and>
      (r = Inr () \<longrightarrow> pg_views K w' t = v_Record x (pg_views K w t)) \<and> (\<forall>e. r = Inl e \<longrightarrow> same_view (pg_views K w t) (pg_views K w' t))"
  proof (cases p)
    case (Inl e)
    with run sel S w show ?thesis by (auto simp: pg_Record_def step_simps same_view_def pg_known_def)
  next
    case (Inr known)
    then have "known = Some i" using S get by simp
    then have "pg_stmt (\<lambda>w. (Inr (), w\<lparr>pg_txid_topics := t_ignore id (x, i) (pg_txid_topics w)\<rparr>)) u = (r, w')"
      using run sel Inr by (simp add: pg_Record_def step_simps)
    then show ?thesis
    proof (cases rule: pg_stmt_cases)
      case 1
      with S u show ?thesis by (auto simp: same_view_def pg_known_def)
    next
      case 2
      have ids: "set (t_ignore id (x, i) (pg_txid_topics u)) = insert (x, i) (set (pg_txid_topics u))"
        "distinct (t_ignore id (x, i) (pg_txid_topics u))"
        using u t_get_None[of id "(x, i)" "pg_txid_topics u"] by (auto simp: t_ignore_def pg_ok_def dest: t_get_SomeD)
      have w': "w' = u\<lparr>pg_faults := tl (pg_faults u), pg_txid_topics := t_ignore id (x, i) (pg_txid_topics u)\<rparr>" and r: "r = Inr ()"
        using 2 by auto
      have "i \<in> fst ` set (pg_topics u)" using it by force
      then have ok: "pg_ok K G w'" using index_entry[of K G "u\<lparr>pg_faults := tl (pg_faults u)\<rparr>" i _ x] u(1) ids unfolding w' by simp
      have "pg_views K w' t = v_Record x (pg_views K u t)"
        unfolding w' by (simp add: pg_views_def get ids v_Record_def tables_view_def) auto
      moreover have "pg_views K w' s = pg_views K u s" if "s \<noteq> t" for s
      proof -
        have "i \<noteq> j" if "t_get snd s (pg_topics u) = Some (j, s')" for j s'
          using other_number[OF u(1) it, of j s'] \<open>s \<noteq> t\<close> t_get_SomeD[OF that] by auto
        then show ?thesis unfolding w' by (auto simp: pg_views_def ids split: option.splits)
      qed
      moreover have "pg_calm u \<Longrightarrow> pg_calm w'" using 2(2) unfolding w' by (simp add: pg_calm_def)
      ultimately show ?thesis using ok r S u(2) by (auto simp: pg_known_def w')
    qed
  qed
qed

lemma topics_rows_set:
  assumes w: "pg_ok K G w"
  shows "distinct (topics_rows x w)" "set (topics_rows x w) = {t. x \<in> tv_txids (pg_views K w t)}"
    "\<forall>t \<in> set (topics_rows x w). sq_text G t"
proof -
  have mem: "t \<in> set (topics_rows x w) \<longleftrightarrow> (\<exists>i. (x, i) \<in> set (pg_txid_topics w) \<and> (i, t) \<in> set (pg_topics w))" for t
    by (force simp: topics_rows_def split: if_splits)
  show "set (topics_rows x w) = {t. x \<in> tv_txids (pg_views K w t)}"
  proof (intro set_eqI)
    fix t
    show "t \<in> set (topics_rows x w) \<longleftrightarrow> t \<in> {t. x \<in> tv_txids (pg_views K w t)}"
    proof (cases "t_get snd t (pg_topics w)")
      case None
      then have "(i, t) \<notin> set (pg_topics w)" for i by (force simp: t_get_None)
      with None show ?thesis by (simp add: mem pg_views_def empty_view_def)
    next
      case (Some p)
      then obtain i where i: "p = (i, t)" "(i, t) \<in> set (pg_topics w)" by (cases p) (auto dest: t_get_SomeD)
      then have "(j, t) \<in> set (pg_topics w) \<longleftrightarrow> j = i" for j
        using w Some t_get_iff[of snd "pg_topics w" t "(j, t)"] by (auto simp: pg_ok_def)
      with i Some show ?thesis by (simp add: mem pg_views_def tables_view_def)
    qed
  qed
  show "\<forall>t \<in> set (topics_rows x w). sq_text G t" using w by (auto simp: mem pg_ok_def)
  have one: "distinct (map snd (filter (\<lambda>t. fst t = i) (pg_topics w)))" for i
    using w by (simp add: pg_ok_def t_ok_def distinct_map_filter)
  have unique: "j = i" if "(j, t) \<in> set (pg_topics w)" "(i, t) \<in> set (pg_topics w)" for i j t
    using other_topic[OF w that] .
  let ?F = "\<lambda>tt. if fst tt = x then map snd (filter (\<lambda>t. fst t = snd tt) (pg_topics w)) else []"
  have F: "fst p = x \<and> (snd p, t) \<in> set (pg_topics w)" if "t \<in> set (?F p)" for p t
  proof (cases "fst p = x")
    case True
    with that have "t \<in> snd ` {y \<in> set (pg_topics w). fst y = snd p}" by simp
    with True show ?thesis by force
  next
    case False
    with that show ?thesis by simp
  qed
  have "distinct (concat (map ?F xs))" if "distinct xs" for xs
    using that
  proof (induction xs)
    case (Cons p xs)
    have "t \<notin> set (concat (map ?F xs))" if t: "t \<in> set (?F p)" for t
    proof
      assume "t \<in> set (concat (map ?F xs))"
      then obtain q where q: "q \<in> set xs" "t \<in> set (?F q)" unfolding set_concat set_map by blast
      have "fst q = fst p" using F[OF q(2)] F[OF t] by metis
      moreover have "snd q = snd p" by (rule unique) (use F[OF q(2)] F[OF t] in blast)+
      ultimately have "q = p" by (rule prod_eqI)
      with q(1) Cons.prems show False by auto
    qed
    then have "set (?F p) \<inter> set (concat (map ?F xs)) = {}" by blast
    moreover have "distinct (?F p)" using one by simp
    moreover have "distinct (concat (map ?F xs))" using Cons by simp
    ultimately show ?case unfolding list.map concat.simps distinct_append by blast
  qed simp
  then show "distinct (topics_rows x w)" using w by (simp add: topics_rows_def pg_ok_def)
qed

lemma postgres_factory:
  "topic_factory (pg_Topic K G) \<lparr>ix_Record = pg_Record G, ix_Topics = pg_Topics G, ix_Delete = pg_Delete\<rparr>
     True (sq_max_args G - 1) (sq_text G) (pg_ok K G) pg_calm pg_known (pg_views K)"
proof (unfold_locales, simp_all only: tx_topic_index.select_convs)
  fix w t r w'
  assume w: "pg_ok K G w" and t: "sq_text G t" and run: "pg_Topic K G t w = (r, w')"
  obtain q u where q: "resolveTopicID G t w = (q, u)" by fastforce
  note R = resolve_law[OF w t q]
  have "w' = u" "\<forall>T. r = Inr T \<longrightarrow> (\<exists>i. q = Inr i \<and> T = PostgresStorage K G i)" "(\<exists>i. q = Inr i) \<longrightarrow> (\<exists>T. r = Inr T)"
    using run q by (auto simp: pg_Topic_def step_simps split: sum.splits)
  moreover have "\<forall>i. q = Inr i \<longrightarrow> pg_open K G i t u" using R by (simp add: pg_open_def)
  moreover have "\<forall>i v. pg_open K G i t v \<longrightarrow> pg_ok K G v \<and> pg_known t v" by (force simp: pg_open_def pg_known_def)
  ultimately show "pg_ok K G w' \<and> pg_views K w' = pg_views K w \<and> (pg_calm w \<longrightarrow> pg_calm w' \<and> (\<exists>T. r = Inr T)) \<and>
      (\<forall>T. r = Inr T \<longrightarrow> (\<exists>okt. topic_storage T t True (sq_max_args G - 1) (sq_text G) okt pg_calm (pg_views K) \<and> okt w' \<and>
        (\<forall>v. okt v \<longrightarrow> pg_ok K G v \<and> pg_known t v)))"
    using R postgres_topic by metis
next
  fix x :: txid and t
  assume "sq_text G t"
  then show "commits (\<lambda>v. pg_ok K G v \<and> pg_known t v) pg_calm (pg_views K) t (pg_Record G x t) (\<lambda>v v'. v' = v_Record x v) same_view"
    by (rule record_law)
next
  fix w x r w'
  assume w: "pg_ok K G w" and run: "pg_Topics G x w = (r, w')"
  have m: "mset (sq_arrange_topics G xs) = mset xs" for xs using engine by (simp add: engine_laws_def)
  have ts: "distinct (sq_arrange_topics G (topics_rows x w))"
      "set (sq_arrange_topics G (topics_rows x w)) = set (topics_rows x w)"
    using topics_rows_set(1)[OF w] m mset_eq_imp_distinct_iff apply blast
    by (metis m set_mset_mset)
  have "pg_ok K G w' \<and> pg_views K w' = pg_views K w \<and> (pg_calm w \<longrightarrow> pg_calm w' \<and> (\<exists>ts. r = Inr ts)) \<and>
      (\<forall>ts. r = Inr ts \<longrightarrow> ts = sq_arrange_topics G (topics_rows x w))"
    using run unfolding pg_Topics_def
    by (cases rule: pg_stmt_cases) (use w in auto)
  then show "pg_ok K G w' \<and> pg_views K w' = pg_views K w \<and> (pg_calm w \<longrightarrow> pg_calm w' \<and> (\<exists>ts. r = Inr ts)) \<and>
      (\<forall>ts. r = Inr ts \<longrightarrow> distinct ts \<and> set ts = {t. x \<in> tv_txids (pg_views K w t)} \<and> (\<forall>t \<in> set ts. sq_text G t))"
    using ts topics_rows_set[OF w] by auto
qed

end

end
