(* ===== verification/OverlayAdapter.thy ===== *)
theory OverlayAdapter
  imports TopicStore Beef
begin

text \<open>
  \<open>pkg/overlay/storage/adapter.go\<close>: the storage the overlay engine works with. It routes what concerns a
  topic to the topic's storage, and transactions to the shared BEEF store; and it turns
  the rows of a topic into the engine's outputs. The factory, the index, the BEEF store and the indexer's
  callback are operations on one world. Outpoints are never nil here.
\<close>

section \<open>The adapter\<close>

record ('w, 'b, 'mp) shared_beefs =
  sb_SaveBeef :: "txid \<Rightarrow> ('b, 'mp) beef \<Rightarrow> ('w, err, unit) sm"
  sb_LoadBeef :: "txid \<Rightarrow> ('w, err, ('b, 'mp) beef) sm"
  sb_MergeBeef :: "('b, 'mp) beef \<Rightarrow> txid list \<Rightarrow> ('w, err, ('b, 'mp) beef) sm"

record ('w, 'b, 'mp) engine_adapter =
  ad_factory :: "bytes \<Rightarrow> ('w, err, 'w topic_ops) sm"
  ad_beefStore :: "('w, 'b, 'mp) shared_beefs option"
  ad_txTopicIndex :: "'w tx_topic_index option"
  ad_IngestTx :: "(('b, 'mp) tx \<Rightarrow> ('w, err, unit) sm) option"
  ad_lib :: "('b, 'mp) beef_lib"
  ad_satoshis :: "('b, 'mp) tx \<Rightarrow> 64 word list"
  ad_sdk :: sdk
  ad_now :: "'w \<Rightarrow> f64"

record ('b, 'mp) engine_output =
  eo_Outpoint :: outpoint
  eo_Topic :: bytes
  eo_Score :: f64
  eo_Spent :: bool
  eo_AncillaryTxids :: "txid list"
  eo_OutputsConsumed :: "outpoint list"
  eo_ConsumedBy :: "outpoint list"
  eo_Beef :: "('b, 'mp) beef option"

section \<open>Rows as engine outputs\<close>

text \<open>The steps of \<open>for i := 0; i < len(b); i += n\<close>.\<close>

function pieces :: "nat \<Rightarrow> 'a list \<Rightarrow> 'a list list" where
  "pieces n xs = (if n = 0 \<or> xs = [] then [] else take n xs # pieces n (drop n xs))"
  by pat_completeness auto
termination
  by (relation "measure (\<lambda>(n, xs). length xs)") auto

declare pieces.simps [simp del]

definition decode_txids :: "bytes \<Rightarrow> txid list" where
  "decode_txids b = (if 0 < length b \<and> length b mod 32 = 0 then pieces 32 b else [])"

definition decode_ops :: "sdk \<Rightarrow> bytes \<Rightarrow> outpoint list" where
  "decode_ops K b = (if 0 < length b \<and> length b mod 36 = 0 then List.map_filter (op_from_bytes K) (pieces 36 b) else [])"

definition recordToEngineOutput :: "sdk \<Rightarrow> output_record \<Rightarrow> bytes \<Rightarrow> ('b, 'mp) engine_output" where
  "recordToEngineOutput K r topic =
     \<lparr>eo_Outpoint = or_Outpoint r, eo_Topic = topic, eo_Score = or_Score r, eo_Spent = (or_SpendTxid r \<noteq> None),
      eo_AncillaryTxids = decode_txids (or_Deps r), eo_OutputsConsumed = decode_ops K (or_InputsConsumed r),
      eo_ConsumedBy = decode_ops K (or_ConsumedBy r), eo_Beef = None\<rparr>"

definition loadBEEF :: "('w, 'b, 'mp) engine_adapter \<Rightarrow> ('b, 'mp) engine_output \<Rightarrow> ('w, err, ('b, 'mp) engine_output) sm" where
  "loadBEEF A o' =
     (case ad_beefStore A of
        None \<Rightarrow> sret o'
      | Some B \<Rightarrow>
          if eo_Beef o' \<noteq> None then sret o'
          else sbind (sb_LoadBeef B (op_txid (eo_Outpoint o'))) (\<lambda>bf. sret (o'\<lparr>eo_Beef := Some bf\<rparr>)))"

definition load_if :: "('w, 'b, 'mp) engine_adapter \<Rightarrow> bool \<Rightarrow> ('b, 'mp) engine_output \<Rightarrow> ('w, err, ('b, 'mp) engine_output) sm" where
  "load_if A includeBEEF o' = (if includeBEEF then loadBEEF A o' else sret o')"

section \<open>Writes\<close>

text \<open>The inputs of a transaction whose source is unknown get it from the BEEF.\<close>

fun fill_sources :: "('b, 'mp) beef_lib \<Rightarrow> ('b, 'mp) beef \<Rightarrow> ('b, 'mp) tx \<Rightarrow> ('b, 'mp) tx" where
  "fill_sources L bf (Tx b mp ins) =
     Tx b mp (map (\<lambda>(id, src). (id, if src = None then FindTransactionByHash L bf id else src)) ins)"

definition save_shared :: "('w, 'b, 'mp) engine_adapter \<Rightarrow> txid \<Rightarrow> ('b, 'mp) beef option \<Rightarrow> ('w, err, unit) sm" where
  "save_shared A txid bf =
     (case (ad_beefStore A, bf) of (Some B, Some bf) \<Rightarrow> sb_SaveBeef B txid bf | _ \<Rightarrow> sret ())"

definition ingest_shared :: "('w, 'b, 'mp) engine_adapter \<Rightarrow> txid \<Rightarrow> ('b, 'mp) beef option \<Rightarrow> ('w, err, unit) sm" where
  "ingest_shared A txid bf =
     (case ad_IngestTx A of
        None \<Rightarrow> sret ()
      | Some ingest \<Rightarrow>
          (case bf of
             None \<Rightarrow> sfail (ErrOther ''InsertOutputs: cannot index tx - BEEF is nil'')
           | Some bf \<Rightarrow>
               (case FindTransactionByHash (ad_lib A) bf txid of
                  None \<Rightarrow> sfail (ErrOther ''InsertOutputs: cannot index tx - transaction not found in BEEF'')
                | Some tx \<Rightarrow> ingest (fill_sources (ad_lib A) bf tx))))"

definition satoshis_at :: "('w, 'b, 'mp) engine_adapter \<Rightarrow> txid \<Rightarrow> ('b, 'mp) beef option \<Rightarrow> 32 word \<Rightarrow> 64 word" where
  "satoshis_at A txid bf vout =
     (case bf of
        None \<Rightarrow> 0
      | Some bf \<Rightarrow>
          (case FindTransactionByHash (ad_lib A) bf txid of
             None \<Rightarrow> 0
           | Some tx \<Rightarrow> if unat vout < length (ad_satoshis A tx) then ad_satoshis A tx ! unat vout else 0))"

definition insert_one ::
  "('w, 'b, 'mp) engine_adapter \<Rightarrow> 'w topic_ops \<Rightarrow> txid \<Rightarrow> ('b, 'mp) beef option \<Rightarrow> bytes \<Rightarrow> bytes \<Rightarrow> f64 \<Rightarrow> 32 word \<Rightarrow>
    ('w, err, unit) sm" where
  "insert_one A db txid bf deps ins score vout =
     ts_InsertOutput db \<lparr>op_txid = txid, op_index = vout\<rparr> txid (satoshis_at A txid bf vout) deps ins score"

definition record_topic :: "('w, 'b, 'mp) engine_adapter \<Rightarrow> txid \<Rightarrow> bytes \<Rightarrow> ('w, err, unit) sm" where
  "record_topic A txid topic = (case ad_txTopicIndex A of None \<Rightarrow> sret () | Some X \<Rightarrow> ix_Record X txid topic)"

definition InsertOutputs ::
  "('w, 'b, 'mp) engine_adapter \<Rightarrow> bytes \<Rightarrow> txid \<Rightarrow> 32 word list \<Rightarrow> outpoint list \<Rightarrow> ('b, 'mp) beef option \<Rightarrow> txid list \<Rightarrow>
    ('w, err, unit) sm" where
  "InsertOutputs A topic txid outputVouts outpointsConsumed bf ancillaryTxids =
     (if outputVouts = [] then sret ()
      else sseq (save_shared A txid bf)
        (sseq (ingest_shared A txid bf)
          (sbind (ad_factory A topic) (\<lambda>db w.
            sseq (sfor (insert_one A db txid bf (concat ancillaryTxids)
                    (concat (map (op_bytes (ad_sdk A)) outpointsConsumed)) (ad_now A w)) outputVouts)
              (record_topic A txid topic) w))))"

definition ad_DeleteOutput :: "('w, 'b, 'mp) engine_adapter \<Rightarrow> outpoint \<Rightarrow> bytes \<Rightarrow> ('w, err, unit) sm" where
  "ad_DeleteOutput A op topic = sbind (ad_factory A topic) (\<lambda>db. ts_DeleteOutput db op)"

definition MarkUTXOsAsSpent ::
  "('w, 'b, 'mp) engine_adapter \<Rightarrow> outpoint list \<Rightarrow> bytes \<Rightarrow> txid option \<Rightarrow> ('w, err, unit) sm" where
  "MarkUTXOsAsSpent A ops topic spendTxid =
     (case spendTxid of
        None \<Rightarrow> sret ()
      | Some s \<Rightarrow> sbind (ad_factory A topic) (\<lambda>db. sfor (\<lambda>op. ts_MarkSpent db op s) ops))"

definition ad_UpdateConsumedBy ::
  "('w, 'b, 'mp) engine_adapter \<Rightarrow> outpoint \<Rightarrow> bytes \<Rightarrow> outpoint list \<Rightarrow> ('w, err, unit) sm" where
  "ad_UpdateConsumedBy A op topic consumedBy =
     sbind (ad_factory A topic) (\<lambda>db. ts_UpdateConsumedBy db op (concat (map (op_bytes (ad_sdk A)) consumedBy)))"

definition UpdateTransactionBEEF ::
  "('w, 'b, 'mp) engine_adapter \<Rightarrow> txid \<Rightarrow> ('b, 'mp) beef option \<Rightarrow> ('w, err, unit) sm" where
  "UpdateTransactionBEEF A txid bf = save_shared A txid bf"

definition InsertAppliedTransaction :: "('w, 'b, 'mp) engine_adapter \<Rightarrow> txid \<Rightarrow> bytes \<Rightarrow> ('w, err, unit) sm" where
  "InsertAppliedTransaction A txid topic =
     sbind (ad_factory A topic) (\<lambda>db w. ts_InsertAppliedTx db txid (ad_now A w) w)"

definition ad_UpdateLastInteraction :: "('w, 'b, 'mp) engine_adapter \<Rightarrow> bytes \<Rightarrow> bytes \<Rightarrow> f64 \<Rightarrow> ('w, err, unit) sm" where
  "ad_UpdateLastInteraction A host topic since = sbind (ad_factory A topic) (\<lambda>db. ts_UpdateLastInteraction db host since)"

text \<open>Block heights and proofs are not kept per topic.\<close>

definition UpdateOutputBlockHeight :: "outpoint \<Rightarrow> bytes \<Rightarrow> 32 word \<Rightarrow> 64 word \<Rightarrow> ('w, err, unit) sm" where
  "UpdateOutputBlockHeight op topic height idx = sret ()"

section \<open>Reads\<close>

definition ad_FindOutput ::
  "('w, 'b, 'mp) engine_adapter \<Rightarrow> outpoint \<Rightarrow> bytes option \<Rightarrow> bool option \<Rightarrow> bool \<Rightarrow>
    ('w, err, ('b, 'mp) engine_output option) sm" where
  "ad_FindOutput A op topic spent includeBEEF =
     (case topic of
        None \<Rightarrow> sfail (ErrOther ''FindOutput: topic is required'')
      | Some t \<Rightarrow> sbind (ad_factory A t) (\<lambda>db. sbind (ts_GetOutput db op) (\<lambda>rec.
          case rec of
            None \<Rightarrow> sret None
          | Some r \<Rightarrow>
              let o' = recordToEngineOutput (ad_sdk A) r t in
              if spent \<noteq> None \<and> eo_Spent o' \<noteq> the spent then sret None
              else sbind (load_if A includeBEEF o') (\<lambda>o''. sret (Some o'')))))"

text \<open>The loop over the rows fills a map from the outpoint's string.\<close>

fun by_outpoint ::
  "('w, 'b, 'mp) engine_adapter \<Rightarrow> bytes \<Rightarrow> bool option \<Rightarrow> bool \<Rightarrow> output_record list \<Rightarrow>
    (bytes \<Rightarrow> ('b, 'mp) engine_output option) \<Rightarrow> ('w, err, bytes \<Rightarrow> ('b, 'mp) engine_output option) sm" where
  "by_outpoint A topic spent includeBEEF [] m = sret m"
| "by_outpoint A topic spent includeBEEF (r # rs) m =
     (let o' = recordToEngineOutput (ad_sdk A) r topic in
      if spent \<noteq> None \<and> eo_Spent o' \<noteq> the spent then by_outpoint A topic spent includeBEEF rs m
      else sbind (load_if A includeBEEF o') (\<lambda>o''.
        by_outpoint A topic spent includeBEEF rs (m(op_string (ad_sdk A) (or_Outpoint r) \<mapsto> o''))))"

definition ad_FindOutputs ::
  "('w, 'b, 'mp) engine_adapter \<Rightarrow> outpoint list \<Rightarrow> bytes \<Rightarrow> bool option \<Rightarrow> bool \<Rightarrow>
    ('w, err, ('b, 'mp) engine_output option list) sm" where
  "ad_FindOutputs A ops topic spent includeBEEF =
     sbind (ad_factory A topic) (\<lambda>db. sbind (ts_FindOutputs db ops) (\<lambda>recs.
       sbind (by_outpoint A topic spent includeBEEF recs Map.empty) (\<lambda>m.
         sret (map (\<lambda>op. m (op_string (ad_sdk A) op)) ops))))"

definition engine_outputs ::
  "('w, 'b, 'mp) engine_adapter \<Rightarrow> bytes \<Rightarrow> bool \<Rightarrow> output_record list \<Rightarrow> ('w, err, ('b, 'mp) engine_output list) sm" where
  "engine_outputs A topic includeBEEF recs =
     smap (\<lambda>r. load_if A includeBEEF (recordToEngineOutput (ad_sdk A) r topic)) recs"

definition ad_FindOutputsForTransaction ::
  "('w, 'b, 'mp) engine_adapter \<Rightarrow> txid \<Rightarrow> bool \<Rightarrow> ('w, err, ('b, 'mp) engine_output list) sm" where
  "ad_FindOutputsForTransaction A txid includeBEEF =
     (case ad_txTopicIndex A of
        None \<Rightarrow> sret []
      | Some X \<Rightarrow> sbind (ix_Topics X txid) (\<lambda>topics.
          sbind (smap (\<lambda>topic. sbind (ad_factory A topic) (\<lambda>db.
              sbind (ts_FindOutputsForTransaction db txid) (engine_outputs A topic includeBEEF))) topics)
            (\<lambda>oss. sret (concat oss))))"

definition FindUTXOsForTopic ::
  "('w, 'b, 'mp) engine_adapter \<Rightarrow> bytes \<Rightarrow> f64 \<Rightarrow> 32 word \<Rightarrow> bool \<Rightarrow> ('w, err, ('b, 'mp) engine_output list) sm" where
  "FindUTXOsForTopic A topic since limit includeBEEF =
     sbind (ad_factory A topic) (\<lambda>db.
       sbind (ts_FindUTXOs db (Some \<lparr>qo_Since = since, qo_Limit = limit, qo_Reverse = False\<rparr>))
         (engine_outputs A topic includeBEEF))"

definition DoesAppliedTransactionExist :: "('w, 'b, 'mp) engine_adapter \<Rightarrow> txid \<Rightarrow> bytes \<Rightarrow> ('w, err, bool) sm" where
  "DoesAppliedTransactionExist A txid topic = sbind (ad_factory A topic) (\<lambda>db. ts_HasAppliedTx db txid)"

definition ad_GetLastInteraction :: "('w, 'b, 'mp) engine_adapter \<Rightarrow> bytes \<Rightarrow> bytes \<Rightarrow> ('w, err, f64) sm" where
  "ad_GetLastInteraction A host topic = sbind (ad_factory A topic) (\<lambda>db. ts_GetLastInteraction db host)"

definition FindOutpointsByMerkleState :: "bytes \<Rightarrow> 32 word \<Rightarrow> ('w, err, outpoint list) sm" where
  "FindOutpointsByMerkleState topic limit = sret []"

definition ReconcileMerkleRoot :: "bytes \<Rightarrow> 32 word \<Rightarrow> ('w, err, unit) sm" where
  "ReconcileMerkleRoot topic height = sret ()"

definition LoadAncillaryBeef ::
  "('w, 'b, 'mp) engine_adapter \<Rightarrow> ('b, 'mp) engine_output \<Rightarrow> ('w, err, ('b, 'mp) engine_output) sm" where
  "LoadAncillaryBeef A o' =
     (case ad_beefStore A of
        None \<Rightarrow> sret o'
      | Some B \<Rightarrow>
          if eo_AncillaryTxids o' = [] then sret o'
          else (case eo_Beef o' of
              None \<Rightarrow> sfail (ErrOther ''output has no BEEF to merge into'')
            | Some bf \<Rightarrow> sbind (sb_MergeBeef B bf (eo_AncillaryTxids o')) (\<lambda>merged. sret (o'\<lparr>eo_Beef := Some merged\<rparr>))))"

end
