(* ===== verification/OverlayLaws.thy ===== *)
theory OverlayLaws
  imports OverlayAdapter
begin

text \<open>
  What the overlay engine may rely on of the adapter, over any factory that keeps the contract of
  \<open>TopicStore\<close>: the locale \<open>overlay_adapter\<close> adds that the BEEF store and the indexer's callback
  leave the topics alone. The blobs of a row decode to what was encoded.
\<close>

section \<open>Blobs\<close>

lemma pieces_concat:
  assumes "\<forall>x \<in> set xs. length x = n" and "0 < n"
  shows "pieces n (concat xs) = xs"
  using assms(1)
proof (induction xs)
  case Nil
  show ?case by (simp add: pieces.simps)
next
  case (Cons x xs)
  then have "x @ concat xs \<noteq> []" "take n (x @ concat xs) = x" "drop n (x @ concat xs) = concat xs"
    using assms(2) by auto
  with Cons assms(2) show ?case by (subst pieces.simps) simp
qed

lemma length_concat_same: "\<forall>x \<in> set xs. length x = n \<Longrightarrow> length (concat xs) = n * length xs"
  by (induction xs) auto

lemma decode_txids_concat: "\<forall>x \<in> set xs. length x = 32 \<Longrightarrow> decode_txids (concat xs) = xs"
  using pieces_concat[of xs 32] length_concat_same[of xs 32] by (cases xs) (auto simp: decode_txids_def)

context sdk_laws
begin

lemma decode_ops_concat:
  assumes "\<forall>op \<in> set ops. wf_op op"
  shows "decode_ops K (concat (map (op_bytes K) ops)) = ops"
proof -
  have len: "\<forall>x \<in> set (map (op_bytes K) ops). length x = 36" using assms by (auto simp: op_bytes_length)
  have "List.map_filter (op_from_bytes K) (map (op_bytes K) ops) = ops"
    using assms by (induction ops) (auto simp: List.map_filter_simps op_from_bytes)
  then show ?thesis using pieces_concat[OF len] length_concat_same[OF len]
    by (cases ops) (auto simp: decode_ops_def List.map_filter_simps)
qed

end

section \<open>The adapter over its providers\<close>

text \<open>An operation of another component: it may fail, and leaves every topic alone.\<close>

definition quiet :: "('w \<Rightarrow> bool) \<Rightarrow> ('w \<Rightarrow> bytes \<Rightarrow> topic_view) \<Rightarrow> ('w, err, 'a) sm \<Rightarrow> bool" where
  "quiet ok views m \<longleftrightarrow> (\<forall>w r w'. ok w \<longrightarrow> m w = (r, w') \<longrightarrow> ok w' \<and> views w' = views w)"

lemma quiet_sret [simp]: "quiet ok views (sret x)" "quiet ok views (sfail e)"
  by (simp_all add: quiet_def sret_def sfail_def)

lemma quiet_sbind:
  assumes "quiet ok views m" and "\<And>x. quiet ok views (k x)"
  shows "quiet ok views (sbind m k)"
  unfolding quiet_def
proof (intro allI impI)
  fix w r w'
  assume w: "ok w" and run: "sbind m k w = (r, w')"
  obtain q u where u: "m w = (q, u)" by fastforce
  with assms(1) w have U: "ok u" "views u = views w" by (auto simp: quiet_def)
  show "ok w' \<and> views w' = views w"
  proof (cases q)
    case (Inl e)
    with run u U show ?thesis by (auto simp: step_simps)
  next
    case (Inr x)
    then have "k x u = (r, w')" using run u by (simp add: step_simps)
    with assms(2)[of x] U show ?thesis by (auto simp: quiet_def)
  qed
qed

lemma quiet_sseq: "quiet ok views m \<Longrightarrow> quiet ok views n \<Longrightarrow> quiet ok views (sseq m n)"
  unfolding sseq_def by (rule quiet_sbind)

lemma quiet_smap: "(\<And>x. quiet ok views (f x)) \<Longrightarrow> quiet ok views (smap f xs)"
proof (induction xs)
  case (Cons x xs)
  have "quiet ok views (smap f xs)" using Cons.prems by (rule Cons.IH)
  with Cons.prems show ?case unfolding smap.simps by (intro quiet_sbind quiet_sret)
qed simp

lemma commitsD:
  assumes "commits ok calm views t m R E" and "ok w" and "m w = (Inr (), w')"
  shows "ok w' \<and> (\<forall>s. s \<noteq> t \<longrightarrow> views w' s = views w s) \<and> R (views w t) (views w' t)"
  using assms unfolding commits_def by blast

lemma answersD:
  assumes "answers ok calm views t m P" and "ok w" and "m w = (Inr x, w')"
  shows "ok w' \<and> views w' = views w \<and> P (views w t) x"
  using assms unfolding answers_def by blast

text \<open>What a topic holds after outputs were inserted, each at its own instant.\<close>

definition put_all ::
  "bool \<Rightarrow> outpoint set \<Rightarrow> (outpoint \<Rightarrow> int \<Rightarrow> output_record) \<Rightarrow> topic_view \<Rightarrow> topic_view \<Rightarrow> bool" where
  "put_all keeps S new v v' \<longleftrightarrow>
     (\<forall>op. if op \<in> S then \<exists>now. tv_outs v' op = Some (reinserted keeps (tv_outs v op) (new op now))
           else tv_outs v' op = tv_outs v op) \<and>
     tv_events v' = tv_events v \<and> tv_applied v' = tv_applied v \<and> tv_peers v' = tv_peers v \<and> tv_txids v' = tv_txids v"

lemma put_all_same:
  assumes "put_all keeps S new v v1" and "tv_outs v2 = tv_outs v1" "tv_events v2 = tv_events v1"
    "tv_applied v2 = tv_applied v1" "tv_peers v2 = tv_peers v1" "tv_txids v2 = tv_txids v1"
  shows "put_all keeps S new v v2"
  using assms by (simp add: put_all_def)

lemma reinserted_twice:
  "or_SpendTxid r2 = None \<Longrightarrow> or_ConsumedBy r2 = [] \<Longrightarrow> or_SpendTxid r1 = None \<Longrightarrow> or_ConsumedBy r1 = [] \<Longrightarrow>
    reinserted keeps (Some (reinserted keeps old r1)) r2 = reinserted keeps old r2"
  by (auto simp: reinserted_def split: option.splits)

lemma put_all_step:
  assumes new: "\<And>op now. or_SpendTxid (new op now) = None \<and> or_ConsumedBy (new op now) = []"
    and v1: "v1 = v\<lparr>tv_outs := (tv_outs v)(op \<mapsto> reinserted keeps (tv_outs v op) (new op now))\<rparr>"
    and v2: "put_all keeps S new v1 v2"
  shows "put_all keeps (insert op S) new v v2"
proof -
  have "if p \<in> insert op S then \<exists>now. tv_outs v2 p = Some (reinserted keeps (tv_outs v p) (new p now))
      else tv_outs v2 p = tv_outs v p" for p
  proof (cases "p \<in> S")
    case True
    then obtain n where "tv_outs v2 p = Some (reinserted keeps (tv_outs v1 p) (new p n))"
      using v2 unfolding put_all_def by meson
    with True new show ?thesis by (cases "p = op") (auto simp: v1 reinserted_twice)
  next
    case False
    then have "tv_outs v2 p = tv_outs v1 p" using v2 unfolding put_all_def by meson
    with False show ?thesis by (auto simp: v1)
  qed
  with v2 show ?thesis unfolding put_all_def by (simp add: v1)
qed

locale overlay_adapter = topic_factory + sdk_laws +
  fixes A :: "('a, 'b, 'mp) engine_adapter"
  assumes providers: "ad_factory A = F" "ad_txTopicIndex A = Some X" "ad_sdk A = K"
    and op_string_inj: "wf_op a \<Longrightarrow> wf_op b \<Longrightarrow> op_string K a = op_string K b \<Longrightarrow> a = b"
    and clock: "f64_plain (ad_now A w)"
    and satoshis: "n \<in> set (ad_satoshis A tx) \<Longrightarrow> unat n < 2 ^ 63"
    and beefs_quiet: "ad_beefStore A = Some B \<Longrightarrow> quiet ok views (sb_SaveBeef B x bf) \<and> quiet ok views (sb_LoadBeef B x)"
    and ingest_quiet: "ad_IngestTx A = Some f \<Longrightarrow> quiet ok views (f tx)"
begin

lemma shared_quiet: "quiet ok views (save_shared A x bf)" "quiet ok views (ingest_shared A x bf)"
  by (auto simp: save_shared_def ingest_shared_def beefs_quiet ingest_quiet split: option.splits)

lemma load_quiet: "quiet ok views (load_if A inc o')"
  by (auto simp: load_if_def loadBEEF_def beefs_quiet intro!: quiet_sbind split: option.splits)

lemma satoshis_fit: "unat (satoshis_at A x bf vout) < 2 ^ 63"
  using satoshis[OF nth_mem] by (simp add: satoshis_at_def split: option.splits)

text \<open>Opening a topic and then running an operation on it.\<close>

lemma opened:
  assumes w: "ok w" "text_ok t" and run: "sbind (F t) k w = (Inr y, w')"
  obtains db okt u where "topic_storage db t keeps most text_ok okt calm views" "okt u" "\<And>v. okt v \<Longrightarrow> ok v \<and> known t v"
    "views u = views w" "k db u = (Inr y, w')"
proof -
  obtain q u where u: "F t w = (q, u)" by fastforce
  then obtain db where db: "q = Inr db" "k db u = (Inr y, w')"
    using run by (cases q) (auto simp: step_simps)
  from opens[OF w u] db show ?thesis using that by blast
qed

lemma insert_loop:
  assumes db: "topic_storage db t keeps most text_ok okt calm views" and w: "okt w" and x: "length x = 32"
    and sc: "f64_plain sc" and run: "sfor (insert_one A db x bf deps ins sc) vouts w = (Inr (), w')"
  shows "okt w' \<and> (\<forall>s. s \<noteq> t \<longrightarrow> views w' s = views w s) \<and>
    put_all keeps ((\<lambda>i. \<lparr>op_txid = x, op_index = i\<rparr>) ` set vouts)
      (\<lambda>op now. new_record op x (satoshis_at A x bf (op_index op)) deps ins sc now) (views w t) (views w' t)"
  using w run
proof (induction vouts arbitrary: w)
  case Nil
  then show ?case by (simp add: put_all_def step_simps)
next
  case (Cons i vouts)
  let ?op = "\<lparr>op_txid = x, op_index = i\<rparr>" and ?new = "\<lambda>op now. new_record op x (satoshis_at A x bf (op_index op)) deps ins sc now"
  obtain u where u: "insert_one A db x bf deps ins sc i w = (Inr (), u)" "sfor (insert_one A db x bf deps ins sc) vouts u = (Inr (), w')"
    using Cons.prems(2) by (auto simp: step_simps split: prod.splits sum.splits)
  have wf: "wf_op ?op" using x by (simp add: wf_op_def)
  have c: "commits okt calm views t (insert_one A db x bf deps ins sc i)
      (\<lambda>v v'. \<exists>now. v' = v_InsertOutput keeps ?op x (satoshis_at A x bf i) deps ins sc now v) same_view"
    unfolding insert_one_def by (rule topic_storage.InsertOutput[OF db wf x sc satoshis_fit])
  then obtain now where U: "okt u" "\<forall>s. s \<noteq> t \<longrightarrow> views u s = views w s"
      "views u t = v_InsertOutput keeps ?op x (satoshis_at A x bf i) deps ins sc now (views w t)"
    using commitsD[OF c Cons.prems(1) u(1)] by blast
  have "views u t = (views w t)\<lparr>tv_outs := (tv_outs (views w t))(?op \<mapsto> reinserted keeps (tv_outs (views w t) ?op) (?new ?op now))\<rparr>"
    by (simp add: U(3) v_InsertOutput_def)
  from put_all_step[where new = ?new, OF _ this] Cons.IH[OF U(1) u(2)] U(2)
  show ?case by (simp add: new_record_def)
qed

lemma insert_outputs:
  assumes w: "ok w" and t: "text_ok t" and x: "length x = 32" and vouts: "vouts \<noteq> []"
    and run: "InsertOutputs A t x vouts consumed bf anc w = (Inr (), w')"
  shows "ok w' \<and> (\<forall>s. s \<noteq> t \<longrightarrow> views w' s = views w s) \<and> x \<in> tv_txids (views w' t) \<and>
    (\<exists>sc. put_all keeps ((\<lambda>i. \<lparr>op_txid = x, op_index = i\<rparr>) ` set vouts)
      (\<lambda>op now. new_record op x (satoshis_at A x bf (op_index op)) (concat anc) (concat (map (op_bytes K) consumed)) sc now)
      (views w t) ((views w' t)\<lparr>tv_txids := tv_txids (views w t)\<rparr>))"
proof -
  obtain w1 where w1: "save_shared A x bf w = (Inr (), w1)"
    "sseq (ingest_shared A x bf) (sbind (F t) (\<lambda>db w. sseq (sfor (insert_one A db x bf (concat anc)
       (concat (map (op_bytes K) consumed)) (ad_now A w)) vouts) (record_topic A x t) w)) w1 = (Inr (), w')"
    using run vouts by (auto simp: InsertOutputs_def providers step_simps split: prod.splits sum.splits)
  obtain w2 where w2: "ingest_shared A x bf w1 = (Inr (), w2)"
    "sbind (F t) (\<lambda>db w. sseq (sfor (insert_one A db x bf (concat anc)
       (concat (map (op_bytes K) consumed)) (ad_now A w)) vouts) (record_topic A x t) w) w2 = (Inr (), w')"
    using w1(2) by (auto simp: sseq_def step_simps split: prod.splits sum.splits)
  have W2: "ok w2" "views w2 = views w"
    using shared_quiet w w1(1) w2(1) unfolding quiet_def by metis+
  obtain db okt w3 where db: "topic_storage db t keeps most text_ok okt calm views" "okt w3"
      "\<And>v. okt v \<Longrightarrow> ok v \<and> known t v" "views w3 = views w2"
    and go: "sseq (sfor (insert_one A db x bf (concat anc) (concat (map (op_bytes K) consumed)) (ad_now A w3)) vouts)
      (record_topic A x t) w3 = (Inr (), w')"
    by (rule opened[OF W2(1) t w2(2)]) blast
  obtain w4 where w4: "sfor (insert_one A db x bf (concat anc) (concat (map (op_bytes K) consumed)) (ad_now A w3)) vouts w3 = (Inr (), w4)"
    "record_topic A x t w4 = (Inr (), w')"
    using go by (auto simp: step_simps split: prod.splits sum.splits)
  note I = insert_loop[OF db(1,2) x clock w4(1)]
  have "ix_Record X x t w4 = (Inr (), w')" using w4(2) by (simp add: record_topic_def providers)
  then have R: "ok w' \<and> known t w' \<and> (\<forall>s. s \<noteq> t \<longrightarrow> views w' s = views w4 s) \<and> views w' t = v_Record x (views w4 t)"
    using commitsD[OF Record[OF x t]] I db(3) by blast
  have same: "tv_txids (views w4 t) = tv_txids (views w t)" using I db(4) W2(2) by (simp add: put_all_def)
  have "put_all keeps ((\<lambda>i. \<lparr>op_txid = x, op_index = i\<rparr>) ` set vouts)
      (\<lambda>op now. new_record op x (satoshis_at A x bf (op_index op)) (concat anc) (concat (map (op_bytes K) consumed)) (ad_now A w3) now)
      (views w t) ((views w' t)\<lparr>tv_txids := tv_txids (views w t)\<rparr>)"
    by (rule put_all_same[where ?v1.0 = "views w4 t"]) (use I R same db(4) W2(2) in \<open>simp_all add: v_Record_def\<close>)
  then show ?thesis using I R db(4) W2(2) by (auto simp: v_Record_def)
qed

text \<open>The map that \<open>FindOutputs\<close> fills, at the string of any outpoint.\<close>

definition shown :: "bytes \<Rightarrow> bool option \<Rightarrow> bool \<Rightarrow> output_record option \<Rightarrow> ('b, 'mp) engine_output option \<Rightarrow> bool" where
  "shown t spent inc r o' \<longleftrightarrow>
     (case r of
        None \<Rightarrow> o' = None
      | Some r \<Rightarrow>
          if spent \<noteq> None \<and> (or_SpendTxid r \<noteq> None) \<noteq> the spent then o' = None
          else \<exists>bf. o' = Some ((recordToEngineOutput K r t)\<lparr>eo_Beef := bf\<rparr>) \<and> (\<not> inc \<longrightarrow> bf = None))"

lemma loaded:
  assumes "ok w" and "load_if A inc o' w = (Inr o'', w')"
  shows "ok w' \<and> views w' = views w \<and> (\<exists>bf. o'' = o'\<lparr>eo_Beef := bf\<rparr> \<and> (\<not> inc \<longrightarrow> bf = eo_Beef o'))"
proof -
  have "ok w' \<and> views w' = views w" using load_quiet assms unfolding quiet_def by blast
  moreover have "o' = o'\<lparr>eo_Beef := eo_Beef o'\<rparr>" by simp
  moreover have "o'' = o' \<or> inc \<and> (\<exists>bf. o'' = o'\<lparr>eo_Beef := Some bf\<rparr>)"
    using assms(2) by (auto simp: load_if_def loadBEEF_def step_simps split: if_splits option.splits prod.splits sum.splits)
  ultimately show ?thesis by metis
qed

lemma shown_None [simp]: "shown t spent inc None None"
  by (simp add: shown_def)

lemma by_outpoint_law:
  assumes "ok w" and "by_outpoint A t spent inc rs m w = (Inr m', w')"
    and "distinct (map or_Outpoint rs)" and "\<forall>r \<in> set rs. wf_op (or_Outpoint r)"
    and "\<forall>r \<in> set rs. m (op_string K (or_Outpoint r)) = None"
  shows "ok w' \<and> views w' = views w \<and> (\<forall>r \<in> set rs. shown t spent inc (Some r) (m' (op_string K (or_Outpoint r)))) \<and>
    (\<forall>q. q \<notin> (\<lambda>r. op_string K (or_Outpoint r)) ` set rs \<longrightarrow> m' q = m q)"
  using assms
proof (induction rs arbitrary: w m)
  case Nil
  then show ?case by (simp add: step_simps)
next
  case (Cons r rs)
  let ?s = "op_string K (or_Outpoint r)" and ?o = "recordToEngineOutput K r t :: ('b, 'mp) engine_output"
  have fresh: "op_string K (or_Outpoint q) \<noteq> ?s" if "q \<in> set rs" for q
    using that Cons.prems(3,4) op_string_inj by fastforce
  show ?case
  proof (cases "spent \<noteq> None \<and> eo_Spent ?o \<noteq> the spent")
    case True
    have run: "by_outpoint A t spent inc rs m w = (Inr m', w')" using Cons.prems(2)
      unfolding by_outpoint.simps Let_def providers by (simp only: if_P[OF True])
    have I: "ok w' \<and> views w' = views w \<and> (\<forall>r \<in> set rs. shown t spent inc (Some r) (m' (op_string K (or_Outpoint r)))) \<and>
        (\<forall>q. q \<notin> (\<lambda>r. op_string K (or_Outpoint r)) ` set rs \<longrightarrow> m' q = m q)"
      by (rule Cons.IH[OF Cons.prems(1) run]) (use Cons.prems in simp_all)
    have "?s \<notin> (\<lambda>r. op_string K (or_Outpoint r)) ` set rs" using fresh by fastforce
    then have "m' ?s = None" using I Cons.prems(5) by simp
    moreover have "shown t spent inc (Some r) None" using True by (simp add: shown_def recordToEngineOutput_def)
    ultimately show ?thesis using I by simp
  next
    case False
    obtain o'' u where o'': "load_if A inc ?o w = (Inr o'', u)"
      "by_outpoint A t spent inc rs (m(?s \<mapsto> o'')) u = (Inr m', w')"
      using Cons.prems(2) False by (auto simp: providers Let_def step_simps split: prod.splits sum.splits)
    note L = loaded[OF Cons.prems(1) o''(1)]
    have I: "ok w' \<and> views w' = views u \<and> (\<forall>r \<in> set rs. shown t spent inc (Some r) (m' (op_string K (or_Outpoint r)))) \<and>
        (\<forall>q. q \<notin> (\<lambda>r. op_string K (or_Outpoint r)) ` set rs \<longrightarrow> m' q = (m(?s \<mapsto> o'')) q)"
      by (rule Cons.IH[OF conjunct1[OF L] o''(2)]) (use Cons.prems fresh in auto)
    have "?s \<notin> (\<lambda>r. op_string K (or_Outpoint r)) ` set rs" using fresh by fastforce
    then have "m' ?s = Some o''" using I by simp
    moreover have "shown t spent inc (Some r) (Some o'')"
      using False L by (auto simp: shown_def recordToEngineOutput_def)
    ultimately show ?thesis using I L by auto
  qed
qed

lemma find_outputs:
  assumes w: "ok w" and t: "text_ok t" and ops: "\<forall>op \<in> set ops. wf_op op" "length ops \<le> most"
    and run: "ad_FindOutputs A ops t spent inc w = (Inr os, w')"
  shows "ok w' \<and> views w' = views w \<and>
    list_all2 (\<lambda>op o'. shown t spent inc (tv_outs (views w t) op) o') ops os"
proof -
  have go: "sbind (F t) (\<lambda>db. sbind (ts_FindOutputs db ops) (\<lambda>recs. sbind (by_outpoint A t spent inc recs Map.empty)
      (\<lambda>m. sret (map (\<lambda>op. m (op_string K op)) ops)))) w = (Inr os, w')"
    using run by (simp add: ad_FindOutputs_def providers)
  obtain db okt u where db: "topic_storage db t keeps most text_ok okt calm views" "okt u"
      "\<And>v. okt v \<Longrightarrow> ok v \<and> known t v" "views u = views w"
      "sbind (ts_FindOutputs db ops) (\<lambda>recs. sbind (by_outpoint A t spent inc recs Map.empty)
        (\<lambda>m. sret (map (\<lambda>op. m (op_string K op)) ops))) u = (Inr os, w')"
    by (rule opened[OF w t go]) blast
  obtain recs v m where r: "ts_FindOutputs db ops u = (Inr recs, v)" "by_outpoint A t spent inc recs Map.empty v = (Inr m, w')"
      "os = map (\<lambda>op. m (op_string K op)) ops"
    using db(5) by (auto simp: step_simps split: prod.splits sum.splits)
  have V: "okt v" "views v = views u" and P: "picks (views u t) (\<lambda>r. or_Outpoint r \<in> set ops) recs"
    using answersD[OF topic_storage.FindOutputs[OF db(1) ops] db(2) r(1)] by simp_all
  have vo: "view_ok (views u t)" by (rule topic_storage.views_ok[OF db(1,2)])
  have wf: "\<forall>r \<in> set recs. wf_op (or_Outpoint r)" using P ops(1) by (auto simp: picks_def)
  have B: "ok w' \<and> views w' = views v \<and> (\<forall>r \<in> set recs. shown t spent inc (Some r) (m (op_string K (or_Outpoint r)))) \<and>
      (\<forall>q. q \<notin> (\<lambda>r. op_string K (or_Outpoint r)) ` set recs \<longrightarrow> m q = None)"
    using by_outpoint_law[OF _ r(2)] db(3)[OF V(1)] P wf by (simp add: picks_def)
  have "shown t spent inc (tv_outs (views w t) op) (m (op_string K op))" if op: "op \<in> set ops" for op
  proof (cases "tv_outs (views w t) op")
    case None
    have "op_string K op \<noteq> op_string K (or_Outpoint r)" if r: "r \<in> set recs" for r
    proof
      assume "op_string K op = op_string K (or_Outpoint r)"
      then have "or_Outpoint r = op" using op_string_inj ops(1) op wf r by blast
      moreover obtain p where "tv_outs (views u t) p = Some r" using P r by (auto simp: picks_def)
      moreover from this have "p = or_Outpoint r" using vo by (auto simp: view_ok_def)
      ultimately show False using None db(4) by simp
    qed
    then have "m (op_string K op) = None" using B by auto
    with None show ?thesis by simp
  next
    case (Some r)
    then have "or_Outpoint r = op" using vo db(4) by (auto simp: view_ok_def)
    moreover from this have "r \<in> set recs" using P Some op db(4) by (auto simp: picks_def)
    ultimately show ?thesis using B Some by force
  qed
  then have "list_all2 (\<lambda>op o'. shown t spent inc (tv_outs (views w t) op) o') ops os"
    unfolding r(3) by (simp add: list_all2_map2 list.rel_refl_strong list_all2_same)
  with B V db(4) show ?thesis by simp
qed

text \<open>A spend of several outputs.\<close>

lemma mark_loop:
  assumes db: "topic_storage db t keeps most text_ok okt calm views" and w: "okt w" and x: "length x = 32"
    and ops: "\<forall>op \<in> set ops. wf_op op" and run: "sfor (\<lambda>op. ts_MarkSpent db op x) ops w = (Inr (), w')"
  shows "okt w' \<and> (\<forall>s. s \<noteq> t \<longrightarrow> views w' s = views w s) \<and>
    tv_outs (views w' t) = (\<lambda>op. if op \<in> set ops then map_option (or_SpendTxid_update (\<lambda>_. Some x)) (tv_outs (views w t) op)
      else tv_outs (views w t) op) \<and> (views w' t)\<lparr>tv_outs := tv_outs (views w t)\<rparr> = views w t"
  using w ops run
proof (induction ops arbitrary: w)
  case Nil
  then show ?case by (simp add: step_simps)
next
  case (Cons op ops)
  obtain u where u: "ts_MarkSpent db op x w = (Inr (), u)" "sfor (\<lambda>op. ts_MarkSpent db op x) ops u = (Inr (), w')"
    using Cons.prems(3) by (auto simp: step_simps split: prod.splits sum.splits)
  have U: "okt u" "\<forall>s. s \<noteq> t \<longrightarrow> views u s = views w s" "views u t = v_MarkSpent op x (views w t)"
    using commitsD[OF topic_storage.MarkSpent[OF db _ x] Cons.prems(1) u(1)] Cons.prems(2) by auto
  have "\<forall>op \<in> set ops. wf_op op" using Cons.prems(2) by simp
  note I = Cons.IH[OF U(1) this u(2)]
  have twice: "map_option (or_SpendTxid_update (\<lambda>_. Some x)) (map_option (or_SpendTxid_update (\<lambda>_. Some x)) r) =
      map_option (or_SpendTxid_update (\<lambda>_. Some x)) r" for r :: "output_record option"
    by (cases r) simp_all
  have "tv_outs (views w' t) = (\<lambda>p. if p \<in> set (op # ops) then map_option (or_SpendTxid_update (\<lambda>_. Some x)) (tv_outs (views w t) p)
      else tv_outs (views w t) p)"
    using I U(3) by (auto simp: v_MarkSpent_def twice fun_eq_iff)
  moreover have "(views w' t)\<lparr>tv_outs := tv_outs (views w t)\<rparr> = views w t"
    using I unfolding U(3) v_MarkSpent_def by (cases "views w' t", cases "views w t") auto
  ultimately show ?case using I U by simp
qed

lemma mark_spent:
  assumes w: "ok w" and t: "text_ok t" and x: "length x = 32" and ops: "\<forall>op \<in> set ops. wf_op op"
    and run: "MarkUTXOsAsSpent A ops t (Some x) w = (Inr (), w')"
  shows "ok w' \<and> (\<forall>s. s \<noteq> t \<longrightarrow> views w' s = views w s) \<and>
    tv_outs (views w' t) = (\<lambda>op. if op \<in> set ops then map_option (or_SpendTxid_update (\<lambda>_. Some x)) (tv_outs (views w t) op)
      else tv_outs (views w t) op)"
proof -
  have go: "sbind (F t) (\<lambda>db. sfor (\<lambda>op. ts_MarkSpent db op x) ops) w = (Inr (), w')"
    using run by (simp add: MarkUTXOsAsSpent_def providers)
  obtain db okt u where db: "topic_storage db t keeps most text_ok okt calm views" "okt u"
      "\<And>v. okt v \<Longrightarrow> ok v \<and> known t v" "views u = views w" "sfor (\<lambda>op. ts_MarkSpent db op x) ops u = (Inr (), w')"
    by (rule opened[OF w t go]) blast
  from mark_loop[OF db(1,2) x ops db(5)] db(3) show ?thesis unfolding db(4) by blast
qed

text \<open>The unspent outputs, and outputs by transaction.\<close>

lemma engine_outputs_law:
  assumes "ok w" and "engine_outputs A t inc recs w = (Inr os, w')"
  shows "ok w' \<and> views w' = views w \<and> list_all2 (\<lambda>r o'. shown t None inc (Some r) (Some o')) recs os"
  using assms
proof (induction recs arbitrary: w os)
  case Nil
  then show ?case by (simp add: engine_outputs_def step_simps)
next
  case (Cons r recs)
  obtain o' u os' where u: "load_if A inc (recordToEngineOutput K r t) w = (Inr o', u)"
      "engine_outputs A t inc recs u = (Inr os', w')" "os = o' # os'"
    using Cons.prems(2) by (auto simp: engine_outputs_def providers step_simps split: prod.splits sum.splits)
  note L = loaded[OF Cons.prems(1) u(1)]
  from Cons.IH[OF conjunct1[OF L] u(2)] L show ?case by (auto simp: u(3) shown_def recordToEngineOutput_def)
qed

lemma find_utxos:
  assumes w: "ok w" and t: "text_ok t" and run: "FindUTXOsForTopic A t since limit inc w = (Inr os, w')"
  shows "ok w' \<and> views w' = views w \<and> (\<exists>recs. listed \<lparr>qo_Since = since, qo_Limit = limit, qo_Reverse = False\<rparr>
      (view_utxos \<lparr>qo_Since = since, qo_Limit = limit, qo_Reverse = False\<rparr> (views w t)) recs \<and>
    list_all2 (\<lambda>r o'. shown t None inc (Some r) (Some o')) recs os) \<and> view_ok (views w t)"
proof -
  let ?q = "\<lparr>qo_Since = since, qo_Limit = limit, qo_Reverse = False\<rparr>"
  have go: "sbind (F t) (\<lambda>db. sbind (ts_FindUTXOs db (Some ?q)) (engine_outputs A t inc)) w = (Inr os, w')"
    using run by (simp add: FindUTXOsForTopic_def providers)
  obtain db okt u where db: "topic_storage db t keeps most text_ok okt calm views" "okt u"
      "\<And>v. okt v \<Longrightarrow> ok v \<and> known t v" "views u = views w"
      "sbind (ts_FindUTXOs db (Some ?q)) (engine_outputs A t inc) u = (Inr os, w')"
    by (rule opened[OF w t go]) blast
  obtain recs v where r: "ts_FindUTXOs db (Some ?q) u = (Inr recs, v)" "engine_outputs A t inc recs v = (Inr os, w')"
    using db(5) by (auto simp: step_simps split: prod.splits sum.splits)
  have V: "okt v" "views v = views u" "listed ?q (view_utxos ?q (views u t)) recs"
    using answersD[OF topic_storage.FindUTXOs[OF db(1), of "Some ?q"] db(2) r(1)] by (simp_all add: opts_of_def)
  have "view_ok (views u t)" by (rule topic_storage.views_ok[OF db(1,2)])
  with engine_outputs_law[OF conjunct1[OF db(3)[OF V(1)]] r(2)] V db(4) show ?thesis by auto
qed

text \<open>An insertion and the lookup after it.\<close>

lemma shown_inserted:
  assumes "tv_outs v op = Some (reinserted keeps old (new_record op x sats (concat anc) (concat (map (op_bytes K) consumed)) sc now))"
    and "\<forall>a \<in> set anc. length a = 32" and "\<forall>op \<in> set consumed. wf_op op"
    and "shown t None False (tv_outs v op) o'"
  shows "\<exists>e. o' = Some e \<and> eo_Outpoint e = op \<and> eo_Topic e = t \<and> eo_AncillaryTxids e = anc \<and> eo_OutputsConsumed e = consumed \<and>
    (eo_Spent e \<longleftrightarrow> keeps \<and> (\<exists>r. old = Some r \<and> or_SpendTxid r \<noteq> None))"
  using assms(1,4) decode_txids_concat[OF assms(2)] decode_ops_concat[OF assms(3)]
  by (cases old) (auto simp: shown_def recordToEngineOutput_def reinserted_def new_record_def)

lemma insert_find:
  assumes w: "ok w" and t: "text_ok t" and x: "length x = 32" and vouts: "vouts \<noteq> []" "length vouts \<le> most"
    and anc: "\<forall>a \<in> set anc. length a = 32" and consumed: "\<forall>op \<in> set consumed. wf_op op"
    and ins: "InsertOutputs A t x vouts consumed bf anc w = (Inr (), w1)"
    and find: "ad_FindOutputs A (map (\<lambda>i. \<lparr>op_txid = x, op_index = i\<rparr>) vouts) t None False w1 = (Inr os, w2)"
  shows "list_all2 (\<lambda>i o'. \<exists>e. o' = Some e \<and> eo_Outpoint e = \<lparr>op_txid = x, op_index = i\<rparr> \<and> eo_Topic e = t \<and>
      eo_AncillaryTxids e = anc \<and> eo_OutputsConsumed e = consumed \<and>
      (eo_Spent e \<longleftrightarrow> keeps \<and> (\<exists>r. tv_outs (views w t) \<lparr>op_txid = x, op_index = i\<rparr> = Some r \<and> or_SpendTxid r \<noteq> None))) vouts os \<and>
    (\<forall>s. s \<noteq> t \<longrightarrow> views w2 s = views w s) \<and> x \<in> tv_txids (views w2 t)"
proof -
  let ?op = "\<lambda>i. \<lparr>op_txid = x, op_index = i\<rparr>"
  from insert_outputs[OF w t x vouts(1) ins] obtain sc where I: "ok w1" "\<forall>s. s \<noteq> t \<longrightarrow> views w1 s = views w s" "x \<in> tv_txids (views w1 t)"
      "put_all keeps (?op ` set vouts) (\<lambda>op now. new_record op x (satoshis_at A x bf (op_index op)) (concat anc)
        (concat (map (op_bytes K) consumed)) sc now) (views w t) ((views w1 t)\<lparr>tv_txids := tv_txids (views w t)\<rparr>)"
    by blast
  have wf: "\<forall>op \<in> set (map ?op vouts). wf_op op" using x by (simp add: wf_op_def)
  have F: "views w2 = views w1" "list_all2 (\<lambda>op o'. shown t None False (tv_outs (views w1 t) op) o') (map ?op vouts) os"
    using find_outputs[OF I(1) t wf _ find] vouts(2) by simp_all
  have stored: "\<exists>now. tv_outs (views w1 t) (?op i) = Some (reinserted keeps (tv_outs (views w t) (?op i))
      (new_record (?op i) x (satoshis_at A x bf i) (concat anc) (concat (map (op_bytes K) consumed)) sc now))"
    if "i \<in> set vouts" for i
  proof -
    have "?op i \<in> ?op ` set vouts" using that by (rule imageI)
    with I(4) show ?thesis unfolding put_all_def by (auto dest!: spec[of _ "?op i"])
  qed
  have "list_all2 (\<lambda>i o'. i \<in> set vouts \<and> shown t None False (tv_outs (views w1 t) (?op i)) o') vouts os"
    using F(2) by (auto simp: list_all2_map1 list_all2_conv_all_nth)
  then show ?thesis using stored shown_inserted[OF _ anc consumed] I(2,3) F(1)
    by (auto elim!: list_all2_mono) blast+
qed

text \<open>A spend and the listing after it.\<close>

lemma mark_list:
  assumes w: "ok w" and t: "text_ok t" and x: "length x = 32" and ops: "\<forall>op \<in> set ops. wf_op op"
    and mark: "MarkUTXOsAsSpent A ops t (Some x) w = (Inr (), w1)"
    and list: "FindUTXOsForTopic A t since 0 False w1 = (Inr os, w2)"
  shows "distinct (map eo_Outpoint os) \<and> sorted (map (\<lambda>e. f64_ord (eo_Score e)) os) \<and> (\<forall>e \<in> set os. \<not> eo_Spent e) \<and>
    (\<forall>op. op \<in> eo_Outpoint ` set os \<longleftrightarrow>
      op \<notin> set ops \<and> (\<exists>r. tv_outs (views w t) op = Some r \<and> or_SpendTxid r = None \<and> (f64_lt 0 since \<longrightarrow> f64_lt since (or_Score r))))"
proof -
  let ?q = "\<lparr>qo_Since = since, qo_Limit = 0, qo_Reverse = False\<rparr>"
  have M: "ok w1" "tv_outs (views w1 t) = (\<lambda>op. if op \<in> set ops
      then map_option (or_SpendTxid_update (\<lambda>_. Some x)) (tv_outs (views w t) op) else tv_outs (views w t) op)"
    using mark_spent[OF w t x ops mark] by blast+
  obtain recs where R: "listed ?q (view_utxos ?q (views w1 t)) recs" "list_all2 (\<lambda>r o'. shown t None False (Some r) (Some o')) recs os"
    using find_utxos[OF M(1) t list] by blast
  have same: "os = map (\<lambda>r. recordToEngineOutput K r t) recs"
  proof -
    have "(recordToEngineOutput K r t)\<lparr>eo_Beef := None\<rparr> = (recordToEngineOutput K r t :: ('b, 'mp) engine_output)" for r
      by (simp add: recordToEngineOutput_def)
    then have "shown t None False (Some r) (Some o') \<Longrightarrow> o' = recordToEngineOutput K r t" for r and o' :: "('b, 'mp) engine_output"
      by (auto simp: shown_def)
    with R(2) show ?thesis by (auto simp: list_all2_conv_all_nth intro!: nth_equalityI)
  qed
  have vo: "or_Outpoint r = op" if "tv_outs (views w1 t) op = Some r" for op r
    using that find_utxos[OF M(1) t list] by (simp add: view_ok_def)
  have L: "distinct (map or_Outpoint recs)" "set recs = view_utxos ?q (views w1 t)" "sorted (map (score_key ?q) recs)"
    using R(1) by (auto simp: listed_def limited_def)
  have out: "eo_Outpoint (recordToEngineOutput K r t) = or_Outpoint r" "eo_Score (recordToEngineOutput K r t) = or_Score r"
    "eo_Spent (recordToEngineOutput K r t) = (or_SpendTxid r \<noteq> None)" for r
    by (simp_all add: recordToEngineOutput_def)
  have "op \<in> or_Outpoint ` set recs \<longleftrightarrow> op \<notin> set ops \<and>
      (\<exists>r. tv_outs (views w t) op = Some r \<and> or_SpendTxid r = None \<and> (f64_lt 0 since \<longrightarrow> f64_lt since (or_Score r)))" for op
  proof -
    have "op \<in> or_Outpoint ` set recs \<longleftrightarrow> (\<exists>r. tv_outs (views w1 t) op = Some r \<and> or_SpendTxid r = None \<and> since_ok ?q (or_Score r))"
      unfolding L(2) view_utxos_def using vo by (auto simp: image_iff)
    then show ?thesis by (auto simp: M(2) since_ok_def)
  qed
  moreover have "\<forall>r \<in> set recs. or_SpendTxid r = None" unfolding L(2) by (simp add: view_utxos_def)
  moreover have "score_key ?q = (\<lambda>r. f64_ord (or_Score r))" by (simp add: score_key_def fun_eq_iff)
  ultimately show ?thesis using L(1,3) unfolding same by (simp add: comp_def out image_image)
qed

end

end
