(* ===== verification/OverlayProps.thy ===== *)
theory OverlayProps
  imports SqliteLaws PostgresLaws OverlayLaws
begin

text \<open>
  The overlay's storage as the engine sees it: the adapter over the SQLite and the PostgreSQL storages, which both
  keep its contract, the properties, and a concrete SQLite world for their witnesses.
\<close>

section \<open>The adapter over each storage\<close>

definition sqlite_index :: "sql_engine \<Rightarrow> sqlite_world tx_topic_index" where
  "sqlite_index G = \<lparr>ix_Record = sq_Record, ix_Topics = sq_Topics G, ix_Delete = sq_Delete\<rparr>"

definition pg_index :: "sql_engine \<Rightarrow> pg_world tx_topic_index" where
  "pg_index G = \<lparr>ix_Record = pg_Record G, ix_Topics = pg_Topics G, ix_Delete = pg_Delete\<rparr>"

definition NewEngineAdapter ::
  "(bytes \<Rightarrow> ('w, err, 'w topic_ops) sm) \<Rightarrow> 'w tx_topic_index \<Rightarrow> sdk \<Rightarrow> ('b, 'mp) beef_lib \<Rightarrow>
    (('b, 'mp) tx \<Rightarrow> 64 word list) \<Rightarrow> ('w \<Rightarrow> f64) \<Rightarrow> ('w, 'b, 'mp) engine_adapter" where
  "NewEngineAdapter F X K L sats now =
     \<lparr>ad_factory = F, ad_beefStore = None, ad_txTopicIndex = Some X, ad_IngestTx = None, ad_lib = L,
      ad_satoshis = sats, ad_sdk = K, ad_now = now\<rparr>"

text \<open>What the adapter asks of the library beside the laws of \<open>sdk_laws\<close>, and of the clock.\<close>

definition adapter_env :: "sdk \<Rightarrow> (('b, 'mp) tx \<Rightarrow> 64 word list) \<Rightarrow> ('w \<Rightarrow> f64) \<Rightarrow> bool" where
  "adapter_env K sats now \<longleftrightarrow>
     (\<forall>a b. wf_op a \<longrightarrow> wf_op b \<longrightarrow> op_string K a = op_string K b \<longrightarrow> a = b) \<and> (\<forall>w. f64_plain (now w)) \<and>
     (\<forall>tx. \<forall>n \<in> set (sats tx). unat n < 2 ^ 63)"

context table_laws
begin

lemma sqlite_adapter:
  assumes "adapter_env K sats now"
  shows "overlay_adapter (sq_Topic K G) (sqlite_index G) False (sq_max_args G) (\<lambda>_. True) (sq_ok K) sq_calm (\<lambda>_ _. True)
    (sq_views K) K (NewEngineAdapter (sq_Topic K G) (sqlite_index G) K L sats now)"
  unfolding overlay_adapter_def overlay_adapter_axioms_def sqlite_index_def
  using assms sqlite_factory sdk_laws_axioms by (simp add: NewEngineAdapter_def adapter_env_def)

lemma postgres_adapter:
  assumes "adapter_env K sats now"
  shows "overlay_adapter (pg_Topic K G) (pg_index G) True (sq_max_args G - 1) (sq_text G) (pg_ok K G) pg_calm pg_known
    (pg_views K) K (NewEngineAdapter (pg_Topic K G) (pg_index G) K L sats now)"
  unfolding overlay_adapter_def overlay_adapter_axioms_def pg_index_def
  using assms postgres_factory sdk_laws_axioms by (simp add: NewEngineAdapter_def adapter_env_def)

end

section \<open>A concrete world\<close>

definition plain_engine :: sql_engine where
  "plain_engine = \<lparr>sq_arrange = (\<lambda>q xs. xs), sq_arrange_topics = rev, sq_max_args = 100, sq_text = (\<lambda>b. CHR 0x00 \<notin> set b)\<rparr>"

interpretation tables: table_laws demo_sdk plain_engine
  by unfold_locales (simp add: engine_laws_def plain_engine_def)

definition no_beef_lib :: "(unit, unit) beef_lib" where
  "no_beef_lib = \<lparr>BEEF_V2 = 0, ParseBeef = (\<lambda>_. Inl ''no''), AtomicBytes = (\<lambda>_ _. Inl ''no''),
     NewTransactionFromBytes = (\<lambda>_. Inl ''no''), NewMerklePathFromBinary = (\<lambda>_. Inl ''no''), tx_Bytes = (\<lambda>_. []),
     mp_Bytes = (\<lambda>_. []), TxID = (\<lambda>_. []), MergeBeef = (\<lambda>_ _. Inl ''no''), MergeTransaction = (\<lambda>_ _. Inl ''no''),
     FindTransactionByHash = (\<lambda>_ _. Some (Tx () None [])), FindTransactionForSigningByHash = (\<lambda>_ _. None),
     FindTransaction = (\<lambda>_ _. None), beef_IsValid = (\<lambda>_. True)\<rparr>"

definition clock_adapter :: "(sqlite_world, unit, unit) engine_adapter" where
  "clock_adapter = NewEngineAdapter (sq_Topic demo_sdk plain_engine) (sqlite_index plain_engine) demo_sdk no_beef_lib
     (\<lambda>_. [1, 5]) (\<lambda>_. 7)"

lemma plain_seven: "f64_plain 7"
  by (simp add: f64_plain_def f64_nan_def f64_mag_def f64_neg_zero_def)

lemma demo_env: "adapter_env demo_sdk (\<lambda>_. [1, 5]) (\<lambda>_. 7)"
  unfolding adapter_env_def
proof (intro conjI allI impI)
  fix a b
  assume ab: "wf_op a" "wf_op b" "op_string demo_sdk a = op_string demo_sdk b"
  then have "op_bytes demo_sdk a = op_bytes demo_sdk b" by (simp add: demo_sdk_def)
  with ab show "a = b" by (simp add: demo.op_bytes_inj)
qed (simp_all add: plain_seven)

interpretation clock: overlay_adapter "sq_Topic demo_sdk plain_engine" "sqlite_index plain_engine" False 100 "\<lambda>_. True"
  "sq_ok demo_sdk" sq_calm "\<lambda>_ _. True" "sq_views demo_sdk" demo_sdk clock_adapter
  using tables.sqlite_adapter[OF demo_env, of no_beef_lib] unfolding clock_adapter_def
  by (simp add: plain_engine_def)

definition fresh_world :: sqlite_world where
  "fresh_world = \<lparr>sw_files = (\<lambda>_. new_tables), sw_stores = [], sw_txid_topics = [], sw_faults = [], sw_now = 3\<rparr>"

lemma fresh_ok: "sq_ok demo_sdk fresh_world"
  by (simp add: sq_ok_def fresh_world_def tables.new_tables_ok)

definition pg_clock_adapter :: "(pg_world, unit, unit) engine_adapter" where
  "pg_clock_adapter = NewEngineAdapter (pg_Topic demo_sdk plain_engine) (pg_index plain_engine) demo_sdk no_beef_lib
     (\<lambda>_. [1, 5]) (\<lambda>_. 7)"

lemma pg_demo_env: "adapter_env demo_sdk (\<lambda>_. [1, 5]) (\<lambda>_ :: pg_world. 7)"
  using demo_env by (simp add: adapter_env_def)

interpretation pg_clock: overlay_adapter "pg_Topic demo_sdk plain_engine" "pg_index plain_engine" True 99
  "\<lambda>b. CHR 0x00 \<notin> set b" "pg_ok demo_sdk plain_engine" pg_calm pg_known "pg_views demo_sdk" demo_sdk pg_clock_adapter
  using tables.postgres_adapter[OF pg_demo_env, of no_beef_lib] unfolding pg_clock_adapter_def
  by (simp add: plain_engine_def)

definition id_a :: txid where "id_a = replicate 32 (CHR ''a'')"
definition id_b :: txid where "id_b = replicate 32 (CHR ''b'')"
definition out_a :: outpoint where "out_a = \<lparr>op_txid = id_a, op_index = 0\<rparr>"
definition out_b :: outpoint where "out_b = \<lparr>op_txid = id_a, op_index = 1\<rparr>"

text \<open>The world after two outputs were inserted, and what the engine reads.\<close>

definition filled_world :: sqlite_world where
  "filled_world = snd (InsertOutputs clock_adapter ''t'' id_a [0, 1] [out_b] None [id_b] fresh_world)"

lemmas demo_world_simps = InsertOutputs_def save_shared_def ingest_shared_def clock_adapter_def NewEngineAdapter_def
  sq_Topic_def NewSQLiteStorage_def sq_exec_def sq_query_def sq_stmt_def insert_one_def satoshis_at_def SQLiteStorage_def
  sq_InsertOutput_def sql_uint64_def sql_real_def record_topic_def sqlite_index_def sq_Record_def

lemma seven_real: "sql_real 7 = Inr 7"
  using sql_real_plain plain_seven by blast

lemma filled_run:
  "InsertOutputs clock_adapter ''t'' id_a [0, 1] [out_b] None [id_b] fresh_world = (Inr (), filled_world)"
  "sw_files filled_world ''t'' = \<lparr>tb_outputs = [new_row demo_sdk out_a id_a 0 id_b (demo_bytes out_b) 7 3,
     new_row demo_sdk out_b id_a 0 id_b (demo_bytes out_b) 7 3], tb_events = [], tb_applied = [], tb_peers = []\<rparr>"
  "sw_faults filled_world = []" "sw_stores filled_world = [''t'']"
proof -
  have ne: "demo_bytes out_a \<noteq> demo_bytes out_b" by (simp add: demo_bytes_def out_a_def out_b_def codec_simps)
  have run: "InsertOutputs clock_adapter ''t'' id_a [0, 1] [out_b] None [id_b] fresh_world = (Inr (), fresh_world
    \<lparr>sw_files := (\<lambda>_. new_tables)(''t'' := \<lparr>tb_outputs = [new_row demo_sdk out_a id_a 0 id_b (demo_bytes out_b) 7 3,
     new_row demo_sdk out_b id_a 0 id_b (demo_bytes out_b) 7 3], tb_events = [], tb_applied = [], tb_peers = []\<rparr>),
     sw_stores := [''t''], sw_txid_topics := [(id_a, ''t'')]\<rparr>)"
    using ne seven_real
    by (simp add: demo_world_simps step_simps fresh_world_def new_tables_def new_row_def t_replace_def t_ignore_def t_get_def
        demo_sdk_def out_a_def out_b_def fun_eq_iff)
  then show "InsertOutputs clock_adapter ''t'' id_a [0, 1] [out_b] None [id_b] fresh_world = (Inr (), filled_world)"
    "sw_files filled_world ''t'' = \<lparr>tb_outputs = [new_row demo_sdk out_a id_a 0 id_b (demo_bytes out_b) 7 3,
     new_row demo_sdk out_b id_a 0 id_b (demo_bytes out_b) 7 3], tb_events = [], tb_applied = [], tb_peers = []\<rparr>"
    "sw_faults filled_world = []" "sw_stores filled_world = [''t'']"
    by (simp_all add: filled_world_def fresh_world_def)
qed

section \<open>Properties\<close>

text \<open>
  C34: outputs that \<open>InsertOutputs\<close> stored for a topic are found by \<open>FindOutputs\<close>: in the order asked, each at its outpoint,
  with the ancillary transactions and the consumed outpoints they were stored with; an output is spent only where the storage keeps
  the spend of an earlier insertion. No other topic changes, and the index lists the topic for the transaction.
\<close>

theorem inserted_outputs_found:
  assumes A: "overlay_adapter F X keeps most text_ok ok calm known views K A"
    and w: "ok w" and t: "text_ok t" and x: "length x = 32" and vouts: "vouts \<noteq> []" "length vouts \<le> most"
    and anc: "\<forall>a \<in> set anc. length a = 32" and consumed: "\<forall>op \<in> set consumed. wf_op op"
    and ins: "InsertOutputs A t x vouts consumed bf anc w = (Inr (), w1)"
    and find: "ad_FindOutputs A (map (\<lambda>i. \<lparr>op_txid = x, op_index = i\<rparr>) vouts) t None False w1 = (Inr os, w2)"
  shows "list_all2 (\<lambda>i o'. \<exists>e. o' = Some e \<and> eo_Outpoint e = \<lparr>op_txid = x, op_index = i\<rparr> \<and> eo_Topic e = t \<and>
      eo_AncillaryTxids e = anc \<and> eo_OutputsConsumed e = consumed \<and>
      (eo_Spent e \<longleftrightarrow> keeps \<and> (\<exists>r. tv_outs (views w t) \<lparr>op_txid = x, op_index = i\<rparr> = Some r \<and> or_SpendTxid r \<noteq> None))) vouts os \<and>
    (\<forall>s. s \<noteq> t \<longrightarrow> views w2 s = views w s) \<and> x \<in> tv_txids (views w2 t)"
  by (rule overlay_adapter.insert_find[OF A w t x vouts anc consumed ins find])

lemma filled_find:
  "ad_FindOutputs clock_adapter (map (\<lambda>i. \<lparr>op_txid = id_a, op_index = i\<rparr>) [0, 1]) ''t'' None False filled_world =
    (Inr [Some (recordToEngineOutput demo_sdk (rec_of demo_sdk (new_row demo_sdk out_a id_a 0 id_b (demo_bytes out_b) 7 3)) ''t''),
      Some (recordToEngineOutput demo_sdk (rec_of demo_sdk (new_row demo_sdk out_b id_a 0 id_b (demo_bytes out_b) 7 3)) ''t'')], filled_world)"
proof -
  have ne: "demo_bytes out_a \<noteq> demo_bytes out_b" by (simp add: demo_bytes_def out_a_def out_b_def codec_simps)
  have wf: "wf_op out_a" "wf_op out_b" by (simp_all add: wf_op_def out_a_def out_b_def id_a_def)
  have ids: "length id_a = 32" by (simp add: id_a_def)
  have ok: "row_ok demo_sdk (new_row demo_sdk op id_a 0 id_b (demo_bytes out_b) 7 3)" if "wf_op op" for op
    using tables.new_row_ok that ids plain_seven by blast
  have key: "op_bytes demo_sdk = demo_bytes" "op_string demo_sdk = demo_bytes" by (simp_all add: demo_sdk_def)
  have at: "or_Outpoint (rec_of demo_sdk (new_row demo_sdk op id_a 0 id_b (demo_bytes out_b) 7 3)) = op" if "wf_op op" for op
    using demo.op_from_bytes[OF that] by (simp add: rec_of_def new_row_def)
  have ops: "map (\<lambda>i. \<lparr>op_txid = id_a, op_index = i\<rparr>) [0, 1] = [out_a, out_b]" by (simp add: out_a_def out_b_def)
  have rows: "select_outputs demo_sdk plain_engine [out_a, out_b] (sw_files filled_world ''t'') =
      Inr [rec_of demo_sdk (new_row demo_sdk out_a id_a 0 id_b (demo_bytes out_b) 7 3),
        rec_of demo_sdk (new_row demo_sdk out_b id_a 0 id_b (demo_bytes out_b) 7 3)]"
    using ok[OF wf(1)] ok[OF wf(2)]
    by (simp add: select_outputs_def plain_engine_def filled_run hydrate_ok) (simp add: new_row_def key)
  have w: "filled_world\<lparr>sw_faults := []\<rparr> = filled_world" using filled_run(3) by (cases filled_world) simp
  show ?thesis unfolding ops
    by (simp add: ad_FindOutputs_def clock_adapter_def NewEngineAdapter_def sq_Topic_def filled_run step_simps SQLiteStorage_def
        sq_FindOutputs_def sq_query_def sq_stmt_def w rows[unfolded filled_run] load_if_def Let_def at wf key ne)
qed

theorem inserted_outputs_found_witness:
  "\<exists>os w2. ad_FindOutputs clock_adapter (map (\<lambda>i. \<lparr>op_txid = id_a, op_index = i\<rparr>) [0, 1]) ''t'' None False
     (snd (InsertOutputs clock_adapter ''t'' id_a [0, 1] [out_b] None [id_b] fresh_world)) = (Inr os, w2) \<and>
   list_all2 (\<lambda>i o'. \<exists>e. o' = Some e \<and> eo_Outpoint e = \<lparr>op_txid = id_a, op_index = i\<rparr> \<and> eo_AncillaryTxids e = [id_b] \<and>
     eo_OutputsConsumed e = [out_b]) [0, 1 :: 32 word] os \<and> id_a \<in> tv_txids (sq_views demo_sdk w2 ''t'')"
proof -
  have "length id_a = 32" "length id_b = 32" "wf_op out_b" by (simp_all add: id_a_def id_b_def out_b_def wf_op_def)
  then show ?thesis
    using inserted_outputs_found[OF clock.overlay_adapter_axioms fresh_ok _ _ _ _ _ _ filled_run(1) filled_find]
      filled_find filled_run(1) by simp
qed

lemma demo_rows:
  assumes "wf_op op"
  shows "row_ok demo_sdk (new_row demo_sdk op id_a 0 id_b (demo_bytes out_b) 7 3)"
    "or_Outpoint (rec_of demo_sdk (new_row demo_sdk op id_a 0 id_b (demo_bytes out_b) 7 3)) = op"
  using tables.new_row_ok[OF assms, of id_a 7] demo.op_from_bytes[OF assms] plain_seven
  by (simp_all add: id_a_def rec_of_def new_row_def)

definition marked_world :: sqlite_world where
  "marked_world = filled_world\<lparr>sw_files := (sw_files filled_world)(''t'' := \<lparr>tb_outputs =
     [(new_row demo_sdk out_a id_a 0 id_b (demo_bytes out_b) 7 3)\<lparr>r_spend_txid := Some id_b\<rparr>,
      new_row demo_sdk out_b id_a 0 id_b (demo_bytes out_b) 7 3], tb_events = [], tb_applied = [], tb_peers = []\<rparr>)\<rparr>"

text \<open>
  C35: after \<open>MarkUTXOsAsSpent\<close>, \<open>FindUTXOsForTopic\<close> lists, in order of score and each once, exactly the outputs of the topic that
  were unspent before and are not among the marked ones (and newer than \<open>since\<close>, when that is positive).
\<close>

theorem marked_outputs_unlisted:
  assumes A: "overlay_adapter F X keeps most text_ok ok calm known views K A"
    and w: "ok w" and t: "text_ok t" and x: "length x = 32" and ops: "\<forall>op \<in> set ops. wf_op op"
    and mark: "MarkUTXOsAsSpent A ops t (Some x) w = (Inr (), w1)"
    and list: "FindUTXOsForTopic A t since 0 False w1 = (Inr os, w2)"
  shows "distinct (map eo_Outpoint os) \<and> sorted (map (\<lambda>e. f64_ord (eo_Score e)) os) \<and> (\<forall>e \<in> set os. \<not> eo_Spent e) \<and>
    (\<forall>op. op \<in> eo_Outpoint ` set os \<longleftrightarrow>
      op \<notin> set ops \<and> (\<exists>r. tv_outs (views w t) op = Some r \<and> or_SpendTxid r = None \<and> (f64_lt 0 since \<longrightarrow> f64_lt since (or_Score r))))"
  by (rule overlay_adapter.mark_list[OF A w t x ops mark list])

lemma calm_same: "sw_faults w = [] \<Longrightarrow> w\<lparr>sw_faults := []\<rparr> = w"
  by (cases w) simp

lemma mark_run:
  "MarkUTXOsAsSpent clock_adapter [out_a] ''t'' (Some id_b) filled_world = (Inr (), marked_world)"
  "FindUTXOsForTopic clock_adapter ''t'' 0 0 False marked_world =
    (Inr [recordToEngineOutput demo_sdk (rec_of demo_sdk (new_row demo_sdk out_b id_a 0 id_b (demo_bytes out_b) 7 3)) ''t''], marked_world)"
proof -
  have ne: "demo_bytes out_a \<noteq> demo_bytes out_b" by (simp add: demo_bytes_def out_a_def out_b_def codec_simps)
  have key: "op_bytes demo_sdk = demo_bytes" "r_outpoint (new_row demo_sdk op x s d i c n) = demo_bytes op"
    "r_spend_txid (new_row demo_sdk op x s d i c n) = None" for op x s d i c n
    by (simp_all add: demo_sdk_def new_row_def)
  have mw: "sw_faults marked_world = []" "sw_stores marked_world = [''t'']"
    using filled_run(3,4) by (simp_all add: marked_world_def)
  note w = calm_same[OF filled_run(3)] calm_same[OF mw(1)] mw
  show "MarkUTXOsAsSpent clock_adapter [out_a] ''t'' (Some id_b) filled_world = (Inr (), marked_world)"
    using ne by (simp add: MarkUTXOsAsSpent_def clock_adapter_def NewEngineAdapter_def sq_Topic_def filled_run step_simps
        SQLiteStorage_def sq_MarkSpent_def sq_exec_def sq_stmt_def w set_spend_txid_def t_update_def key marked_world_def)
  have since: "f64_lt 0 (0 :: f64) = False" by (simp add: f64_lt_def)
  have ok: "row_ok demo_sdk (new_row demo_sdk out_b id_a 0 id_b (demo_bytes out_b) 7 3)"
    using demo_rows(1)[of out_b] by (simp add: wf_op_def out_b_def id_a_def)
  have "select_utxos demo_sdk plain_engine (Some \<lparr>qo_Since = 0, qo_Limit = 0, qo_Reverse = False\<rparr>) (sw_files marked_world ''t'') =
      Inr [rec_of demo_sdk (new_row demo_sdk out_b id_a 0 id_b (demo_bytes out_b) 7 3)]"
    by (simp add: select_utxos_def marked_world_def opts_of_def utxo_rows_def key since_ok_def since plain_engine_def
        order_limit_def limited_def hydrate_ok[OF ok])
  then show "FindUTXOsForTopic clock_adapter ''t'' 0 0 False marked_world =
    (Inr [recordToEngineOutput demo_sdk (rec_of demo_sdk (new_row demo_sdk out_b id_a 0 id_b (demo_bytes out_b) 7 3)) ''t''], marked_world)"
    by (simp add: FindUTXOsForTopic_def clock_adapter_def NewEngineAdapter_def sq_Topic_def w step_simps SQLiteStorage_def
        sq_FindUTXOs_def sq_query_def sq_stmt_def engine_outputs_def load_if_def)
qed

theorem marked_outputs_unlisted_witness:
  "\<exists>os w2. FindUTXOsForTopic clock_adapter ''t'' 0 0 False (snd (MarkUTXOsAsSpent clock_adapter [out_a] ''t'' (Some id_b) filled_world)) =
     (Inr os, w2) \<and> out_a \<notin> eo_Outpoint ` set os \<and> length os = 1"
proof -
  have ok: "sq_ok demo_sdk filled_world"
    using clock.insert_outputs[OF fresh_ok _ _ _ filled_run(1)] by (simp add: id_a_def)
  have wf: "wf_op out_a" "length id_b = 32" by (simp_all add: wf_op_def out_a_def id_a_def id_b_def)
  have "\<forall>op \<in> set [out_a]. wf_op op" using wf by simp
  from marked_outputs_unlisted[OF clock.overlay_adapter_axioms ok _ wf(2) this mark_run(1) mark_run(2)]
  have "out_a \<notin> eo_Outpoint ` set [recordToEngineOutput demo_sdk (rec_of demo_sdk (new_row demo_sdk out_b id_a 0 id_b (demo_bytes out_b) 7 3)) ''t'' :: (unit, unit) engine_output]"
    by (metis TrueI list.set_intros(1))
  then show ?thesis using mark_run by auto
qed

text \<open>
  C36: the two storages differ on an output that is inserted again. SQLite's \<open>INSERT OR REPLACE\<close> makes a spent output
  unspent and forgets who consumed it; PostgreSQL's \<open>ON CONFLICT DO UPDATE\<close> keeps both.
\<close>

theorem reinsert_storages_differ:
  assumes T: "table_laws K G" and op: "wf_op op" "length x = 32" "f64_plain sc"
    and sq: "sq_ok K w" "tv_outs (sq_views K w t) op = Some r" "sq_InsertOutput K t op x sats deps ins sc w = (Inr (), w')"
    and pg: "pg_open K G i t p" "tv_outs (pg_views K p t) op = Some r" "pg_InsertOutput K i op x sats deps ins sc p = (Inr (), p')"
  shows "(\<exists>now. tv_outs (sq_views K w' t) op = Some (new_record op x sats deps ins sc now)) \<and>
    (\<exists>now. tv_outs (pg_views K p' t) op =
      Some ((new_record op x sats deps ins sc now)\<lparr>or_SpendTxid := or_SpendTxid r, or_ConsumedBy := or_ConsumedBy r\<rparr>))"
proof -
  have sats: "unat sats < 2 ^ 63" using sq(3) by (auto simp: sq_InsertOutput_def sql_uint64_def step_simps split: if_splits)
  show ?thesis
    using commitsD[OF table_laws.sq_insert_law[OF T op sats] sq(1,3)] sq(2)
      commitsD[OF table_laws.pg_insert_law[OF T op sats] pg(1,3)] pg(2)
    by (auto simp: v_InsertOutput_def reinserted_def)
qed

definition pg_marked_world :: pg_world where
  "pg_marked_world = \<lparr>pg_topics = [(1, ''t'')], pg_sequence = 2, pg_tables = (\<lambda>_. new_tables)(1 := sw_files marked_world ''t''),
     pg_txid_topics = [], pg_topicIDs = (\<lambda>_. None), pg_faults = [], pg_now = 5\<rparr>"

theorem reinsert_storages_differ_witness:
  "\<exists>w' p'. sq_InsertOutput demo_sdk ''t'' out_a id_a 1 [] [] 7 marked_world = (Inr (), w') \<and>
     pg_InsertOutput demo_sdk 1 out_a id_a 1 [] [] 7 pg_marked_world = (Inr (), p') \<and>
     (\<exists>r. tv_outs (sq_views demo_sdk w' ''t'') out_a = Some r \<and> or_SpendTxid r = None) \<and>
     (\<exists>r. tv_outs (pg_views demo_sdk p' ''t'') out_a = Some r \<and> or_SpendTxid r = Some id_b)"
proof -
  have wf: "wf_op out_a" "length id_a = 32" "length id_b = 32" by (simp_all add: wf_op_def out_a_def id_a_def id_b_def)
  have filled: "sq_ok demo_sdk filled_world"
    using clock.insert_outputs[OF fresh_ok _ _ _ filled_run(1)] by (simp add: id_a_def)
  have "\<forall>op \<in> set [out_a]. wf_op op" using wf by simp
  from clock.mark_spent[OF filled _ wf(3) this mark_run(1)] have ok: "sq_ok demo_sdk marked_world" by simp
  have tbl: "sw_files marked_world ''t'' = \<lparr>tb_outputs =
     [(new_row demo_sdk out_a id_a 0 id_b (demo_bytes out_b) 7 3)\<lparr>r_spend_txid := Some id_b\<rparr>,
      new_row demo_sdk out_b id_a 0 id_b (demo_bytes out_b) 7 3], tb_events = [], tb_applied = [], tb_peers = []\<rparr>"
    by (simp add: marked_world_def)
  let ?r = "rec_of demo_sdk ((new_row demo_sdk out_a id_a 0 id_b (demo_bytes out_b) 7 3)\<lparr>r_spend_txid := Some id_b\<rparr>)"
  have v: "tv_outs (sq_views demo_sdk marked_world ''t'') out_a = Some ?r"
    using wf(1) by (simp add: sq_views_def tables_view_def tbl out_view_def t_get_def new_row_def)
  have pg: "pg_open demo_sdk plain_engine 1 ''t'' pg_marked_world"
    using ok tables.new_tables_ok by (auto simp: pg_open_def pg_ok_def pg_marked_world_def t_ok_def sq_ok_def plain_engine_def)
  have pv: "tv_outs (pg_views demo_sdk pg_marked_world ''t'') out_a = Some ?r"
    using wf(1) by (simp add: pg_views_def pg_marked_world_def tables_view_def tbl out_view_def t_get_def new_row_def)
  have calm: "sq_calm marked_world" "pg_calm pg_marked_world"
    using filled_run(3) by (simp_all add: sq_calm_def pg_calm_def marked_world_def pg_marked_world_def)
  have one: "unat (1 :: 64 word) < 2 ^ 63" by simp
  obtain w' where sq_run: "sq_InsertOutput demo_sdk ''t'' out_a id_a 1 [] [] 7 marked_world = (Inr (), w')"
    using tables.sq_insert_law[OF wf(1,2) plain_seven one] ok calm(1) unfolding commits_def by (metis prod.exhaust)
  obtain p' where pg_run: "pg_InsertOutput demo_sdk 1 out_a id_a 1 [] [] 7 pg_marked_world = (Inr (), p')"
    using tables.pg_insert_law[OF wf(1,2) plain_seven one] pg calm(2) unfolding commits_def by (metis prod.exhaust)
  from reinsert_storages_differ[OF tables.table_laws_axioms wf(1,2) plain_seven ok v sq_run pg pv pg_run] sq_run pg_run
  show ?thesis by (auto simp: new_record_def)
qed

end
