(* ===== verification/GoText.thy ===== *)
theory GoText
  imports Template
begin

text \<open>
  What the code uses of Go's packages on text: \<open>unicode/utf8\<close> (decoding and encoding of runes),
  \<open>range\<close> over a string, \<open>bytes.TrimSpace\<close>, \<open>strings.Split\<close>, \<open>strings.HasSuffix\<close> and the decimal integers of \<open>strconv\<close>.
\<close>

section \<open>Runes\<close>

definition byte :: "char \<Rightarrow> nat" where
  "byte c = of_char c"

lemma byte_less [simp]: "byte c < 256" by (simp add: byte_def)

definition RuneError :: nat where "RuneError = 0xFFFD"

definition cont :: "char \<Rightarrow> bool" where
  "cont c \<longleftrightarrow> 0x80 \<le> byte c \<and> byte c \<le> 0xBF"

text \<open>\<open>utf8.DecodeRune\<close>: the first rune of a text that is not empty and its width; a byte that starts no rune is \<open>RuneError\<close> of width one.\<close>

definition decode2 :: "nat \<Rightarrow> bytes \<Rightarrow> nat \<times> nat" where
  "decode2 x s = (case s of
     c1 # _ \<Rightarrow> if cont c1 then ((x - 0xC0) * 64 + (byte c1 - 0x80), 2) else (RuneError, 1)
   | _ \<Rightarrow> (RuneError, 1))"

definition decode3 :: "nat \<Rightarrow> bytes \<Rightarrow> nat \<times> nat" where
  "decode3 x s = (case s of
     c1 # c2 # _ \<Rightarrow>
       if cont c1 \<and> cont c2 \<and> (x = 0xE0 \<longrightarrow> 0xA0 \<le> byte c1) \<and> (x = 0xED \<longrightarrow> byte c1 \<le> 0x9F)
       then ((x - 0xE0) * 4096 + (byte c1 - 0x80) * 64 + (byte c2 - 0x80), 3) else (RuneError, 1)
   | _ \<Rightarrow> (RuneError, 1))"

definition decode4 :: "nat \<Rightarrow> bytes \<Rightarrow> nat \<times> nat" where
  "decode4 x s = (case s of
     c1 # c2 # c3 # _ \<Rightarrow>
       if cont c1 \<and> cont c2 \<and> cont c3 \<and> (x = 0xF0 \<longrightarrow> 0x90 \<le> byte c1) \<and> (x = 0xF4 \<longrightarrow> byte c1 \<le> 0x8F)
       then ((x - 0xF0) * 262144 + (byte c1 - 0x80) * 4096 + (byte c2 - 0x80) * 64 + (byte c3 - 0x80), 4) else (RuneError, 1)
   | _ \<Rightarrow> (RuneError, 1))"

fun decode_rune :: "bytes \<Rightarrow> nat \<times> nat" where
  "decode_rune [] = (RuneError, 0)"
| "decode_rune (c # s) =
     (if byte c < 0x80 then (byte c, 1)
      else if byte c < 0xC2 then (RuneError, 1)
      else if byte c < 0xE0 then decode2 (byte c) s
      else if byte c < 0xF0 then decode3 (byte c) s
      else if byte c < 0xF5 then decode4 (byte c) s
      else (RuneError, 1))"

text \<open>\<open>utf8.EncodeRune\<close>; what is no rune is written as \<open>RuneError\<close>.\<close>

definition encode_rune :: "nat \<Rightarrow> bytes" where
  "encode_rune r =
     (if r < 0x80 then [char_of r]
      else if r < 0x800 then [char_of (0xC0 + r div 64), char_of (0x80 + r mod 64)]
      else if 0x10FFFF < r \<or> 0xD800 \<le> r \<and> r \<le> 0xDFFF then [CHR 0xEF, CHR 0xBF, CHR 0xBD]
      else if r < 0x10000 then [char_of (0xE0 + r div 4096), char_of (0x80 + r div 64 mod 64), char_of (0x80 + r mod 64)]
      else [char_of (0xF0 + r div 262144), char_of (0x80 + r div 4096 mod 64), char_of (0x80 + r div 64 mod 64),
        char_of (0x80 + r mod 64)])"

lemma decode_rune_size:
  "snd (decode_rune (c # s)) \<noteq> 0" "snd (decode_rune t) \<le> length t"
  by (cases t; auto simp: decode2_def decode3_def decode4_def split: list.splits)+

text \<open>\<open>for _, r := range s\<close>: the runes of a string with their widths. A byte that is no part of a rune is a \<open>RuneError\<close>.\<close>

function runes :: "bytes \<Rightarrow> (nat \<times> nat) list" where
  "runes [] = []"
| "runes (c # s) = decode_rune (c # s) # runes (drop (snd (decode_rune (c # s))) (c # s))"
  by pat_completeness auto
termination
  by (relation "measure length") (use decode_rune_size(1) in \<open>auto simp: neq0_conv[symmetric] simp del: decode_rune.simps neq0_conv\<close>)

definition ValidString :: "bytes \<Rightarrow> bool" where
  "ValidString s \<longleftrightarrow> (RuneError, 1) \<notin> set (runes s)"

lemma runes_ascii: "byte c < 0x80 \<Longrightarrow> runes (c # s) = (byte c, 1) # runes s"
  by simp

section \<open>Spaces\<close>

text \<open>\<open>unicode.IsSpace\<close>.\<close>

definition IsSpace :: "nat \<Rightarrow> bool" where
  "IsSpace r \<longleftrightarrow> r \<in> {9, 10, 11, 12, 13, 32, 0x85, 0xA0, 0x1680, 0x2028, 0x2029, 0x202F, 0x205F, 0x3000} \<or> 0x2000 \<le> r \<and> r \<le> 0x200A"

text \<open>\<open>utf8.DecodeLastRune\<close>: from the nearest of the last four bytes that can start a rune, if that rune ends the text.\<close>

definition decode_last :: "bytes \<Rightarrow> nat \<times> nat" where
  "decode_last s =
     (case find (\<lambda>k. k \<le> length s \<and> \<not> cont (s ! (length s - k))) [1, 2, 3, 4] of
        None \<Rightarrow> (RuneError, 1)
      | Some k \<Rightarrow> let d = decode_rune (drop (length s - k) s) in if snd d = k then d else (RuneError, 1))"

function trim_left :: "bytes \<Rightarrow> bytes" where
  "trim_left [] = []"
| "trim_left (c # s) =
     (let d = decode_rune (c # s) in if IsSpace (fst d) then trim_left (drop (snd d) (c # s)) else c # s)"
  by pat_completeness auto
termination
  by (relation "measure length") (use decode_rune_size(1) in \<open>auto simp: neq0_conv[symmetric] simp del: decode_rune.simps neq0_conv\<close>)

function trim_right :: "bytes \<Rightarrow> bytes" where
  "trim_right s =
     (if s = [] then []
      else let d = decode_last s in if IsSpace (fst d) \<and> 0 < snd d then trim_right (take (length s - snd d) s) else s)"
  by pat_completeness auto
termination by (relation "measure length") auto

declare trim_right.simps [simp del]

definition TrimSpace :: "bytes \<Rightarrow> bytes" where
  "TrimSpace s = trim_right (trim_left s)"

lemma ascii_head: "byte c < 0x80 \<Longrightarrow> \<not> IsSpace (byte c) \<Longrightarrow> trim_left (c # s) = c # s"
  by simp

lemma ascii_last:
  assumes "byte c < 0x80" "\<not> IsSpace (byte c)"
  shows "trim_right (s @ [c]) = s @ [c]"
proof -
  have "decode_last (s @ [c]) = (byte c, 1)" using assms(1) by (simp add: decode_last_def cont_def)
  then show ?thesis using assms(2) by (simp add: trim_right.simps)
qed

section \<open>Splitting\<close>

fun split_at :: "char \<Rightarrow> bytes \<Rightarrow> bytes list" where
  "split_at d [] = [[]]"
| "split_at d (c # s) = (if c = d then [] # split_at d s else (case split_at d s of [] \<Rightarrow> [[c]] | x # xs \<Rightarrow> (c # x) # xs))"

lemma split_at_not_Nil: "split_at d s \<noteq> []"
  by (induction s) (auto split: list.splits)

section \<open>Decimal integers\<close>

text \<open>\<open>strconv.ParseInt(s, 10, 64)\<close>: an optional sign, digits, and a value of 64 bits.\<close>

definition ParseInt64 :: "bytes \<Rightarrow> int option" where
  "ParseInt64 s =
     (let neg = (s \<noteq> [] \<and> hd s = CHR ''-''); d = (if s \<noteq> [] \<and> hd s \<in> {CHR ''-'', CHR ''+''} then tl s else s);
          v = int (digits_value 0 d)
      in if d = [] \<or> \<not> list_all is_digit d then None
         else if neg then (if v \<le> 2 ^ 63 then Some (- v) else None)
         else if v < 2 ^ 63 then Some v else None)"

lemma digits_append: "digits_value n (s @ [c]) = digits_value n s * 10 + (of_char c - 48)"
  by (induction s arbitrary: n) simp_all

lemma digit_char: "d < 10 \<Longrightarrow> is_digit (char_of (48 + d :: nat)) \<and> of_char (char_of (48 + d :: nat) :: char) = 48 + d"
  by (simp add: is_digit_def)

lemma decimal_digits: "list_all is_digit (decimal n)"
proof (induction n rule: decimal.induct)
  case (1 n)
  then show ?case using digit_char[of n] digit_char[of "n mod 10"] by (subst decimal.simps) simp
qed

lemma decimal_value: "digits_value 0 (decimal n) = n"
proof (induction n rule: decimal.induct)
  case (1 n)
  show ?case
  proof (cases "n < 10")
    case True
    then show ?thesis using digit_char[OF True] by (simp add: decimal.simps[of n])
  next
    case False
    have "of_char (char_of (48 + n mod 10) :: char) = 48 + n mod 10" using digit_char[of "n mod 10"] by simp
    then show ?thesis using 1 False by (simp add: decimal.simps[of n] digits_append)
  qed
qed

lemma decimal_not_Nil: "decimal n \<noteq> []"
  by (subst decimal.simps) simp

text \<open>Only zero begins with a zero.\<close>

lemma decimal_head: "0 < n \<Longrightarrow> hd (decimal n) \<noteq> CHR ''0''"
proof (induction n rule: decimal.induct)
  case (1 n)
  show ?case
  proof (cases "n < 10")
    case True
    have "(of_char (char_of (48 + n) :: char) :: nat) \<noteq> of_char (CHR ''0'')" using True 1(2) by simp
    then show ?thesis using True by (metis decimal.simps list.sel(1))
  next
    case False
    then show ?thesis using 1 decimal_not_Nil[of "n div 10"] by (subst decimal.simps) simp
  qed
qed

lemma ParseInt64_decimal:
  assumes "n < 2 ^ 63"
  shows "ParseInt64 (decimal n) = Some (int n)"
proof -
  have "is_digit (hd (decimal n))" using decimal_digits[of n] decimal_not_Nil[of n] by (cases "decimal n") auto
  then have "hd (decimal n) \<noteq> CHR ''-''" "hd (decimal n) \<noteq> CHR ''+''" by (auto simp: is_digit_def)
  moreover have "int n < 2 ^ 63" using assms by simp
  ultimately show ?thesis
    using decimal_digits[of n] decimal_not_Nil[of n] by (simp add: ParseInt64_def Let_def decimal_value)
qed

end
