(* ===== verification/AliasContract.thy ===== *)
theory AliasContract
  imports GoText Score
begin

text \<open>
  \<open>pkg/ecosystemalias/contract.go\<close> and \<open>normalize.go\<close>: the error codes, the grammars of aliases and
  domains, and the validation of the fields of a claim: the certifier's key and the strict DER form of the signature.
  An error is its code; the texts of the messages are left out. The curve and SHA-256 are parameters.
\<close>

section \<open>Codes and constants\<close>

datatype alias_code =
    CodeMalformedJSON | CodeJSONNull | CodeUnknownField | CodeDuplicateField | CodeInvalidCombination
  | CodeEmptyValue | CodeInvalidAlias | CodeInvalidDomain | CodeLeadingTrailingWhitespace | CodeNonASCII
  | CodeLimitZero | CodeLimitTooLarge | CodeSkipNegative | CodeInvalidProtocol | CodeInvalidVersion
  | CodeFieldCount | CodeUnnormalizedToken | CodeInvalidCertifier | CodeInvalidSignature
  | CodeNonPositiveValue | CodeInvalidOutpoint | CodeInvalidScript

definition TopicName :: bytes where "TopicName = ''tm_ecosystemalias''"
definition LookupName :: bytes where "LookupName = ''ls_ecosystemalias''"
definition ProtocolName :: bytes where "ProtocolName = ''ecosystem-alias''"
definition ProtocolVersion :: bytes where "ProtocolVersion = ''1''"
definition FieldCount :: nat where "FieldCount = 6"
definition CertifierKeyLen :: nat where "CertifierKeyLen = 33"
definition DefaultLimit :: "32 word" where "DefaultLimit = 100"
definition MaxLimit :: "32 word" where "MaxLimit = 500"
definition MaxAliasBytes :: nat where "MaxAliasBytes = 32"
definition MaxDomainBytes :: nat where "MaxDomainBytes = 253"
definition MaxLabelBytes :: nat where "MaxLabelBytes = 63"

lemmas alias_constants = FieldCount_def CertifierKeyLen_def DefaultLimit_def MaxLimit_def MaxAliasBytes_def
  MaxDomainBytes_def MaxLabelBytes_def

section \<open>Queries\<close>

record query =
  q_Alias :: "bytes option"
  q_Domain :: "bytes option"
  q_Limit :: "32 word option"
  q_Skip :: "32 word option"

definition no_query :: query where
  "no_query = \<lparr>q_Alias = None, q_Domain = None, q_Limit = None, q_Skip = None\<rparr>"

datatype mode = ModeNone | ModeAlias | ModeDomain | ModeAll

definition PageLimit :: "query \<Rightarrow> 32 word" where
  "PageLimit q = (case q_Limit q of None \<Rightarrow> DefaultLimit | Some n \<Rightarrow> n)"

definition PageSkip :: "query \<Rightarrow> 32 word" where
  "PageSkip q = (case q_Skip q of None \<Rightarrow> 0 | Some n \<Rightarrow> n)"

definition Mode :: "query \<Rightarrow> mode" where
  "Mode q =
     (let n = (if q_Alias q \<noteq> None then 1 else 0) + (if q_Domain q \<noteq> None then 1 else 0) :: nat;
          m = (if q_Domain q \<noteq> None then ModeDomain else if q_Alias q \<noteq> None then ModeAlias else ModeNone)
      in if n = 0 then ModeAll else if n \<noteq> 1 then ModeNone else m)"

definition BindingValue :: "query \<Rightarrow> bytes" where
  "BindingValue q =
     (case Mode q of
        ModeAlias \<Rightarrow> (case q_Alias q of None \<Rightarrow> [] | Some a \<Rightarrow> a)
      | ModeDomain \<Rightarrow> (case q_Domain q of None \<Rightarrow> [] | Some d \<Rightarrow> d)
      | _ \<Rightarrow> [])"

section \<open>Normalization\<close>

definition ascii_whitespace :: bytes where
  "ascii_whitespace = [CHR 0x20, CHR 0x09, CHR 0x0A, CHR 0x0D, CHR 0x0C, CHR 0x0B]"

definition hasASCIIWrapSpace :: "bytes \<Rightarrow> bool" where
  "hasASCIIWrapSpace s \<longleftrightarrow> s \<noteq> [] \<and> (hd s \<in> set ascii_whitespace \<or> last s \<in> set ascii_whitespace)"

definition hasNonASCII :: "bytes \<Rightarrow> bool" where
  "hasNonASCII s \<longleftrightarrow> \<not> ValidString s \<or> (\<exists>d \<in> set (runes s). 0x7F < fst d)"

definition lower_char :: "char \<Rightarrow> char" where
  "lower_char c = (if 65 \<le> byte c \<and> byte c \<le> 90 then char_of (byte c + 32) else c)"

definition asciiLower :: "bytes \<Rightarrow> bytes" where
  "asciiLower s = map lower_char s"

definition is_lower :: "char \<Rightarrow> bool" where
  "is_lower c \<longleftrightarrow> 97 \<le> byte c \<and> byte c \<le> 122"

fun alias_chars :: "bool \<Rightarrow> bytes \<Rightarrow> alias_code + unit" where
  "alias_chars prevHyphen [] = Inr ()"
| "alias_chars prevHyphen (c # s) =
     (if is_lower c \<or> is_digit c then alias_chars False s
      else if c = CHR ''-'' then (if prevHyphen then Inl CodeInvalidAlias else alias_chars True s)
      else Inl CodeInvalidAlias)"

definition aliasGrammar :: "bytes \<Rightarrow> alias_code + unit" where
  "aliasGrammar s =
     (if length s < 1 \<or> MaxAliasBytes < length s then Inl CodeInvalidAlias
      else if hd s = CHR ''-'' \<or> last s = CHR ''-'' then Inl CodeInvalidAlias
      else alias_chars False s)"

definition domainLabel :: "bytes \<Rightarrow> alias_code + unit" where
  "domainLabel s =
     (if length s < 1 \<or> MaxLabelBytes < length s then Inl CodeInvalidDomain
      else if hd s = CHR ''-'' \<or> last s = CHR ''-'' then Inl CodeInvalidDomain
      else if list_all (\<lambda>c. is_lower c \<or> is_digit c \<or> c = CHR ''-'') s then Inr ()
      else Inl CodeInvalidDomain)"

definition domainGrammar :: "bytes \<Rightarrow> alias_code + unit" where
  "domainGrammar s =
     (if s = [] then Inl CodeEmptyValue
      else if MaxDomainBytes < length s then Inl CodeInvalidDomain
      else if last s = CHR ''.'' then Inl CodeInvalidDomain
      else if length (split_at (CHR ''.'') s) < 2 then Inl CodeInvalidDomain
      else rfold (\<lambda>l _. domainLabel l) (split_at (CHR ''.'') s) ())"

definition rejectQueryText :: "bytes \<Rightarrow> alias_code + unit" where
  "rejectQueryText s =
     (if s = [] then Inl CodeEmptyValue
      else if hasNonASCII s then Inl CodeNonASCII
      else if hasASCIIWrapSpace s then Inl CodeLeadingTrailingWhitespace
      else Inr ())"

definition NormalizeAliasQuery :: "bytes \<Rightarrow> alias_code + bytes" where
  "NormalizeAliasQuery s =
     rbind (rejectQueryText s) (\<lambda>_. rbind (aliasGrammar (asciiLower s)) (\<lambda>_. Inr (asciiLower s)))"

definition NormalizeDomainQuery :: "bytes \<Rightarrow> alias_code + bytes" where
  "NormalizeDomainQuery s =
     rbind (rejectQueryText s) (\<lambda>_. rbind (domainGrammar (asciiLower s)) (\<lambda>_. Inr (asciiLower s)))"

definition ValidateTokenAlias :: "bytes \<Rightarrow> alias_code + unit" where
  "ValidateTokenAlias s =
     (if s = [] then Inl CodeEmptyValue
      else if hasNonASCII s then Inl CodeNonASCII
      else if hasASCIIWrapSpace s then Inl CodeLeadingTrailingWhitespace
      else if s \<noteq> asciiLower s then Inl CodeUnnormalizedToken
      else aliasGrammar s)"

definition ValidateTokenDomain :: "bytes \<Rightarrow> alias_code + unit" where
  "ValidateTokenDomain s =
     (if s = [] then Inl CodeEmptyValue
      else if hasNonASCII s then Inl CodeNonASCII
      else if hasASCIIWrapSpace s then Inl CodeLeadingTrailingWhitespace
      else if s \<noteq> asciiLower s then Inl CodeUnnormalizedToken
      else domainGrammar s)"

section \<open>Claims\<close>

record claim =
  cl_Alias :: bytes
  cl_Domain :: bytes
  cl_CertifierKey :: bytes
  cl_Signature :: bytes

text \<open>The library's curve: its prime, keys that are points, signatures from DER, and verification of a digest.\<close>

record 'sig curve_lib =
  cv_P :: nat
  cv_ParsePubKey :: "bytes \<Rightarrow> bool"
  cv_FromDER :: "bytes \<Rightarrow> 'sig option"
  cv_Verify :: "'sig \<Rightarrow> bytes \<Rightarrow> bytes \<Rightarrow> bool"
  cv_sha256 :: "bytes \<Rightarrow> bytes"

definition Preimage :: "bytes \<Rightarrow> bytes \<Rightarrow> bytes \<Rightarrow> bytes \<Rightarrow> bytes \<Rightarrow> bytes" where
  "Preimage protocol version a domain certifier = protocol @ version @ a @ domain @ certifier"

definition DigestFields :: "('sig, 'z) curve_lib_scheme \<Rightarrow> bytes \<Rightarrow> bytes \<Rightarrow> bytes \<Rightarrow> bytes \<Rightarrow> bytes \<Rightarrow> bytes" where
  "DigestFields L protocol version a domain certifier = cv_sha256 L (protocol @ version @ a @ domain @ certifier)"

definition Digest :: "('sig, 'z) curve_lib_scheme \<Rightarrow> bytes \<Rightarrow> bytes \<Rightarrow> bytes \<Rightarrow> bytes" where
  "Digest L a domain certifier = DigestFields L ProtocolName ProtocolVersion a domain certifier"

definition ValidateSats :: "64 word \<Rightarrow> alias_code + unit" where
  "ValidateSats n = (if n = 0 then Inl CodeNonPositiveValue else Inr ())"

definition parseCertifierKey :: "('sig, 'z) curve_lib_scheme \<Rightarrow> bytes \<Rightarrow> alias_code + bytes" where
  "parseCertifierKey L b =
     (if length b \<noteq> CertifierKeyLen then Inl CodeInvalidCertifier
      else if hd b \<noteq> CHR 0x02 \<and> hd b \<noteq> CHR 0x03 then Inl CodeInvalidCertifier
      else if cv_P L \<le> be_nat (tl b) then Inl CodeInvalidCertifier
      else if \<not> cv_ParsePubKey L b then Inl CodeInvalidCertifier
      else Inr b)"

definition high_bit :: "char \<Rightarrow> bool" where
  "high_bit c \<longleftrightarrow> 128 \<le> byte c"

definition parseDERInt :: "bytes \<Rightarrow> alias_code + bytes \<times> bytes" where
  "parseDERInt b =
     (if length b < 2 \<or> hd b \<noteq> CHR 0x02 then Inl CodeInvalidSignature
      else let n = byte (b ! 1); v = take n (drop 2 b) in
        if n = 0 \<or> 33 < n \<or> length b < 2 + n then Inl CodeInvalidSignature
        else if high_bit (v ! 0) then Inl CodeInvalidSignature
        else if 1 < n \<and> byte (v ! 0) = 0 \<and> \<not> high_bit (v ! 1) then Inl CodeInvalidSignature
        else Inr (v, drop (2 + n) b))"

definition ValidateDERSignature :: "bytes \<Rightarrow> alias_code + unit" where
  "ValidateDERSignature sig =
     (if length sig < 8 \<or> 72 < length sig then Inl CodeInvalidSignature
      else if hd sig \<noteq> CHR 0x30 then Inl CodeInvalidSignature
      else if byte (sig ! 1) \<noteq> length sig - 2 then Inl CodeInvalidSignature
      else rbind (parseDERInt (drop 2 sig)) (\<lambda>(r, rest).
        rbind (parseDERInt rest) (\<lambda>(s, rest').
          if rest' \<noteq> [] then Inl CodeInvalidSignature
          else if r = [] \<or> s = [] then Inl CodeInvalidSignature
          else Inr ())))"

definition ValidateTokenFields :: "('sig, 'z) curve_lib_scheme \<Rightarrow> bytes list \<Rightarrow> alias_code + claim" where
  "ValidateTokenFields L fs =
     (if length fs \<noteq> FieldCount then Inl CodeFieldCount
      else if fs ! 0 \<noteq> ProtocolName then Inl CodeInvalidProtocol
      else if fs ! 1 \<noteq> ProtocolVersion then Inl CodeInvalidVersion
      else rbind (ValidateTokenAlias (fs ! 2)) (\<lambda>_.
        rbind (ValidateTokenDomain (fs ! 3)) (\<lambda>_.
          rbind (parseCertifierKey L (fs ! 4)) (\<lambda>key.
            rbind (ValidateDERSignature (fs ! 5)) (\<lambda>_.
              Inr \<lparr>cl_Alias = fs ! 2, cl_Domain = fs ! 3, cl_CertifierKey = key, cl_Signature = fs ! 5\<rparr>)))))"

section \<open>Order of results\<close>

record placement =
  pl_Score :: f64
  pl_Vout :: "32 word"

definition EventScore :: "nat \<Rightarrow> 32 word \<Rightarrow> 64 word \<Rightarrow> f64" where
  "EventScore nano height txIndex = HeightScore nano height txIndex"

definition CompareLookup :: "placement \<Rightarrow> placement \<Rightarrow> int" where
  "CompareLookup a b =
     (if f64_lt (pl_Score a) (pl_Score b) then - 1
      else if f64_lt (pl_Score b) (pl_Score a) then 1
      else if pl_Vout a < pl_Vout b then - 1
      else if pl_Vout b < pl_Vout a then 1
      else 0)"

section \<open>What is accepted\<close>

text \<open>A text is ASCII exactly when its bytes are: runes above 127 and invalid bytes both come from bytes with the high bit.\<close>

lemma ascii_runes:
  assumes "\<forall>c \<in> set s. byte c < 0x80"
  shows "runes s = map (\<lambda>c. (byte c, 1)) s"
  using assms by (induction s) (simp_all add: runes_ascii)

lemma high_rune: "128 \<le> byte c \<Longrightarrow> decode_rune (c # s) = (RuneError, 1) \<or> 0x7F < fst (decode_rune (c # s))"
  by (auto simp: decode2_def decode3_def decode4_def cont_def split: list.splits)

lemma hasNonASCII_iff: "hasNonASCII s \<longleftrightarrow> (\<exists>c \<in> set s. 128 \<le> byte c)"
proof (cases "\<exists>c \<in> set s. 128 \<le> byte c")
  case True
  then show ?thesis
  proof (induction s)
    case (Cons c s)
    show ?case
    proof (cases "128 \<le> byte c")
      case True
      then show ?thesis using high_rune[of c s] by (auto simp: hasNonASCII_def ValidString_def)
    next
      case False
      then have "runes (c # s) = (byte c, 1) # runes s" by (intro runes_ascii) simp
      then show ?thesis using Cons False by (auto simp: hasNonASCII_def ValidString_def)
    qed
  qed simp
next
  case False
  then have r: "runes s = map (\<lambda>c. (byte c, 1)) s" by (intro ascii_runes) auto
  have "(RuneError, 1) \<notin> set (runes s)"
  proof
    assume "(RuneError, 1) \<in> set (runes s)"
    then obtain c where "RuneError = byte c" using r by auto
    then show False using byte_less[of c] by (simp add: RuneError_def)
  qed
  then show ?thesis using False r by (auto simp: hasNonASCII_def ValidString_def)
qed

end
