(* ===== verification/GoJson.thy ===== *)
theory GoJson
  imports GoText
begin

text \<open>
  What the code uses of Go's \<open>encoding/json\<close>: the \<open>Decoder\<close> as a stream of tokens. The scanner is the
  state machine of the package, one step for each byte with a stack of the objects and arrays that are open; above
  it are \<open>Token\<close>, \<open>More\<close> and \<open>Decode\<close> of a raw value, and the decoding of string literals.
\<close>

section \<open>The scanner\<close>

text \<open>What an open container waits for: the key or the value of an object's member, or the element of an array.\<close>

datatype jctx = ObjectKey | ObjectValue | ArrayValue

datatype jscan =
    BeginValue | BeginValueOrEmpty | BeginString | BeginStringOrEmpty | EndValue
  | InString | InStringEsc | InStringU nat
  | Neg | Digits | Zero | Dot | Frac | Exp | ExpSign | ExpDigits | Letters bytes

datatype jstep = Go jscan "jctx list" | Closed "jctx list" | Ended | Failed

definition json_space :: "char \<Rightarrow> bool" where
  "json_space c \<longleftrightarrow> c = CHR '' '' \<or> byte c \<in> {9, 10, 13}"

definition max_depth :: nat where "max_depth = 10000"

definition hex_digit :: "char \<Rightarrow> bool" where
  "hex_digit c \<longleftrightarrow> is_digit c \<or> 97 \<le> byte c \<and> byte c \<le> 102 \<or> 65 \<le> byte c \<and> byte c \<le> 70"

definition push_ctx :: "jscan \<Rightarrow> jctx \<Rightarrow> jctx list \<Rightarrow> jstep" where
  "push_ctx st x st' = (if length st' < max_depth then Go st (x # st') else Failed)"

definition begin_value :: "char \<Rightarrow> jctx list \<Rightarrow> jstep" where
  "begin_value c st =
     (if json_space c then Go BeginValue st
      else if c = CHR ''{'' then push_ctx BeginStringOrEmpty ObjectKey st
      else if c = CHR ''['' then push_ctx BeginValueOrEmpty ArrayValue st
      else if byte c = 34 then Go InString st
      else if c = CHR ''-'' then Go Neg st
      else if c = CHR ''0'' then Go Zero st
      else if c = CHR ''t'' then Go (Letters ''rue'') st
      else if c = CHR ''f'' then Go (Letters ''alse'') st
      else if c = CHR ''n'' then Go (Letters ''ull'') st
      else if is_digit c then Go Digits st
      else Failed)"

definition begin_string :: "char \<Rightarrow> jctx list \<Rightarrow> jstep" where
  "begin_string c st =
     (if json_space c then Go BeginString st else if byte c = 34 then Go InString st else Failed)"

text \<open>After a value: at the top it ends, whatever follows; in a container it waits for what may follow there.\<close>

definition end_value :: "char \<Rightarrow> jctx list \<Rightarrow> jstep" where
  "end_value c st =
     (case st of
        [] \<Rightarrow> Ended
      | x # xs \<Rightarrow>
          if json_space c then Go EndValue st
          else if x = ObjectKey \<and> c = CHR '':'' then Go BeginValue (ObjectValue # xs)
          else if x = ObjectValue \<and> c = CHR '','' then Go BeginString (ObjectKey # xs)
          else if x = ObjectValue \<and> c = CHR ''}'' then Closed xs
          else if x = ArrayValue \<and> c = CHR '','' then Go BeginValue st
          else if x = ArrayValue \<and> c = CHR '']'' then Closed xs
          else Failed)"

definition in_exp :: "char \<Rightarrow> bool" where
  "in_exp c \<longleftrightarrow> c = CHR ''e'' \<or> c = CHR ''E''"

fun scan_step :: "jscan \<Rightarrow> jctx list \<Rightarrow> char \<Rightarrow> jstep" where
  "scan_step BeginValue st c = begin_value c st"
| "scan_step BeginValueOrEmpty st c =
     (if json_space c then Go BeginValueOrEmpty st else if c = CHR '']'' then end_value c st else begin_value c st)"
| "scan_step BeginString st c = begin_string c st"
| "scan_step BeginStringOrEmpty st c =
     (if json_space c then Go BeginStringOrEmpty st
      else if c = CHR ''}'' then end_value c (ObjectValue # tl st) else begin_string c st)"
| "scan_step EndValue st c = end_value c st"
| "scan_step InString st c =
     (if byte c = 34 then Go EndValue st else if byte c = 92 then Go InStringEsc st
      else if byte c < 32 then Failed else Go InString st)"
| "scan_step InStringEsc st c =
     (if c \<in> set ''bfnrt/'' \<or> byte c = 34 \<or> byte c = 92 then Go InString st
      else if c = CHR ''u'' then Go (InStringU 3) st else Failed)"
| "scan_step (InStringU n) st c =
     (if hex_digit c then Go (case n of 0 \<Rightarrow> InString | Suc m \<Rightarrow> InStringU m) st else Failed)"
| "scan_step Neg st c = (if c = CHR ''0'' then Go Zero st else if is_digit c then Go Digits st else Failed)"
| "scan_step Digits st c =
     (if is_digit c then Go Digits st else if c = CHR ''.'' then Go Dot st else if in_exp c then Go Exp st
      else end_value c st)"
| "scan_step Zero st c = (if c = CHR ''.'' then Go Dot st else if in_exp c then Go Exp st else end_value c st)"
| "scan_step Dot st c = (if is_digit c then Go Frac st else Failed)"
| "scan_step Frac st c = (if is_digit c then Go Frac st else if in_exp c then Go Exp st else end_value c st)"
| "scan_step Exp st c =
     (if c = CHR ''+'' \<or> c = CHR ''-'' then Go ExpSign st else if is_digit c then Go ExpDigits st else Failed)"
| "scan_step ExpSign st c = (if is_digit c then Go ExpDigits st else Failed)"
| "scan_step ExpDigits st c = (if is_digit c then Go ExpDigits st else end_value c st)"
| "scan_step (Letters w) st c =
     (case w of [] \<Rightarrow> Failed
      | x # xs \<Rightarrow> if c = x then Go (if xs = [] then EndValue else Letters xs) st else Failed)"

text \<open>
  \<open>readValue\<close>: the bytes of the next value, with the spaces before it, and the rest. At the end of
  the input the value is complete when a space would end it. A container that closes at the top ends the value with its last byte.
\<close>

fun read_value :: "jscan \<Rightarrow> jctx list \<Rightarrow> bytes \<Rightarrow> (bytes \<times> bytes) option" where
  "read_value s st [] = (if scan_step s st (CHR '' '') = Ended then Some ([], []) else None)"
| "read_value s st (c # cs) =
     (case scan_step s st c of
        Go s' st' \<Rightarrow> map_option (\<lambda>(v, r). (c # v, r)) (read_value s' st' cs)
      | Closed st' \<Rightarrow> if st' = [] then Some ([c], cs) else map_option (\<lambda>(v, r). (c # v, r)) (read_value EndValue st' cs)
      | Ended \<Rightarrow> Some ([], c # cs)
      | Failed \<Rightarrow> None)"

section \<open>String literals\<close>

definition hex_value :: "char \<Rightarrow> nat" where
  "hex_value c = (if is_digit c then byte c - 48 else if 97 \<le> byte c then byte c - 87 else byte c - 55)"

text \<open>\<open>getu4\<close>: the number of an escape \<open>\uXXXX\<close> at the front of a text.\<close>

definition getu4 :: "bytes \<Rightarrow> nat option" where
  "getu4 s =
     (if 6 \<le> length s \<and> byte (s ! 0) = 92 \<and> s ! 1 = CHR ''u'' \<and> list_all hex_digit (take 4 (drop 2 s))
      then Some (foldl (\<lambda>n c. 16 * n + hex_value c) 0 (take 4 (drop 2 s))) else None)"

definition surrogate :: "nat \<Rightarrow> bool" where
  "surrogate r \<longleftrightarrow> 0xD800 \<le> r \<and> r < 0xE000"

text \<open>\<open>utf16.DecodeRune\<close> of two halves; anything but a high and a low one is \<open>RuneError\<close>.\<close>

definition decode_pair :: "nat \<Rightarrow> nat option \<Rightarrow> nat" where
  "decode_pair r r1 =
     (case r1 of
        Some x \<Rightarrow> if r < 0xDC00 \<and> 0xDC00 \<le> x \<and> x < 0xE000 then (r - 0xD800) * 1024 + (x - 0xDC00) + 0x10000 else RuneError
      | None \<Rightarrow> RuneError)"

definition escaped :: "char \<Rightarrow> char" where
  "escaped c = (if c = CHR ''b'' then char_of (8 :: nat) else if c = CHR ''f'' then char_of (12 :: nat)
     else if c = CHR ''n'' then char_of (10 :: nat) else if c = CHR ''r'' then char_of (13 :: nat)
     else if c = CHR ''t'' then char_of (9 :: nat) else c)"

text \<open>\<open>unquote\<close> between the quotes of a literal that was scanned.\<close>

function unquote :: "bytes \<Rightarrow> bytes" where
  "unquote [] = []"
| "unquote (c # s) =
     (if byte c = 92 then
        (case getu4 (c # s) of
           Some r \<Rightarrow>
             if surrogate r then
               (let x = decode_pair r (getu4 (drop 5 s))
                in if x \<noteq> RuneError then encode_rune x @ unquote (drop 11 s) else encode_rune RuneError @ unquote (drop 5 s))
             else encode_rune r @ unquote (drop 5 s)
         | None \<Rightarrow> (case s of [] \<Rightarrow> [] | e # s' \<Rightarrow> escaped e # unquote s'))
      else if byte c < 0x80 then c # unquote s
      else (let d = decode_rune (c # s) in encode_rune (fst d) @ unquote (drop (snd d) (c # s))))"
  by pat_completeness auto
termination
  by (relation "measure length")
    (use decode_rune_size(1) in \<open>auto simp: neq0_conv[symmetric] simp del: decode_rune.simps neq0_conv\<close>)

section \<open>Tokens\<close>

datatype jtoken = TDelim char | TString bytes | TNumber bytes | TBool bool | TNull

datatype jstate = TopValue | ArrayStart | ArrayElem | ArrayComma | ObjectStart | MemberKey | ObjectColon | MemberValue | ObjectComma

text \<open>The decoder: what is left of its input and where it stands in the open containers.\<close>

record decoder =
  dc_rest :: bytes
  dc_state :: jstate
  dc_stack :: "jstate list"

datatype jerr = AtEOF | Malformed

definition NewDecoder :: "bytes \<Rightarrow> decoder" where
  "NewDecoder b = \<lparr>dc_rest = b, dc_state = TopValue, dc_stack = []\<rparr>"

definition peek :: "decoder \<Rightarrow> decoder" where
  "peek D = D\<lparr>dc_rest := dropWhile json_space (dc_rest D)\<rparr>"

definition dec_More :: "decoder \<Rightarrow> bool" where
  "dec_More D = (case dc_rest (peek D) of [] \<Rightarrow> False | c # _ \<Rightarrow> c \<noteq> CHR '']'' \<and> c \<noteq> CHR ''}'')"

definition value_allowed :: "jstate \<Rightarrow> bool" where
  "value_allowed s \<longleftrightarrow> s \<in> {TopValue, ArrayStart, ArrayElem, MemberValue}"

definition value_end :: "jstate \<Rightarrow> jstate" where
  "value_end s = (if s = ArrayStart \<or> s = ArrayElem then ArrayComma else if s = MemberValue then ObjectComma else s)"

text \<open>\<open>tokenPrepareForDecode\<close>: a value may have to be preceded by a comma or a colon.\<close>

definition prepare :: "decoder \<Rightarrow> jerr + decoder" where
  "prepare D =
     (let wants = (\<lambda>x s. case dc_rest (peek D) of
          [] \<Rightarrow> Inl AtEOF
        | c # r \<Rightarrow> if c = x then Inr (D\<lparr>dc_rest := r, dc_state := s\<rparr>) else Inl Malformed)
      in if dc_state D = ArrayComma then wants (CHR '','') ArrayElem
         else if dc_state D = ObjectColon then wants (CHR '':'') MemberValue
         else Inr D)"

text \<open>
  \<open>Decode\<close> of the next value as its bytes: into a \<open>RawMessage\<close>, which starts after the spaces.
  An input with nothing but spaces is at its end.
\<close>

definition DecodeRaw :: "decoder \<Rightarrow> jerr + bytes \<times> decoder" where
  "DecodeRaw D =
     rbind (prepare D) (\<lambda>D.
       if \<not> value_allowed (dc_state D) then Inl Malformed
       else if dc_rest (peek D) = [] then Inl AtEOF
       else (case read_value BeginValue [] (dc_rest D) of
               None \<Rightarrow> Inl Malformed
             | Some (v, r) \<Rightarrow> Inr (dropWhile json_space v, D\<lparr>dc_rest := r, dc_state := value_end (dc_state D)\<rparr>)))"

text \<open>The token of a literal: a string, a number (\<open>UseNumber\<close>), a boolean or null.\<close>

definition literal :: "bytes \<Rightarrow> jtoken" where
  "literal v =
     (case v of
        [] \<Rightarrow> TNull
      | c # s \<Rightarrow> if byte c = 34 then TString (unquote (butlast s))
          else if c = CHR ''t'' then TBool True else if c = CHR ''f'' then TBool False
          else if c = CHR ''n'' then TNull else TNumber v)"

function Token :: "decoder \<Rightarrow> jerr + jtoken \<times> decoder" where
  "Token D =
     (case dropWhile json_space (dc_rest D) of
        [] \<Rightarrow> Inl AtEOF
      | c # r \<Rightarrow>
          if c = CHR ''['' \<or> c = CHR ''{'' then
            (if \<not> value_allowed (dc_state D) then Inl Malformed
             else Inr (TDelim c, \<lparr>dc_rest = r, dc_state = (if c = CHR ''['' then ArrayStart else ObjectStart),
               dc_stack = dc_state D # dc_stack D\<rparr>))
          else if c = CHR '']'' \<and> dc_state D \<in> {ArrayStart, ArrayComma} \<or> c = CHR ''}'' \<and> dc_state D \<in> {ObjectStart, ObjectComma} then
            (case dc_stack D of
               [] \<Rightarrow> Inl Malformed
             | s # ss \<Rightarrow> Inr (TDelim c, \<lparr>dc_rest = r, dc_state = value_end s, dc_stack = ss\<rparr>))
          else if c = CHR '']'' \<or> c = CHR ''}'' then Inl Malformed
          else if c = CHR '':'' then
            (if dc_state D = ObjectColon then Token (D\<lparr>dc_rest := r, dc_state := MemberValue\<rparr>) else Inl Malformed)
          else if c = CHR '','' then
            (if dc_state D = ArrayComma then Token (D\<lparr>dc_rest := r, dc_state := ArrayElem\<rparr>)
             else if dc_state D = ObjectComma then Token (D\<lparr>dc_rest := r, dc_state := MemberKey\<rparr>) else Inl Malformed)
          else if byte c = 34 \<and> dc_state D \<in> {ObjectStart, MemberKey} then
            rbind (DecodeRaw (D\<lparr>dc_rest := c # r, dc_state := TopValue\<rparr>)) (\<lambda>(v, D'). Inr (literal v, D'\<lparr>dc_state := ObjectColon\<rparr>))
          else if \<not> value_allowed (dc_state D) then Inl Malformed
          else rbind (DecodeRaw D) (\<lambda>(v, D'). Inr (literal v, D')))"
  by pat_completeness auto
termination
proof (relation "measure (\<lambda>D. length (dc_rest D))", goal_cases)
  case (2 D c r)
  then show ?case using length_dropWhile_le[of json_space "dc_rest D"] by simp
next
  case (3 D c r)
  then show ?case using length_dropWhile_le[of json_space "dc_rest D"] by simp
next
  case (4 D c r)
  then show ?case using length_dropWhile_le[of json_space "dc_rest D"] by simp
qed simp

declare Token.simps [simp del]

section \<open>What is consumed\<close>

lemma read_value_append: "read_value s st b = Some (v, r) \<Longrightarrow> b = v @ r"
  by (induction s st b arbitrary: v rule: read_value.induct) (auto split: if_splits jstep.splits)

lemma prepare_shorter: "prepare D = Inr D' \<Longrightarrow> length (dc_rest D') \<le> length (dc_rest D)"
  using length_dropWhile_le[of json_space "dc_rest D"]
  by (auto simp: prepare_def Let_def peek_def split: if_splits list.splits)

lemma DecodeRaw_shorter:
  assumes "DecodeRaw D = Inr (v, D')"
  shows "length (dc_rest D') \<le> length (dc_rest D) \<and> (v \<noteq> [] \<longrightarrow> length (dc_rest D') < length (dc_rest D))"
proof -
  obtain E w r where E: "prepare D = Inr E" "read_value BeginValue [] (dc_rest E) = Some (w, r)" "v = dropWhile json_space w"
      "dc_rest D' = r"
    using assms by (auto simp: DecodeRaw_def step_simps split: if_splits option.splits)
  have "w \<noteq> []" if "v \<noteq> []" using E(3) that by auto
  then show ?thesis using prepare_shorter[OF E(1)] read_value_append[OF E(2)] E(4) by (cases w) auto
qed

text \<open>The first byte that is no space belongs to a value, so that a value is not empty.\<close>

lemma read_value_head:
  "read_value BeginValue st b = Some (v, r) \<Longrightarrow> dropWhile json_space b \<noteq> [] \<Longrightarrow> dropWhile json_space v \<noteq> []"
proof (induction b arbitrary: v)
  case (Cons c b)
  show ?case
  proof (cases "json_space c")
    case True
    then show ?thesis using Cons by (auto simp: begin_value_def split: if_splits)
  next
    case False
    then have "v \<noteq> [] \<and> hd v = c"
      using Cons.prems(1) by (auto simp: begin_value_def push_ctx_def split: if_splits)
    then show ?thesis using False by (cases v) auto
  qed
qed simp

lemma DecodeRaw_consumes:
  assumes "DecodeRaw D = Inr (v, D')"
  shows "length (dc_rest D') < length (dc_rest D)"
proof -
  obtain E w r where E: "prepare D = Inr E" "read_value BeginValue [] (dc_rest E) = Some (w, r)" "v = dropWhile json_space w"
      "dc_rest (peek E) \<noteq> []"
    using assms by (auto simp: DecodeRaw_def step_simps split: if_splits option.splits)
  then have "v \<noteq> []" using read_value_head[OF E(2)] by (simp add: peek_def)
  then show ?thesis using DecodeRaw_shorter[OF assms] by blast
qed

lemma Token_consumes: "Token D = Inr (t, D') \<Longrightarrow> length (dc_rest D') < length (dc_rest D)"
proof (induction D arbitrary: t D' rule: Token.induct)
  case (1 D)
  show ?case
  proof (cases "dropWhile json_space (dc_rest D)")
    case Nil
    then show ?thesis using 1(4) by (subst (asm) Token.simps) (simp only: list.case sum.distinct)
  next
    case (Cons c r)
    then have len: "length r < length (dc_rest D)" using length_dropWhile_le[of json_space "dc_rest D"] by simp
    have sub: "length (dc_rest E) < length (dc_rest D)"
      if "DecodeRaw (D\<lparr>dc_rest := c # r, dc_state := TopValue\<rparr>) = Inr (v, E)" for v E
      using DecodeRaw_consumes[OF that] len by simp
    note T = 1(4)[unfolded Token.simps[of D] Cons list.case]
    show ?thesis
      using T len DecodeRaw_consumes[of D] sub 1(1)[OF Cons] 1(2)[OF Cons] 1(3)[OF Cons]
      by (auto simp: step_simps split: if_splits list.splits prod.splits intro: less_trans)
  qed
qed

end
