(* ===== verification/AliasQuery.thy ===== *)
theory AliasQuery
  imports AliasContract GoJson
begin

text \<open>
  \<open>pkg/ecosystemalias/query.go\<close>: the strict decoding of a lookup query, over the model of Go's JSON
  decoder. Every JSON error of the decoder gives the same code.
\<close>

definition malformed :: "jerr + 'a \<Rightarrow> alias_code + 'a" where
  "malformed r = (case r of Inl _ \<Rightarrow> Inl CodeMalformedJSON | Inr x \<Rightarrow> Inr x)"

definition consumeEOF :: "decoder \<Rightarrow> alias_code + unit" where
  "consumeEOF D = (case Token D of Inl AtEOF \<Rightarrow> Inr () | _ \<Rightarrow> Inl CodeMalformedJSON)"

definition decodeJSONString :: "bytes \<Rightarrow> alias_code + bytes" where
  "decodeJSONString raw =
     rbind (malformed (Token (NewDecoder raw))) (\<lambda>(t, D).
       case t of TString s \<Rightarrow> rbind (consumeEOF D) (\<lambda>_. Inr s) | _ \<Rightarrow> Inl CodeMalformedJSON)"

text \<open>What the limit and the skip share: an integer literal of 64 bits without fraction, exponent or plus.\<close>

definition decode_integer :: "bytes \<Rightarrow> alias_code + int" where
  "decode_integer raw =
     rbind (malformed (Token (NewDecoder raw))) (\<lambda>(t, D).
       case t of
         TNumber num \<Rightarrow>
           rbind (consumeEOF D) (\<lambda>_.
             if set num \<inter> set ''.eE+'' \<noteq> {} then Inl CodeMalformedJSON
             else (case ParseInt64 num of None \<Rightarrow> Inl CodeMalformedJSON | Some n \<Rightarrow> Inr n))
       | _ \<Rightarrow> Inl CodeMalformedJSON)"

definition decodeJSONLimit :: "bytes \<Rightarrow> alias_code + 32 word" where
  "decodeJSONLimit raw =
     rbind (decode_integer raw) (\<lambda>n.
       if n \<le> 0 then Inl CodeLimitZero
       else if int (unat MaxLimit) < n then Inl CodeLimitTooLarge
       else Inr (of_int n))"

definition decodeJSONSkip :: "bytes \<Rightarrow> alias_code + 32 word" where
  "decodeJSONSkip raw =
     rbind (decode_integer raw) (\<lambda>n.
       if n < 0 then Inl CodeSkipNegative
       else if 2 ^ 32 - 1 < n then Inl CodeMalformedJSON
       else Inr (of_int n))"

text \<open>One field of the object: the value of its name is normalized and stored.\<close>

definition set_query :: "bytes \<Rightarrow> bytes \<Rightarrow> query \<Rightarrow> alias_code + query" where
  "set_query key v q =
     (if TrimSpace v = ''null'' then Inl CodeJSONNull
      else if key = ''alias'' then
        rbind (decodeJSONString v) (\<lambda>s. rbind (NormalizeAliasQuery s) (\<lambda>n. Inr (q\<lparr>q_Alias := Some n\<rparr>)))
      else if key = ''domain'' then
        rbind (decodeJSONString v) (\<lambda>s. rbind (NormalizeDomainQuery s) (\<lambda>n. Inr (q\<lparr>q_Domain := Some n\<rparr>)))
      else if key = ''limit'' then rbind (decodeJSONLimit v) (\<lambda>n. Inr (q\<lparr>q_Limit := Some n\<rparr>))
      else if key = ''skip'' then rbind (decodeJSONSkip v) (\<lambda>n. Inr (q\<lparr>q_Skip := Some n\<rparr>))
      else Inl CodeUnknownField)"

text \<open>The loop over the members ends because each member takes bytes off the input.\<close>

function query_loop :: "bytes list \<Rightarrow> query \<Rightarrow> decoder \<Rightarrow> alias_code + query \<times> decoder" where
  "query_loop seen q D =
     (if \<not> dec_More D then Inr (q, D)
      else case Token D of
          Inl _ \<Rightarrow> Inl CodeMalformedJSON
        | Inr (t, D1) \<Rightarrow>
            (case t of
               TString key \<Rightarrow>
                 if key \<in> set seen then Inl CodeDuplicateField
                 else (case DecodeRaw D1 of
                     Inl _ \<Rightarrow> Inl CodeMalformedJSON
                   | Inr (v, D2) \<Rightarrow>
                       (case set_query key v q of Inl e \<Rightarrow> Inl e | Inr q' \<Rightarrow> query_loop (key # seen) q' D2))
             | _ \<Rightarrow> Inl CodeMalformedJSON))"
  by pat_completeness auto
termination
  by (relation "measure (\<lambda>(_, _, D). length (dc_rest D))") (auto dest!: Token_consumes DecodeRaw_consumes)

declare query_loop.simps [simp del]

definition DecodeQuery :: "bytes \<Rightarrow> alias_code + query" where
  "DecodeQuery raw =
     (let trimmed = TrimSpace raw in
      if trimmed = [] then Inl CodeMalformedJSON
      else if trimmed = ''null'' then Inl CodeJSONNull
      else if hd trimmed \<noteq> CHR ''{'' then Inl CodeMalformedJSON
      else rbind (malformed (Token (NewDecoder trimmed))) (\<lambda>(t, D).
        if t \<noteq> TDelim (CHR ''{'') then Inl CodeMalformedJSON
        else rbind (query_loop [] no_query D) (\<lambda>(q, D').
          rbind (malformed (Token D')) (\<lambda>(_, D'').
            rbind (consumeEOF D'') (\<lambda>_.
              if Mode q = ModeNone then Inl CodeInvalidCombination else Inr q)))))"

section \<open>Printing\<close>

text \<open>A query as a client writes it.\<close>

definition quoted :: "bytes \<Rightarrow> bytes" where
  "quoted s = [CHR 0x22] @ s @ [CHR 0x22]"

definition query_members :: "query \<Rightarrow> (bytes \<times> bytes) list" where
  "query_members q =
     (case q_Alias q of None \<Rightarrow> [] | Some a \<Rightarrow> [(''alias'', quoted a)]) @
     (case q_Domain q of None \<Rightarrow> [] | Some d \<Rightarrow> [(''domain'', quoted d)]) @
     (case q_Limit q of None \<Rightarrow> [] | Some n \<Rightarrow> [(''limit'', decimal (unat n))]) @
     (case q_Skip q of None \<Rightarrow> [] | Some n \<Rightarrow> [(''skip'', decimal (unat n))])"

definition member_text :: "bytes \<times> bytes \<Rightarrow> bytes" where
  "member_text m = quoted (fst m) @ '':'' @ snd m"

definition later_members :: "(bytes \<times> bytes) list \<Rightarrow> bytes" where
  "later_members ms = concat (map (\<lambda>m. CHR '','' # member_text m) ms)"

definition print_query :: "query \<Rightarrow> bytes" where
  "print_query q =
     ''{'' @ (case query_members q of [] \<Rightarrow> [] | m # ms \<Rightarrow> member_text m @ later_members ms) @ ''}''"

end
