(* ===== verification/AliasLaws.thy ===== *)
theory AliasLaws
  imports AliasQuery
begin

text \<open>
  Lemmas on the alias registry: what the grammars accept, that normalized values are the valid tokens, that a printed
  query is decoded to itself, and which byte strings are strict DER signatures.
\<close>

section \<open>Characters of tokens\<close>

definition token_char :: "char \<Rightarrow> bool" where
  "token_char c \<longleftrightarrow> is_lower c \<or> is_digit c \<or> c = CHR ''-'' \<or> c = CHR ''.''"

lemma token_char_byte:
  assumes "token_char c"
  shows "45 \<le> byte c" "byte c \<le> 122" "byte c \<noteq> 92" "\<not> (65 \<le> byte c \<and> byte c \<le> 90)" "byte c \<noteq> 47"
  using assms by (auto simp: token_char_def is_lower_def is_digit_def byte_def)

lemma token_char_lower: "token_char c \<Longrightarrow> lower_char c = c"
  using token_char_byte(4)[of c] by (auto simp: lower_char_def)

lemma lower_char_idem: "lower_char (lower_char c) = lower_char c"
  by (auto simp: lower_char_def byte_def)

lemma asciiLower_idem: "asciiLower (asciiLower s) = asciiLower s"
  by (simp add: asciiLower_def lower_char_idem)

lemma alias_chars_token: "alias_chars h s = Inr () \<Longrightarrow> list_all token_char s"
  by (induction h s rule: alias_chars.induct) (auto simp: token_char_def split: if_splits)

lemma split_at_chars: "set s \<subseteq> insert d (\<Union> (set ` set (split_at d s)))"
proof (induction s)
  case (Cons c s)
  then show ?case by (cases "split_at d s") (auto simp: subset_iff)
qed simp

lemma labels_ok: "rfold (\<lambda>l _. domainLabel l) ls () = Inr () \<longleftrightarrow> (\<forall>l \<in> set ls. domainLabel l = Inr ())"
  by (induction ls) (auto simp: step_simps)

lemma domain_token:
  assumes "domainGrammar s = Inr ()"
  shows "list_all token_char s"
proof -
  have "\<forall>l \<in> set (split_at (CHR ''.'') s). domainLabel l = Inr ()"
    using assms by (auto simp: domainGrammar_def labels_ok split: if_splits)
  then have "\<forall>l \<in> set (split_at (CHR ''.'') s). list_all token_char l"
    by (auto simp: domainLabel_def token_char_def list_all_iff split: if_splits)
  moreover have "token_char (CHR ''.'')" by (simp add: token_char_def)
  ultimately show ?thesis using split_at_chars[of s "CHR ''.''"] by (auto simp: list_all_iff)
qed

lemma alias_token: "aliasGrammar s = Inr () \<Longrightarrow> list_all token_char s"
  using alias_chars_token by (auto simp: aliasGrammar_def split: if_splits)

lemma grammar_not_Nil: "aliasGrammar s = Inr () \<Longrightarrow> s \<noteq> []" "domainGrammar s = Inr () \<Longrightarrow> s \<noteq> []"
  by (auto simp: aliasGrammar_def domainGrammar_def)

lemma token_text:
  assumes "list_all token_char s" "s \<noteq> []"
  shows "rejectQueryText s = Inr ()" "asciiLower s = s"
proof -
  have "\<not> hasNonASCII s" using assms(1) token_char_byte(2) by (fastforce simp: hasNonASCII_iff list_all_iff)
  moreover have "token_char (hd s)" "token_char (last s)" using assms by (auto simp: list_all_iff)
  then have "\<not> hasASCIIWrapSpace s" using assms(2) token_char_byte(1)[of "hd s"] token_char_byte(1)[of "last s"]
    by (auto simp: hasASCIIWrapSpace_def ascii_whitespace_def byte_def)
  ultimately show "rejectQueryText s = Inr ()" using assms(2) by (simp add: rejectQueryText_def)
  show "asciiLower s = s" using assms(1) by (induction s) (auto simp: asciiLower_def token_char_lower)
qed

lemma alias_normal_iff:
  "NormalizeAliasQuery s = Inr n \<Longrightarrow> aliasGrammar n = Inr () \<and> ValidateTokenAlias n = Inr () \<and> NormalizeAliasQuery n = Inr n"
  "ValidateTokenAlias s = Inr () \<longleftrightarrow> aliasGrammar s = Inr ()"
proof -
  have v: "ValidateTokenAlias s = Inr () \<and> NormalizeAliasQuery s = Inr s" if "aliasGrammar s = Inr ()" for s
    using token_text[OF alias_token[OF that] grammar_not_Nil(1)[OF that]] grammar_not_Nil(1)[OF that] that
    by (auto simp: ValidateTokenAlias_def NormalizeAliasQuery_def rejectQueryText_def split: if_splits)
  show "ValidateTokenAlias s = Inr () \<longleftrightarrow> aliasGrammar s = Inr ()"
  proof
    assume "ValidateTokenAlias s = Inr ()"
    then show "aliasGrammar s = Inr ()" by (simp add: ValidateTokenAlias_def split: if_splits)
  qed (use v in blast)
  show "NormalizeAliasQuery s = Inr n \<Longrightarrow> aliasGrammar n = Inr () \<and> ValidateTokenAlias n = Inr () \<and> NormalizeAliasQuery n = Inr n"
  proof -
    assume "NormalizeAliasQuery s = Inr n"
    then have "aliasGrammar n = Inr ()" by (auto simp: NormalizeAliasQuery_def step_simps)
    then show ?thesis using v[of n] by blast
  qed
qed

lemma domain_normal_iff:
  "NormalizeDomainQuery s = Inr n \<Longrightarrow> domainGrammar n = Inr () \<and> ValidateTokenDomain n = Inr () \<and> NormalizeDomainQuery n = Inr n"
  "ValidateTokenDomain s = Inr () \<longleftrightarrow> domainGrammar s = Inr ()"
proof -
  have v: "ValidateTokenDomain s = Inr () \<and> NormalizeDomainQuery s = Inr s" if "domainGrammar s = Inr ()" for s
    using token_text[OF domain_token[OF that] grammar_not_Nil(2)[OF that]] grammar_not_Nil(2)[OF that] that
    by (auto simp: ValidateTokenDomain_def NormalizeDomainQuery_def rejectQueryText_def split: if_splits)
  show "ValidateTokenDomain s = Inr () \<longleftrightarrow> domainGrammar s = Inr ()"
  proof
    assume "ValidateTokenDomain s = Inr ()"
    then show "domainGrammar s = Inr ()" by (simp add: ValidateTokenDomain_def split: if_splits)
  qed (use v in blast)
  show "NormalizeDomainQuery s = Inr n \<Longrightarrow> domainGrammar n = Inr () \<and> ValidateTokenDomain n = Inr () \<and> NormalizeDomainQuery n = Inr n"
  proof -
    assume "NormalizeDomainQuery s = Inr n"
    then have "domainGrammar n = Inr ()" by (auto simp: NormalizeDomainQuery_def step_simps)
    then show ?thesis using v[of n] by blast
  qed
qed

section \<open>Scanning what is printed\<close>

lemma token_not_json:
  assumes "token_char c"
  shows "byte c \<noteq> 34" "byte c \<noteq> 92" "\<not> byte c < 32" "byte c < 128"
  using token_char_byte[OF assms] by auto

lemma scan_string_body: "list_all token_char s \<Longrightarrow> read_value InString [] (s @ CHR 0x22 # r) = Some (s @ [CHR 0x22], r)"
proof (induction s)
  case Nil
  have "read_value EndValue [] r = Some ([], r)" by (cases r) (simp_all add: end_value_def)
  then show ?case by (simp add: byte_def)
next
  case (Cons c s)
  then show ?case using token_not_json[of c] by simp
qed

lemma unquote_token: "list_all token_char s \<Longrightarrow> unquote s = s"
proof (induction s)
  case (Cons c s)
  then show ?case using token_not_json[of c] by simp
qed simp

definition scans :: "bytes \<Rightarrow> bool" where
  "scans v \<longleftrightarrow> v \<noteq> [] \<and> \<not> json_space (hd v) \<and> hd v \<notin> set ''[{]},:'' \<and>
     (\<forall>r. (r = [] \<or> hd r \<in> set '',}'') \<longrightarrow> read_value BeginValue [] (v @ r) = Some (v, r))"

lemma scans_quoted: "list_all token_char s \<Longrightarrow> scans (quoted s)"
  using scan_string_body[of s] by (simp add: scans_def quoted_def begin_value_def json_space_def byte_def)

lemma scan_digits:
  assumes "list_all is_digit ds" "r = [] \<or> hd r \<in> set '',}''"
  shows "read_value Digits [] (ds @ r) = Some (ds, r)"
  using assms(1)
proof (induction ds)
  case Nil
  then show ?case using assms(2) by (cases r) (auto simp: is_digit_def in_exp_def end_value_def)
next
  case (Cons c ds)
  then show ?case by simp
qed

lemma scan_zero: "r = [] \<or> hd r \<in> set '',}'' \<Longrightarrow> read_value Zero [] r = Some ([], r)"
  by (cases r) (auto simp: in_exp_def end_value_def)

lemma scans_decimal: "scans (decimal n)"
proof (cases "n = 0")
  case True
  have "decimal 0 = ''0''" by code_simp
  then show ?thesis unfolding True
    using scan_zero by (simp add: scans_def begin_value_def json_space_def byte_def)
next
  case False
  obtain c ds where d: "decimal n = c # ds" using decimal_not_Nil[of n] by (cases "decimal n") auto
  have c: "is_digit c" "list_all is_digit ds" "c \<noteq> CHR ''0''"
    using decimal_digits[of n] decimal_head[of n] False d by auto
  have nl: "48 \<le> byte c" "byte c \<le> 57" using c(1) by (simp_all add: is_digit_def byte_def)
  have ne: "c \<noteq> x" if "byte x < 48 \<or> 57 < byte x" for x using nl that by auto
  have out: "c \<noteq> CHR '' ''" "c \<noteq> CHR ''{''" "c \<noteq> CHR ''[''" "c \<noteq> CHR ''-''" "c \<noteq> CHR ''t''" "c \<noteq> CHR ''f''" "c \<noteq> CHR ''n''"
    by (rule ne, simp add: byte_def)+
  then have "begin_value c [] = Go Digits []" using c nl by (simp add: begin_value_def json_space_def)
  then have "read_value BeginValue [] (decimal n @ r) = Some (decimal n, r)" if "r = [] \<or> hd r \<in> set '',}''" for r
    using scan_digits[OF c(2) that] by (simp add: d)
  moreover have "\<not> json_space c" "c \<notin> set ''[{]},:''" using nl out ne[of "CHR '']''"] ne[of "CHR ''}''"] ne[of "CHR '',''"] ne[of "CHR '':''"]
    by (simp_all add: json_space_def) (simp_all add: byte_def)
  ultimately show ?thesis by (simp add: scans_def d)
qed

lemma drop_spaces: "\<not> json_space c \<Longrightarrow> dropWhile json_space (c # s) = c # s"
  by simp

lemma raw_scanned:
  assumes v: "scans v" and r: "r = [] \<or> hd r \<in> set '',}''"
    and D: "dc_state D = ObjectColon \<and> dc_rest D = CHR '':'' # v @ r \<or> dc_state D = TopValue \<and> dc_rest D = v @ r"
  shows "DecodeRaw D = Inr (v, D\<lparr>dc_rest := r, dc_state := (if dc_state D = TopValue then TopValue else ObjectComma)\<rparr>)"
proof -
  have h: "v \<noteq> []" "\<not> json_space (hd v)" "read_value BeginValue [] (v @ r) = Some (v, r)" using v r by (auto simp: scans_def)
  then have "dropWhile json_space v = v" "dropWhile json_space (v @ r) \<noteq> []" by (cases v; simp)+
  moreover have "\<not> json_space (CHR '':'')" by (simp add: json_space_def byte_def)
  ultimately show ?thesis
    using D h(3) by (auto simp: DecodeRaw_def prepare_def Let_def peek_def value_allowed_def value_end_def)
qed

lemma literal_token:
  assumes "scans v" and "D = NewDecoder v" and "byte (hd v) = 34 \<or> is_digit (hd v)"
  shows "Token D = Inr (literal v, D\<lparr>dc_rest := []\<rparr>)"
proof -
  have raw: "DecodeRaw D = Inr (v, D\<lparr>dc_rest := []\<rparr>)"
    using raw_scanned[OF assms(1), of "[]" D] assms(2) by (simp add: NewDecoder_def)
  obtain c s where v: "v = c # s" using assms(1) by (cases v) (auto simp: scans_def)
  have c: "\<not> json_space c" "c \<notin> set ''[{]},:''" using assms(1) v by (auto simp: scans_def)
  then have st: "dropWhile json_space (dc_rest D) = c # s" using assms(2) v by (simp add: NewDecoder_def)
  have "dc_state D = TopValue" using assms(2) by (simp add: NewDecoder_def)
  then show ?thesis using c raw by (simp add: Token.simps[of D] st value_allowed_def)
qed

lemma at_end: "consumeEOF (D\<lparr>dc_rest := []\<rparr>) = Inr ()"
  by (simp add: consumeEOF_def Token.simps)

lemma decode_quoted:
  assumes "list_all token_char s"
  shows "decodeJSONString (quoted s) = Inr s"
proof -
  have "Token (NewDecoder (quoted s)) = Inr (TString s, (NewDecoder (quoted s))\<lparr>dc_rest := []\<rparr>)"
    using literal_token[OF scans_quoted[OF assms] refl] unquote_token[OF assms]
    by (simp add: quoted_def literal_def byte_def)
  then show ?thesis by (simp add: decodeJSONString_def malformed_def at_end)
qed

lemma decode_decimal:
  assumes "n < 2 ^ 63"
  shows "decode_integer (decimal n) = Inr (int n)"
proof -
  obtain c ds where d: "decimal n = c # ds" using decimal_not_Nil[of n] by (cases "decimal n") auto
  have c: "is_digit c" using decimal_digits[of n] d by simp
  have b: "48 \<le> byte c" "byte c \<le> 57" using c by (simp_all add: is_digit_def byte_def)
  then have lit: "literal (decimal n) = TNumber (decimal n)" unfolding d by (auto simp: literal_def byte_def)
  have tok: "Token (NewDecoder (decimal n)) = Inr (TNumber (decimal n), (NewDecoder (decimal n))\<lparr>dc_rest := []\<rparr>)"
    using literal_token[OF scans_decimal refl, of n] c lit d by simp
  have "set (decimal n) \<inter> set ''.eE+'' = {}" using decimal_digits[of n] by (auto simp: list_all_iff is_digit_def)
  then show ?thesis
    using assms by (simp add: decode_integer_def tok malformed_def at_end ParseInt64_decimal)
qed

lemma decode_limit:
  "0 < n \<Longrightarrow> n \<le> MaxLimit \<Longrightarrow> decodeJSONLimit (decimal (unat n)) = Inr n"
  using unsigned_less[of n, where 'a = nat] decode_decimal[of "unat n"]
  by (auto simp: decodeJSONLimit_def word_le_def word_less_def)

lemma decode_skip: "decodeJSONSkip (decimal (unat n)) = Inr n"
proof -
  have b: "unat n < 2 ^ 32" using unsigned_less[of n, where 'a = nat] by simp
  then have "int (unat n) < int (2 ^ 32)" by (simp only: of_nat_less_iff)
  then have "int (unat n) \<le> 2 ^ 32 - 1" by simp
  then show ?thesis using b decode_decimal[of "unat n"] by (simp add: decodeJSONSkip_def)
qed

lemma trim_plain:
  assumes "byte c < 128" "\<not> IsSpace (byte c)" "byte d < 128" "\<not> IsSpace (byte d)"
  shows "TrimSpace (c # s @ [d]) = c # s @ [d]" "TrimSpace [c] = [c]"
proof -
  have "trim_left (c # s @ [d]) = c # s @ [d]" "trim_left [c] = [c]" by (rule ascii_head; use assms in simp)+
  moreover have "trim_right ((c # s) @ [d]) = (c # s) @ [d]" "trim_right ([] @ [c]) = [] @ [c]"
    by (rule ascii_last; use assms in simp)+
  ultimately show "TrimSpace (c # s @ [d]) = c # s @ [d]" "TrimSpace [c] = [c]" by (simp_all add: TrimSpace_def del: trim_left.simps)
qed

section \<open>Reading the members\<close>

lemma key_raw:
  assumes "list_all token_char k" "dc_state D = TopValue" "dc_rest D = quoted k @ x"
  shows "DecodeRaw D = Inr (quoted k, D\<lparr>dc_rest := x\<rparr>)"
proof -
  have "read_value BeginValue [] (quoted k @ x) = Some (quoted k, x)"
    using scan_string_body[OF assms(1), of x] by (simp add: quoted_def begin_value_def json_space_def byte_def)
  moreover have "\<not> json_space (CHR 0x22)" by (simp add: json_space_def byte_def)
  ultimately show ?thesis
    using assms(2,3) by (simp add: DecodeRaw_def prepare_def peek_def value_allowed_def value_end_def quoted_def)
qed

lemma token_key_start:
  assumes "list_all token_char k" "dc_state D \<in> {ObjectStart, MemberKey}" "dc_rest D = quoted k @ x"
  shows "Token D = Inr (TString k, D\<lparr>dc_rest := x, dc_state := ObjectColon\<rparr>)"
proof -
  have sp: "\<not> json_space (CHR 0x22)" by (simp add: json_space_def byte_def)
  have "literal (quoted k) = TString k" using unquote_token[OF assms(1)] by (simp add: literal_def quoted_def byte_def)
  moreover have "DecodeRaw (D\<lparr>dc_rest := quoted k @ x, dc_state := TopValue\<rparr>) =
      Inr (quoted k, D\<lparr>dc_rest := x, dc_state := TopValue\<rparr>)"
    using key_raw[OF assms(1), of "D\<lparr>dc_rest := quoted k @ x, dc_state := TopValue\<rparr>" x] by simp
  ultimately show ?thesis using assms(2,3) sp by (auto simp: Token.simps[of D] quoted_def byte_def)
qed

lemma token_key_comma:
  assumes "list_all token_char k" "dc_state D = ObjectComma" "dc_rest D = CHR '','' # quoted k @ x"
  shows "Token D = Inr (TString k, D\<lparr>dc_rest := x, dc_state := ObjectColon\<rparr>)"
proof -
  have sp: "\<not> json_space (CHR '','')" by (simp add: json_space_def byte_def)
  have "Token D = Token (D\<lparr>dc_rest := quoted k @ x, dc_state := MemberKey\<rparr>)"
    using assms(2,3) sp by (simp add: Token.simps[of D])
  then show ?thesis using token_key_start[OF assms(1), of "D\<lparr>dc_rest := quoted k @ x, dc_state := MemberKey\<rparr>" x] by simp
qed

definition wf_member :: "bytes \<times> bytes \<Rightarrow> bool" where
  "wf_member m \<longleftrightarrow> list_all token_char (fst m) \<and> scans (snd m)"

definition set_member :: "bytes \<times> bytes \<Rightarrow> query \<Rightarrow> alias_code + query" where
  "set_member m q = set_query (fst m) (snd m) q"

lemma loop_member:
  assumes m: "wf_member m" and new: "fst m \<notin> set seen" and r: "hd r \<in> set '',}''" "r \<noteq> []"
    and D: "dc_state D = ObjectStart \<and> dc_rest D = member_text m @ r \<or>
      dc_state D = ObjectComma \<and> dc_rest D = CHR '','' # member_text m @ r"
  shows "query_loop seen q D = rbind (set_member m q)
    (\<lambda>q'. query_loop (fst m # seen) q' (D\<lparr>dc_rest := r, dc_state := ObjectComma\<rparr>))"
proof -
  let ?x = "CHR '':'' # snd m @ r" and ?D1 = "D\<lparr>dc_rest := CHR '':'' # snd m @ r, dc_state := ObjectColon\<rparr>"
  have tok: "Token D = Inr (TString (fst m), ?D1)"
    using D token_key_start[of "fst m" D ?x] token_key_comma[of "fst m" D ?x] m by (auto simp: wf_member_def member_text_def)
  have raw: "DecodeRaw ?D1 = Inr (snd m, D\<lparr>dc_rest := r, dc_state := ObjectComma\<rparr>)"
    using raw_scanned[of "snd m" r ?D1] m r by (simp add: wf_member_def)
  have "dec_More D" using D by (auto simp: dec_More_def peek_def member_text_def quoted_def json_space_def byte_def)
  then show ?thesis
    using tok raw new by (subst query_loop.simps) (simp add: set_member_def rbind_def)
qed

lemma loop_end: "query_loop seen q (D\<lparr>dc_rest := ''}''\<rparr>) = Inr (q, D\<lparr>dc_rest := ''}''\<rparr>)"
  by (subst query_loop.simps) (simp add: dec_More_def peek_def json_space_def byte_def)

lemma loop_later:
  assumes "\<forall>m \<in> set ms. wf_member m" "distinct (map fst ms)" "set (map fst ms) \<inter> set seen = {}"
    and "dc_state D = ObjectComma" "dc_rest D = later_members ms @ ''}''"
  shows "query_loop seen q D = rbind (rfold set_member ms q) (\<lambda>q'. Inr (q', D\<lparr>dc_rest := ''}''\<rparr>))"
  using assms
proof (induction ms arbitrary: seen q D)
  case Nil
  then have "D = D\<lparr>dc_rest := ''}''\<rparr>" by (simp add: later_members_def)
  then show ?case using loop_end[of seen q D] by simp
next
  case (Cons m ms)
  let ?r = "later_members ms @ ''}''"
  let ?D = "D\<lparr>dc_rest := ?r, dc_state := ObjectComma\<rparr>"
  have r: "hd ?r \<in> set '',}''" "?r \<noteq> []" by (cases ms; simp add: later_members_def)+
  have D: "dc_rest D = CHR '','' # member_text m @ ?r" using Cons.prems(5) by (simp add: later_members_def)
  have step: "query_loop seen q D = rbind (set_member m q) (\<lambda>q'. query_loop (fst m # seen) q' ?D)"
    using loop_member[of m seen ?r D q] Cons.prems r D by simp
  have ih: "query_loop (fst m # seen) q' ?D = rbind (rfold set_member ms q') (\<lambda>q'. Inr (q', D\<lparr>dc_rest := ''}''\<rparr>))" for q'
  proof -
    have same: "D\<lparr>dc_state := ObjectComma, dc_rest := ''}''\<rparr> = D\<lparr>dc_rest := ''}''\<rparr>" using Cons.prems(4) by (cases D) simp
    show ?thesis using Cons.IH[of "fst m # seen" ?D q'] Cons.prems by (simp add: same)
  qed
  show ?case unfolding step ih by (simp add: rbind_def split: sum.splits)
qed

text \<open>An object of members is read as the fold of what they set.\<close>

lemma decode_members:
  assumes ms: "\<forall>m \<in> set ms. wf_member m" "distinct (map fst ms)"
    and s: "s = ''{'' @ (case ms of [] \<Rightarrow> [] | m # ms' \<Rightarrow> member_text m @ later_members ms') @ ''}''"
  shows "DecodeQuery s = rbind (rfold set_member ms no_query)
    (\<lambda>q. if Mode q = ModeNone then Inl CodeInvalidCombination else Inr q)"
proof -
  let ?body = "(case ms of [] \<Rightarrow> [] | m # ms' \<Rightarrow> member_text m @ later_members ms') @ ''}''"
  let ?D = "\<lparr>dc_rest = ?body, dc_state = ObjectStart, dc_stack = [TopValue]\<rparr>"
  have sp: "\<not> IsSpace (byte (CHR ''{''))" "\<not> IsSpace (byte (CHR ''}''))" "byte (CHR ''{'') < 128" "byte (CHR ''}'') < 128"
    by (simp_all add: IsSpace_def byte_def)
  have trim: "TrimSpace s = s" unfolding s using trim_plain(1)[OF sp(3,1,4,2)] by simp
  have tok: "Token (NewDecoder s) = Inr (TDelim (CHR ''{''), ?D)"
    unfolding s by (simp add: Token.simps NewDecoder_def value_allowed_def json_space_def byte_def)
  have "query_loop [] no_query ?D = rbind (rfold set_member ms no_query)
      (\<lambda>q. Inr (q, \<lparr>dc_rest = ''}'', dc_state = (if ms = [] then ObjectStart else ObjectComma), dc_stack = [TopValue]\<rparr>))"
  proof (cases ms)
    case Nil
    then show ?thesis using loop_end[of "[]" no_query ?D] by simp
  next
    case (Cons m ms')
    let ?r = "later_members ms' @ ''}''"
    have r: "hd ?r \<in> set '',}''" "?r \<noteq> []" by (cases ms'; simp add: later_members_def)+
    have "query_loop [] no_query ?D = rbind (set_member m no_query)
        (\<lambda>q'. query_loop [fst m] q' (?D\<lparr>dc_rest := ?r, dc_state := ObjectComma\<rparr>))"
      using loop_member[of m "[]" ?r ?D no_query] ms r Cons by simp
    moreover have "query_loop [fst m] q' (?D\<lparr>dc_rest := ?r, dc_state := ObjectComma\<rparr>) =
        rbind (rfold set_member ms' q') (\<lambda>q'. Inr (q', (?D\<lparr>dc_rest := ?r, dc_state := ObjectComma\<rparr>)\<lparr>dc_rest := ''}''\<rparr>))" for q'
      using loop_later[of ms' "[fst m]" "?D\<lparr>dc_rest := ?r, dc_state := ObjectComma\<rparr>" q'] ms Cons by simp
    ultimately show ?thesis using Cons by (simp add: rbind_def split: sum.splits)
  qed
  moreover have "Token \<lparr>dc_rest = ''}'', dc_state = (if ms = [] then ObjectStart else ObjectComma), dc_stack = [TopValue]\<rparr> =
      Inr (TDelim (CHR ''}''), \<lparr>dc_rest = [], dc_state = TopValue, dc_stack = []\<rparr>)"
    by (simp add: Token.simps json_space_def byte_def value_end_def)
  moreover have "consumeEOF \<lparr>dc_rest = [], dc_state = TopValue, dc_stack = []\<rparr> = Inr ()"
    by (simp add: consumeEOF_def Token.simps)
  moreover have "s \<noteq> []" "s \<noteq> ''null''" "hd s = CHR ''{''" unfolding s by simp_all
  ultimately show ?thesis
    unfolding DecodeQuery_def Let_def trim tok
    by (cases "rfold set_member ms no_query") (simp_all add: malformed_def)
qed

section \<open>Queries that are accepted\<close>

definition fields_ok :: "query \<Rightarrow> bool" where
  "fields_ok q \<longleftrightarrow>
     (\<forall>a. q_Alias q = Some a \<longrightarrow> ValidateTokenAlias a = Inr ()) \<and>
     (\<forall>d. q_Domain q = Some d \<longrightarrow> ValidateTokenDomain d = Inr ()) \<and>
     (\<forall>n. q_Limit q = Some n \<longrightarrow> 0 < n \<and> n \<le> MaxLimit)"

definition query_ok :: "query \<Rightarrow> bool" where
  "query_ok q \<longleftrightarrow> fields_ok q \<and> (q_Alias q = None \<or> q_Domain q = None)"

lemma mode_ok: "Mode q = ModeNone \<longleftrightarrow> q_Alias q \<noteq> None \<and> q_Domain q \<noteq> None"
  by (simp add: Mode_def Let_def)

lemma decoded_limit: "decodeJSONLimit v = Inr n \<Longrightarrow> 0 < n \<and> n \<le> MaxLimit"
proof -
  assume "decodeJSONLimit v = Inr n"
  then obtain m where m: "decode_integer v = Inr m" "0 < m" "m \<le> 500" "n = of_int m"
    by (auto simp: decodeJSONLimit_def step_simps MaxLimit_def split: if_splits)
  then have "uint n = m" by (simp add: uint_word_of_int_eq take_bit_int_eq_self_iff)
  then show "0 < n \<and> n \<le> MaxLimit" using m by (simp add: word_le_def word_less_def MaxLimit_def)
qed

lemma set_query_ok: "set_query k v q = Inr q' \<Longrightarrow> fields_ok q \<Longrightarrow> fields_ok q'"
  using alias_normal_iff(1) domain_normal_iff(1) decoded_limit
  by (auto simp: set_query_def fields_ok_def step_simps split: if_splits)

lemma loop_ok: "query_loop seen q D = Inr (q', D') \<Longrightarrow> fields_ok q \<Longrightarrow> fields_ok q'"
proof (induction seen q D arbitrary: q' D' rule: query_loop.induct)
  case (1 seen q D)
  from 1(2) show ?case
    using 1(1) 1(3) set_query_ok
    by (subst (asm) query_loop.simps) (auto split: if_splits sum.splits prod.splits jtoken.splits)
qed

lemma decoded_ok: "DecodeQuery raw = Inr q \<Longrightarrow> query_ok q"
proof -
  assume "DecodeQuery raw = Inr q"
  then obtain D D' where "query_loop [] no_query D = Inr (q, D')" "Mode q \<noteq> ModeNone"
    by (auto simp: DecodeQuery_def Let_def step_simps split: if_splits)
  moreover have "fields_ok no_query" by (simp add: fields_ok_def no_query_def)
  ultimately show "query_ok q" using loop_ok[of "[]" no_query D q D'] by (auto simp: query_ok_def mode_ok)
qed

lemma set_alias:
  assumes "ValidateTokenAlias a = Inr ()"
  shows "set_member (''alias'', quoted a) q = Inr (q\<lparr>q_Alias := Some a\<rparr>)" "wf_member (''alias'', quoted a)"
proof -
  have a: "aliasGrammar a = Inr ()" "list_all token_char a" using assms alias_normal_iff(2) alias_token by blast+
  then have "NormalizeAliasQuery a = Inr a"
    using token_text[OF a(2) grammar_not_Nil(1)[OF a(1)]] by (simp add: NormalizeAliasQuery_def)
  moreover have "TrimSpace (quoted a) \<noteq> ''null''" using trim_plain(1)[of "CHR 0x22" "CHR 0x22" a]
    by (simp add: quoted_def IsSpace_def byte_def)
  ultimately show "set_member (''alias'', quoted a) q = Inr (q\<lparr>q_Alias := Some a\<rparr>)"
    by (simp add: set_member_def set_query_def decode_quoted[OF a(2)])
  show "wf_member (''alias'', quoted a)" using scans_quoted[OF a(2)]
    by (simp add: wf_member_def token_char_def is_lower_def byte_def)
qed

lemma set_domain:
  assumes "ValidateTokenDomain a = Inr ()"
  shows "set_member (''domain'', quoted a) q = Inr (q\<lparr>q_Domain := Some a\<rparr>)" "wf_member (''domain'', quoted a)"
proof -
  have a: "domainGrammar a = Inr ()" "list_all token_char a" using assms domain_normal_iff(2) domain_token by blast+
  then have "NormalizeDomainQuery a = Inr a"
    using token_text[OF a(2) grammar_not_Nil(2)[OF a(1)]] by (simp add: NormalizeDomainQuery_def)
  moreover have "TrimSpace (quoted a) \<noteq> ''null''" using trim_plain(1)[of "CHR 0x22" "CHR 0x22" a]
    by (simp add: quoted_def IsSpace_def byte_def)
  ultimately show "set_member (''domain'', quoted a) q = Inr (q\<lparr>q_Domain := Some a\<rparr>)"
    by (simp add: set_member_def set_query_def decode_quoted[OF a(2)])
  show "wf_member (''domain'', quoted a)" using scans_quoted[OF a(2)]
    by (simp add: wf_member_def token_char_def is_lower_def byte_def)
qed

lemma trim_decimal: "TrimSpace (decimal n) \<noteq> ''null''"
proof -
  have d: "48 \<le> byte c \<and> byte c \<le> 57" if "c \<in> set (decimal n)" for c
    using decimal_digits[of n] that by (auto simp: list_all_iff is_digit_def byte_def)
  then have sp: "byte c < 128 \<and> \<not> IsSpace (byte c)" if "c \<in> set (decimal n)" for c
    using that by (fastforce simp: IsSpace_def)
  obtain c s where c: "decimal n = c # s" using decimal_not_Nil[of n] by (cases "decimal n") auto
  have "TrimSpace (c # s) = c # s"
  proof (cases s rule: rev_cases)
    case Nil
    then show ?thesis using trim_plain(2)[of c c] sp c by simp
  next
    case (snoc t e)
    then show ?thesis using trim_plain(1)[of c e t] sp c by simp
  qed
  moreover have "c \<noteq> CHR ''n''" using d[of c] c by (auto simp: byte_def)
  ultimately show ?thesis using c by simp
qed

lemma set_limit:
  assumes "0 < n" "n \<le> MaxLimit"
  shows "set_member (''limit'', decimal (unat n)) q = Inr (q\<lparr>q_Limit := Some n\<rparr>)" "wf_member (''limit'', decimal m)"
  using trim_decimal decode_limit[OF assms] scans_decimal
  by (simp_all add: set_member_def set_query_def wf_member_def token_char_def is_lower_def byte_def)

lemma set_skip:
  "set_member (''skip'', decimal (unat n)) q = Inr (q\<lparr>q_Skip := Some n\<rparr>)" "wf_member (''skip'', decimal m)"
  using trim_decimal decode_skip scans_decimal
  by (simp_all add: set_member_def set_query_def wf_member_def token_char_def is_lower_def byte_def)

lemma print_decode:
  assumes "query_ok q"
  shows "DecodeQuery (print_query q) = Inr q"
proof -
  have wf: "\<forall>m \<in> set (query_members q). wf_member m" "distinct (map fst (query_members q))"
    using assms set_alias(2) set_domain(2) set_limit(2)[of 1] set_skip(2)
    by (auto simp: query_members_def query_ok_def fields_ok_def MaxLimit_def split: option.splits)
  have "rfold set_member (query_members q) no_query = Inr q"
    using assms set_alias(1) set_domain(1) set_limit(1) set_skip(1)
    by (cases q) (auto simp: query_members_def query_ok_def fields_ok_def no_query_def split: option.splits)
  moreover have "Mode q \<noteq> ModeNone" using assms by (auto simp: mode_ok query_ok_def)
  ultimately show ?thesis using decode_members[OF wf, of "print_query q"] by (simp add: print_query_def)
qed

section \<open>Signatures\<close>

text \<open>The shortest bytes of a number whose first bit is clear, the integer of it and the sequence of two integers in DER.\<close>

definition int_bytes :: "nat \<Rightarrow> bytes" where
  "int_bytes n = be_bytes (floorlog 2 n div 8 + 1) n"

definition der_int :: "bytes \<Rightarrow> bytes" where
  "der_int b = [CHR 0x02, char_of (length b)] @ b"

definition der_signature :: "nat \<Rightarrow> nat \<Rightarrow> bytes" where
  "der_signature r s =
     (let b = der_int (int_bytes r) @ der_int (int_bytes s) in [CHR 0x30, char_of (length b)] @ b)"

definition minimal :: "bytes \<Rightarrow> bool" where
  "minimal b \<longleftrightarrow> b \<noteq> [] \<and> \<not> high_bit (hd b) \<and> (1 < length b \<longrightarrow> byte (hd b) \<noteq> 0 \<or> high_bit (b ! 1))"

lemma be_nat_Cons: "be_nat (c # s) = byte c * 256 ^ length s + be_nat s"
  by (simp add: byte_def)

lemma first_byte:
  "2 ^ k * 256 ^ length s \<le> be_nat (c # s) \<longleftrightarrow> 2 ^ k \<le> byte c"
proof
  assume "2 ^ k * 256 ^ length s \<le> be_nat (c # s)"
  then have "2 ^ k * 256 ^ length s < (byte c + 1) * 256 ^ length s"
    using be_nat_bound[of s] by (simp add: be_nat_Cons algebra_simps del: be_nat.simps)
  then have "2 ^ k < byte c + 1" by (simp only: mult_less_cancel2)
  then show "2 ^ k \<le> byte c" by simp
next
  assume "2 ^ k \<le> byte c"
  then have "2 ^ k * 256 ^ length s \<le> byte c * 256 ^ length s" by (rule mult_le_mono1)
  then show "2 ^ k * 256 ^ length s \<le> be_nat (c # s)" unfolding be_nat_Cons by (rule trans_le_add1)
qed

lemma minimal_bounds:
  "minimal b \<longleftrightarrow> b \<noteq> [] \<and> be_nat b < 2 ^ (8 * length b - 1) \<and> (1 < length b \<longrightarrow> 2 ^ (8 * (length b - 1) - 1) \<le> be_nat b)"
proof (cases b)
  case (Cons c s)
  have p: "(2 :: nat) ^ (8 * length (c # s) - 1) = 2 ^ 7 * 256 ^ length s"
    by (simp add: power_add power_mult)
  have hi: "high_bit c \<longleftrightarrow> \<not> be_nat b < 2 ^ (8 * length b - 1)"
    unfolding Cons p using first_byte[of 7 s c] by (auto simp: high_bit_def)
  have "2 ^ (8 * (length b - 1) - 1) \<le> be_nat b \<longleftrightarrow> byte c \<noteq> 0 \<or> high_bit d" if s: "s = d # t" for d t
  proof -
    have q: "(2 :: nat) ^ (8 * length s - 1) = 2 ^ 7 * 256 ^ length t" by (simp add: s power_add power_mult)
    show ?thesis
    proof (cases "byte c = 0")
      case True
      then show ?thesis using first_byte[of 7 t d] Cons q by (simp add: s be_nat_Cons high_bit_def del: be_nat.simps)
    next
      case False
      then have "1 * 256 ^ length s \<le> be_nat b" using first_byte[of 0 s c] Cons by simp
      moreover have "(2 :: nat) ^ 7 * 256 ^ length t \<le> 256 ^ length s" by (simp add: s)
      ultimately show ?thesis using False Cons q by simp
    qed
  qed
  then show ?thesis using hi Cons by (cases s) (auto simp: minimal_def)
qed (simp add: minimal_def)

lemma minimal_iff: "minimal b \<longleftrightarrow> b = int_bytes (be_nat b)"
proof
  assume m: "minimal b"
  let ?n = "be_nat b"
  have b: "b \<noteq> []" "?n < 2 ^ (8 * length b - 1)" "1 < length b \<Longrightarrow> 2 ^ (8 * (length b - 1) - 1) \<le> ?n"
    using m minimal_bounds by blast+
  have "floorlog 2 ?n \<le> 8 * length b - 1" using b(2) by (simp add: floorlog_leI)
  moreover have "8 * (length b - 1) \<le> floorlog 2 ?n"
  proof (cases "1 < length b")
    case True
    then show ?thesis using b(3) by (intro floorlog_geI) simp_all
  qed simp
  moreover have "0 < length b" using b(1) by simp
  ultimately have "floorlog 2 ?n div 8 + 1 = length b" by (intro le_antisym) linarith+
  then show "b = int_bytes ?n" by (simp add: int_bytes_def be_bytes_be_nat)
next
  assume b: "b = int_bytes (be_nat b)"
  let ?n = "be_nat b" and ?l = "floorlog 2 (be_nat b)"
  have len: "length b = ?l div 8 + 1" using b by (metis int_bytes_def length_be_bytes)
  have "?n < 2 ^ ?l" using floorlog_bounds[of ?n 2] by (cases "?n = 0") simp_all
  also have "(2 :: nat) ^ ?l \<le> 2 ^ (8 * length b - 1)" using len by (intro power_increasing) linarith+
  finally have up: "?n < 2 ^ (8 * length b - 1)" .
  have "2 ^ (8 * (length b - 1) - 1) \<le> ?n" if "1 < length b"
  proof -
    have l: "8 * (length b - 1) \<le> ?l" "0 < ?l" using len that by linarith+
    then have "0 < ?n" by (cases "?n = 0") (simp_all add: floorlog_def)
    then have "2 ^ (?l - 1) \<le> ?n" using floorlog_bounds[of ?n 2] by simp
    moreover have "(2 :: nat) ^ (8 * (length b - 1) - 1) \<le> 2 ^ (?l - 1)" using l by (intro power_increasing) linarith+
    ultimately show ?thesis by linarith
  qed
  moreover have "b \<noteq> []" using len by auto
  ultimately show "minimal b" using up minimal_bounds by blast
qed

lemma parse_der:
  "parseDERInt b = Inr (v, r) \<longleftrightarrow> minimal v \<and> length v \<le> 33 \<and> b = der_int v @ r"
proof (cases b)
  case (Cons c b')
  show ?thesis
  proof (cases b')
    case c2: (Cons d s)
    let ?n = "byte d"
    have split: "s = take ?n s @ drop ?n s" by simp
    have d: "d = char_of (length v) \<longleftrightarrow> ?n = length v" if "length v \<le> 33"
    proof
      show "d = char_of (length v) \<Longrightarrow> ?n = length v" using that by (simp add: byte_def)
      show "?n = length v \<Longrightarrow> d = char_of (length v)" by (metis byte_def char_of_char)
    qed
    show ?thesis
    proof
      assume "parseDERInt b = Inr (v, r)"
      then have h: "c = CHR 0x02" "?n \<noteq> 0" "?n \<le> 33" "?n \<le> length s" "v = take ?n s" "r = drop ?n s"
        "\<not> high_bit (v ! 0)" "1 < ?n \<longrightarrow> byte (v ! 0) \<noteq> 0 \<or> high_bit (v ! 1)"
        unfolding Cons c2 by (auto simp: parseDERInt_def Let_def split: if_splits)
      then have "length v = ?n" by simp
      moreover from this h have "v \<noteq> []" by auto
      ultimately show "minimal v \<and> length v \<le> 33 \<and> b = der_int v @ r"
        using h d Cons c2 by (simp add: minimal_def der_int_def hd_conv_nth)
    next
      assume h: "minimal v \<and> length v \<le> 33 \<and> b = der_int v @ r"
      then have "c = CHR 0x02" "?n = length v" "s = v @ r" using Cons c2 d by (simp_all add: der_int_def)
      then show "parseDERInt b = Inr (v, r)"
        using h Cons c2 by (auto simp: parseDERInt_def Let_def minimal_def hd_conv_nth)
    qed
  qed (auto simp: Cons parseDERInt_def der_int_def)
qed (auto simp: parseDERInt_def der_int_def)

lemma der_accepted:
  "ValidateDERSignature sig = Inr () \<longleftrightarrow>
    (\<exists>r s. sig = der_signature r s \<and> r < 2 ^ 263 \<and> s < 2 ^ 263 \<and> 8 \<le> length sig \<and> length sig \<le> 72)"
  (is "?A \<longleftrightarrow> ?B")
proof
  assume ?A
  then obtain r rest s where h: "8 \<le> length sig" "length sig \<le> 72" "hd sig = CHR 0x30" "byte (sig ! 1) = length sig - 2"
      "minimal r" "length r \<le> 33" "drop 2 sig = der_int r @ rest" "minimal s" "length s \<le> 33" "rest = der_int s"
    by (auto simp: ValidateDERSignature_def step_simps parse_der split: if_splits)
  obtain c d t where sig: "sig = c # d # t" using h(1) by (cases sig rule: list.exhaust; cases "tl sig") auto
  have t: "t = der_int r @ der_int s" "length t \<le> 70" using h sig by simp_all
  have "d = char_of (length t)" using h(4) sig by (simp add: byte_def) (metis char_of_char)
  moreover have "r = int_bytes (be_nat r)" "s = int_bytes (be_nat s)" using h(5,8) minimal_iff by blast+
  ultimately have e: "sig = der_signature (be_nat r) (be_nat s)"
    using sig t(1) h(3) by (simp add: der_signature_def Let_def)
  have "be_nat v < 2 ^ 263" if v: "minimal v" "length v \<le> 33" for v
  proof -
    have "be_nat v < 2 ^ (8 * length v - 1)" using v(1) minimal_bounds by blast
    also have "(2 :: nat) ^ (8 * length v - 1) \<le> 2 ^ 263" using v(2) by (intro power_increasing) simp_all
    finally show ?thesis .
  qed
  then show ?B using e h by blast
next
  assume ?B
  then obtain r s where h: "sig = der_signature r s" "r < 2 ^ 263" "s < 2 ^ 263" "8 \<le> length sig" "length sig \<le> 72" by blast
  have m: "minimal (int_bytes n) \<and> length (int_bytes n) \<le> 33" if "n < 2 ^ 263" for n
  proof -
    have f: "floorlog 2 n \<le> 263" using that by (simp add: floorlog_leI)
    have "n < 2 ^ (8 * (floorlog 2 n div 8 + 1))"
    proof -
      have "n < 2 ^ floorlog 2 n" using floorlog_bounds[of n 2] by (cases "n = 0") simp_all
      also have "(2 :: nat) ^ floorlog 2 n \<le> 2 ^ (8 * (floorlog 2 n div 8 + 1))" by (rule power_increasing) simp_all
      finally show ?thesis .
    qed
    also have "(2 :: nat) ^ (8 * (floorlog 2 n div 8 + 1)) = 256 ^ (floorlog 2 n div 8 + 1)" by (simp only: power_mult) simp
    finally have "be_nat (int_bytes n) = n" unfolding int_bytes_def be_nat_be_bytes by (rule mod_less)
    then show ?thesis using minimal_iff[of "int_bytes n"] f by (simp add: int_bytes_def)
  qed
  let ?t = "der_int (int_bytes r) @ der_int (int_bytes s)"
  have sig: "sig = CHR 0x30 # char_of (length ?t) # ?t" using h(1) by (simp add: der_signature_def Let_def)
  have "parseDERInt ?t = Inr (int_bytes r, der_int (int_bytes s))" "parseDERInt (der_int (int_bytes s)) = Inr (int_bytes s, [])"
    using m[OF h(2)] m[OF h(3)] parse_der by simp_all
  moreover have "int_bytes r \<noteq> []" "int_bytes s \<noteq> []" using m[OF h(2)] m[OF h(3)] by (simp_all add: minimal_def)
  moreover have "byte (char_of (length ?t)) = length ?t" using h(5) sig by (simp add: byte_def)
  ultimately show ?A using h(4,5) sig by (simp add: ValidateDERSignature_def)
qed

end
