(* ===== verification/AliasService.thy ===== *)
theory AliasService
  imports AliasQuery TopicBase TopicStore
begin

text \<open>
  \<open>pkg/ecosystemalias/decode.go\<close>, \<open>topic.go\<close> and \<open>lookup.go\<close>: decoding a claim from a locking script,
  the topic that admits claims and the lookup service over a topic's storage.
\<close>

section \<open>Decoding an output\<close>

text \<open>The chunks of a script and the transaction of an atomic BEEF are the library's.\<close>

record alias_output =
  ao_LockingScript :: "bytes option"
  ao_Satoshis :: "64 word"

record alias_tx =
  at_Outputs :: "alias_output option list"
  at_MerklePath :: "merkle_path option"

record 'sig alias_lib = "'sig curve_lib" +
  al_Chunks :: "bytes \<Rightarrow> chunk list option"
  al_NewBeefFromAtomicBytes :: "bytes \<Rightarrow> (txid \<times> (txid \<Rightarrow> alias_tx option)) option"

definition OpCHECKSIG :: nat where "OpCHECKSIG = 0xac"
definition OpDROP :: nat where "OpDROP = 0x75"
definition Op2DROP :: nat where "Op2DROP = 0x6d"
definition Op1NEGATE :: nat where "Op1NEGATE = 0x4f"
definition Op1 :: nat where "Op1 = 0x51"
definition Op16 :: nat where "Op16 = 0x60"

lemmas alias_opcodes = OpCHECKSIG_def OpDROP_def Op2DROP_def Op1NEGATE_def Op1_def Op16_def OP_PUSHDATA4_def

definition pushOperand :: "chunk \<Rightarrow> bytes option" where
  "pushOperand c =
     (if ck_op c = 0 then Some []
      else if ck_op c = Op1NEGATE then Some [CHR 0x81]
      else if Op1 \<le> ck_op c \<and> ck_op c \<le> Op16 then Some [char_of (ck_op c - (Op1 - 1))]
      else if 1 \<le> ck_op c \<and> ck_op c \<le> OP_PUSHDATA4 then Some (ck_data c)
      else None)"

text \<open>
  The drops before the owner key, counted from the last one: how many operands they drop and how
  many chunks stand before them. The chunks come in reverse order.
\<close>

fun drop_loop :: "nat \<Rightarrow> chunk list \<Rightarrow> nat \<times> nat" where
  "drop_loop dropped [] = (dropped, 0)"
| "drop_loop dropped (c # cs) =
     (if ck_op c = OpDROP then drop_loop (dropped + 1) cs
      else if ck_op c = Op2DROP then drop_loop (dropped + 2) cs
      else (dropped, length (c # cs)))"

fun push_fields :: "chunk list \<Rightarrow> alias_code + bytes list" where
  "push_fields [] = Inr []"
| "push_fields (c # cs) =
     (case pushOperand c of None \<Rightarrow> Inl CodeInvalidScript | Some f \<Rightarrow> rbind (push_fields cs) (\<lambda>fs. Inr (f # fs)))"

definition check_owner :: "('sig, 'z) alias_lib_scheme \<Rightarrow> chunk \<Rightarrow> alias_code + unit" where
  "check_owner L c =
     (case pushOperand c of
        None \<Rightarrow> Inl CodeInvalidScript
      | Some k \<Rightarrow>
          if length k \<noteq> CertifierKeyLen then Inl CodeInvalidScript
          else if hd k \<noteq> CHR 0x02 \<and> hd k \<noteq> CHR 0x03 then Inl CodeInvalidScript
          else if cv_P L \<le> be_nat (tl k) then Inl CodeInvalidScript
          else if \<not> cv_ParsePubKey L k then Inl CodeInvalidScript
          else Inr ())"

definition decodeLockAfter :: "'sig alias_lib \<Rightarrow> bytes option \<Rightarrow> alias_code + bytes list" where
  "decodeLockAfter L script =
     (case script of
        None \<Rightarrow> Inl CodeInvalidScript
      | Some s \<Rightarrow>
          (case al_Chunks L s of
             None \<Rightarrow> Inl CodeInvalidScript
           | Some cs \<Rightarrow>
               if length cs < 2 \<or> ck_op (last cs) \<noteq> OpCHECKSIG then Inl CodeInvalidScript
               else rbind (check_owner L (cs ! (length cs - 2))) (\<lambda>_.
                 let (dropped, dropStart) = drop_loop 0 (rev (take (length cs - 2) cs)) in
                 if dropped \<noteq> FieldCount then Inl CodeInvalidScript
                 else if dropStart \<noteq> FieldCount then Inl CodeFieldCount
                 else push_fields (take dropStart cs))))"

definition verify_claim :: "'sig alias_lib \<Rightarrow> claim \<Rightarrow> alias_code + claim" where
  "verify_claim L c =
     (if \<not> cv_ParsePubKey L (cl_CertifierKey c) then Inl CodeInvalidCertifier
      else (case cv_FromDER L (cl_Signature c) of
              None \<Rightarrow> Inl CodeInvalidSignature
            | Some sig \<Rightarrow>
                if \<not> cv_Verify L sig (Digest L (cl_Alias c) (cl_Domain c) (cl_CertifierKey c)) (cl_CertifierKey c)
                then Inl CodeInvalidSignature else Inr c))"

definition alias_Decode :: "'sig alias_lib \<Rightarrow> bytes option \<Rightarrow> 64 word \<Rightarrow> alias_code + claim" where
  "alias_Decode L script satoshis =
     rbind (ValidateSats satoshis) (\<lambda>_.
       rbind (decodeLockAfter L script) (\<lambda>fs.
         rbind (ValidateTokenFields L fs) (verify_claim L)))"

section \<open>The topic\<close>

text \<open>The transaction is what \<open>FindTransactionForSigningByHash\<close> answers; without a BEEF or an id there is none.\<close>

definition admits :: "'sig alias_lib \<Rightarrow> alias_output option \<Rightarrow> bool" where
  "admits L out' =
     (case out' of
        None \<Rightarrow> False
      | Some out \<Rightarrow> (case alias_Decode L (ao_LockingScript out) (ao_Satoshis out) of Inl _ \<Rightarrow> False | Inr _ \<Rightarrow> True))"

fun admit_loop :: "'sig alias_lib \<Rightarrow> nat \<Rightarrow> alias_output option list \<Rightarrow> 32 word list \<Rightarrow> 32 word list" where
  "admit_loop L vout [] acc = acc"
| "admit_loop L vout (x # xs) acc = admit_loop L (Suc vout) xs (if admits L x then acc @ [of_nat vout] else acc)"

definition IdentifyAdmissibleOutputs :: "'sig alias_lib \<Rightarrow> (txid \<Rightarrow> alias_tx option) option \<Rightarrow> txid option \<Rightarrow> topic_err + admittance" where
  "IdentifyAdmissibleOutputs L beef txid' =
     (case (beef, txid') of
        (Some b, Some t) \<Rightarrow>
          (case b t of
             None \<Rightarrow> Inl InvalidBeef
           | Some tx \<Rightarrow> Inr (no_admittance\<lparr>OutputsToAdmit := admit_loop L 0 (at_Outputs tx) []\<rparr>))
      | _ \<Rightarrow> Inl InvalidBeef)"

definition IdentifyNeededInputs :: "bytes \<Rightarrow> txid \<Rightarrow> topic_err + outpoint list" where
  "IdentifyNeededInputs beef t = Inr []"

section \<open>The lookup service\<close>

datatype service_err = AliasError alias_code | StoreError err | ServiceError | ServicePanic

definition store_op :: "('w, err, 'a) sm \<Rightarrow> ('w, service_err, 'a) sm" where
  "store_op m = (\<lambda>w. case m w of (Inl e, w') \<Rightarrow> (Inl (StoreError e), w') | (Inr x, w') \<Rightarrow> (Inr x, w'))"

definition eventAll :: bytes where "eventAll = ''*''"
definition eventAliasPrefix :: bytes where "eventAliasPrefix = ''alias:''"
definition eventDomainPrefix :: bytes where "eventDomainPrefix = ''domain:''"

record admitted_output =
  pa_Topic :: bytes
  pa_AtomicBEEF :: bytes
  pa_OutputIndex :: "32 word"

definition alias_OutputAdmittedByTopic ::
  "'sig alias_lib \<Rightarrow> nat \<Rightarrow> 'w topic_ops option \<Rightarrow> admitted_output option \<Rightarrow> ('w, service_err, unit) sm" where
  "alias_OutputAdmittedByTopic L nano store payload =
     (case payload of
        None \<Rightarrow> sfail ServiceError
      | Some p \<Rightarrow>
          if pa_Topic p \<noteq> TopicName then sret ()
          else (case store of
            None \<Rightarrow> sfail ServiceError
          | Some T \<Rightarrow>
              (case al_NewBeefFromAtomicBytes L (pa_AtomicBEEF p) of
                 None \<Rightarrow> sfail ServiceError
               | Some (t, beef) \<Rightarrow>
                   (case beef t of
                      None \<Rightarrow> sfail ServiceError
                    | Some tx \<Rightarrow>
                        if length (at_Outputs tx) \<le> unat (pa_OutputIndex p) then sfail ServiceError
                        else (case at_Outputs tx ! unat (pa_OutputIndex p) of
                          None \<Rightarrow> sfail ServicePanic
                        | Some out \<Rightarrow>
                            (case alias_Decode L (ao_LockingScript out) (ao_Satoshis out) of
                               Inl c \<Rightarrow> sfail (AliasError c)
                             | Inr claim \<Rightarrow>
                                 let op = \<lparr>op_txid = t, op_index = pa_OutputIndex p\<rparr>;
                                     score = ScoreFromTx nano (at_MerklePath tx) t
                                 in sseq (store_op (ts_SaveEvent T (eventAliasPrefix @ cl_Alias claim) op score))
                                      (sseq (store_op (ts_SaveEvent T (eventDomainPrefix @ cl_Domain claim) op score))
                                        (store_op (ts_SaveEvent T eventAll op score)))))))))"

definition alias_OutputBlockHeightUpdated ::
  "nat \<Rightarrow> 'w topic_ops option \<Rightarrow> txid option \<Rightarrow> 32 word \<Rightarrow> 64 word \<Rightarrow> ('w, service_err, unit) sm" where
  "alias_OutputBlockHeightUpdated nano store txid' blockHeight blockIndex =
     (case store of
        None \<Rightarrow> sfail ServiceError
      | Some T \<Rightarrow>
          (case txid' of
             None \<Rightarrow> sfail ServiceError
           | Some t \<Rightarrow> store_op (ts_UpdateEventsForTxid T t (HeightScore nano blockHeight blockIndex))))"

text \<open>\<open>sort.SliceStable\<close>: each element goes behind those that it is not less than.\<close>

fun insert_stable :: "('a \<Rightarrow> 'a \<Rightarrow> bool) \<Rightarrow> 'a \<Rightarrow> 'a list \<Rightarrow> 'a list" where
  "insert_stable lt x [] = [x]"
| "insert_stable lt x (y # ys) = (if lt x y then x # y # ys else y # insert_stable lt x ys)"

definition sort_stable :: "('a \<Rightarrow> 'a \<Rightarrow> bool) \<Rightarrow> 'a list \<Rightarrow> 'a list" where
  "sort_stable lt xs = fold (insert_stable lt) xs []"

definition placed :: "output_record \<Rightarrow> placement" where
  "placed r = \<lparr>pl_Score = or_Score r, pl_Vout = op_index (or_Outpoint r)\<rparr>"

text \<open>The page of the records found: unspent ones, in order, from the skip on and up to the limit.\<close>

definition lookup_page :: "query \<Rightarrow> output_record list \<Rightarrow> outpoint list" where
  "lookup_page q recs =
     (let unspent = filter (\<lambda>r. or_SpendTxid r = None) recs;
          ordered = sort_stable (\<lambda>a b. CompareLookup (placed a) (placed b) < 0) unspent;
          rest = (if length ordered \<le> unat (PageSkip q) then [] else drop (unat (PageSkip q)) ordered)
      in map or_Outpoint (if unat (PageLimit q) < length rest then take (unat (PageLimit q)) rest else rest))"

record lookup_question =
  lq_Service :: bytes
  lq_Query :: bytes

definition alias_Lookup :: "'w topic_ops option \<Rightarrow> lookup_question option \<Rightarrow> ('w, service_err, outpoint list) sm" where
  "alias_Lookup store question =
     (case question of
        None \<Rightarrow> sfail ServiceError
      | Some Q \<Rightarrow>
          if lq_Service Q \<noteq> LookupName then sfail ServiceError
          else (case store of
            None \<Rightarrow> sfail ServiceError
          | Some T \<Rightarrow>
              (case DecodeQuery (lq_Query Q) of
                 Inl c \<Rightarrow> sfail (AliasError c)
               | Inr q \<Rightarrow>
                   sbind
                     (case Mode q of
                        ModeAlias \<Rightarrow> store_op (ts_FindByEvent T (eventAliasPrefix @ the (q_Alias q)) None)
                      | ModeDomain \<Rightarrow> store_op (ts_FindByEvent T (eventDomainPrefix @ the (q_Domain q)) None)
                      | ModeAll \<Rightarrow> store_op (ts_FindByEvent T eventAll None)
                      | ModeNone \<Rightarrow> sfail (AliasError CodeInvalidCombination))
                     (\<lambda>recs. sret (lookup_page q recs)))))"

end
