(* ===== verification/AliasProps.thy ===== *)
theory AliasProps
  imports AliasLaws AliasService OverlayProps
begin

text \<open>
  The properties of the alias registry: queries, signatures, the topic with its lookup service over any topic storage that keeps
  the contract, and their witnesses over the SQLite storage.
\<close>

section \<open>Sorting\<close>

lemma insert_stable_set: "mset (insert_stable lt x xs) = add_mset x (mset xs)"
  by (induction xs) auto

lemma sort_stable_mset: "mset (sort_stable lt xs) = mset xs"
proof -
  have "mset (fold (insert_stable lt) xs ys) = mset xs + mset ys" for ys
    by (induction xs arbitrary: ys) (auto simp: insert_stable_set)
  then show ?thesis by (simp add: sort_stable_def)
qed

text \<open>Sorting by an order that compares keys gives a list in the order of the keys.\<close>

lemma insert_stable_sorted:
  assumes lt: "\<And>a b. a \<in> insert x (set xs) \<Longrightarrow> b \<in> insert x (set xs) \<Longrightarrow> lt a b \<longleftrightarrow> R a b \<and> \<not> R b a"
    and tot: "\<And>a b. a \<in> insert x (set xs) \<Longrightarrow> b \<in> insert x (set xs) \<Longrightarrow> R a b \<or> R b a"
    and tr: "\<And>a b c. R a b \<Longrightarrow> R b c \<Longrightarrow> R a c" and s: "sorted_wrt R xs"
  shows "sorted_wrt R (insert_stable lt x xs)"
  using lt tot s
proof (induction xs)
  case (Cons y ys)
  have mem: "set (insert_stable lt x ys) = insert x (set ys)" using insert_stable_set[of lt x ys] by (metis set_mset_add_mset_insert set_mset_mset)
  show ?case
  proof (cases "lt x y")
    case True
    then have "R x y" using Cons.prems(1)[of x y] by simp
    then show ?thesis using True Cons.prems(3) tr by auto
  next
    case False
    then have "R y x" using Cons.prems(1)[of x y] Cons.prems(2)[of x y] by auto
    moreover have "sorted_wrt R (insert_stable lt x ys)" using Cons.prems by (intro Cons.IH) auto
    ultimately show ?thesis using False Cons.prems(3) mem by auto
  qed
qed simp

lemma sort_stable_sorted:
  assumes lt: "\<And>a b. a \<in> set xs \<Longrightarrow> b \<in> set xs \<Longrightarrow> lt a b \<longleftrightarrow> R a b \<and> \<not> R b a"
    and tot: "\<And>a b. a \<in> set xs \<Longrightarrow> b \<in> set xs \<Longrightarrow> R a b \<or> R b a"
    and tr: "\<And>a b c. R a b \<Longrightarrow> R b c \<Longrightarrow> R a c"
  shows "sorted_wrt R (sort_stable lt xs)"
proof -
  have "sorted_wrt R (fold (insert_stable lt) zs ys)"
    if "set zs \<union> set ys \<subseteq> set xs" "sorted_wrt R ys" for zs ys
    using that
  proof (induction zs arbitrary: ys)
    case (Cons z zs)
    have "set (insert_stable lt z ys) = insert z (set ys)" using insert_stable_set[of lt z ys] by (metis set_mset_add_mset_insert set_mset_mset)
    moreover have "sorted_wrt R (insert_stable lt z ys)"
    proof (rule insert_stable_sorted)
      show "lt a b \<longleftrightarrow> R a b \<and> \<not> R b a" if "a \<in> insert z (set ys)" "b \<in> insert z (set ys)" for a b
        using lt[of a b] that Cons.prems(1) by auto
      show "R a b \<or> R b a" if "a \<in> insert z (set ys)" "b \<in> insert z (set ys)" for a b
        using tot[of a b] that Cons.prems(1) by auto
      show "sorted_wrt R ys" by (fact Cons.prems(2))
    qed (fact tr)
    ultimately show ?case using Cons by simp
  qed simp
  then show ?thesis by (simp add: sort_stable_def)
qed

definition in_order :: "output_record \<Rightarrow> output_record \<Rightarrow> bool" where
  "in_order a b \<longleftrightarrow> f64_ord (or_Score a) < f64_ord (or_Score b) \<or>
     f64_ord (or_Score a) = f64_ord (or_Score b) \<and> op_index (or_Outpoint a) \<le> op_index (or_Outpoint b)"

lemma compare_less:
  assumes "\<not> f64_nan (or_Score a)" "\<not> f64_nan (or_Score b)"
  shows "CompareLookup (placed a) (placed b) < 0 \<longleftrightarrow> in_order a b \<and> \<not> in_order b a"
  using assms by (auto simp: CompareLookup_def placed_def in_order_def f64_lt_def)

section \<open>The lookup service\<close>

definition query_event :: "query \<Rightarrow> bytes" where
  "query_event q =
     (case Mode q of ModeAlias \<Rightarrow> eventAliasPrefix @ the (q_Alias q) | ModeDomain \<Rightarrow> eventDomainPrefix @ the (q_Domain q)
      | _ \<Rightarrow> eventAll)"

definition listed_claims :: "bytes \<Rightarrow> topic_view \<Rightarrow> output_record set" where
  "listed_claims e v =
     {r\<lparr>or_Score := sc\<rparr> | r op sc. tv_outs v op = Some r \<and> or_SpendTxid r = None \<and> tv_events v e op = Some sc}"

lemma page_of_listed:
  assumes "listed no_opts S recs" and "\<forall>r \<in> S. \<not> f64_nan (or_Score r)"
  shows "\<exists>ys. distinct (map or_Outpoint ys) \<and> set ys = {r \<in> S. or_SpendTxid r = None} \<and> sorted_wrt in_order ys \<and>
    lookup_page q recs = take (unat (PageLimit q)) (drop (unat (PageSkip q)) (map or_Outpoint ys))"
proof -
  have recs: "distinct (map or_Outpoint recs)" "set recs = S" using assms(1) by (auto simp: listed_def limited_def no_opts_def)
  let ?u = "filter (\<lambda>r. or_SpendTxid r = None) recs" and ?lt = "\<lambda>a b. CompareLookup (placed a) (placed b) < 0"
  let ?ys = "sort_stable ?lt ?u"
  have m: "mset ?ys = mset ?u" by (rule sort_stable_mset)
  have "set ?ys = set ?u" using m by (rule mset_eq_setD)
  then have set: "set ?ys = {r \<in> S. or_SpendTxid r = None}" by (simp only: set_filter recs(2))
  have "mset (map or_Outpoint ?ys) = mset (map or_Outpoint ?u)" using m by simp
  then have d: "distinct (map or_Outpoint ?ys)" using distinct_map_filter[OF recs(1)] mset_eq_imp_distinct_iff by blast
  have "sorted_wrt in_order ?ys"
  proof (rule sort_stable_sorted)
    show "?lt a b \<longleftrightarrow> in_order a b \<and> \<not> in_order b a" if "a \<in> set ?u" "b \<in> set ?u" for a b
      using that assms(2) recs(2) by (intro compare_less) auto
    show "in_order a b \<or> in_order b a" for a b by (auto simp: in_order_def)
    show "in_order a c" if "in_order a b" "in_order b c" for a b c using that by (auto simp: in_order_def)
  qed
  then show ?thesis using set d
    by (intro exI[of _ ?ys]) (simp add: lookup_page_def Let_def take_map drop_map)
qed

context topic_storage
begin

lemma find_claims:
  assumes "ok w" "text_ok e" "ts_FindByEvent T e None w = (Inr recs, w')"
  shows "listed no_opts (view_event e no_opts (views w t)) recs \<and> ok w' \<and> views w' = views w"
  using FindByEvent[OF assms(2), of None] assms(1,3) unfolding answers_def opts_of_def by fastforce

lemma lookup_exact:
  assumes w: "ok w" and run: "alias_Lookup (Some T) (Some \<lparr>lq_Service = LookupName, lq_Query = raw\<rparr>) w = (Inr ops, w')"
    and q: "DecodeQuery raw = Inr q" and key: "text_ok (query_event q)"
    and scores: "\<forall>op sc. tv_events (views w t) (query_event q) op = Some sc \<longrightarrow> \<not> f64_nan sc"
  shows "\<exists>ys. distinct (map or_Outpoint ys) \<and> set ys = listed_claims (query_event q) (views w t) \<and> sorted_wrt in_order ys \<and>
    ops = take (unat (PageLimit q)) (drop (unat (PageSkip q)) (map or_Outpoint ys)) \<and> views w' = views w"
proof -
  have "Mode q \<noteq> ModeNone" using decoded_ok[OF q] by (auto simp: query_ok_def mode_ok)
  then obtain recs where r: "ts_FindByEvent T (query_event q) None w = (Inr recs, w')" "ops = lookup_page q recs"
    using run q by (cases "Mode q") (auto simp: alias_Lookup_def query_event_def step_simps store_op_def split: prod.splits sum.splits)
  note f = find_claims[OF w key r(1)]
  have z: "since_ok no_opts sc" for sc by (simp add: since_ok_def no_opts_def)
  let ?S = "view_event (query_event q) no_opts (views w t)"
  have "\<forall>x \<in> ?S. \<not> f64_nan (or_Score x)" using scores by (auto simp: view_event_def)
  moreover have "{x \<in> ?S. or_SpendTxid x = None} = listed_claims (query_event q) (views w t)"
  proof (intro set_eqI iffI)
    fix x
    assume "x \<in> {x \<in> ?S. or_SpendTxid x = None}"
    then obtain r op sc where "x = r\<lparr>or_Score := sc\<rparr>" "tv_outs (views w t) op = Some r"
        "tv_events (views w t) (query_event q) op = Some sc" "or_SpendTxid x = None" by (auto simp: view_event_def)
    then show "x \<in> listed_claims (query_event q) (views w t)"
      unfolding listed_claims_def by (intro CollectI exI[of _ r] exI[of _ op] exI[of _ sc]) simp
  next
    fix x
    assume "x \<in> listed_claims (query_event q) (views w t)"
    then obtain r op sc where "x = r\<lparr>or_Score := sc\<rparr>" "tv_outs (views w t) op = Some r"
        "tv_events (views w t) (query_event q) op = Some sc" "or_SpendTxid r = None" by (auto simp: listed_claims_def)
    then have "x \<in> ?S \<and> or_SpendTxid x = None"
      unfolding view_event_def by (intro conjI CollectI exI[of _ r] exI[of _ op] exI[of _ sc]) (simp_all add: z)
    then show "x \<in> {x \<in> ?S. or_SpendTxid x = None}" by blast
  qed
  ultimately show ?thesis using page_of_listed[of ?S recs q] f r(2) by auto
qed

lemma lookup_runs:
  assumes "ok w" "calm w" "DecodeQuery raw = Inr q" "text_ok (query_event q)"
  shows "\<exists>ops w'. alias_Lookup (Some T) (Some \<lparr>lq_Service = LookupName, lq_Query = raw\<rparr>) w = (Inr ops, w')"
proof -
  obtain r w' where r: "ts_FindByEvent T (query_event q) None w = (r, w')" by (cases "ts_FindByEvent T (query_event q) None w")
  then obtain recs where "r = Inr recs" using FindByEvent[OF assms(4), of None] assms(1,2) unfolding answers_def by blast
  moreover have "Mode q \<noteq> ModeNone" using decoded_ok[OF assms(3)] by (auto simp: query_ok_def mode_ok)
  ultimately show ?thesis
    using r assms(3) by (cases "Mode q") (auto simp: alias_Lookup_def query_event_def step_simps store_op_def)
qed

lemma save_event_run:
  assumes "ok w" "calm w" "wf_op op" "text_ok e" "f64_plain sc"
  shows "\<exists>w'. ts_SaveEvent T e op sc w = (Inr (), w') \<and> ok w' \<and> calm w' \<and> views w' t = v_SaveEvent e op sc (views w t) \<and>
    (\<forall>s. s \<noteq> t \<longrightarrow> views w' s = views w s)"
proof -
  obtain r w' where r: "ts_SaveEvent T e op sc w = (r, w')" by (cases "ts_SaveEvent T e op sc w")
  then show ?thesis using SaveEvent[OF assms(3,4,5)] assms(1,2) unfolding commits_def by blast
qed

end

section \<open>The topic and the lookup service\<close>

lemma round_plain: "f64_plain (f64_round p q)"
proof -
  have "unat (f64_round p q) = min (f64_bits p q) (unat f64_inf)"
    using inf_nat by (simp add: f64_round_def unat_of_nat min_def)
  then have "unat (f64_round p q) \<le> 2047 * 2 ^ 52" using inf_nat by simp
  then show ?thesis by (auto simp: f64_plain_def f64_nan_def f64_mag_def f64_neg_zero_def)
qed

lemma score_plain: "f64_plain (HeightScore nano h i)" "f64_plain (ScoreFromTx nano mp t)"
  by (simp_all add: HeightScore_def ScoreFromTx_def f64_div_def f64_add_def round_plain split: option.splits)

lemma decoded_claim:
  assumes "alias_Decode L s n = Inr c"
  shows "0 < n \<and> ValidateTokenAlias (cl_Alias c) = Inr () \<and> ValidateTokenDomain (cl_Domain c) = Inr () \<and>
    ValidateDERSignature (cl_Signature c) = Inr () \<and>
    (\<exists>sig. cv_FromDER L (cl_Signature c) = Some sig \<and>
       cv_Verify L sig (Digest L (cl_Alias c) (cl_Domain c) (cl_CertifierKey c)) (cl_CertifierKey c))"
  using assms
  by (auto simp: alias_Decode_def step_simps verify_claim_def ValidateTokenFields_def ValidateSats_def word_gt_0
      split: if_splits option.splits)

definition claim_events :: "claim \<Rightarrow> bytes set" where
  "claim_events c = {eventAliasPrefix @ cl_Alias c, eventDomainPrefix @ cl_Domain c, eventAll}"

lemma claim_events_text:
  assumes "ValidateTokenAlias (cl_Alias c) = Inr ()" "ValidateTokenDomain (cl_Domain c) = Inr ()" "e \<in> claim_events c"
  shows "CHR 0x00 \<notin> set e"
proof -
  have "list_all token_char (cl_Alias c)" "list_all token_char (cl_Domain c)"
    using assms(1,2) alias_normal_iff(2) domain_normal_iff(2) alias_token domain_token by blast+
  moreover have "\<not> token_char (CHR 0x00)" by (simp add: token_char_def is_lower_def is_digit_def byte_def)
  ultimately show ?thesis
    using assms(3) by (auto simp: claim_events_def eventAliasPrefix_def eventDomainPrefix_def eventAll_def list_all_iff)
qed

lemma admit_loop_mem:
  "x \<in> set (admit_loop L n xs acc) \<longleftrightarrow> x \<in> set acc \<or> (\<exists>i < length xs. x = of_nat (n + i) \<and> admits L (xs ! i))"
proof (induction xs arbitrary: n acc)
  case (Cons y ys)
  have s: "(\<exists>i < length (y # ys). x = of_nat (n + i) \<and> admits L ((y # ys) ! i)) \<longleftrightarrow>
      x = of_nat n \<and> admits L y \<or> (\<exists>i < length ys. x = of_nat (Suc n + i) \<and> admits L (ys ! i))"
    by (simp add: Ex_less_Suc2 del: of_nat_Suc of_nat_add)
  show ?case unfolding s by (simp add: Cons.IH del: of_nat_Suc of_nat_add) blast
qed simp

lemma admitted_output:
  assumes "IdentifyAdmissibleOutputs L (Some b) (Some t) = Inr a" "b t = Some tx" "length (at_Outputs tx) \<le> 2 ^ 32"
  shows "vout \<in> set (OutputsToAdmit a) \<longleftrightarrow> unat vout < length (at_Outputs tx) \<and> admits L (at_Outputs tx ! unat vout)"
proof -
  have a: "set (OutputsToAdmit a) = set (admit_loop L 0 (at_Outputs tx) [])"
    using assms(1,2) by (auto simp: IdentifyAdmissibleOutputs_def no_admittance_def)
  have "unat (of_nat i :: 32 word) = i" if "i < length (at_Outputs tx)" for i
    using that assms(3) by (simp add: unat_of_nat)
  then show ?thesis unfolding a admit_loop_mem by (auto intro: exI[of _ "unat vout"])
qed

context topic_storage
begin

lemma index_claim:
  assumes "ok w" "calm w" "wf_op op" "f64_plain sc" "\<forall>e \<in> claim_events c. text_ok e"
  shows "\<exists>w'. sseq (store_op (ts_SaveEvent T (eventAliasPrefix @ cl_Alias c) op sc))
      (sseq (store_op (ts_SaveEvent T (eventDomainPrefix @ cl_Domain c) op sc)) (store_op (ts_SaveEvent T eventAll op sc))) w = (Inr (), w') \<and>
    ok w' \<and> calm w' \<and> tv_outs (views w' t) = tv_outs (views w t) \<and> (\<forall>s. s \<noteq> t \<longrightarrow> views w' s = views w s) \<and>
    (\<forall>e p. tv_events (views w' t) e p = (if e \<in> claim_events c \<and> p = op then Some sc else tv_events (views w t) e p))"
proof -
  let ?A = "eventAliasPrefix @ cl_Alias c" and ?D = "eventDomainPrefix @ cl_Domain c"
  have x: "text_ok ?A" "text_ok ?D" "text_ok eventAll" using assms(5) by (simp_all add: claim_events_def)
  obtain w1 where 1: "ts_SaveEvent T ?A op sc w = (Inr (), w1)" "ok w1" "calm w1" "views w1 t = v_SaveEvent ?A op sc (views w t)"
      "\<forall>s. s \<noteq> t \<longrightarrow> views w1 s = views w s"
    using save_event_run[OF assms(1,2,3) x(1) assms(4)] by blast
  obtain w2 where 2: "ts_SaveEvent T ?D op sc w1 = (Inr (), w2)" "ok w2" "calm w2" "views w2 t = v_SaveEvent ?D op sc (views w1 t)"
      "\<forall>s. s \<noteq> t \<longrightarrow> views w2 s = views w1 s"
    using save_event_run[OF 1(2,3) assms(3) x(2) assms(4)] by blast
  obtain w3 where 3: "ts_SaveEvent T eventAll op sc w2 = (Inr (), w3)" "ok w3" "calm w3"
      "views w3 t = v_SaveEvent eventAll op sc (views w2 t)" "\<forall>s. s \<noteq> t \<longrightarrow> views w3 s = views w2 s"
    using save_event_run[OF 2(2,3) assms(3) x(3) assms(4)] by blast
  show ?thesis
    using 1 2 3 by (intro exI[of _ w3]) (auto simp: step_simps store_op_def v_SaveEvent_def claim_events_def)
qed

lemma admitted_indexed:
  assumes w: "ok w" "calm w" and texts: "\<forall>e. CHR 0x00 \<notin> set e \<longrightarrow> text_ok e"
    and beef: "al_NewBeefFromAtomicBytes L atomic = Some (x, b)" "b x = Some tx" "length x = 32" "length (at_Outputs tx) \<le> 2 ^ 32"
    and a: "IdentifyAdmissibleOutputs L (Some b) (Some x) = Inr a" "vout \<in> set (OutputsToAdmit a)"
  shows "\<exists>out c w'. at_Outputs tx ! unat vout = Some out \<and> alias_Decode L (ao_LockingScript out) (ao_Satoshis out) = Inr c \<and>
    alias_OutputAdmittedByTopic L nano (Some T) (Some \<lparr>pa_Topic = TopicName, pa_AtomicBEEF = atomic, pa_OutputIndex = vout\<rparr>) w = (Inr (), w') \<and>
    ok w' \<and> calm w' \<and> tv_outs (views w' t) = tv_outs (views w t) \<and> (\<forall>s. s \<noteq> t \<longrightarrow> views w' s = views w s) \<and>
    (\<forall>e p. tv_events (views w' t) e p =
      (if e \<in> claim_events c \<and> p = \<lparr>op_txid = x, op_index = vout\<rparr> then Some (ScoreFromTx nano (at_MerklePath tx) x)
       else tv_events (views w t) e p))"
proof -
  have v: "unat vout < length (at_Outputs tx)" "admits L (at_Outputs tx ! unat vout)"
    using admitted_output[OF a(1) beef(2,4)] a(2) by blast+
  then obtain out c where out: "at_Outputs tx ! unat vout = Some out"
      "alias_Decode L (ao_LockingScript out) (ao_Satoshis out) = Inr c"
    by (auto simp: admits_def split: option.splits sum.splits)
  have "wf_op \<lparr>op_txid = x, op_index = vout\<rparr>" using beef(3) by (simp add: wf_op_def)
  moreover have "\<forall>e \<in> claim_events c. text_ok e" using claim_events_text decoded_claim[OF out(2)] texts by blast
  ultimately show ?thesis
    using index_claim[OF w _ score_plain(2)] v(1) out beef(1,2)
    by (intro exI[of _ out] exI[of _ c]) (simp add: alias_OutputAdmittedByTopic_def Let_def)
qed

end

section \<open>A concrete registry\<close>

definition toy_chunks :: "bytes list \<Rightarrow> chunk list" where
  "toy_chunks fs = map (\<lambda>f. \<lparr>ck_op = length f, ck_data = f\<rparr>) fs @
     replicate 3 \<lparr>ck_op = Op2DROP, ck_data = []\<rparr> @
     [\<lparr>ck_op = 33, ck_data = CHR 0x02 # replicate 32 (CHR 0x01)\<rparr>, \<lparr>ck_op = OpCHECKSIG, ck_data = []\<rparr>]"

definition toy_key :: bytes where
  "toy_key = CHR 0x03 # replicate 32 (CHR 0x01)"

definition toy_signature :: bytes where
  "toy_signature = [CHR 0x30, CHR 0x06, CHR 0x02, CHR 0x01, CHR 0x05, CHR 0x02, CHR 0x01, CHR 0x07]"

definition toy_fields :: "bytes list" where
  "toy_fields = [ProtocolName, ProtocolVersion, ''bob'', ''a.bc'', toy_key, toy_signature]"

definition toy_tx :: alias_tx where
  "toy_tx = \<lparr>at_Outputs = [Some \<lparr>ao_LockingScript = Some [], ao_Satoshis = 1\<rparr>, None],
     at_MerklePath = Some \<lparr>pt_BlockHeight = 5, pt_Leaves = Some [\<lparr>lf_Hash = Some id_a, lf_Offset = 2\<rparr>]\<rparr>\<rparr>"

definition toy_beef :: "txid \<Rightarrow> alias_tx option" where
  "toy_beef = [id_a \<mapsto> toy_tx]"

definition toy_alias :: "bytes alias_lib" where
  "toy_alias = \<lparr>cv_P = 256 ^ 32, cv_ParsePubKey = (\<lambda>_. True), cv_FromDER = Some, cv_Verify = (\<lambda>s d k. s = toy_signature),
     cv_sha256 = (\<lambda>b. b), al_Chunks = (\<lambda>_. Some (toy_chunks toy_fields)),
     al_NewBeefFromAtomicBytes = (\<lambda>_. Some (id_a, toy_beef))\<rparr>"

definition toy_claim :: claim where
  "toy_claim = \<lparr>cl_Alias = ''bob'', cl_Domain = ''a.bc'', cl_CertifierKey = toy_key, cl_Signature = toy_signature\<rparr>"

lemma toy_key_ok: "be_nat (replicate 32 (CHR 0x01)) < 256 ^ 32" "length toy_key = 33"
  using be_nat_bound[of "replicate 32 (CHR 0x01)"] by (simp_all add: toy_key_def)

lemma toy_fields_ok: "ValidateTokenFields toy_alias toy_fields = Inr toy_claim"
proof -
  have "aliasGrammar ''bob'' = Inr ()" "domainGrammar ''a.bc'' = Inr ()"
    by (simp_all add: aliasGrammar_def domainGrammar_def domainLabel_def alias_constants is_lower_def byte_def)
  then have "ValidateTokenAlias ''bob'' = Inr ()" "ValidateTokenDomain ''a.bc'' = Inr ()"
    using alias_normal_iff(2) domain_normal_iff(2) by blast+
  moreover have "ValidateDERSignature toy_signature = Inr ()"
    by (simp add: toy_signature_def ValidateDERSignature_def parseDERInt_def high_bit_def byte_def)
  moreover have "parseCertifierKey toy_alias toy_key = Inr toy_key"
    using toy_key_ok by (simp add: parseCertifierKey_def toy_alias_def alias_constants) (simp add: toy_key_def)
  ultimately show ?thesis by (simp add: ValidateTokenFields_def toy_fields_def alias_constants toy_claim_def)
qed

lemma toy_locked: "decodeLockAfter toy_alias (Some []) = Inr toy_fields"
proof -
  let ?A = "map (\<lambda>f. \<lparr>ck_op = length f, ck_data = f\<rparr>) toy_fields" and ?O = "\<lparr>ck_op = 33, ck_data = CHR 0x02 # replicate 32 (CHR 0x01)\<rparr>"
  let ?drop = "\<lparr>ck_op = Op2DROP, ck_data = []\<rparr>" and ?c = "toy_chunks toy_fields"
  have A: "length ?A = 6" by (simp add: toy_fields_def)
  have c: "?c = (?A @ [?drop, ?drop, ?drop]) @ [?O, \<lparr>ck_op = OpCHECKSIG, ck_data = []\<rparr>]"
    by (simp add: toy_chunks_def numeral_3_eq_3)
  have l: "length ?c = 11" "ck_op (last ?c) = OpCHECKSIG" "?c ! 9 = ?O" unfolding c using A by (simp_all add: nth_append)
  have t: "take 9 ?c = ?A @ [?drop, ?drop, ?drop]" "take 6 ?c = ?A" unfolding c using A by simp_all
  have rev: "rev ?A = \<lparr>ck_op = 8, ck_data = toy_signature\<rparr> # rev (map (\<lambda>f. \<lparr>ck_op = length f, ck_data = f\<rparr>) (butlast toy_fields))"
    by (simp add: toy_fields_def toy_signature_def)
  have d: "drop_loop 0 (rev (take 9 ?c)) = (6, 6)"
    unfolding t by (simp add: rev del: rev_map) (simp add: alias_opcodes toy_fields_def)
  have o: "check_owner toy_alias ?O = Inr ()"
    using toy_key_ok(1) by (simp add: check_owner_def pushOperand_def alias_opcodes toy_alias_def alias_constants)
  have p: "push_fields ?A = Inr toy_fields"
    by (simp add: toy_fields_def pushOperand_def alias_opcodes ProtocolName_def ProtocolVersion_def toy_key_ok(2) toy_signature_def)
  have s: "al_Chunks toy_alias [] = Some ?c" by (simp add: toy_alias_def)
  have g: "\<not> (length ?c < 2 \<or> ck_op (last ?c) \<noteq> OpCHECKSIG)" "length ?c - 2 = 9" using l by simp_all
  show ?thesis
    unfolding decodeLockAfter_def option.case s g(2) l(3) o d t(2) p rbind_simps Let_def prod.case FieldCount_def using g(1) by simp
qed

lemma toy_decode: "alias_Decode toy_alias (Some []) 1 = Inr toy_claim"
  by (simp add: alias_Decode_def ValidateSats_def toy_locked toy_fields_ok verify_claim_def)
    (simp add: toy_alias_def toy_claim_def)

lemma toy_admits: "IdentifyAdmissibleOutputs toy_alias (Some toy_beef) (Some id_a) = Inr (no_admittance\<lparr>OutputsToAdmit := [0]\<rparr>)"
  by (simp add: IdentifyAdmissibleOutputs_def toy_beef_def toy_tx_def admits_def toy_decode)

section \<open>Properties\<close>


text \<open>
  C38: \<open>ValidateDERSignature\<close> accepts exactly the DER sequences of two numbers below \<open>2 ^ 263\<close>, each in its shortest form,
  that are 8 to 72 bytes long: two numbers have one signature.
\<close>

theorem der_signatures_exact:
  "ValidateDERSignature sig = Inr () \<longleftrightarrow>
    (\<exists>r s. sig = der_signature r s \<and> r < 2 ^ 263 \<and> s < 2 ^ 263 \<and> 8 \<le> length sig \<and> length sig \<le> 72)"
  by (rule der_accepted)

text \<open>
  C39: over any topic storage, the lookup answers a query with the page it asks for (default limit 100) of the unspent outputs that
  stand under the query's alias or domain, or under all claims: each once, by score and then by output index; it changes nothing.
\<close>

theorem alias_lookup_exact:
  assumes S: "topic_storage T t keeps most text_ok ok calm views"
    and w: "ok w" and run: "alias_Lookup (Some T) (Some \<lparr>lq_Service = LookupName, lq_Query = raw\<rparr>) w = (Inr ops, w')"
    and q: "DecodeQuery raw = Inr q" and key: "text_ok (query_event q)"
    and scores: "\<forall>op sc. tv_events (views w t) (query_event q) op = Some sc \<longrightarrow> \<not> f64_nan sc"
  shows "\<exists>ys. distinct (map or_Outpoint ys) \<and> set ys = listed_claims (query_event q) (views w t) \<and> sorted_wrt in_order ys \<and>
    ops = take (unat (PageLimit q)) (drop (unat (PageSkip q)) (map or_Outpoint ys)) \<and> views w' = views w"
  by (rule topic_storage.lookup_exact[OF S w run q key scores])

text \<open>
  C40: every output that the topic admits is indexed without an error by the lookup service, over any topic storage that is not failing: it decodes to a claim whose
  alias and domain are normalized and whose signature the certifier's key verifies over the five fields, and the storage then holds its outpoint under its
  alias, its domain and all claims, with the score of its transaction; nothing else changes.
\<close>

theorem admitted_claims_indexed:
  assumes S: "topic_storage T t keeps most text_ok ok calm views"
    and w: "ok w" "calm w" and texts: "\<forall>e. CHR 0x00 \<notin> set e \<longrightarrow> text_ok e"
    and beef: "al_NewBeefFromAtomicBytes L atomic = Some (x, b)" "b x = Some tx" "length x = 32" "length (at_Outputs tx) \<le> 2 ^ 32"
    and a: "IdentifyAdmissibleOutputs L (Some b) (Some x) = Inr a" "vout \<in> set (OutputsToAdmit a)"
  shows "\<exists>out c sig w'. at_Outputs tx ! unat vout = Some out \<and> alias_Decode L (ao_LockingScript out) (ao_Satoshis out) = Inr c \<and>
    ValidateTokenAlias (cl_Alias c) = Inr () \<and> ValidateTokenDomain (cl_Domain c) = Inr () \<and>
    cv_FromDER L (cl_Signature c) = Some sig \<and>
    cv_Verify L sig (cv_sha256 L (Preimage ProtocolName ProtocolVersion (cl_Alias c) (cl_Domain c) (cl_CertifierKey c))) (cl_CertifierKey c) \<and>
    alias_OutputAdmittedByTopic L nano (Some T) (Some \<lparr>pa_Topic = TopicName, pa_AtomicBEEF = atomic, pa_OutputIndex = vout\<rparr>) w = (Inr (), w') \<and>
    tv_outs (views w' t) = tv_outs (views w t) \<and> (\<forall>s. s \<noteq> t \<longrightarrow> views w' s = views w s) \<and>
    (\<forall>e p. tv_events (views w' t) e p =
      (if e \<in> claim_events c \<and> p = \<lparr>op_txid = x, op_index = vout\<rparr> then Some (ScoreFromTx nano (at_MerklePath tx) x)
       else tv_events (views w t) e p))"
proof -
  obtain out c w' where r: "at_Outputs tx ! unat vout = Some out" "alias_Decode L (ao_LockingScript out) (ao_Satoshis out) = Inr c"
    "alias_OutputAdmittedByTopic L nano (Some T) (Some \<lparr>pa_Topic = TopicName, pa_AtomicBEEF = atomic, pa_OutputIndex = vout\<rparr>) w = (Inr (), w')"
    "tv_outs (views w' t) = tv_outs (views w t)" "\<forall>s. s \<noteq> t \<longrightarrow> views w' s = views w s"
    "\<forall>e p. tv_events (views w' t) e p =
      (if e \<in> claim_events c \<and> p = \<lparr>op_txid = x, op_index = vout\<rparr> then Some (ScoreFromTx nano (at_MerklePath tx) x)
       else tv_events (views w t) e p)"
    using topic_storage.admitted_indexed[OF S w texts beef a, of nano] by blast
  then show ?thesis
    using decoded_claim[OF r(2)] unfolding Digest_def DigestFields_def Preimage_def by blast
qed

abbreviation toy_storage :: "sqlite_world topic_ops" where
  "toy_storage \<equiv> SQLiteStorage demo_sdk plain_engine ''t''"

lemma filled_ok: "sq_ok demo_sdk filled_world" "sq_calm filled_world"
  using clock.insert_outputs[OF fresh_ok _ _ _ filled_run(1)] filled_run(3) by (simp_all add: id_a_def sq_calm_def)

lemmas toy_setting = tables.sqlite_topic[of "''t''"] filled_ok

lemma toy_beef_facts:
  "al_NewBeefFromAtomicBytes toy_alias [] = Some (id_a, toy_beef)" "toy_beef id_a = Some toy_tx" "length id_a = 32"
  "length (at_Outputs toy_tx) \<le> 2 ^ 32" "0 \<in> set (OutputsToAdmit (no_admittance\<lparr>OutputsToAdmit := [0]\<rparr>))"
  "at_Outputs toy_tx ! unat (0 :: 32 word) = Some \<lparr>ao_LockingScript = Some [], ao_Satoshis = 1\<rparr>" "\<lparr>op_txid = id_a, op_index = 0\<rparr> = out_a"
  "ScoreFromTx 0 (at_MerklePath toy_tx) id_a = HeightScore 0 5 2"
  by (simp_all add: toy_alias_def toy_beef_def id_a_def toy_tx_def out_a_def ScoreFromTx_def)

lemma toy_text: "\<forall>e. CHR 0x00 \<notin> set e \<longrightarrow> (\<lambda>_ :: bytes. True) e"
  by simp

theorem admitted_claims_indexed_witness:
  "\<exists>w'. alias_OutputAdmittedByTopic toy_alias 0 (Some toy_storage)
      (Some \<lparr>pa_Topic = TopicName, pa_AtomicBEEF = [], pa_OutputIndex = 0\<rparr>) filled_world = (Inr (), w') \<and>
    tv_events (sq_views demo_sdk w' ''t'') ''alias:bob'' out_a = Some (HeightScore 0 5 2)"
proof -
  obtain out c w' where r: "at_Outputs toy_tx ! unat (0 :: 32 word) = Some out"
    "alias_Decode toy_alias (ao_LockingScript out) (ao_Satoshis out) = Inr c"
    "alias_OutputAdmittedByTopic toy_alias 0 (Some toy_storage)
      (Some \<lparr>pa_Topic = TopicName, pa_AtomicBEEF = [], pa_OutputIndex = 0\<rparr>) filled_world = (Inr (), w')"
    "\<forall>e p. tv_events (sq_views demo_sdk w' ''t'') e p =
      (if e \<in> claim_events c \<and> p = out_a then Some (HeightScore 0 5 2) else tv_events (sq_views demo_sdk filled_world ''t'') e p)"
    using admitted_claims_indexed[OF toy_setting toy_text toy_beef_facts(1-4) toy_admits toy_beef_facts(5), of 0]
    unfolding toy_beef_facts(7,8) by (elim exE conjE) (rule that)
  have "c = toy_claim" using r(1,2) toy_beef_facts(6) toy_decode by simp
  then have "''alias:bob'' \<in> claim_events c" by (simp add: toy_claim_def claim_events_def eventAliasPrefix_def)
  then show ?thesis using r(3,4) by (intro exI[of _ w']) simp
qed

lemma toy_indexed:
  "\<exists>w'. alias_OutputAdmittedByTopic toy_alias 0 (Some toy_storage)
      (Some \<lparr>pa_Topic = TopicName, pa_AtomicBEEF = [], pa_OutputIndex = 0\<rparr>) filled_world = (Inr (), w') \<and>
    sq_ok demo_sdk w' \<and> sq_calm w' \<and> tv_outs (sq_views demo_sdk w' ''t'') = tv_outs (sq_views demo_sdk filled_world ''t'') \<and>
    (\<forall>p. tv_events (sq_views demo_sdk w' ''t'') eventAll p = (if p = out_a then Some (HeightScore 0 5 2) else None))"
proof -
  obtain out c w' where r: "alias_OutputAdmittedByTopic toy_alias 0 (Some toy_storage)
      (Some \<lparr>pa_Topic = TopicName, pa_AtomicBEEF = [], pa_OutputIndex = 0\<rparr>) filled_world = (Inr (), w')"
    "sq_ok demo_sdk w'" "sq_calm w'" "tv_outs (sq_views demo_sdk w' ''t'') = tv_outs (sq_views demo_sdk filled_world ''t'')"
    "\<forall>e p. tv_events (sq_views demo_sdk w' ''t'') e p =
      (if e \<in> claim_events c \<and> p = out_a then Some (HeightScore 0 5 2) else tv_events (sq_views demo_sdk filled_world ''t'') e p)"
    using topic_storage.admitted_indexed[OF toy_setting toy_text toy_beef_facts(1-4) toy_admits toy_beef_facts(5), of 0]
    unfolding toy_beef_facts(7,8) by (elim exE conjE) (rule that)
  have "tv_events (sq_views demo_sdk filled_world ''t'') e p = None" for e p
    by (simp add: sq_views_def tables_view_def filled_run ev_view_def t_get_def)
  then show ?thesis using r by (intro exI[of _ w']) (simp add: claim_events_def)
qed

theorem alias_lookup_exact_witness:
  "\<exists>w'. alias_Lookup (Some toy_storage) (Some \<lparr>lq_Service = LookupName, lq_Query = ''{}''\<rparr>)
      (snd (alias_OutputAdmittedByTopic toy_alias 0 (Some toy_storage)
        (Some \<lparr>pa_Topic = TopicName, pa_AtomicBEEF = [], pa_OutputIndex = 0\<rparr>) filled_world)) = (Inr [out_a], w')"
proof -
  obtain w1 where w1: "alias_OutputAdmittedByTopic toy_alias 0 (Some toy_storage)
      (Some \<lparr>pa_Topic = TopicName, pa_AtomicBEEF = [], pa_OutputIndex = 0\<rparr>) filled_world = (Inr (), w1)"
    "sq_ok demo_sdk w1" "sq_calm w1" "tv_outs (sq_views demo_sdk w1 ''t'') = tv_outs (sq_views demo_sdk filled_world ''t'')"
    "\<forall>p. tv_events (sq_views demo_sdk w1 ''t'') eventAll p = (if p = out_a then Some (HeightScore 0 5 2) else None)"
    using toy_indexed by blast
  have q: "DecodeQuery ''{}'' = Inr no_query"
    using print_decode[of no_query] by (simp add: print_query_def query_members_def no_query_def query_ok_def fields_ok_def)
  have e: "query_event no_query = eventAll" by (simp add: query_event_def no_query_def Mode_def)
  obtain ops w2 where run: "alias_Lookup (Some toy_storage) (Some \<lparr>lq_Service = LookupName, lq_Query = ''{}''\<rparr>) w1 = (Inr ops, w2)"
    using topic_storage.lookup_runs[OF toy_setting(1) w1(2,3) q] by blast
  have plain: "\<not> f64_nan (HeightScore 0 5 2)" using score_plain(1) by (simp add: f64_plain_def)
  have out: "\<exists>r. tv_outs (sq_views demo_sdk w1 ''t'') out_a = Some r \<and> or_SpendTxid r = None \<and> or_Outpoint r = out_a"
    unfolding w1(4) using demo_rows[of out_a]
    by (simp add: sq_views_def tables_view_def filled_run out_view_def t_get_def new_row_def wf_op_def out_a_def id_a_def rec_of_def)
  then obtain r where r: "tv_outs (sq_views demo_sdk w1 ''t'') out_a = Some r" "or_SpendTxid r = None" "or_Outpoint r = out_a" by blast
  have scores: "\<forall>op sc. tv_events (sq_views demo_sdk w1 ''t'') (query_event no_query) op = Some sc \<longrightarrow> \<not> f64_nan sc"
    using w1(5) plain unfolding e by (metis option.distinct(1) option.inject)
  obtain ys where ys: "distinct (map or_Outpoint ys)" "set ys = listed_claims eventAll (sq_views demo_sdk w1 ''t'')"
      "ops = take 100 (map or_Outpoint ys)"
    using alias_lookup_exact[OF toy_setting(1) w1(2) run q _ scores] unfolding e
    by (auto simp: PageLimit_def PageSkip_def no_query_def DefaultLimit_def)
  have "listed_claims eventAll (sq_views demo_sdk w1 ''t'') = {r\<lparr>or_Score := HeightScore 0 5 2\<rparr>}"
    unfolding listed_claims_def using w1(5) r by (auto split: if_splits)
  then have "map or_Outpoint ys = [out_a]" using ys(1,2) r(3) by (cases ys; cases "tl ys") (auto simp: subset_singleton_iff)
  then show ?thesis using run ys(3) w1(1) by simp
qed

end
