(* ===== verification/Spec2Isabelle.thy ===== *)
theory Spec2Isabelle
  imports StoreProps Score Ordinals BadgerOutputs Bsv21Props ShrugProps Dedup WorkerProps BeefCache BeefLoad OriginBadger OrdfsProps OverlayProps AliasProps
begin

text \<open>
  A verification development for the 1sat-stack overlay server.

  \<^bold>\<open>The program.\<close> The server indexes transactions that carry one-satoshi ordinals and tokens. Outputs that a
  topic manager admits are kept in an output store over a key-value store; transactions are kept as BEEFs in a chain
  of storages, and so are spends; workers drain queues that are sorted sets of the store; the ordinal file system
  follows an ordinal to its origin and serves its content.

  \<^bold>\<open>Conventions.\<close> A Go operation with an error result is a function to \<open>err + 'a\<close>; one that writes is
  a state function \<open>('s, err, 'a) sm\<close> (\<open>Prelude\<close>). Byte slices and strings are \<open>bytes\<close>. Integers
  keep their width where they can wrap. Loops that no measure bounds take fuel and answer \<open>None\<close> (or
  \<open>Diverge\<close>) without it; a lemma says which fuel is enough. Panics are errors of their own.
  Concurrent code is a step relation over the shared state and the goroutines' program counters. Libraries are records
  of functions (the database engine, scripts, JSON, ids, Merkle proofs), used through locales that state their
  documented behaviour, each with an interpretation on a concrete instance; interfaces of the program
  are records of operations whose laws are locales, interpreted on the provider the program has.

  \<^bold>\<open>The key-value store\<close> (\<open>pkg/store\<close>). \<open>Float64\<close> and \<open>Engine\<close>: doubles as their bits, and the database engine.
  \<open>StoreTypes\<close> and \<open>BadgerStore\<close>: the interface and the Badger backend: values, sets, hashes and sorted sets with a score
  index. \<open>StoreLaws\<close>, \<open>BadgerLaws\<close>: the interface's laws, and that Badger keeps them. \<open>StoreSearch\<close>,
  \<open>BadgerSearch\<close>: the paged search over several sorted sets and its equality with a merge. \<open>StoreProps\<close>: properties.

  \<^bold>\<open>Outputs and spends\<close> (\<open>pkg/txo\<close>, \<open>pkg/spends\<close>, \<open>pkg/types\<close>). \<open>Txo\<close>: keys and indexed outputs. \<open>OutputStore\<close>,
  \<open>OutputLaws\<close>, \<open>BadgerOutputs\<close>: the output store, its contract and the properties over Badger. \<open>Ordinals\<close>: which output
  an input's ordinal goes to. \<open>LruList\<close>, \<open>Spends\<close>: the container list of the memory caches, and the spend storages.

  \<^bold>\<open>Scripts and topics\<close> (\<open>pkg/template\<close>, \<open>pkg/bsv21\<close>, \<open>pkg/shrug\<close>). \<open>Template\<close>, \<open>TemplateLaws\<close>, \<open>TemplateProps\<close>:
  decoders and encoders of inscriptions and tokens. \<open>Bitcom\<close>: the protocols after an \<open>OP_RETURN\<close>. \<open>TopicBase\<close>,
  \<open>Bsv21Topic\<close>, \<open>Bsv21Laws\<close>, \<open>Bsv21Props\<close>, \<open>ShrugTopic\<close>, \<open>ShrugProps\<close>: which outputs the validated token topics admit.

  \<^bold>\<open>Concurrency\<close> (\<open>pkg/dedup\<close>, \<open>pkg/worker\<close>). \<open>Dedup\<close>: calls that share one operation. \<open>Worker\<close>, \<open>WorkerProps\<close>: the
  queue worker and its limiter.

  \<^bold>\<open>Transactions\<close> (\<open>pkg/beef\<close>). \<open>Beef\<close>: the storages and their chain. \<open>BeefCache\<close>: the memory cache as a list
  in order of use. \<open>BeefLoad\<close>: loading with proofs.

  \<^bold>\<open>The ordinal file system\<close> (\<open>pkg/ordfs\<close>). \<open>OriginStore\<close>, \<open>OriginLaws\<close>, \<open>OriginBadger\<close>: the index of ordinal
  chains, its contract on maps, and that the Badger store keeps it. \<open>Ordfs\<close>: parsing, crawling, resolving and
  streaming. \<open>OrdfsLaws\<close>: the lemmas of these; \<open>OrdfsLedger\<close>, \<open>OrdfsWorld\<close>: a ledger of transactions and the
  operations over it; \<open>OrdfsCrawl\<close>, \<open>OrdfsResolve\<close>, \<open>OrdfsStream\<close>: what the crawls find, what a pointer resolves to
  and what is streamed; \<open>OrdfsProps\<close>: the properties.

  \<^bold>\<open>The overlay's storage\<close> (\<open>pkg/overlay/storage\<close>). \<open>TopicStore\<close>: the interface of a topic's storage, its contract over
  plain maps and the index from transactions to topics. \<open>SqlTable\<close>, \<open>OutputRows\<close>, \<open>TopicTables\<close>: tables, rows and the
  statements both databases run. \<open>SqliteTopic\<close>, \<open>SqliteLaws\<close>, \<open>PostgresTopic\<close>, \<open>PostgresLaws\<close>: the two storages and their
  factories, and that each keeps the contract. \<open>OverlayAdapter\<close>, \<open>OverlayLaws\<close>, \<open>OverlayProps\<close>: the adapter the engine
  calls, over the output store, the BEEF storage and the topic storages, and its properties.

  \<^bold>\<open>The alias registry\<close> (\<open>pkg/ecosystemalias\<close>, \<open>pkg/types/score.go\<close>). \<open>Score\<close>: the scores of transactions as rounded doubles and
  their order. \<open>GoText\<close>, \<open>GoJson\<close>: runes, spaces and the token stream of the JSON decoder. \<open>AliasContract\<close>, \<open>AliasQuery\<close>,
  \<open>AliasService\<close>: validation of claims, decoding of queries, the topic and the lookup over a topic storage. \<open>AliasLaws\<close>,
  \<open>AliasProps\<close>: lemmas and properties.

  \<^bold>\<open>Fuel.\<close> The script decoders take one step per byte and get one more than the length of the script. The paged
  searches get fuel that \<open>StoreSearch\<close> bounds by the entries in range. Loading a BEEF gets
  fuel for the depth of the ancestry. The crawls take one step per outpoint of the chain.

  \<^bold>\<open>Not modelled.\<close> Pages, commands, settings and logging; clients of remote services and their protocols; the
  application tables in SQL, and MongoDB and Redis, whose statements would have to be assumed; the wallet, which is bound to an external
  library; signatures; cancellation by a context and the texts of wrapped errors. The
  remaining topics and lookups, and the indexer are not modelled: they read and write what the storages above hold.
\<close>

end
